(* ===== verification/Prelude.thy ===== *)
theory Prelude
  imports
    Main
    "HOL-Library.Char_ord"
    "HOL-Library.List_Lexorder"
    "HOL-Library.Sublist"
    "HOL-Library.Multiset"
begin

text \<open>
  Shared base of the development: the collections of rewrite rules the component theories
  add to, the error type of a Go call, and the generic facts on lists, association lists and
  bounded maps that several components use.

  A Go \<open>error\<close> return is \<open>Inl\<close> of an \<open>error\<close>, a normal return \<open>Inr\<close>.  Errors carry the
  message the code builds, so that two failing branches stay different values.
\<close>

named_theorems go_eval \<open>definitions unfolded when a concrete run is evaluated\<close>
named_theorems go_keep \<open>frame facts: what an operation leaves unchanged\<close>

subsection \<open>Results\<close>

type_synonym 'a result = "string + 'a"

definition bind_result :: "'a result \<Rightarrow> ('a \<Rightarrow> 'b result) \<Rightarrow> 'b result" where
  "bind_result r f = (case r of Inl e \<Rightarrow> Inl e | Inr x \<Rightarrow> f x)"

lemma bind_result_simps [simp]:
  "bind_result (Inl e) f = Inl e"
  "bind_result (Inr x) f = f x"
  by (simp_all add: bind_result_def)

lemma bind_result_Inr_iff:
  "bind_result r f = Inr y \<longleftrightarrow> (\<exists>x. r = Inr x \<and> f x = Inr y)"
  by (cases r) auto

lemma sum_case_Inr_iff:
  "(case r of Inl e \<Rightarrow> Inl (g e) | Inr x \<Rightarrow> f x) = Inr y \<longleftrightarrow> (\<exists>x. r = Inr x \<and> f x = Inr y)"
  by (cases r) auto

text \<open>A guard of the code: stop with the error unless the condition holds.\<close>

definition guard :: "bool \<Rightarrow> string \<Rightarrow> unit result" where
  "guard b e = (if b then Inr () else Inl e)"

lemma guard_iff [simp]:
  "guard b e = Inr u \<longleftrightarrow> b"
  "guard b e = Inl d \<longleftrightarrow> \<not> b \<and> d = e"
  by (auto simp: guard_def)

subsection \<open>Association lists\<close>

text \<open>A Go map whose iteration order does not matter is an association list; writing a key
  replaces its value in place or appends it, and deleting removes it.\<close>

fun alist_put :: "'k \<Rightarrow> 'v \<Rightarrow> ('k \<times> 'v) list \<Rightarrow> ('k \<times> 'v) list" where
  "alist_put k v [] = [(k, v)]"
| "alist_put k v ((k', v') # m) = (if k = k' then (k, v) # m else (k', v') # alist_put k v m)"

lemma map_of_alist_put [simp]: "map_of (alist_put k v m) = (map_of m)(k \<mapsto> v)"
  by (induction m) (auto simp: fun_eq_iff)

lemma set_keys_alist_put: "set (map fst (alist_put k v m)) = insert k (set (map fst m))"
  by (induction k v m rule: alist_put.induct) auto

lemma distinct_alist_put: "distinct (map fst m) \<Longrightarrow> distinct (map fst (alist_put k v m))"
  by (induction k v m rule: alist_put.induct) (auto simp: set_keys_alist_put [simplified])

lemma alist_put_same_keys: "k \<in> set (map fst m) \<Longrightarrow> map fst (alist_put k v m) = map fst m"
  by (induction k v m rule: alist_put.induct) auto

lemma alist_put_new: "k \<notin> set (map fst m) \<Longrightarrow> alist_put k v m = m @ [(k, v)]"
  by (induction k v m rule: alist_put.induct) auto

subsection \<open>Lists\<close>

lemma distinct_snoc: "distinct (xs @ [x]) \<longleftrightarrow> distinct xs \<and> x \<notin> set xs"
  by auto

lemma take_drop_split: "i \<le> j \<Longrightarrow> take i xs @ take (j - i) (drop i xs) = take j xs"
  by (metis add_diff_inverse_nat not_less take_add)

text \<open>Slicing \<open>text[i:j]\<close> of Go; the model guards it where the code could panic.\<close>

definition slice :: "nat \<Rightarrow> nat \<Rightarrow> 'a list \<Rightarrow> 'a list" where
  "slice i j xs = take (j - i) (drop i xs)"

lemma length_slice: "j \<le> length xs \<Longrightarrow> length (slice i j xs) = j - i"
  by (auto simp: slice_def)

lemma length_slice_le: "length (slice i j xs) \<le> j - i"
  by (auto simp: slice_def)

lemma slice_full [simp]: "slice 0 (length xs) xs = xs"
  by (simp add: slice_def)

lemma slice_append:
  assumes "i \<le> j" "j \<le> k"
  shows "slice i j xs @ slice j k xs = slice i k xs"
proof -
  have "drop j xs = drop (j - i) (drop i xs)" and "k - i = (j - i) + (k - j)"
    using assms by simp_all
  then show ?thesis
    by (simp only: slice_def take_add)
qed

lemma slice_nth: "i + n < j \<Longrightarrow> j \<le> length xs \<Longrightarrow> slice i j xs ! n = xs ! (i + n)"
  by (simp add: slice_def)

lemma set_slice_subset: "set (slice i j xs) \<subseteq> set xs"
  unfolding slice_def by (meson in_set_dropD in_set_takeD subsetI)

lemma takeWhile_stop:
  "list_all P xs \<Longrightarrow> (\<And>y ys. t = y # ys \<Longrightarrow> \<not> P y) \<Longrightarrow> takeWhile P (xs @ t) = xs"
  by (induction xs) (cases t, auto)

lemma sum_list_map_le_member:
  fixes f :: "'a \<Rightarrow> nat"
  shows "x \<in> set xs \<Longrightarrow> f x \<le> sum_list (map f xs)"
  by (induction xs) auto

lemma size_list_member: "x \<in> set xs \<Longrightarrow> f x < size_list f xs"
  by (induction xs) auto

text \<open>Stable sorting by a key: the order \<open>sort.Strings\<close>, \<open>slices.SortFunc\<close> on distinct keys and
  an SQL \<open>ORDER BY\<close> produce.\<close>

lemma filter_key_distinct:
  "distinct (map f zs) \<Longrightarrow> k \<in> set zs \<Longrightarrow> filter (\<lambda>x. f k = f x) zs = [k]"
proof (induction zs)
  case (Cons z zs)
  then show ?case
    by (cases "z = k") (auto simp: filter_empty_conv image_iff)
qed simp

lemma sort_key_perm_distinct:
  assumes "mset xs = mset ys" and "distinct (map f xs)"
  shows "sort_key f xs = sort_key f ys"
proof (rule properties_for_sort_key)
  show "mset (sort_key f ys) = mset xs"
    using assms(1) by simp
  have "distinct (map f (sort_key f ys))"
    using assms by (metis mset_map mset_sort mset_eq_imp_distinct_iff)
  moreover have "set (sort_key f ys) = set xs"
    using assms(1) by (metis mset_eq_setD set_sort)
  ultimately show "\<And>k. k \<in> set (sort_key f ys) \<Longrightarrow>
      filter (\<lambda>x. f k = f x) (sort_key f ys) = filter (\<lambda>x. f k = f x) xs"
    using assms(2) by (simp add: filter_key_distinct)
  show "sorted (map f (sort_key f ys))" by simp
qed

end
