(* ===== verification/GoStrings.thy ===== *)
theory GoStrings
  imports Prelude
begin

text \<open>
  Go strings and what the program uses of the packages \<open>strings\<close>, \<open>strconv\<close> and
  \<open>unicode/utf8\<close>.  A Go string is a byte sequence, and so is an Isabelle \<open>string\<close>: a \<open>char\<close> is
  one byte, \<open>length\<close> counts bytes and the order of \<open>HOL-Library.List_Lexorder\<close> is the
  bytewise order of Go's \<open><\<close> and of SQLite's text comparison.
\<close>

subsection \<open>Bytes\<close>

abbreviation byte :: "char \<Rightarrow> nat" where
  "byte c \<equiv> of_char c"

definition is_digit :: "char \<Rightarrow> bool" where
  "is_digit c \<longleftrightarrow> CHR ''0'' \<le> c \<and> c \<le> CHR ''9''"

definition digit_value :: "char \<Rightarrow> nat" where
  "digit_value c = byte c - 48"

definition newline :: string where "newline = [CHR 0x0A]"
definition nul :: string where "nul = [CHR 0x00]"

subsection \<open>Searching and cutting\<close>

fun Index :: "string \<Rightarrow> string \<Rightarrow> nat option" where
  "Index s sub =
     (if prefix sub s then Some 0
      else (case s of [] \<Rightarrow> None | _ # s' \<Rightarrow> map_option Suc (Index s' sub)))"

declare Index.simps [simp del]

definition Contains :: "string \<Rightarrow> string \<Rightarrow> bool" where
  "Contains s sub \<longleftrightarrow> Index s sub \<noteq> None"

definition ContainsAny :: "string \<Rightarrow> string \<Rightarrow> bool" where
  "ContainsAny s chars \<longleftrightarrow> (\<exists>c \<in> set s. c \<in> set chars)"

definition TrimPrefix :: "string \<Rightarrow> string \<Rightarrow> string" where
  "TrimPrefix s p = (if prefix p s then drop (length p) s else s)"

definition TrimSuffix :: "string \<Rightarrow> string \<Rightarrow> string" where
  "TrimSuffix s p = (if suffix p s then take (length s - length p) s else s)"

definition CutPrefix :: "string \<Rightarrow> string \<Rightarrow> string option" where
  "CutPrefix s p = (if prefix p s then Some (drop (length p) s) else None)"

definition Cut :: "string \<Rightarrow> string \<Rightarrow> (string \<times> string) option" where
  "Cut s sep = (case Index s sep of None \<Rightarrow> None
                | Some i \<Rightarrow> Some (take i s, drop (i + length sep) s))"

text \<open>\<open>strings.Split\<close> for a separator of one byte, the only kind the program uses.\<close>

fun Split :: "char \<Rightarrow> string \<Rightarrow> string list" where
  "Split sep [] = [[]]"
| "Split sep (c # s) =
     (if c = sep then [] # Split sep s
      else (case Split sep s of [] \<Rightarrow> [[c]] | w # ws \<Rightarrow> (c # w) # ws))"

fun Join :: "string list \<Rightarrow> string \<Rightarrow> string" where
  "Join [] sep = []"
| "Join [w] sep = w"
| "Join (w # v # ws) sep = w @ sep @ Join (v # ws) sep"

definition Trim :: "string \<Rightarrow> string \<Rightarrow> string" where
  "Trim s cutset = rev (dropWhile (\<lambda>c. c \<in> set cutset) (rev (dropWhile (\<lambda>c. c \<in> set cutset) s)))"

definition TrimRight :: "string \<Rightarrow> string \<Rightarrow> string" where
  "TrimRight s cutset = rev (dropWhile (\<lambda>c. c \<in> set cutset) (rev s))"

definition LastIndexByte :: "string \<Rightarrow> (char \<Rightarrow> bool) \<Rightarrow> nat option" where
  "LastIndexByte s P =
     (let r = takeWhile (\<lambda>c. \<not> P c) (rev s)
      in if length r = length s then None else Some (length s - length r - 1))"

definition IndexByte :: "string \<Rightarrow> (char \<Rightarrow> bool) \<Rightarrow> nat option" where
  "IndexByte s P =
     (let r = takeWhile (\<lambda>c. \<not> P c) s in if length r = length s then None else Some (length r))"

lemma Index_Nil: "Index [] sub = (if sub = [] then Some 0 else None)"
  by (simp add: Index.simps [of "[]"])

lemma Index_Cons:
  "Index (c # s) sub = (if prefix sub (c # s) then Some 0 else map_option Suc (Index s sub))"
  by (simp add: Index.simps [of "c # s"])

lemma Index_Some_split:
  "Index s sub = Some i \<Longrightarrow> i + length sub \<le> length s \<and> take (length sub) (drop i s) = sub"
  by (induction s arbitrary: i)
    (auto simp: Index_Nil Index_Cons prefix_def dest: arg_cong [where f = length] split: if_splits)

lemma Index_is_Some_iff: "(\<exists>i. Index s sub = Some i) \<longleftrightarrow> (\<exists>u v. s = u @ sub @ v)"
proof
  assume "\<exists>i. Index s sub = Some i"
  then obtain i where "take (length sub) (drop i s) = sub" and "i + length sub \<le> length s"
    using Index_Some_split by blast
  then have "s = take i s @ sub @ drop (i + length sub) s"
    by (metis append_take_drop_id drop_drop add.commute)
  then show "\<exists>u v. s = u @ sub @ v" by blast
next
  assume "\<exists>u v. s = u @ sub @ v"
  then obtain u v where "s = u @ sub @ v" by blast
  then show "\<exists>i. Index s sub = Some i"
    by (induction u arbitrary: s) (auto simp: Index.simps [of "sub @ v"] Index_Cons prefix_def)
qed

lemma Contains_iff: "Contains s sub \<longleftrightarrow> (\<exists>u v. s = u @ sub @ v)"
  using Index_is_Some_iff [of s sub] by (simp add: Contains_def)

lemma Contains_refl [simp]: "Contains s s"
  by (auto simp: Contains_iff intro: exI [of _ "[]"])

lemma Contains_extend: "Contains s sub \<Longrightarrow> Contains (u @ s @ v) sub"
  unfolding Contains_iff by (metis append.assoc)

lemma Split_nonempty [simp]: "Split sep s \<noteq> []"
  by (cases s) (auto split: list.splits)

lemma Split_no_sep: "w \<in> set (Split sep s) \<Longrightarrow> sep \<notin> set w"
  by (induction s arbitrary: w rule: Split.induct) (auto split: if_splits list.splits)

lemma Join_Split: "Join (Split sep s) [sep] = s"
proof (induction sep s rule: Split.induct)
  case (2 sep c s)
  show ?case
  proof (cases "Split sep s")
    case Nil
    then show ?thesis by simp
  next
    case (Cons w ws)
    with 2 show ?thesis by (cases ws) auto
  qed
qed simp

lemma length_Join_le_member: "w \<in> set ws \<Longrightarrow> length w \<le> length (Join ws sep)"
  by (induction ws sep rule: Join.induct) auto

lemma Join_contains: "w \<in> set ws \<Longrightarrow> \<exists>u v. Join ws sep = u @ w @ v"
proof (induction ws sep rule: Join.induct)
  case (3 x y ws sep)
  show ?case
  proof (cases "w = x")
    case True
    then show ?thesis by (auto intro: exI [of _ "[]"])
  next
    case False
    with 3 obtain u v where "Join (y # ws) sep = u @ w @ v" by auto
    then show ?thesis by (intro exI [of _ "x @ sep @ u"] exI [of _ v]) simp
  qed
qed (auto intro: exI [of _ "[]"])

subsection \<open>Decimal numbers\<close>

fun nat_digits :: "nat \<Rightarrow> string" where
  "nat_digits n = (if n < 10 then [char_of (48 + n)] else nat_digits (n div 10) @ [char_of (48 + n mod 10)])"

declare nat_digits.simps [simp del]

definition Itoa :: "int \<Rightarrow> string" where
  "Itoa i = (if i < 0 then ''-'' @ nat_digits (nat (- i)) else nat_digits (nat i))"

definition digits_value :: "string \<Rightarrow> nat" where
  "digits_value = foldl (\<lambda>n c. 10 * n + digit_value c) 0"

definition all_digits :: "string \<Rightarrow> bool" where
  "all_digits s \<longleftrightarrow> s \<noteq> [] \<and> list_all is_digit s"

text \<open>\<open>strconv.ParseInt(s, 10, 64)\<close> and \<open>strconv.Atoi\<close> (an \<open>int\<close> has 64 bits): an optional sign,
  decimal digits, and a value that fits; anything else is an error.\<close>

definition ParseInt :: "string \<Rightarrow> int option" where
  "ParseInt s =
     (let (neg, body) = (case s of
            c # r \<Rightarrow> (if c = CHR ''-'' then (True, r) else if c = CHR ''+'' then (False, r) else (False, s))
          | [] \<Rightarrow> (False, s))
      in if \<not> all_digits body then None
         else let v = (if neg then - int (digits_value body) else int (digits_value body))
              in if - (2 ^ 63) \<le> v \<and> v < 2 ^ 63 then Some v else None)"

text \<open>\<open>%0wd\<close> of \<open>fmt\<close> for a non-negative number.\<close>

definition pad_left :: "nat \<Rightarrow> string \<Rightarrow> string" where
  "pad_left w s = replicate (w - length s) (CHR ''0'') @ s"

lemma is_digit_zero [simp]: "is_digit (CHR ''0'')"
  by (simp add: is_digit_def)

lemma is_digit_char_of: "n < (10::nat) \<Longrightarrow> is_digit (char_of (48 + n))"
  by (simp add: is_digit_def less_eq_char_def)

lemma digit_value_char_of: "n < (10::nat) \<Longrightarrow> digit_value (char_of (48 + n)) = n"
  by (simp add: digit_value_def)

lemma is_digit_byte: "is_digit c \<longleftrightarrow> 48 \<le> byte c \<and> byte c \<le> 57"
  by (simp add: is_digit_def less_eq_char_def)

lemma nat_digits_digits: "list_all is_digit (nat_digits n) \<and> nat_digits n \<noteq> []"
proof (induction n rule: nat_digits.induct)
  case (1 n)
  then show ?case
    by (subst (1 2) nat_digits.simps) (auto simp: is_digit_char_of)
qed

lemma digits_value_Nil [simp]: "digits_value [] = 0"
  by (simp add: digits_value_def)

lemma digits_value_snoc: "digits_value (s @ [c]) = 10 * digits_value s + digit_value c"
  by (simp add: digits_value_def)

lemma digits_value_nat_digits [simp]: "digits_value (nat_digits n) = n"
proof (induction n rule: nat_digits.induct)
  case (1 n)
  show ?case
  proof (cases "n < 10")
    case True
    then show ?thesis
      by (subst nat_digits.simps) (simp add: digits_value_def digit_value_char_of)
  next
    case False
    with 1 show ?thesis
      by (subst nat_digits.simps) (simp add: digits_value_snoc digit_value_char_of)
  qed
qed

lemma nat_digits_hd_digit: "is_digit (hd (nat_digits n))"
  using nat_digits_digits [of n] by (cases "nat_digits n") auto

lemma ParseInt_Itoa:
  assumes "- (2 ^ 63) \<le> i" "i < 2 ^ 63"
  shows "ParseInt (Itoa i) = Some i"
proof (cases "i < 0")
  case True
  with assms nat_digits_digits [of "nat (- i)"] show ?thesis
    by (simp add: ParseInt_def Itoa_def all_digits_def)
next
  case False
  obtain c r where cr: "nat_digits (nat i) = c # r"
    using nat_digits_digits [of "nat i"] by (cases "nat_digits (nat i)") auto
  then have "is_digit c" using nat_digits_hd_digit [of "nat i"] by simp
  then have "c \<noteq> CHR ''-''" "c \<noteq> CHR ''+''"
    by (auto simp: is_digit_byte)
  moreover have "digits_value (c # r) = nat i" using cr by (metis digits_value_nat_digits)
  moreover have "all_digits (c # r)" using cr nat_digits_digits [of "nat i"] by (simp add: all_digits_def)
  ultimately show ?thesis
    using False assms cr by (simp add: ParseInt_def Itoa_def)
qed

lemma nat_digits_inj: "nat_digits m = nat_digits n \<Longrightarrow> m = n"
  by (metis digits_value_nat_digits)

lemma Itoa_nonempty [simp]: "Itoa i \<noteq> []"
  using nat_digits_digits by (simp add: Itoa_def)

lemma length_pad_left: "length (pad_left w s) = max w (length s)"
  by (simp add: pad_left_def)

lemma digits_value_pad [simp]: "digits_value (replicate k (CHR ''0'') @ s) = digits_value s"
  by (induction k) (simp_all add: digits_value_def digit_value_def)

lemma length_nat_digits_le: "n < 10 ^ w \<Longrightarrow> 0 < w \<Longrightarrow> length (nat_digits n) \<le> w"
proof (induction n arbitrary: w rule: nat_digits.induct)
  case (1 n)
  show ?case
  proof (cases "n < 10")
    case True
    with 1 show ?thesis by (subst nat_digits.simps) simp
  next
    case False
    with 1 obtain v where w: "w = Suc v" "0 < v" by (cases w; cases "w - 1") auto
    then have "n div 10 < 10 ^ v" using 1 by (simp add: less_mult_imp_div_less mult.commute)
    with 1 False w have "length (nat_digits (n div 10)) \<le> v" by blast
    with w False show ?thesis by (subst nat_digits.simps) simp
  qed
qed

lemma length_nat_digits_ge: "10 ^ w \<le> n \<Longrightarrow> Suc w \<le> length (nat_digits n)"
proof (induction w arbitrary: n)
  case 0
  then show ?case using nat_digits_digits [of n] by (cases "nat_digits n") auto
next
  case (Suc w)
  then have "10 ^ w \<le> n div 10" by (simp add: less_eq_div_iff_mult_less_eq)
  from Suc.IH [OF this] have "Suc w \<le> length (nat_digits (n div 10))" .
  moreover have "(1::nat) \<le> 10 ^ w" by simp
  with Suc.prems have "10 \<le> n" by (metis mult_le_mono2 mult.right_neutral order_trans power_Suc)
  ultimately show ?case by (subst nat_digits.simps) simp
qed

end
