(* ===== verification/Utf8.thy ===== *)
theory Utf8
  imports GoStrings
begin

text \<open>
  Runes: what the program uses of \<open>unicode/utf8\<close>, \<open>unicode\<close> and the rune-aware functions of
  \<open>strings\<close>.  \<open>unit_len\<close> is the length of the encoding a string starts with (0 when it starts
  with none), following the table of well-formed UTF-8 the Go library uses; an undecodable byte
  counts as one rune U+FFFD of width 1, as there.
\<close>

definition RuneStart :: "char \<Rightarrow> bool" where
  "RuneStart c \<longleftrightarrow> byte c < (0x80 :: nat) \<or> 0xC0 \<le> (byte c :: nat)"

abbreviation cont :: "char \<Rightarrow> bool" where
  "cont c \<equiv> \<not> RuneStart c"

definition second_ok :: "nat \<Rightarrow> nat \<Rightarrow> bool" where
  "second_ok n b \<longleftrightarrow>
     (if n = 0xE0 then 0xA0 \<le> b \<and> b \<le> 0xBF
      else if n = 0xED then 0x80 \<le> b \<and> b \<le> 0x9F
      else if n = 0xF0 then 0x90 \<le> b \<and> b \<le> 0xBF
      else if n = 0xF4 then 0x80 \<le> b \<and> b \<le> 0x8F
      else 0x80 \<le> b \<and> b \<le> 0xBF)"

definition unit_len :: "string \<Rightarrow> nat" where
  "unit_len s = (case s of [] \<Rightarrow> 0 | c # r \<Rightarrow>
     (let n = byte c :: nat in
      if n < 0x80 then 1
      else if 0xC2 \<le> n \<and> n \<le> 0xDF then
        (case r of c1 # _ \<Rightarrow> if cont c1 then 2 else 0 | [] \<Rightarrow> 0)
      else if 0xE0 \<le> n \<and> n \<le> 0xEF then
        (case r of c1 # c2 # _ \<Rightarrow> if cont c1 \<and> second_ok n (byte c1) \<and> cont c2 then 3 else 0 | _ \<Rightarrow> 0)
      else if 0xF0 \<le> n \<and> n \<le> 0xF4 then
        (case r of c1 # c2 # c3 # _ \<Rightarrow>
           if cont c1 \<and> second_ok n (byte c1) \<and> cont c2 \<and> cont c3 then 4 else 0 | _ \<Rightarrow> 0)
      else 0))"

definition RuneError :: nat where "RuneError = 0xFFFD"

text \<open>The code point of a well-formed encoding.\<close>

fun rune_of :: "string \<Rightarrow> nat" where
  "rune_of [a] = byte a"
| "rune_of [a, b] = (byte a - 0xC0) * 64 + (byte b - 0x80)"
| "rune_of [a, b, c] = (byte a - 0xE0) * 4096 + (byte b - 0x80) * 64 + (byte c - 0x80)"
| "rune_of [a, b, c, d] =
     (byte a - 0xF0) * 262144 + (byte b - 0x80) * 4096 + (byte c - 0x80) * 64 + (byte d - 0x80)"
| "rune_of _ = RuneError"

definition encode_rune :: "nat \<Rightarrow> string" where
  "encode_rune r0 =
     (let r = (if r0 > 0x10FFFF \<or> 0xD800 \<le> r0 \<and> r0 \<le> 0xDFFF then RuneError else r0) in
      if r < 0x80 then [char_of r]
      else if r < 0x800 then [char_of (0xC0 + r div 64), char_of (0x80 + r mod 64)]
      else if r < 0x10000 then
        [char_of (0xE0 + r div 4096), char_of (0x80 + r div 64 mod 64), char_of (0x80 + r mod 64)]
      else [char_of (0xF0 + r div 262144), char_of (0x80 + r div 4096 mod 64),
            char_of (0x80 + r div 64 mod 64), char_of (0x80 + r mod 64)])"

text \<open>The runes of a string, each with the bytes it was read from: Go's \<open>range\<close> over a string.\<close>

function runes :: "string \<Rightarrow> (nat \<times> string) list" where
  "runes s =
     (if s = [] then []
      else let w = unit_len s in
        if w = 0 then (RuneError, take 1 s) # runes (drop 1 s)
        else (rune_of (take w s), take w s) # runes (drop w s))"
  by pat_completeness auto
termination
  by (relation "measure length") (auto simp: Let_def)

declare runes.simps [simp del]

function ValidString :: "string \<Rightarrow> bool" where
  "ValidString s =
     (if s = [] then True
      else if unit_len s = 0 then False
      else ValidString (drop (unit_len s) s))"
  by pat_completeness auto
termination
  by (relation "measure length") auto

declare ValidString.simps [simp del]

definition RuneCount :: "string \<Rightarrow> nat" where
  "RuneCount s = length (runes s)"

subsection \<open>Whitespace, case, control characters\<close>

text \<open>The encodings of the code points for which \<open>unicode.IsSpace\<close> holds.  UTF-8 is
  self-synchronising, so trimming them as byte strings is trimming the runes.\<close>

definition space_runes :: "nat list" where
  "space_runes = [0x20, 0x0A, 0x09, 0x0D, 0x0B, 0x0C, 0x85, 0xA0, 0x1680, 0x2000, 0x2001, 0x2002,
     0x2003, 0x2004, 0x2005, 0x2006, 0x2007, 0x2008, 0x2009, 0x200A, 0x2028, 0x2029, 0x202F, 0x205F,
     0x3000]"

definition space_encodings :: "string list" where
  "space_encodings = map encode_rune space_runes"

function strip_any :: "string list \<Rightarrow> string \<Rightarrow> string" where
  "strip_any es s =
     (case find (\<lambda>e. e \<noteq> [] \<and> prefix e s) es of None \<Rightarrow> s
      | Some e \<Rightarrow> strip_any es (drop (length e) s))"
  by pat_completeness auto
termination
proof (relation "measure (\<lambda>(es, s). length s)", goal_cases)
  case 1
  show ?case by simp
next
  case (2 es s e)
  then have "e \<noteq> []" and "prefix e s"
    by (auto simp: find_Some_iff)
  then show ?case
    by (auto simp: prefix_def)
qed

declare strip_any.simps [simp del]

definition TrimLeftSpace :: "string \<Rightarrow> string" where
  "TrimLeftSpace s = strip_any space_encodings s"

definition TrimRightSpace :: "string \<Rightarrow> string" where
  "TrimRightSpace s = rev (strip_any (map rev space_encodings) (rev s))"

definition TrimSpace :: "string \<Rightarrow> string" where
  "TrimSpace s = TrimRightSpace (TrimLeftSpace s)"

definition upper_ascii :: "char \<Rightarrow> bool" where
  "upper_ascii c \<longleftrightarrow> CHR ''A'' \<le> c \<and> c \<le> CHR ''Z''"

definition lower_char :: "char \<Rightarrow> char" where
  "lower_char c = (if upper_ascii c then char_of (byte c + 32 :: nat) else c)"

text \<open>\<open>strings.ToLower\<close> as far as a comparison of the result with ASCII text can see: ASCII letters,
  and the two other code points whose lower case is ASCII (U+212A Kelvin sign, U+0130).\<close>

definition lower_rune :: "nat \<times> string \<Rightarrow> string" where
  "lower_rune p =
     (if fst p = 0x212A then ''k'' else if fst p = 0x0130 then ''i'' else map lower_char (snd p))"

definition ToLower :: "string \<Rightarrow> string" where
  "ToLower s = concat (map lower_rune (runes s))"

text \<open>\<open>strings.EqualFold(s, t)\<close> for an ASCII \<open>t\<close>: simple folding also relates U+017F to \<open>s\<close> and
  U+212A to \<open>k\<close>.\<close>

definition fold_rune :: "nat \<times> string \<Rightarrow> string" where
  "fold_rune p =
     (if fst p = 0x212A then ''k'' else if fst p = 0x017F then ''s'' else map lower_char (snd p))"

definition EqualFold :: "string \<Rightarrow> string \<Rightarrow> bool" where
  "EqualFold s t \<longleftrightarrow> concat (map fold_rune (runes s)) = map lower_char t"

definition IsControl :: "nat \<Rightarrow> bool" where
  "IsControl r \<longleftrightarrow> r < 0x20 \<or> 0x7F \<le> r \<and> r \<le> 0x9F"

subsection \<open>Well-formed strings\<close>

lemma unit_len_Nil [simp]: "unit_len [] = 0"
  by (simp add: unit_len_def)

lemma unit_len_le: "unit_len s \<le> length s" and unit_len_le4: "unit_len s \<le> 4"
  by (auto simp: unit_len_def Let_def split: list.splits if_splits)

lemma unit_len_start: "0 < unit_len s \<Longrightarrow> s \<noteq> [] \<and> RuneStart (hd s)"
  by (auto simp: unit_len_def Let_def RuneStart_def split: list.splits if_splits)

lemma ValidString_Nil [simp]: "ValidString []"
  by (simp add: ValidString.simps)

lemma ValidString_start: "ValidString s \<Longrightarrow> s \<noteq> [] \<Longrightarrow> 0 < unit_len s \<and> RuneStart (hd s)"
  using unit_len_start by (subst (asm) ValidString.simps) (auto split: if_splits)

lemma ValidString_drop_unit: "ValidString s \<Longrightarrow> ValidString (drop (unit_len s) s)"
  by (cases "s = []") (auto simp: ValidString.simps [of s] split: if_splits)

text \<open>The run of continuation bytes a string starts with: at most three in valid text.\<close>

definition conts :: "string \<Rightarrow> nat" where
  "conts s = length (takeWhile cont s)"

lemma conts_valid_0: "ValidString s \<Longrightarrow> conts s = 0"
  using ValidString_start [of s] by (cases s) (auto simp: conts_def)

lemma conts_append_le: "conts (u @ v) \<le> length u + conts v"
proof (cases "\<forall>c \<in> set u. cont c")
  case True
  then show ?thesis by (simp add: conts_def)
next
  case False
  then have "takeWhile cont (u @ v) = takeWhile cont u"
    by (auto simp: takeWhile_append1)
  then show ?thesis
    by (simp add: conts_def length_takeWhile_le trans_le_add1)
qed

lemma conts_drop_le3: "ValidString s \<Longrightarrow> conts (drop i s) \<le> 3"
proof (induction s arbitrary: i rule: ValidString.induct)
  case (1 s)
  show ?case
  proof (cases "s = [] \<or> i = 0")
    case True
    with "1.prems" show ?thesis by (auto simp: conts_valid_0)
  next
    case False
    let ?w = "unit_len s"
    from "1.prems" False have w: "0 < ?w" "?w \<le> length s" "?w \<le> 4"
      using ValidString_start unit_len_le unit_len_le4 by auto
    have v: "ValidString (drop ?w s)" using "1.prems" by (rule ValidString_drop_unit)
    show ?thesis
    proof (cases "i < ?w")
      case True
      have "drop i s = take (?w - i) (drop i s) @ drop ?w s"
        using True by (metis append_take_drop_id drop_drop le_add_diff_inverse2 less_imp_le)
      then have "conts (drop i s) \<le> length (take (?w - i) (drop i s)) + conts (drop ?w s)"
        by (metis conts_append_le)
      also have "\<dots> \<le> ?w - i" using conts_valid_0 [OF v] by simp
      finally have "conts (drop i s) \<le> ?w - i" .
      moreover have "0 < i" using False by simp
      ultimately show ?thesis using w by linarith
    next
      case ge: False
      have "conts (drop (i - ?w) (drop ?w s)) \<le> 3"
        using "1.IH" False w v by simp
      then show ?thesis using ge by simp
    qed
  qed
qed

text \<open>From any position of valid text a rune starts at most three bytes further on (or the text
  ends), and at most three bytes back.\<close>

lemma valid_next_start:
  assumes "ValidString s" "i \<le> length s"
  shows "\<exists>j. i \<le> j \<and> j \<le> i + 3 \<and> j \<le> length s \<and> (j < length s \<longrightarrow> RuneStart (s ! j)) \<and>
             (\<forall>k. i \<le> k \<longrightarrow> k < j \<longrightarrow> cont (s ! k))"
proof (intro exI conjI impI allI)
  let ?n = "conts (drop i s)"
  show "i \<le> i + ?n" "i + ?n \<le> i + 3" using conts_drop_le3 [OF assms(1)] by simp_all
  have len: "?n \<le> length (drop i s)" unfolding conts_def by (rule length_takeWhile_le)
  then show "i + ?n \<le> length s" using assms(2) by simp
  show "RuneStart (s ! (i + ?n))" if "i + ?n < length s"
    using that nth_length_takeWhile [of cont "drop i s"] assms(2) by (simp add: conts_def)
  fix k assume "i \<le> k" "k < i + ?n"
  then have "k - i < length (takeWhile cont (drop i s))" by (simp add: conts_def)
  then have "cont (takeWhile cont (drop i s) ! (k - i))"
    by (metis nth_mem set_takeWhileD)
  then have "cont (drop i s ! (k - i))"
    using \<open>k - i < length (takeWhile cont (drop i s))\<close> by (simp add: takeWhile_nth)
  then show "cont (s ! k)" using \<open>i \<le> k\<close> assms(2) by simp
qed

lemma valid_prev_start:
  assumes "ValidString s" "i < length s"
  shows "\<exists>j \<le> i. i \<le> j + 3 \<and> RuneStart (s ! j)"
proof (cases "i < 3")
  case True
  have "RuneStart (s ! 0)" using ValidString_start [OF assms(1)] assms(2) by (cases s) auto
  with True show ?thesis by (intro exI [of _ 0]) auto
next
  case False
  have "i - 3 \<le> length s" using assms(2) by simp
  then obtain j where "i - 3 \<le> j" "j \<le> i - 3 + 3" "j \<le> length s" "j < length s \<longrightarrow> RuneStart (s ! j)"
    using valid_next_start [OF assms(1)] by blast
  with False assms(2) show ?thesis by (intro exI [of _ j]) auto
qed

lemma ValidString_append_unit:
  assumes "unit_len (u @ s) = length u" "u \<noteq> []"
  shows "ValidString (u @ s) = ValidString s"
  using assms by (subst ValidString.simps) auto

lemma ascii_ValidString: "list_all (\<lambda>c. byte c < (128::nat)) s \<Longrightarrow> ValidString s"
proof (induction s)
  case (Cons c s)
  then have "unit_len ([c] @ s) = length [c]" by (simp add: unit_len_def)
  then show ?case using Cons ValidString_append_unit [of "[c]" s] by simp
qed simp

subsection \<open>Runes\<close>

lemma runes_Nil [simp]: "runes [] = []"
  by (simp add: runes.simps)

lemma concat_runes: "concat (map snd (runes s)) = s"
proof (induction s rule: runes.induct)
  case (1 s)
  then show ?case
    by (cases "s = []"; cases "unit_len s = 0")
      (simp_all add: runes.simps [of s] Let_def append_take_drop_id)
qed

lemma runes_width: "(r, w) \<in> set (runes s) \<Longrightarrow> 1 \<le> length w \<and> length w \<le> 4"
proof (induction s rule: runes.induct)
  case (1 s)
  then show ?case
    using unit_len_le [of s] unit_len_le4 [of s]
    by (cases "s = []"; cases "unit_len s = 0")
      (auto simp: runes.simps [of s] Let_def Suc_le_eq)
qed

lemma sum_widths:
  fixes ws :: "nat list"
  shows "\<forall>w \<in> set ws. 1 \<le> w \<and> w \<le> 4 \<Longrightarrow> length ws \<le> sum_list ws \<and> sum_list ws \<le> 4 * length ws"
  by (induction ws) auto

lemma RuneCount_bounds: "RuneCount s \<le> length s \<and> length s \<le> 4 * RuneCount s"
proof -
  have "length s = sum_list (map (length \<circ> snd) (runes s))"
    by (metis concat_runes length_concat map_map)
  moreover have "\<forall>w \<in> set (map (length \<circ> snd) (runes s)). 1 \<le> w \<and> w \<le> 4"
    using runes_width by fastforce
  ultimately show ?thesis
    using sum_widths [of "map (length \<circ> snd) (runes s)"] by (simp add: RuneCount_def)
qed

end
