(* ===== verification/GoJson.thy ===== *)
theory GoJson
  imports Utf8
begin

text \<open>
  The part of \<open>encoding/json\<close> the program uses: the value of an \<open>any\<close>, the decoder and the
  encoder.  \<open>JNull\<close> is Go's nil and also the nil \<open>map[string]any\<close>.  An object is its entries
  in key order, one per key, so equality of values is equality of Go maps.  A number is decoded to
  a \<open>float64\<close>; it is kept as the shortest decimal that denotes it, \<open>JNum m e\<close> for
  \<open>m * 10 ^ e\<close> with \<open>m\<close> not a multiple of ten.  Decoding keeps the decimal as written, which is what
  \<open>float64\<close> does for up to 15 significant digits; the rounding of longer ones and the sign of -0
  are not modelled.
\<close>

datatype json =
    JNull
  | JBool bool
  | JNum int int
  | JStr string
  | JArr "json list"
  | JObj "(string \<times> json) list"

fun obj_put :: "string \<Rightarrow> 'v \<Rightarrow> (string \<times> 'v) list \<Rightarrow> (string \<times> 'v) list" where
  "obj_put k v [] = [(k, v)]"
| "obj_put k v ((k', v') # m) =
     (if k = k' then (k, v) # m
      else if k < k' then (k, v) # (k', v') # m
      else (k', v') # obj_put k v m)"

definition mk_obj :: "(string \<times> json) list \<Rightarrow> json" where
  "mk_obj kvs = JObj (foldl (\<lambda>m (k, v). obj_put k v m) [] kvs)"

text \<open>\<open>value["key"]\<close>: nil for an absent key and on a nil map.\<close>

definition get :: "json \<Rightarrow> string \<Rightarrow> json" where
  "get v k = (case v of JObj m \<Rightarrow> (case map_of m k of Some x \<Rightarrow> x | None \<Rightarrow> JNull) | _ \<Rightarrow> JNull)"

definition has_key :: "json \<Rightarrow> string \<Rightarrow> bool" where
  "has_key v k = (case v of JObj m \<Rightarrow> k \<in> set (map fst m) | _ \<Rightarrow> False)"

definition entries :: "json \<Rightarrow> (string \<times> json) list" where
  "entries v = (case v of JObj m \<Rightarrow> m | _ \<Rightarrow> [])"

subsection \<open>Numbers\<close>

function strip_zeros :: "int \<Rightarrow> int \<Rightarrow> int \<times> int" where
  "strip_zeros m e = (if m = 0 then (0, 0) else if m mod 10 = 0 then strip_zeros (m div 10) (e + 1) else (m, e))"
  by pat_completeness auto
termination
proof (relation "measure (\<lambda>(m, e). nat \<bar>m\<bar>)", goal_cases)
  case (2 m e)
  then obtain k where "m = 10 * k" by auto
  with 2 show ?case by simp
qed simp

declare strip_zeros.simps [simp del]

definition number :: "int \<Rightarrow> int \<Rightarrow> json" where
  "number m e = (case strip_zeros m e of (m', e') \<Rightarrow> JNum m' e')"

definition jint :: "int \<Rightarrow> json" where
  "jint i = number i 0"

definition num_digits :: "int \<Rightarrow> string" where
  "num_digits m = nat_digits (nat \<bar>m\<bar>)"

definition sign_of :: "int \<Rightarrow> string" where
  "sign_of m = (if m < 0 then ''-'' else [])"

text \<open>\<open>strconv.FormatFloat(f, 'f', -1, 64)\<close>\<close>

definition format_plain :: "int \<Rightarrow> int \<Rightarrow> string" where
  "format_plain m e =
     sign_of m @
     (if 0 \<le> e then num_digits m @ replicate (nat e) (CHR ''0'')
      else let ds = pad_left (nat (- e) + 1) (num_digits m); k = length ds - nat (- e)
           in take k ds @ ''.'' @ drop k ds)"

text \<open>\<open>strconv.FormatFloat(f, 'e', -1, 64)\<close> with the exponent as the JSON encoder leaves it.\<close>

definition format_exp :: "int \<Rightarrow> int \<Rightarrow> string" where
  "format_exp m e =
     (let ds = num_digits m; x = int (length ds) + e - 1
      in sign_of m @ take 1 ds @ (if length ds = 1 then [] else ''.'' @ drop 1 ds)
         @ (if x < 0 then ''e-'' @ nat_digits (nat (- x)) else ''e+'' @ pad_left 2 (nat_digits (nat x))))"

definition format_json_number :: "int \<Rightarrow> int \<Rightarrow> string" where
  "format_json_number m e =
     (let x = int (length (num_digits m)) + e - 1
      in if m \<noteq> 0 \<and> (x < -6 \<or> 21 \<le> x) then format_exp m e else format_plain m e)"

text \<open>\<open>int64(f)\<close>: truncation toward zero; out of range it is the value amd64 gives.\<close>

definition trunc_number :: "int \<Rightarrow> int \<Rightarrow> int" where
  "trunc_number m e = (if 0 \<le> e then m * 10 ^ nat e else sgn m * (\<bar>m\<bar> div 10 ^ nat (- e)))"

definition to_int64 :: "int \<Rightarrow> int \<Rightarrow> int" where
  "to_int64 m e = (let i = trunc_number m e in if - (2 ^ 63) \<le> i \<and> i < 2 ^ 63 then i else - (2 ^ 63))"

text \<open>A literal whose value rounds past the largest \<open>float64\<close> is a decoding error.\<close>

definition float_overflow :: "int \<Rightarrow> int \<Rightarrow> bool" where
  "float_overflow m e \<longleftrightarrow> 0 < e + int (length (num_digits m)) \<and>
     (2 ^ 1024 - 2 ^ 970 :: int) \<le> \<bar>trunc_number m e\<bar>"

subsection \<open>The encoder\<close>

definition hex_digit :: "nat \<Rightarrow> char" where
  "hex_digit n = (if n < 10 then char_of (48 + n) else char_of (87 + n))"

definition escape_rune :: "bool \<Rightarrow> nat \<times> string \<Rightarrow> string" where
  "escape_rune html p = (case p of (r, w) \<Rightarrow>
     if w = [CHR 0x22] then [CHR 0x5C, CHR 0x22]
     else if w = [CHR 0x5C] then [CHR 0x5C, CHR 0x5C]
     else if r = 8 then [CHR 0x5C, CHR ''b''] else if r = 12 then [CHR 0x5C, CHR ''f'']
     else if r = 10 then [CHR 0x5C, CHR ''n''] else if r = 13 then [CHR 0x5C, CHR ''r'']
     else if r = 9 then [CHR 0x5C, CHR ''t'']
     else if r < 0x20 \<or> (html \<and> (w = ''<'' \<or> w = ''>'' \<or> w = ''&''))
       then [CHR 0x5C, CHR ''u'', CHR ''0'', CHR ''0'', hex_digit (r div 16), hex_digit (r mod 16)]
     else if r = RuneError \<and> length w = 1 then [CHR 0x5C] @ ''ufffd''
     else if r = 0x2028 then [CHR 0x5C] @ ''u2028'' else if r = 0x2029 then [CHR 0x5C] @ ''u2029''
     else w)"

definition quote :: "bool \<Rightarrow> string \<Rightarrow> string" where
  "quote html s = [CHR 0x22] @ concat (map (escape_rune html) (runes s)) @ [CHR 0x22]"

text \<open>\<open>json.Marshal\<close> (\<open>html\<close> true) and an encoder with \<open>SetEscapeHTML(false)\<close>; struct encodings in
  the program are \<open>JObj\<close> values in field order.\<close>

fun encode :: "bool \<Rightarrow> json \<Rightarrow> string" where
  "encode html JNull = ''null''"
| "encode html (JBool b) = (if b then ''true'' else ''false'')"
| "encode html (JNum m e) = format_json_number m e"
| "encode html (JStr s) = quote html s"
| "encode html (JArr vs) = ''['' @ Join (map (encode html) vs) '','' @ '']''"
| "encode html (JObj m) =
     ''{'' @ Join (map (\<lambda>kv. quote html (fst kv) @ '':'' @ encode html (snd kv)) m) '','' @ ''}''"

abbreviation Marshal :: "json \<Rightarrow> string" where
  "Marshal \<equiv> encode True"

subsection \<open>The decoder\<close>

definition json_space :: "char \<Rightarrow> bool" where
  "json_space c \<longleftrightarrow> c \<in> {CHR '' '', CHR 0x09, CHR 0x0A, CHR 0x0D}"

abbreviation skip_space :: "string \<Rightarrow> string" where
  "skip_space \<equiv> dropWhile json_space"

definition hex_value :: "char \<Rightarrow> nat option" where
  "hex_value c =
     (if is_digit c then Some (digit_value c)
      else if CHR ''a'' \<le> c \<and> c \<le> CHR ''f'' then Some (byte c - 87)
      else if CHR ''A'' \<le> c \<and> c \<le> CHR ''F'' then Some (byte c - 55)
      else None)"

fun hex4 :: "string \<Rightarrow> (nat \<times> string) option" where
  "hex4 (a # b # c # d # r) =
     (case (hex_value a, hex_value b, hex_value c, hex_value d) of
        (Some x, Some y, Some z, Some w) \<Rightarrow> Some (x * 4096 + y * 256 + z * 16 + w, r)
      | _ \<Rightarrow> None)"
| "hex4 _ = None"

definition unescape_char :: "char \<Rightarrow> char option" where
  "unescape_char c =
     (if c = CHR 0x22 \<or> c = CHR 0x5C \<or> c = CHR ''/'' then Some c
      else if c = CHR ''b'' then Some (CHR 0x08) else if c = CHR ''f'' then Some (CHR 0x0C)
      else if c = CHR ''n'' then Some (CHR 0x0A) else if c = CHR ''r'' then Some (CHR 0x0D)
      else if c = CHR ''t'' then Some (CHR 0x09) else None)"

text \<open>The body of a string literal after its opening quote, up to and without the closing one: a
  \<open>\u\<close> surrogate pair is one rune, an unpaired half and an undecodable byte are U+FFFD.\<close>

function parse_string :: "string \<Rightarrow> (string \<times> string) option" where
  "parse_string [] = None"
| "parse_string (c # s) =
     (if c = CHR 0x22 then Some ([], s)
      else if c = CHR 0x5C then
        (case s of
           [] \<Rightarrow> None
         | d # r \<Rightarrow>
             (if d = CHR ''u'' then
                (case hex4 r of
                   None \<Rightarrow> None
                 | Some (u, r1) \<Rightarrow>
                     (let (rune, r2) =
                        (if 0xD800 \<le> u \<and> u < 0xDC00 then
                           (case r1 of
                              b # v # r' \<Rightarrow>
                                (if b = CHR 0x5C \<and> v = CHR ''u'' then
                                   (case hex4 r' of
                                      Some (l, r'') \<Rightarrow>
                                        (if 0xDC00 \<le> l \<and> l < 0xE000
                                         then (0x10000 + (u - 0xD800) * 1024 + (l - 0xDC00), r'')
                                         else (RuneError, r1))
                                    | None \<Rightarrow> (RuneError, r1))
                                 else (RuneError, r1))
                            | _ \<Rightarrow> (RuneError, r1))
                         else (u, r1))
                      in if length r2 \<le> length s
                         then map_option (\<lambda>(b, r). (encode_rune rune @ b, r)) (parse_string r2)
                         else None))
              else (case unescape_char d of
                      None \<Rightarrow> None
                    | Some e \<Rightarrow> map_option (\<lambda>(b, r). (e # b, r)) (parse_string r))))
      else if byte c < (0x20 :: nat) then None
      else if unit_len (c # s) = 0
        then map_option (\<lambda>(b, r). (encode_rune RuneError @ b, r)) (parse_string s)
      else map_option (\<lambda>(b, r). (take (unit_len (c # s)) (c # s) @ b, r))
             (parse_string (drop (unit_len (c # s)) (c # s))))"
  by pat_completeness auto
termination
  by (relation "measure length") (auto simp: less_Suc_eq_le)

declare parse_string.simps (2) [simp del]

text \<open>A number literal: optional sign, integer part without leading zeros, fraction, exponent.\<close>

definition scan_int :: "string \<Rightarrow> (string \<times> string) option" where
  "scan_int s =
     (let ip = takeWhile is_digit s
      in if ip = [] then None
         else if prefix ''0'' ip then Some (''0'', drop 1 s)
         else Some (ip, drop (length ip) s))"

definition scan_fraction :: "string \<Rightarrow> (string \<times> string) option" where
  "scan_fraction s =
     (if prefix ''.'' s
      then (let f = takeWhile is_digit (drop 1 s)
            in if f = [] then None else Some (f, drop (1 + length f) s))
      else Some ([], s))"

definition scan_exponent :: "string \<Rightarrow> (int \<times> string) option" where
  "scan_exponent s =
     (if prefix ''e'' s \<or> prefix ''E'' s
      then (let r = drop 1 s;
                b = (if prefix ''-'' r \<or> prefix ''+'' r then drop 1 r else r);
                x = takeWhile is_digit b
            in if x = [] then None
               else Some ((if prefix ''-'' r then - 1 else 1) * int (digits_value x), drop (length x) b))
      else Some (0, s))"

definition parse_number :: "string \<Rightarrow> (json \<times> string) option" where
  "parse_number s =
     Option.bind (scan_int (if prefix ''-'' s then drop 1 s else s)) (\<lambda>(ip, s1).
     Option.bind (scan_fraction s1) (\<lambda>(frac, s2).
     Option.bind (scan_exponent s2) (\<lambda>(x, s3).
       Some (number ((if prefix ''-'' s then - 1 else 1) * int (digits_value (ip @ frac)))
               (x - int (length frac)), s3))))"

definition keyword :: "string \<Rightarrow> (json \<times> string) option" where
  "keyword s =
     (if prefix ''null'' s then Some (JNull, drop 4 s)
      else if prefix ''true'' s then Some (JBool True, drop 4 s)
      else if prefix ''false'' s then Some (JBool False, drop 5 s)
      else None)"

text \<open>The grammar, with a bound on the number of nested calls; each call but the last consumes input, so
  the length of the text is bound enough.  The decoder's own nesting bound is 10,000 levels.\<close>

fun parse_value :: "nat \<Rightarrow> nat \<Rightarrow> string \<Rightarrow> (json \<times> string) option"
  and parse_elems :: "nat \<Rightarrow> nat \<Rightarrow> string \<Rightarrow> (json list \<times> string) option"
  and parse_members :: "nat \<Rightarrow> nat \<Rightarrow> string \<Rightarrow> ((string \<times> json) list \<times> string) option" where
  "parse_value 0 depth s = None"
| "parse_value (Suc n) depth s =
     (case skip_space s of
        [] \<Rightarrow> None
      | c # r \<Rightarrow>
          (if c = CHR 0x22 then map_option (\<lambda>(b, r'). (JStr b, r')) (parse_string r)
           else if c = CHR ''['' then
             (if depth = 0 then None
              else if prefix '']'' (skip_space r) then Some (JArr [], drop 1 (skip_space r))
              else map_option (\<lambda>(vs, r'). (JArr vs, r')) (parse_elems n (depth - 1) r))
           else if c = CHR ''{'' then
             (if depth = 0 then None
              else if prefix ''}'' (skip_space r) then Some (JObj [], drop 1 (skip_space r))
              else map_option (\<lambda>(kvs, r'). (mk_obj kvs, r')) (parse_members n (depth - 1) r))
           else if c = CHR ''-'' \<or> is_digit c then parse_number (c # r)
           else keyword (c # r)))"
| "parse_elems 0 depth s = None"
| "parse_elems (Suc n) depth s =
     (case parse_value n depth s of
        None \<Rightarrow> None
      | Some (v, r) \<Rightarrow>
          (case skip_space r of
             [] \<Rightarrow> None
           | c # r' \<Rightarrow>
               (if c = CHR '']'' then Some ([v], r')
                else if c = CHR '','' then map_option (\<lambda>(vs, r''). (v # vs, r'')) (parse_elems n depth r')
                else None)))"
| "parse_members 0 depth s = None"
| "parse_members (Suc n) depth s =
     (case skip_space s of
        [] \<Rightarrow> None
      | q # r0 \<Rightarrow>
          (if q \<noteq> CHR 0x22 then None
           else (case parse_string r0 of
                   None \<Rightarrow> None
                 | Some (k, r1) \<Rightarrow>
                     (case skip_space r1 of
                        [] \<Rightarrow> None
                      | col # r2 \<Rightarrow>
                          (if col \<noteq> CHR '':'' then None
                           else (case parse_value n depth r2 of
                                   None \<Rightarrow> None
                                 | Some (v, r3) \<Rightarrow>
                                     (case skip_space r3 of
                                        [] \<Rightarrow> None
                                      | c # r4 \<Rightarrow>
                                          (if c = CHR ''}'' then Some ([(k, v)], r4)
                                           else if c = CHR '','' then
                                             map_option (\<lambda>(kvs, r). ((k, v) # kvs, r)) (parse_members n depth r4)
                                           else None))))))))"

definition max_depth :: nat where "max_depth = 10000"

fun overflows :: "json \<Rightarrow> bool" where
  "overflows (JNum m e) = float_overflow m e"
| "overflows (JArr vs) = list_ex overflows vs"
| "overflows (JObj m) = list_ex (\<lambda>kv. overflows (snd kv)) m"
| "overflows _ = False"

definition parse_text :: "string \<Rightarrow> json option" where
  "parse_text s =
     (case parse_value (2 * length s + 2) max_depth s of
        Some (v, r) \<Rightarrow> (if skip_space r = [] then Some v else None)
      | None \<Rightarrow> None)"

text \<open>\<open>json.Unmarshal(b, &value)\<close> for an \<open>any\<close> and for a \<open>map[string]any\<close>: \<open>null\<close> leaves a nil map
  and is no error, any other kind of value is one.\<close>

definition unmarshal_any :: "string \<Rightarrow> json option" where
  "unmarshal_any s = (case parse_text s of Some v \<Rightarrow> if overflows v then None else Some v | None \<Rightarrow> None)"

definition unmarshal_map :: "string \<Rightarrow> json option" where
  "unmarshal_map s =
     (case unmarshal_any s of Some JNull \<Rightarrow> Some JNull | Some (JObj m) \<Rightarrow> Some (JObj m) | _ \<Rightarrow> None)"

end
