(* ===== verification/Domain.thy ===== *)
theory Domain
  imports GoJson
begin

text \<open>
  \<open>internal/domain/types.go\<close>: the data the program passes between its parts.  A Go struct is a record
  with the source's fields behind a letter for the type; a nil slice and an empty one are the same
  list, and an absent \<open>json.RawMessage\<close> is the empty string.  The second half is the structs' JSON:
  what \<open>encoding/json\<close> writes for them (field order, \<open>omitempty\<close>) and what it reads back.
\<close>

definition FormatVersion :: int where "FormatVersion = 1"
definition MaxAmpExportBytes :: nat where "MaxAmpExportBytes = 512 * 2 ^ 20"

record Machine =
  m_ID :: string
  m_Hostname :: string
  m_OS :: string
  m_Arch :: string

record Warning =
  w_Code :: string
  w_Message :: string

record File =
  f_Path :: string
  f_Size :: int
  f_SHA256 :: string

record Repository =
  r_Remote :: string
  r_Root :: string

record Descriptor =
  d_Path :: string
  d_Harness :: string
  d_Adapter :: string
  d_NativeTraceID :: string
  d_NativeUpdatedAt :: string
  d_RevisionDigest :: string
  d_ParentNativeTraceID :: string
  d_Title :: string
  d_WorkingDirectory :: string
  d_Repository :: Repository
  d_Files :: "File list"
  d_Warnings :: "Warning list"

record Manifest =
  mf_FormatVersion :: int
  mf_CollectorVersion :: string
  mf_CreatedAt :: string
  mf_SourceMachine :: Machine
  mf_Traces :: "Descriptor list"

record SourceRef =
  s_Path :: string
  s_Line :: int

record Attachment =
  a_Name :: string
  a_MediaType :: string
  a_Path :: string
  a_URL :: string
  a_SourcePointer :: string
  a_Inline :: bool
  a_ArchivedPath :: string
  a_Size :: int

record Event =
  e_ID :: int
  e_TraceID :: int
  e_Key :: string
  e_ParentKey :: string
  e_Branch :: string
  e_Kind :: string
  e_Role :: string
  e_Model :: string
  e_Provider :: string
  e_Tool :: string
  e_CallID :: string
  e_Timestamp :: string
  e_Text :: string
  e_Sources :: "SourceRef list"
  e_Attachments :: "Attachment list"
  e_Metadata :: string
  e_LegacyKeys :: "string list"

record Normalization =
  n_Version :: int
  n_Status :: string
  n_Events :: "Event list"
  n_Warnings :: "Warning list"
  n_Title :: string

record TraceOutcome =
  o_TraceID :: int
  o_Harness :: string
  o_NativeTraceID :: string
  o_Title :: string
  o_RevisionDigest :: string
  o_Status :: string
  o_Warnings :: "Warning list"
  o_Error :: string

record ImportReport =
  ir_ID :: int
  ir_CreatedAt :: string
  ir_Machine :: Machine
  ir_Imported :: int
  ir_Updated :: int
  ir_Unchanged :: int
  ir_Partial :: int
  ir_Unsupported :: int
  ir_Failed :: int
  ir_Complete :: bool
  ir_Traces :: "TraceOutcome list"

record Progress =
  p_Phase :: string
  p_Completed :: int
  p_Total :: int
  p_Outcome :: "TraceOutcome option"
  p_Report :: "ImportReport option"
  p_Error :: string

text \<open>The zero values.\<close>

definition zero_Machine :: Machine where
  "zero_Machine = \<lparr>m_ID = [], m_Hostname = [], m_OS = [], m_Arch = []\<rparr>"

definition zero_Repository :: Repository where
  "zero_Repository = \<lparr>r_Remote = [], r_Root = []\<rparr>"

definition zero_Descriptor :: Descriptor where
  "zero_Descriptor = \<lparr>d_Path = [], d_Harness = [], d_Adapter = [], d_NativeTraceID = [],
     d_NativeUpdatedAt = [], d_RevisionDigest = [], d_ParentNativeTraceID = [], d_Title = [],
     d_WorkingDirectory = [], d_Repository = zero_Repository, d_Files = [], d_Warnings = []\<rparr>"

definition zero_Attachment :: Attachment where
  "zero_Attachment = \<lparr>a_Name = [], a_MediaType = [], a_Path = [], a_URL = [], a_SourcePointer = [],
     a_Inline = False, a_ArchivedPath = [], a_Size = 0\<rparr>"

definition zero_Event :: Event where
  "zero_Event = \<lparr>e_ID = 0, e_TraceID = 0, e_Key = [], e_ParentKey = [], e_Branch = [], e_Kind = [],
     e_Role = [], e_Model = [], e_Provider = [], e_Tool = [], e_CallID = [], e_Timestamp = [],
     e_Text = [], e_Sources = [], e_Attachments = [], e_Metadata = [], e_LegacyKeys = []\<rparr>"

definition zero_Normalization :: Normalization where
  "zero_Normalization = \<lparr>n_Version = 0, n_Status = [], n_Events = [], n_Warnings = [], n_Title = []\<rparr>"

definition zero_Outcome :: TraceOutcome where
  "zero_Outcome = \<lparr>o_TraceID = 0, o_Harness = [], o_NativeTraceID = [], o_Title = [],
     o_RevisionDigest = [], o_Status = [], o_Warnings = [], o_Error = []\<rparr>"

definition zero_Report :: ImportReport where
  "zero_Report = \<lparr>ir_ID = 0, ir_CreatedAt = [], ir_Machine = zero_Machine, ir_Imported = 0,
     ir_Updated = 0, ir_Unchanged = 0, ir_Partial = 0, ir_Unsupported = 0, ir_Failed = 0,
     ir_Complete = False, ir_Traces = []\<rparr>"

subsection \<open>Writing structs\<close>

abbreviation opt_field :: "bool \<Rightarrow> string \<Rightarrow> json \<Rightarrow> (string \<times> json) list" where
  "opt_field present k v \<equiv> (if present then [(k, v)] else [])"

definition str_field :: "string \<Rightarrow> string \<Rightarrow> (string \<times> json) list" where
  "str_field k s = [(k, JStr s)]"

definition str_omit :: "string \<Rightarrow> string \<Rightarrow> (string \<times> json) list" where
  "str_omit k s = (if s = [] then [] else [(k, JStr s)])"

definition int_field :: "string \<Rightarrow> int \<Rightarrow> (string \<times> json) list" where
  "int_field k i = [(k, jint i)]"

definition int_omit :: "string \<Rightarrow> int \<Rightarrow> (string \<times> json) list" where
  "int_omit k i = (if i = 0 then [] else [(k, jint i)])"

definition list_omit :: "string \<Rightarrow> ('a \<Rightarrow> json) \<Rightarrow> 'a list \<Rightarrow> (string \<times> json) list" where
  "list_omit k f xs = (if xs = [] then [] else [(k, JArr (map f xs))])"

definition warning_json :: "Warning \<Rightarrow> json" where
  "warning_json w = JObj (str_field ''code'' (w_Code w) @ str_field ''message'' (w_Message w))"

definition file_json :: "File \<Rightarrow> json" where
  "file_json f = JObj (str_field ''path'' (f_Path f) @ int_field ''size'' (f_Size f)
                       @ str_field ''sha256'' (f_SHA256 f))"

definition machine_json :: "Machine \<Rightarrow> json" where
  "machine_json m = JObj (str_field ''id'' (m_ID m) @ str_field ''hostname'' (m_Hostname m)
                          @ str_field ''os'' (m_OS m) @ str_field ''arch'' (m_Arch m))"

definition descriptor_json :: "Descriptor \<Rightarrow> json" where
  "descriptor_json d = JObj (
     str_field ''path'' (d_Path d) @ str_field ''harness'' (d_Harness d) @ str_field ''adapter'' (d_Adapter d)
     @ str_field ''native_trace_id'' (d_NativeTraceID d) @ str_omit ''native_updated_at'' (d_NativeUpdatedAt d)
     @ str_field ''revision_digest'' (d_RevisionDigest d)
     @ str_omit ''parent_native_trace_id'' (d_ParentNativeTraceID d)
     @ str_omit ''title'' (d_Title d) @ str_omit ''working_directory'' (d_WorkingDirectory d)
     @ [(''repository'', JObj (str_omit ''remote'' (r_Remote (d_Repository d))
                               @ str_omit ''root'' (r_Root (d_Repository d))))]
     @ [(''files'', JArr (map file_json (d_Files d)))] @ list_omit ''warnings'' warning_json (d_Warnings d))"

definition manifest_json :: "Manifest \<Rightarrow> json" where
  "manifest_json m = JObj (
     int_field ''format_version'' (mf_FormatVersion m) @ str_field ''collector_version'' (mf_CollectorVersion m)
     @ str_field ''created_at'' (mf_CreatedAt m) @ [(''source_machine'', machine_json (mf_SourceMachine m))]
     @ [(''traces'', JArr (map descriptor_json (mf_Traces m)))])"

definition source_json :: "SourceRef \<Rightarrow> json" where
  "source_json s = JObj (str_field ''path'' (s_Path s) @ int_omit ''line'' (s_Line s))"

definition attachment_json :: "Attachment \<Rightarrow> json" where
  "attachment_json a = JObj (
     str_omit ''name'' (a_Name a) @ str_omit ''media_type'' (a_MediaType a) @ str_omit ''path'' (a_Path a)
     @ str_omit ''url'' (a_URL a) @ str_omit ''source_pointer'' (a_SourcePointer a)
     @ opt_field (a_Inline a) ''inline'' (JBool True) @ str_omit ''archived_path'' (a_ArchivedPath a)
     @ int_omit ''size'' (a_Size a))"

text \<open>\<open>metadata\<close> is raw JSON: the encoder checks it and copies its text.\<close>

definition event_json :: "Event \<Rightarrow> json option" where
  "event_json e =
     (let meta = (if e_Metadata e = [] then Some [] else map_option (\<lambda>v. [(''metadata'', v)]) (parse_text (e_Metadata e)))
      in map_option (\<lambda>m. JObj (
           int_omit ''id'' (e_ID e) @ int_omit ''trace_id'' (e_TraceID e) @ str_field ''key'' (e_Key e)
           @ str_omit ''parent_key'' (e_ParentKey e) @ str_omit ''branch'' (e_Branch e)
           @ str_field ''kind'' (e_Kind e) @ str_omit ''role'' (e_Role e) @ str_omit ''model'' (e_Model e)
           @ str_omit ''provider'' (e_Provider e) @ str_omit ''tool'' (e_Tool e)
           @ str_omit ''call_id'' (e_CallID e) @ str_omit ''timestamp'' (e_Timestamp e)
           @ str_field ''text'' (e_Text e) @ list_omit ''sources'' source_json (e_Sources e)
           @ list_omit ''attachments'' attachment_json (e_Attachments e) @ m)) meta)"

subsection \<open>Reading structs\<close>

text \<open>A struct field takes the value of its key, exact or equal up to case; an absent key and \<open>null\<close>
  leave the zero value and a value of another kind is an error, here \<open>None\<close>.  (An object with two
  keys that differ only in case, and an integer written with a fraction or an exponent, are read
  by value here.)\<close>

definition get_field :: "json \<Rightarrow> string \<Rightarrow> json" where
  "get_field j k = (case j of
      JObj m \<Rightarrow> (case map_of m k of Some v \<Rightarrow> v
                | None \<Rightarrow> (case find (\<lambda>kv. EqualFold (fst kv) k) m of Some kv \<Rightarrow> snd kv | None \<Rightarrow> JNull))
    | _ \<Rightarrow> JNull)"

definition dec_str :: "json \<Rightarrow> string \<Rightarrow> string option" where
  "dec_str j k = (case get_field j k of JNull \<Rightarrow> Some [] | JStr s \<Rightarrow> Some s | _ \<Rightarrow> None)"

definition dec_int :: "json \<Rightarrow> string \<Rightarrow> int option" where
  "dec_int j k = (case get_field j k of JNull \<Rightarrow> Some 0
      | JNum m e \<Rightarrow> (let i = trunc_number m e
                   in if 0 \<le> e \<and> - (2 ^ 63) \<le> i \<and> i < 2 ^ 63 then Some i else None)
      | _ \<Rightarrow> None)"

definition dec_bool :: "json \<Rightarrow> string \<Rightarrow> bool option" where
  "dec_bool j k = (case get_field j k of JNull \<Rightarrow> Some False | JBool b \<Rightarrow> Some b | _ \<Rightarrow> None)"

fun all_some :: "'a option list \<Rightarrow> 'a list option" where
  "all_some [] = Some []"
| "all_some (x # xs) = (case (x, all_some xs) of (Some a, Some as) \<Rightarrow> Some (a # as) | _ \<Rightarrow> None)"

definition dec_list :: "(json \<Rightarrow> 'a option) \<Rightarrow> json \<Rightarrow> string \<Rightarrow> 'a list option" where
  "dec_list f j k = (case get_field j k of JNull \<Rightarrow> Some [] | JArr vs \<Rightarrow> all_some (map f vs) | _ \<Rightarrow> None)"

definition is_struct :: "json \<Rightarrow> bool" where
  "is_struct j = (case j of JNull \<Rightarrow> True | JObj _ \<Rightarrow> True | _ \<Rightarrow> False)"

definition decode_file :: "json \<Rightarrow> File option" where
  "decode_file j =
     (if \<not> is_struct j then None
      else case (dec_str j ''path'', dec_int j ''size'', dec_str j ''sha256'') of
        (Some p, Some n, Some h) \<Rightarrow> Some \<lparr>f_Path = p, f_Size = n, f_SHA256 = h\<rparr>
      | _ \<Rightarrow> None)"

definition decode_warning :: "json \<Rightarrow> Warning option" where
  "decode_warning j =
     (if \<not> is_struct j then None
      else case (dec_str j ''code'', dec_str j ''message'') of
        (Some c, Some m) \<Rightarrow> Some \<lparr>w_Code = c, w_Message = m\<rparr>
      | _ \<Rightarrow> None)"

definition decode_machine :: "json \<Rightarrow> Machine option" where
  "decode_machine j =
     (if \<not> is_struct j then None
      else case (dec_str j ''id'', dec_str j ''hostname'', dec_str j ''os'', dec_str j ''arch'') of
        (Some i, Some h, Some ops, Some a) \<Rightarrow> Some \<lparr>m_ID = i, m_Hostname = h, m_OS = ops, m_Arch = a\<rparr>
      | _ \<Rightarrow> None)"

definition decode_repository :: "json \<Rightarrow> Repository option" where
  "decode_repository j =
     (if \<not> is_struct j then None
      else case (dec_str j ''remote'', dec_str j ''root'') of
        (Some r, Some t) \<Rightarrow> Some \<lparr>r_Remote = r, r_Root = t\<rparr>
      | _ \<Rightarrow> None)"

definition decode_descriptor :: "json \<Rightarrow> Descriptor option" where
  "decode_descriptor j =
     (if \<not> is_struct j then None
      else
        Option.bind (dec_str j ''path'') (\<lambda>pa.
        Option.bind (dec_str j ''harness'') (\<lambda>ha.
        Option.bind (dec_str j ''adapter'') (\<lambda>ad.
        Option.bind (dec_str j ''native_trace_id'') (\<lambda>ni.
        Option.bind (dec_str j ''native_updated_at'') (\<lambda>nu.
        Option.bind (dec_str j ''revision_digest'') (\<lambda>rd.
        Option.bind (dec_str j ''parent_native_trace_id'') (\<lambda>pn.
        Option.bind (dec_str j ''title'') (\<lambda>ti.
        Option.bind (dec_str j ''working_directory'') (\<lambda>wd.
        Option.bind (decode_repository (get_field j ''repository'')) (\<lambda>re.
        Option.bind (dec_list decode_file j ''files'') (\<lambda>fs.
        Option.bind (dec_list decode_warning j ''warnings'') (\<lambda>ws.
          Some \<lparr>d_Path = pa, d_Harness = ha, d_Adapter = ad, d_NativeTraceID = ni, d_NativeUpdatedAt = nu,
                d_RevisionDigest = rd, d_ParentNativeTraceID = pn, d_Title = ti,
                d_WorkingDirectory = wd, d_Repository = re, d_Files = fs, d_Warnings = ws\<rparr>)))))))))))))"

definition decode_manifest :: "json \<Rightarrow> Manifest option" where
  "decode_manifest j =
     (if \<not> is_struct j then None
      else
        Option.bind (dec_int j ''format_version'') (\<lambda>fv.
        Option.bind (dec_str j ''collector_version'') (\<lambda>cv.
        Option.bind (dec_str j ''created_at'') (\<lambda>ca.
        Option.bind (decode_machine (get_field j ''source_machine'')) (\<lambda>sm.
        Option.bind (dec_list decode_descriptor j ''traces'') (\<lambda>ts.
          Some \<lparr>mf_FormatVersion = fv, mf_CollectorVersion = cv, mf_CreatedAt = ca,
                mf_SourceMachine = sm, mf_Traces = ts\<rparr>))))))"

end
