(* ===== verification/Sha256.thy ===== *)
theory Sha256
  imports GoStrings "HOL-Library.Word"
begin

text \<open>
  \<open>crypto/sha256\<close> and \<open>encoding/hex\<close>: the digest the program names its objects and revisions by
  (FIPS 180-4), on 32-bit words, and its lower-case hexadecimal text.
\<close>

unbundle bit_operations_syntax

type_synonym w32 = "32 word"

definition round_constants :: "w32 list" where
  "round_constants = [
     1116352408, 1899447441, 3049323471, 3921009573, 961987163, 1508970993, 2453635748, 2870763221,
     3624381080, 310598401, 607225278, 1426881987, 1925078388, 2162078206, 2614888103, 3248222580,
     3835390401, 4022224774, 264347078, 604807628, 770255983, 1249150122, 1555081692, 1996064986,
     2554220882, 2821834349, 2952996808, 3210313671, 3336571891, 3584528711, 113926993, 338241895,
     666307205, 773529912, 1294757372, 1396182291, 1695183700, 1986661051, 2177026350, 2456956037,
     2730485921, 2820302411, 3259730800, 3345764771, 3516065817, 3600352804, 4094571909, 275423344,
     430227734, 506948616, 659060556, 883997877, 958139571, 1322822218, 1537002063, 1747873779,
     1955562222, 2024104815, 2227730452, 2361852424, 2428436474, 2756734187, 3204031479, 3329325298]"

definition initial_hash :: "w32 list" where
  "initial_hash = [1779033703, 3144134277, 1013904242, 2773480762,
                   1359893119, 2600822924, 528734635, 1541459225]"

abbreviation rotr :: "nat \<Rightarrow> w32 \<Rightarrow> w32" where
  "rotr n w \<equiv> word_rotr n w"

definition big_sigma0 :: "w32 \<Rightarrow> w32" where
  "big_sigma0 x = rotr 2 x XOR rotr 13 x XOR rotr 22 x"
definition big_sigma1 :: "w32 \<Rightarrow> w32" where
  "big_sigma1 x = rotr 6 x XOR rotr 11 x XOR rotr 25 x"
definition small_sigma0 :: "w32 \<Rightarrow> w32" where
  "small_sigma0 x = rotr 7 x XOR rotr 18 x XOR drop_bit 3 x"
definition small_sigma1 :: "w32 \<Rightarrow> w32" where
  "small_sigma1 x = rotr 17 x XOR rotr 19 x XOR drop_bit 10 x"

definition word_bytes :: "w32 \<Rightarrow> nat list" where
  "word_bytes w = map (\<lambda>k. nat (uint (drop_bit k w) mod 256)) [24, 16, 8, 0]"

definition bytes_word :: "nat list \<Rightarrow> w32" where
  "bytes_word bs = foldl (\<lambda>w b. w * 256 + of_nat b) 0 bs"

definition pad_message :: "nat list \<Rightarrow> nat list" where
  "pad_message bs =
     (let n = length bs;
          zeros = (119 - n mod 64) mod 64
      in bs @ [0x80] @ replicate zeros 0
         @ map (\<lambda>k. nat (8 * int n div 2 ^ k mod 256)) [56, 48, 40, 32, 24, 16, 8, 0])"

fun blocks_of :: "nat \<Rightarrow> nat list \<Rightarrow> nat list list" where
  "blocks_of 0 bs = []"
| "blocks_of (Suc k) bs = take 64 bs # blocks_of k (drop 64 bs)"

fun group4 :: "nat list \<Rightarrow> w32 list" where
  "group4 (a # b # c # d # r) = bytes_word [a, b, c, d] # group4 r"
| "group4 _ = []"

text \<open>The message schedule, held in reverse so that the last words are the first ones.\<close>

fun schedule :: "nat \<Rightarrow> w32 list \<Rightarrow> w32 list" where
  "schedule 0 ws = ws"
| "schedule (Suc k) ws =
     schedule k ((small_sigma1 (ws ! 1) + ws ! 6 + small_sigma0 (ws ! 14) + ws ! 15) # ws)"

fun sha_round :: "w32 list \<Rightarrow> w32 \<times> w32 \<Rightarrow> w32 list" where
  "sha_round [a, b, c, d, e, f, g, h] (k, w) =
     (let t1 = h + big_sigma1 e + ((e AND f) XOR (NOT e AND g)) + k + w;
          t2 = big_sigma0 a + ((a AND b) XOR (a AND c) XOR (b AND c))
      in [t1 + t2, a, b, c, d + t1, e, f, g])"
| "sha_round s _ = s"

definition compress :: "w32 list \<Rightarrow> nat list \<Rightarrow> w32 list" where
  "compress h block =
     (let ws = rev (schedule 48 (rev (group4 block)))
      in map2 (+) h (foldl sha_round h (zip round_constants ws)))"

definition sha256_bytes :: "nat list \<Rightarrow> nat list" where
  "sha256_bytes bs =
     (let p = pad_message bs
      in concat (map word_bytes (foldl compress initial_hash (blocks_of (length p div 64) p))))"

definition lower_hex :: "nat \<Rightarrow> char" where
  "lower_hex n = (if n < 10 then char_of (48 + n) else char_of (87 + n))"

definition hex_encode :: "nat list \<Rightarrow> string" where
  "hex_encode bs = concat (map (\<lambda>b. [lower_hex (b div 16), lower_hex (b mod 16)]) bs)"

definition sha256_hex :: "string \<Rightarrow> string" where
  "sha256_hex s = hex_encode (sha256_bytes (map of_char s))"

subsection \<open>The shape of a digest\<close>

lemma length_hex_encode: "length (hex_encode bs) = 2 * length bs"
  by (induction bs) (simp_all add: hex_encode_def)

lemma length_sha_round: "length (sha_round h kw) = length h"
  by (cases "(h, kw)" rule: sha_round.cases) (auto simp: Let_def)

lemma length_foldl_sha_round: "length (foldl sha_round h kws) = length h"
  by (induction kws arbitrary: h) (simp_all add: length_sha_round)

lemma length_compress: "length (compress h b) = length h"
  by (simp add: compress_def Let_def length_foldl_sha_round)

lemma length_foldl_compress: "length (foldl compress h bs) = length h"
  by (induction bs arbitrary: h) (simp_all add: length_compress)

lemma length_concat_words: "length (concat (map word_bytes ws)) = 4 * length ws"
  by (induction ws) (simp_all add: word_bytes_def)

lemma length_sha256_bytes: "length (sha256_bytes bs) = 32"
  by (simp add: sha256_bytes_def Let_def length_concat_words length_foldl_compress initial_hash_def)

lemma length_sha256_hex [simp]: "length (sha256_hex s) = 64"
  by (simp add: sha256_hex_def length_hex_encode length_sha256_bytes)

lemma sha256_bytes_small: "b \<in> set (sha256_bytes bs) \<Longrightarrow> b < 256"
  by (auto simp: sha256_bytes_def Let_def word_bytes_def nat_less_iff)

definition hex_char :: "char \<Rightarrow> bool" where
  "hex_char c \<longleftrightarrow> is_digit c \<or> (CHR ''a'' \<le> c \<and> c \<le> CHR ''f'')"

lemma lower_hex_char: "n < (16::nat) \<Longrightarrow> hex_char (lower_hex n)"
  by (auto simp: lower_hex_def hex_char_def is_digit_def less_eq_char_def)

lemma sha256_hex_chars: "c \<in> set (sha256_hex s) \<Longrightarrow> hex_char c"
proof -
  assume "c \<in> set (sha256_hex s)"
  then obtain b where b: "b \<in> set (sha256_bytes (map of_char s))"
    and c: "c = lower_hex (b div 16) \<or> c = lower_hex (b mod 16)"
    by (auto simp: sha256_hex_def hex_encode_def)
  have "b div 16 < 16" using sha256_bytes_small [OF b] by (simp add: less_mult_imp_div_less)
  with c show "hex_char c" by (auto intro: lower_hex_char)
qed

lemma sha256_hex_no_nul: "CHR 0x00 \<notin> set (sha256_hex s)"
  using sha256_hex_chars [of "CHR 0x00" s] by (auto simp: hex_char_def is_digit_def less_eq_char_def)

end
