(* ===== verification/Archive.thy ===== *)
theory Archive
  imports Domain Sha256
begin

text \<open>
  \<open>internal/archive/archive.go\<close>: describing a staged source directory, the revision digest, and
  writing archives split by size.  The file system is a parameter: \<open>walk\<close> lists a directory
  in \<open>filepath.WalkDir\<close> order when it is described, \<open>open_at\<close> gives the bytes a file has when the
  archive is written, which need not be the same.  An archive is the list of its entries; the ZIP
  container itself is the standard library's.  The context is never cancelled here.
\<close>

subsection \<open>Paths\<close>

text \<open>\<open>fs.ValidPath\<close>\<close>

definition ValidPath :: "string \<Rightarrow> bool" where
  "ValidPath name \<longleftrightarrow> ValidString name \<and>
     (name = ''.'' \<or> list_all (\<lambda>el. el \<noteq> [] \<and> el \<noteq> ''.'' \<and> el \<noteq> ''..'') (Split (CHR ''/'') name))"

definition safePath :: "string \<Rightarrow> int \<Rightarrow> bool" where
  "safePath name depth \<longleftrightarrow>
     ValidPath name \<and> name \<noteq> ''.'' \<and> \<not> ContainsAny name [CHR 0x5C, CHR '':'', CHR 0x00]
     \<and> int (length (filter (\<lambda>c. c = CHR ''/'') name)) < depth"

subsection \<open>The revision digest\<close>

definition revision_preimage :: "File list \<Rightarrow> string" where
  "revision_preimage files =
     concat (map (\<lambda>f. f_Path f @ nul @ f_SHA256 f @ nul) (sort_key f_Path files))"

definition RevisionDigest :: "File list \<Rightarrow> string" where
  "RevisionDigest files = ''sha256:'' @ sha256_hex (revision_preimage files)"

subsection \<open>Describing a directory\<close>

record DirEntry =
  de_Name :: string
  de_Dir :: bool
  de_Regular :: bool
  de_StatSize :: int
  de_Content :: string

definition describe_entry :: "DirEntry \<Rightarrow> File list result" where
  "describe_entry e =
     (if de_Dir e then Inr []
      else if \<not> de_Regular e then Inl ''source contains a non-regular file''
      else if \<not> safePath (de_Name e) 32 \<or> \<not> prefix ''source/'' (de_Name e)
        then Inl ''source path must be under source/''
      else let read = take (nat (de_StatSize e + 1)) (de_Content e)
           in if int (length read) \<noteq> de_StatSize e then Inl ''source changed while hashing''
              else Inr [\<lparr>f_Path = de_Name e, f_Size = de_StatSize e, f_SHA256 = sha256_hex read\<rparr>])"

fun describe_entries :: "DirEntry list \<Rightarrow> File list result" where
  "describe_entries [] = Inr []"
| "describe_entries (e # es) =
     bind_result (describe_entry e) (\<lambda>fs. bind_result (describe_entries es) (\<lambda>gs. Inr (fs @ gs)))"

record Input =
  i_Descriptor :: Descriptor
  i_Directory :: string
  i_Source :: string
  i_Stamp :: string

definition Describe :: "(string \<Rightarrow> DirEntry list result) \<Rightarrow> Input \<Rightarrow> Descriptor result" where
  "Describe walk input =
     bind_result (walk (i_Directory input)) (\<lambda>es.
     bind_result (describe_entries es) (\<lambda>files.
       if files = [] then Inl ''trace has no source files''
       else Inr ((i_Descriptor input)\<lparr>d_Files := files, d_RevisionDigest := RevisionDigest files\<rparr>)))"

subsection \<open>Writing archives\<close>

definition wrap64 :: "int \<Rightarrow> int" where
  "wrap64 i = (i + 2 ^ 63) mod 2 ^ 64 - 2 ^ 63"

definition trace_size :: "Input \<Rightarrow> int" where
  "trace_size input = foldl (\<lambda>n f. wrap64 (n + f_Size f)) 0 (d_Files (i_Descriptor input))"

text \<open>The inner loop: the traces the next archive takes after it holds \<open>held\<close> bytes.  The first trace is
  taken whatever its size.\<close>

fun take_batch :: "int \<Rightarrow> bool \<Rightarrow> int \<Rightarrow> Input list \<Rightarrow> Input list \<times> Input list" where
  "take_batch splitBytes some held [] = ([], [])"
| "take_batch splitBytes some held (x # xs) =
     (if some \<and> wrap64 (splitBytes - held) < trace_size x then ([], x # xs)
      else case take_batch splitBytes True (wrap64 (held + trace_size x)) xs of
             (ys, rest) \<Rightarrow> (x # ys, rest))"

lemma take_batch_append: "take_batch s b n xs = (ys, rest) \<Longrightarrow> ys @ rest = xs"
  by (induction s b n xs arbitrary: ys rest rule: take_batch.induct)
    (auto split: if_splits prod.splits)

lemma take_batch_first:
  "take_batch s False n (x # xs) = (ys, rest) \<Longrightarrow> ys \<noteq> [] \<and> length rest \<le> length xs"
  using take_batch_append [of s True "wrap64 (n + trace_size x)" xs]
  by (auto split: prod.splits)

function batches :: "int \<Rightarrow> Input list \<Rightarrow> Input list list" where
  "batches splitBytes [] = []"
| "batches splitBytes (x # xs) =
     (case take_batch splitBytes False 0 (x # xs) of
        (batch, rest) \<Rightarrow> batch # batches splitBytes rest)"
  by pat_completeness auto
termination
  by (relation "measure (\<lambda>(s, xs). length xs)")
    (auto simp del: take_batch.simps simp: less_Suc_eq_le dest: take_batch_first [OF sym])

declare batches.simps (2) [simp del]

type_synonym entry = "string \<times> string"

text \<open>\<open>json.NewEncoder(entry).Encode(value)\<close> ends the text with a newline.\<close>

definition metadata_entries :: "Manifest \<Rightarrow> Input list \<Rightarrow> entry list" where
  "metadata_entries manifest inputs =
     (''manifest.json'', Marshal (manifest_json manifest) @ newline) #
     map (\<lambda>i. (d_Path (i_Descriptor i) @ ''/descriptor.json'',
               Marshal (descriptor_json (i_Descriptor i)) @ newline)) inputs"

fun writeSource :: "(string \<Rightarrow> string result) \<Rightarrow> string \<Rightarrow> File list \<Rightarrow> entry list result" where
  "writeSource root path [] = Inr []"
| "writeSource root path (f # fs) =
     bind_result (root (f_Path f)) (\<lambda>content.
       let read = take (nat (f_Size f + 1)) content
       in if int (length read) \<noteq> f_Size f \<or> sha256_hex read \<noteq> f_SHA256 f
          then Inl (''source changed while writing archive: '' @ f_Path f)
          else bind_result (writeSource root path fs) (\<lambda>es. Inr ((path @ ''/'' @ f_Path f, read) # es)))"

fun write_sources :: "(string \<Rightarrow> string \<Rightarrow> string result) \<Rightarrow> Input list \<Rightarrow> entry list result" where
  "write_sources open_at [] = Inr []"
| "write_sources open_at (i # is) =
     bind_result (writeSource (open_at (i_Directory i)) (d_Path (i_Descriptor i)) (d_Files (i_Descriptor i)))
       (\<lambda>es. bind_result (write_sources open_at is) (\<lambda>fs. Inr (es @ fs)))"

definition writeZIP ::
  "(string \<Rightarrow> string \<Rightarrow> string result) \<Rightarrow> Manifest \<Rightarrow> Input list \<Rightarrow> entry list result" where
  "writeZIP open_at manifest inputs =
     bind_result (write_sources open_at inputs) (\<lambda>es. Inr (metadata_entries manifest inputs @ es))"

fun describe_inputs :: "(string \<Rightarrow> DirEntry list result) \<Rightarrow> nat \<Rightarrow> Input list \<Rightarrow> Input list result" where
  "describe_inputs walk n [] = Inr []"
| "describe_inputs walk n (x # xs) =
     bind_result (Describe walk x) (\<lambda>d.
     bind_result (describe_inputs walk (Suc n) xs) (\<lambda>ys.
       Inr (x\<lparr>i_Descriptor := d\<lparr>d_Path := ''traces/'' @ pad_left 6 (nat_digits (Suc n))\<rparr>\<rparr> # ys)))"

text \<open>The outer loop.  A failing archive stops the run; the ones written before it stay.\<close>

fun write_batches ::
  "(string \<Rightarrow> string \<Rightarrow> string result) \<Rightarrow> Manifest \<Rightarrow> Input list list \<Rightarrow> entry list list \<times> string option"
where
  "write_batches open_at manifest [] = ([], None)"
| "write_batches open_at manifest (b # bs) =
     (case writeZIP open_at (manifest\<lparr>mf_Traces := map i_Descriptor b\<rparr>) b of
        Inl e \<Rightarrow> ([], Some e)
      | Inr z \<Rightarrow> (case write_batches open_at manifest bs of (zs, e) \<Rightarrow> (z # zs, e)))"

definition Write ::
  "(string \<Rightarrow> DirEntry list result) \<Rightarrow> (string \<Rightarrow> string \<Rightarrow> string result) \<Rightarrow> string \<Rightarrow> Manifest
   \<Rightarrow> Input list \<Rightarrow> int \<Rightarrow> entry list list \<times> string option" where
  "Write walk open_at now manifest inputs splitBytes =
     (let split = (if splitBytes \<le> 0 then 2000000000 else splitBytes);
          manifest = manifest\<lparr>mf_FormatVersion := FormatVersion,
            mf_CreatedAt := (if mf_CreatedAt manifest = [] then now else mf_CreatedAt manifest)\<rparr>
      in case describe_inputs walk 0 inputs of
           Inl e \<Rightarrow> ([], Some e)
         | Inr described \<Rightarrow> write_batches open_at manifest (batches split described))"

subsection \<open>The revision digest identifies the files\<close>

lemma revision_preimage_perm:
  assumes "mset files = mset files'" "distinct (map f_Path files)"
  shows "revision_preimage files = revision_preimage files'"
  using sort_key_perm_distinct [OF assms] by (simp add: revision_preimage_def)

lemma nul_split_inj:
  assumes "CHR 0x00 \<notin> set a" "CHR 0x00 \<notin> set b" "a @ nul @ s = b @ nul @ t"
  shows "a = b \<and> s = t"
  using assms
proof (induction a arbitrary: b)
  case Nil
  then show ?case by (cases b) (auto simp: nul_def)
next
  case (Cons x a)
  then show ?case by (cases b) (auto simp: nul_def)
qed

definition nul_free :: "File list \<Rightarrow> bool" where
  "nul_free files \<longleftrightarrow> (\<forall>f \<in> set files. CHR 0x00 \<notin> set (f_Path f) \<and> CHR 0x00 \<notin> set (f_SHA256 f))"

lemma preimage_list_inj:
  assumes "nul_free fs" "nul_free gs"
    and "concat (map (\<lambda>f. f_Path f @ nul @ f_SHA256 f @ nul) fs)
       = concat (map (\<lambda>f. f_Path f @ nul @ f_SHA256 f @ nul) gs)"
  shows "map (\<lambda>f. (f_Path f, f_SHA256 f)) fs = map (\<lambda>f. (f_Path f, f_SHA256 f)) gs"
  using assms
proof (induction fs arbitrary: gs)
  case Nil
  then show ?case by (cases gs) (auto simp: nul_def)
next
  case (Cons f fs)
  then obtain g gs' where gs: "gs = g # gs'" by (cases gs) (auto simp: nul_def)
  let ?r = "\<lambda>fs. concat (map (\<lambda>f. f_Path f @ nul @ f_SHA256 f @ nul) fs)"
  have p: "f_Path f = f_Path g \<and> f_SHA256 f @ nul @ ?r fs = f_SHA256 g @ nul @ ?r gs'"
    by (rule nul_split_inj) (use Cons.prems gs in \<open>auto simp: nul_free_def\<close>)
  then have "f_SHA256 f = f_SHA256 g \<and> ?r fs = ?r gs'"
    by (intro nul_split_inj) (use Cons.prems gs in \<open>auto simp: nul_free_def\<close>)
  moreover have "nul_free fs" "nul_free gs'" using Cons.prems gs by (auto simp: nul_free_def)
  ultimately show ?case using Cons.IH [of gs'] p gs by simp
qed

definition name_digests :: "File list \<Rightarrow> (string \<times> string) list" where
  "name_digests files = map (\<lambda>f. (f_Path f, f_SHA256 f)) files"

lemma name_digests_sorted_unique:
  assumes "distinct (map f_Path fs)" "distinct (map f_Path gs)"
    and "set (name_digests fs) = set (name_digests gs)"
  shows "name_digests (sort_key f_Path fs) = name_digests (sort_key f_Path gs)"
proof (rule map_sorted_distinct_set_unique [where f = fst])
  have fst: "map fst (name_digests hs) = map f_Path hs" for hs by (simp add: name_digests_def)
  have d: "distinct (map f_Path (sort_key f_Path fs))" "distinct (map f_Path (sort_key f_Path gs))"
    using assms by (metis mset_map mset_sort mset_eq_imp_distinct_iff)+
  show "set (name_digests (sort_key f_Path fs)) = set (name_digests (sort_key f_Path gs))"
    using assms(3) by (simp add: name_digests_def)
  with d show "inj_on fst (set (name_digests (sort_key f_Path fs)) \<union> set (name_digests (sort_key f_Path gs)))"
    by (metis fst distinct_map sup.idem)
  show "distinct (map fst (name_digests (sort_key f_Path fs)))" "distinct (map fst (name_digests (sort_key f_Path gs)))"
    using d by (simp_all add: fst)
qed (simp_all add: name_digests_def comp_def)

text \<open>C3. The revision digest depends only on the source names and digests, not on the order the files are
  listed in; and what it hashes identifies them: two file lists give the same hash input exactly
  when they name the same sources with the same digests.\<close>

theorem RevisionDigest_identifies:
  assumes "nul_free fs" "nul_free gs" "distinct (map f_Path fs)" "distinct (map f_Path gs)"
  shows "(mset fs = mset gs \<longrightarrow> RevisionDigest fs = RevisionDigest gs) \<and>
     (revision_preimage fs = revision_preimage gs \<longleftrightarrow>
        set (name_digests fs) = set (name_digests gs))"
proof (intro conjI impI iffI)
  show "RevisionDigest fs = RevisionDigest gs" if "mset fs = mset gs"
    using revision_preimage_perm [OF that assms(3)] by (simp add: RevisionDigest_def)
  have free: "nul_free (sort_key f_Path fs)" "nul_free (sort_key f_Path gs)"
    using assms by (simp_all add: nul_free_def)
  show "set (name_digests fs) = set (name_digests gs)" if "revision_preimage fs = revision_preimage gs"
  proof -
    have "name_digests (sort_key f_Path fs) = name_digests (sort_key f_Path gs)"
      using preimage_list_inj [OF free] that by (simp add: revision_preimage_def name_digests_def)
    then have "set (name_digests (sort_key f_Path fs)) = set (name_digests (sort_key f_Path gs))" by simp
    then show ?thesis by (simp add: name_digests_def)
  qed
  have pre: "revision_preimage hs =
      concat (map (\<lambda>p. fst p @ nul @ snd p @ nul) (name_digests (sort_key f_Path hs)))" for hs
    by (simp add: revision_preimage_def name_digests_def comp_def)
  show "revision_preimage fs = revision_preimage gs" if "set (name_digests fs) = set (name_digests gs)"
    using name_digests_sorted_unique [OF assms(3,4) that] by (simp add: pre)
qed

theorem RevisionDigest_identifies_witness:
  "RevisionDigest [\<lparr>f_Path = ''source/b'', f_Size = 1, f_SHA256 = ''22''\<rparr>, \<lparr>f_Path = ''source/a'', f_Size = 2, f_SHA256 = ''11''\<rparr>]
   = RevisionDigest [\<lparr>f_Path = ''source/a'', f_Size = 2, f_SHA256 = ''11''\<rparr>, \<lparr>f_Path = ''source/b'', f_Size = 1, f_SHA256 = ''22''\<rparr>]
   \<and> revision_preimage [\<lparr>f_Path = ''source/b'', f_Size = 1, f_SHA256 = ''22''\<rparr>, \<lparr>f_Path = ''source/a'', f_Size = 2, f_SHA256 = ''11''\<rparr>]
   = revision_preimage [\<lparr>f_Path = ''source/a'', f_Size = 2, f_SHA256 = ''11''\<rparr>, \<lparr>f_Path = ''source/b'', f_Size = 1, f_SHA256 = ''22''\<rparr>]"
  using RevisionDigest_identifies
    [of "[\<lparr>f_Path = ''source/b'', f_Size = 1, f_SHA256 = ''22''\<rparr>, \<lparr>f_Path = ''source/a'', f_Size = 2, f_SHA256 = ''11''\<rparr>]"
        "[\<lparr>f_Path = ''source/a'', f_Size = 2, f_SHA256 = ''11''\<rparr>, \<lparr>f_Path = ''source/b'', f_Size = 1, f_SHA256 = ''22''\<rparr>]"]
  by (auto simp: nul_free_def name_digests_def)

subsection \<open>Splitting\<close>

lemma concat_batches: "concat (batches s xs) = xs"
proof (induction s xs rule: batches.induct)
  case (2 s x xs)
  obtain b rest where br: "take_batch s False 0 (x # xs) = (b, rest)" by fastforce
  then show ?case
    using 2 [OF br [symmetric]] take_batch_append [OF br]
    by (simp add: batches.simps [of s] del: take_batch.simps)
qed simp

lemma batches_nonempty: "b \<in> set (batches s xs) \<Longrightarrow> b \<noteq> []"
proof (induction s xs rule: batches.induct)
  case (2 s x xs)
  obtain c rest where br: "take_batch s False 0 (x # xs) = (c, rest)" by fastforce
  then show ?case
    using 2(1) [OF br [symmetric]] 2(2) take_batch_first [OF br]
    by (auto simp: batches.simps [of s] simp del: take_batch.simps)
qed simp

definition total_size :: "Input \<Rightarrow> int" where
  "total_size x = sum_list (map f_Size (d_Files (i_Descriptor x)))"

definition sizes_ok :: "Input list \<Rightarrow> bool" where
  "sizes_ok xs \<longleftrightarrow> (\<forall>x \<in> set xs. \<forall>f \<in> set (d_Files (i_Descriptor x)). 0 \<le> f_Size f)
     \<and> sum_list (map total_size xs) < 2 ^ 63"

lemma wrap64_id: "- (2 ^ 63) \<le> i \<Longrightarrow> i < 2 ^ 63 \<Longrightarrow> wrap64 i = i"
  by (simp add: wrap64_def)

lemma foldl_wrap64:
  "0 \<le> n \<Longrightarrow> \<forall>x \<in> set xs. (0::int) \<le> x \<Longrightarrow> n + sum_list xs < 2 ^ 63
   \<Longrightarrow> foldl (\<lambda>n x. wrap64 (n + x)) n xs = n + sum_list xs"
proof (induction xs arbitrary: n)
  case (Cons x xs)
  moreover have "0 \<le> sum_list xs" using Cons.prems by (intro sum_list_nonneg) auto
  ultimately show ?case by (simp add: wrap64_id)
qed simp

lemma foldl_map_arg: "foldl g n (map f xs) = foldl (\<lambda>n x. g n (f x)) n xs"
  by (induction xs arbitrary: n) auto

lemma total_size_nonneg: "\<forall>f \<in> set (d_Files (i_Descriptor x)). 0 \<le> f_Size f \<Longrightarrow> 0 \<le> total_size x"
  unfolding total_size_def by (intro sum_list_nonneg) auto

lemma sizes_ok_Cons:
  "sizes_ok (x # xs) \<Longrightarrow> trace_size x = total_size x \<and> 0 \<le> total_size x \<and> sizes_ok xs
     \<and> 0 \<le> sum_list (map total_size xs)"
proof -
  assume a: "sizes_ok (x # xs)"
  then have x: "\<forall>f \<in> set (d_Files (i_Descriptor x)). 0 \<le> f_Size f" by (simp add: sizes_ok_def)
  have xs: "0 \<le> sum_list (map total_size xs)"
    using a by (intro sum_list_nonneg) (auto simp: sizes_ok_def intro!: total_size_nonneg)
  have "foldl (\<lambda>n y. wrap64 (n + y)) 0 (map f_Size (d_Files (i_Descriptor x)))
      = 0 + sum_list (map f_Size (d_Files (i_Descriptor x)))"
    using a x xs by (intro foldl_wrap64) (auto simp: sizes_ok_def total_size_def)
  then have "trace_size x = total_size x"
    by (simp add: trace_size_def total_size_def foldl_map_arg)
  with x xs a total_size_nonneg [OF x] show ?thesis by (auto simp: sizes_ok_def)
qed

lemma take_batch_bound:
  assumes "take_batch s True n xs = (ys, rest)" "sizes_ok xs" "0 \<le> n"
    "n + sum_list (map total_size xs) < 2 ^ 63" "0 \<le> s" "s < 2 ^ 63" "ys \<noteq> []"
  shows "n + sum_list (map total_size ys) \<le> s"
  using assms
proof (induction xs arbitrary: n ys)
  case (Cons x xs)
  note x = sizes_ok_Cons [OF Cons.prems(2)]
  have w: "wrap64 (s - n) = s - n" "wrap64 (n + trace_size x) = n + total_size x"
    using Cons.prems x by (auto intro!: wrap64_id)
  then have fit: "total_size x \<le> s - n" using Cons.prems x by (auto split: if_splits)
  then obtain zs where zs: "take_batch s True (n + total_size x) xs = (zs, rest)" "ys = x # zs"
    using Cons.prems(1) w x by (auto split: prod.splits)
  show ?case
  proof (cases "zs = []")
    case False
    with Cons.IH [OF zs(1)] Cons.prems x have "n + total_size x + sum_list (map total_size zs) \<le> s" by simp
    with zs show ?thesis by simp
  qed (use zs fit in simp)
qed simp

lemma sizes_ok_append: "sizes_ok (xs @ ys) \<Longrightarrow> sizes_ok ys"
  by (induction xs) (auto dest: sizes_ok_Cons)

text \<open>C4. Splitting loses and duplicates nothing: the archives' traces, in order, are the inputs; no
  archive is empty; and an archive with more than one trace holds at most \<open>splitBytes\<close> of sources, as long
  as the sizes are non-negative and their sum fits an \<open>int64\<close>.\<close>

theorem batches_split:
  assumes "sizes_ok inputs" "0 \<le> splitBytes" "splitBytes < 2 ^ 63"
  shows "concat (batches splitBytes inputs) = inputs \<and>
    (\<forall>b \<in> set (batches splitBytes inputs).
       b \<noteq> [] \<and> (length b = 1 \<or> sum_list (map total_size b) \<le> splitBytes))"
proof -
  have "length b = 1 \<or> sum_list (map total_size b) \<le> splitBytes" if "b \<in> set (batches splitBytes inputs)" for b
    using that assms
  proof (induction splitBytes inputs rule: batches.induct)
    case (2 s x xs)
    obtain c rest where br: "take_batch s False 0 (x # xs) = (c, rest)" by fastforce
    note x = sizes_ok_Cons [OF 2(3)]
    have "sizes_ok rest" using 2(3) take_batch_append [OF br] sizes_ok_append by metis
    with 2(1) [OF br [symmetric]] 2(2,4,5) br consider "b = c" | ?case
      by (auto simp: batches.simps [of s] simp del: take_batch.simps)
    then show ?case
    proof cases
      case 1
      have "wrap64 (trace_size x) = total_size x" using x 2(3) by (intro trans [OF wrap64_id]) (auto simp: sizes_ok_def)
      with br 1 obtain zs where zs: "take_batch s True (total_size x) xs = (zs, rest)" "b = x # zs"
        by (auto split: prod.splits)
      then show ?thesis
        using take_batch_bound [OF zs(1)] x 2(3,4,5) by (cases "zs = []") (auto simp: sizes_ok_def)
    qed
  qed simp
  then show ?thesis using concat_batches batches_nonempty by blast
qed

definition sized :: "int \<Rightarrow> Input" where
  "sized n = \<lparr>i_Descriptor = zero_Descriptor\<lparr>d_Files := [\<lparr>f_Path = ''source/a'', f_Size = n, f_SHA256 = []\<rparr>]\<rparr>,
              i_Directory = [], i_Source = [], i_Stamp = []\<rparr>"

theorem batches_split_witness:
  "concat (batches 10 [sized 4, sized 5, sized 7]) = [sized 4, sized 5, sized 7]
   \<and> list_all (\<lambda>b. b \<noteq> [] \<and> (length b = 1 \<or> sum_list (map total_size b) \<le> 10))
        (batches 10 [sized 4, sized 5, sized 7])"
  using batches_split [of "[sized 4, sized 5, sized 7]" 10]
  by (simp add: sizes_ok_def sized_def total_size_def list_all_iff)

subsection \<open>What a written archive holds\<close>

lemma writeSource_sound:
  "writeSource root path fs = Inr es \<Longrightarrow>
     map fst es = map (\<lambda>f. path @ ''/'' @ f_Path f) fs
     \<and> list_all2 (\<lambda>f e. int (length (snd e)) = f_Size f \<and> sha256_hex (snd e) = f_SHA256 f) fs es"
  by (induction root path fs arbitrary: es rule: writeSource.induct)
    (auto simp: Let_def bind_result_Inr_iff split: if_splits)

definition described_file :: "File \<Rightarrow> bool" where
  "described_file f \<longleftrightarrow> safePath (f_Path f) 32 \<and> prefix ''source/'' (f_Path f) \<and> 0 \<le> f_Size f
     \<and> (\<exists>c. int (length c) = f_Size f \<and> sha256_hex c = f_SHA256 f)"

lemma describe_entry_sound: "describe_entry e = Inr fs \<Longrightarrow> list_all described_file fs"
  by (auto simp: describe_entry_def Let_def described_file_def split: if_splits)
    (rule exI [of _ "de_Content e"], auto simp: min_def split: if_splits)

lemma describe_entries_sound: "describe_entries es = Inr fs \<Longrightarrow> list_all described_file fs"
proof (induction es arbitrary: fs)
  case (Cons e es)
  then obtain a b where "describe_entry e = Inr a" "describe_entries es = Inr b" "fs = a @ b"
    by (auto simp: bind_result_Inr_iff)
  with Cons.IH show ?case by (simp add: describe_entry_sound)
qed simp

end
