(* ===== verification/ZipDirectory.thy ===== *)
theory ZipDirectory
  imports Prelude "HOL-Library.Word"
begin

text \<open>
  \<open>checkDirectorySize\<close> of \<open>internal/archive/validate.go\<close>: counting the central directory's headers
  before \<open>archive/zip\<close> allocates an entry for each, because the advertised count can lie.  Offsets are
  the source's \<open>uint64\<close>; a read outside the file is an error.
\<close>

definition byte_at :: "string \<Rightarrow> nat \<Rightarrow> nat" where
  "byte_at s i = of_char (s ! i)"

fun little_endian :: "string \<Rightarrow> nat" where
  "little_endian [] = 0"
| "little_endian (c # s) = of_char c + 256 * little_endian s"

definition Uint16 :: "string \<Rightarrow> nat \<Rightarrow> 64 word" where
  "Uint16 s i = of_nat (little_endian (Prelude.slice i (i + 2) s))"
definition Uint32 :: "string \<Rightarrow> nat \<Rightarrow> 64 word" where
  "Uint32 s i = of_nat (little_endian (Prelude.slice i (i + 4) s))"
definition Uint64 :: "string \<Rightarrow> nat \<Rightarrow> 64 word" where
  "Uint64 s i = of_nat (little_endian (Prelude.slice i (i + 8) s))"

text \<open>\<open>reader.ReadAt(buffer, offset)\<close> with a buffer of \<open>n\<close> bytes.\<close>

definition ReadAt :: "string \<Rightarrow> nat \<Rightarrow> int \<Rightarrow> string result" where
  "ReadAt file n off =
     (if off < 0 \<or> int (length file) < off + int n then Inl ''EOF''
      else Inr (Prelude.slice (nat off) (nat off + n) file))"

definition signature :: "nat \<Rightarrow> nat \<Rightarrow> string" where
  "signature a b = [CHR ''P'', CHR ''K'', char_of a, char_of b]"

text \<open>The end-of-directory record: the last one in the tail whose comment reaches the end of the file.
  The two counters are \<open>end\<close> of the loop and the rest of its range.\<close>

definition end_record_at :: "string \<Rightarrow> nat \<Rightarrow> bool" where
  "end_record_at tail e \<longleftrightarrow>
     Prelude.slice e (e + 4) tail = signature 5 6 \<and> e + 22 + unat (Uint16 tail (e + 20)) = length tail"

fun find_end :: "string \<Rightarrow> nat \<Rightarrow> nat option" where
  "find_end tail 0 = (if end_record_at tail 0 then Some 0 else None)"
| "find_end tail (Suc e) = (if end_record_at tail (Suc e) then Some (Suc e) else find_end tail e)"

record Directory =
  dir_count :: "64 word"
  dir_size :: "64 word"
  dir_offset :: "64 word"

definition read_directory :: "string \<Rightarrow> int \<Rightarrow> string \<Rightarrow> int \<Rightarrow> nat \<Rightarrow> Directory result" where
  "read_directory file fsize tail len e =
     (let count = Uint16 tail (e + 10); sz = Uint32 tail (e + 12); off = Uint32 tail (e + 16)
      in if count = 0xffff \<or> sz = 0xffffffff \<or> off = 0xffffffff then
           (case ReadAt file 20 (fsize - len + int e - 20) of
              Inl _ \<Rightarrow> Inl ''invalid ZIP64 directory''
            | Inr locator \<Rightarrow>
                (if take 4 locator \<noteq> signature 6 7 then Inl ''invalid ZIP64 directory''
                 else let offset = Uint64 locator 8
                      in if fsize < 56 \<or> of_int (fsize - 56) < offset then Inl ''invalid ZIP64 offset''
                         else (case ReadAt file 56 (sint offset) of
                                 Inl _ \<Rightarrow> Inl ''invalid ZIP64 header''
                               | Inr header \<Rightarrow>
                                   (if take 4 header \<noteq> signature 6 6 then Inl ''invalid ZIP64 header''
                                    else Inr \<lparr>dir_count = Uint64 header 32, dir_size = Uint64 header 40,
                                              dir_offset = Uint64 header 48\<rparr>))))
         else Inr \<lparr>dir_count = count, dir_size = sz, dir_offset = off\<rparr>)"

lemma unat_of_small: "n < 2 ^ 64 \<Longrightarrow> unat (of_nat n :: 64 word) = n"
  by (simp add: unat_of_nat)

lemma unat_inc: "(a :: 64 word) < b \<Longrightarrow> unat (a + 1) = Suc (unat a) \<and> a + 1 \<le> b"
proof -
  assume "a < b"
  then have ab: "unat a < unat b" by (simp add: word_less_nat_alt)
  have "unat b < 2 ^ 64" using unsigned_less [of b, where ?'a = nat] by simp
  with ab have "unat (a + 1) = Suc (unat a)" by (simp add: unat_word_ariths(1))
  with ab show ?thesis by (simp add: word_le_nat_alt)
qed

text \<open>The scan; \<open>actual\<close> stays below the limit, so it ends.\<close>

function scan_headers ::
  "string \<Rightarrow> 64 word \<Rightarrow> 64 word \<Rightarrow> 64 word \<Rightarrow> 64 word \<Rightarrow> (64 word \<times> 64 word) result" where
  "scan_headers file limit directoryEnd off actual =
     (if \<not> off < directoryEnd then Inr (actual, off)
      else if limit \<le> actual then Inl ''archive contains too many files''
      else if directoryEnd - off < 46 then Inl ''truncated ZIP directory''
      else case ReadAt file 46 (sint off) of
             Inl e \<Rightarrow> Inl e
           | Inr header \<Rightarrow>
               (if take 4 header \<noteq> signature 1 2 then Inl ''invalid ZIP directory entry''
                else scan_headers file limit directoryEnd
                       (off + (46 + Uint16 header 28 + Uint16 header 30 + Uint16 header 32)) (actual + 1)))"
  by pat_completeness auto
termination
proof (relation "measure (\<lambda>(file, limit, directoryEnd, off, actual). unat limit - unat actual)", goal_cases)
  case (2 f limit directoryEnd off actual header)
  then have "actual < limit" by simp
  with unat_inc [OF this] show ?case by (simp add: word_less_nat_alt)
qed simp

declare scan_headers.simps [simp del]

definition checkDirectorySize :: "string \<Rightarrow> int \<Rightarrow> int \<Rightarrow> unit result" where
  "checkDirectorySize file fsize limit =
     (let len = min fsize 65557
      in bind_result (ReadAt file (nat len) (fsize - len)) (\<lambda>tail.
         case (if 22 \<le> length tail then find_end tail (length tail - 22) else None) of
           None \<Rightarrow> Inl ''ZIP end directory missing''
         | Some e \<Rightarrow>
             bind_result (read_directory file fsize tail len e) (\<lambda>d.
               if of_int limit < dir_count d then Inl ''archive contains too many files''
               else if of_int fsize < dir_offset d \<or> of_int fsize - dir_offset d < dir_size d
                 then Inl ''invalid ZIP directory bounds''
               else let directoryEnd = dir_offset d + dir_size d
                    in bind_result (scan_headers file (of_int limit) directoryEnd (dir_offset d) 0)
                         (\<lambda>(actual, off).
                            if actual \<noteq> dir_count d \<or> off \<noteq> directoryEnd
                            then Inl ''ZIP directory count or size mismatch'' else Inr ()))))"

subsection \<open>What a passed check means\<close>

definition header_at :: "string \<Rightarrow> 64 word \<Rightarrow> string" where
  "header_at file off = Prelude.slice (nat (sint off)) (nat (sint off) + 46) file"

definition next_header :: "string \<Rightarrow> 64 word \<Rightarrow> 64 word" where
  "next_header file off =
     off + (46 + Uint16 (header_at file off) 28 + Uint16 (header_at file off) 30 + Uint16 (header_at file off) 32)"

text \<open>\<open>n\<close> headers one behind the other fill the directory from \<open>off\<close> to its end.\<close>

fun header_chain :: "string \<Rightarrow> 64 word \<Rightarrow> nat \<Rightarrow> 64 word \<Rightarrow> bool" where
  "header_chain file dend 0 off \<longleftrightarrow> off = dend"
| "header_chain file dend (Suc n) off \<longleftrightarrow>
     unat off + 46 \<le> unat dend \<and> take 4 (header_at file off) = signature 1 2
     \<and> header_chain file dend n (next_header file off)"

lemma little_endian_bound: "little_endian s < 256 ^ length s"
proof (induction s)
  case (Cons c s)
  have "(of_char c :: nat) < 256" by (simp add: of_char_def)
  with Cons have "of_char c + 256 * little_endian s < 256 * 256 ^ length s" by linarith
  then show ?case by simp
qed simp

lemma Uint16_bound: "unat (Uint16 s i) < 65536"
proof -
  have "little_endian (Prelude.slice i (i + 2) s) < 256 ^ length (Prelude.slice i (i + 2) s)"
    by (rule little_endian_bound)
  also have "\<dots> \<le> 256 ^ 2"
    using length_slice_le [of i "i + 2" s] by (intro power_increasing) auto
  finally have b: "little_endian (Prelude.slice i (i + 2) s) < 65536" by simp
  then have "unat (Uint16 s i) = little_endian (Prelude.slice i (i + 2) s)"
    unfolding Uint16_def by (intro unat_of_small) simp
  with b show ?thesis by simp
qed

lemma next_header_bounds:
  assumes "unat off < 2 ^ 63"
  shows "unat off + 46 \<le> unat (next_header file off) \<and> unat (next_header file off) < 2 ^ 63 + 200000"
proof -
  let ?h = "header_at file off"
  let ?k = "46 + unat (Uint16 ?h 28) + unat (Uint16 ?h 30) + unat (Uint16 ?h 32)"
  have k: "?k < 200000" using Uint16_bound [of ?h 28] Uint16_bound [of ?h 30] Uint16_bound [of ?h 32] by simp
  have "next_header file off = of_nat (unat off + ?k)"
    by (simp add: next_header_def)
  moreover have "unat (of_nat (unat off + ?k) :: 64 word) = unat off + ?k"
    using assms k by (intro unat_of_small) simp
  ultimately show ?thesis using assms k by simp
qed

lemma ReadAt_Inr: "ReadAt file n off = Inr s \<longleftrightarrow>
    0 \<le> off \<and> off + int n \<le> int (length file) \<and> s = Prelude.slice (nat off) (nat off + n) file"
  by (auto simp: ReadAt_def)

lemma scan_headers_chain:
  "scan_headers f limit dend off actual = Inr (a, off') \<Longrightarrow> off' = dend \<Longrightarrow> unat dend < 2 ^ 63 \<Longrightarrow>
   actual \<le> limit \<Longrightarrow>
   \<exists>n. header_chain f dend n off \<and> unat a = unat actual + n \<and> a \<le> limit \<and> unat off + 46 * n \<le> unat dend"
proof (induction f limit dend off actual rule: scan_headers.induct)
  case (1 f limit dend off actual)
  show ?case
  proof (cases "off < dend")
    case False
    with 1(2,3,5) show ?thesis by (intro exI [of _ 0]) (auto simp: scan_headers.simps [of _ _ _ off])
  next
    case True
    then have off: "unat off < unat dend" by (simp add: word_less_nat_alt)
    have h: "\<not> limit \<le> actual" "\<not> dend - off < 46" and hdr: "take 4 (header_at f off) = signature 1 2"
      and read: "ReadAt f 46 (sint off) = Inr (header_at f off)"
      and rec: "scan_headers f limit dend (next_header f off) (actual + 1) = Inr (a, off')"
      using 1(2) True
      by (auto simp: scan_headers.simps [of _ _ _ off] header_at_def next_header_def ReadAt_Inr
          split: if_splits sum.splits)
    have room: "unat off + 46 \<le> unat dend"
      using h(2) off by (simp add: word_less_nat_alt unat_sub_if' split: if_splits)
    have act: "unat (actual + 1) = Suc (unat actual)" "actual + 1 \<le> limit"
      using h(1) unat_inc [of actual limit] by (auto simp: not_le)
    obtain n where n: "header_chain f dend n (next_header f off)" "unat a = unat (actual + 1) + n"
        "a \<le> limit" "unat (next_header f off) + 46 * n \<le> unat dend"
      using 1(1) [OF _ h read] True hdr rec 1(3,4) act(2) by (auto simp: next_header_def)
    have "unat off + 46 \<le> unat (next_header f off)"
      using next_header_bounds [of off f] off 1(4) by simp
    with n act room hdr show ?thesis by (intro exI [of _ "Suc n"]) simp
  qed
qed

text \<open>A file of one header and its end record.\<close>

definition one_entry_zip :: string where
  "one_entry_zip = signature 1 2 @ replicate 42 (CHR 0x00)
     @ signature 5 6 @ replicate 4 (CHR 0x00) @ [CHR 0x01, CHR 0x00, CHR 0x01, CHR 0x00]
     @ [CHR 0x2E, CHR 0x00, CHR 0x00, CHR 0x00] @ replicate 6 (CHR 0x00)"

end
