(* ===== verification/Validate.thy ===== *)
theory Validate
  imports Archive ZipDirectory
begin

text \<open>
  \<open>internal/archive/validate.go\<close>: what an uploaded archive must satisfy before anything of it is
  imported.  \<open>zip.NewReader\<close> and the decompression it does are a parameter \<open>unzip\<close>: it turns the file
  into entries, each with its name, whether it is a regular file, its advertised size, and what
  reading it yields (bytes, then possibly an error at the end).  The properties hold for any such
  reader.
\<close>

record Limits =
  l_ArchiveBytes :: int
  l_ExpandedBytes :: int
  l_FileBytes :: int
  l_Files :: int
  l_Depth :: int
  l_MetadataBytes :: int

definition DefaultLimits :: Limits where
  "DefaultLimits = \<lparr>l_ArchiveBytes = 8 * 2 ^ 30, l_ExpandedBytes = 32 * 2 ^ 30, l_FileBytes = 4 * 2 ^ 30,
     l_Files = 100000, l_Depth = 32, l_MetadataBytes = 16 * 2 ^ 20\<rparr>"

record ZipEntry =
  z_Name :: string
  z_Regular :: bool
  z_Size :: "64 word"
  z_Data :: string
  z_Error :: "string option"

text \<open>\<open>io.ReadAll\<close> or \<open>io.Copy\<close> of \<open>io.LimitReader(entry, n)\<close>.\<close>

definition read_limited :: "int \<Rightarrow> ZipEntry \<Rightarrow> string result" where
  "read_limited n e =
     (if n \<le> int (length (z_Data e)) then Inr (take (nat n) (z_Data e))
      else case z_Error e of Some m \<Rightarrow> Inl m | None \<Rightarrow> Inr (z_Data e))"

text \<open>The loop over the entries: the map from names to entries and the bytes they expand to.\<close>

fun collect_files ::
  "Limits \<Rightarrow> ZipEntry list \<Rightarrow> 64 word \<Rightarrow> (string \<times> ZipEntry) list \<Rightarrow> (string \<times> ZipEntry) list result" where
  "collect_files limits [] expanded files = Inr files"
| "collect_files limits (e # es) expanded files =
     (if \<not> safePath (z_Name e) (l_Depth limits) \<or> \<not> z_Regular e
        then Inl ''archive contains an unsafe path or non-regular file''
      else if z_Name e \<in> set (map fst files) then Inl ''archive contains a duplicate path''
      else if of_int (l_FileBytes limits) < z_Size e \<or> of_int (l_ExpandedBytes limits) - expanded < z_Size e
        then Inl ''archive expansion limit exceeded''
      else collect_files limits es (expanded + z_Size e) (files @ [(z_Name e, e)]))"

definition readMetadata :: "ZipEntry option \<Rightarrow> int \<Rightarrow> (json \<Rightarrow> 'a option) \<Rightarrow> 'a result" where
  "readMetadata entry limit target =
     (case entry of
        None \<Rightarrow> Inl ''file missing''
      | Some e \<Rightarrow>
          (if of_int limit < z_Size e then Inl ''metadata limit exceeded''
           else bind_result (read_limited (limit + 1) e) (\<lambda>data.
             if limit < int (length data) then Inl ''metadata limit exceeded''
             else case parse_text data of
                    None \<Rightarrow> Inl ''invalid JSON''
                  | Some j \<Rightarrow> (case target j of None \<Rightarrow> Inl ''JSON of another type'' | Some x \<Rightarrow> Inr x))))"

fun validate_sources ::
  "Limits \<Rightarrow> (string \<times> ZipEntry) list \<Rightarrow> string \<Rightarrow> File list \<Rightarrow> string list \<Rightarrow> string list result" where
  "validate_sources limits files path [] used = Inr used"
| "validate_sources limits files path (s # ss) used =
     (if \<not> safePath (f_Path s) (l_Depth limits - 2) \<or> \<not> prefix ''source/'' (f_Path s)
         \<or> f_Size s < 0 \<or> l_FileBytes limits < f_Size s
        then Inl ''invalid source file descriptor''
      else let name = path @ ''/'' @ f_Path s
           in case map_of files name of
                None \<Rightarrow> Inl ''missing, duplicate, or size-mismatched source file''
              | Some e \<Rightarrow>
                  (if name \<in> set used \<or> z_Size e \<noteq> of_int (f_Size s)
                     then Inl ''missing, duplicate, or size-mismatched source file''
                   else bind_result (read_limited (f_Size s + 1) e) (\<lambda>data.
                     if int (length data) \<noteq> f_Size s \<or> sha256_hex data \<noteq> f_SHA256 s
                       then Inl ''source digest mismatch''
                     else validate_sources limits files path ss (name # used))))"

definition validateTrace ::
  "Limits \<Rightarrow> (string \<times> ZipEntry) list \<Rightarrow> Descriptor \<Rightarrow> string list \<Rightarrow> string list result" where
  "validateTrace limits files d used =
     (if \<not> safePath (d_Path d) 2 \<or> \<not> prefix ''traces/'' (d_Path d) \<or> d_Harness d = []
         \<or> d_NativeTraceID d = [] \<or> d_Files d = []
        then Inl ''incomplete trace descriptor''
      else let name = d_Path d @ ''/descriptor.json''
           in if name \<in> set used then Inl ''duplicate trace path''
              else bind_result (readMetadata (map_of files name) (l_MetadataBytes limits) decode_descriptor)
                (\<lambda>copy.
                  if copy \<noteq> d \<or> d_RevisionDigest d \<noteq> RevisionDigest (d_Files d)
                    then Inl ''trace descriptor or revision digest mismatch''
                  else validate_sources limits files (d_Path d) (d_Files d) (name # used)))"

definition identity :: "Descriptor \<Rightarrow> string" where
  "identity d = d_Harness d @ nul @ d_NativeTraceID d"

fun validate_traces ::
  "Limits \<Rightarrow> (string \<times> ZipEntry) list \<Rightarrow> Descriptor list \<Rightarrow> string list \<Rightarrow> string list \<Rightarrow> string list result" where
  "validate_traces limits files [] used identities = Inr used"
| "validate_traces limits files (d # ds) used identities =
     bind_result (validateTrace limits files d used) (\<lambda>used.
       if identity d \<in> set identities then Inl ''manifest contains a duplicate trace''
       else validate_traces limits files ds used (identity d # identities))"

record Validated =
  v_Manifest :: Manifest
  v_ZIP :: "ZipEntry list"

definition limits_positive :: "Limits \<Rightarrow> bool" where
  "limits_positive l \<longleftrightarrow> 0 < l_ArchiveBytes l \<and> 0 < l_ExpandedBytes l \<and> 0 < l_FileBytes l \<and> 0 < l_Files l
     \<and> 0 < l_Depth l \<and> 0 < l_MetadataBytes l"

definition Validate ::
  "(string \<Rightarrow> ZipEntry list result) \<Rightarrow> string \<Rightarrow> int \<Rightarrow> Limits \<Rightarrow> Validated result" where
  "Validate unzip file_bytes fsize limits =
     bind_result (guard (limits_positive limits) ''archive limits must be positive'') (\<lambda>_.
     bind_result (guard (0 < fsize \<and> fsize \<le> l_ArchiveBytes limits) ''archive size exceeds allowed range'') (\<lambda>_.
     bind_result (checkDirectorySize file_bytes fsize (l_Files limits)) (\<lambda>_.
     bind_result (unzip file_bytes) (\<lambda>zipped.
     bind_result (guard (int (length zipped) \<le> l_Files limits) ''archive contains too many files'') (\<lambda>_.
     bind_result (collect_files limits zipped 0 []) (\<lambda>files.
     bind_result (readMetadata (map_of files ''manifest.json'') (l_MetadataBytes limits) decode_manifest)
       (\<lambda>manifest.
     bind_result (guard (mf_FormatVersion manifest = FormatVersion \<and> m_ID (mf_SourceMachine manifest) \<noteq> []
         \<and> m_Hostname (mf_SourceMachine manifest) \<noteq> [] \<and> mf_Traces manifest \<noteq> [])
         ''unsupported or incomplete manifest'') (\<lambda>_.
     bind_result (validate_traces limits files (mf_Traces manifest) [''manifest.json''] []) (\<lambda>used.
     bind_result (guard (length used = length files) ''archive contains unlisted files'') (\<lambda>_.
       Inr \<lparr>v_Manifest = manifest, v_ZIP = zipped\<rparr>))))))))))"

subsection \<open>What a validated archive is\<close>

definition source_name :: "Descriptor \<Rightarrow> File \<Rightarrow> string" where
  "source_name d s = d_Path d @ ''/'' @ f_Path s"

definition source_ok :: "(string \<times> ZipEntry) list \<Rightarrow> string \<Rightarrow> File \<Rightarrow> bool" where
  "source_ok files path s \<longleftrightarrow> (case map_of files (path @ ''/'' @ f_Path s) of None \<Rightarrow> False
     | Some e \<Rightarrow> int (length (z_Data e)) = f_Size s \<and> sha256_hex (z_Data e) = f_SHA256 s \<and> z_Error e = None)"

definition listed :: "Descriptor \<Rightarrow> string list" where
  "listed d = (d_Path d @ ''/descriptor.json'') # map (source_name d) (d_Files d)"

lemma read_limited_exact:
  "read_limited (n + 1) e = Inr data \<Longrightarrow> int (length data) = n \<Longrightarrow> data = z_Data e \<and> z_Error e = None"
  by (auto simp: read_limited_def dest: arg_cong [where f = length] split: if_splits option.splits)

definition used_ok :: "(string \<times> ZipEntry) list \<Rightarrow> string list \<Rightarrow> bool" where
  "used_ok files used \<longleftrightarrow> distinct used \<and> set used \<subseteq> set (map fst files)"

lemma map_of_key: "map_of m k = Some v \<Longrightarrow> k \<in> set (map fst m)"
  by (force dest: map_of_SomeD)

lemma validate_sources_sound:
  "validate_sources limits files path ss used = Inr used' \<Longrightarrow> used_ok files used \<Longrightarrow>
     used_ok files used' \<and> set used' = set used \<union> (\<lambda>s. path @ ''/'' @ f_Path s) ` set ss
     \<and> list_all (source_ok files path) ss"
proof (induction ss arbitrary: used)
  case (Cons s ss)
  let ?name = "path @ ''/'' @ f_Path s"
  obtain e data where e: "map_of files ?name = Some e" "?name \<notin> set used"
    and data: "read_limited (f_Size s + 1) e = Inr data" "int (length data) = f_Size s" "sha256_hex data = f_SHA256 s"
    and rec: "validate_sources limits files path ss (?name # used) = Inr used'"
    using Cons.prems(1)
    by (auto simp: Let_def bind_result_Inr_iff split: if_splits option.splits)
  have ok: "used_ok files (?name # used)"
    using Cons.prems(2) e map_of_key [OF e(1)] by (simp add: used_ok_def)
  have "source_ok files path s"
    using e data read_limited_exact [OF data(1,2)] by (simp add: source_ok_def)
  moreover have "used_ok files used' \<and>
      set used' = set (?name # used) \<union> (\<lambda>s. path @ ''/'' @ f_Path s) ` set ss \<and> list_all (source_ok files path) ss"
    by (rule Cons.IH [OF rec ok])
  ultimately show ?case by auto
qed (simp add: used_ok_def)

definition trace_ok :: "(string \<times> ZipEntry) list \<Rightarrow> Descriptor \<Rightarrow> bool" where
  "trace_ok files d \<longleftrightarrow> d_RevisionDigest d = RevisionDigest (d_Files d) \<and> d_Files d \<noteq> []
     \<and> d_Harness d \<noteq> [] \<and> d_NativeTraceID d \<noteq> [] \<and> list_all (source_ok files (d_Path d)) (d_Files d)"

lemma readMetadata_key: "readMetadata (map_of files name) n target = Inr x \<Longrightarrow> name \<in> set (map fst files)"
  by (auto simp: readMetadata_def split: option.splits dest: map_of_key)

lemma validateTrace_sound:
  assumes "validateTrace limits files d used = Inr used'" "used_ok files used"
  shows "used_ok files used' \<and> set used' = set used \<union> set (listed d) \<and> trace_ok files d"
proof -
  let ?name = "d_Path d @ ''/descriptor.json''"
  have name: "?name \<notin> set used" "?name \<in> set (map fst files)"
    and src: "validate_sources limits files (d_Path d) (d_Files d) (?name # used) = Inr used'"
    and d: "d_RevisionDigest d = RevisionDigest (d_Files d)" "d_Files d \<noteq> []" "d_Harness d \<noteq> []"
      "d_NativeTraceID d \<noteq> []"
    using assms(1) readMetadata_key
    by (auto simp: validateTrace_def Let_def bind_result_Inr_iff split: if_splits)
  have "used_ok files (?name # used)" using assms(2) name by (simp add: used_ok_def)
  from validate_sources_sound [OF src this] d show ?thesis
    by (auto simp: trace_ok_def listed_def source_name_def)
qed

lemma validate_traces_sound:
  "validate_traces limits files ds used ids = Inr used' \<Longrightarrow> used_ok files used \<Longrightarrow>
     used_ok files used' \<and> set used' = set used \<union> (\<Union>d \<in> set ds. set (listed d))
     \<and> list_all (trace_ok files) ds
     \<and> distinct (map identity ds) \<and> set (map identity ds) \<inter> set ids = {}"
proof (induction ds arbitrary: used ids)
  case (Cons d ds)
  then obtain u where u: "validateTrace limits files d used = Inr u" "identity d \<notin> set ids"
      "validate_traces limits files ds u (identity d # ids) = Inr used'"
    by (auto simp: bind_result_Inr_iff split: if_splits)
  note t = validateTrace_sound [OF u(1) Cons.prems(2)]
  with Cons.IH [OF u(3)] u(2) show ?case by auto
qed simp

definition expanded_size :: "ZipEntry list \<Rightarrow> nat" where
  "expanded_size es = sum_list (map (\<lambda>e. unat (z_Size e)) es)"

lemma collect_files_sound:
  assumes "collect_files limits es expanded files = Inr files'"
    "distinct (map fst files)" "unat expanded \<le> nat (l_ExpandedBytes limits)"
    "0 < l_ExpandedBytes limits" "l_ExpandedBytes limits < 2 ^ 63"
  shows "files' = files @ map (\<lambda>e. (z_Name e, e)) es \<and> distinct (map fst files')
     \<and> list_all (\<lambda>e. safePath (z_Name e) (l_Depth limits) \<and> z_Regular e) es
     \<and> unat expanded + expanded_size es \<le> nat (l_ExpandedBytes limits)"
  using assms
proof (induction limits es expanded files rule: collect_files.induct)
  case (2 limits e es expanded files)
  have lim: "unat (of_int (l_ExpandedBytes limits) :: 64 word) = nat (l_ExpandedBytes limits)"
    using unat_of_small [of "nat (l_ExpandedBytes limits)"] 2(5,6) by (simp add: nat_less_iff)
  have e: "safePath (z_Name e) (l_Depth limits)" "z_Regular e" "z_Name e \<notin> set (map fst files)"
    "\<not> of_int (l_ExpandedBytes limits) - expanded < z_Size e"
    "\<not> of_int (l_FileBytes limits) < z_Size e"
    and rec: "collect_files limits es (expanded + z_Size e) (files @ [(z_Name e, e)]) = Inr files'"
    using 2(2) by (auto split: if_splits)
  have "unat (z_Size e) \<le> nat (l_ExpandedBytes limits) - unat expanded"
    using e(4) lim 2(4) by (simp add: word_less_nat_alt unat_sub_if')
  then have sum: "unat (expanded + z_Size e) = unat expanded + unat (z_Size e)"
      "unat expanded + unat (z_Size e) \<le> nat (l_ExpandedBytes limits)"
    using 2(4-6) by (auto simp: unat_word_ariths(1) nat_less_iff)
  have "distinct (map fst (files @ [(z_Name e, e)]))" using e(3) 2(3) by simp
  then have ih: "files' = (files @ [(z_Name e, e)]) @ map (\<lambda>e. (z_Name e, e)) es \<and> distinct (map fst files')
    \<and> list_all (\<lambda>e. safePath (z_Name e) (l_Depth limits) \<and> z_Regular e) es
    \<and> unat (expanded + z_Size e) + expanded_size es \<le> nat (l_ExpandedBytes limits)"
    using e sum 2(5,6) by (intro 2(1) [OF _ _ _ rec]) simp_all
  from ih have "distinct (map fst files')" by blast
  with ih e sum(1) show ?case by (simp add: expanded_size_def)
qed (simp add: expanded_size_def)

text \<open>C6. An archive that passes \<open>Validate\<close> is what its manifest says, and nothing more: entry names are
  distinct, regular and safe, and expand to at most \<open>ExpandedBytes\<close>; the entries are exactly the
  manifest, the descriptors and the source files the descriptors list; every source file read from
  the archive has the listed size and SHA-256; every revision digest is the digest of its files;
  and no two traces share a harness and native ID.\<close>

theorem Validate_sound:
  assumes "Validate unzip bytes fsize limits = Inr v" "l_ExpandedBytes limits < 2 ^ 63"
  shows "let es = v_ZIP v; ds = mf_Traces (v_Manifest v); files = map (\<lambda>e. (z_Name e, e)) es in
      distinct (map z_Name es) \<and> int (length es) \<le> l_Files limits
      \<and> (\<forall>e \<in> set es. safePath (z_Name e) (l_Depth limits) \<and> z_Regular e)
      \<and> int (expanded_size es) \<le> l_ExpandedBytes limits
      \<and> set (map z_Name es) = insert ''manifest.json'' (\<Union>d \<in> set ds. set (listed d))
      \<and> ds \<noteq> [] \<and> (\<forall>d \<in> set ds. trace_ok files d)
      \<and> distinct (map (\<lambda>d. (d_Harness d, d_NativeTraceID d)) ds)"
proof -
  obtain zipped files manifest used where
    pos: "limits_positive limits" and len: "int (length zipped) \<le> l_Files limits"
    and c: "collect_files limits zipped 0 [] = Inr files"
    and m: "readMetadata (map_of files ''manifest.json'') (l_MetadataBytes limits) decode_manifest = Inr manifest"
    and ds: "mf_Traces manifest \<noteq> []"
    and t: "validate_traces limits files (mf_Traces manifest) [''manifest.json''] [] = Inr used"
    and used: "length used = length files" and v: "v = \<lparr>v_Manifest = manifest, v_ZIP = zipped\<rparr>"
    using assms(1) by (auto simp: Validate_def bind_result_Inr_iff)
  have ex: "0 < l_ExpandedBytes limits" using pos by (simp add: limits_positive_def)
  have f: "files = [] @ map (\<lambda>e. (z_Name e, e)) zipped \<and> distinct (map fst files)
      \<and> list_all (\<lambda>e. safePath (z_Name e) (l_Depth limits) \<and> z_Regular e) zipped
      \<and> unat (0 :: 64 word) + expanded_size zipped \<le> nat (l_ExpandedBytes limits)"
    by (rule collect_files_sound [OF c _ _ ex assms(2)]) simp_all
  then have "files = map (\<lambda>e. (z_Name e, e)) zipped" and dist: "distinct (map fst files)" by auto
  then have names: "map fst files = map z_Name zipped" "distinct (map fst files)"
    by (simp_all add: comp_def)
  have "used_ok files [''manifest.json'']" using readMetadata_key [OF m] by (simp add: used_ok_def)
  note ts = validate_traces_sound [OF t this]
  then have "used_ok files used" by blast
  then have "set used = set (map fst files)"
    using used names(2) distinct_card [of used] distinct_card [of "map fst files"]
    by (intro card_subset_eq) (simp_all add: used_ok_def)
  moreover have "distinct (map (\<lambda>d. (d_Harness d, d_NativeTraceID d)) (mf_Traces manifest))"
    using ts by (auto simp: distinct_map inj_on_def identity_def)
  moreover have "distinct (map z_Name zipped)" using dist names(1) by metis
  moreover have "int (expanded_size zipped) \<le> l_ExpandedBytes limits"
    using f [THEN conjunct2, THEN conjunct2, THEN conjunct2] ex by simp
  ultimately show ?thesis
    using ts names f len ds v by (simp add: Let_def list_all_iff)
qed

end
