(* ===== verification/JsonRoundtrip.thy ===== *)
theory JsonRoundtrip
  imports GoJson
begin

text \<open>
  What \<open>encoding/json\<close> writes it reads back: for valid UTF-8 strings and integers of at most 21 digits
  (everything the program stores or exchanges itself), decoding an encoded value gives the value
  with its objects in key order, and the bound on nested calls in the decoder is enough.
\<close>

subsection \<open>Strings\<close>

lemma unit_len_take: "unit_len s = n \<Longrightarrow> 0 < n \<Longrightarrow> unit_len (take n s @ t) = n"
  by (cases s; cases "tl s"; cases "tl (tl s)"; cases "tl (tl (tl s))")
    (auto simp: unit_len_def Let_def split: if_splits)

lemma unit_shape:
  assumes "unit_len s = n" "0 < n"
  obtains (one) a where "take n s = [a]" "byte a < (0x80 :: nat)"
  | (two) a b where "take n s = [a, b]" "(0xC2 :: nat) \<le> byte a" "byte a \<le> (0xDF :: nat)" "cont b"
  | (three) a b c where "take n s = [a, b, c]" "(0xE0 :: nat) \<le> byte a" "byte a \<le> (0xEF :: nat)"
      "second_ok (byte a) (byte b)" "cont b" "cont c"
  | (four) a b c d where "take n s = [a, b, c, d]" "(0xF0 :: nat) \<le> byte a" "byte a \<le> (0xF4 :: nat)"
      "second_ok (byte a) (byte b)" "cont b" "cont c" "cont d"
  using assms
  by (cases s; cases "tl s"; cases "tl (tl s)"; cases "tl (tl (tl s))")
    (auto simp: unit_len_def Let_def split: if_splits)

lemma cont_range: "cont c \<longleftrightarrow> (0x80 :: nat) \<le> byte c \<and> byte c < (0xC0 :: nat)"
  by (auto simp: RuneStart_def)

lemma rune_of_ascii: "rune_of [a] = byte a"
  by simp

text \<open>Only a single byte has a rune below 0x80, and only one encoding gives a line separator.\<close>

lemma unit_rune_small:
  assumes "unit_len s = n" "0 < n" "rune_of (take n s) < 0x80"
  obtains a where "take n s = [a]" "byte a < (0x80 :: nat)"
  using assms
  by (cases rule: unit_shape) (auto simp: second_ok_def cont_range split: if_splits)

lemma unit_rune_separator:
  assumes "unit_len s = n" "0 < n" "rune_of (take n s) = 0x2028 + k" "k < 2"
  shows "encode_rune (0x2028 + k) = take n s"
  using assms
proof (cases rule: unit_shape)
  case (three a b c)
  define x y z where "x = (byte a :: nat)" "y = (byte b :: nat)" "z = (byte c :: nat)"
  have r: "0xE0 \<le> x" "x \<le> 0xEF" "0x80 \<le> y" "y < 0xC0" "0x80 \<le> z" "z < 0xC0"
    using three by (auto simp: x_y_z_def cont_range)
  have e: "(x - 0xE0) * 4096 + (y - 0x80) * 64 + (z - 0x80) = 0x2028 + k"
    using three assms(3) by (simp add: x_y_z_def)
  have "x - 0xE0 = 2" using e r assms(4) by (cases "x - 0xE0 \<le> 1"; cases "3 \<le> x - 0xE0") auto
  with e r assms(4) have "y - 0x80 = 0" by (cases "y - 0x80") auto
  with e r \<open>x - 0xE0 = 2\<close> have "x = 0xE2" "y = 0x80" "z = 0xA8 + k" by auto
  then have "a = char_of (0xE2 :: nat)" "b = char_of (0x80 :: nat)" "c = char_of (0xA8 + k)"
    unfolding x_y_z_def by (metis char_of_char)+
  with three(1) assms(4) show ?thesis
    by (cases k; cases "k - 1") (auto simp: encode_rune_def Let_def)
qed (use assms(4) in \<open>auto simp: second_ok_def cont_range split: if_splits\<close>)

lemma hex_value_digit: "n < 16 \<Longrightarrow> hex_value (hex_digit n) = Some n"
proof -
  assume "n < 16"
  then have "n \<in> set [0..<16]" by simp
  then show ?thesis
    by (auto simp: upt_conv_Cons hex_value_def hex_digit_def is_digit_def digit_value_def less_eq_char_def)
qed

lemma hex8: "hex_digit 8 = CHR ''8''" "hex_digit 9 = CHR ''9''" "hex_digit (Suc 8) = CHR ''9''"
  by code_simp+

lemma short_escapes:
  "char_of (8 :: nat) = CHR 0x08" "char_of (12 :: nat) = CHR 0x0C" "char_of (10 :: nat) = CHR 0x0A"
  "char_of (13 :: nat) = CHR 0x0D" "char_of (9 :: nat) = CHR 0x09"
  by code_simp+

lemma escape_short:
  "(r, e) \<in> {(8, CHR ''b''), (12, CHR ''f''), (10, CHR ''n''), (13, CHR ''r''), (9, CHR ''t'')} \<Longrightarrow>
   w \<noteq> [CHR 0x22] \<Longrightarrow> w \<noteq> [CHR 0x5C] \<Longrightarrow> escape_rune html (r, w) = [CHR 0x5C, e]"
  by (elim insertE emptyE) (simp_all add: escape_rune_def)

lemma unescape_short:
  "(r, e) \<in> {(8, CHR ''b''), (12, CHR ''f''), (10, CHR ''n''), (13, CHR ''r''), (9, CHR ''t'')} \<Longrightarrow>
   unescape_char e = Some (char_of (r :: nat)) \<and> e \<noteq> CHR ''u''"
  by (elim insertE emptyE) (simp_all add: unescape_char_def short_escapes)

lemma parse_string_escape:
  "d \<noteq> CHR ''u'' \<Longrightarrow> unescape_char d = Some e \<Longrightarrow>
   parse_string (CHR 0x5C # d # t) = map_option (\<lambda>(b, r). (e # b, r)) (parse_string t)"
  by (simp add: parse_string.simps(2) [of "CHR 0x5C"])

lemma parse_string_u:
  "hex4 h = Some (u, t) \<Longrightarrow> length t \<le> length h \<Longrightarrow> \<not> (0xD800 \<le> u \<and> u < 0xDC00) \<Longrightarrow>
   parse_string (CHR 0x5C # CHR ''u'' # h) = map_option (\<lambda>(b, r). (encode_rune u @ b, r)) (parse_string t)"
  by (subst parse_string.simps(2)) auto

lemma parse_string_plain:
  assumes "unit_len s = n" "0 < n" "hd s \<noteq> CHR 0x22" "hd s \<noteq> CHR 0x5C" "(0x20 :: nat) \<le> byte (hd s)"
  shows "parse_string (take n s @ t) = map_option (\<lambda>(b, r). (take n s @ b, r)) (parse_string t)"
proof -
  obtain c r where s: "s = c # r" using assms(1,2) by (cases s) auto
  obtain m where n: "n = Suc m" using assms(2) by (cases n) auto
  let ?w = "take n s"
  have u: "unit_len (?w @ t) = n" using unit_len_take [OF assms(1,2)] .
  have len: "length ?w = n" using unit_len_le [of s] assms(1) by simp
  have w: "?w @ t = c # (take m r @ t)" using s n by simp
  have d: "take n (?w @ t) = ?w" "drop n (?w @ t) = t" using len by auto
  show ?thesis
    using assms(2-5) u d unfolding w by (subst parse_string.simps(2)) (simp add: s)
qed

lemma encode_rune_ascii: "n < 0x80 \<Longrightarrow> encode_rune n = [char_of n]"
  by (simp add: encode_rune_def Let_def)

lemma parse_escape_rune:
  assumes "unit_len s = n" "0 < n"
  shows "parse_string (escape_rune html (rune_of (take n s), take n s) @ t)
       = map_option (\<lambda>(b, r). (take n s @ b, r)) (parse_string t)"
proof -
  let ?w = "take n s" let ?r = "rune_of ?w"
  have hd: "hd s = hd ?w" using assms unit_len_start [of s] by (cases s; cases n) auto
  have single: "?w = [char_of ?r]" if "?r < 0x80"
    using unit_rune_small [OF assms that] by (metis char_of_char rune_of_ascii of_char_def)
  have one: "?r \<noteq> 65533" if "min (length s) n = Suc 0"
  proof (cases rule: unit_shape [OF assms])
    case 1
    then show ?thesis by simp
  qed (use that in \<open>auto dest!: arg_cong [where f = length]\<close>)
  consider (quote) "?w = [CHR 0x22]" | (bslash) "?w = [CHR 0x5C]"
    | (short) e where "(?r, e) \<in> {(8, CHR ''b''), (12, CHR ''f''), (10, CHR ''n''), (13, CHR ''r''), (9, CHR ''t'')}"
        "?w \<noteq> [CHR 0x22]" "?w \<noteq> [CHR 0x5C]"
    | (hex) "?r < 0x20 \<or> (html \<and> (?w = ''<'' \<or> ?w = ''>'' \<or> ?w = ''&''))" "?r \<notin> {8, 12, 10, 13, 9}"
    | (sep) k where "?r = 0x2028 + k" "k < 2"
    | (plain) "?w \<noteq> [CHR 0x22]" "?w \<noteq> [CHR 0x5C]" "0x20 \<le> ?r"
        "\<not> (html \<and> (?w = ''<'' \<or> ?w = ''>'' \<or> ?w = ''&''))" "?r \<noteq> 0x2028" "?r \<noteq> 0x2029"
  proof -
    have "(?r = 0x2028 \<or> ?r = 0x2029) \<or> (?r \<noteq> 0x2028 \<and> ?r \<noteq> 0x2029)" by blast
    then show thesis
      using that(1,2,4,6) that(3) [of "CHR ''b''"] that(3) [of "CHR ''f''"] that(3) [of "CHR ''n''"]
        that(3) [of "CHR ''r''"] that(3) [of "CHR ''t''"] that(5) [of 0] that(5) [of 1]
      by auto linarith
  qed
  then show ?thesis
  proof cases
    case plain
    have e: "escape_rune html (?r, ?w) = ?w"
      using plain one by (auto simp: escape_rune_def RuneError_def)
    have first: "?w = [hd s]" if "byte (hd s) < (0x80 :: nat)"
      using assms that by (cases s) (auto simp: unit_len_def)
    have "hd s \<noteq> CHR 0x22" "hd s \<noteq> CHR 0x5C" using first plain(1,2) by auto
    moreover have "(0x20 :: nat) \<le> byte (hd s)"
    proof (rule ccontr)
      assume "\<not> (0x20 :: nat) \<le> byte (hd s)"
      with first have "?r = byte (hd s)" by simp
      with \<open>\<not> (0x20 :: nat) \<le> byte (hd s)\<close> plain(3) show False by simp
    qed
    ultimately show ?thesis unfolding e by (rule parse_string_plain [OF assms])
  next
    case hex
    then have r: "?r < 0x80" by auto
    have e: "escape_rune html (?r, ?w)
        = [CHR 0x5C, CHR ''u'', CHR ''0'', CHR ''0'', hex_digit (?r div 16), hex_digit (?r mod 16)]"
      using hex by (auto simp: escape_rune_def)
    have "hex_value (CHR ''0'') = Some 0" by (simp add: hex_value_def is_digit_def digit_value_def)
    then have "hex4 (CHR ''0'' # CHR ''0'' # hex_digit (?r div 16) # hex_digit (?r mod 16) # t) = Some (?r, t)"
      using hex_value_digit [of "?r div 16"] hex_value_digit [of "?r mod 16"] r by simp
    from parse_string_u [OF this] show ?thesis
      using r single encode_rune_ascii [of ?r] unfolding e by simp
  next
    case sep
    have e: "escape_rune html (?r, ?w)
        = [CHR 0x5C, CHR ''u'', CHR ''2'', CHR ''0'', CHR ''2'', hex_digit (8 + k)]"
      using sep by (cases k; cases "k - 1") (auto simp: escape_rune_def RuneError_def hex8)
    have d: "hex_value (CHR ''0'') = Some 0" "hex_value (CHR ''2'') = Some 2"
      by (simp_all add: hex_value_def is_digit_def digit_value_def)
    have "hex4 (CHR ''2'' # CHR ''0'' # CHR ''2'' # hex_digit (8 + k) # t) = Some (?r, t)"
      using hex_value_digit [of "8 + k"] sep d by simp
    from parse_string_u [OF this] show ?thesis
      using sep unit_rune_separator [OF assms sep] unfolding e by simp
  next
    case (short e)
    then have r: "?r < 0x80" and w: "?w \<noteq> [CHR 0x22]" "?w \<noteq> [CHR 0x5C]" by auto
    have "escape_rune html (?r, ?w) = [CHR 0x5C, e]"
      using short by (rule escape_short)
    moreover have "parse_string (CHR 0x5C # e # t) = map_option (\<lambda>(b, y). (char_of ?r # b, y)) (parse_string t)"
      using parse_string_escape [of e "char_of ?r" t] unescape_short [OF short(1)] by blast
    moreover have "(\<lambda>(b, y). (?w @ b, y)) = (\<lambda>(b, y :: string). (char_of ?r # b, y))"
      using single [OF r] by (metis append_Cons append_Nil)
    ultimately show ?thesis by (simp only: append_Cons append_Nil)
  qed (simp_all add: escape_rune_def unescape_char_def parse_string_escape)
qed

lemma parse_quoted: "ValidString s \<Longrightarrow>
  parse_string (concat (map (escape_rune html) (runes s)) @ CHR 0x22 # t) = Some (s, t)"
proof (induction s rule: ValidString.induct)
  case (1 s)
  show ?case
  proof (cases "s = []")
    case True
    then show ?thesis by (simp add: parse_string.simps)
  next
    case False
    let ?n = "unit_len s"
    have n: "0 < ?n" and v: "ValidString (drop ?n s)"
      using "1.prems" False ValidString_start ValidString_drop_unit by blast+
    then have r: "runes s = (rune_of (take ?n s), take ?n s) # runes (drop ?n s)"
      using False by (simp add: runes.simps [of s] Let_def)
    show ?thesis
      using parse_escape_rune [OF refl n, of html] "1.IH" [OF False _ v] n
      by (simp add: r append_take_drop_id)
  qed
qed

subsection \<open>Numbers\<close>

definition plain_number :: "int \<Rightarrow> int \<Rightarrow> bool" where
  "plain_number m e \<longleftrightarrow> strip_zeros m e = (m, e) \<and> 0 \<le> e \<and> int (length (num_digits m)) + e \<le> 21"

definition stops :: "string \<Rightarrow> bool" where
  "stops t \<longleftrightarrow> (case t of [] \<Rightarrow> True | c # _ \<Rightarrow> c \<in> {CHR '','', CHR '']'', CHR ''}'', CHR 0x0A})"

lemma digits_value_zeros: "digits_value (s @ replicate k (CHR ''0'')) = digits_value s * 10 ^ k"
proof (induction k)
  case (Suc k)
  have "digits_value (s @ replicate (Suc k) (CHR ''0'')) = digits_value ((s @ replicate k (CHR ''0'')) @ [CHR ''0''])"
    by (simp flip: replicate_append_same)
  also have "\<dots> = 10 * (digits_value s * 10 ^ k)"
    by (simp only: digits_value_snoc Suc.IH) (simp add: digit_value_def)
  finally show ?case by simp
qed simp

lemma strip_zeros_mult: "strip_zeros (m * 10 ^ k) e = strip_zeros m (e + int k)"
proof (induction k arbitrary: e)
  case (Suc k)
  show ?case
  proof (cases "m = 0")
    case False
    have "strip_zeros (m * 10 ^ Suc k) e = strip_zeros (m * 10 ^ k) (e + 1)"
      using False by (subst strip_zeros.simps) simp
    with Suc show ?thesis by (simp add: algebra_simps)
  qed (simp add: strip_zeros.simps)
qed simp

lemma nat_digits_no_leading_zero: "n \<noteq> 0 \<Longrightarrow> hd (nat_digits n) \<noteq> CHR ''0''"
proof (induction n rule: nat_digits.induct)
  case (1 n)
  show ?case
  proof (cases "n < 10")
    case True
    have "(of_char (char_of (48 + n) :: char) :: nat) \<noteq> of_char (CHR ''0'')" using True 1(2) by simp
    then have "(char_of (48 + n) :: char) \<noteq> CHR ''0''" by metis
    with True show ?thesis by (subst nat_digits.simps) simp
  next
    case False
    then show ?thesis using 1 nat_digits_digits [of "n div 10"]
      by (subst nat_digits.simps) (simp add: hd_append)
  qed
qed

lemma parse_number_digits:
  assumes ds: "list_all is_digit ds" "ds \<noteq> []" "\<not> prefix ''0'' ds \<or> ds = ''0''" and t: "stops t"
  shows "parse_number ((if neg then ''-'' else []) @ ds @ t)
       = Some (number (if neg then - int (digits_value ds) else int (digits_value ds)) 0, t)"
proof -
  have stop: "takeWhile is_digit (ds @ t) = ds"
    by (rule takeWhile_stop [OF ds(1)])
      (use t in \<open>auto simp: stops_def is_digit_def less_eq_char_def split: list.splits\<close>)
  have int: "scan_int (ds @ t) = Some (ds, t)"
    using ds(2,3) by (auto simp: scan_int_def stop)
  have rest: "scan_fraction t = Some ([], t)" "scan_exponent t = Some (0, t)"
    using t by (auto simp: stops_def scan_fraction_def scan_exponent_def split: list.splits)
  have nodash: "prefix ''-'' (ds @ t) = False"
    using ds(1,2) by (cases ds) (auto simp: is_digit_def less_eq_char_def)
  show ?thesis by (cases neg) (simp_all add: parse_number_def int rest nodash)
qed

lemma parse_plain_number:
  assumes "plain_number m e" "stops t"
  shows "parse_number (format_json_number m e @ t) = Some (JNum m e, t)"
proof -
  define ds where "ds = num_digits m @ replicate (nat e) (CHR ''0'')"
  have f: "format_json_number m e = (if m < 0 then ''-'' else []) @ ds"
    using assms(1) by (auto simp: format_json_number_def format_plain_def plain_number_def ds_def sign_of_def)
  have digits: "list_all is_digit ds" "ds \<noteq> []"
    using nat_digits_digits [of "nat \<bar>m\<bar>"] by (auto simp: ds_def num_digits_def list_all_iff)
  have zero: "\<not> prefix ''0'' ds \<or> ds = ''0''"
  proof (cases "m = 0")
    case True
    with assms(1) have "e = 0" by (simp add: plain_number_def strip_zeros.simps)
    with True show ?thesis by (simp add: ds_def num_digits_def nat_digits.simps)
  next
    case False
    then show ?thesis
      using nat_digits_no_leading_zero [of "nat \<bar>m\<bar>"] nat_digits_digits [of "nat \<bar>m\<bar>"]
      by (cases "nat_digits (nat \<bar>m\<bar>)") (auto simp: ds_def num_digits_def)
  qed
  have "int (digits_value ds) = \<bar>m\<bar> * 10 ^ nat e"
    by (simp add: digits_value_zeros num_digits_def ds_def)
  then have v: "(if m < 0 then - int (digits_value ds) else int (digits_value ds)) = m * 10 ^ nat e" by simp
  have n: "number (m * 10 ^ nat e) 0 = JNum m e"
    using assms(1) by (simp add: number_def strip_zeros_mult plain_number_def)
  show ?thesis
    using parse_number_digits [OF digits zero assms(2), of "m < 0"] unfolding f v n by simp
qed

subsection \<open>Values\<close>

text \<open>The value an object decodes to: its keys in order, the last of equal ones.\<close>

fun canon :: "json \<Rightarrow> json" where
  "canon (JArr vs) = JArr (map canon vs)"
| "canon (JObj m) = mk_obj (map (\<lambda>kv. (fst kv, canon (snd kv))) m)"
| "canon v = v"

fun wf_json :: "json \<Rightarrow> bool" where
  "wf_json (JNum m e) = plain_number m e"
| "wf_json (JStr s) = ValidString s"
| "wf_json (JArr vs) = list_all wf_json vs"
| "wf_json (JObj m) = list_all (\<lambda>kv. ValidString (fst kv) \<and> wf_json (snd kv)) m"
| "wf_json _ = True"

fun depth :: "json \<Rightarrow> nat" and depth_list :: "json list \<Rightarrow> nat" where
  "depth (JArr vs) = Suc (depth_list vs)"
| "depth (JObj m) = Suc (depth_list (map snd m))"
| "depth v = 0"
| "depth_list [] = 0"
| "depth_list (v # vs) = max (depth v) (depth_list vs)"

lemma skip_space_hd: "s = [] \<or> \<not> json_space (hd s) \<Longrightarrow> skip_space s = s"
  by (cases s) auto

lemma digit_no_space: "is_digit c \<Longrightarrow> \<not> json_space c"
  by (auto simp: is_digit_def json_space_def less_eq_char_def)

lemma quote_hd: "quote html s = CHR 0x22 # concat (map (escape_rune html) (runes s)) @ [CHR 0x22]"
  by (simp add: quote_def)

lemma number_hd:
  assumes "plain_number m e"
  shows "\<exists>c r. format_json_number m e = c # r \<and> (c = CHR ''-'' \<or> is_digit c)"
proof -
  have f: "format_json_number m e = sign_of m @ num_digits m @ replicate (nat e) (CHR ''0'')"
    using assms by (auto simp: format_json_number_def format_plain_def plain_number_def)
  obtain d ds where "num_digits m = d # ds" "is_digit d"
    using nat_digits_hd_digit [of "nat \<bar>m\<bar>"] nat_digits_digits [of "nat \<bar>m\<bar>"]
    by (cases "num_digits m") (auto simp: num_digits_def)
  then show ?thesis by (auto simp: f sign_of_def)
qed

lemma encode_hd:
  "wf_json v \<Longrightarrow> \<exists>c r. encode html v = c # r \<and> \<not> json_space c \<and> c \<noteq> CHR '']'' \<and> c \<noteq> CHR ''}''"
proof (cases v)
  case (JNum m e)
  assume "wf_json v"
  with JNum obtain c r where "format_json_number m e = c # r" "c = CHR ''-'' \<or> is_digit c"
    using number_hd [of m e] by auto
  then show ?thesis using JNum digit_no_space [of c]
    by (auto simp: json_space_def is_digit_def less_eq_char_def)
qed (auto simp: quote_hd json_space_def)

lemma length_format_pos: "0 < length (format_json_number m e)"
proof -
  obtain d ds where "num_digits m = d # ds"
    using nat_digits_digits [of "nat \<bar>m\<bar>"] by (cases "num_digits m") (auto simp: num_digits_def)
  then show ?thesis by (auto simp: format_json_number_def format_plain_def format_exp_def Let_def)
qed

lemma length_encode_pos: "0 < length (encode html v)"
  by (cases v) (use length_format_pos in \<open>auto simp: quote_hd\<close>)

lemma length_Join: "ws \<noteq> [] \<Longrightarrow> length (Join ws [c]) + 1 = sum_list (map (\<lambda>w. length w + 1) ws)"
  by (induction ws "[c]" rule: Join.induct) auto

text \<open>How many nested calls decoding an encoded value takes.\<close>

fun need :: "json \<Rightarrow> nat" and need_list :: "json list \<Rightarrow> nat" where
  "need (JArr vs) = Suc (need_list vs)"
| "need (JObj m) = Suc (need_list (map snd m))"
| "need v = 1"
| "need_list [] = 0"
| "need_list (v # vs) = Suc (max (need v) (need_list vs))"

abbreviation member :: "bool \<Rightarrow> string \<times> json \<Rightarrow> string" where
  "member html kv \<equiv> quote html (fst kv) @ CHR '':'' # encode html (snd kv)"

lemma Join_Cons: "Join (w # ws) [c] = w @ (if ws = [] then [] else c # Join ws [c])"
  by (cases ws) auto

lemma skip_encode: "wf_json v \<Longrightarrow> skip_space (encode html v @ t) = encode html v @ t"
  using encode_hd [of v html] by auto

lemma parse_number_value:
  assumes "plain_number m e" "stops t"
  shows "parse_value (Suc n) d (format_json_number m e @ t) = Some (JNum m e, t)"
proof -
  obtain c r where c: "format_json_number m e = c # r" "c = CHR ''-'' \<or> is_digit c"
    using number_hd [OF assms(1)] by blast
  have ne: "\<not> json_space c \<and> c \<noteq> CHR 0x22 \<and> c \<noteq> CHR ''['' \<and> c \<noteq> CHR ''{''"
    using c(2) by (auto simp: json_space_def is_digit_def less_eq_char_def)
  with parse_plain_number [OF assms] c show ?thesis by simp
qed

lemma parse_string_value:
  "ValidString s \<Longrightarrow> parse_value (Suc n) d (quote html s @ t) = Some (JStr s, t)"
  by (simp add: quote_hd parse_quoted json_space_def)

lemma stops_comma [simp]: "stops (CHR '','' # t)" "stops (CHR '']'' # t)" "stops (CHR ''}'' # t)"
  by (simp_all add: stops_def)

lemma skip_stop [simp]:
  "skip_space (CHR '','' # t) = CHR '','' # t" "skip_space (CHR '']'' # t) = CHR '']'' # t"
  "skip_space (CHR ''}'' # t) = CHR ''}'' # t" "skip_space (CHR '':'' # t) = CHR '':'' # t"
  "skip_space (CHR 0x22 # t) = CHR 0x22 # t"
  by (simp_all add: json_space_def)

lemma parse_encode_all:
  "(\<forall>v d t. need v \<le> n \<longrightarrow> depth v \<le> d \<longrightarrow> wf_json v \<longrightarrow> stops t \<longrightarrow>
      parse_value n d (encode html v @ t) = Some (canon v, t)) \<and>
   (\<forall>vs d t. vs \<noteq> [] \<longrightarrow> need_list vs \<le> n \<longrightarrow> depth_list vs \<le> d \<longrightarrow> list_all wf_json vs \<longrightarrow>
      parse_elems n d (Join (map (encode html) vs) '','' @ CHR '']'' # t) = Some (map canon vs, t)) \<and>
   (\<forall>m d t. m \<noteq> [] \<longrightarrow> need_list (map snd m) \<le> n \<longrightarrow> depth_list (map snd m) \<le> d \<longrightarrow>
      list_all (\<lambda>kv. ValidString (fst kv) \<and> wf_json (snd kv)) m \<longrightarrow>
      parse_members n d (Join (map (member html) m) '','' @ CHR ''}'' # t)
        = Some (map (\<lambda>kv. (fst kv, canon (snd kv))) m, t))"
  (is "?V n \<and> ?E n \<and> ?M n")
proof (induction n)
  case 0
  have "need_list vs = 0 \<longleftrightarrow> vs = []" for vs by (cases vs) auto
  moreover have "need v = 0 \<longleftrightarrow> False" for v by (cases v) auto
  ultimately show ?case by (simp del: neq0_conv)
next
  case (Suc n)
  then have V: "?V n" and E: "?E n" and M: "?M n" by blast+
  have "?V (Suc n)"
  proof (intro allI impI)
    fix v d t
    assume a: "need v \<le> Suc n" "depth v \<le> d" "wf_json v" "stops t"
    show "parse_value (Suc n) d (encode html v @ t) = Some (canon v, t)"
    proof (cases v)
      case (JArr vs)
      show ?thesis
      proof (cases "vs = []")
        case False
        then obtain w ws where vs: "vs = w # ws" by (cases vs) auto
        then have sk: "skip_space (Join (map (encode html) vs) '','' @ CHR '']'' # t) = Join (map (encode html) vs) '','' @ CHR '']'' # t"
          and np: "\<not> prefix '']'' (Join (map (encode html) vs) '','' @ CHR '']'' # t)"
          using encode_hd [of w html] a(3) JArr by (auto simp: Join_Cons)
        have "parse_elems n (d - 1) (Join (map (encode html) vs) '','' @ CHR '']'' # t) = Some (map canon vs, t)"
          using E False a JArr by simp
        with sk np a(2) JArr show ?thesis by (auto simp: json_space_def)
      qed (use JArr a in \<open>auto simp: json_space_def\<close>)
    next
      case (JObj m)
      show ?thesis
      proof (cases "m = []")
        case False
        then obtain w ws where m: "m = w # ws" by (cases m) auto
        then have sk: "skip_space (Join (map (member html) m) '','' @ CHR ''}'' # t) = Join (map (member html) m) '','' @ CHR ''}'' # t"
          and np: "\<not> prefix ''}'' (Join (map (member html) m) '','' @ CHR ''}'' # t)"
          by (auto simp: Join_Cons quote_hd json_space_def)
        have "parse_members n (d - 1) (Join (map (member html) m) '','' @ CHR ''}'' # t)
            = Some (map (\<lambda>kv. (fst kv, canon (snd kv))) m, t)"
          using M False a JObj by simp
        with sk np a(2) JObj show ?thesis by (auto simp: json_space_def)
      qed (use JObj a in \<open>auto simp: json_space_def mk_obj_def\<close>)
    next
      case (JNum m e)
      with a parse_number_value [of m e t n d] show ?thesis by (simp del: parse_value.simps)
    next
      case (JStr s)
      with a parse_string_value [of s n d html t] show ?thesis by (simp del: parse_value.simps)
    qed (auto simp: json_space_def keyword_def is_digit_def less_eq_char_def)
  qed
  moreover have "?E (Suc n)"
  proof (intro allI impI)
    fix vs d t
    assume a: "vs \<noteq> []" "need_list vs \<le> Suc n" "depth_list vs \<le> d" "list_all wf_json vs"
    then obtain w ws where vs: "vs = w # ws" by (cases vs) auto
    show "parse_elems (Suc n) d (Join (map (encode html) vs) '','' @ CHR '']'' # t) = Some (map canon vs, t)"
      using a V E unfolding vs by (cases "ws = []") (auto simp: Join_Cons json_space_def)
  qed
  moreover have "?M (Suc n)"
  proof (intro allI impI)
    fix m d t
    assume a: "m \<noteq> []" "need_list (map snd m) \<le> Suc n" "depth_list (map snd m) \<le> d"
      "list_all (\<lambda>kv. ValidString (fst kv) \<and> wf_json (snd kv)) m"
    then obtain k v ws where m: "m = (k, v) # ws" by (cases m) auto
    show "parse_members (Suc n) d (Join (map (member html) m) '','' @ CHR ''}'' # t)
        = Some (map (\<lambda>kv. (fst kv, canon (snd kv))) m, t)"
      using a V M unfolding m by (cases "ws = []") (auto simp: Join_Cons quote_hd parse_quoted json_space_def)
  qed
  ultimately show ?case by blast
qed

subsection \<open>The bounds are enough\<close>

lemma need_le_length: "need v \<le> length (encode html v)"
  and "need_list vs \<le> sum_list (map (\<lambda>v. length (encode html v) + 1) vs)"
proof (induction v and vs rule: need_need_list.induct)
  case (1 vs)
  then show ?case using length_Join [of "map (encode html) vs" "CHR '',''"] by (cases "vs = []") (auto simp: comp_def)
next
  case (2 m)
  have "sum_list (map (\<lambda>v. length (encode html v) + 1) (map snd m)) \<le> sum_list (map (\<lambda>w. length w + 1) (map (member html) m))"
    by (induction m) auto
  with 2 show ?case
    using length_Join [of "map (member html) m" "CHR '',''"] by (cases "m = []") (auto simp: comp_def)
qed (use length_format_pos in \<open>auto simp: Suc_le_eq quote_hd\<close>)

lemma parse_text_encode:
  assumes "wf_json v" "depth v \<le> max_depth"
  shows "parse_text (encode html v) = Some (canon v)" "parse_text (encode html v @ newline) = Some (canon v)"
proof -
  have n: "need v \<le> 2 * (length (encode html v) + k) + 2" for k
    using need_le_length [of v html] by simp
  have "parse_value (2 * (length (encode html v) + k) + 2) max_depth (encode html v @ t) = Some (canon v, t)"
    if "stops t" for k t
    using parse_encode_all [of "2 * (length (encode html v) + k) + 2" html] n [of k] assms that by blast
  from this [of "[]" 0] this [of newline 1]
  show "parse_text (encode html v) = Some (canon v)" "parse_text (encode html v @ newline) = Some (canon v)"
    by (simp_all add: parse_text_def stops_def newline_def json_space_def)
qed

subsection \<open>Objects\<close>

lemma obj_put_keys: "set (map fst (obj_put k v m)) = insert k (set (map fst m))"
  by (induction k v m rule: obj_put.induct) auto

lemma obj_put_sorted: "sorted_wrt (<) (map fst m) \<Longrightarrow> sorted_wrt (<) (map fst (obj_put k v m))"
proof (induction k v m rule: obj_put.induct)
  case (2 k v k' v' m)
  then show ?case
    using obj_put_keys [of k v m] by (auto dest: order.strict_trans)
qed simp

lemma map_of_obj_put: "sorted_wrt (<) (map fst m) \<Longrightarrow> map_of (obj_put k v m) = (map_of m)(k \<mapsto> v)"
proof (induction k v m rule: obj_put.induct)
  case (2 k v k' v' m)
  then show ?case by (auto simp: fun_eq_iff dest: order.strict_trans)
qed simp

lemma foldl_obj_put:
  assumes "sorted_wrt (<) (map fst m)"
  shows "sorted_wrt (<) (map fst (foldl (\<lambda>m (k, v). obj_put k v m) m kvs))
    \<and> map_of (foldl (\<lambda>m (k, v). obj_put k v m) m kvs) = map_of m ++ map_of (rev kvs)
    \<and> set (map fst (foldl (\<lambda>m (k, v). obj_put k v m) m kvs)) = set (map fst m) \<union> set (map fst kvs)"
  using assms
proof (induction kvs arbitrary: m)
  case (Cons kv kvs)
  obtain k v where kv: "kv = (k, v)" by (cases kv)
  note s = obj_put_sorted [OF Cons.prems, of k v]
  show ?case
    using Cons.IH [OF s] map_of_obj_put [OF Cons.prems, of k v] obj_put_keys [of k v m]
    by (auto simp: kv fun_upd_def map_add_def fun_eq_iff split: option.splits)
qed simp

lemma map_of_rev: "distinct (map fst xs) \<Longrightarrow> map_of (rev xs) = map_of xs"
proof (induction xs)
  case (Cons x xs)
  then have "map_of xs (fst x) = None" by (simp add: map_of_eq_None_iff)
  with Cons show ?case by (auto simp: map_add_def fun_eq_iff split: option.splits)
qed simp

lemma mk_obj_lookup:
  assumes "distinct (map fst kvs)"
  obtains m where "mk_obj kvs = JObj m" "map_of m = map_of kvs" "set (map fst m) = set (map fst kvs)"
proof -
  have "map_of (rev kvs) = map_of kvs" using assms by (rule map_of_rev)
  then show thesis using that foldl_obj_put [of "[]" kvs] by (auto simp: mk_obj_def)
qed

definition plain_key :: "string \<Rightarrow> bool" where
  "plain_key s \<longleftrightarrow> list_all (\<lambda>c. byte c < (0x80 :: nat) \<and> \<not> upper_ascii c) s"

lemma runes_ascii:
  "list_all (\<lambda>c. byte c < (0x80 :: nat)) s \<Longrightarrow> runes s = map (\<lambda>c. (byte c, [c])) s"
proof (induction s)
  case (Cons c s)
  then have "unit_len (c # s) = 1" by (simp add: unit_len_def)
  with Cons show ?case by (subst runes.simps) (simp add: Let_def)
qed simp

lemma EqualFold_plain:
  assumes "plain_key s" "plain_key t"
  shows "EqualFold s t \<longleftrightarrow> s = t"
proof -
  have low: "map lower_char u = u" if "plain_key u" for u
    using that by (induction u) (auto simp: plain_key_def lower_char_def)
  have "concat (map fold_rune (map (\<lambda>c. (byte c, [c])) u)) = map lower_char u"
    if "list_all (\<lambda>c. byte c < (0x80 :: nat)) u" for u
    using that by (induction u) (auto simp: fold_rune_def)
  moreover have "list_all (\<lambda>c. byte c < (0x80 :: nat)) s" using assms by (simp add: plain_key_def list_all_iff)
  ultimately show ?thesis using low assms by (simp add: EqualFold_def runes_ascii)
qed

lemma ToLower_plain: "plain_key s \<Longrightarrow> ToLower s = s"
proof -
  assume s: "plain_key s"
  then have ascii: "list_all (\<lambda>c. byte c < (0x80 :: nat)) s" by (simp add: plain_key_def list_all_iff)
  have "concat (map lower_rune (map (\<lambda>c. (byte c, [c])) u)) = u" if "plain_key u" for u
    using that by (induction u) (auto simp: plain_key_def lower_rune_def lower_char_def)
  with s ascii show ?thesis by (simp add: ToLower_def runes_ascii)
qed

end
