(* ===== verification/StructRoundtrip.thy ===== *)
theory StructRoundtrip
  imports Domain JsonRoundtrip
begin

text \<open>
  The structs of \<open>internal/domain\<close> survive their JSON: decoding what \<open>encoding/json\<close> wrote for a
  file, a descriptor or a manifest gives it back.  \<open>valid_*\<close> is what that needs: valid UTF-8
  strings and sizes that fit an \<open>int64\<close>.
\<close>

lemma get_field_canon:
  assumes "distinct (map fst kvs)" "\<forall>kv \<in> set kvs. plain_key (fst kv)" "plain_key k"
  shows "get_field (canon (JObj kvs)) k = (case map_of kvs k of Some v \<Rightarrow> canon v | None \<Rightarrow> JNull)"
proof -
  let ?kvs = "map (\<lambda>kv. (fst kv, canon (snd kv))) kvs"
  have "distinct (map fst ?kvs)" using assms(1) by (simp add: comp_def)
  then obtain m where m: "mk_obj ?kvs = JObj m" "map_of m = map_of ?kvs" "set (map fst m) = set (map fst ?kvs)"
    by (rule mk_obj_lookup)
  have mo: "map_of ?kvs k = map_option canon (map_of kvs k)"
    by (induction kvs) auto
  show ?thesis
  proof (cases "map_of kvs k")
    case None
    have "find (\<lambda>kv. EqualFold (fst kv) k) m = None"
    proof (rule find_None_iff [THEN iffD2], clarify)
      fix a b assume ab: "(a, b) \<in> set m" "EqualFold (fst (a, b)) k"
      then have "a \<in> set (map fst kvs)" using m(3) by force
      then have "plain_key a" using assms(2) by auto
      with ab assms(3) have "a = k" by (simp add: EqualFold_plain)
      with \<open>a \<in> set (map fst kvs)\<close> None show False by (metis map_of_eq_None_iff set_map)
    qed
    with None m mo show ?thesis by (simp add: get_field_def)
  next
    case (Some v)
    with m mo show ?thesis by (simp add: get_field_def)
  qed
qed

lemma is_struct_canon [simp]: "is_struct (canon (JObj m))"
  by (simp add: is_struct_def mk_obj_def)

lemma all_some_map: "(\<And>x. x \<in> set xs \<Longrightarrow> f (g x) = Some x) \<Longrightarrow> all_some (map f (map g xs)) = Some xs"
  by (induction xs) auto

subsection \<open>Integers\<close>

lemma strip_zeros_props:
  "strip_zeros m e = (m', e') \<Longrightarrow> m \<noteq> 0 \<Longrightarrow>
     e \<le> e' \<and> m = m' * 10 ^ nat (e' - e) \<and> strip_zeros m' e' = (m', e') \<and> m' \<noteq> 0"
proof (induction m e rule: strip_zeros.induct)
  case (1 m e)
  show ?case
  proof (cases "m mod 10 = 0")
    case True
    with 1 have "strip_zeros (m div 10) (e + 1) = (m', e')" "m div 10 \<noteq> 0"
      by (auto simp: strip_zeros.simps [of m])
    with 1 True have ih: "e + 1 \<le> e'" "m div 10 = m' * 10 ^ nat (e' - (e + 1))" "strip_zeros m' e' = (m', e')" "m' \<noteq> 0"
      by blast+
    have "nat (e' - e) = Suc (nat (e' - (e + 1)))" using ih(1) by simp
    moreover have "m = m div 10 * 10" using True by auto
    ultimately have "m = m' * 10 ^ nat (e' - e)" using ih(2) by (metis mult.assoc power_Suc2)
    with ih show ?thesis by simp
  next
    case False
    with 1 have "m' = m" "e' = e" by (auto simp: strip_zeros.simps [of m])
    with 1 show ?thesis by simp
  qed
qed

lemma length_num_digits_mult:
  "m \<noteq> 0 \<Longrightarrow> length (num_digits (m * 10 ^ k)) = length (num_digits m) + k"
proof (induction k)
  case (Suc k)
  have "nat \<bar>m * 10 ^ Suc k\<bar> = nat \<bar>m * 10 ^ k\<bar> * 10" by (simp add: abs_mult nat_mult_distrib)
  moreover have "0 < nat \<bar>m * 10 ^ k\<bar>" using Suc.prems by simp
  then have "\<not> nat \<bar>m * 10 ^ k\<bar> * 10 < 10" by linarith
  ultimately have "length (num_digits (m * 10 ^ Suc k)) = Suc (length (num_digits (m * 10 ^ k)))"
    by (simp add: num_digits_def nat_digits.simps [of "nat \<bar>m * 10 ^ k\<bar> * 10"])
  with Suc show ?case by simp
qed simp

lemma jint_number:
  assumes "- (2 ^ 63) \<le> i" "i < 2 ^ 63"
  obtains m e where "jint i = JNum m e" "plain_number m e" "trunc_number m e = i"
proof (cases "i = 0")
  case True
  then have "jint i = JNum 0 0" by (simp add: jint_def number_def strip_zeros.simps)
  moreover have "plain_number 0 0"
    by (simp add: plain_number_def strip_zeros.simps num_digits_def nat_digits.simps)
  ultimately show thesis using that [of 0 0] True by (simp add: trunc_number_def)
next
  case False
  obtain m e where me: "strip_zeros i 0 = (m, e)" by (cases "strip_zeros i 0")
  note p = strip_zeros_props [OF me False]
  have "nat \<bar>i\<bar> < 10 ^ 21" using assms by simp
  then have "length (num_digits i) \<le> 21" unfolding num_digits_def by (rule length_nat_digits_le) simp
  then have "plain_number m e"
    using p length_num_digits_mult [of m "nat e"] by (auto simp: plain_number_def)
  moreover have "jint i = JNum m e" by (simp add: jint_def number_def me)
  ultimately show thesis using that p by (simp add: trunc_number_def)
qed

definition int64 :: "int \<Rightarrow> bool" where
  "int64 i \<longleftrightarrow> - (2 ^ 63) \<le> i \<and> i < 2 ^ 63"

lemma jint_wf [simp]: "int64 i \<Longrightarrow> wf_json (jint i) \<and> depth (jint i) = 0 \<and> canon (jint i) = jint i"
  unfolding int64_def by (rule jint_number [of i]) auto

lemma dec_jint: "int64 i \<Longrightarrow> get_field j k = jint i \<Longrightarrow> dec_int j k = Some i"
  unfolding int64_def by (rule jint_number [of i]) (auto simp: dec_int_def Let_def plain_number_def)

subsection \<open>The structs\<close>

definition valid_file :: "File \<Rightarrow> bool" where
  "valid_file f \<longleftrightarrow> ValidString (f_Path f) \<and> ValidString (f_SHA256 f) \<and> int64 (f_Size f)"

definition valid_warning :: "Warning \<Rightarrow> bool" where
  "valid_warning w \<longleftrightarrow> ValidString (w_Code w) \<and> ValidString (w_Message w)"

definition valid_machine :: "Machine \<Rightarrow> bool" where
  "valid_machine m \<longleftrightarrow> ValidString (m_ID m) \<and> ValidString (m_Hostname m) \<and> ValidString (m_OS m) \<and> ValidString (m_Arch m)"

definition valid_descriptor :: "Descriptor \<Rightarrow> bool" where
  "valid_descriptor d \<longleftrightarrow> list_all ValidString [d_Path d, d_Harness d, d_Adapter d, d_NativeTraceID d,
      d_NativeUpdatedAt d, d_RevisionDigest d, d_ParentNativeTraceID d, d_Title d, d_WorkingDirectory d,
      r_Remote (d_Repository d), r_Root (d_Repository d)]
     \<and> list_all valid_file (d_Files d) \<and> list_all valid_warning (d_Warnings d)"

definition valid_manifest :: "Manifest \<Rightarrow> bool" where
  "valid_manifest m \<longleftrightarrow> int64 (mf_FormatVersion m) \<and> ValidString (mf_CollectorVersion m) \<and> ValidString (mf_CreatedAt m)
     \<and> valid_machine (mf_SourceMachine m) \<and> list_all valid_descriptor (mf_Traces m)"

lemmas field_defs = str_field_def str_omit_def int_field_def int_omit_def list_omit_def

lemma plain_key_facts [simp]:
  "plain_key ''code''" "plain_key ''message''" "plain_key ''path''" "plain_key ''size''"
  "plain_key ''sha256''" "plain_key ''id''" "plain_key ''hostname''" "plain_key ''os''"
  "plain_key ''arch''" "plain_key ''harness''" "plain_key ''adapter''"
  "plain_key ''native_trace_id''" "plain_key ''native_updated_at''" "plain_key ''revision_digest''"
  "plain_key ''parent_native_trace_id''" "plain_key ''title''" "plain_key ''working_directory''"
  "plain_key ''repository''" "plain_key ''files''" "plain_key ''warnings''" "plain_key ''remote''"
  "plain_key ''root''" "plain_key ''format_version''" "plain_key ''collector_version''"
  "plain_key ''created_at''" "plain_key ''source_machine''" "plain_key ''traces''"
  by (simp_all add: plain_key_def upper_ascii_def less_eq_char_def)

lemma warning_roundtrip: "decode_warning (canon (warning_json w)) = Some w"
  by (simp add: decode_warning_def warning_json_def field_defs get_field_canon dec_str_def
      del: canon.simps(2))

lemma file_roundtrip: "valid_file f \<Longrightarrow> decode_file (canon (file_json f)) = Some f"
proof -
  assume v: "valid_file f"
  let ?j = "canon (file_json f)"
  have "get_field ?j ''size'' = jint (f_Size f)"
    using v by (simp add: file_json_def field_defs get_field_canon valid_file_def del: canon.simps(2))
  then have "dec_int ?j ''size'' = Some (f_Size f)" using v by (intro dec_jint) (simp_all add: valid_file_def)
  moreover have "dec_str ?j ''path'' = Some (f_Path f)" "dec_str ?j ''sha256'' = Some (f_SHA256 f)" "is_struct ?j"
    by (simp_all add: file_json_def field_defs get_field_canon dec_str_def del: canon.simps(2))
  ultimately show ?thesis by (simp add: decode_file_def)
qed

lemma repository_roundtrip:
  "decode_repository (canon (JObj (str_omit ''remote'' (r_Remote r) @ str_omit ''root'' (r_Root r)))) = Some r"
  by (simp add: decode_repository_def field_defs get_field_canon dec_str_def del: canon.simps(2))

lemma machine_roundtrip: "decode_machine (canon (machine_json m)) = Some m"
  by (simp add: decode_machine_def machine_json_def field_defs get_field_canon dec_str_def del: canon.simps(2))

text \<open>Looking a key up in a list of fields, without unfolding which optional ones are there.\<close>

lemma field_lookup:
  "map_of (str_field k s @ r) k' = (if k' = k then Some (JStr s) else map_of r k')"
  "map_of (str_omit k s @ r) k' = (if k' = k \<and> s \<noteq> [] then Some (JStr s) else map_of r k')"
  "map_of (int_field k i @ r) k' = (if k' = k then Some (jint i) else map_of r k')"
  "map_of (list_omit k f xs) k' = (if k' = k \<and> xs \<noteq> [] then Some (JArr (map f xs)) else None)"
  by (auto simp: field_defs)

definition descriptor_fields :: "Descriptor \<Rightarrow> (string \<times> json) list" where
  "descriptor_fields d =
     str_field ''path'' (d_Path d) @ str_field ''harness'' (d_Harness d) @ str_field ''adapter'' (d_Adapter d)
     @ str_field ''native_trace_id'' (d_NativeTraceID d) @ str_omit ''native_updated_at'' (d_NativeUpdatedAt d)
     @ str_field ''revision_digest'' (d_RevisionDigest d)
     @ str_omit ''parent_native_trace_id'' (d_ParentNativeTraceID d)
     @ str_omit ''title'' (d_Title d) @ str_omit ''working_directory'' (d_WorkingDirectory d)
     @ [(''repository'', JObj (str_omit ''remote'' (r_Remote (d_Repository d))
                               @ str_omit ''root'' (r_Root (d_Repository d))))]
     @ [(''files'', JArr (map file_json (d_Files d)))] @ list_omit ''warnings'' warning_json (d_Warnings d)"

lemma descriptor_fields_json: "descriptor_json d = JObj (descriptor_fields d)"
  by (simp add: descriptor_json_def descriptor_fields_def)

definition manifest_fields :: "Manifest \<Rightarrow> (string \<times> json) list" where
  "manifest_fields m =
     int_field ''format_version'' (mf_FormatVersion m) @ str_field ''collector_version'' (mf_CollectorVersion m)
     @ str_field ''created_at'' (mf_CreatedAt m) @ [(''source_machine'', machine_json (mf_SourceMachine m))]
     @ [(''traces'', JArr (map descriptor_json (mf_Traces m)))]"

lemma manifest_fields_json: "manifest_json m = JObj (manifest_fields m)"
  by (simp add: manifest_json_def manifest_fields_def)

lemma dec_str_field:
  "get_field j k = (if s = [] then JNull else JStr s) \<or> get_field j k = JStr s \<Longrightarrow> dec_str j k = Some s"
  by (auto simp: dec_str_def)

lemma dec_list_field:
  assumes "get_field j k = (if xs = [] then JNull else JArr (map g xs)) \<or> get_field j k = JArr (map g xs)"
    and "\<And>x. x \<in> set xs \<Longrightarrow> f (g x) = Some x"
  shows "dec_list f j k = Some xs"
  using assms(1) all_some_map [of xs f g] assms(2) by (auto simp: dec_list_def)

lemma descriptor_get:
  assumes "plain_key k"
  shows "get_field (canon (descriptor_json d)) k =
     (case map_of (descriptor_fields d) k of Some v \<Rightarrow> canon v | None \<Rightarrow> JNull)"
  unfolding descriptor_fields_json
  using assms by (intro get_field_canon) (simp_all add: field_defs descriptor_fields_def)

lemma descriptor_roundtrip:
  assumes "valid_descriptor d"
  shows "decode_descriptor (canon (descriptor_json d)) = Some d"
proof -
  let ?j = "canon (descriptor_json d)"
  note g = descriptor_get descriptor_fields_def field_lookup
  have s: "is_struct ?j" by (simp add: descriptor_fields_json del: canon.simps(2))
  have a: "dec_str ?j ''path'' = Some (d_Path d)" "dec_str ?j ''harness'' = Some (d_Harness d)"
    "dec_str ?j ''adapter'' = Some (d_Adapter d)" "dec_str ?j ''native_trace_id'' = Some (d_NativeTraceID d)"
    "dec_str ?j ''native_updated_at'' = Some (d_NativeUpdatedAt d)"
    "dec_str ?j ''revision_digest'' = Some (d_RevisionDigest d)"
    "dec_str ?j ''parent_native_trace_id'' = Some (d_ParentNativeTraceID d)"
    "dec_str ?j ''title'' = Some (d_Title d)" "dec_str ?j ''working_directory'' = Some (d_WorkingDirectory d)"
    by (rule dec_str_field; simp add: g del: map_of_append)+
  have "get_field ?j ''repository'' = canon (JObj (str_omit ''remote'' (r_Remote (d_Repository d))
      @ str_omit ''root'' (r_Root (d_Repository d))))"
    by (simp add: g del: canon.simps(2) map_of_append)
  then have r: "decode_repository (get_field ?j ''repository'') = Some (d_Repository d)"
    using repository_roundtrip by metis
  have f: "dec_list decode_file ?j ''files'' = Some (d_Files d)"
  proof (rule dec_list_field [where g = "\<lambda>f. canon (file_json f)"])
    show "decode_file (canon (file_json f)) = Some f" if "f \<in> set (d_Files d)" for f
      using that assms by (intro file_roundtrip) (auto simp: valid_descriptor_def list_all_iff)
  qed (simp add: g comp_def del: map_of_append)
  have w: "dec_list decode_warning ?j ''warnings'' = Some (d_Warnings d)"
    by (rule dec_list_field [where g = "\<lambda>w. canon (warning_json w)"]) (simp_all add: g comp_def warning_roundtrip del: map_of_append)
  show ?thesis by (simp add: decode_descriptor_def s a r f w)
qed

lemma manifest_get:
  assumes "plain_key k"
  shows "get_field (canon (manifest_json m)) k =
     (case map_of (manifest_fields m) k of Some v \<Rightarrow> canon v | None \<Rightarrow> JNull)"
  unfolding manifest_fields_json
  using assms by (intro get_field_canon) (simp_all add: field_defs manifest_fields_def)

lemma manifest_roundtrip:
  assumes "valid_manifest m"
  shows "decode_manifest (canon (manifest_json m)) = Some m"
proof -
  let ?j = "canon (manifest_json m)"
  note g = manifest_get manifest_fields_def field_lookup
  have s: "is_struct ?j" by (simp add: manifest_fields_json del: canon.simps(2))
  have i: "dec_int ?j ''format_version'' = Some (mf_FormatVersion m)"
    using assms by (intro dec_jint) (simp_all add: g valid_manifest_def del: map_of_append)
  have a: "dec_str ?j ''collector_version'' = Some (mf_CollectorVersion m)"
    "dec_str ?j ''created_at'' = Some (mf_CreatedAt m)"
    by (rule dec_str_field; simp add: g del: map_of_append)+
  have c: "decode_machine (get_field ?j ''source_machine'') = Some (mf_SourceMachine m)"
    using machine_roundtrip by (simp add: g del: map_of_append)
  have t: "dec_list decode_descriptor ?j ''traces'' = Some (mf_Traces m)"
  proof (rule dec_list_field [where g = "\<lambda>d. canon (descriptor_json d)"])
    show "decode_descriptor (canon (descriptor_json d)) = Some d" if "d \<in> set (mf_Traces m)" for d
      using that assms by (intro descriptor_roundtrip) (auto simp: valid_manifest_def list_all_iff)
  qed (simp add: g comp_def del: map_of_append)
  show ?thesis by (simp add: decode_manifest_def s i a c t)
qed

subsection \<open>What they are written as is well formed\<close>

lemma depth_list_le: "depth_list vs \<le> n \<longleftrightarrow> (\<forall>v \<in> set vs. depth v \<le> n)"
  by (induction vs) auto

definition wf_fields :: "nat \<Rightarrow> (string \<times> json) list \<Rightarrow> bool" where
  "wf_fields n kvs \<longleftrightarrow> (\<forall>kv \<in> set kvs. ValidString (fst kv) \<and> wf_json (snd kv) \<and> depth (snd kv) \<le> n)"

lemma plain_key_valid: "plain_key k \<Longrightarrow> ValidString k"
  by (rule ascii_ValidString) (simp add: plain_key_def list_all_iff)

lemma wf_fields_simps:
  "wf_fields n (xs @ ys) \<longleftrightarrow> wf_fields n xs \<and> wf_fields n ys"
  "wf_fields n []"
  "plain_key k \<Longrightarrow> wf_fields n ((k, v) # r) \<longleftrightarrow> wf_json v \<and> depth v \<le> n \<and> wf_fields n r"
  "plain_key k \<Longrightarrow> ValidString s \<Longrightarrow> wf_fields n (str_field k s)"
  "plain_key k \<Longrightarrow> ValidString s \<Longrightarrow> wf_fields n (str_omit k s)"
  "plain_key k \<Longrightarrow> int64 i \<Longrightarrow> wf_fields n (int_field k i)"
  by (auto simp: wf_fields_def field_defs plain_key_valid)

lemma wf_fields_obj: "wf_fields n kvs \<Longrightarrow> wf_json (JObj kvs) \<and> depth (JObj kvs) \<le> Suc n"
  by (auto simp: wf_fields_def list_all_iff depth_list_le)

lemma wf_array: "(\<And>x. x \<in> set xs \<Longrightarrow> wf_json (f x) \<and> depth (f x) \<le> n) \<Longrightarrow>
    wf_json (JArr (map f xs)) \<and> depth (JArr (map f xs)) \<le> Suc n"
  by (auto simp: list_all_iff depth_list_le)

lemma wf_file: "valid_file f \<Longrightarrow> wf_json (file_json f) \<and> depth (file_json f) \<le> 1"
  unfolding file_json_def One_nat_def by (intro wf_fields_obj) (simp add: wf_fields_simps valid_file_def)

lemma wf_warning: "valid_warning w \<Longrightarrow> wf_json (warning_json w) \<and> depth (warning_json w) \<le> 1"
  unfolding warning_json_def One_nat_def by (intro wf_fields_obj) (simp add: wf_fields_simps valid_warning_def)

lemma wf_descriptor: "valid_descriptor d \<Longrightarrow> wf_json (descriptor_json d) \<and> depth (descriptor_json d) \<le> 3"
proof -
  assume v: "valid_descriptor d"
  have f: "wf_json (JArr (map file_json (d_Files d))) \<and> depth (JArr (map file_json (d_Files d))) \<le> Suc 1"
    using v by (intro wf_array wf_file) (auto simp: valid_descriptor_def list_all_iff)
  have w: "wf_json (JArr (map warning_json (d_Warnings d))) \<and> depth (JArr (map warning_json (d_Warnings d))) \<le> Suc 1"
    using v by (intro wf_array wf_warning) (auto simp: valid_descriptor_def list_all_iff)
  let ?r = "str_omit ''remote'' (r_Remote (d_Repository d)) @ str_omit ''root'' (r_Root (d_Repository d))"
  have r: "wf_json (JObj ?r) \<and> depth (JObj ?r) \<le> Suc 0"
    using v by (intro wf_fields_obj) (simp add: wf_fields_simps valid_descriptor_def)
  have "wf_fields 2 (list_omit ''warnings'' warning_json (d_Warnings d))"
    using w by (simp add: list_omit_def wf_fields_simps del: wf_json.simps depth.simps)
  then have "wf_fields 2 (descriptor_fields d)"
    using v f r by (simp add: descriptor_fields_def wf_fields_simps valid_descriptor_def del: wf_json.simps depth.simps)
  from wf_fields_obj [OF this] show ?thesis by (simp add: descriptor_fields_json)
qed

lemma wf_manifest: "valid_manifest m \<Longrightarrow> wf_json (manifest_json m) \<and> depth (manifest_json m) \<le> 5"
proof -
  assume v: "valid_manifest m"
  have t: "wf_json (JArr (map descriptor_json (mf_Traces m))) \<and> depth (JArr (map descriptor_json (mf_Traces m))) \<le> Suc 3"
    using v by (intro wf_array wf_descriptor) (auto simp: valid_manifest_def list_all_iff)
  have "wf_json (machine_json (mf_SourceMachine m)) \<and> depth (machine_json (mf_SourceMachine m)) \<le> Suc 0"
    using v unfolding machine_json_def
    by (intro wf_fields_obj) (simp add: wf_fields_simps valid_manifest_def valid_machine_def)
  then have "wf_fields 4 (manifest_fields m)"
    using v t by (simp add: manifest_fields_def wf_fields_simps valid_manifest_def del: wf_json.simps depth.simps)
  from wf_fields_obj [OF this] show ?thesis by (simp add: manifest_fields_json)
qed

end
