(* ===== verification/JsonLength.thy ===== *)
theory JsonLength
  imports JsonRoundtrip
begin

text \<open>
  What the JSON encoder writes: no control characters, so that a value fits on a line, and a bound on its length.
\<close>

subsection \<open>One line\<close>

text \<open>An encoder writes a value on a line of its own: what it writes has no control characters.\<close>

definition printable :: "char \<Rightarrow> bool" where
  "printable c \<longleftrightarrow> (32 :: nat) \<le> byte c"

lemma printable_marks [simp]:
  "printable (CHR ''.'')" "printable (CHR ''e'')" "printable (CHR ''-'')" "printable (CHR ''+'')" "printable (CHR '','')" "printable (CHR '':'')"
  "printable (CHR ''['')" "printable (CHR '']'')" "printable (CHR ''{'')" "printable (CHR ''}'')" "printable (CHR ''0'')" "printable (CHR 0x22)"
  by (simp_all add: printable_def)

lemma hex_digit_printable: "n < 16 \<Longrightarrow> printable (hex_digit n)"
  by (auto simp: hex_digit_def printable_def)

lemma escape_printable:
  assumes "unit_len s = n" "0 < n"
  shows "list_all printable (escape_rune html (rune_of (take n s), take n s))"
proof (cases "length (take n s) = 1")
  case True
  with assms obtain a where a: "take n s = [a]" "byte a < (0x80 :: nat)" by (cases rule: unit_shape) auto
  have "printable (hex_digit (byte a div 16))" "printable (hex_digit (byte a mod 16))"
    using a(2) by (auto intro!: hex_digit_printable)
  then show ?thesis unfolding a(1)
    by (auto simp: escape_rune_def RuneError_def printable_def)
next
  case False
  have w: "list_all printable (take n s)"
    using assms False by (cases rule: unit_shape) (auto simp: cont_range printable_def)
  have h: "printable (hex_digit (rune_of (take n s) div 16))" "printable (hex_digit (rune_of (take n s) mod 16))" if "rune_of (take n s) < 0x20"
    using that by (auto intro!: hex_digit_printable)
  have "take n s \<noteq> [c]" for c using False by (metis One_nat_def length_Cons list.size(3))
  then show ?thesis using w h by (auto simp: escape_rune_def printable_def)
qed

lemma quote_printable: "ValidString s \<Longrightarrow> list_all printable (quote html s)"
proof -
  have "ValidString s \<Longrightarrow> list_all printable (concat (map (escape_rune html) (runes s)))"
  proof (induction s rule: runes.induct)
    case (1 s)
    show ?case
    proof (cases "s = []")
      case False
      have u: "0 < unit_len s" "ValidString (drop (unit_len s) s)"
        using 1(3) False by (auto simp: ValidString.simps [of s] split: if_splits)
      with 1 False escape_printable [of s "unit_len s" html] show ?thesis by (simp add: runes.simps [of s] Let_def)
    qed simp
  qed
  then show "ValidString s \<Longrightarrow> list_all printable (quote html s)" by (simp add: quote_def printable_def)
qed

lemma digits_printable: "list_all printable (nat_digits n)"
  by (induction n rule: nat_digits.induct) (auto simp: nat_digits.simps printable_def)

lemma pad_printable: "list_all printable ds \<Longrightarrow> list_all printable (pad_left n ds)"
  by (auto simp: pad_left_def list_all_iff)

lemma printable_part: "list_all printable ds \<Longrightarrow> list_all printable (take n ds) \<and> list_all printable (drop n ds)"
  by (auto simp: list_all_iff dest: in_set_takeD in_set_dropD)

lemma number_printable: "list_all printable (format_json_number m e)"
proof -
  have s: "list_all printable (sign_of m)" by (simp add: sign_of_def)
  have z: "list_all printable (replicate k (CHR ''0''))" for k by (simp add: list_all_iff)
  note d = digits_printable pad_printable printable_part
  show ?thesis
    by (auto simp: format_json_number_def format_plain_def format_exp_def num_digits_def Let_def s z d)
qed

lemma Join_printable: "list_all (list_all printable) ws \<Longrightarrow> list_all printable (Join ws '','')"
  by (induction ws) (auto simp: Join_Cons)

lemma encode_printable: "wf_json v \<Longrightarrow> list_all printable (encode html v)"
proof (induction v)
  case (JArr vs)
  then have "list_all (list_all printable) (map (encode html) vs)" by (auto simp: list_all_iff)
  then show ?case using Join_printable by simp
next
  case (JObj m)
  have "list_all printable (quote html (fst kv) @ '':'' @ encode html (snd kv))" if "kv \<in> set m" for kv
    using JObj that by (cases kv) (auto simp: list_all_iff [of _ m] intro!: quote_printable)
  then have "list_all (list_all printable) (map (\<lambda>kv. quote html (fst kv) @ '':'' @ encode html (snd kv)) m)" by (simp add: list_all_iff)
  then show ?case using Join_printable by simp
qed (auto simp: quote_printable number_printable printable_def)

subsection \<open>How long an encoding can get\<close>

fun room :: "json \<Rightarrow> nat" where
  "room JNull = 4"
| "room (JBool b) = 5"
| "room (JNum m e) = length (format_json_number m e)"
| "room (JStr s) = 6 * length s + 2"
| "room (JArr vs) = 2 + sum_list (map (\<lambda>v. room v + 1) vs)"
| "room (JObj m) = 2 + sum_list (map (\<lambda>kv. 6 * length (fst kv) + 2 + room (snd kv) + 2) m)"

lemma length_quote: "length (quote html s) \<le> 6 * length s + 2"
proof -
  have e: "length (escape_rune html p) \<le> 6 * length (snd p)" if "p \<in> set (runes s)" for p
  proof -
    have "1 \<le> length (snd p)" using runes_width [of "fst p" "snd p" s] that by simp
    then show ?thesis by (auto simp: escape_rune_def split: prod.split)
  qed
  have "length (concat (map (escape_rune html) (runes s))) = sum_list (map (\<lambda>p. length (escape_rune html p)) (runes s))"
    by (simp add: length_concat comp_def)
  also have "\<dots> \<le> sum_list (map (\<lambda>p. 6 * length (snd p)) (runes s))" by (rule sum_list_mono) (rule e)
  also have "\<dots> = 6 * length (concat (map snd (runes s)))" by (simp add: length_concat comp_def sum_list_const_mult)
  finally show ?thesis by (simp add: quote_def concat_runes)
qed

lemma length_Join_le: "length (Join ws '','') \<le> sum_list (map (\<lambda>w. length w + 1) ws)"
  by (induction ws) (auto simp: Join_Cons)

lemma encode_room: "length (encode html v) \<le> room v"
proof (induction v)
  case (JArr vs)
  have "length (Join (map (encode html) vs) '','') \<le> sum_list (map (\<lambda>v. length (encode html v) + 1) vs)"
    using length_Join_le [of "map (encode html) vs"] by (simp add: comp_def)
  also have "\<dots> \<le> sum_list (map (\<lambda>v. room v + 1) vs)" using JArr by (intro sum_list_mono) simp
  finally show ?case by simp
next
  case (JObj m)
  let ?f = "\<lambda>kv. quote html (fst kv) @ '':'' @ encode html (snd kv)"
  have "length (Join (map ?f m) '','') \<le> sum_list (map (\<lambda>kv. length (?f kv) + 1) m)"
    using length_Join_le [of "map ?f m"] by (simp add: comp_def)
  also have "\<dots> \<le> sum_list (map (\<lambda>kv. 6 * length (fst kv) + 2 + room (snd kv) + 2) m)"
  proof (rule sum_list_mono)
    fix kv assume "kv \<in> set m"
    then have "length (encode html (snd kv)) \<le> room (snd kv)" by (rule JObj) (cases kv; simp)
    with length_quote [of html "fst kv"] show "length (?f kv) + 1 \<le> 6 * length (fst kv) + 2 + room (snd kv) + 2" by simp
  qed
  finally show ?case by simp
qed (use length_quote in simp_all)

end
