(* ===== verification/ArchiveWitness.thy ===== *)
theory ArchiveWitness
  imports Validate StructRoundtrip JsonLength
begin

text \<open>
  A concrete archive: one trace with one source file, its digests computed, and the run of
  \<open>Validate\<close> on it.
\<close>

definition demo_digest :: string where
  "demo_digest = ''44136fa355b3678a1146ad16f7e8649e94fb4fc21fe77e8310c060f61caaff8a''"

definition demo_file :: File where
  "demo_file = \<lparr>f_Path = ''source/a'', f_Size = 2, f_SHA256 = demo_digest\<rparr>"

definition demo_descriptor :: Descriptor where
  "demo_descriptor = zero_Descriptor\<lparr>d_Path := ''traces/000001'', d_Harness := ''pi'',
     d_NativeTraceID := ''t'', d_Files := [demo_file],
     d_RevisionDigest := ''sha256:d7219c86991763e93893d17699ad25c5840960a2d8d62fc09a7b017a6b2ffe54''\<rparr>"

definition demo_manifest :: Manifest where
  "demo_manifest = \<lparr>mf_FormatVersion = 1, mf_CollectorVersion = [], mf_CreatedAt = [],
     mf_SourceMachine = \<lparr>m_ID = ''m'', m_Hostname = ''h'', m_OS = [], m_Arch = []\<rparr>,
     mf_Traces = [demo_descriptor]\<rparr>"

definition demo_entry :: "string \<Rightarrow> 64 word \<Rightarrow> string \<Rightarrow> ZipEntry" where
  "demo_entry name advertised data =
     \<lparr>z_Name = name, z_Regular = True, z_Size = advertised, z_Data = data, z_Error = None\<rparr>"

definition demo_manifest_text :: string where
  "demo_manifest_text = Marshal (manifest_json demo_manifest) @ newline"

definition demo_descriptor_text :: string where
  "demo_descriptor_text = Marshal (descriptor_json demo_descriptor) @ newline"

definition demo_zip :: "ZipEntry list" where
  "demo_zip =
     [demo_entry ''manifest.json'' 0 demo_manifest_text,
      demo_entry ''traces/000001/descriptor.json'' 0 demo_descriptor_text,
      demo_entry ''traces/000001/source/a'' 2 ''{}'']"

text \<open>The limits of the program, which leave room for the two JSON texts.\<close>

abbreviation demo_limits :: Limits where
  "demo_limits \<equiv> DefaultLimits"

lemma demo_lengths: "length demo_manifest_text \<le> 5000" "length demo_descriptor_text \<le> 5000"
proof -
  have "room (manifest_json demo_manifest) \<le> 4000" "room (descriptor_json demo_descriptor) \<le> 4000"
    by code_simp+
  with encode_room [of True "manifest_json demo_manifest"] encode_room [of True "descriptor_json demo_descriptor"]
  show "length demo_manifest_text \<le> 5000" "length demo_descriptor_text \<le> 5000"
    by (simp_all add: demo_manifest_text_def demo_descriptor_text_def newline_def)
qed

lemma demo_digest_computed: "sha256_hex ''{}'' = demo_digest"
  by code_simp

lemma demo_revision_computed:
  "RevisionDigest [demo_file] = ''sha256:d7219c86991763e93893d17699ad25c5840960a2d8d62fc09a7b017a6b2ffe54''"
  by code_simp

lemma demo_valid: "valid_manifest demo_manifest"
  by (auto simp: valid_manifest_def valid_machine_def valid_descriptor_def valid_file_def demo_manifest_def
      demo_descriptor_def demo_file_def demo_digest_def zero_Descriptor_def zero_Repository_def int64_def
      intro!: ascii_ValidString)

lemma demo_valid_descriptor: "valid_descriptor demo_descriptor"
  using demo_valid by (simp add: valid_manifest_def demo_manifest_def)

lemma demo_parsed:
  "parse_text demo_manifest_text = Some (canon (manifest_json demo_manifest))"
  "parse_text demo_descriptor_text = Some (canon (descriptor_json demo_descriptor))"
  using wf_manifest [OF demo_valid] wf_descriptor [OF demo_valid_descriptor]
  by (auto simp: demo_manifest_text_def demo_descriptor_text_def max_depth_def intro!: parse_text_encode(2))

lemma demo_read:
  "readMetadata (Some (demo_entry name 0 demo_manifest_text)) (l_MetadataBytes demo_limits) decode_manifest
     = Inr demo_manifest"
  "readMetadata (Some (demo_entry name 0 demo_descriptor_text)) (l_MetadataBytes demo_limits) decode_descriptor
     = Inr demo_descriptor"
  using demo_lengths by (simp_all add: readMetadata_def demo_entry_def read_limited_def DefaultLimits_def demo_parsed
      manifest_roundtrip [OF demo_valid] descriptor_roundtrip [OF demo_valid_descriptor])

lemma demo_safe:
  "safePath ''manifest.json'' 32" "safePath ''traces/000001/descriptor.json'' 32"
  "safePath ''traces/000001/source/a'' 32" "safePath ''traces/000001'' 2" "safePath ''source/a'' 30"
  by (auto simp: safePath_def ValidPath_def ContainsAny_def intro!: ascii_ValidString)

lemma demo_collected:
  "collect_files demo_limits demo_zip 0 [] = Inr (map (\<lambda>e. (z_Name e, e)) demo_zip)"
  by (simp add: demo_zip_def demo_entry_def demo_safe DefaultLimits_def)

lemma demo_found:
  "map_of (map (\<lambda>e. (z_Name e, e)) demo_zip) ''manifest.json'' = Some (demo_entry ''manifest.json'' 0 demo_manifest_text)"
  "map_of (map (\<lambda>e. (z_Name e, e)) demo_zip) ''traces/000001/descriptor.json''
     = Some (demo_entry ''traces/000001/descriptor.json'' 0 demo_descriptor_text)"
  "map_of (map (\<lambda>e. (z_Name e, e)) demo_zip) ''traces/000001/source/a''
     = Some (demo_entry ''traces/000001/source/a'' 2 ''{}'')"
  by (simp_all add: demo_zip_def demo_entry_def)

lemma demo_source_read: "read_limited 3 (demo_entry name 2 ''{}'') = Inr ''{}''"
  by (simp add: read_limited_def demo_entry_def)

lemma demo_trace:
  "validateTrace demo_limits (map (\<lambda>e. (z_Name e, e)) demo_zip) demo_descriptor [''manifest.json'']
     = Inr [''traces/000001/source/a'', ''traces/000001/descriptor.json'', ''manifest.json'']"
proof -
  have d: "d_Path demo_descriptor = ''traces/000001''" "d_Harness demo_descriptor = ''pi''"
    "d_NativeTraceID demo_descriptor = ''t''" "d_Files demo_descriptor = [demo_file]"
    "d_RevisionDigest demo_descriptor = RevisionDigest [demo_file]"
    by (simp_all add: demo_descriptor_def demo_revision_computed)
  have f: "f_Path demo_file = ''source/a''" "f_Size demo_file = 2" "f_SHA256 demo_file = demo_digest"
    by (simp_all add: demo_file_def)
  have l: "l_Depth demo_limits = 32" "l_FileBytes demo_limits = 4 * 2 ^ 30"
    by (simp_all add: DefaultLimits_def)
  have z: "z_Size (demo_entry n s c) = s" for n s c by (simp add: demo_entry_def)
  show ?thesis
    by (simp add: validateTrace_def d f l z demo_safe demo_found demo_read demo_source_read demo_digest_computed)
qed

lemma demo_validated:
  "Validate (\<lambda>_. Inr demo_zip) one_entry_zip (int (length one_entry_zip)) demo_limits
     = Inr \<lparr>v_Manifest = demo_manifest, v_ZIP = demo_zip\<rparr>"
proof -
  have c: "checkDirectorySize one_entry_zip (int (length one_entry_zip)) 100000 = Inr ()"
    by code_simp
  have len: "length one_entry_zip = 68" by (simp add: one_entry_zip_def signature_def)
  have l: "l_Files demo_limits = 100000" "l_ArchiveBytes demo_limits = 8 * 2 ^ 30" "limits_positive demo_limits"
    by (simp_all add: DefaultLimits_def limits_positive_def demo_manifest_text_def newline_def)
  have m: "mf_FormatVersion demo_manifest = 1" "m_ID (mf_SourceMachine demo_manifest) = ''m''"
    "m_Hostname (mf_SourceMachine demo_manifest) = ''h''" "mf_Traces demo_manifest = [demo_descriptor]"
    by (simp_all add: demo_manifest_def)
  have g: "guard True e = Inr ()" for e by (simp add: guard_def)
  have n: "length demo_zip = 3" by (simp add: demo_zip_def)
  show ?thesis
    using c
    by (simp add: Validate_def l len n m g demo_collected demo_found demo_read demo_trace FormatVersion_def)
qed

theorem Validate_sound_witness:
  "distinct (map z_Name demo_zip) \<and> list_all (\<lambda>e. safePath (z_Name e) 32) demo_zip
   \<and> expanded_size demo_zip = 2
   \<and> set (map z_Name demo_zip) = insert ''manifest.json'' (set (listed demo_descriptor))
   \<and> trace_ok (map (\<lambda>e. (z_Name e, e)) demo_zip) demo_descriptor"
proof -
  have "l_ExpandedBytes demo_limits < 2 ^ 63" "l_Depth demo_limits = 32"
    by (simp_all add: DefaultLimits_def)
  with Validate_sound [OF demo_validated] show ?thesis
    by (simp add: Let_def demo_manifest_def list_all_iff) (simp add: expanded_size_def demo_zip_def demo_entry_def)
qed

subsection \<open>Where writer and reader disagree\<close>

text \<open>A source file 31 directories deep, which \<open>Describe\<close> takes: its own bound on the depth of a path is 32.\<close>

definition deep_entry :: DirEntry where
  "deep_entry = \<lparr>de_Name = ''source/'' @ concat (replicate 30 ''a/'') @ ''f'', de_Dir = False, de_Regular = True,
     de_StatSize = 2, de_Content = ''{}''\<rparr>"

lemma deep_slashes: "length (filter (\<lambda>c. c = CHR ''/'') (de_Name deep_entry)) = 31"
  by (simp add: deep_entry_def eval_nat_numeral)

lemma deep_safe: "safePath (de_Name deep_entry) 32"
  using deep_slashes
  by (auto simp: safePath_def ValidPath_def ContainsAny_def deep_entry_def eval_nat_numeral intro!: ascii_ValidString)

text \<open>The depth bounds of exporting and importing differ.  \<open>describe_entry\<close>, which collects the files of a trace, accepts a source file nested
  31 deep; \<open>validate_sources\<close>, the part of \<open>Validate\<close> that goes through the files of a descriptor, refuses it under the default limits,
  since there a path below \<open>source/\<close> may have at most 29 slashes.\<close>

lemma deep_source_refused:
  "describe_entry deep_entry = Inr [\<lparr>f_Path = de_Name deep_entry, f_Size = 2, f_SHA256 = demo_digest\<rparr>] \<and>
   validate_sources DefaultLimits files path [\<lparr>f_Path = de_Name deep_entry, f_Size = 2, f_SHA256 = demo_digest\<rparr>] used
     = Inl ''invalid source file descriptor''"
proof
  have p: "prefix ''source/'' (de_Name deep_entry)" by (simp add: deep_entry_def)
  have f: "de_Dir deep_entry = False" "de_Regular deep_entry" "de_StatSize deep_entry = 2" "de_Content deep_entry = ''{}''"
    by (simp_all add: deep_entry_def)
  show "describe_entry deep_entry = Inr [\<lparr>f_Path = de_Name deep_entry, f_Size = 2, f_SHA256 = demo_digest\<rparr>]"
    by (simp add: describe_entry_def f deep_safe p demo_digest_computed)
  have "\<not> safePath (de_Name deep_entry) 30" by (simp add: safePath_def deep_slashes)
  then show "validate_sources DefaultLimits files path
      [\<lparr>f_Path = de_Name deep_entry, f_Size = 2, f_SHA256 = demo_digest\<rparr>] used = Inl ''invalid source file descriptor''"
    by (simp add: DefaultLimits_def)
qed

end
