(* ===== verification/ZipExact.thy ===== *)
theory ZipExact
  imports ZipDirectory
begin

text \<open>
  What \<open>checkDirectorySize\<close> accepts, said of the file alone: its last end record, the directory this advertises, and the
  headers that fill it.
\<close>

subsection \<open>The end record\<close>

lemma slice_drop: "Prelude.slice i j (drop b f) = Prelude.slice (b + i) (b + j) f"
  by (simp add: Prelude.slice_def add.commute)

lemma Uint_drop: "Uint16 (drop b f) i = Uint16 f (b + i)" "Uint32 (drop b f) i = Uint32 f (b + i)"
  by (simp_all add: Uint16_def Uint32_def slice_drop add.assoc)

lemma Uint_slice: "i + 8 \<le> j \<Longrightarrow> Uint64 (Prelude.slice b (b + j) f) i = Uint64 f (b + i)"
  by (simp add: Uint64_def Prelude.slice_def drop_take take_take min_def add.commute add.left_commute)

definition last_end_record :: "string \<Rightarrow> nat \<Rightarrow> bool" where
  "last_end_record f e \<longleftrightarrow> end_record_at f e \<and> (\<forall>e' > e. \<not> end_record_at f e')"

lemma end_record_near: "end_record_at f e \<Longrightarrow> e + 22 \<le> length f \<and> length f \<le> e + 65557"
  using Uint16_bound [of f "e + 20"] by (auto simp: end_record_at_def)

lemma end_record_drop: "b \<le> length f \<Longrightarrow> end_record_at (drop b f) e \<longleftrightarrow> end_record_at f (b + e)"
  by (auto simp: end_record_at_def slice_drop Uint_drop add.assoc)

lemma find_end_Some: "find_end t n = Some e \<longleftrightarrow> e \<le> n \<and> end_record_at t e \<and> (\<forall>e'. e < e' \<and> e' \<le> n \<longrightarrow> \<not> end_record_at t e')"
  by (induction n) (auto simp: le_Suc_eq)

text \<open>The tail that is searched holds every end record of the file.\<close>

lemma find_end_tail:
  assumes "b = length f - 65557"
  shows "(if 22 \<le> length (drop b f) then find_end (drop b f) (length (drop b f) - 22) else None) = Some e \<longleftrightarrow> last_end_record f (b + e)"
proof -
  have b: "b \<le> length f" using assms by simp
  have near: "b \<le> e' \<and> e' + 22 \<le> length f" if "end_record_at f e'" for e' using end_record_near [OF that] assms by auto
  show ?thesis
  proof
    assume "(if 22 \<le> length (drop b f) then find_end (drop b f) (length (drop b f) - 22) else None) = Some e"
    then have e: "22 \<le> length f - b" "end_record_at f (b + e)" "\<And>e'. e < e' \<Longrightarrow> e' \<le> length f - b - 22 \<Longrightarrow> \<not> end_record_at f (b + e')"
      by (auto simp: find_end_Some end_record_drop [OF b] split: if_splits)
    have "\<not> end_record_at f e'" if "e' > b + e" for e'
    proof
      assume r: "end_record_at f e'"
      with near [OF r] that have "e < e' - b" "e' - b \<le> length f - b - 22" "b + (e' - b) = e'" by auto
      with e(3) [of "e' - b"] r show False by simp
    qed
    with e(2) show "last_end_record f (b + e)" by (simp add: last_end_record_def)
  next
    assume l: "last_end_record f (b + e)"
    then have "b + e + 22 \<le> length f" using near by (simp add: last_end_record_def)
    with l show "(if 22 \<le> length (drop b f) then find_end (drop b f) (length (drop b f) - 22) else None) = Some e"
      by (auto simp: last_end_record_def find_end_Some end_record_drop [OF b])
  qed
qed

subsection \<open>The directory it advertises\<close>

text \<open>A field at its greatest value refers to the ZIP64 record, which a locator just before the end record leads to.\<close>

definition advertises :: "string \<Rightarrow> nat \<Rightarrow> Directory \<Rightarrow> bool" where
  "advertises f e d \<longleftrightarrow>
     (if Uint16 f (e + 10) = 0xffff \<or> Uint32 f (e + 12) = 0xffffffff \<or> Uint32 f (e + 16) = 0xffffffff
      then \<exists>b. 20 \<le> e \<and> Prelude.slice (e - 20) (e - 16) f = signature 6 7 \<and> b = unat (Uint64 f (e - 12)) \<and> b + 56 \<le> length f \<and>
        Prelude.slice b (b + 4) f = signature 6 6 \<and>
        d = \<lparr>dir_count = Uint64 f (b + 32), dir_size = Uint64 f (b + 40), dir_offset = Uint64 f (b + 48)\<rparr>
      else d = \<lparr>dir_count = Uint16 f (e + 10), dir_size = Uint32 f (e + 12), dir_offset = Uint32 f (e + 16)\<rparr>)"

lemma take_slice: "k \<le> n \<Longrightarrow> take k (Prelude.slice b (b + n) f) = Prelude.slice b (b + k) f"
  by (simp add: Prelude.slice_def)

lemma ReadAt_nat: "int m = k \<Longrightarrow> ReadAt f n k = (if length f < m + n then Inl ''EOF'' else Inr (Prelude.slice m (m + n) f))"
  by (auto simp: ReadAt_def)

lemma ReadAt_before:
  assumes "n \<le> m" "m \<le> length f"
  shows "ReadAt f k (int n - int k) = (if k \<le> n then Inr (Prelude.slice (n - k) n f) else Inl ''EOF'')"
  using assms by (auto simp: ReadAt_def nat_diff_distrib)

lemma offset_in_file:
  assumes "length f < 2 ^ 63"
  shows "int (length f) < 56 \<or> of_int (int (length f) - 56) < o' \<longleftrightarrow> length f < unat (o' :: 64 word) + 56"
proof (cases "56 \<le> length f")
  case True
  then have "of_int (int (length f) - 56) = (of_nat (length f - 56) :: 64 word)" by (simp add: of_nat_diff)
  moreover have "unat (of_nat (length f - 56) :: 64 word) = length f - 56" using assms by (intro unat_of_small) simp
  ultimately show ?thesis using True by (auto simp: word_less_nat_alt)
qed auto

lemma sint_small: "unat (w :: 64 word) < 2 ^ 63 \<Longrightarrow> sint w = int (unat w)"
proof -
  assume "unat w < 2 ^ 63"
  then have "int (unat w) < int (2 ^ 63)" by (simp only: of_nat_less_iff)
  then have "uint w < 2 ^ 63" by simp
  moreover have "- (2 ^ 63) \<le> uint w" by (rule order_trans [OF _ uint_ge_0]) simp
  ultimately have "signed_take_bit 63 (uint w) = uint w" by (intro signed_take_bit_int_eq_self) auto
  then show ?thesis by (simp add: sint_uint)
qed

lemma read_directory_advertises:
  assumes e: "b + e + 22 \<le> length f" and small: "length f < 2 ^ 63"
  shows "read_directory f (int (length f)) (drop b f) (int (length f) - int b) e = Inr d \<longleftrightarrow> advertises f (b + e) d"
proof (cases "Uint16 f (b + e + 10) = 0xffff \<or> Uint32 f (b + e + 12) = 0xffffffff \<or> Uint32 f (b + e + 16) = 0xffffffff")
  case False
  then show ?thesis by (auto simp: read_directory_def advertises_def Uint_drop Let_def add.assoc)
next
  case zip64: True
  let ?e = "b + e"
  have loc: "ReadAt f 20 (int b + int e - 20) = (if 20 \<le> ?e then Inr (Prelude.slice (?e - 20) ?e f) else Inl ''EOF'')"
    using ReadAt_before [of 20 ?e f 20] ReadAt_before [of ?e ?e f 20] e by (auto simp: ReadAt_def nat_diff_distrib)
  show ?thesis
  proof (cases "20 \<le> ?e")
    case False
    with zip64 show ?thesis
      by (simp add: read_directory_def advertises_def Uint_drop Let_def add.assoc [symmetric] loc)
  next
    case True
    let ?o = "Uint64 f (?e - 12)"
    have ends: "?e - 20 + 20 = ?e" "?e - 20 + 4 = ?e - 16" "?e - 20 + 8 = ?e - 12" using True by auto
    have slc: "take 4 (Prelude.slice (?e - 20) ?e f) = Prelude.slice (?e - 20) (?e - 16) f"
      using take_slice [of 4 20 "?e - 20" f] True by (simp add: ends)
    have u8: "Uint64 (Prelude.slice (?e - 20) ?e f) 8 = ?o"
      using Uint_slice [of 8 20 "?e - 20" f] by (simp add: ends)
    have hdr: "ReadAt f 56 (sint o') = Inr (Prelude.slice (unat o') (unat o' + 56) f)" if "unat o' + 56 \<le> length f" for o' :: "64 word"
      using that small by (simp add: sint_small del: of_nat_unat) (simp add: ReadAt_nat [of "unat o'"])
    have offset: "(length f < 56 \<or> word_of_nat (length f) - 56 < o') = (length f < unat o' + 56)" for o' :: "64 word"
      using offset_in_file [OF small, of o'] by simp
    have dir: "read_directory f (int (length f)) (drop b f) (int (length f) - int b) e =
      (if Prelude.slice (?e - 20) (?e - 16) f \<noteq> signature 6 7 then Inl ''invalid ZIP64 directory''
       else if length f < unat ?o + 56 then Inl ''invalid ZIP64 offset''
       else if Prelude.slice (unat ?o) (unat ?o + 4) f \<noteq> signature 6 6 then Inl ''invalid ZIP64 header''
       else Inr \<lparr>dir_count = Uint64 f (unat ?o + 32), dir_size = Uint64 f (unat ?o + 40), dir_offset = Uint64 f (unat ?o + 48)\<rparr>)"
    proof (cases "length f < unat ?o + 56")
      case True
      with zip64 \<open>20 \<le> ?e\<close> show ?thesis
        by (simp add: read_directory_def Uint_drop Let_def add.assoc [symmetric] loc slc u8 offset)
    next
      case False
      then have "\<not> length f < 56" "\<not> word_of_nat (length f) - 56 < ?o" using offset [of ?o] by auto
      with False zip64 \<open>20 \<le> ?e\<close> hdr [of ?o] show ?thesis
        by (simp add: read_directory_def Uint_drop Let_def add.assoc [symmetric] loc slc u8 offset take_slice Uint_slice)
    qed
    with zip64 True show ?thesis by (auto simp: advertises_def)
  qed
qed

subsection \<open>The headers\<close>

text \<open>The scan goes through exactly when a chain of headers, no longer than the limit, fills the directory.\<close>

lemma scan_headers_complete:
  "header_chain f dend n off \<Longrightarrow> unat dend < 2 ^ 63 \<Longrightarrow> unat dend \<le> length f \<Longrightarrow> unat actual + n \<le> unat limit \<Longrightarrow>
   scan_headers f limit dend off actual = Inr (actual + of_nat n, dend)"
proof (induction n arbitrary: off actual)
  case 0
  then show ?case by (simp add: scan_headers.simps [of f limit dend dend])
next
  case (Suc n)
  then have off: "unat off + 46 \<le> unat dend" and sig: "take 4 (header_at f off) = signature 1 2"
    and chain: "header_chain f dend n (next_header f off)" by simp_all
  have lt: "off < dend" "actual < limit" using off Suc.prems(4) by (simp_all add: word_less_nat_alt)
  have room: "\<not> dend - off < 46" using off by (simp add: word_less_nat_alt unat_sub_if')
  have read: "ReadAt f 46 (sint off) = Inr (header_at f off)"
  proof -
    have "sint off = int (unat off)" using off Suc.prems(2) by (intro sint_small) simp
    then show ?thesis using off Suc.prems(3) by (simp add: ReadAt_nat [of "unat off"] header_at_def)
  qed
  have act: "unat (actual + 1) = Suc (unat actual)" using unat_inc [OF lt(2)] by simp
  have "scan_headers f limit dend (next_header f off) (actual + 1) = Inr (actual + 1 + of_nat n, dend)"
    using Suc.IH [OF chain Suc.prems(2,3)] Suc.prems(4) act by simp
  then show ?case
    using lt room read sig by (simp add: scan_headers.simps [of _ _ _ off] next_header_def not_le add.assoc)
qed

lemma scan_headers_exact:
  assumes "unat dend < 2 ^ 63" "unat dend \<le> length f" "c \<le> limit"
  shows "scan_headers f limit dend off 0 = Inr (c, dend) \<longleftrightarrow> header_chain f dend (unat c) off"
proof
  assume "scan_headers f limit dend off 0 = Inr (c, dend)"
  from scan_headers_chain [OF this refl assms(1)] show "header_chain f dend (unat c) off" by auto
next
  assume "header_chain f dend (unat c) off"
  from scan_headers_complete [OF this assms(1,2), of 0 limit] show "scan_headers f limit dend off 0 = Inr (c, dend)"
    using assms(3) by (simp add: word_le_nat_alt)
qed

lemma guard_is: "(if c then Inl e else r) = Inr y \<longleftrightarrow> \<not> c \<and> r = Inr y"
  by simp

lemma passes_iff:
  "(case fo of None \<Rightarrow> Inl m
    | Some e \<Rightarrow> bind_result (rd e) (\<lambda>d. if g d then Inl a else if h d then Inl b
        else bind_result (sc d) (\<lambda>(x, y). if x \<noteq> cd d \<or> y \<noteq> ce d then Inl c else Inr ()))) = Inr ()
   \<longleftrightarrow> (\<exists>e d. fo = Some e \<and> rd e = Inr d \<and> \<not> g d \<and> \<not> h d \<and> sc d = Inr (cd d, ce d))"
  by (cases fo) (auto simp: bind_result_Inr_iff guard_is split: prod.splits)

text \<open>C5. For a file and a limit that an \<open>int64\<close> holds, \<open>checkDirectorySize\<close> passes exactly the files whose
  directory is what they say it is: the last end record of the file (the last whose comment reaches the end of the
  file) advertises, itself or through its ZIP64 record, a count, a size and an offset; the count is within the limit,
  the directory lies within the file, and as many headers as advertised, each with its signature and one behind the
  other, fill it exactly.  So an advertised count cannot make the ZIP reader allocate more entries than
  the limit, and no file whose directory is honest is refused.\<close>

theorem checkDirectorySize_exact:
  assumes "0 < limit" "limit < 2 ^ 63" "length f < 2 ^ 63"
  shows "checkDirectorySize f (int (length f)) limit = Inr () \<longleftrightarrow>
    (\<exists>e d. last_end_record f e \<and> advertises f e d \<and> int (unat (dir_count d)) \<le> limit
      \<and> unat (dir_offset d) + unat (dir_size d) \<le> length f
      \<and> header_chain f (dir_offset d + dir_size d) (unat (dir_count d)) (dir_offset d))"
proof -
  let ?b = "length f - 65557" and ?size = "of_int (int (length f)) :: 64 word"
  let ?tail = "drop ?b f"
  let ?found = "if 22 \<le> length ?tail then find_end ?tail (length ?tail - 22) else None"
  have len: "min (int (length f)) 65557 = int (length f) - int ?b" by auto
  have tail: "ReadAt f (nat (int (length f) - int ?b)) (int (length f) - (int (length f) - int ?b)) = Inr ?tail"
    by (auto simp: ReadAt_def Prelude.slice_def nat_diff_distrib)
  have size: "unat ?size = length f" using assms(3) by (simp add: unat_of_small)
  have lim: "unat (of_int limit :: 64 word) = nat limit"
    using assms(1,2) unat_of_small [of "nat limit"] by (simp add: nat_less_iff)
  have cnt: "\<not> of_int limit < dir_count d \<longleftrightarrow> int (unat (dir_count d)) \<le> limit" for d :: Directory
    using lim assms(1) by (auto simp: word_less_nat_alt nat_less_iff not_less le_nat_iff)
  have room: "\<not> (?size < dir_offset d \<or> ?size - dir_offset d < dir_size d) \<longleftrightarrow> unat (dir_offset d) + unat (dir_size d) \<le> length f"
    for d :: Directory
    using size by (auto simp: word_less_nat_alt unat_sub_if' not_less)
  have scan: "scan_headers f (of_int limit) (dir_offset d + dir_size d) (dir_offset d) 0 = Inr (dir_count d, dir_offset d + dir_size d)
      \<longleftrightarrow> header_chain f (dir_offset d + dir_size d) (unat (dir_count d)) (dir_offset d)"
    if "\<not> of_int limit < dir_count d" "unat (dir_offset d) + unat (dir_size d) \<le> length f" for d :: Directory
  proof -
    have "unat (dir_offset d + dir_size d) \<le> length f" using that(2) assms(3) by (simp add: unat_word_ariths(1))
    then show ?thesis using that(1) assms(3) by (intro scan_headers_exact) auto
  qed
  have e_bound: "?b + e + 22 \<le> length f" if "?found = Some e" for e
    using end_record_near [of f "?b + e"] find_end_tail [of ?b f e] that by (simp add: last_end_record_def)
  have read: "read_directory f (int (length f)) ?tail (int (length f) - int ?b) e = Inr d \<longleftrightarrow> advertises f (?b + e) d"
    if "?found = Some e" for e d by (rule read_directory_advertises [OF e_bound [OF that] assms(3)])
  have ends: "(\<exists>e. ?found = Some e \<and> P (?b + e)) \<longleftrightarrow> (\<exists>e. last_end_record f e \<and> P e)" for P
  proof
    assume "\<exists>e. last_end_record f e \<and> P e"
    then obtain e where e: "last_end_record f e" "P e" by blast
    then have "?b \<le> e" using end_record_near [of f e] by (auto simp: last_end_record_def)
    with e find_end_tail [of ?b f "e - ?b"] show "\<exists>e. ?found = Some e \<and> P (?b + e)"
      by (intro exI [of _ "e - ?b"]) simp
  qed (use find_end_tail [of ?b f] in blast)
  have "checkDirectorySize f (int (length f)) limit = Inr () \<longleftrightarrow>
    (\<exists>e d. ?found = Some e \<and> read_directory f (int (length f)) ?tail (int (length f) - int ?b) e = Inr d
      \<and> \<not> of_int limit < dir_count d \<and> \<not> (?size < dir_offset d \<or> ?size - dir_offset d < dir_size d)
      \<and> scan_headers f (of_int limit) (dir_offset d + dir_size d) (dir_offset d) 0 = Inr (dir_count d, dir_offset d + dir_size d))"
    unfolding checkDirectorySize_def Let_def len tail bind_result_simps
    by (rule passes_iff)
  also have "\<dots> \<longleftrightarrow> (\<exists>e d. ?found = Some e \<and> advertises f (?b + e) d \<and> \<not> of_int limit < dir_count d
      \<and> unat (dir_offset d) + unat (dir_size d) \<le> length f
      \<and> header_chain f (dir_offset d + dir_size d) (unat (dir_count d)) (dir_offset d))"
    using read room scan by blast
  also have "\<dots> \<longleftrightarrow> (\<exists>e d. last_end_record f e \<and> advertises f e d \<and> int (unat (dir_count d)) \<le> limit
      \<and> unat (dir_offset d) + unat (dir_size d) \<le> length f
      \<and> header_chain f (dir_offset d + dir_size d) (unat (dir_count d)) (dir_offset d))"
    unfolding cnt
    using ends [of "\<lambda>e. \<exists>d. advertises f e d \<and> int (unat (dir_count d)) \<le> limit
      \<and> unat (dir_offset d) + unat (dir_size d) \<le> length f
      \<and> header_chain f (dir_offset d + dir_size d) (unat (dir_count d)) (dir_offset d)"] by blast
  finally show ?thesis .
qed

theorem checkDirectorySize_exact_witness:
  "(\<exists>e d. last_end_record one_entry_zip e \<and> advertises one_entry_zip e d \<and> int (unat (dir_count d)) \<le> 5
      \<and> unat (dir_offset d) + unat (dir_size d) \<le> length one_entry_zip
      \<and> header_chain one_entry_zip (dir_offset d + dir_size d) (unat (dir_count d)) (dir_offset d))
   \<and> checkDirectorySize one_entry_zip (int (length one_entry_zip)) 0 \<noteq> Inr ()"
proof
  have "checkDirectorySize one_entry_zip (int (length one_entry_zip)) 5 = Inr ()"
    by code_simp
  moreover have "length one_entry_zip < 2 ^ 63" by (simp add: one_entry_zip_def signature_def)
  ultimately show "\<exists>e d. last_end_record one_entry_zip e \<and> advertises one_entry_zip e d \<and> int (unat (dir_count d)) \<le> 5
      \<and> unat (dir_offset d) + unat (dir_size d) \<le> length one_entry_zip
      \<and> header_chain one_entry_zip (dir_offset d + dir_size d) (unat (dir_count d)) (dir_offset d)"
    using checkDirectorySize_exact [of 5 one_entry_zip] by simp
  show "checkDirectorySize one_entry_zip (int (length one_entry_zip)) 0 \<noteq> Inr ()" by code_simp
qed

end
