(* ===== verification/GoTime.thy ===== *)
theory GoTime
  imports GoStrings
begin

text \<open>
  The part of the package \<open>time\<close> the program uses: \<open>time.Parse\<close> with the layout RFC 3339, the
  conversion of the instant to UTC, and the layouts it formats times with.  A time is its civil
  fields; the conversion moves the minute of the day and carries whole days through the calendar.
\<close>

record datetime =
  year :: int
  month :: nat
  day :: nat
  hour :: nat
  minute :: nat
  second :: nat
  nanos :: nat

definition leap :: "int \<Rightarrow> bool" where
  "leap y \<longleftrightarrow> y mod 4 = 0 \<and> (y mod 100 \<noteq> 0 \<or> y mod 400 = 0)"

definition days_in :: "nat \<Rightarrow> int \<Rightarrow> nat" where
  "days_in m y = (if m = 2 then (if leap y then 29 else 28) else if m \<in> {4, 6, 9, 11} then 30 else 31)"

definition valid_datetime :: "datetime \<Rightarrow> bool" where
  "valid_datetime t \<longleftrightarrow> 1 \<le> month t \<and> month t \<le> 12 \<and> 1 \<le> day t \<and> day t \<le> days_in (month t) (year t)
     \<and> hour t < 24 \<and> minute t < 60 \<and> second t < 60 \<and> nanos t < 10 ^ 9"

definition next_day :: "datetime \<Rightarrow> datetime" where
  "next_day t =
     (if day t < days_in (month t) (year t) then t\<lparr>day := day t + 1\<rparr>
      else if month t < 12 then t\<lparr>month := month t + 1, day := 1\<rparr>
      else t\<lparr>year := year t + 1, month := 1, day := 1\<rparr>)"

definition prev_day :: "datetime \<Rightarrow> datetime" where
  "prev_day t =
     (if 1 < day t then t\<lparr>day := day t - 1\<rparr>
      else if 1 < month t then t\<lparr>month := month t - 1, day := days_in (month t - 1) (year t)\<rparr>
      else t\<lparr>year := year t - 1, month := 12, day := 31\<rparr>)"

definition add_days :: "int \<Rightarrow> datetime \<Rightarrow> datetime" where
  "add_days k t = (if 0 \<le> k then (next_day ^^ nat k) t else (prev_day ^^ nat (- k)) t)"

definition add_minutes :: "int \<Rightarrow> datetime \<Rightarrow> datetime" where
  "add_minutes k t =
     (if k = 0 then t
      else let m = int (hour t) * 60 + int (minute t) + k; r = nat (m mod 1440)
           in add_days (m div 1440) (t\<lparr>hour := r div 60, minute := r mod 60\<rparr>))"

subsection \<open>Parsing RFC 3339\<close>

text \<open>\<open>getnum\<close>: two digits, or one when the field may be short.\<close>

definition getnum :: "bool \<Rightarrow> string \<Rightarrow> (nat \<times> string) option" where
  "getnum fixed s = (case s of
      a # b # r \<Rightarrow> (if \<not> is_digit a then None
                    else if is_digit b then Some (digit_value a * 10 + digit_value b, r)
                    else if fixed then None else Some (digit_value a, b # r))
    | [a] \<Rightarrow> (if is_digit a \<and> \<not> fixed then Some (digit_value a, []) else None)
    | [] \<Rightarrow> None)"

definition expect :: "char \<Rightarrow> string \<Rightarrow> string option" where
  "expect c s = (case s of d # r \<Rightarrow> if d = c then Some r else None | [] \<Rightarrow> None)"

definition parse_year :: "string \<Rightarrow> (int \<times> string) option" where
  "parse_year s = (if 4 \<le> length s \<and> list_all is_digit (take 4 s)
     then Some (int (digits_value (take 4 s)), drop 4 s) else None)"

text \<open>An optional fraction after the seconds: nine digits count, further ones are dropped.\<close>

definition parse_fraction :: "string \<Rightarrow> nat \<times> string" where
  "parse_fraction s = (case s of
      p # d # r \<Rightarrow> (if (p = CHR ''.'' \<or> p = CHR '','') \<and> is_digit d
        then let ds = takeWhile is_digit (d # r); k = take 9 ds
             in (digits_value k * 10 ^ (9 - length k), drop (length ds) (d # r))
        else (0, s))
    | _ \<Rightarrow> (0, s))"

text \<open>The zone: \<open>Z\<close>, or a signed hour and minute, at most 24 and 60; its offset in minutes.\<close>

definition parse_zone :: "string \<Rightarrow> (int \<times> string) option" where
  "parse_zone s = (case s of
      [] \<Rightarrow> None
    | c # r \<Rightarrow>
        (if c = CHR ''Z'' then Some (0, r)
         else if length s < 6 \<or> s ! 3 \<noteq> CHR '':'' \<or> (c \<noteq> CHR ''+'' \<and> c \<noteq> CHR ''-'') then None
         else (case (getnum True (take 2 r), getnum True (take 2 (drop 3 r))) of
                 (Some (h, _), Some (m, _)) \<Rightarrow>
                   (if h \<le> 24 \<and> m \<le> 60
                    then Some ((if c = CHR ''-'' then - 1 else 1) * int (h * 60 + m), drop 6 s)
                    else None)
               | _ \<Rightarrow> None)))"

definition parse_date :: "string \<Rightarrow> ((int \<times> nat \<times> nat) \<times> string) option" where
  "parse_date s0 =
     Option.bind (parse_year s0) (\<lambda>(y, s).
     Option.bind (expect (CHR ''-'') s) (\<lambda>s.
     Option.bind (getnum True s) (\<lambda>(mo, s).
     Option.bind (expect (CHR ''-'') s) (\<lambda>s.
     Option.bind (getnum True s) (\<lambda>(d, s).
       if 1 \<le> mo \<and> mo \<le> 12 \<and> 1 \<le> d \<and> d \<le> days_in mo y then Some ((y, mo, d), s) else None)))))"

definition parse_clock :: "string \<Rightarrow> ((nat \<times> nat \<times> nat \<times> nat) \<times> string) option" where
  "parse_clock s0 =
     Option.bind (getnum False s0) (\<lambda>(h, s).
     Option.bind (expect (CHR '':'') s) (\<lambda>s.
     Option.bind (getnum True s) (\<lambda>(mi, s).
     Option.bind (expect (CHR '':'') s) (\<lambda>s.
     Option.bind (getnum True s) (\<lambda>(sec, s).
       if h < 24 \<and> mi < 60 \<and> sec < 60
       then (case parse_fraction s of (ns, s) \<Rightarrow> Some ((h, mi, sec, ns), s)) else None)))))"

text \<open>\<open>time.Parse(time.RFC3339, value)\<close> followed by \<open>UTC()\<close>.\<close>

definition parse_rfc3339 :: "string \<Rightarrow> datetime option" where
  "parse_rfc3339 s0 =
     Option.bind (parse_date s0) (\<lambda>((y, mo, d), s).
     Option.bind (expect (CHR ''T'') s) (\<lambda>s.
     Option.bind (parse_clock s) (\<lambda>((h, mi, sec, ns), s).
     Option.bind (parse_zone s) (\<lambda>(offset, s).
       if s \<noteq> [] then None
       else Some (add_minutes (- offset)
              \<lparr>year = y, month = mo, day = d, hour = h, minute = mi, second = sec, nanos = ns\<rparr>)))))"

subsection \<open>Formatting\<close>

definition two :: "nat \<Rightarrow> string" where "two n = pad_left 2 (nat_digits n)"

definition four :: "int \<Rightarrow> string" where
  "four y = (if y < 0 then ''-'' @ pad_left 4 (nat_digits (nat (- y))) else pad_left 4 (nat_digits (nat y)))"

definition format_date :: "datetime \<Rightarrow> string" where
  "format_date t = four (year t) @ ''-'' @ two (month t) @ ''-'' @ two (day t)"

definition format_seconds :: "datetime \<Rightarrow> string" where
  "format_seconds t =
     format_date t @ ''T'' @ two (hour t) @ '':'' @ two (minute t) @ '':'' @ two (second t)"

text \<open>The layout \<open>2006-01-02T15:04:05.000000000Z\<close>, and \<open>time.RFC3339Nano\<close> of a UTC time.\<close>

definition format_canonical :: "datetime \<Rightarrow> string" where
  "format_canonical t = format_seconds t @ ''.'' @ pad_left 9 (nat_digits (nanos t)) @ ''Z''"

definition format_nano :: "datetime \<Rightarrow> string" where
  "format_nano t =
     (let frac = TrimRight (pad_left 9 (nat_digits (nanos t))) ''0''
      in format_seconds t @ (if frac = [] then [] else ''.'' @ frac) @ ''Z'')"

text \<open>\<open>time.Unix(s, 0)\<close> and \<open>time.UnixMilli(ms)\<close> in UTC: the proleptic Gregorian date of a day
  counted from 1970-01-01, by 400-year eras that start in March.\<close>

definition civil_of_days :: "int \<Rightarrow> int \<times> nat \<times> nat" where
  "civil_of_days days =
     (let z = days + 719468; era = z div 146097; doe = z mod 146097;
          yoe = (doe - doe div 1460 + doe div 36524 - doe div 146096) div 365;
          doy = doe - (365 * yoe + yoe div 4 - yoe div 100);
          mp = (5 * doy + 2) div 153;
          d = doy - (153 * mp + 2) div 5 + 1;
          m = (if mp < 10 then mp + 3 else mp - 9);
          y = yoe + era * 400 + (if m \<le> 2 then 1 else 0)
      in (y, nat m, nat d))"

definition UnixNano :: "int \<Rightarrow> int \<Rightarrow> datetime" where
  "UnixNano seconds ns =
     (case civil_of_days (seconds div 86400) of (y, m, d) \<Rightarrow>
        let r = nat (seconds mod 86400)
        in \<lparr>year = y, month = m, day = d, hour = r div 3600, minute = r div 60 mod 60, second = r mod 60,
            nanos = nat ns\<rparr>)"

definition UnixMilli :: "int \<Rightarrow> datetime" where
  "UnixMilli ms = UnixNano (ms div 1000) (ms mod 1000 * 10 ^ 6)"

subsection \<open>Times stay on the calendar\<close>

lemma days_in_pos: "Suc 0 \<le> days_in m y"
  by (simp add: days_in_def)

lemma days_in_december: "days_in 12 y = 31"
  by (simp add: days_in_def)

lemma next_day_valid: "valid_datetime t \<Longrightarrow> valid_datetime (next_day t)"
  using days_in_pos by (simp add: valid_datetime_def next_day_def)

lemma prev_day_valid: "valid_datetime t \<Longrightarrow> valid_datetime (prev_day t)"
  using days_in_pos [of "month t - 1" "year t"]
  by (auto simp: valid_datetime_def prev_day_def days_in_december)

lemma add_days_valid: "valid_datetime t \<Longrightarrow> valid_datetime (add_days k t)"
proof -
  assume t: "valid_datetime t"
  have "valid_datetime ((next_day ^^ n) t)" "valid_datetime ((prev_day ^^ n) t)" for n
    by (induction n) (simp_all add: t next_day_valid prev_day_valid)
  then show ?thesis by (simp add: add_days_def)
qed

lemma add_minutes_valid: "valid_datetime t \<Longrightarrow> valid_datetime (add_minutes k t)"
proof (cases "k = 0")
  case False
  assume t: "valid_datetime t"
  have "nat ((int (hour t) * 60 + int (minute t) + k) mod 1440) < 1440"
    by (simp add: nat_less_iff)
  then have "valid_datetime (t\<lparr>hour := nat ((int (hour t) * 60 + int (minute t) + k) mod 1440) div 60,
      minute := nat ((int (hour t) * 60 + int (minute t) + k) mod 1440) mod 60\<rparr>)"
    using t by (auto simp: valid_datetime_def less_mult_imp_div_less)
  with False show ?thesis by (simp add: add_minutes_def Let_def add_days_valid)
qed (simp add: add_minutes_def)

subsection \<open>Parsing what was formatted\<close>

lemma pad_digits: "list_all is_digit (pad_left w (nat_digits n))"
  using nat_digits_digits [of n] by (auto simp: pad_left_def list_all_iff)

lemma pad_value [simp]: "digits_value (pad_left w (nat_digits n)) = n"
  by (simp add: pad_left_def)

lemma pad_length: "n < 10 ^ w \<Longrightarrow> 0 < w \<Longrightarrow> length (pad_left w (nat_digits n)) = w"
  using length_nat_digits_le [of n w] by (simp add: length_pad_left)

lemma getnum_two: "n < (100::nat) \<Longrightarrow> getnum f (two n @ s) = Some (n, s)"
proof -
  assume n: "n < 100"
  then have "length (two n) = 2" using pad_length [of n 2] by (simp add: two_def)
  then obtain a b where ab: "two n = [a, b]" by (auto simp: length_Suc_conv numeral_eq_Suc)
  moreover have "list_all is_digit (two n)" "digits_value (two n) = n"
    using pad_digits by (simp_all add: two_def)
  ultimately show ?thesis by (simp add: getnum_def digits_value_def)
qed

lemma parse_year_four: "0 \<le> y \<Longrightarrow> y \<le> 9999 \<Longrightarrow> parse_year (four y @ s) = Some (y, s)"
  using pad_length [of "nat y" 4] pad_digits [of 4 "nat y"]
  by (simp add: parse_year_def four_def)

lemma parse_date_out:
  assumes "\<not> (0 \<le> y \<and> y \<le> 9999)"
  shows "parse_date (four y @ CHR ''-'' # s) = None"
proof (cases "y < 0")
  case True
  then show ?thesis by (simp add: parse_date_def parse_year_def four_def is_digit_def less_eq_char_def)
next
  case False
  let ?ds = "nat_digits (nat y)"
  have "5 \<le> length ?ds" using length_nat_digits_ge [of 4 "nat y"] False assms by simp
  then have f: "four y = ?ds" "5 \<le> length (four y)" using False by (simp_all add: four_def pad_left_def)
  then have "drop 4 (four y) = (four y ! 4) # drop 5 (four y)"
    by (simp add: Cons_nth_drop_Suc [symmetric])
  moreover have "is_digit (four y ! 4)"
    using f nat_digits_digits [of "nat y"] by (simp add: list_all_length)
  ultimately show ?thesis
    using f by (auto simp: parse_date_def parse_year_def expect_def is_digit_def less_eq_char_def)
qed

lemma parse_fraction_nine:
  assumes "n < 10 ^ 9"
  shows "parse_fraction (''.'' @ pad_left 9 (nat_digits n) @ ''Z'') = (n, ''Z'')"
proof -
  let ?ds = "pad_left 9 (nat_digits n)"
  have len: "length ?ds = 9" using assms by (intro pad_length) auto
  then obtain d r where dr: "?ds = d # r" by (cases ?ds) auto
  have all: "list_all is_digit ?ds" by (rule pad_digits)
  then have "takeWhile is_digit (?ds @ ''Z'') = ?ds"
    by (simp add: takeWhile_append2 list_all_iff is_digit_def less_eq_char_def)
  then show ?thesis
    using all len pad_value [of 9 n] unfolding dr by (simp add: parse_fraction_def)
qed

lemma parse_format_canonical:
  assumes "valid_datetime t"
  shows "parse_rfc3339 (format_canonical t) = (if 0 \<le> year t \<and> year t \<le> 9999 then Some t else None)"
proof (cases "0 \<le> year t \<and> year t \<le> 9999")
  case False
  then show ?thesis
    by (auto simp: parse_date_out [OF False] parse_rfc3339_def format_canonical_def format_seconds_def format_date_def)
next
  case True
  have m: "month t < 100" "day t < 100" "hour t < 100" "minute t < 100" "second t < 100"
    using assms days_in_def [of "month t" "year t"] by (auto simp: valid_datetime_def split: if_splits)
  have c: "parse_clock (two (hour t) @ '':'' @ two (minute t) @ '':'' @ two (second t) @ ''.''
      @ pad_left 9 (nat_digits (nanos t)) @ ''Z'') = Some ((hour t, minute t, second t, nanos t), ''Z'')"
    using m assms parse_fraction_nine [of "nanos t"]
    by (simp add: parse_clock_def getnum_two expect_def valid_datetime_def)
  have d: "parse_date (format_date t @ s) = Some ((year t, month t, day t), s)" for s
    using m assms True
    by (simp add: parse_date_def format_date_def parse_year_four getnum_two expect_def valid_datetime_def)
  show ?thesis
    using True c d
    by (simp add: parse_rfc3339_def format_canonical_def format_seconds_def expect_def parse_zone_def
        add_minutes_def)
qed

lemma digits_value_bound: "list_all is_digit s \<Longrightarrow> digits_value s < 10 ^ length s"
proof (induction s rule: rev_induct)
  case (snoc c s)
  then have "digit_value c < 10" by (auto simp: digit_value_def is_digit_byte)
  with snoc show ?case by (simp add: digits_value_snoc)
qed (simp add: digits_value_def)

lemma parse_fraction_bound: "fst (parse_fraction s) < 10 ^ 9"
proof -
  have "digits_value (take 9 ds) * 10 ^ (9 - length (take 9 ds)) < 10 ^ 9"
    if "list_all is_digit ds" for ds
  proof -
    have "digits_value (take 9 ds) < 10 ^ length (take 9 ds)"
      using that by (intro digits_value_bound) (auto simp: list_all_iff dest: in_set_takeD)
    then have "digits_value (take 9 ds) * 10 ^ (9 - length (take 9 ds))
        < 10 ^ length (take 9 ds) * 10 ^ (9 - length (take 9 ds))" by simp
    also have "\<dots> = 10 ^ 9" by (simp flip: power_add)
    finally show ?thesis .
  qed
  moreover have "list_all is_digit (takeWhile is_digit r)" for r
    by (auto simp: list_all_iff dest: set_takeWhileD)
  moreover have "parse_fraction s = (0, s) \<or>
      (\<exists>r. fst (parse_fraction s) = digits_value (take 9 (takeWhile is_digit r))
         * 10 ^ (9 - length (take 9 (takeWhile is_digit r))))"
    by (cases s; cases "tl s") (auto simp only: parse_fraction_def Let_def list.case fst_conv list.sel split: if_split)
  ultimately show ?thesis by (metis fst_conv zero_less_numeral zero_less_power)
qed

lemma parse_date_valid:
  "parse_date s = Some ((y, mo, d), r) \<Longrightarrow> 1 \<le> mo \<and> mo \<le> 12 \<and> 1 \<le> d \<and> d \<le> days_in mo y"
  unfolding parse_date_def by (auto simp: bind_eq_Some_conv split: if_splits prod.splits)

lemma parse_clock_valid:
  "parse_clock s = Some ((h, mi, sec, ns), r) \<Longrightarrow> h < 24 \<and> mi < 60 \<and> sec < 60 \<and> ns < 10 ^ 9"
  unfolding parse_clock_def using parse_fraction_bound
  by (auto simp: bind_eq_Some_conv split: if_splits prod.splits) (metis fst_conv)

lemma parse_rfc3339_valid: "parse_rfc3339 s = Some t \<Longrightarrow> valid_datetime t"
proof -
  assume "parse_rfc3339 s = Some t"
  then obtain y mo d h mi sec ns s1 s2 s3 s4 z where
    date: "parse_date s = Some ((y, mo, d), s1)" and
    clock: "parse_clock s2 = Some ((h, mi, sec, ns), s3)" and
    t: "t = add_minutes (- z) \<lparr>year = y, month = mo, day = d, hour = h, minute = mi, second = sec, nanos = ns\<rparr>"
    unfolding parse_rfc3339_def by (auto simp: bind_eq_Some_conv split: if_splits)
  show ?thesis unfolding t
    using parse_date_valid [OF date] parse_clock_valid [OF clock]
    by (intro add_minutes_valid) (simp add: valid_datetime_def)
qed

end
