(* ===== verification/NormalizeBase.thy ===== *)
theory NormalizeBase
  imports Domain GoTime Sha256
begin

text \<open>
  \<open>internal/normalize/helpers.go\<close>: what every harness's normalizer is built from.  A source is the files
  of the staged directory, a map from names to contents, read under a byte budget; a record is a
  decoded JSON line with its place.  The readers of JSON values (\<open>object\<close>, \<open>stringValue\<close>, ...) take
  nil for anything of another kind, as the type assertions of the code do.  The context is never
  cancelled here.
\<close>

type_synonym source = "string \<rightharpoonup> string"

definition maxSourceBytes :: nat where "maxSourceBytes = 64 * 2 ^ 20"

subsection \<open>Reading under a budget\<close>

text \<open>\<open>limitedFS\<close>: the bytes that may still be read, shared by all files it opens.\<close>

record limitedFS =
  lf_source :: source
  lf_remaining :: nat

definition newLimitedFS :: "source \<Rightarrow> nat \<Rightarrow> limitedFS" where
  "newLimitedFS s limit = \<lparr>lf_source = s, lf_remaining = limit\<rparr>"

definition Open :: "limitedFS \<Rightarrow> string \<Rightarrow> string result" where
  "Open input name =
     (case lf_source input name of
        None \<Rightarrow> Inl ''file does not exist''
      | Some content \<Rightarrow>
          (if lf_remaining input < length content then Inl ''normalization source exceeds its byte limit''
           else Inr content))"

text \<open>\<open>limitedFile.Read\<close> with a buffer of \<open>n\<close> bytes when \<open>rest\<close> is still unread: what it returns, the budget
  afterwards and what is left.  With no budget left it probes for one byte.\<close>

definition limitedRead :: "nat \<Rightarrow> nat \<Rightarrow> string \<Rightarrow> string result \<times> nat \<times> string" where
  "limitedRead remaining n rest =
     (if remaining = 0 then
        (if rest \<noteq> [] then (Inl ''normalization source exceeds its byte limit'', 0, drop 1 rest) else (Inr [], 0, []))
      else let got = take (min n remaining) rest
           in (Inr got, remaining - length got, drop (length got) rest))"

text \<open>Reading a whole opened file in buffers of some size: the loop of the standard library's \<open>fs.ReadFile\<close>, of
  which the code relies on no more than that it reads until the end or an error.  A file does not change while it is read, so
  that after \<open>Open\<close> has let it through its size is within the budget and the error of \<open>limitedRead\<close> does not occur.\<close>

function readAll :: "nat \<Rightarrow> nat \<Rightarrow> string \<Rightarrow> string result \<times> nat" where
  "readAll n remaining rest =
     (if n = 0 \<or> rest = [] then (Inr [], remaining)
      else case limitedRead remaining n rest of
             (Inl e, r, _) \<Rightarrow> (Inl e, r)
           | (Inr got, r, rest') \<Rightarrow>
               (if got = [] then (Inr [], r)
                else case readAll n r rest' of (Inl e, r') \<Rightarrow> (Inl e, r') | (Inr later, r') \<Rightarrow> (Inr (got @ later), r')))"
  by pat_completeness auto
termination
  by (relation "measure (\<lambda>(n, remaining, rest). length rest)")
    (auto simp: limitedRead_def Let_def split: if_splits)

declare readAll.simps [simp del]

text \<open>\<open>fs.ReadFile\<close>: open, then read to the end.\<close>

definition ReadFile :: "limitedFS \<Rightarrow> string \<Rightarrow> string result \<times> limitedFS" where
  "ReadFile input name =
     (case Open input name of
        Inl e \<Rightarrow> (Inl e, input)
      | Inr content \<Rightarrow> (case readAll 512 (lf_remaining input) content of
                        (r, remaining) \<Rightarrow> (r, input\<lparr>lf_remaining := remaining\<rparr>)))"

text \<open>The budget is never exceeded: what a read returned is what it took from the budget.\<close>

lemma readAll_budget:
  "readAll n remaining rest = (Inr got, r) \<Longrightarrow> length got + r = remaining \<and> prefix got rest"
proof (induction n remaining rest arbitrary: got r rule: readAll.induct)
  case (1 n remaining rest)
  show ?case
  proof (cases "n = 0 \<or> rest = [] \<or> remaining = 0")
    case True
    with "1.prems" show ?thesis
      by (auto simp: readAll.simps [of n] limitedRead_def split: if_splits)
  next
    case False
    define g where "g = take (min n remaining) rest"
    define r1 where "r1 = remaining - length g"
    define rest1 where "rest1 = drop (length g) rest"
    have l: "limitedRead remaining n rest = (Inr g, r1, rest1)" "g \<noteq> []"
      using False by (simp_all add: limitedRead_def Let_def g_def r1_def rest1_def)
    have "length g \<le> remaining" by (simp add: g_def)
    moreover have "g = take (length g) rest"
      unfolding g_def by (metis length_take take_take min.commute take_all_iff order_refl)
    ultimately have b: "length g + r1 = remaining" "rest = g @ rest1"
      unfolding r1_def rest1_def by (simp, metis append_take_drop_id)
    have "readAll n remaining rest =
        (case readAll n r1 rest1 of (Inl e, r') \<Rightarrow> (Inl e, r') | (Inr later, r') \<Rightarrow> (Inr (g @ later), r'))"
      using False l by (subst readAll.simps) simp
    with "1.prems" obtain later where later: "readAll n r1 rest1 = (Inr later, r)" "got = g @ later"
      by (auto split: sum.splits prod.splits)
    have "length later + r = r1 \<and> prefix later rest1"
      using "1.IH" [OF _ l(1) [symmetric] refl refl l(2) later(1)] False by simp
    then show ?thesis using b later(2) by simp
  qed
qed

subsection \<open>JSON lines\<close>

record sourceRecord =
  rec_Value :: json
  rec_Path :: string
  rec_Line :: int

text \<open>\<open>bufio.Scanner\<close> with its line splitter: lines without their end, and whether a line did not fit the
  buffer, which ends the scan with an error.\<close>

definition strip_cr :: "string \<Rightarrow> string" where
  "strip_cr l = TrimSuffix l [CHR 0x0D]"

definition raw_lines :: "string \<Rightarrow> string list" where
  "raw_lines s = (let ls = Split (CHR 0x0A) s in if last ls = [] then butlast ls else ls)"

fun scan_lines :: "string list \<Rightarrow> string list \<times> bool" where
  "scan_lines [] = ([], False)"
| "scan_lines (l # ls) =
     (if maxSourceBytes \<le> length l then ([], True)
      else case scan_lines ls of (ks, long) \<Rightarrow> (strip_cr l # ks, long))"

definition warning :: "string \<Rightarrow> string \<Rightarrow> Warning" where
  "warning code message = \<lparr>w_Code = code, w_Message = message\<rparr>"

fun decode_lines :: "string \<Rightarrow> nat \<Rightarrow> string list \<Rightarrow> sourceRecord list \<times> Warning list" where
  "decode_lines path n [] = ([], [])"
| "decode_lines path n (l # ls) =
     (case decode_lines path (Suc n) ls of
        (records, warnings) \<Rightarrow>
          (if TrimSpace l = [] then (records, warnings)
           else case unmarshal_map l of
                  None \<Rightarrow> (records, warning ''malformed_record''
                      (path @ '' line '' @ nat_digits (Suc n) @ '' is not valid JSON'') # warnings)
                | Some v \<Rightarrow> (\<lparr>rec_Value = v, rec_Path = path, rec_Line = int (Suc n)\<rparr> # records, warnings)))"

definition readJSONL :: "limitedFS \<Rightarrow> string \<Rightarrow> (sourceRecord list \<times> Warning list) result \<times> limitedFS" where
  "readJSONL input path =
     (case ReadFile input path of
        (Inl e, input') \<Rightarrow> (Inl e, input')
      | (Inr content, input') \<Rightarrow>
          (case scan_lines (raw_lines content) of
             (ls, True) \<Rightarrow> (Inl ''bufio.Scanner: token too long'', input')
           | (ls, False) \<Rightarrow> (Inr (decode_lines path 0 ls), input')))"

definition readJSON :: "limitedFS \<Rightarrow> string \<Rightarrow> json result \<times> limitedFS" where
  "readJSON input path =
     (case ReadFile input path of
        (Inl e, input') \<Rightarrow> (Inl e, input')
      | (Inr content, input') \<Rightarrow>
          (case unmarshal_map content of
             None \<Rightarrow> (Inl (''parse '' @ path), input')
           | Some v \<Rightarrow> (Inr v, input')))"

subsection \<open>Reading values\<close>

definition object :: "json \<Rightarrow> json" where
  "object v = (case v of JObj m \<Rightarrow> JObj m | _ \<Rightarrow> JNull)"

definition objects :: "json \<Rightarrow> json list" where
  "objects v = (case v of JArr vs \<Rightarrow> filter (\<lambda>x. x \<noteq> JNull) (map object vs) | _ \<Rightarrow> [])"

definition stringValue :: "json \<Rightarrow> string" where
  "stringValue v = (case v of JStr s \<Rightarrow> s | _ \<Rightarrow> [])"

definition numberString :: "json \<Rightarrow> string" where
  "numberString v = (case v of JStr s \<Rightarrow> s | JNum m e \<Rightarrow> format_plain m e | _ \<Rightarrow> [])"

definition timestamp :: "json \<Rightarrow> string" where
  "timestamp v = (case v of
      JStr s \<Rightarrow> s
    | JNum m e \<Rightarrow>
        (let seconds = to_int64 m e
         in if 10000000000 < seconds then format_nano (UnixMilli seconds) else format_nano (UnixNano seconds 0))
    | _ \<Rightarrow> [])"

fun firstString :: "json \<Rightarrow> string list \<Rightarrow> string" where
  "firstString v [] = []"
| "firstString v (k # ks) = (let s = stringValue (get v k) in if s \<noteq> [] then s else firstString v ks)"

fun firstValue :: "json \<Rightarrow> string list \<Rightarrow> json" where
  "firstValue v [] = JNull"
| "firstValue v (k # ks) = (if get v k \<noteq> JNull then get v k else firstValue v ks)"

fun firstNonEmpty :: "string list \<Rightarrow> string" where
  "firstNonEmpty [] = []"
| "firstNonEmpty (s # ss) = (if s \<noteq> [] then s else firstNonEmpty ss)"

text \<open>\<open>wholeNumber\<close>: the number as an \<open>int\<close> when it has no fraction.\<close>

definition wholeNumber :: "json \<Rightarrow> int option" where
  "wholeNumber v = (case v of JNum m e \<Rightarrow> if jint (to_int64 m e) = JNum m e then Some (to_int64 m e) else None
                    | _ \<Rightarrow> None)"

definition indexedID :: "string \<Rightarrow> nat \<Rightarrow> string" where
  "indexedID ident index = (if ident = [] then [] else ident @ '':'' @ nat_digits index)"

definition source_ref :: "string \<Rightarrow> int \<Rightarrow> SourceRef list" where
  "source_ref path line = [\<lparr>s_Path = path, s_Line = line\<rparr>]"

definition unknown :: "sourceRecord \<Rightarrow> string \<Rightarrow> Warning" where
  "unknown r detail = warning ''unsupported_record''
     (rec_Path r @ '' line '' @ Itoa (rec_Line r) @ '': '' @ detail)"

definition nativeKey :: "string \<Rightarrow> string \<Rightarrow> json \<Rightarrow> string" where
  "nativeKey kind ident val =
     (if ident \<noteq> [] then kind @ '':'' @ ident
      else kind @ '':sha256:'' @ sha256_hex (kind @ nul @ Marshal val))"

lemma nativeKey_nonempty [simp]: "nativeKey kind ident val \<noteq> []"
  by (simp add: nativeKey_def)

subsection \<open>Searchable text\<close>

definition binaryField :: "string \<Rightarrow> bool" where
  "binaryField key \<longleftrightarrow> ToLower key \<in> {''base64'', ''blob'', ''bytes'', ''encryptedcontent''}"

definition data_url :: "string \<Rightarrow> bool" where
  "data_url s \<longleftrightarrow> prefix ''data:'' (ToLower s) \<and> Contains s '';base64,''"

definition encoded_data :: "json \<Rightarrow> bool" where
  "encoded_data v \<longleftrightarrow>
     EqualFold (stringValue (get v ''type'')) ''base64'' \<or> EqualFold (stringValue (get v ''encoding'')) ''base64''"

fun searchableValue :: "string \<Rightarrow> json \<Rightarrow> json" where
  "searchableValue key (JStr s) = (if binaryField key \<or> data_url s then JNull else JStr s)"
| "searchableValue key (JArr vs) = JArr (filter (\<lambda>x. x \<noteq> JNull) (map (searchableValue []) vs))"
| "searchableValue key (JObj m) =
     JObj (filter (\<lambda>kv. snd kv \<noteq> JNull \<and> \<not> (encoded_data (JObj m) \<and> EqualFold (fst kv) ''data''))
             (map (\<lambda>kv. (fst kv, searchableValue (fst kv) (snd kv))) m))"
| "searchableValue key v = v"

definition readableJSON :: "json \<Rightarrow> string" where
  "readableJSON v = (if v = JNull then [] else Marshal (searchableValue [] v))"

text \<open>Elements joined by a newline, empty ones left out.\<close>

definition join_nonempty :: "string \<Rightarrow> string list \<Rightarrow> string" where
  "join_nonempty sep parts = Join (filter (\<lambda>s. s \<noteq> []) parts) sep"

definition text_keys :: "string list" where
  "text_keys = [''text'', ''thinking'', ''content'', ''output'', ''result'', ''error'', ''summary'', ''title'']"

lemma size_map_of: "map_of m k = Some (x :: json) \<Longrightarrow> size x < Suc (size_list (size_prod (\<lambda>x. 0) size) m)"
  by (induction m) (auto split: if_splits)

function contentText :: "json \<Rightarrow> string" where
  "contentText v = (case v of
      JStr s \<Rightarrow> (if searchableValue [] (JStr s) = JNull then [] else s)
    | JArr vs \<Rightarrow> join_nonempty newline (map contentText vs)
    | JObj m \<Rightarrow> join_nonempty newline
        (map (\<lambda>k. case map_of m k of None \<Rightarrow> [] | Some x \<Rightarrow> contentText x) text_keys)
    | _ \<Rightarrow> [])"
  by pat_completeness auto

termination
  by (relation "measure size")
    (auto dest: size_map_of simp: size_list_estimation' less_Suc_eq_le intro: size_list_estimation')

declare contentText.simps [simp del]

text \<open>Indexing a Go map of strings: the empty string for an absent key.\<close>

definition lookup :: "(string \<times> string) list \<Rightarrow> string \<Rightarrow> string" where
  "lookup m k = (case map_of m k of Some v \<Rightarrow> v | None \<Rightarrow> [])"

subsection \<open>Results\<close>

definition complete :: "Event list \<Rightarrow> Warning list \<Rightarrow> Normalization" where
  "complete events warnings =
     (let status = (if warnings \<noteq> [] then ''partially_parsed'' else ''normalized'');
          status = (if events = [] then ''unsupported'' else status)
      in zero_Normalization\<lparr>n_Status := status, n_Events := events, n_Warnings := warnings\<rparr>)"

text \<open>The loop of \<open>chainInFileOrder\<close>: the parents given so far, by key, and the key before.\<close>

fun chain_from :: "(string \<times> string) list \<Rightarrow> string \<Rightarrow> Event list \<Rightarrow> Event list" where
  "chain_from parents previous [] = []"
| "chain_from parents previous (e # es) =
     (case map_of parents (e_Key e) of
        Some parent \<Rightarrow> e\<lparr>e_ParentKey := parent\<rparr> # chain_from parents previous es
      | None \<Rightarrow>
          (let e' = (if e_ParentKey e = [] then e\<lparr>e_ParentKey := previous\<rparr> else e)
           in e' # chain_from ((e_Key e, e_ParentKey e') # parents) (e_Key e) es))"

definition chainInFileOrder :: "Event list \<Rightarrow> Event list" where
  "chainInFileOrder events = chain_from [] [] events"

text \<open>What the store requires of every event, and what the status says of a result.\<close>

definition keyed :: "Event \<Rightarrow> bool" where
  "keyed e \<longleftrightarrow> e_Key e \<noteq> []"

definition status_of :: "Event list \<Rightarrow> Warning list \<Rightarrow> string" where
  "status_of es ws = (if es = [] then ''unsupported'' else if ws \<noteq> [] then ''partially_parsed'' else ''normalized'')"

lemma complete_simps [simp]:
  "n_Events (complete es ws) = es" "n_Warnings (complete es ws) = ws" "n_Title (complete es ws) = []"
  "n_Status (complete es ws) = status_of es ws"
  by (simp_all add: complete_def status_of_def zero_Normalization_def Let_def)

lemma chain_from_keys: "map e_Key (chain_from parents previous es) = map e_Key es"
  by (induction parents previous es rule: chain_from.induct) (auto simp: Let_def split: option.splits)

lemma keyed_keys: "list_all keyed es \<longleftrightarrow> [] \<notin> set (map e_Key es)"
  by (induction es) (auto simp: keyed_def)

lemma keyed_chain [simp]: "list_all keyed (chainInFileOrder es) = list_all keyed es"
  by (simp only: keyed_keys chainInFileOrder_def chain_from_keys)

end
