(* ===== verification/NormalizePi.thy ===== *)
theory NormalizePi
  imports NormalizeBase
begin

text \<open>
  \<open>internal/normalize/pi.go\<close>: Pi sessions.  A session is a header line and entries that name their parent, so
  the entries are ordered by a depth-first walk of the parent graph (\<open>orderPiEntries\<close>), which
  also says which model was current at each; every entry then gives its events
  (\<open>decodePiRecord\<close>), whose parent is the first event of the parent entry.
\<close>

record piEntry =
  pi_record :: sourceRecord
  pi_id :: string
  pi_parentID :: string
  pi_model :: string
  pi_provider :: string

record piModelContext =
  pc_model :: string
  pc_provider :: string

definition no_context :: piModelContext where
  "no_context = \<lparr>pc_model = [], pc_provider = []\<rparr>"

subsection \<open>The parent graph\<close>

text \<open>The first loop: entries by id, the first one of each.\<close>

definition pi_entry :: "sourceRecord \<Rightarrow> piEntry" where
  "pi_entry r = \<lparr>pi_record = r, pi_id = stringValue (get (rec_Value r) ''id''),
     pi_parentID = stringValue (get (rec_Value r) ''parentId''), pi_model = [], pi_provider = []\<rparr>"

fun collect_pi ::
  "sourceRecord list \<Rightarrow> (string \<times> piEntry) list \<Rightarrow> Warning list \<Rightarrow> (string \<times> piEntry) list \<times> Warning list" where
  "collect_pi [] table warnings = (table, warnings)"
| "collect_pi (r # rs) table warnings =
     (let ident = stringValue (get (rec_Value r) ''id'')
      in if stringValue (get (rec_Value r) ''type'') = ''session'' \<and> get (rec_Value r) ''parentId'' = JNull
           then collect_pi rs table warnings
         else if ident = [] then collect_pi rs table (warnings @ [unknown r ''entry has no native id''])
         else case map_of table ident of
                Some previous \<Rightarrow>
                  collect_pi rs table (warnings @ [warning ''duplicate_native_id''
                    (rec_Path r @ '' line '' @ Itoa (rec_Line r) @ '' duplicates Pi entry '' @ ident
                     @ '' from line '' @ Itoa (rec_Line (pi_record previous)))])
              | None \<Rightarrow> collect_pi rs (table @ [(ident, pi_entry r)]) warnings)"

text \<open>The walk.  \<open>path\<close> is the ids in state 1, innermost first, and \<open>seen\<close> those in state 2; the state of
  the code is both and what it appended.  A parent is visited before its child.  The first
  argument bounds the recursion; the path never repeats an id, so the number of entries is
  enough.\<close>

record piWalk =
  pw_done :: "string list"
  pw_ordered :: "piEntry list"
  pw_warnings :: "Warning list"

definition finish_visit :: "string \<Rightarrow> piEntry \<Rightarrow> piWalk \<Rightarrow> piWalk" where
  "finish_visit ident entry w = w\<lparr>pw_done := ident # pw_done w, pw_ordered := pw_ordered w @ [entry]\<rparr>"

fun visit_pi :: "nat \<Rightarrow> (string \<times> piEntry) list \<Rightarrow> string list \<Rightarrow> string \<Rightarrow> piWalk \<Rightarrow> piWalk" where
  "visit_pi 0 table path ident w = w"
| "visit_pi (Suc n) table path ident w =
     (if ident \<in> set (pw_done w) then w
      else if ident \<in> set path then
        w\<lparr>pw_warnings := pw_warnings w @ [warning ''invalid_parent_graph''
            (''Pi entry '' @ ident @ '' is in a parent cycle'')]\<rparr>
      else case map_of table ident of
             None \<Rightarrow> w
           | Some entry \<Rightarrow>
               finish_visit ident entry
                 (if pi_parentID entry = [] then w
                  else if map_of table (pi_parentID entry) \<noteq> None
                    then visit_pi n table (ident # path) (pi_parentID entry) w
                  else w\<lparr>pw_warnings := pw_warnings w @ [warning ''missing_parent''
                    (''Pi entry '' @ ident @ '' references missing parent '' @ pi_parentID entry)]\<rparr>))"

definition visit_all :: "(string \<times> piEntry) list \<Rightarrow> string list \<Rightarrow> piWalk \<Rightarrow> piWalk" where
  "visit_all table ids w = foldl (\<lambda>w ident. visit_pi (Suc (length table)) table [] ident w) w ids"

text \<open>The models, inherited along the parents in the walk's order.\<close>

fun assign_models :: "(string \<times> piModelContext) list \<Rightarrow> piEntry list \<Rightarrow> piEntry list" where
  "assign_models contexts [] = []"
| "assign_models contexts (e # es) =
     (let inherited = (case map_of contexts (pi_parentID e) of Some c \<Rightarrow> c | None \<Rightarrow> no_context);
          v = rec_Value (pi_record e);
          model = (if stringValue (get v ''type'') = ''model_change''
                   then \<lparr>pc_model = stringValue (get v ''modelId''), pc_provider = stringValue (get v ''provider'')\<rparr>
                   else inherited)
      in e\<lparr>pi_model := pc_model model, pi_provider := pc_provider model\<rparr>
         # assign_models ((pi_id e, model) # contexts) es)"

definition orderPiEntries :: "sourceRecord list \<Rightarrow> piEntry list \<times> Warning list" where
  "orderPiEntries records =
     (case collect_pi records [] [] of
        (table, warnings) \<Rightarrow>
          (let w = visit_all table (sort (map fst table))
                     \<lparr>pw_done = [], pw_ordered = [], pw_warnings = warnings\<rparr>
           in (assign_models [] (pw_ordered w), pw_warnings w)))"

subsection \<open>Entries to events\<close>

definition pi_base :: "piEntry \<Rightarrow> Event" where
  "pi_base e = zero_Event\<lparr>e_Model := pi_model e, e_Provider := pi_provider e,
     e_Timestamp := timestamp (get (rec_Value (pi_record e)) ''timestamp''),
     e_Sources := source_ref (rec_Path (pi_record e)) (rec_Line (pi_record e))\<rparr>"

definition piSystemSectionOrder :: "string list" where
  "piSystemSectionOrder =
     [''preamble'', ''tools'', ''rules'', ''docs'', ''addendum'', ''skills'', ''cwd'', ''mcp_servers'']"

definition pi_tool_names :: "json \<Rightarrow> string list" where
  "pi_tool_names v = filter (\<lambda>s. s \<noteq> []) (map (\<lambda>t. stringValue (get t ''name'')) (objects v))"

definition piSystemPrompt :: "json \<Rightarrow> string" where
  "piSystemPrompt message =
     (let sections = object (get message ''sections'');
          names = sort (filter (\<lambda>n. n \<notin> set piSystemSectionOrder) (map fst (entries sections)));
          present = filter (has_key sections) (piSystemSectionOrder @ names);
          body = (\<lambda>n. TrimSpace (stringValue (get sections n)));
          parts = filter (\<lambda>s. s \<noteq> []) (map body present);
          cleared = filter (\<lambda>n. body n = []) present;
          change = (\<lambda>field label. let ts = pi_tool_names (get message field)
                                   in if ts = [] then [] else [label @ Join ts '', ''])
      in Join (parts
           @ (if cleared = [] then [] else [''Cleared sections: '' @ Join cleared '', ''])
           @ change ''toolsAdded'' ''Tools added: '' @ change ''toolsRemoved'' ''Tools removed: '')
         (newline @ newline))"

definition exit_run :: "json \<Rightarrow> string \<Rightarrow> (string \<times> json) list" where
  "exit_run code status =
     (case wholeNumber code of
        None \<Rightarrow> [(''status'', JStr status)]
      | Some c \<Rightarrow> [(''result'', mk_obj [(''exitCode'', jint c)]),
                   (''status'', JStr (if c \<noteq> 0 then ''error'' else status))])"

definition piBashExecution :: "Event \<Rightarrow> string \<Rightarrow> json \<Rightarrow> json \<Rightarrow> Event list" where
  "piBashExecution base ident value message =
     (let call = base\<lparr>e_Kind := ''tool_call'', e_Role := ''user'', e_Tool := ''bash'', e_CallID := ''bash:'' @ ident,
            e_Text := readableJSON (mk_obj [(''command'', JStr (stringValue (get message ''command'')))]),
            e_Key := nativeKey ''tool_call'' (indexedID ident 0) value,
            e_LegacyKeys := [nativeKey ''message'' ident value]\<rparr>;
          run = exit_run (get message ''exitCode'') ''done'';
          run = (if get message ''cancelled'' = JBool True then run @ [(''status'', JStr ''cancelled'')] else run);
          result = base\<lparr>e_Kind := ''tool_result'', e_Role := ''user'', e_Tool := ''bash'', e_CallID := e_CallID call,
            e_Text := stringValue (get message ''output''),
            e_Key := nativeKey ''tool_result'' (indexedID ident 1) value,
            e_Metadata := Marshal (mk_obj [(''run'', mk_obj run)])\<rparr>
      in [call, result])"

text \<open>One content block of a message; blocks of an unknown type are only warned about.\<close>

definition pi_block :: "piEntry \<Rightarrow> Event \<Rightarrow> string \<Rightarrow> json \<Rightarrow> nat \<Rightarrow> json \<Rightarrow> Event option" where
  "pi_block e base role message index raw =
     (let block = object raw;
          event = base\<lparr>e_Role := role\<rparr>;
          kind = stringValue (get block ''type'');
          filled =
            (if role = ''toolResult'' then
               Some (event\<lparr>e_Kind := ''tool_result'', e_Text := contentText block,
                 e_CallID := stringValue (get message ''toolCallId''), e_Tool := stringValue (get message ''toolName'')\<rparr>)
             else if kind = ''text'' then
               Some (event\<lparr>e_Kind := ''message'', e_Text := stringValue (get block ''text'')\<rparr>)
             else if kind = ''thinking'' then
               Some (event\<lparr>e_Kind := ''reasoning'', e_Text := stringValue (get block ''thinking'')\<rparr>)
             else if kind = ''toolCall'' then
               Some (event\<lparr>e_Kind := ''tool_call'', e_Tool := stringValue (get block ''name''),
                 e_CallID := stringValue (get block ''id''), e_Text := readableJSON (get block ''arguments'')\<rparr>)
             else if kind = ''image'' then
               Some (event\<lparr>e_Kind := ''attachment'', e_Attachments := [zero_Attachment
                 \<lparr>a_Name := stringValue (get block ''name''), a_MediaType := firstString block [''mimeType'', ''mediaType''],
                  a_Path := stringValue (get block ''path''), a_URL := stringValue (get block ''url'')\<rparr>]\<rparr>)
             else None)
      in map_option (\<lambda>ev. ev\<lparr>e_Key := nativeKey (e_Kind ev) (indexedID (pi_id e) index) block\<rparr>) filled)"

fun pi_blocks ::
  "piEntry \<Rightarrow> Event \<Rightarrow> string \<Rightarrow> json \<Rightarrow> nat \<Rightarrow> json list \<Rightarrow> Event list \<times> Warning list" where
  "pi_blocks e base role message index [] = ([], [])"
| "pi_blocks e base role message index (raw # raws) =
     (case pi_blocks e base role message (Suc index) raws of
        (events, warnings) \<Rightarrow>
          (case pi_block e base role message index raw of
             Some ev \<Rightarrow> (ev # events, warnings)
           | None \<Rightarrow> (events, unknown (pi_record e)
               (''unknown Pi message content '' @ stringValue (get (object raw) ''type'')) # warnings)))"

text \<open>The entry types other than \<open>message\<close>.\<close>

definition pi_other :: "piEntry \<Rightarrow> Event \<Rightarrow> json \<Rightarrow> string \<Rightarrow> Event option" where
  "pi_other e base value kind =
     (let event = base\<lparr>e_Kind := kind, e_Key := nativeKey kind (pi_id e) value\<rparr>
      in if kind = ''model_change'' then Some (event\<lparr>e_Text := e_Provider event @ ''/'' @ e_Model event\<rparr>)
         else if kind = ''compaction'' then Some (event\<lparr>e_Text := stringValue (get value ''summary'')\<rparr>)
         else if kind = ''branch_summary'' then
           Some (event\<lparr>e_Text := stringValue (get value ''summary''), e_Branch := stringValue (get value ''fromId'')\<rparr>)
         else if kind \<in> {''thinking_level_change'', ''custom_message'', ''session_info'', ''label''} then
           Some (event\<lparr>e_Text := contentText value\<rparr>)
         else if kind = ''custom'' then Some (event\<lparr>e_Text := stringValue (get value ''customType'')\<rparr>)
         else if kind = ''context_edit'' then Some (event\<lparr>e_Text := contentText (get value ''replacement'')\<rparr>)
         else None)"

text \<open>A failed or aborted reply keeps why it stopped, and one event even without content.\<close>

definition pi_stopped :: "json \<Rightarrow> string \<Rightarrow> bool" where
  "pi_stopped message role \<longleftrightarrow> role = ''assistant'' \<and>
     (stringValue (get message ''errorMessage'') \<noteq> [] \<or>
      stringValue (get message ''stopReason'') \<notin> {[], ''stop'', ''toolUse''})"

definition pi_stop_state :: "json \<Rightarrow> string" where
  "pi_stop_state message =
     (let reason = stringValue (get message ''stopReason''); err = stringValue (get message ''errorMessage'');
          state = (''stopReason'', JStr (if reason = [] then ''error'' else reason))
                  # (if err \<noteq> [] then [(''errorMessage'', JStr err)] else [])
      in Marshal (mk_obj [(''state'', mk_obj state)]))"

definition decodePiRecord :: "piEntry \<Rightarrow> Event list \<times> Warning list" where
  "decodePiRecord e =
     (let value = rec_Value (pi_record e); kind = stringValue (get value ''type''); base = pi_base e
      in if kind \<noteq> ''message'' then
           (case pi_other e base value kind of
              Some ev \<Rightarrow> ([ev], [])
            | None \<Rightarrow> ([], [unknown (pi_record e) (''unknown Pi entry type '' @ kind)]))
         else
           let message = object (get value ''message'');
               role = stringValue (get message ''role'');
               model = stringValue (get message ''model''); provider = stringValue (get message ''provider'');
               base = (if model \<noteq> [] then base\<lparr>e_Model := model\<rparr> else base);
               base = (if provider \<noteq> [] then base\<lparr>e_Provider := provider\<rparr> else base)
           in if role = ''bashExecution'' then (piBashExecution base (pi_id e) value message, [])
              else (case get message ''content'' of
                JArr content \<Rightarrow>
                  (if pi_stopped message role
                   then pi_blocks e (base\<lparr>e_Metadata := pi_stop_state message\<rparr>) role message 0
                     (if content = [] then [mk_obj [(''type'', JStr ''text''), (''text'', JStr [])]] else content)
                   else pi_blocks e base role message 0 content)
              | content \<Rightarrow>
                  (if role = ''system'' \<and> contentText content = [] then
                     ([base\<lparr>e_Kind := ''message'', e_Role := role, e_Text := piSystemPrompt message,
                        e_Key := nativeKey ''message'' (pi_id e) value\<rparr>], [])
                   else
                     let callID = stringValue (get message ''toolCallId'');
                         k = (if role = ''toolResult'' \<or> callID \<noteq> [] then ''tool_result'' else ''message'')
                     in ([base\<lparr>e_Kind := k, e_Role := role, e_Text := contentText content, e_CallID := callID,
                            e_Tool := stringValue (get message ''toolName''),
                            e_Key := nativeKey k (pi_id e) value\<rparr>], []))))"

definition pi_decoded :: "piEntry list \<Rightarrow> (piEntry \<times> Event list) list" where
  "pi_decoded es = map (\<lambda>e. (e, fst (decodePiRecord e))) es"

definition primary_keys :: "(piEntry \<times> Event list) list \<Rightarrow> (string \<times> string) list" where
  "primary_keys ds = map (\<lambda>(e, evs). (pi_id e, e_Key (hd evs))) (filter (\<lambda>(e, evs). evs \<noteq> []) ds)"

definition pi_events :: "piEntry list \<Rightarrow> Event list" where
  "pi_events es =
     (let ds = pi_decoded es; keys = primary_keys ds
      in concat (map (\<lambda>(e, evs). map (\<lambda>ev. ev\<lparr>e_ParentKey := lookup keys (pi_parentID e)\<rparr>) evs) ds))"

definition normalizePi :: "limitedFS \<Rightarrow> Normalization result" where
  "normalizePi input =
     (case readJSONL input ''source/records.jsonl'' of
        (Inl err, _) \<Rightarrow> Inl err
      | (Inr (records, warnings), _) \<Rightarrow>
          (case records of
             [] \<Rightarrow> Inr (complete [] warnings)
           | header # rest \<Rightarrow>
               (if stringValue (get (rec_Value header) ''type'') \<noteq> ''session''
                   \<or> numberString (get (rec_Value header) ''version'') \<noteq> ''3''
                then Inr (complete [] (warnings @
                       [warning ''unsupported_version'' ''Pi session header is missing or is not version 3'']))
                else case orderPiEntries rest of
                       (ordered, graphWarnings) \<Rightarrow>
                         Inr (complete (pi_events ordered)
                           (warnings @ graphWarnings @ concat (map (\<lambda>e. snd (decodePiRecord e)) ordered))))))"

end
