(* ===== verification/NormalizeCodex.thy ===== *)
theory NormalizeCodex
  imports NormalizeBase
begin

text \<open>
  \<open>internal/normalize/codex.go\<close>: Codex threads as \<open>thread/read\<close> returns them, whose items carry no times and
  are therefore chained in file order, and Codex rollout files, a stream of JSON lines.
\<close>

subsection \<open>Thread items\<close>

definition codex_stable :: "string \<Rightarrow> json \<Rightarrow> json" where
  "codex_stable turnID item = mk_obj [(''turn'', JStr turnID), (''item'', item)]"

text \<open>The switch of \<open>codexItem\<close>: the event without its key.\<close>

definition codex_fill :: "Event \<Rightarrow> json \<Rightarrow> Event option" where
  "codex_fill event item =
     (let kind = stringValue (get item ''type''); ident = stringValue (get item ''id'');
          say = (\<lambda>k role fields. Some (event\<lparr>e_Kind := k, e_Role := role, e_Text := contentText (firstValue item fields)\<rparr>));
          call = (\<lambda>tool callID v. Some (event\<lparr>e_Kind := ''tool_call'', e_Tool := tool, e_CallID := callID, e_Text := readableJSON v\<rparr>))
      in if kind = ''userMessage'' then say ''message'' ''user'' [''content'', ''text'']
         else if kind = ''hookPrompt'' then say ''message'' ''system'' [''content'', ''text'']
         else if kind = ''agentMessage'' then say ''message'' ''assistant'' [''content'', ''text'']
         else if kind = ''reasoning'' then say ''reasoning'' ''assistant'' [''summary'', ''content'', ''text'']
         else if kind = ''commandExecution'' then
           call ''shell'' (firstString item [''callId'', ''call_id'', ''id''])
             (mk_obj [(''command'', JStr (stringValue (get item ''command''))), (''cwd'', JStr (stringValue (get item ''cwd'')))])
         else if kind = ''fileChange'' then call ''apply_patch'' ident (mk_obj [(''changes'', get item ''changes'')])
         else if kind = ''webSearch'' then call ''web_search'' ident (firstValue item [''action'', ''query''])
         else if kind \<in> {''functionCall'', ''mcpToolCall'', ''dynamicToolCall'', ''collabAgentToolCall''} then
           call (firstString item [''name'', ''tool'', ''command'']) (firstString item [''callId'', ''call_id'', ''id''])
             (firstValue item [''arguments'', ''input'', ''command''])
         else if kind = ''functionCallOutput'' then
           Some (event\<lparr>e_Kind := ''tool_result'', e_Tool := firstString item [''name'', ''tool''],
             e_CallID := firstString item [''callId'', ''call_id'', ''id''],
             e_Text := contentText (firstValue item [''output'', ''content''])\<rparr>)
         else if kind \<in> {''plan'', ''contextCompaction''} then
           Some (event\<lparr>e_Kind := kind, e_Text := contentText item\<rparr>)
         else None)"

definition codexItem :: "json \<Rightarrow> string \<Rightarrow> string \<Rightarrow> int \<Rightarrow> Event option" where
  "codexItem item turnID path line =
     map_option (\<lambda>event.
        let ident = stringValue (get item ''id'');
            event = event\<lparr>e_Key := nativeKey (e_Kind event) ident (codex_stable turnID item)\<rparr>
        in if stringValue (get item ''type'') = ''fileChange''
           then event\<lparr>e_LegacyKeys := [nativeKey ''file_change'' ident (codex_stable turnID item)]\<rparr> else event)
       (codex_fill (zero_Event\<lparr>e_Branch := turnID, e_Sources := source_ref path line\<rparr>) item)"

text \<open>\<open>codexRun\<close>: exit code and status, so that the page can mark failures.\<close>

definition codexRun :: "json \<Rightarrow> string" where
  "codexRun item =
     (let status = stringValue (get item ''status'');
          run = (if status \<in> {''failed'', ''declined''} then [(''status'', JStr ''error'')]
                 else if status = ''completed'' then [(''status'', JStr ''done'')] else []);
          run = (case wholeNumber (get item ''exitCode'') of
                   None \<Rightarrow> run
                 | Some code \<Rightarrow> run @ [(''result'', mk_obj [(''exitCode'', jint code)])]
                     @ (if code \<noteq> 0 then [(''status'', JStr ''error'')] else []))
      in if run = [] then [] else Marshal (mk_obj [(''run'', mk_obj run)]))"

definition codex_item_events :: "string \<Rightarrow> json \<Rightarrow> Event list \<times> Warning list" where
  "codex_item_events turnID item =
     (case codexItem item turnID ''source/thread.json'' 0 of
        None \<Rightarrow> ([], [warning ''unsupported_record''
                  (''source/thread.json: unknown Codex item '' @ stringValue (get item ''type''))])
      | Some event \<Rightarrow>
          (let output = firstValue item [''output'', ''result'', ''error'', ''aggregatedOutput'', ''results'']
           in if e_Kind event = ''tool_call'' \<and> output \<noteq> JNull
              then ([event, event\<lparr>e_Kind := ''tool_result'', e_Text := contentText output,
                       e_Key := nativeKey ''tool_result'' (stringValue (get item ''id'')) item,
                       e_Metadata := codexRun item\<rparr>], [])
              else ([event], [])))"

definition codex_turn :: "json \<Rightarrow> Event list \<times> Warning list" where
  "codex_turn turn =
     (let turnID = stringValue (get turn ''id'');
          parts = map (codex_item_events turnID) (objects (get turn ''items''))
      in (concat (map fst parts),
          concat (map snd parts)
          @ (if stringValue (get turn ''itemsView'') = ''notLoaded''
             then [warning ''incomplete_turn'' (''Codex turn '' @ turnID @ '' does not include its items'')] else [])))"

definition codex_thread :: "json \<Rightarrow> Normalization" where
  "codex_thread value =
     (let thread = (if object (get value ''thread'') \<noteq> JNull then object (get value ''thread'') else value);
          turns = objects (get thread ''turns'');
          parts = map codex_turn turns;
          warnings = concat (map snd parts)
            @ (if turns = [] then [warning ''unsupported_version'' ''Codex thread/read result has no turns''] else [])
      in complete (chainInFileOrder (concat (map fst parts))) warnings)"

subsection \<open>Rollout files\<close>

definition codexRolloutItem :: "json \<Rightarrow> string \<Rightarrow> sourceRecord \<Rightarrow> Event option" where
  "codexRolloutItem payload model r =
     (let typeName = stringValue (get payload ''type'');
          event = zero_Event\<lparr>e_Model := model, e_Timestamp := timestamp (get (rec_Value r) ''timestamp''),
                             e_Sources := source_ref (rec_Path r) (rec_Line r)\<rparr>;
          filled =
            (if typeName = ''message'' then
               Some (event\<lparr>e_Kind := ''message'', e_Role := stringValue (get payload ''role''),
                           e_Text := contentText (get payload ''content'')\<rparr>)
             else if typeName = ''reasoning'' then
               Some (event\<lparr>e_Kind := ''reasoning'', e_Role := ''assistant'', e_Text := contentText (get payload ''summary'')\<rparr>)
             else if typeName = ''function_call'' then
               Some (event\<lparr>e_Kind := ''tool_call'', e_Tool := stringValue (get payload ''name''),
                 e_CallID := stringValue (get payload ''call_id''), e_Text := contentText (get payload ''arguments'')\<rparr>)
             else if typeName = ''function_call_output'' then
               Some (event\<lparr>e_Kind := ''tool_result'', e_CallID := stringValue (get payload ''call_id''),
                           e_Text := contentText (get payload ''output'')\<rparr>)
             else None)
      in map_option (\<lambda>ev. ev\<lparr>e_Key := nativeKey (e_Kind ev) (stringValue (get payload ''id'')) payload\<rparr>) filled)"

text \<open>The loop over the records; the model is the last turn context's.\<close>

fun codex_rollout :: "string \<Rightarrow> sourceRecord list \<Rightarrow> Event list \<times> Warning list" where
  "codex_rollout model [] = ([], [])"
| "codex_rollout model (r # rs) =
     (let value = rec_Value r; kind = stringValue (get value ''type''); payload = object (get value ''payload'');
          base = zero_Event\<lparr>e_Timestamp := timestamp (get value ''timestamp''),
                            e_Sources := source_ref (rec_Path r) (rec_Line r)\<rparr>
      in if kind = ''turn_context'' then
           (let model = stringValue (get payload ''model'')
            in case codex_rollout model rs of (evs, ws) \<Rightarrow>
              (base\<lparr>e_Kind := ''model_change'', e_Model := model, e_Text := model,
                    e_Key := nativeKey ''model_change'' (stringValue (get payload ''id'')) value\<rparr> # evs, ws))
         else if kind = ''response_item'' then
           (case (codexRolloutItem payload model r, codex_rollout model rs) of
              (Some ev, evs, ws) \<Rightarrow> (ev # evs, ws)
            | (None, evs, ws) \<Rightarrow> (evs, unknown r ''unsupported Codex response item'' # ws))
         else if kind = ''compacted'' then
           (case codex_rollout model rs of (evs, ws) \<Rightarrow>
              (base\<lparr>e_Kind := ''compaction'', e_Model := model, e_Text := contentText payload,
                    e_Key := nativeKey ''compaction'' (stringValue (get payload ''id'')) value\<rparr> # evs, ws))
         else
           (case codex_rollout model rs of (evs, ws) \<Rightarrow>
              (evs, if kind \<noteq> ''session_meta''
                    then unknown r (''unsupported Codex rollout record '' @ kind) # ws else ws)))"

definition normalizeCodexRollout :: "limitedFS \<Rightarrow> Normalization result" where
  "normalizeCodexRollout input =
     (case readJSONL input ''source/records.jsonl'' of
        (Inl err, _) \<Rightarrow> Inl err
      | (Inr (records, warnings), _) \<Rightarrow>
          (case codex_rollout [] records of (evs, ws) \<Rightarrow> Inr (complete evs (warnings @ ws))))"

definition normalizeCodex :: "string \<Rightarrow> limitedFS \<Rightarrow> Normalization result" where
  "normalizeCodex adapter input =
     (if adapter = ''codex-rollout-jsonl'' then normalizeCodexRollout input
      else case readJSON input ''source/thread.json'' of
             (Inl err, _) \<Rightarrow> Inl err
           | (Inr value, _) \<Rightarrow> Inr (codex_thread value))"

end
