(* ===== verification/NormalizeGrok.thy ===== *)
theory NormalizeGrok
  imports NormalizeBase
begin

text \<open>
  \<open>internal/normalize/grok.go\<close>: Grok Build sessions, a stream of session updates.
\<close>

definition grok_update :: "json \<Rightarrow> json \<times> json" where
  "grok_update value =
     (let params = (if object (get value ''params'') = JNull then value else object (get value ''params''));
          update = object (get params ''update'');
          update = (if update = JNull then object (get value ''update'') else update)
      in (params, update))"

definition grok_kind :: "json \<Rightarrow> string" where
  "grok_kind update =
     (let kind = stringValue (get update ''sessionUpdate'')
      in if kind = [] then stringValue (get update ''session_update'') else kind)"

definition grok_fill :: "Event \<Rightarrow> json \<Rightarrow> string \<Rightarrow> Event option" where
  "grok_fill event update kind =
     (let say = (\<lambda>k role. Some (event\<lparr>e_Kind := k, e_Role := role, e_Text := contentText (get update ''content'')\<rparr>))
      in if kind = ''user_message_chunk'' then say ''message'' ''user''
         else if kind = ''agent_message_chunk'' then say ''message'' ''assistant''
         else if kind = ''agent_thought_chunk'' then say ''reasoning'' ''assistant''
         else if kind = ''tool_call'' then
           Some (event\<lparr>e_Kind := ''tool_call'', e_Tool := firstString update [''title'', ''name'', ''kind''],
             e_CallID := firstString update [''toolCallId'', ''tool_call_id''], e_Text := readableJSON (get update ''input'')\<rparr>)
         else if kind = ''tool_call_update'' then
           Some (event\<lparr>e_Kind := (if stringValue (get update ''status'') \<in> {''completed'', ''failed''}
                                  then ''tool_result'' else ''tool_update''),
             e_CallID := firstString update [''toolCallId'', ''tool_call_id''],
             e_Text := contentText (firstValue update [''content'', ''rawOutput'', ''output''])\<rparr>)
         else if kind \<in> {''model_changed'', ''model_auto_switched''} then
           (let model = firstString update [''modelId'', ''model_id'', ''model'']
            in Some (event\<lparr>e_Kind := ''model_change'', e_Model := model, e_Text := model\<rparr>))
         else if kind \<in> {''auto_compact_started'', ''auto_compact_completed'', ''compaction_checkpoint'',
                         ''session_summary_generated'', ''session_recap''} then
           Some (event\<lparr>e_Kind := ''compaction'', e_Text := contentText update\<rparr>)
         else if kind \<in> {''subagent_spawned'', ''subagent_progress'', ''subagent_finished'', ''rewind_marker'',
                         ''turn_completed'', ''task_completed''} then
           Some (event\<lparr>e_Kind := kind, e_Text := contentText update,
             e_Branch := firstString update [''child_session_id'', ''subagent_id'', ''parent_prompt_id'']\<rparr>)
         else None)"

definition grok_record :: "sourceRecord \<Rightarrow> Event list \<times> Warning list" where
  "grok_record r =
     (case grok_update (rec_Value r) of
        (params, update) \<Rightarrow>
          (let kind = grok_kind update;
               ident = firstString (object (get params ''_meta'')) [''eventId'', ''event_id''];
               base = zero_Event\<lparr>e_Timestamp := timestamp (get (rec_Value r) ''timestamp''),
                                 e_Sources := source_ref (rec_Path r) (rec_Line r)\<rparr>
           in case grok_fill base update kind of
                None \<Rightarrow> ([], [unknown r (''unsupported Grok Build update '' @ kind)])
              | Some ev \<Rightarrow> ([ev\<lparr>e_Key := nativeKey (e_Kind ev) ident update\<rparr>], [])))"

definition normalizeGrok :: "limitedFS \<Rightarrow> Normalization result" where
  "normalizeGrok input =
     (case readJSON input ''source/summary.json'' of
        (Inl err, _) \<Rightarrow> Inl err
      | (Inr summary, input) \<Rightarrow>
          (let version = numberString (get summary ''chat_format_version'')
           in if version \<noteq> [] \<and> version \<noteq> ''1'' then
                Inr (complete [] [warning ''unsupported_version''
                  (''Grok Build chat_format_version '' @ version @ '' is not supported'')])
              else case readJSONL input ''source/updates.jsonl'' of
                     (Inl err, _) \<Rightarrow> Inl err
                   | (Inr (records, warnings), _) \<Rightarrow>
                       (let parts = map grok_record records
                        in Inr (complete (concat (map fst parts)) (warnings @ concat (map snd parts))))))"

end
