(* ===== verification/NormalizeOpenCode.thy ===== *)
theory NormalizeOpenCode
  imports NormalizeBase
begin

text \<open>
  \<open>internal/normalize/opencode.go\<close>: OpenCode exports, messages made of parts.  A message's parent is named by the
  key its first part is expected to have.
\<close>

definition openCodePartKind :: "json \<Rightarrow> string" where
  "openCodePartKind part =
     (let kind = stringValue (get part ''type'')
      in if kind = ''text'' then ''message'' else if kind = ''tool'' then ''tool_call'' else kind)"

definition openCodeModel :: "json \<Rightarrow> string \<times> string" where
  "openCodeModel info =
     (let model = object (get info ''model'')
      in if model \<noteq> JNull then (stringValue (get model ''modelID''), stringValue (get model ''providerID''))
         else (stringValue (get info ''modelID''), stringValue (get info ''providerID'')))"

text \<open>The first loop; a later message with the same id replaces an earlier one.\<close>

fun opencode_parents :: "json list \<Rightarrow> (string \<times> string) list \<Rightarrow> (string \<times> string) list" where
  "opencode_parents [] keys = keys"
| "opencode_parents (envelope # es) keys =
     (case objects (get envelope ''parts'') of
        [] \<Rightarrow> opencode_parents es keys
      | part # _ \<Rightarrow> opencode_parents es
          (alist_put (stringValue (get (object (get envelope ''info'')) ''id''))
             (nativeKey (openCodePartKind part) (stringValue (get part ''id'')) part) keys))"

definition opencode_part :: "Event \<Rightarrow> string \<Rightarrow> json \<Rightarrow> Event list \<times> Warning list" where
  "opencode_part event messageID part =
     (let kind = stringValue (get part ''type''); ident = stringValue (get part ''id'');
          key = (\<lambda>k. nativeKey k ident (mk_obj [(''messageID'', JStr messageID), (''part'', part)]));
          one = (\<lambda>ev. ([ev\<lparr>e_Key := key (e_Kind ev)\<rparr>], []))
      in if kind = ''text'' then one (event\<lparr>e_Kind := ''message'', e_Text := stringValue (get part ''text'')\<rparr>)
         else if kind = ''reasoning'' then one (event\<lparr>e_Kind := ''reasoning'', e_Text := stringValue (get part ''text'')\<rparr>)
         else if kind = ''tool'' then
           (let state = object (get part ''state'');
                call = event\<lparr>e_Tool := firstString part [''tool'', ''name''], e_CallID := firstString part [''callID'', ''id''],
                             e_Kind := ''tool_call'', e_Text := readableJSON (get state ''input''), e_Key := key ''tool_call''\<rparr>
            in if get state ''output'' \<noteq> JNull \<or> get state ''result'' \<noteq> JNull \<or> get state ''error'' \<noteq> JNull
               then ([call, call\<lparr>e_Kind := ''tool_result'', e_Text := contentText state, e_Key := key ''tool_result''\<rparr>], [])
               else ([call], []))
         else if kind = ''file'' then
           one (event\<lparr>e_Kind := ''attachment'', e_Attachments := [zero_Attachment\<lparr>a_Name := stringValue (get part ''filename''),
                        a_MediaType := stringValue (get part ''mime''), a_URL := stringValue (get part ''url'')\<rparr>]\<rparr>)
         else if kind \<in> {''compaction'', ''patch'', ''snapshot'', ''step-finish'', ''subtask''} then
           one (event\<lparr>e_Kind := kind, e_Text := contentText part\<rparr>)
         else ([], [warning ''unsupported_record'' (''source/export.json: unknown OpenCode part '' @ kind)]))"

definition opencode_message :: "(string \<times> string) list \<Rightarrow> json \<Rightarrow> Event list \<times> Warning list" where
  "opencode_message parentKeys envelope =
     (let info = object (get envelope ''info'');
          role = (if stringValue (get info ''role'') = [] then stringValue (get info ''type'') else stringValue (get info ''role''));
          parent = (case map_of parentKeys (stringValue (get info ''parentID'')) of Some k \<Rightarrow> k | None \<Rightarrow> []);
          event = zero_Event\<lparr>e_Role := role, e_Model := fst (openCodeModel info), e_Provider := snd (openCodeModel info),
                    e_ParentKey := parent, e_Timestamp := timestamp (get (object (get info ''time'')) ''created''),
                    e_Sources := source_ref ''source/export.json'' 0\<rparr>;
          parts = map (opencode_part event (stringValue (get info ''id''))) (objects (get envelope ''parts''))
      in (concat (map fst parts), concat (map snd parts)))"

definition opencode_export :: "json \<Rightarrow> Normalization" where
  "opencode_export export =
     (let messages = objects (get export ''messages'');
          parts = map (opencode_message (opencode_parents messages [])) messages;
          warnings = concat (map snd parts)
            @ (if messages = [] then [warning ''unsupported_version'' ''OpenCode export has no supported messages envelope''] else [])
      in complete (concat (map fst parts)) warnings)"

definition normalizeOpenCode :: "limitedFS \<Rightarrow> Normalization result" where
  "normalizeOpenCode input =
     (case readJSON input ''source/export.json'' of
        (Inl err, _) \<Rightarrow> Inl err
      | (Inr export, _) \<Rightarrow> Inr (opencode_export export))"

end
