(* ===== verification/NormalizeCursorAgent.thy ===== *)
theory NormalizeCursorAgent
  imports NormalizeBase
begin

text \<open>
  The Cursor Agent half of \<open>internal/normalize/claude_cursor_agent.go\<close>: rows of a transcript, each a message
  and the tool blocks inside it, chained in file order.
\<close>

text \<open>A turn that failed or was stopped; its key names the event before it.\<close>

definition cursor_turn_ended :: "sourceRecord \<Rightarrow> string \<Rightarrow> Event list" where
  "cursor_turn_ended r previous =
     (let value = rec_Value r; status = stringValue (get value ''status'')
      in if status = ''success'' then []
         else [zero_Event\<lparr>e_Kind := ''message'', e_Role := ''assistant'',
                 e_Sources := source_ref (rec_Path r) (rec_Line r),
                 e_Metadata := Marshal (mk_obj [(''state'', mk_obj [(''stopReason'', JStr status),
                    (''errorMessage'', JStr (stringValue (get value ''error'')))])]),
                 e_Key := nativeKey ''message'' [] (mk_obj [(''after'', JStr previous), (''record'', value)])\<rparr>])"

definition cursor_tool_block :: "sourceRecord \<Rightarrow> Event \<Rightarrow> json \<Rightarrow> Event list \<times> Warning list" where
  "cursor_tool_block r event raw =
     (let block = object raw; kind = stringValue (get block ''type'');
          val = mk_obj [(''record'', rec_Value r), (''block'', block)]
      in if kind = ''text'' then ([], [])
         else if kind = ''tool_use'' then
           ([event\<lparr>e_Kind := ''tool_call'', e_Tool := stringValue (get block ''name''), e_CallID := stringValue (get block ''id''),
               e_Text := readableJSON (get block ''input''),
               e_Key := nativeKey ''tool_call'' (stringValue (get block ''id'')) val\<rparr>], [])
         else if kind = ''tool_result'' then
           ([event\<lparr>e_Kind := ''tool_result'', e_CallID := stringValue (get block ''tool_use_id''),
               e_Text := contentText (get block ''content''),
               e_Key := nativeKey ''tool_result'' (stringValue (get block ''tool_use_id'')) val\<rparr>], [])
         else ([], [unknown r (''unknown Cursor Agent content '' @ kind)]))"

definition cursor_message :: "sourceRecord \<Rightarrow> string \<Rightarrow> Event list \<times> Warning list" where
  "cursor_message r role =
     (let value = rec_Value r; message = object (get value ''message'');
          content = (if get value ''content'' = JNull then get message ''content'' else get value ''content'');
          either = (\<lambda>k. if stringValue (get value k) = [] then stringValue (get message k) else stringValue (get value k));
          parent = either ''parentMessageId'';
          event = zero_Event\<lparr>e_Kind := ''message'', e_Role := role, e_Model := stringValue (get value ''model''),
            e_Timestamp := timestamp (get value ''timestamp''), e_Text := contentText content,
            e_Sources := source_ref (rec_Path r) (rec_Line r),
            e_ParentKey := (if parent \<noteq> [] then nativeKey ''message'' parent JNull else []),
            e_Key := nativeKey ''message'' (either ''id'')
              (mk_obj [(''role'', JStr role), (''content'', content), (''parent'', JStr parent)])\<rparr>;
          blocks = (case content of JArr bs \<Rightarrow> map (cursor_tool_block r event) bs | _ \<Rightarrow> [])
      in (concat (map fst blocks) @ (if e_Text event \<noteq> [] then [event] else []), concat (map snd blocks)))"

definition cursor_role :: "json \<Rightarrow> string" where
  "cursor_role value =
     (if stringValue (get value ''role'') = [] then stringValue (get (object (get value ''message'')) ''role'')
      else stringValue (get value ''role''))"

definition cursor_record :: "sourceRecord \<Rightarrow> string \<Rightarrow> Event list \<times> Warning list" where
  "cursor_record r previous =
     (let role = cursor_role (rec_Value r)
      in if stringValue (get (rec_Value r) ''type'') = ''turn_ended'' then (cursor_turn_ended r previous, [])
         else if role \<notin> {''user'', ''assistant'', ''system''} then ([], [unknown r ''unsupported Cursor Agent row''])
         else cursor_message r role)"

text \<open>\<open>previous\<close> is the key of the last event so far.\<close>

fun cursor_records :: "string \<Rightarrow> sourceRecord list \<Rightarrow> Event list \<times> Warning list" where
  "cursor_records previous [] = ([], [])"
| "cursor_records previous (r # rs) =
     (case cursor_record r previous of
        (evs, ws) \<Rightarrow>
          (case cursor_records (if evs = [] then previous else e_Key (last evs)) rs of
             (evs', ws') \<Rightarrow> (evs @ evs', ws @ ws')))"

definition normalizeCursorAgent :: "limitedFS \<Rightarrow> Normalization result" where
  "normalizeCursorAgent input =
     (case readJSONL input ''source/records.jsonl'' of
        (Inl err, _) \<Rightarrow> Inl err
      | (Inr (records, warnings), _) \<Rightarrow>
          (case cursor_records [] records of
             (evs, ws) \<Rightarrow> Inr (complete (chainInFileOrder evs) (warnings @ ws))))"

end
