(* ===== verification/NormalizeCursor.thy ===== *)
theory NormalizeCursor
  imports NormalizeBase
begin

text \<open>
  \<open>internal/normalize/cursor.go\<close>: Cursor editor chats, rows of its key-value tables.  A composer lists the
  bubbles of its conversation and every bubble gives a message, a tool call and its result; older
  chats keep whole conversations in one row.
\<close>

record cursorRow =
  cr_Record :: sourceRecord
  cr_Table :: string
  cr_Key :: string
  cr_Value :: json

subsection \<open>Tool calls\<close>

fun tool_args_from :: "json \<Rightarrow> string list \<Rightarrow> json" where
  "tool_args_from tool [] = JObj []"
| "tool_args_from tool (k # ks) =
     (case get tool k of
        JNull \<Rightarrow> tool_args_from tool ks
      | JStr s \<Rightarrow>
          (let t = TrimSpace s
           in if t = [] then tool_args_from tool ks
              else case unmarshal_any t of
                     None \<Rightarrow> JStr t
                   | Some JNull \<Rightarrow> JStr t
                   | Some v \<Rightarrow> v)
      | v \<Rightarrow> v)"

definition cursorToolArgs :: "json \<Rightarrow> json" where
  "cursorToolArgs tool = tool_args_from tool [''params'', ''rawArgs'']"

text \<open>\<open>decodeCursorValue\<close> unwraps JSON kept in strings.  A decoded string is shorter than its text, so the
  length of the string bounds the unwrapping.\<close>

definition wrapped :: "string \<Rightarrow> bool" where
  "wrapped s \<longleftrightarrow> (prefix ''{'' s \<and> suffix ''}'' s) \<or> (prefix ''['' s \<and> suffix '']'' s)
     \<or> (prefix [CHR 0x22] s \<and> suffix [CHR 0x22] s)"

fun decode_cursor :: "nat \<Rightarrow> json \<Rightarrow> json" where
  "decode_cursor n v =
     (case v of
        JStr s \<Rightarrow>
          (let t = TrimSpace s
           in if length t < 2 \<or> \<not> wrapped t then JStr s
              else (case unmarshal_any t of
                      None \<Rightarrow> JStr s
                    | Some JNull \<Rightarrow> JStr s
                    | Some (JStr u) \<Rightarrow> (case n of 0 \<Rightarrow> JStr u | Suc k \<Rightarrow> decode_cursor k (JStr u))
                    | Some d \<Rightarrow> d))
      | _ \<Rightarrow> v)"

definition decodeCursorValue :: "json \<Rightarrow> json" where
  "decodeCursorValue v = decode_cursor (length (stringValue v)) v"

text \<open>\<open>json.Encoder\<close> with an indent of two spaces and no HTML escaping, without the final newline.\<close>

fun pretty :: "nat \<Rightarrow> json \<Rightarrow> string" where
  "pretty ind (JArr vs) =
     (if vs = [] then ''[]''
      else ''['' @ newline @ Join (map (\<lambda>v. replicate (2 * Suc ind) CHR '' '' @ pretty (Suc ind) v) vs) ('','' @ newline)
           @ newline @ replicate (2 * ind) CHR '' '' @ '']'')"
| "pretty ind (JObj m) =
     (if m = [] then ''{}''
      else ''{'' @ newline @ Join (map (\<lambda>kv. replicate (2 * Suc ind) CHR '' '' @ quote False (fst kv) @ '': ''
             @ pretty (Suc ind) (snd kv)) m) ('','' @ newline)
           @ newline @ replicate (2 * ind) CHR '' '' @ ''}'')"
| "pretty ind v = encode False v"

definition prettyJSON :: "json \<Rightarrow> string" where
  "prettyJSON v = (if v = JNull then [] else TrimRight (pretty 0 v) newline)"

definition cursorErrorText :: "json \<Rightarrow> string" where
  "cursorErrorText v =
     (case v of
        JStr s \<Rightarrow> TrimSpace s
      | JObj m \<Rightarrow> (let t = TrimSpace (stringValue (get v ''message''))
                  in if t \<noteq> [] then t else if m = [] then [] else prettyJSON v)
      | _ \<Rightarrow> [])"

text \<open>\<open>formatCursorResult\<close>; its depth argument counts down with every nesting.\<close>

fun first_text :: "string list \<Rightarrow> string" where
  "first_text [] = []"
| "first_text (s # ss) = (if s \<noteq> [] then s else first_text ss)"

fun formatCursorResult :: "nat \<Rightarrow> json \<Rightarrow> string" where
  "formatCursorResult 0 v = []"
| "formatCursorResult (Suc d) v0 =
     (if v0 = JNull then []
      else case decodeCursorValue v0 of
        JStr s \<Rightarrow> (if searchableValue [] (JStr s) = JNull then [] else s)
      | JArr vs \<Rightarrow> join_nonempty newline (map (\<lambda>v. TrimSpace (formatCursorResult d v)) vs)
      | JObj m \<Rightarrow>
          (let v = JObj m;
               nested = (\<lambda>k. TrimSpace (formatCursorResult d (get v k)));
               found = first_text (map nested [''content'', ''contents'', ''output'', ''text'']);
               err = cursorErrorText (get v ''error'')
           in if found \<noteq> [] then found
              else if err \<noteq> [] then err
              else if nested ''result'' \<noteq> [] then nested ''result''
              else prettyJSON (searchableValue [] v))
      | v \<Rightarrow> prettyJSON v)"

definition cursorRunMetadata :: "json \<Rightarrow> json \<Rightarrow> json" where
  "cursorRunMetadata tool decoded =
     (let status = ToLower (stringValue (get tool ''status''));
          run = (if status = ''error'' then [(''status'', JStr ''error'')]
                 else if status = ''cancelled'' then [(''status'', JStr ''cancelled'')] else []);
          run = (case wholeNumber (get (object decoded) ''exitCode'') of
                   None \<Rightarrow> run
                 | Some code \<Rightarrow> run @ [(''result'', mk_obj [(''exitCode'', jint code)])]
                     @ (if code \<noteq> 0 then [(''status'', JStr ''error'')] else []))
      in if run = [] then JNull else mk_obj [(''run'', mk_obj run)])"

definition bubble_role :: "json \<Rightarrow> string" where
  "bubble_role v = (let t = numberString v in if t = ''1'' then ''user'' else if t = ''2'' then ''assistant'' else [])"

definition cursorBubble :: "cursorRow \<Rightarrow> json \<Rightarrow> Event list" where
  "cursorBubble row header =
     (let v = cr_Value row;
          ident = (if stringValue (get v ''bubbleId'') = [] then stringValue (get header ''bubbleId'')
                   else stringValue (get v ''bubbleId''));
          base = zero_Event\<lparr>e_Role := bubble_role (get v ''type''), e_Model := stringValue (get v ''model''),
            e_Timestamp := timestamp (get v ''createdAt''),
            e_Sources := source_ref (rec_Path (cr_Record row)) (rec_Line (cr_Record row))\<rparr>;
          text = stringValue (get v ''text'');
          messages = (if text \<noteq> [] then [base\<lparr>e_Key := nativeKey ''message'' ident v, e_Kind := ''message'', e_Text := text\<rparr>]
                      else []);
          tool = object (get v ''toolFormerData'');
          callID = firstString tool [''toolCallId'', ''tool_call_id'', ''callId'', ''call_id'', ''id''];
          call = base\<lparr>e_Kind := ''tool_call'', e_Tool := stringValue (get tool ''name''),
            e_CallID := (if callID = [] then ident else callID),
            e_Text := readableJSON (cursorToolArgs tool), e_Key := nativeKey ''tool_call'' ident v\<rparr>;
          decoded = decodeCursorValue (get tool ''result'');
          meta = cursorRunMetadata tool decoded;
          result = call\<lparr>e_Kind := ''tool_result'', e_Text := formatCursorResult 6 decoded,
            e_Key := nativeKey ''tool_result'' ident v, e_Metadata := (if meta = JNull then [] else Marshal meta)\<rparr>
      in messages @ (if tool = JNull then [] else if get tool ''result'' = JNull then [call] else [call, result]))"

subsection \<open>Rows\<close>

definition legacy_message :: "cursorRow \<Rightarrow> json \<Rightarrow> Event" where
  "legacy_message row message =
     (let role = stringValue (get message ''role'')
      in zero_Event\<lparr>e_Key := nativeKey ''message'' (stringValue (get message ''bubbleId'')) message, e_Kind := ''message'',
           e_Role := (if role = [] then bubble_role (get message ''type'') else role), e_Text := contentText message,
           e_Sources := source_ref (rec_Path (cr_Record row)) (rec_Line (cr_Record row))\<rparr>)"

definition normalizeLegacyCursor :: "cursorRow \<Rightarrow> Event list \<times> Warning list" where
  "normalizeLegacyCursor row =
     (let all = objects (get (cr_Value row) ''allComposers'');
          values = (if all = [] then [cr_Value row] else all);
          parts = map (\<lambda>value.
            let c = objects (get value ''conversation'');
                c = (if c = [] then objects (get value ''messages'') else c)
            in if c = [] then ([], [unknown (cr_Record row) ''unsupported legacy Cursor value shape''])
               else (map (legacy_message row) c, [])) values
      in (concat (map fst parts), concat (map snd parts)))"

fun cursor_rows :: "sourceRecord list \<Rightarrow> cursorRow list \<times> Warning list" where
  "cursor_rows [] = ([], [])"
| "cursor_rows (r # rs) =
     (case cursor_rows rs of
        (rows, ws) \<Rightarrow>
          (case unmarshal_map (stringValue (get (rec_Value r) ''value'')) of
             None \<Rightarrow> (rows, unknown r ''Cursor row value is not a JSON object'' # ws)
           | Some v \<Rightarrow> (\<lparr>cr_Record = r, cr_Table = stringValue (get (rec_Value r) ''table''),
                         cr_Key = stringValue (get (rec_Value r) ''key''), cr_Value = v\<rparr> # rows, ws)))"

definition is_composer :: "cursorRow \<Rightarrow> bool" where
  "is_composer row \<longleftrightarrow> cr_Table row = ''cursorDiskKV'' \<and> prefix ''composerData:'' (cr_Key row)"

definition cursor_row :: "cursorRow \<Rightarrow> Event list \<times> Warning list" where
  "cursor_row row =
     (if is_composer row then ([], [])
      else if cr_Table row = ''ItemTable'' \<and> (cr_Key row = ''composer.composerData'' \<or> Contains (cr_Key row) ''aichat.chatdata'')
        then normalizeLegacyCursor row
      else if cr_Table row \<in> {''cursorDiskKV'', ''ItemTable''} \<and> prefix ''bubbleId:'' (cr_Key row) then ([], [])
      else ([], [unknown (cr_Record row) ''unsupported Cursor table or key'']))"

text \<open>A row by its key: the last row with a key wins.\<close>

definition row_by_key :: "cursorRow list \<Rightarrow> string \<Rightarrow> cursorRow option" where
  "row_by_key rows k = find (\<lambda>row. cr_Key row = k) (rev rows)"

definition cursor_composer :: "cursorRow list \<Rightarrow> cursorRow \<Rightarrow> Event list \<times> Warning list" where
  "cursor_composer rows composer =
     (let headers = objects (get (cr_Value composer) ''fullConversationHeadersOnly'');
          cid = stringValue (get (cr_Value composer) ''composerId'');
          parts = map (\<lambda>header.
            let bubbleID = stringValue (get header ''bubbleId'')
            in case row_by_key rows (''bubbleId:'' @ cid @ '':'' @ bubbleID) of
                 None \<Rightarrow> ([], [warning ''missing_bubble'' (''Cursor composer references unavailable bubble '' @ bubbleID)])
               | Some row \<Rightarrow> (cursorBubble row header, [])) headers
      in (concat (map fst parts),
          (if headers = [] then [warning ''empty_conversation'' (''Cursor composer '' @ cid @
             '' has no messages in the editor database; an agent chat keeps them in its Cursor Agent transcript instead'')]
           else []) @ concat (map snd parts)))"

definition normalizeCursor :: "limitedFS \<Rightarrow> Normalization result" where
  "normalizeCursor input =
     (case readJSONL input ''source/rows.jsonl'' of
        (Inl err, _) \<Rightarrow> Inl err
      | (Inr (records, warnings), _) \<Rightarrow>
          (case cursor_rows records of
             (rows, ws) \<Rightarrow>
               (let parts = map cursor_row rows;
                    composers = map (cursor_composer rows) (filter is_composer rows)
                in Inr (complete (concat (map fst parts) @ concat (map fst composers))
                     (warnings @ ws @ concat (map snd parts) @ concat (map snd composers))))))"

end
