(* ===== verification/NormalizeClaude.thy ===== *)
theory NormalizeClaude
  imports NormalizeBase
begin

text \<open>
  The Claude Code half of \<open>internal/normalize/claude_cursor_agent.go\<close>.  Records name their parent by UUID, often
  through records that give no event, so the parent of an event is looked up through those
  (\<open>resolve\<close>).  An event without a UUID of its own is put behind the head of the
  conversation, and what later points at that head follows it (\<open>cl_inserted\<close>).  The loop over the
  records is a fold of \<open>claude_record\<close> over \<open>claudeState\<close>, which holds the code's local maps.
\<close>

definition claudeMetadataRecords :: "string list" where
  "claudeMetadataRecords =
     [''ai-title'', ''custom-title'', ''last-prompt'', ''atis-latch'', ''isolation-latch'',
      ''mode'', ''permission-mode'', ''api-request'', ''api-request-shape'',
      ''queue-operation'', ''file-history-snapshot'', ''file-history-delta'', ''cost-state'',
      ''pr-link'', ''agent-name'', ''continued-in'', ''attachment'']"

definition claudeQuietSystemRecords :: "string list" where
  "claudeQuietSystemRecords = [''turn_duration'', ''stop_hook_summary'', ''agents_killed'']"

definition claudeParent :: "json \<Rightarrow> string" where
  "claudeParent v = (if stringValue (get v ''parentUuid'') \<noteq> [] then stringValue (get v ''parentUuid'')
                     else stringValue (get v ''logicalParentUuid''))"

definition claudeToolResults :: "json list \<Rightarrow> bool" where
  "claudeToolResults blocks \<longleftrightarrow>
     list_all (\<lambda>raw. stringValue (get (object raw) ''type'') = ''tool_result'') blocks \<and> blocks \<noteq> []"

definition claudeInjected :: "json \<Rightarrow> json list \<Rightarrow> bool" where
  "claudeInjected v blocks \<longleftrightarrow> get v ''isMeta'' = JBool True \<or>
     list_ex (\<lambda>raw. prefix ''<task-notification>'' (TrimSpace (stringValue (get (object raw) ''text'')))) blocks"

subsection \<open>State\<close>

record claudeState =
  cl_keys :: "(string \<times> string) list"
  cl_inserted :: "(string \<times> string) list"
  cl_parentOfKey :: "(string \<times> string) list"
  cl_events :: "Event list"
  cl_warnings :: "Warning list"
  cl_title :: string
  cl_customTitle :: string
  cl_effort :: string
  cl_head :: string
  cl_prompts :: "string list"
  cl_late :: "(nat \<times> string) list"

fun claude_parents :: "sourceRecord list \<Rightarrow> (string \<times> string) list \<Rightarrow> (string \<times> string) list" where
  "claude_parents [] parents = parents"
| "claude_parents (r # rs) parents =
     (let ident = stringValue (get (rec_Value r) ''uuid'')
      in claude_parents rs (if ident \<noteq> [] then alist_put ident (claudeParent (rec_Value r)) parents else parents))"

text \<open>The inner loop of \<open>resolve\<close> and its outer loop, each with its own bound.\<close>

fun follow_inserted :: "nat \<Rightarrow> (string \<times> string) list \<Rightarrow> string \<Rightarrow> string" where
  "follow_inserted 0 inserted key = key"
| "follow_inserted (Suc hops) inserted key =
     (case map_of inserted key of None \<Rightarrow> key | Some k \<Rightarrow> follow_inserted hops inserted k)"

fun resolve_up :: "nat \<Rightarrow> (string \<times> string) list \<Rightarrow> claudeState \<Rightarrow> string \<Rightarrow> string" where
  "resolve_up 0 parents st ident = []"
| "resolve_up (Suc n) parents st ident =
     (if ident = [] then []
      else case map_of (cl_keys st) ident of
             Some key \<Rightarrow> follow_inserted (length (cl_inserted st) + 1) (cl_inserted st) key
           | None \<Rightarrow> resolve_up n parents st (lookup parents ident))"

definition resolve :: "(string \<times> string) list \<Rightarrow> claudeState \<Rightarrow> string \<Rightarrow> string" where
  "resolve parents st ident = resolve_up (length parents + 1) parents st ident"

definition emit :: "Event \<Rightarrow> claudeState \<Rightarrow> claudeState" where
  "emit event st = st\<lparr>cl_events := cl_events st @ [event],
     cl_parentOfKey := alist_put (e_Key event) (e_ParentKey event) (cl_parentOfKey st)\<rparr>"

fun ancestor_within :: "nat \<Rightarrow> (string \<times> string) list \<Rightarrow> string \<Rightarrow> string \<Rightarrow> bool" where
  "ancestor_within 0 parents ancestor key = False"
| "ancestor_within (Suc n) parents ancestor key =
     (if key = [] then False else if key = ancestor then True
      else ancestor_within n parents ancestor (lookup parents key))"

definition isAncestor :: "claudeState \<Rightarrow> string \<Rightarrow> string \<Rightarrow> bool" where
  "isAncestor st ancestor key = ancestor_within 1000 (cl_parentOfKey st) ancestor key"

definition claude_warn :: "sourceRecord \<Rightarrow> string \<Rightarrow> claudeState \<Rightarrow> claudeState" where
  "claude_warn r detail st = st\<lparr>cl_warnings := cl_warnings st @ [unknown r detail]\<rparr>"

text \<open>An event of the record itself: it is emitted and the record's UUID resolves to it.\<close>

definition emit_as :: "string \<Rightarrow> Event \<Rightarrow> claudeState \<Rightarrow> claudeState" where
  "emit_as ident event st =
     (let st' = emit event st in st'\<lparr>cl_keys := alist_put ident (e_Key event) (cl_keys st')\<rparr>)"

subsection \<open>Records that are not messages\<close>

definition claude_queued :: "Event \<Rightarrow> string \<Rightarrow> json \<Rightarrow> claudeState \<Rightarrow> claudeState" where
  "claude_queued base ident v st =
     (let attachment = object (get v ''attachment'')
      in emit_as ident (base\<lparr>e_Kind := ''message'',
           e_Role := (if stringValue (get attachment ''commandMode'') = ''prompt'' then ''user'' else ''system''),
           e_Text := contentText (get attachment ''prompt''),
           e_Key := nativeKey ''message'' (indexedID ident 0) v\<rparr>) st)"

definition claude_prompt :: "(string \<times> string) list \<Rightarrow> Event \<Rightarrow> json \<Rightarrow> claudeState \<Rightarrow> claudeState" where
  "claude_prompt parents base v st =
     (let message = object (get v ''message''); hash = stringValue (get v ''hash'')
      in if stringValue (get message ''role'') \<noteq> ''system'' \<or> hash \<in> set (cl_prompts st) then st
         else
           let st = st\<lparr>cl_prompts := hash # cl_prompts st\<rparr>;
               parent = resolve parents st (cl_head st);
               event = base\<lparr>e_Kind := ''message'', e_Role := ''system'', e_Text := contentText (get message ''content''),
                 e_ParentKey := parent, e_Key := nativeKey ''message'' (''prompt:'' @ hash) message\<rparr>;
               st = emit event st
           in if parent \<noteq> [] then st\<lparr>cl_inserted := alist_put parent (e_Key event) (cl_inserted st)\<rparr> else st)"

definition claude_system_event :: "Event \<Rightarrow> json \<Rightarrow> string \<Rightarrow> Event option" where
  "claude_system_event base v subtype =
     (let event = base\<lparr>e_Kind := ''message'', e_Role := ''system''\<rparr>
      in if subtype = ''compact_boundary'' then
           Some (event\<lparr>e_Kind := ''compaction'', e_Role := [], e_Text := stringValue (get v ''content'')\<rparr>)
         else if subtype = ''api_error'' then
           Some (event\<lparr>e_Text := ''API error: '' @ firstString (object (get v ''error'')) [''formatted'', ''message'']\<rparr>)
         else if get v ''content'' \<noteq> JNull then Some (event\<lparr>e_Text := contentText (get v ''content'')\<rparr>)
         else None)"

definition claude_system :: "sourceRecord \<Rightarrow> Event \<Rightarrow> string \<Rightarrow> claudeState \<Rightarrow> claudeState" where
  "claude_system r base ident st =
     (let v = rec_Value r; subtype = stringValue (get v ''subtype'')
      in if subtype \<in> set claudeQuietSystemRecords then st
         else case claude_system_event base v subtype of
                None \<Rightarrow> claude_warn r (''unknown Claude system record '' @ subtype) st
              | Some event \<Rightarrow>
                  emit_as ident (event\<lparr>e_Key := nativeKey (e_Kind event) (indexedID ident 0) v\<rparr>) st)"

subsection \<open>Messages\<close>

definition claude_stable :: "json \<Rightarrow> json \<Rightarrow> json \<Rightarrow> json" where
  "claude_stable v message block = mk_obj [(''message'', message), (''block'', block),
     (''parent'', JStr (stringValue (get v ''parentUuid'')))]"

definition claude_block :: "json \<Rightarrow> json \<Rightarrow> Event \<Rightarrow> string \<Rightarrow> nat \<Rightarrow> json \<Rightarrow> Event option" where
  "claude_block v message event ident index raw =
     (let block = object raw;
          kind = stringValue (get block ''type'');
          filled =
            (if kind = ''text'' then
               (let e = event\<lparr>e_Kind := ''message'', e_Text := stringValue (get block ''text'')\<rparr>
                in Some (if get v ''isCompactSummary'' = JBool True
                         then e\<lparr>e_Kind := ''compaction'', e_Role := [],
                                e_LegacyKeys := [nativeKey ''message'' (indexedID ident index) (claude_stable v message block)]\<rparr>
                         else e))
             else if kind = ''thinking'' then
               Some (event\<lparr>e_Kind := ''reasoning'', e_Text := stringValue (get block ''thinking'')\<rparr>)
             else if kind = ''tool_use'' then
               Some (event\<lparr>e_Kind := ''tool_call'', e_Tool := stringValue (get block ''name''),
                 e_CallID := stringValue (get block ''id''), e_Text := readableJSON (get block ''input'')\<rparr>)
             else if kind = ''tool_result'' then
               Some (event\<lparr>e_Kind := ''tool_result'', e_CallID := stringValue (get block ''tool_use_id''),
                 e_Text := contentText (get block ''content'')\<rparr>)
             else if kind = ''image'' \<or> kind = ''document'' then
               Some (event\<lparr>e_Kind := ''attachment'', e_Attachments := [zero_Attachment
                 \<lparr>a_Name := stringValue (get block ''name''),
                  a_MediaType := stringValue (get (object (get block ''source'')) ''media_type''),
                  a_Path := stringValue (get block ''path''), a_URL := stringValue (get block ''url'')\<rparr>]\<rparr>)
             else None)
      in map_option (\<lambda>e. e\<lparr>e_Key := nativeKey (e_Kind e) (indexedID ident index) (claude_stable v message block)\<rparr>) filled)"

text \<open>The loop over the blocks.  An event whose parent is not known yet is remembered by its place.\<close>

fun claude_blocks ::
  "sourceRecord \<Rightarrow> json \<Rightarrow> Event \<Rightarrow> string \<Rightarrow> nat \<Rightarrow> json list \<Rightarrow> claudeState \<Rightarrow> claudeState" where
  "claude_blocks r message event ident index [] st = st"
| "claude_blocks r message event ident index (raw # raws) st =
     claude_blocks r message event ident (Suc index) raws
       (case claude_block (rec_Value r) message event ident index raw of
          None \<Rightarrow> claude_warn r (''unknown Claude content '' @ stringValue (get (object raw) ''type'')) st
        | Some e \<Rightarrow>
            emit e (if e_ParentKey e = [] \<and> claudeParent (rec_Value r) \<noteq> []
                    then st\<lparr>cl_late := (length (cl_events st), claudeParent (rec_Value r)) # cl_late st\<rparr> else st))"

definition message_blocks :: "json \<Rightarrow> json list" where
  "message_blocks message = (case get message ''content'' of JArr bs \<Rightarrow> bs
     | content \<Rightarrow> [mk_obj [(''type'', JStr ''text''), (''text'', JStr (contentText content))]])"

text \<open>The results of parallel calls follow the conversation: the parent of the first becomes the tail, which is
  then also what the record is inserted behind.\<close>

definition claude_following ::
  "(string \<times> string) list \<Rightarrow> string \<Rightarrow> string \<Rightarrow> json list \<Rightarrow> string \<Rightarrow> claudeState \<Rightarrow> string" where
  "claude_following parents previous role blocks parent st =
     (let tail = resolve parents st previous
      in if role = ''user'' \<and> claudeToolResults blocks \<and> parent \<noteq> [] \<and> tail \<noteq> parent \<and> isAncestor st parent tail
         then tail else [])"

definition claude_effort :: "Event \<Rightarrow> string \<Rightarrow> string \<Rightarrow> json \<Rightarrow> claudeState \<Rightarrow> Event \<times> claudeState" where
  "claude_effort base ident role v st =
     (let level = stringValue (get v ''effort'')
      in if role = ''assistant'' \<and> level \<noteq> [] \<and> level \<noteq> cl_effort st then
           (let change = base\<lparr>e_Kind := ''thinking_level_change'', e_Text := level,
                  e_Key := nativeKey ''thinking_level_change'' (''effort:'' @ ident) JNull\<rparr>
            in (base\<lparr>e_ParentKey := e_Key change\<rparr>, emit change (st\<lparr>cl_effort := level\<rparr>)))
         else (base, st))"

text \<open>After the blocks: the record's UUID resolves to its first event, and what pointed at the tail follows it.\<close>

definition claude_settle :: "nat \<Rightarrow> string \<Rightarrow> string \<Rightarrow> claudeState \<Rightarrow> claudeState" where
  "claude_settle first following ident st =
     (if ident \<noteq> [] \<and> first < length (cl_events st) then
        (let key = e_Key (cl_events st ! first);
             st = st\<lparr>cl_keys := alist_put ident key (cl_keys st)\<rparr>
         in if following \<noteq> [] then st\<lparr>cl_inserted := alist_put following key (cl_inserted st)\<rparr> else st)
      else st)"

definition claude_message ::
  "(string \<times> string) list \<Rightarrow> sourceRecord \<Rightarrow> Event \<Rightarrow> string \<Rightarrow> string \<Rightarrow> claudeState \<Rightarrow> claudeState" where
  "claude_message parents r base ident previous st =
     (let v = rec_Value r; message = object (get v ''message'');
          blocks = message_blocks message;
          sender = stringValue (get message ''role'');
          following = claude_following parents previous sender blocks (e_ParentKey base) st;
          base = (if following \<noteq> [] then base\<lparr>e_ParentKey := following\<rparr> else base);
          role = (if sender = ''user'' \<and> claudeInjected v blocks then ''system'' else sender)
      in case claude_effort base ident role v st of
           (base, st) \<Rightarrow>
             claude_settle (length (cl_events st)) following ident
               (claude_blocks r message
                  (base\<lparr>e_Role := role, e_Model := stringValue (get message ''model'')\<rparr>) ident 0 blocks st))"

subsection \<open>The loop\<close>

definition claude_record ::
  "(string \<times> string) list \<Rightarrow> sourceRecord \<Rightarrow> claudeState \<Rightarrow> claudeState" where
  "claude_record parents r st =
     (let v = rec_Value r; kind = stringValue (get v ''type''); ident = stringValue (get v ''uuid'');
          previous = cl_head st;
          st = (if ident \<noteq> [] then st\<lparr>cl_head := ident\<rparr> else st);
          base = zero_Event\<lparr>e_Timestamp := timestamp (get v ''timestamp''),
            e_ParentKey := resolve parents st (claudeParent v), e_Sources := source_ref (rec_Path r) (rec_Line r)\<rparr>
      in if kind = ''ai-title'' then st\<lparr>cl_title := TrimSpace (stringValue (get v ''aiTitle''))\<rparr>
         else if kind = ''custom-title'' then st\<lparr>cl_customTitle := TrimSpace (stringValue (get v ''customTitle''))\<rparr>
         else if kind = ''attachment'' \<and> stringValue (get (object (get v ''attachment'')) ''type'') = ''queued_command''
           then claude_queued base ident v st
         else if kind = ''api-request-blob'' then claude_prompt parents base v st
         else if kind = ''system'' then claude_system r base ident st
         else if kind \<in> set claudeMetadataRecords then st
         else if object (get v ''message'') = JNull \<or> kind \<noteq> [] \<and> kind \<noteq> ''user'' \<and> kind \<noteq> ''assistant''
           then claude_warn r (''unknown Claude record '' @ kind) st
         else claude_message parents r base ident previous st)"

definition claude_start :: "Warning list \<Rightarrow> claudeState" where
  "claude_start warnings = \<lparr>cl_keys = [], cl_inserted = [], cl_parentOfKey = [], cl_events = [],
     cl_warnings = warnings, cl_title = [], cl_customTitle = [], cl_effort = [], cl_head = [],
     cl_prompts = [], cl_late = []\<rparr>"

definition claude_late :: "(string \<times> string) list \<Rightarrow> claudeState \<Rightarrow> Event list" where
  "claude_late parents st =
     map (\<lambda>(index, e). case map_of (cl_late st) index of
            Some parent \<Rightarrow> e\<lparr>e_ParentKey := resolve parents st parent\<rparr> | None \<Rightarrow> e)
       (List.enumerate 0 (cl_events st))"

definition claude_records :: "sourceRecord list \<Rightarrow> Warning list \<Rightarrow> claudeState" where
  "claude_records records warnings =
     fold (claude_record (claude_parents records [])) records (claude_start warnings)"

definition normalizeClaude :: "limitedFS \<Rightarrow> Normalization result" where
  "normalizeClaude input =
     (case readJSONL input ''source/records.jsonl'' of
        (Inl err, _) \<Rightarrow> Inl err
      | (Inr (records, warnings), _) \<Rightarrow>
          (let st = claude_records records warnings
           in Inr ((complete (claude_late (claude_parents records []) st) (cl_warnings st))
                \<lparr>n_Title := (if cl_customTitle st \<noteq> [] then cl_customTitle st else cl_title st)\<rparr>)))"

end
