(* ===== verification/NormalizeAmp.thy ===== *)
theory NormalizeAmp
  imports NormalizeBase
begin

text \<open>
  \<open>internal/amp/attachments.go\<close> and \<open>internal/normalize/amp.go\<close>: Amp thread exports.  Of \<open>net/url\<close> the first uses
  whether a URL is one of Amp's own, so \<open>url.Parse\<close> is modelled on the URLs that can pass that test.
\<close>

subsection \<open>Attachment URLs\<close>

text \<open>The characters \<open>EscapedPath\<close> leaves alone in a path segment.  With any other one, or an escape, the escaped
  path has a percent sign, which the code refuses.\<close>

definition path_char :: "char \<Rightarrow> bool" where
  "path_char c \<longleftrightarrow> (CHR ''a'' \<le> c \<and> c \<le> CHR ''z'') \<or> (CHR ''A'' \<le> c \<and> c \<le> CHR ''Z'') \<or> is_digit c
     \<or> c \<in> set ''-_.~$&+,:;=@!()*[]'' \<or> c = CHR 0x27"

text \<open>A fragment is unescaped when the URL is parsed, and a bad escape in it is a parse error.\<close>

fun escapes_ok :: "string \<Rightarrow> bool" where
  "escapes_ok [] = True"
| "escapes_ok (c # s) =
     (if c = CHR 0x25 then
        (case s of a # b # r \<Rightarrow> hex_value a \<noteq> None \<and> hex_value b \<noteq> None \<and> escapes_ok r | _ \<Rightarrow> False)
      else escapes_ok s)"

definition cut_fragment :: "string \<Rightarrow> string \<times> string" where
  "cut_fragment raw = (case Cut raw ''#'' of Some p \<Rightarrow> p | None \<Rightarrow> (raw, []))"

text \<open>The path of a URL with scheme https (in any case), host ampcode.com, no user and no question mark.\<close>

definition amp_path :: "string \<Rightarrow> string option" where
  "amp_path u =
     (if map (\<lambda>c. if CHR ''A'' \<le> c \<and> c \<le> CHR ''Z'' then char_of (byte c + 32) else c) (take 6 u) = ''https:''
        \<and> CHR ''?'' \<notin> set u
      then CutPrefix (drop 6 u) ''//ampcode.com'' else None)"

definition AttachmentLocation :: "string \<Rightarrow> string \<times> string" where
  "AttachmentLocation raw =
     (case cut_fragment raw of (u, fragment) \<Rightarrow>
       (case amp_path u of
          None \<Rightarrow> ([], [])
        | Some p \<Rightarrow>
            (case CutPrefix p ''/user-content/attachments/'' of
               None \<Rightarrow> ([], [])
             | Some name \<Rightarrow>
                 (if name = [] \<or> name = ''.'' \<or> name = ''..'' \<or> \<not> list_all path_char name \<or> \<not> escapes_ok fragment
                  then ([], [])
                  else let downloadURL = ''https://ampcode.com'' @ p
                       in (downloadURL, ''source/attachments/'' @ sha256_hex downloadURL)))))"

definition attachment_keys :: "string list" where
  "attachment_keys = [''messages'', ''thread'', ''events'', ''content'', ''run'', ''result'', ''progress'', ''displayImages'']"

definition one_attachment :: "json \<Rightarrow> string \<Rightarrow> Attachment" where
  "one_attachment v pointer =
     (let src = object (get v ''source'');
          path = firstString v [''sourcePath'', ''path''];
          url = firstNonEmpty [firstString v [''url''], firstString src [''url''], fst (AttachmentLocation path)];
          media = firstNonEmpty [firstString v [''mimeType'', ''media_type''], firstString src [''media_type'', ''mimeType'']]
      in zero_Attachment\<lparr>a_Name := firstString v [''name'', ''filename''], a_Path := path, a_URL := url,
           a_MediaType := media, a_SourcePointer := pointer, a_Inline := (get src ''type'' = JStr ''base64'')\<rparr>)"

lemma size_enumerate: "(i, x) \<in> set (List.enumerate n vs) \<Longrightarrow> size (x :: json) < Suc (size_list size vs)"
  by (induction vs arbitrary: n) (auto, fastforce)

function Attachments :: "json \<Rightarrow> string \<Rightarrow> Attachment list" where
  "Attachments v pointer = (case v of
      JArr vs \<Rightarrow> concat (map (\<lambda>(index, item). Attachments item (pointer @ ''/'' @ nat_digits index)) (List.enumerate 0 vs))
    | JObj m \<Rightarrow>
        (if get v ''type'' = JStr ''image'' \<or> get v ''type'' = JStr ''attachment'' then [one_attachment v pointer] else [])
        @ concat (map (\<lambda>key. case map_of m key of None \<Rightarrow> []
                        | Some nested \<Rightarrow> Attachments nested (pointer @ ''/'' @ key)) attachment_keys)
    | _ \<Rightarrow> [])"
  by pat_completeness auto

termination
  by (relation "measure (size \<circ> fst)") (auto dest: size_map_of size_enumerate)

declare Attachments.simps [simp del]

subsection \<open>Messages\<close>

definition message_id_keys :: "string list" where
  "message_id_keys = [''id'', ''messageId'', ''message_id'']"

definition amp_position :: "json \<Rightarrow> string" where
  "amp_position message = numberString (firstValue message message_id_keys)"

definition ampMessageID :: "json \<Rightarrow> string" where
  "ampMessageID message =
     (if stringValue (get message ''protocolMessageID'') \<noteq> [] then stringValue (get message ''protocolMessageID'')
      else amp_position message)"

definition ampResultText :: "json \<Rightarrow> string" where
  "ampResultText block =
     (let body = contentText (firstValue block [''content'', ''output'', ''result'']);
          result = firstValue (object (get block ''run'')) [''error'', ''result'']
      in if body \<noteq> [] then body
         else if contentText result \<noteq> [] then contentText result
         else if stringValue (get (object result) ''message'') \<noteq> [] then stringValue (get (object result) ''message'')
         else readableJSON result)"

definition amp_messages :: "json \<Rightarrow> json list \<times> string" where
  "amp_messages export =
     (let thread = object (get export ''thread'')
      in if objects (get export ''messages'') \<noteq> [] then (objects (get export ''messages''), ''/messages'')
         else if objects (get thread ''messages'') \<noteq> [] then (objects (get thread ''messages''), ''/thread/messages'')
         else (objects (get thread ''events''), ''/thread/events''))"

definition session_keys :: "string list" where
  "session_keys = [''id'', ''title'', ''created'', ''updatedAt'', ''archived'', ''agentMode'', ''activatedSkills'', ''env'', ''meta'']"

definition amp_session :: "json \<Rightarrow> Event list" where
  "amp_session export =
     (let ident = stringValue (get export ''id'');
          session = mk_obj (map (\<lambda>k. (k, searchableValue [] (get export k))) (filter (\<lambda>k. get export k \<noteq> JNull) session_keys))
      in if ident = [] then []
         else [zero_Event\<lparr>e_Key := ''session_info:'' @ ident, e_Kind := ''session_info'',
                 e_Timestamp := timestamp (get export ''created''), e_Text := contentText session,
                 e_Metadata := Marshal (mk_obj [(''session'', session), (''transcript_order'', jint (- 1)),
                   (''transcript_message'', JStr (''amp-session:'' @ ident))]),
                 e_Sources := source_ref ''source/export.json'' 0\<rparr>])"

text \<open>Tool names by call, and stable message ids by position; a later entry of a key replaces the earlier.\<close>

definition amp_tools :: "json list \<Rightarrow> (string \<times> string) list" where
  "amp_tools messages =
     rev (concat (map (\<lambda>message.
       map (\<lambda>b. (firstString b [''toolUseID'', ''id'', ''providerToolUseId''], firstString b [''name'', ''tool'']))
         (filter (\<lambda>b. firstString b [''type'', ''kind''] = ''tool_use'') (objects (get message ''content'')))) messages))"

definition amp_ids :: "json list \<Rightarrow> (string \<times> string) list" where
  "amp_ids messages = rev (map (\<lambda>message. (amp_position message, ampMessageID message))
                             (filter (\<lambda>message. amp_position message \<noteq> []) messages))"

subsection \<open>Blocks\<close>

text \<open>What the code computes once per message.\<close>

record ampMessage =
  am_value :: json
  am_index :: nat
  am_position :: string
  am_id :: string
  am_role :: string
  am_model :: string
  am_timestamp :: string
  am_key :: string
  am_parentKey :: string

definition amp_message :: "(string \<times> string) list \<Rightarrow> nat \<Rightarrow> json \<Rightarrow> ampMessage" where
  "amp_message ids index message =
     (let named = numberString (firstValue message [''parentId'', ''parent_id'']);
          parent = (case map_of ids named of Some known \<Rightarrow> known | None \<Rightarrow> named)
      in \<lparr>am_value = message, am_index = index, am_position = amp_position message, am_id = ampMessageID message,
          am_role = firstString message [''role'', ''sender''],
          am_model = firstNonEmpty [firstString message [''model'', ''modelId'', ''model_id''],
                       stringValue (get (object (get message ''usage'')) ''model'')],
          am_timestamp = firstNonEmpty [timestamp (firstValue message [''timestamp'', ''createdAt'']),
                           timestamp (get (object (get message ''meta'')) ''sentAt'')],
          am_key = nativeKey ''amp-message'' (ampMessageID message) message,
          am_parentKey = (if parent \<noteq> [] then nativeKey ''amp-message'' parent JNull else [])\<rparr>)"

text \<open>The blocks of a message, whether they are an array of its own, and where they are in the export.\<close>

definition text_block :: "string \<Rightarrow> json" where
  "text_block s = mk_obj [(''type'', JStr ''text''), (''text'', JStr s)]"

definition amp_blocks :: "string \<Rightarrow> nat \<Rightarrow> json \<Rightarrow> json list \<times> bool \<times> string" where
  "amp_blocks path index message =
     (let here = path @ ''/'' @ nat_digits index
      in case get message ''content'' of
           JArr bs \<Rightarrow> (if bs = [] \<and> get message ''state'' \<noteq> JNull then ([text_block []], False, here)
                      else (bs, True, here @ ''/content''))
         | content \<Rightarrow> ([text_block (contentText content)], False, here @ ''/content''))"

definition present :: "(string \<times> json) list \<Rightarrow> (string \<times> json) list" where
  "present kvs = map (\<lambda>(k, v). (k, searchableValue [] v)) (filter (\<lambda>(k, v). v \<noteq> JNull) kvs)"

definition amp_metadata :: "ampMessage \<Rightarrow> nat \<Rightarrow> string \<Rightarrow> json \<Rightarrow> (string \<times> json) list" where
  "amp_metadata am index pointer block =
     (let message = am_value am
      in [(''transcript_message'', JStr (am_key am)), (''transcript_parent'', JStr (am_parentKey am)),
          (''transcript_order'', jint (int (am_index am))), (''transcript_block'', jint (int index)),
          (''source_pointer'', JStr pointer)]
         @ present [(''run'', get block ''run''), (''usage'', get message ''usage''), (''message_meta'', get message ''meta''),
             (''state'', get message ''state''), (''hidden'', get block ''hidden''),
             (''block_state'', get block ''blockState''), (''complete'', get block ''complete'')]
         @ map (\<lambda>(k, field). (k, JStr (timestamp (get block field))))
             (filter (\<lambda>(k, field). timestamp (get block field) \<noteq> [])
                [(''start_time'', ''startTime''), (''final_time'', ''finalTime'')]))"

definition amp_base :: "ampMessage \<Rightarrow> json \<Rightarrow> Event" where
  "amp_base am block =
     zero_Event\<lparr>e_Role := am_role am, e_Model := am_model am, e_Provider := firstString block [''provider''],
       e_Timestamp := firstNonEmpty [am_timestamp am, timestamp (firstValue block [''startTime'', ''finalTime'']),
         timestamp (get (object (get (am_value am) ''usage'')) ''timestamp'')],
       e_Sources := source_ref ''source/export.json'' 0\<rparr>"

definition amp_event :: "(string \<times> string) list \<Rightarrow> Event \<Rightarrow> string \<Rightarrow> string \<Rightarrow> json \<Rightarrow> Event option" where
  "amp_event tools event pointer kind block =
     (if kind \<in> {''text'', ''message'', ''input_text'', ''output_text''} then
        Some (event\<lparr>e_Kind := ''message'', e_Text := contentText block\<rparr>)
      else if kind \<in> {''thinking'', ''reasoning''} then Some (event\<lparr>e_Kind := ''reasoning'', e_Text := contentText block\<rparr>)
      else if kind = ''summary'' then Some (event\<lparr>e_Kind := ''compaction'', e_Text := contentText (get block ''summary'')\<rparr>)
      else if kind \<in> {''tool_use'', ''tool_call'', ''function_call''} then
        Some (event\<lparr>e_Kind := ''tool_call'', e_Tool := firstString block [''name'', ''tool''],
          e_CallID := firstString block [''toolUseID'', ''id'', ''providerToolUseId'', ''callId'', ''call_id''],
          e_Text := readableJSON (firstValue block [''input'', ''arguments''])\<rparr>)
      else if kind \<in> {''tool_result'', ''function_call_output''} then
        (let call = firstString block [''toolUseID'', ''providerToolUseId'', ''tool_use_id'', ''callId'', ''call_id'']
         in Some (event\<lparr>e_Kind := ''tool_result'', e_CallID := call, e_Tool := lookup tools call,
              e_Text := ampResultText block, e_Attachments := Attachments block pointer\<rparr>))
      else if kind \<in> {''image'', ''attachment''} then
        Some (event\<lparr>e_Kind := ''attachment'', e_Attachments := Attachments block pointer\<rparr>)
      else None)"

text \<open>The archived copies of the attachments; an image that is on Amp's host only is warned about once.\<close>

fun amp_archive ::
  "(string \<times> int) list \<Rightarrow> Attachment list \<Rightarrow> string list \<Rightarrow> Attachment list \<times> string list \<times> Warning list" where
  "amp_archive archived [] missing = ([], missing, [])"
| "amp_archive archived (a # as) missing =
     (let path = snd (AttachmentLocation (a_URL a));
          absent = (path \<noteq> [] \<and> map_of archived path = None \<and> \<not> a_Inline a \<and> path \<notin> set missing);
          a' = (case map_of archived path of
                  Some n \<Rightarrow> (if path \<noteq> [] then a\<lparr>a_ArchivedPath := path, a_Size := n\<rparr> else a) | None \<Rightarrow> a)
      in case amp_archive archived as (if absent then path # missing else missing) of
           (as', missing', ws) \<Rightarrow>
             (a' # as', missing',
              (if absent then [warning ''amp_image_unavailable'' (''Hosted image at '' @ a_SourcePointer a
                 @ '' is not archived. Recollect and upload with an authenticated Amp CLI to retry.'')] else []) @ ws))"

record ampState =
  as_seen :: "string list"
  as_ordinals :: "(string \<times> nat) list"
  as_missing :: "string list"
  as_events :: "Event list"
  as_warnings :: "Warning list"

definition ordinal :: "ampState \<Rightarrow> string \<Rightarrow> nat" where
  "ordinal st kind = (case map_of (as_ordinals st) kind of Some n \<Rightarrow> n | None \<Rightarrow> 0)"

definition amp_block_id :: "ampState \<Rightarrow> string \<Rightarrow> Event \<Rightarrow> json \<Rightarrow> string" where
  "amp_block_id st ident event block =
     (let own = stringValue (get block ''id'');
          candidate = (if own = [] \<and> e_Kind event = ''tool_result'' then e_CallID event else own)
      in if candidate = [] \<or> nativeKey (e_Kind event) candidate JNull \<in> set (as_seen st)
         then indexedID ident (ordinal st (e_Kind event)) else candidate)"

definition amp_legacy :: "ampMessage \<Rightarrow> nat \<Rightarrow> Event \<Rightarrow> json \<Rightarrow> json \<Rightarrow> string list" where
  "amp_legacy am index event block val =
     (let old = (\<lambda>ident. nativeKey (e_Kind event) (firstNonEmpty [stringValue (get block ''id''), indexedID ident index]) val)
      in filter (\<lambda>k. k \<noteq> e_Key event)
           (remdups [old (am_position am), old (firstString (am_value am) message_id_keys)]))"

definition amp_block ::
  "(string \<times> string) list \<Rightarrow> (string \<times> int) list \<Rightarrow> ampMessage \<Rightarrow> string \<Rightarrow> nat \<Rightarrow> json \<Rightarrow> ampState \<Rightarrow> ampState" where
  "amp_block tools archived am pointer index raw st =
     (let block = object raw; kind = firstString block [''type'', ''kind''];
          known = amp_event tools (amp_base am block) pointer kind block;
          event = (case known of Some e \<Rightarrow> e | None \<Rightarrow> (amp_base am block)\<lparr>e_Kind := ''unknown'', e_Text := readableJSON raw\<rparr>);
          bad = (if known = None then [warning ''unsupported_record'' (''source/export.json: unknown Amp content '' @ kind)] else []);
          metadata = amp_metadata am index pointer block @ (if known = None then [(''native_type'', JStr kind)] else []);
          val = mk_obj [(''message'', am_value am), (''block'', block)]
      in case amp_archive archived (e_Attachments event) (as_missing st) of
           (attachments, missing, ws) \<Rightarrow>
             (let event = event\<lparr>e_Attachments := attachments,
                    e_Key := nativeKey (e_Kind event) (amp_block_id st (am_id am) event block) val\<rparr>;
                  event = event\<lparr>e_LegacyKeys := amp_legacy am index event block val, e_Metadata := Marshal (mk_obj metadata)\<rparr>
              in st\<lparr>as_seen := e_Key event # as_seen st,
                    as_ordinals := alist_put (e_Kind event) (ordinal st (e_Kind event) + 1) (as_ordinals st),
                    as_missing := missing, as_events := as_events st @ [event],
                    as_warnings := as_warnings st @ bad @ ws\<rparr>))"

definition amp_one ::
  "(string \<times> string) list \<Rightarrow> (string \<times> string) list \<Rightarrow> (string \<times> int) list \<Rightarrow> string \<Rightarrow> nat \<times> json \<Rightarrow> ampState \<Rightarrow> ampState" where
  "amp_one tools ids archived path im st =
     (case im of (i, message) \<Rightarrow>
        (case amp_blocks path i message of
           (blocks, isBlocks, at) \<Rightarrow>
             fold (\<lambda>(index, raw). amp_block tools archived (amp_message ids i message)
                      (if isBlocks then at @ ''/'' @ nat_digits index else at) index raw)
               (List.enumerate 0 blocks) (st\<lparr>as_ordinals := []\<rparr>)))"

definition amp_export :: "(string \<times> int) list \<Rightarrow> json \<Rightarrow> Normalization" where
  "amp_export archived export =
     (case amp_messages export of
        (messages, path) \<Rightarrow>
          (let st = fold (amp_one (amp_tools messages) (amp_ids messages) archived path) (List.enumerate 0 messages)
                      \<lparr>as_seen = [], as_ordinals = [], as_missing = [], as_events = amp_session export, as_warnings = []\<rparr>
           in complete (as_events st) (as_warnings st
                @ (if messages = [] then [warning ''unsupported_version'' ''Amp export has no supported messages''] else []))))"

definition normalizeAmp :: "limitedFS \<Rightarrow> File list \<Rightarrow> Normalization result" where
  "normalizeAmp input fs =
     (case readJSON input ''source/export.json'' of
        (Inl err, _) \<Rightarrow> Inl err
      | (Inr export, _) \<Rightarrow> Inr (amp_export (rev (map (\<lambda>f. (f_Path f, f_Size f)) fs)) export))"

end
