(* ===== verification/Normalize.thy ===== *)
theory Normalize
  imports NormalizePi NormalizeCodex NormalizeGrok NormalizeOpenCode NormalizeCursorAgent NormalizeCursor
    NormalizeClaude NormalizeAmp
begin

text \<open>
  \<open>internal/normalize/normalize.go\<close>: the dispatch on the harness.  What the store relies on is the contract of
  the locale \<open>normalizer\<close>, which every harness's normalizer is shown to satisfy.
\<close>

definition Version :: "string \<Rightarrow> int" where
  "Version harness =
     (if harness = ''amp'' then 6
      else if harness = ''pi'' then 4
      else if harness = ''cursor'' then 4
      else if harness \<in> {''claude-code'', ''cursor-agent'', ''codex''} then 2
      else if harness \<in> {''opencode'', ''grok-build''} then 1
      else 0)"

definition source_limit :: "string \<Rightarrow> nat" where
  "source_limit harness = (if harness = ''amp'' \<or> harness = ''claude-code'' then MaxAmpExportBytes else maxSourceBytes)"

text \<open>The normalizer of a harness, when it has one.\<close>

definition normalizer_of :: "Descriptor \<Rightarrow> (limitedFS \<Rightarrow> Normalization result) option" where
  "normalizer_of d =
     (let h = d_Harness d
      in if h = ''pi'' then Some normalizePi
         else if h = ''claude-code'' then Some normalizeClaude
         else if h = ''cursor-agent'' then Some normalizeCursorAgent
         else if h = ''cursor'' then Some normalizeCursor
         else if h = ''amp'' then Some (\<lambda>input. normalizeAmp input (d_Files d))
         else if h = ''opencode'' then Some normalizeOpenCode
         else if h = ''codex'' then Some (normalizeCodex (d_Adapter d))
         else if h = ''grok-build'' then Some normalizeGrok
         else None)"

text \<open>The result carries the version even when there is an error beside it.\<close>

definition Run :: "Descriptor \<Rightarrow> source \<Rightarrow> Normalization \<times> string option" where
  "Run d src =
     (case normalizer_of d of
        None \<Rightarrow> (zero_Normalization\<lparr>n_Status := ''unsupported'',
                  n_Warnings := [warning ''unsupported_harness'' (''unsupported harness '' @ d_Harness d)]\<rparr>, None)
      | Some normalizer \<Rightarrow>
          (case normalizer (newLimitedFS src (source_limit (d_Harness d))) of
             Inl err \<Rightarrow> (zero_Normalization\<lparr>n_Version := Version (d_Harness d)\<rparr>, Some err)
           | Inr n \<Rightarrow> (n\<lparr>n_Version := Version (d_Harness d)\<rparr>, None)))"

subsection \<open>The contract\<close>

locale normalizer =
  fixes run :: "limitedFS \<Rightarrow> Normalization result"
  assumes run_keyed: "run input = Inr n \<Longrightarrow> list_all keyed (n_Events n)"
    and run_status: "run input = Inr n \<Longrightarrow> n_Status n = status_of (n_Events n) (n_Warnings n)"
begin

lemma normalized_complete:
  "run input = Inr n \<Longrightarrow> n_Status n = ''normalized'' \<Longrightarrow> n_Events n \<noteq> [] \<and> n_Warnings n = []"
  using run_status by (auto simp: status_of_def split: if_splits)

lemma no_empty_key: "run input = Inr n \<Longrightarrow> e \<in> set (n_Events n) \<Longrightarrow> e_Key e \<noteq> []"
  using run_keyed by (auto simp: list_all_iff keyed_def)

end

subsection \<open>Every normalizer satisfies it\<close>

lemma list_all_concat: "list_all P (concat xss) \<longleftrightarrow> list_all (list_all P) xss"
  by (induction xss) auto

lemma keyed_update [simp]:
  "keyed (e\<lparr>e_ParentKey := k\<rparr>) = keyed e" "keyed (e\<lparr>e_Key := nativeKey a b c\<rparr>)"
  "keyed (e\<lparr>e_LegacyKeys := ks\<rparr>) = keyed e" "keyed (e\<lparr>e_Metadata := md\<rparr>) = keyed e"
  "keyed (e\<lparr>e_Attachments := as\<rparr>) = keyed e"
  by (simp_all add: keyed_def)

lemmas keyed_split = keyed_def Let_def

lemma keyed_codexItem: "codexItem item turnID path line = Some e \<Longrightarrow> keyed e"
  by (auto simp only: codexItem_def Let_def map_option_eq_Some keyed_update split: if_splits)

lemma keyed_codex_item: "list_all keyed (fst (codex_item_events turnID item))"
  by (simp add: codex_item_events_def Let_def keyed_codexItem split: option.split)

lemma keyed_codex_thread: "list_all keyed (n_Events (codex_thread v))"
  by (simp add: codex_thread_def codex_turn_def Let_def list_all_concat list.pred_map o_def keyed_codex_item
      list_all_iff [of _ "objects _"])

lemma keyed_codexRolloutItem: "codexRolloutItem payload model r = Some e \<Longrightarrow> keyed e"
  unfolding codexRolloutItem_def Let_def map_option_eq_Some by (elim exE conjE) (erule subst, rule keyed_update)

lemma keyed_codex_rollout: "list_all keyed (fst (codex_rollout model rs))"
proof (induction rs arbitrary: model)
  case (Cons r rs)
  then have rest: "codex_rollout m rs = (evs, ws) \<Longrightarrow> list_all keyed evs" for m evs ws
    by (metis fst_conv)
  show ?case
    by (simp only: codex_rollout.simps Let_def list.pred_inject keyed_update fst_conv simp_thms rest
        keyed_codexRolloutItem split: if_split prod.split option.split) (auto simp: rest keyed_codexRolloutItem)
qed simp

lemma keyed_grok_record: "list_all keyed (fst (grok_record r))"
  by (simp add: grok_record_def Let_def split: prod.split option.split)

lemma keyed_opencode_part: "list_all keyed (fst (opencode_part event messageID part))"
  by (simp add: opencode_part_def Let_def)

lemma keyed_opencode_export: "list_all keyed (n_Events (opencode_export export))"
  by (simp add: opencode_export_def opencode_message_def Let_def list_all_concat list.pred_map o_def
      keyed_opencode_part list_all_iff [of _ "objects _"])

lemma keyed_cursor_tool_block: "list_all keyed (fst (cursor_tool_block r event raw))"
  by (simp add: cursor_tool_block_def Let_def)

lemma keyed_cursor_record: "list_all keyed (fst (cursor_record r previous))"
  by (auto simp: cursor_record_def cursor_turn_ended_def cursor_message_def Let_def list_all_concat list.pred_map o_def
      keyed_cursor_tool_block list_all_iff [of _ "_ :: json list"] split: json.splits)

lemma keyed_cursor_records: "list_all keyed (fst (cursor_records previous rs))"
proof (induction previous rs rule: cursor_records.induct)
  case (2 previous r rs)
  obtain evs ws where one: "cursor_record r previous = (evs, ws)" by force
  then have "list_all keyed evs" using keyed_cursor_record [of r previous] by simp
  moreover obtain evs' ws' where
    "cursor_records (if evs = [] then previous else e_Key (last evs)) rs = (evs', ws')" by force
  ultimately show ?case using 2 [OF one [symmetric]] one by simp
qed simp

lemma keyed_cursorBubble: "list_all keyed (cursorBubble row header)"
  by (simp add: cursorBubble_def Let_def) (simp add: keyed_def)

lemma keyed_legacy: "list_all keyed (fst (normalizeLegacyCursor row))"
  by (simp add: normalizeLegacyCursor_def Let_def list_all_concat list.pred_map o_def legacy_message_def keyed_def
      list_all_iff)

lemma keyed_cursor_composer: "list_all keyed (fst (cursor_composer rows composer))"
  by (simp add: cursor_composer_def Let_def list_all_concat list.pred_map o_def keyed_cursorBubble
      list_all_iff [of _ "objects _"] split: option.splits)

lemma keyed_cursor_row: "list_all keyed (fst (cursor_row row))"
  by (simp add: cursor_row_def keyed_legacy)

lemma keyed_piBashExecution: "list_all keyed (piBashExecution base ident v message)"
  by (simp add: piBashExecution_def Let_def)

lemma keyed_pi_block: "pi_block e base role message index raw = Some ev \<Longrightarrow> keyed ev"
  unfolding pi_block_def Let_def map_option_eq_Some by (elim exE conjE) (erule subst, rule keyed_update)

lemma keyed_pi_blocks: "list_all keyed (fst (pi_blocks e base role message index raws))"
proof (induction raws arbitrary: index)
  case (Cons raw raws)
  then have "pi_blocks e base role message (Suc index) raws = (evs, ws) \<Longrightarrow> list_all keyed evs" for evs ws
    by (metis fst_conv)
  then show ?case by (simp add: keyed_pi_block split: prod.split option.split)
qed simp

lemma keyed_pi_other: "pi_other e base v kind = Some ev \<Longrightarrow> keyed ev"
  by (simp only: pi_other_def Let_def option.simps split: if_split_asm) (erule subst, simp add: keyed_def)+

lemma keyed_if:
  "(c \<Longrightarrow> list_all keyed (fst a)) \<Longrightarrow> (\<not> c \<Longrightarrow> list_all keyed (fst b)) \<Longrightarrow> list_all keyed (fst (if c then a else b))"
  by simp

lemma keyed_decodePiRecord: "list_all keyed (fst (decodePiRecord e))"
  unfolding decodePiRecord_def Let_def
proof (intro keyed_if, goal_cases)
  case 1
  then show ?case by (simp add: keyed_pi_other split: option.split)
next
  case 2
  then show ?case by (simp only: fst_conv keyed_piBashExecution)
next
  case 3
  show ?case
    by (split json.split, intro conjI impI allI)
      (intro keyed_if, (simp only: fst_conv keyed_pi_blocks list.pred_inject keyed_update simp_thms)+)+
qed

lemma keyed_pi_events: "list_all keyed (pi_events es)"
  using keyed_decodePiRecord by (auto simp: pi_events_def pi_decoded_def Let_def list_all_iff)

subsection \<open>Claude's state\<close>

lemma keyed_emit: "list_all keyed (cl_events (emit e st)) \<longleftrightarrow> list_all keyed (cl_events st) \<and> keyed e"
  by (simp add: emit_def)

lemma keyed_emit_as: "list_all keyed (cl_events (emit_as i e st)) \<longleftrightarrow> list_all keyed (cl_events st) \<and> keyed e"
  by (simp add: emit_as_def Let_def emit_def)

lemma keyed_claude_warn [simp]: "cl_events (claude_warn r d st) = cl_events st"
  by (simp add: claude_warn_def)

lemma keyed_claude_block: "claude_block v message event ident index raw = Some e \<Longrightarrow> keyed e"
  unfolding claude_block_def Let_def map_option_eq_Some by (elim exE conjE) (erule subst, rule keyed_update)

lemma keyed_claude_blocks:
  "list_all keyed (cl_events st) \<Longrightarrow> list_all keyed (cl_events (claude_blocks r message event ident index raws st))"
proof (induction raws arbitrary: index st)
  case (Cons raw raws)
  show ?case
    by (simp only: claude_blocks.simps) (rule Cons.IH, simp add: Cons.prems keyed_emit keyed_claude_block split: option.split)
qed simp

lemma keyed_claude_effort:
  "claude_effort base ident role v st = (base', st') \<Longrightarrow> list_all keyed (cl_events st) \<Longrightarrow> list_all keyed (cl_events st')"
  by (auto simp: claude_effort_def Let_def keyed_emit split: if_splits)

lemma claude_settle_events [simp]: "cl_events (claude_settle first following ident st) = cl_events st"
  by (simp add: claude_settle_def Let_def)

lemma keyed_claude_message:
  "list_all keyed (cl_events st) \<Longrightarrow> list_all keyed (cl_events (claude_message parents r base ident previous st))"
  unfolding claude_message_def Let_def
  by (split prod.split, intro allI impI) (simp only: claude_settle_events keyed_claude_blocks keyed_claude_effort)

lemma keyed_claude_prompt:
  "list_all keyed (cl_events st) \<Longrightarrow> list_all keyed (cl_events (claude_prompt parents base v st))"
  by (simp add: claude_prompt_def Let_def keyed_emit)

lemma keyed_claude_system:
  "list_all keyed (cl_events st) \<Longrightarrow> list_all keyed (cl_events (claude_system r base ident st))"
  by (simp add: claude_system_def Let_def keyed_emit_as split: option.split)

lemma keyed_claude_record:
  "list_all keyed (cl_events st) \<Longrightarrow> list_all keyed (cl_events (claude_record parents r st))"
  unfolding claude_record_def Let_def
  by (simp add: keyed_claude_message keyed_claude_prompt keyed_claude_system claude_queued_def keyed_emit_as Let_def)

lemma keyed_claude_records: "list_all keyed (cl_events (claude_records rs ws))"
proof -
  have "list_all keyed (cl_events st) \<Longrightarrow> list_all keyed (cl_events (fold (claude_record parents) rs st))" for parents st
    by (induction rs arbitrary: st) (auto intro: keyed_claude_record)
  then show ?thesis by (simp add: claude_records_def claude_start_def)
qed

lemma keyed_claude_late: "list_all keyed (claude_late parents st) \<longleftrightarrow> list_all keyed (cl_events st)"
proof -
  have "map e_Key (claude_late parents st) = map e_Key (cl_events st)"
    by (rule nth_equalityI) (simp_all add: claude_late_def nth_enumerate_eq split: option.split)
  then show ?thesis by (simp only: keyed_keys)
qed

subsection \<open>Amp's state\<close>

lemma keyed_amp_block:
  "list_all keyed (as_events st) \<Longrightarrow> list_all keyed (as_events (amp_block tools archived am pointer index raw st))"
  unfolding amp_block_def Let_def by (simp split: prod.split)

lemma fold_invariant:
  "P s \<Longrightarrow> (\<And>x s. P s \<Longrightarrow> P (f x s)) \<Longrightarrow> P (fold f xs s)"
  by (induction xs arbitrary: s) auto

lemma keyed_amp_one:
  "list_all keyed (as_events st) \<Longrightarrow> list_all keyed (as_events (amp_one tools ids archived path im st))"
  unfolding amp_one_def
  by (auto split: prod.split intro!: fold_invariant [where P = "\<lambda>st. list_all keyed (as_events st)"] keyed_amp_block)

lemma keyed_amp_export: "list_all keyed (n_Events (amp_export archived export))"
proof -
  have "list_all keyed (amp_session export)" by (simp add: amp_session_def Let_def keyed_def)
  then show ?thesis
    unfolding amp_export_def Let_def
    by (auto split: prod.split intro!: fold_invariant [where P = "\<lambda>st. list_all keyed (as_events st)"] keyed_amp_one)
qed

subsection \<open>The contract holds of each\<close>

lemma complete_status [simp]: "n_Status (complete es ws\<lparr>n_Title := t\<rparr>) = status_of es ws"
  by simp

lemmas normalizer_splits = prod.splits sum.splits list.splits if_splits

interpretation pi_run: normalizer normalizePi
  by unfold_locales (auto simp: normalizePi_def keyed_pi_events split: normalizer_splits)

interpretation claude_run: normalizer normalizeClaude
  by unfold_locales
    (auto simp: normalizeClaude_def Let_def keyed_claude_late keyed_claude_records split: prod.splits sum.splits)

interpretation cursor_agent_run: normalizer normalizeCursorAgent
proof
  fix input n
  assume "normalizeCursorAgent input = Inr n"
  then obtain rs ws evs ws' where
    n: "cursor_records [] rs = (evs, ws')" "n = complete (chainInFileOrder evs) (ws @ ws')"
    by (auto simp: normalizeCursorAgent_def split: prod.splits sum.splits)
  then show "list_all keyed (n_Events n)"
    using keyed_cursor_records [of "[]" rs] by simp
  show "n_Status n = status_of (n_Events n) (n_Warnings n)"
    by (simp add: n)
qed

interpretation cursor_run: normalizer normalizeCursor
proof
  fix input n
  assume run: "normalizeCursor input = Inr n"
  then obtain rows ws where n: "n = complete
      (concat (map fst (map cursor_row rows)) @ concat (map fst (map (cursor_composer rows) (filter is_composer rows)))) ws"
    by (auto simp: normalizeCursor_def Let_def split: prod.splits sum.splits)
  show "list_all keyed (n_Events n)"
    using keyed_cursor_row keyed_cursor_composer by (auto simp: n list_all_iff)
  show "n_Status n = status_of (n_Events n) (n_Warnings n)"
    by (simp add: n)
qed

lemma export_status:
  "n_Status (amp_export archived v) = status_of (n_Events (amp_export archived v)) (n_Warnings (amp_export archived v))"
  "n_Status (opencode_export v) = status_of (n_Events (opencode_export v)) (n_Warnings (opencode_export v))"
  "n_Status (codex_thread v) = status_of (n_Events (codex_thread v)) (n_Warnings (codex_thread v))"
  by (simp_all add: amp_export_def opencode_export_def codex_thread_def Let_def split: prod.split)

interpretation amp_run: normalizer "\<lambda>input. normalizeAmp input fs" for fs
  by unfold_locales (auto simp: normalizeAmp_def keyed_amp_export export_status split: prod.splits sum.splits)

interpretation opencode_run: normalizer normalizeOpenCode
  by unfold_locales
    (auto simp: normalizeOpenCode_def keyed_opencode_export export_status split: prod.splits sum.splits)

lemma rollout_contract:
  assumes "normalizeCodexRollout input = Inr n"
  shows "list_all keyed (n_Events n) \<and> n_Status n = status_of (n_Events n) (n_Warnings n)"
proof -
  from assms obtain rs evs ws ws' where n: "codex_rollout [] rs = (evs, ws')" "n = complete evs (ws @ ws')"
    by (auto simp: normalizeCodexRollout_def split: prod.splits sum.splits)
  then show ?thesis using keyed_codex_rollout [of "[]" rs] by simp
qed

interpretation codex_run: normalizer "normalizeCodex adapter" for adapter
  by unfold_locales (auto simp: normalizeCodex_def keyed_codex_thread export_status rollout_contract
      split: prod.splits sum.splits if_splits)

interpretation grok_run: normalizer normalizeGrok
proof
  fix input n
  assume run: "normalizeGrok input = Inr n"
  then consider ws where "n = complete [] ws"
    | rs ws where "n = complete (concat (map fst (map grok_record rs))) ws"
    by (auto simp: normalizeGrok_def Let_def split: prod.splits sum.splits if_splits)
  note cases = this
  show "list_all keyed (n_Events n)"
    using cases by cases (simp_all add: list_all_concat list.pred_map o_def keyed_grok_record list_all_iff [of _ "_ :: sourceRecord list"])
  show "n_Status n = status_of (n_Events n) (n_Warnings n)"
    using cases by cases simp_all
qed

text \<open>A normalizer of the dispatch is one of those.\<close>

lemma normalizer_of_contract: "normalizer_of d = Some f \<Longrightarrow> normalizer f"
  by (auto simp: normalizer_of_def Let_def pi_run.normalizer_axioms claude_run.normalizer_axioms
      cursor_agent_run.normalizer_axioms cursor_run.normalizer_axioms amp_run.normalizer_axioms
      opencode_run.normalizer_axioms codex_run.normalizer_axioms grok_run.normalizer_axioms split: if_splits)

lemma Run_version: "n_Version (fst (Run d src)) = Version (d_Harness d)"
proof (cases "normalizer_of d")
  case None
  then have "Version (d_Harness d) = 0"
    by (auto simp: normalizer_of_def Version_def Let_def split: if_splits)
  with None show ?thesis by (simp add: Run_def zero_Normalization_def)
qed (simp add: Run_def zero_Normalization_def split: sum.split)

text \<open>C7. Normalizing gives events the store accepts, each with a non-empty key; the result has the version of the
  harness, no events beside an error, and without an error the status says what was found: unsupported
  without events, partially parsed with warnings, normalized otherwise.\<close>

theorem Run_accepted:
  "list_all keyed (n_Events (fst (Run d src))) \<and> n_Version (fst (Run d src)) = Version (d_Harness d) \<and>
   (if snd (Run d src) = None then n_Status (fst (Run d src)) = status_of (n_Events (fst (Run d src))) (n_Warnings (fst (Run d src)))
    else n_Events (fst (Run d src)) = [])"
proof (cases "normalizer_of d")
  case None
  then show ?thesis
    using Run_version [of d src] by (simp add: Run_def status_of_def zero_Normalization_def)
next
  case (Some f)
  have f: "normalizer f" by (rule normalizer_of_contract [OF Some])
  show ?thesis
    using Some Run_version [of d src] normalizer.run_keyed [OF f] normalizer.run_status [OF f]
    by (cases "f (newLimitedFS src (source_limit (d_Harness d)))") (simp_all add: Run_def zero_Normalization_def)
qed

end
