(* ===== verification/NormalizeFacts.thy ===== *)
theory NormalizeFacts
  imports Normalize JsonRoundtrip
begin

text \<open>
  What the shared parts of the normalizers promise: the byte budget of a source, the text that is left for
  the search index, and the chain an unordered harness's events are put in.
\<close>

subsection \<open>The byte budget\<close>

lemma readAll_fits:
  "0 < n \<Longrightarrow> length rest \<le> remaining \<Longrightarrow> readAll n remaining rest = (Inr rest, remaining - length rest)"
proof (induction n remaining rest rule: readAll.induct)
  case (1 n remaining rest)
  show ?case
  proof (cases "rest = []")
    case True
    then show ?thesis by (simp add: readAll.simps)
  next
    case False
    define g where "g = take (min n remaining) rest"
    define r where "r = remaining - length g"
    define rest' where "rest' = drop (length g) rest"
    have "0 < remaining" using False "1.prems" by (cases rest) auto
    then have read: "limitedRead remaining n rest = (Inr g, r, rest')" "g \<noteq> []"
      using False "1.prems"(1) by (auto simp: limitedRead_def Let_def g_def r_def rest'_def)
    have parts: "g @ rest' = rest"
      unfolding rest'_def g_def by (simp add: min_def)
    have lens: "length g + length rest' = length rest" using parts by (metis length_append)
    have "readAll n r rest' = (Inr rest', r - length rest')"
      using "1.IH" [OF _ read(1) [symmetric] refl refl read(2)] False 1 lens by (simp add: r_def)
    then show ?thesis
      using False 1 read parts lens by (subst readAll.simps) (simp add: r_def)
  qed
qed

text \<open>C8. Reading a file of a limited source gives the whole file or an error.  What it took from the budget is
  exactly the length of the file; an error takes nothing, and it means there is no such file or the file is
  longer than the budget that is left.\<close>

theorem ReadFile_budget:
  "ReadFile input name =
     (case lf_source input name of
        None \<Rightarrow> (Inl ''file does not exist'', input)
      | Some content \<Rightarrow>
          (if lf_remaining input < length content then (Inl ''normalization source exceeds its byte limit'', input)
           else (Inr content, input\<lparr>lf_remaining := lf_remaining input - length content\<rparr>)))"
  by (simp add: ReadFile_def Open_def readAll_fits split: option.split)

subsection \<open>Searchable text\<close>

text \<open>What may stay in the search index: no field that holds binary data, no inline data URL, no payload of an
  object that says it is encoded, and no nil left over inside.\<close>

fun clean :: "string \<Rightarrow> json \<Rightarrow> bool" where
  "clean key (JStr s) \<longleftrightarrow> \<not> binaryField key \<and> \<not> data_url s"
| "clean key (JArr vs) \<longleftrightarrow> list_all (\<lambda>v. v \<noteq> JNull \<and> clean [] v) vs"
| "clean key (JObj m) \<longleftrightarrow> list_all (\<lambda>kv. snd kv \<noteq> JNull \<and> clean (fst kv) (snd kv)
     \<and> \<not> (encoded_data (JObj m) \<and> EqualFold (fst kv) ''data'')) m"
| "clean key v \<longleftrightarrow> True"

fun distinct_keys :: "json \<Rightarrow> bool" where
  "distinct_keys (JArr vs) \<longleftrightarrow> list_all distinct_keys vs"
| "distinct_keys (JObj m) \<longleftrightarrow> distinct (map fst m) \<and> list_all (\<lambda>kv. distinct_keys (snd kv)) m"
| "distinct_keys v \<longleftrightarrow> True"

lemma searchable_string: "stringValue (searchableValue k v) \<in> {[], stringValue v}"
  by (cases v) (auto simp: stringValue_def)

lemma map_of_searchable:
  assumes "distinct (map fst m)"
  shows "map_of (filter (\<lambda>kv. snd kv \<noteq> JNull \<and> P (fst kv)) (map (\<lambda>kv. (fst kv, f (fst kv) (snd kv))) m)) k =
    (case map_of m k of None \<Rightarrow> None | Some v \<Rightarrow> if f k v \<noteq> JNull \<and> P k then Some (f k v) else None)"
  using assms
proof (induction m)
  case (Cons kv m)
  show ?case
  proof (cases "k = fst kv")
    case True
    with Cons have "map_of m k = None" by (simp add: map_of_eq_None_iff)
    with True Cons show ?thesis by simp
  qed (use Cons in simp)
qed simp

lemma searchable_get:
  assumes "distinct (map fst m)"
  shows "stringValue (get (searchableValue key (JObj m)) k) \<in> {[], stringValue (get (JObj m) k)}"
proof -
  let ?P = "\<lambda>x. \<not> (encoded_data (JObj m) \<and> EqualFold x ''data'')"
  have "get (searchableValue key (JObj m)) k \<in> {JNull, searchableValue k (get (JObj m) k)}"
    using map_of_searchable [OF assms, of ?P searchableValue k] by (simp add: get_def split: option.splits)
  then show ?thesis using searchable_string [of k "get (JObj m) k"] by (auto simp: stringValue_def)
qed

lemma EqualFold_Nil_base64: "\<not> EqualFold [] ''base64''"
  by code_simp

lemma encoded_searchable:
  assumes "distinct (map fst m)" "encoded_data (searchableValue key (JObj m))"
  shows "encoded_data (JObj m)"
  using assms(2) searchable_get [OF assms(1), of key "''type''"] searchable_get [OF assms(1), of key "''encoding''"]
    EqualFold_Nil_base64 by (auto simp: encoded_data_def)

lemma searchable_clean:
  "distinct_keys v \<Longrightarrow> searchableValue key v \<noteq> JNull \<Longrightarrow> clean key (searchableValue key v)"
proof (induction v arbitrary: key)
  case (JArr vs)
  then show ?case by (auto simp: list_all_iff)
next
  case (JObj m)
  define enc where "enc = encoded_data (JObj m)"
  define out where "out = filter (\<lambda>kv. snd kv \<noteq> JNull \<and> \<not> (enc \<and> EqualFold (fst kv) ''data''))
             (map (\<lambda>kv. (fst kv, searchableValue (fst kv) (snd kv))) m)"
  have s: "searchableValue key (JObj m) = JObj out" by (simp add: out_def enc_def)
  have enc: "encoded_data (JObj out) \<Longrightarrow> enc"
    using encoded_searchable [of m key] JObj.prems(1) unfolding s enc_def distinct_keys.simps by blast
  have "clean (fst kv) (searchableValue (fst kv) (snd kv))"
    if "kv \<in> set m" "searchableValue (fst kv) (snd kv) \<noteq> JNull" for kv
  proof -
    have "distinct_keys (snd kv)" using that JObj.prems(1) by (simp add: list_all_iff)
    moreover have "snd kv \<in> Basic_BNFs.snds kv" by (cases kv) simp
    ultimately show ?thesis using JObj.IH [OF that(1)] that(2) by blast
  qed
  then have "snd kv \<noteq> JNull \<and> clean (fst kv) (snd kv) \<and> \<not> (enc \<and> EqualFold (fst kv) ''data'')"
    if "kv \<in> set out" for kv
    using that unfolding out_def by auto
  with enc show ?case unfolding s clean.simps list_all_iff by blast
qed auto

lemma clean_fixed: "clean key v \<Longrightarrow> v \<noteq> JNull \<Longrightarrow> searchableValue key v = v"
proof (induction v arbitrary: key)
  case (JArr vs)
  then have "map (searchableValue []) vs = vs" by (auto simp: list_all_iff intro: map_idI)
  with JArr.prems show ?case by (auto simp: list_all_iff filter_id_conv)
next
  case (JObj m)
  have "searchableValue (fst kv) (snd kv) = snd kv" if "kv \<in> set m" for kv
    using JObj.IH [of kv "snd kv" "fst kv"] JObj.prems that by (cases kv) (auto simp: list_all_iff)
  then have "map (\<lambda>kv. (fst kv, searchableValue (fst kv) (snd kv))) m = m" by (intro map_idI) auto
  with JObj.prems(1) show ?case by (auto simp: list_all_iff filter_id_conv)
qed auto

text \<open>C10. What is left of a value for the search index is clean: nothing in it is binary, inline data or an encoded
  payload, at any depth; and filtering changes nothing but that, since clean values are kept as they
  are, so filtering again is without effect.\<close>

theorem searchableValue_clean:
  assumes "distinct_keys v"
  shows "(searchableValue key v = JNull \<or>
      clean key (searchableValue key v) \<and> searchableValue key (searchableValue key v) = searchableValue key v) \<and>
    (clean key v \<and> v \<noteq> JNull \<longrightarrow> searchableValue key v = v)"
  using searchable_clean [OF assms] clean_fixed by blast

definition demo_tool :: json where
  "demo_tool = JObj [(''blob'', JStr ''y''), (''data'', JStr ''x''), (''type'', JStr ''base64'')]"

theorem searchableValue_clean_witness:
  "searchableValue [] demo_tool = JObj [(''type'', JStr ''base64'')] \<and>
   clean [] (searchableValue [] demo_tool) \<and> searchableValue [] (JStr ''ls'') = JStr ''ls''"
proof -
  have plain: "plain_key ''blob''" "plain_key ''data''" "plain_key ''type''" "plain_key ''base64''" "plain_key ''x''"
    "plain_key ''y''" "plain_key []" "plain_key ''ls''"
    by (simp_all add: plain_key_def upper_ascii_def)
  note eval = demo_tool_def encoded_data_def get_def stringValue_def binaryField_def data_url_def EqualFold_plain plain
    ToLower_plain
  have v: "searchableValue [] demo_tool = JObj [(''type'', JStr ''base64'')]"
    by (simp add: eval)
  have d: "distinct_keys demo_tool" "distinct_keys (JStr ''ls'')" by code_simp+
  have one: "clean [] (JStr ''ls'')" by (simp add: eval)
  have "clean [] (searchableValue [] demo_tool)"
    using conjunct1 [OF searchableValue_clean [OF d(1), of "[]"]] v by (elim disjE) (simp only: json.distinct, blast)
  moreover have "searchableValue [] (JStr ''ls'') = JStr ''ls''"
    using conjunct2 [OF searchableValue_clean [OF d(2), of "[]"]] one by simp
  ultimately show ?thesis using v by (intro conjI)
qed

subsection \<open>File order\<close>

text \<open>The position of the first event with a key, the last key that is a first copy, and the parent an event gets:
  that of the first copy of its key, which is its own or the first copy before it.\<close>

definition first_at :: "Event list \<Rightarrow> string \<Rightarrow> nat" where
  "first_at es k = length (takeWhile (\<lambda>e. e_Key e \<noteq> k) es)"

definition last_key :: "Event list \<Rightarrow> string" where
  "last_key es = (case remdups (rev (map e_Key es)) of [] \<Rightarrow> [] | k # _ \<Rightarrow> k)"

definition own_parent :: "Event list \<Rightarrow> nat \<Rightarrow> string" where
  "own_parent es j = (if e_ParentKey (es ! j) \<noteq> [] then e_ParentKey (es ! j) else last_key (take j es))"

definition parent_in :: "Event list \<Rightarrow> nat \<Rightarrow> string" where
  "parent_in es i = own_parent es (first_at es (e_Key (es ! i)))"

lemma first_at_old: "k \<in> set (map e_Key es) \<Longrightarrow> first_at (es @ es') k = first_at es k \<and> first_at es k < length es"
  by (induction es) (auto simp: first_at_def)

lemma first_at_new: "k \<notin> set (map e_Key es) \<Longrightarrow> first_at (es @ e # es') (e_Key e) = length es" if "k = e_Key e"
  using that by (induction es) (auto simp: first_at_def)

lemma own_parent_append: "j < length es \<Longrightarrow> own_parent (es @ es') j = own_parent es j"
  by (simp add: own_parent_def nth_append)

lemma last_key_snoc: "last_key (es @ [e]) = (if e_Key e \<in> set (map e_Key es) then last_key es else e_Key e)"
  by (simp add: last_key_def)

lemma chain_from_parents:
  assumes "previous = last_key es"
    and "\<And>k. map_of parents k = (if k \<in> set (map e_Key es) then Some (own_parent es (first_at es k)) else None)"
  shows "chain_from parents previous rest =
    map (\<lambda>i. ((es @ rest) ! i)\<lparr>e_ParentKey := parent_in (es @ rest) i\<rparr>) [length es..<length (es @ rest)]"
  using assms
proof (induction rest arbitrary: es parents previous)
  case (Cons e rest)
  define k where "k = e_Key e"
  have split: "[length es..<length (es @ e # rest)] = length es # [length (es @ [e])..<length ((es @ [e]) @ rest)]"
    using upt_conv_Cons [of "length es" "length (es @ e # rest)"] by (simp del: upt_Suc)
  have first: "first_at (es @ e # rest) k = (if k \<in> set (map e_Key es) then first_at es k else length es)"
    "\<And>x. x \<in> set (map e_Key es) \<Longrightarrow> first_at (es @ [e]) x = first_at es x \<and> first_at es x < length es"
    using first_at_old [of k es "e # rest"] first_at_new [of k e es rest] first_at_old [of _ es "[e]"] by (auto simp: k_def)
  show ?case
  proof (cases "k \<in> set (map e_Key es)")
    case True
    then have parent: "map_of parents k = Some (parent_in (es @ e # rest) (length es))"
      using Cons.prems(2) [of k] first_at_old [of k es] own_parent_append [of "first_at es k" es "e # rest"] first(1)
      by (simp add: parent_in_def k_def)
    have "chain_from parents previous rest =
        map (\<lambda>i. (((es @ [e]) @ rest) ! i)\<lparr>e_ParentKey := parent_in ((es @ [e]) @ rest) i\<rparr>)
          [length (es @ [e])..<length ((es @ [e]) @ rest)]"
    proof (rule Cons.IH)
      show "previous = last_key (es @ [e])" using True Cons.prems(1) by (simp add: last_key_snoc k_def)
      fix x
      show "map_of parents x = (if x \<in> set (map e_Key (es @ [e])) then Some (own_parent (es @ [e]) (first_at (es @ [e]) x)) else None)"
        using Cons.prems(2) [of x] True first(2) [of x] own_parent_append [of "first_at es x" es "[e]"] by (auto simp: k_def)
    qed
    with parent show ?thesis unfolding split by (simp add: k_def)
  next
    case False
    define p where "p = own_parent (es @ e # rest) (length es)"
    have p: "p = (if e_ParentKey e \<noteq> [] then e_ParentKey e else previous)" "own_parent (es @ [e]) (length es) = p"
      using Cons.prems(1) by (simp_all add: p_def own_parent_def)
    have at: "parent_in (es @ e # rest) (length es) = p" using False first(1) by (simp add: parent_in_def p_def k_def)
    have new: "first_at (es @ [e]) k = length es" using first_at_new [of k e es "[]"] False by (simp add: k_def)
    have "chain_from ((k, p) # parents) k rest =
        map (\<lambda>i. (((es @ [e]) @ rest) ! i)\<lparr>e_ParentKey := parent_in ((es @ [e]) @ rest) i\<rparr>)
          [length (es @ [e])..<length ((es @ [e]) @ rest)]"
    proof (rule Cons.IH)
      show "k = last_key (es @ [e])" using False by (simp add: last_key_snoc k_def)
      fix x
      show "map_of ((k, p) # parents) x =
          (if x \<in> set (map e_Key (es @ [e])) then Some (own_parent (es @ [e]) (first_at (es @ [e]) x)) else None)"
        using Cons.prems(2) [of x] False first(2) [of x] own_parent_append [of "first_at es x" es "[e]"] new p(2)
        by (auto simp: k_def)
    qed
    moreover have "map_of parents k = None" using Cons.prems(2) [of k] False by simp
    ultimately show ?thesis using p(1) at unfolding split
      by (cases "e_ParentKey e = []") (simp_all add: k_def Let_def del: upt_Suc)
  qed
qed simp

text \<open>C9. Chaining in file order gives every event the parent that the two-pass reading asks for: the first event with
  its key decides, by the parent it brought or else by the nearest earlier event that is no repeated
  copy.  Nothing but parents changes.\<close>

theorem chainInFileOrder_parents:
  "chainInFileOrder es = map (\<lambda>i. (es ! i)\<lparr>e_ParentKey := parent_in es i\<rparr>) [0..<length es]"
  using chain_from_parents [of "[]" "[]" "[]" es] by (simp add: chainInFileOrder_def last_key_def)

end
