(* ===== verification/PiFacts.thy ===== *)
theory PiFacts
  imports NormalizePi
begin

text \<open>
  The order of Pi's entries: the depth-first walk of \<open>orderPiEntries\<close> visits every entry once and every parent
  before its children, except where the parents go round in a cycle, which it reports.
\<close>

definition parents_before :: "piEntry list \<Rightarrow> bool" where
  "parents_before es \<longleftrightarrow> list_all (\<lambda>i. pi_parentID (es ! i) \<notin> set (map pi_id es) \<or>
     pi_parentID (es ! i) \<in> set (map pi_id (take i es))) [0..<length es]"

definition cycle_reported :: "Warning list \<Rightarrow> bool" where
  "cycle_reported ws \<longleftrightarrow> list_ex (\<lambda>w. w_Code w = ''invalid_parent_graph'') ws"

text \<open>A record that is an entry: it has an id and is not a repeated session header.\<close>

definition is_entry :: "sourceRecord \<Rightarrow> bool" where
  "is_entry r \<longleftrightarrow> \<not> (stringValue (get (rec_Value r) ''type'') = ''session'' \<and> get (rec_Value r) ''parentId'' = JNull)
     \<and> stringValue (get (rec_Value r) ''id'') \<noteq> []"

definition entry_ids :: "sourceRecord list \<Rightarrow> string list" where
  "entry_ids rs = map (\<lambda>r. stringValue (get (rec_Value r) ''id'')) (filter is_entry rs)"

subsection \<open>The table\<close>

definition good_table :: "(string \<times> piEntry) list \<Rightarrow> bool" where
  "good_table table \<longleftrightarrow> distinct (map fst table) \<and> (\<forall>(k, e) \<in> set table. pi_id e = k \<and> k \<noteq> [])"

lemma good_table_id: "good_table table \<Longrightarrow> map_of table k = Some e \<Longrightarrow> pi_id e = k \<and> k \<noteq> []"
  by (auto simp: good_table_def dest: map_of_SomeD)

lemma collect_pi_table:
  "good_table table \<Longrightarrow> collect_pi rs table ws = (table', ws') \<Longrightarrow>
   good_table table' \<and> set (map fst table') = set (map fst table) \<union> set (entry_ids rs)"
proof (induction rs arbitrary: table ws)
  case (Cons r rs)
  define k where "k = stringValue (get (rec_Value r) ''id'')"
  show ?case
  proof (cases "is_entry r \<and> map_of table k = None")
    case True
    then have "collect_pi rs (table @ [(k, pi_entry r)]) ws = (table', ws')"
      using Cons.prems(2) by (auto simp: is_entry_def k_def Let_def split: if_splits)
    moreover have "good_table (table @ [(k, pi_entry r)])"
      using True Cons.prems(1) by (auto simp: good_table_def map_of_eq_None_iff pi_entry_def k_def is_entry_def)
    ultimately show ?thesis using Cons.IH True by (auto simp: entry_ids_def k_def)
  next
    case False
    then obtain ws1 where "collect_pi rs table ws1 = (table', ws')"
      using Cons.prems(2) by (auto simp: is_entry_def k_def [symmetric] Let_def split: if_splits option.splits)
    then have "good_table table' \<and> set (map fst table') = set (map fst table) \<union> set (entry_ids rs)"
      using Cons.IH Cons.prems(1) by blast
    moreover have "is_entry r \<Longrightarrow> k \<in> set (map fst table)"
      using False by (metis map_of_eq_None_iff set_map)
    ultimately show ?thesis by (auto simp: entry_ids_def k_def)
  qed
qed (simp add: entry_ids_def)

subsection \<open>The walk\<close>

definition walked :: "(string \<times> piEntry) list \<Rightarrow> piWalk \<Rightarrow> bool" where
  "walked table w \<longleftrightarrow> pw_done w = rev (map pi_id (pw_ordered w)) \<and> distinct (pw_done w)
     \<and> (\<forall>e \<in> set (pw_ordered w). map_of table (pi_id e) = Some e)
     \<and> (cycle_reported (pw_warnings w) \<or>
        (\<forall>i < length (pw_ordered w). pi_parentID (pw_ordered w ! i) \<in> set (map fst table) \<longrightarrow>
           pi_parentID (pw_ordered w ! i) \<in> set (map pi_id (take i (pw_ordered w)))))"

text \<open>What a visit does to the walk: nothing on the path is finished, and the entry visited is finished
  unless it is on the path, which is the cycle that is reported.\<close>

definition visited :: "string list \<Rightarrow> string \<Rightarrow> piWalk \<Rightarrow> piWalk \<Rightarrow> bool" where
  "visited path ident w w' \<longleftrightarrow> set (pw_done w) \<subseteq> set (pw_done w') \<and> set path \<inter> set (pw_done w') = {}
     \<and> (ident \<in> set (pw_done w') \<or> ident \<in> set path \<and> cycle_reported (pw_warnings w'))
     \<and> (cycle_reported (pw_warnings w) \<longrightarrow> cycle_reported (pw_warnings w'))"

lemma cycle_reported_append [simp]: "cycle_reported (ws @ ws') \<longleftrightarrow> cycle_reported ws \<or> cycle_reported ws'"
  by (simp add: cycle_reported_def)

lemma walked_warn: "walked table w \<Longrightarrow> walked table (w\<lparr>pw_warnings := pw_warnings w @ ws\<rparr>)"
  by (auto simp: walked_def)

lemma walked_finish:
  assumes "good_table table" "walked table w" "map_of table ident = Some e" "ident \<notin> set (pw_done w)"
    and "cycle_reported (pw_warnings w) \<or> (pi_parentID e \<in> set (map fst table) \<longrightarrow> pi_parentID e \<in> set (pw_done w))"
  shows "walked table (finish_visit ident e w)"
proof -
  have e: "pi_id e = ident" using good_table_id [OF assms(1, 3)] by simp
  have ids: "set (pw_done w) = set (map pi_id (pw_ordered w))" using assms(2) by (simp add: walked_def)
  have "pi_parentID ((pw_ordered w @ [e]) ! i) \<in> set (map pi_id (take i (pw_ordered w @ [e])))"
    if "\<not> cycle_reported (pw_warnings w)" "i < Suc (length (pw_ordered w))"
      "pi_parentID ((pw_ordered w @ [e]) ! i) \<in> set (map fst table)" for i
  proof (cases "i = length (pw_ordered w)")
    case True
    with that assms(5) ids show ?thesis by simp
  next
    case False
    with that assms(2) show ?thesis by (simp add: walked_def nth_append)
  qed
  with assms e show ?thesis by (auto simp: walked_def finish_visit_def)
qed

lemma visit_pi_walked:
  assumes "good_table table" "walked table w" "ident \<in> set (map fst table)" "set path \<subseteq> set (map fst table)"
    "distinct path" "set path \<inter> set (pw_done w) = {}" "length table < n + length path"
  shows "walked table (visit_pi n table path ident w) \<and> visited path ident w (visit_pi n table path ident w)"
  using assms(2-)
proof (induction n arbitrary: path ident w)
  case 0
  have "card (set path) \<le> card (set (map fst table))" using "0.prems" by (intro card_mono) auto
  also have "\<dots> \<le> length table" by (metis card_length length_map)
  finally have "length path \<le> length table" using "0.prems" by (simp add: distinct_card)
  with "0.prems" show ?case by simp
next
  case (Suc n)
  show ?case
  proof (cases "ident \<in> set (pw_done w) \<or> ident \<in> set path")
    case True
    with Suc.prems show ?thesis
      by (auto simp: visited_def walked_warn cycle_reported_def warning_def)
  next
    case False
    obtain e where e: "map_of table ident = Some e" using Suc.prems(2) by (metis map_of_eq_None_iff not_None_eq set_map)
    let ?p = "pi_parentID e"
    define w1 where "w1 = (if ?p = [] then w else if map_of table ?p \<noteq> None then visit_pi n table (ident # path) ?p w
        else w\<lparr>pw_warnings := pw_warnings w @ [warning ''missing_parent''
          (''Pi entry '' @ ident @ '' references missing parent '' @ ?p)]\<rparr>)"
    have v: "visit_pi (Suc n) table path ident w = finish_visit ident e w1"
      using False e by (simp add: w1_def)
    have w1: "walked table w1 \<and> set (pw_done w) \<subseteq> set (pw_done w1) \<and> set (ident # path) \<inter> set (pw_done w1) = {}
        \<and> (cycle_reported (pw_warnings w) \<longrightarrow> cycle_reported (pw_warnings w1))
        \<and> (cycle_reported (pw_warnings w1) \<or> (?p \<in> set (map fst table) \<longrightarrow> ?p \<in> set (pw_done w1)))"
    proof (cases "?p \<noteq> [] \<and> map_of table ?p \<noteq> None")
      case True
      then have "w1 = visit_pi n table (ident # path) ?p w" by (simp add: w1_def)
      moreover have "?p \<in> set (map fst table)" using True by (metis map_of_eq_None_iff set_map)
      ultimately show ?thesis
        using Suc.IH [of w ?p "ident # path"] Suc.prems False by (auto simp: visited_def)
    next
      case missing: False
      have "[] \<notin> set (map fst table)" using assms(1) by (auto simp: good_table_def)
      then have "?p \<notin> set (map fst table)" using missing by (metis map_of_eq_None_iff set_map)
      then show ?thesis using missing Suc.prems False by (auto simp: w1_def walked_warn simp del: set_map)
    qed
    have "walked table (finish_visit ident e w1)"
      using walked_finish [OF assms(1), of w1 ident e] w1 e by auto
    moreover have "visited path ident w (finish_visit ident e w1)"
      using w1 False by (auto simp: visited_def finish_visit_def)
    ultimately show ?thesis using v by simp
  qed
qed

lemma visit_all_walked:
  assumes "good_table table" "walked table w" "set ids \<subseteq> set (map fst table)"
  shows "walked table (visit_all table ids w) \<and>
    set (pw_done w) \<union> set ids \<subseteq> set (pw_done (visit_all table ids w))"
  using assms(2, 3)
proof (induction ids arbitrary: w)
  case (Cons i ids)
  define w1 where "w1 = visit_pi (Suc (length table)) table [] i w"
  have w1: "walked table w1 \<and> visited [] i w w1"
    unfolding w1_def using visit_pi_walked [OF assms(1), of w i "[]" "Suc (length table)"] Cons.prems by auto
  have "visit_all table (i # ids) w = visit_all table ids w1"
    by (simp add: visit_all_def w1_def)
  with Cons.IH [of w1] Cons.prems w1 show ?case by (auto simp: visited_def)
qed (simp add: visit_all_def)

subsection \<open>The models\<close>

lemma assign_models_frame [simp]:
  "map pi_id (assign_models cs es) = map pi_id es" "map pi_parentID (assign_models cs es) = map pi_parentID es"
  "map pi_record (assign_models cs es) = map pi_record es" "length (assign_models cs es) = length es"
  by (induction cs es rule: assign_models.induct) (simp_all add: Let_def)

text \<open>The model of an entry: its own for a model change, else the parent's.\<close>

definition own_model :: "piEntry \<Rightarrow> (string \<times> string) option" where
  "own_model e = (let v = rec_Value (pi_record e)
     in if stringValue (get v ''type'') = ''model_change''
        then Some (stringValue (get v ''modelId''), stringValue (get v ''provider'')) else None)"

definition inherited_model :: "piEntry list \<Rightarrow> piEntry \<Rightarrow> string \<times> string" where
  "inherited_model es e =
     (case find (\<lambda>f. pi_id f = pi_parentID e) es of Some f \<Rightarrow> (pi_model f, pi_provider f) | None \<Rightarrow> ([], []))"

definition models_inherited :: "piEntry list \<Rightarrow> bool" where
  "models_inherited es \<longleftrightarrow> list_all (\<lambda>i. (pi_model (es ! i), pi_provider (es ! i)) =
     (case own_model (es ! i) of Some m \<Rightarrow> m | None \<Rightarrow> inherited_model (take i es) (es ! i))) [0..<length es]"

lemma assign_models_inherit:
  assumes "distinct (map pi_id (es @ rest))"
    and "\<And>k. map_of cs k = map_option (\<lambda>f. \<lparr>pc_model = pi_model f, pc_provider = pi_provider f\<rparr>) (find (\<lambda>f. pi_id f = k) es)"
    and "i < length rest"
  shows "(pi_model (assign_models cs rest ! i), pi_provider (assign_models cs rest ! i)) =
    (case own_model (assign_models cs rest ! i) of Some m \<Rightarrow> m
     | None \<Rightarrow> inherited_model (es @ take i (assign_models cs rest)) (assign_models cs rest ! i))"
  using assms
proof (induction rest arbitrary: es cs i)
  case (Cons e rest)
  define m where "m = (if stringValue (get (rec_Value (pi_record e)) ''type'') = ''model_change''
      then \<lparr>pc_model = stringValue (get (rec_Value (pi_record e)) ''modelId''),
            pc_provider = stringValue (get (rec_Value (pi_record e)) ''provider'')\<rparr>
      else case map_of cs (pi_parentID e) of Some c \<Rightarrow> c | None \<Rightarrow> no_context)"
  define e' where "e' = e\<lparr>pi_model := pc_model m, pi_provider := pc_provider m\<rparr>"
  have step: "assign_models cs (e # rest) = e' # assign_models ((pi_id e, m) # cs) rest"
    by (simp add: m_def e'_def Let_def)
  have same: "pi_id e' = pi_id e" "pi_parentID e' = pi_parentID e" "pi_record e' = pi_record e"
    "pi_model e' = pc_model m" "pi_provider e' = pc_provider m" by (simp_all add: e'_def)
  show ?case
  proof (cases i)
    case 0
    then show ?thesis unfolding step
      using Cons.prems(2) [of "pi_parentID e"]
      by (auto simp: own_model_def inherited_model_def same m_def no_context_def Let_def split: option.splits)
  next
    case (Suc j)
    have new: "find (\<lambda>f. pi_id f = pi_id e) es = None" using Cons.prems(1) by (auto simp: find_None_iff image_iff)
    have "find (\<lambda>f. pi_id f = k) (es @ [e']) = (if k = pi_id e then Some e' else find (\<lambda>f. pi_id f = k) es)" for k
    proof -
      have "find P (es @ [e']) = (case find P es of Some f \<Rightarrow> Some f | None \<Rightarrow> if P e' then Some e' else None)" for P
        by (induction es) auto
      then show ?thesis using new by (auto simp: same split: option.splits)
    qed
    moreover have "\<lparr>pc_model = pc_model m, pc_provider = pc_provider m\<rparr> = m" by simp
    ultimately have cs: "map_of ((pi_id e, m) # cs) k =
        map_option (\<lambda>f. \<lparr>pc_model = pi_model f, pc_provider = pi_provider f\<rparr>) (find (\<lambda>f. pi_id f = k) (es @ [e']))" for k
      using Cons.prems(2) [of k] by (simp add: same)
    have "distinct (map pi_id ((es @ [e']) @ rest))" using Cons.prems(1) same by simp
    from Cons.IH [OF this cs, of j] Cons.prems(3) Suc show ?thesis unfolding step by (simp cong: option.case_cong)
  qed
qed simp

lemma models_inherited_assign: "distinct (map pi_id es) \<Longrightarrow> models_inherited (assign_models [] es)"
  using assign_models_inherit [of "[]" es "[]"]
  by (auto simp: models_inherited_def list_all_iff simp del: prod.inject cong: option.case_cong)

subsection \<open>The order\<close>

definition first_record :: "sourceRecord list \<Rightarrow> string \<Rightarrow> sourceRecord option" where
  "first_record rs k = find (\<lambda>r. is_entry r \<and> stringValue (get (rec_Value r) ''id'') = k) rs"

lemma collect_pi_first:
  "collect_pi rs table ws = (table', ws') \<Longrightarrow>
   map_of table' k = (case map_of table k of Some e \<Rightarrow> Some e | None \<Rightarrow> map_option pi_entry (first_record rs k))"
proof (induction rs arbitrary: table ws)
  case (Cons r rs)
  define i where "i = stringValue (get (rec_Value r) ''id'')"
  show ?case
  proof (cases "is_entry r \<and> map_of table i = None")
    case True
    then have "collect_pi rs (table @ [(i, pi_entry r)]) ws = (table', ws')"
      using Cons.prems by (auto simp: is_entry_def i_def Let_def split: if_splits)
    from Cons.IH [OF this] True show ?thesis
      by (auto simp: first_record_def i_def [symmetric] map_add_def split: option.splits)
  next
    case False
    then obtain ws1 where "collect_pi rs table ws1 = (table', ws')"
      using Cons.prems by (auto simp: is_entry_def i_def [symmetric] Let_def split: if_splits option.splits)
    from Cons.IH [OF this] False show ?thesis
      by (auto simp: first_record_def i_def split: option.splits)
  qed
qed (simp add: first_record_def split: option.split)

text \<open>C11. The walk over a session's entries ends with every entry once: the ids are those of the records that are
  entries, each standing for the first record that has it.  Unless a cycle is reported every
  entry comes after its parent.  The model of an entry is its own for a model change and its
  parent's otherwise.\<close>

theorem orderPiEntries_order:
  "case orderPiEntries rs of (es, ws) \<Rightarrow>
     distinct (map pi_id es) \<and> set (map pi_id es) = set (entry_ids rs)
     \<and> list_all (\<lambda>e. first_record rs (pi_id e) = Some (pi_record e)) es
     \<and> (parents_before es \<or> cycle_reported ws) \<and> models_inherited es"
proof -
  obtain table ws0 where c: "collect_pi rs [] [] = (table, ws0)" by force
  then have table: "good_table table" "set (map fst table) = set (entry_ids rs)"
    using collect_pi_table [of "[]" rs "[]" table ws0] by (simp_all add: good_table_def)
  define w where "w = visit_all table (sort (map fst table)) \<lparr>pw_done = [], pw_ordered = [], pw_warnings = ws0\<rparr>"
  have o: "orderPiEntries rs = (assign_models [] (pw_ordered w), pw_warnings w)"
    by (simp add: orderPiEntries_def c w_def Let_def)
  have "walked table \<lparr>pw_done = [], pw_ordered = [], pw_warnings = ws0\<rparr>" by (simp add: walked_def)
  from visit_all_walked [OF table(1) this, of "sort (map fst table)"]
  have w: "walked table w \<and> set (map fst table) \<subseteq> set (pw_done w)" unfolding w_def by simp
  let ?es = "assign_models [] (pw_ordered w)"
  have ids: "map pi_id ?es = rev (pw_done w)" using w by (simp add: walked_def)
  have d: "distinct (map pi_id (pw_ordered w))" using w by (metis distinct_rev walked_def)
  have from_table: "map_of table (pi_id e) = Some e" if "e \<in> set (pw_ordered w)" for e using w that by (simp add: walked_def)
  then have "set (map pi_id (pw_ordered w)) \<subseteq> set (map fst table)"
    by (metis (no_types, lifting) domIff dom_map_of_conv_image_fst image_subsetI list.set_map option.distinct(1))
  moreover have done_ids: "set (pw_done w) = set (map pi_id (pw_ordered w))"
    using w unfolding walked_def by (metis set_rev)
  ultimately have all: "set (map pi_id ?es) = set (entry_ids rs)"
    using w table(2) unfolding assign_models_frame by blast
  have "first_record rs (pi_id (?es ! i)) = Some (pi_record (?es ! i))" if "i < length ?es" for i
  proof -
    have i: "i < length (pw_ordered w)" using that by simp
    have "map pi_id ?es ! i = map pi_id (pw_ordered w) ! i" "map pi_record ?es ! i = map pi_record (pw_ordered w) ! i"
      by (simp_all only: assign_models_frame)
    then have "pi_id (?es ! i) = pi_id (pw_ordered w ! i)" "pi_record (?es ! i) = pi_record (pw_ordered w ! i)"
      by (simp_all only: nth_map [OF that] nth_map [OF i])
    moreover have "map_of table (pi_id (pw_ordered w ! i)) = Some (pw_ordered w ! i)" using that from_table by simp
    ultimately have "map_option pi_entry (first_record rs (pi_id (?es ! i))) = Some (pw_ordered w ! i)"
      using collect_pi_first [OF c, of "pi_id (pw_ordered w ! i)"] by simp
    then obtain r where "first_record rs (pi_id (?es ! i)) = Some r" "pw_ordered w ! i = pi_entry r" by auto
    with \<open>pi_record (?es ! i) = _\<close> show ?thesis by (simp add: pi_entry_def)
  qed
  then have first: "list_all (\<lambda>e. first_record rs (pi_id e) = Some (pi_record e)) ?es"
    by (simp add: list_all_length)
  have parents: "pi_parentID (?es ! i) = pi_parentID (pw_ordered w ! i)"
    "map pi_id (take i ?es) = map pi_id (take i (pw_ordered w))" if "i < length (pw_ordered w)" for i
  proof -
    have "map pi_parentID ?es ! i = map pi_parentID (pw_ordered w) ! i" by (simp only: assign_models_frame)
    moreover have "i < length ?es" using that by simp
    ultimately show "pi_parentID (?es ! i) = pi_parentID (pw_ordered w ! i)"
      by (simp only: nth_map that)
    show "map pi_id (take i ?es) = map pi_id (take i (pw_ordered w))" by (simp only: take_map [symmetric] assign_models_frame)
  qed
  have "parents_before ?es \<or> cycle_reported (pw_warnings w)"
  proof (cases "cycle_reported (pw_warnings w)")
    case False
    then have "pi_parentID (pw_ordered w ! i) \<in> set (map pi_id (take i (pw_ordered w)))"
      if "i < length (pw_ordered w)" "pi_parentID (pw_ordered w ! i) \<in> set (map fst table)" for i
      using w that unfolding walked_def by blast
    then have "parents_before ?es"
      unfolding parents_before_def all table(2) [symmetric] list_all_iff
      by (auto simp only: parents assign_models_frame atLeastLessThan_iff set_upt)
    then show ?thesis ..
  qed simp
  then show ?thesis using o d all first models_inherited_assign [OF d] by (simp del: set_map)
qed

end
