(* ===== verification/SearchText.thy ===== *)
theory SearchText
  imports Utf8
begin

text \<open>
  \<open>internal/search/text.go\<close>: cutting an Event's search text into the chunks the index stores,
  and cutting the snippet a result shows.  Both walk byte offsets back or forward to a rune
  boundary; an offset that leaves the text is a Go panic and a loop that makes no progress does
  not return, and both are \<open>None\<close> here.  The lemmas show that valid UTF-8 text never gets there,
  that a literal short enough lies whole in one chunk, and what a snippet keeps.
\<close>

definition chunkBytes :: nat where "chunkBytes = 16 * 1024"
definition ChunkOverlap :: nat where "ChunkOverlap = 1024"
definition UTFMax :: nat where "UTFMax = 4"

text \<open>\<open>for end < len(text) && !utf8.RuneStart(text[end]) { end-- }\<close>\<close>

fun back_to_start :: "string \<Rightarrow> nat \<Rightarrow> nat option" where
  "back_to_start str e =
     (if e < length str \<and> \<not> RuneStart (str ! e)
      then (case e of 0 \<Rightarrow> None | Suc e' \<Rightarrow> back_to_start str e')
      else Some e)"

declare back_to_start.simps [simp del]

text \<open>\<open>for !utf8.RuneStart(text[start]) { start++ }\<close>; reading past the end panics.\<close>

function forward_to_start :: "string \<Rightarrow> nat \<Rightarrow> nat option" where
  "forward_to_start str i =
     (if length str \<le> i then None
      else if RuneStart (str ! i) then Some i
      else forward_to_start str (Suc i))"
  by pat_completeness auto
termination
  by (relation "measure (\<lambda>(str, i). length str - i)") auto

declare forward_to_start.simps [simp del]

partial_function (option) chunks_from :: "string \<Rightarrow> nat \<Rightarrow> string list option" where
  "chunks_from str start =
     (if start < length str
      then (case back_to_start str (min (start + chunkBytes) (length str)) of
              None \<Rightarrow> None
            | Some e \<Rightarrow>
                (if e < start then None
                 else if e = length str then Some [slice start e str]
                 else (case forward_to_start str (e - min ChunkOverlap (e - start)) of
                         None \<Rightarrow> None
                       | Some next \<Rightarrow>
                           Option.bind (chunks_from str next)
                             (\<lambda>cs. Some (slice start e str # cs)))))
      else Some [])"

definition Chunks :: "string \<Rightarrow> string list option" where
  "Chunks str = (if str = [] then Some [] else chunks_from str 0)"

subsection \<open>Snippets\<close>

definition mark :: string where "mark = [CHR 0xE2, CHR 0x80, CHR 0xA6]"
definition snippet_radius :: nat where "snippet_radius = 120"
definition snippet_word :: nat where "snippet_word = 40"

definition blank :: "char \<Rightarrow> bool" where
  "blank c \<longleftrightarrow> c \<in> {CHR '' '', CHR 0x09, CHR 0x0A}"

text \<open>The clamped match, the cut before word and rune edges, and the edges themselves.\<close>

definition clamp_index :: "int \<Rightarrow> int \<Rightarrow> nat \<Rightarrow> nat" where
  "clamp_index lo i n = nat (max lo (min i (int n)))"

definition word_start :: "string \<Rightarrow> nat \<Rightarrow> nat \<Rightarrow> nat" where
  "word_start str start matchStart =
     (if 0 < start
      then (case IndexByte (slice start (min matchStart (start + snippet_word)) str) blank of
              None \<Rightarrow> start | Some sp \<Rightarrow> start + (sp + 1))
      else start)"

definition word_end :: "string \<Rightarrow> nat \<Rightarrow> nat \<Rightarrow> nat" where
  "word_end str e matchEnd =
     (if e < length str \<and> matchEnd < e
      then (let lo = max matchEnd (e - snippet_word)
            in case LastIndexByte (slice lo e str) blank of None \<Rightarrow> e | Some sp \<Rightarrow> lo + sp)
      else e)"

definition SnippetRange :: "string \<Rightarrow> int \<Rightarrow> int \<Rightarrow> string option" where
  "SnippetRange str ms me =
     (let n = length str;
          matchStart = clamp_index 0 ms n;
          matchEnd = clamp_index (int matchStart) me n;
          start = matchStart - snippet_radius;
          e = min n (min (matchEnd + snippet_radius) (start + 480 - 2 * length mark));
          start = word_start str start matchStart;
          e = word_end str e matchEnd
      in case (if 0 < start then forward_to_start str start else Some start) of
           None \<Rightarrow> None
         | Some start \<Rightarrow>
             (case back_to_start str e of
                None \<Rightarrow> None
              | Some e \<Rightarrow>
                  (if e < start then None
                   else Some ((if 0 < start then mark else []) @ slice start e str
                              @ (if e < n then mark else [])))))"

text \<open>\<open>regexp.MustCompile("(?i)" + QuoteMeta(query)).FindStringIndex\<close> needs the Unicode folding
  tables of the regexp engine, so the case-insensitive search is a parameter.\<close>

definition Snippet ::
  "(string \<Rightarrow> string \<Rightarrow> (nat \<times> nat) option) \<Rightarrow> string \<Rightarrow> string \<Rightarrow> string option" where
  "Snippet fold_find str query =
     (case Index str query of
        Some i \<Rightarrow> SnippetRange str (int i) (int (i + length query))
      | None \<Rightarrow>
          (case fold_find str query of
             Some (lo, hi) \<Rightarrow> SnippetRange str (int lo) (int hi)
           | None \<Rightarrow> SnippetRange str 0 0))"

subsection \<open>Walking to a rune boundary\<close>

lemma back_to_start_valid:
  assumes "ValidString str" "e \<le> length str"
  shows "\<exists>e'. back_to_start str e = Some e' \<and> e' \<le> e \<and> e \<le> e' + 3 \<and>
              (e' < length str \<longrightarrow> RuneStart (str ! e'))"
proof (cases "e = length str")
  case True
  then show ?thesis by (simp add: back_to_start.simps)
next
  case False
  with assms obtain j where j: "j \<le> e" "e \<le> j + 3" "RuneStart (str ! j)"
    using valid_prev_start [of str e] by auto
  have "\<exists>e'. back_to_start str k = Some e' \<and> j \<le> e' \<and> e' \<le> k \<and> RuneStart (str ! e')"
    if "j \<le> k" "k \<le> e" for k
    using that
  proof (induction k)
    case 0
    with j False assms show ?case by (simp add: back_to_start.simps)
  next
    case (Suc k)
    with j False assms show ?case
      by (cases "RuneStart (str ! Suc k)"; cases "j = Suc k")
        (auto simp: back_to_start.simps [of str "Suc k"] intro: le_SucI)
  qed
  from this [of e] j show ?thesis by auto
qed

lemma back_to_start_stop:
  "back_to_start str e = Some e' \<Longrightarrow> m \<le> e \<Longrightarrow> m = length str \<or> RuneStart (str ! m) \<Longrightarrow> m \<le> e'"
proof (induction str e rule: back_to_start.induct)
  case (1 str e)
  then show ?case
    by (auto simp: back_to_start.simps [of str e] le_Suc_eq split: if_splits nat.splits)
qed

lemma forward_to_start_valid:
  assumes "ValidString str" "i + 3 < length str"
  shows "\<exists>i'. forward_to_start str i = Some i' \<and> i \<le> i' \<and> i' \<le> i + 3 \<and> RuneStart (str ! i')"
proof -
  obtain j where j: "i \<le> j" "j \<le> i + 3" "RuneStart (str ! j)"
    and c: "\<And>k. i \<le> k \<Longrightarrow> k < j \<Longrightarrow> cont (str ! k)"
    using valid_next_start [of str i] assms by auto
  have "forward_to_start str (j - k) = Some j" if "k \<le> j - i" for k
    using that
  proof (induction k)
    case 0
    with j assms show ?case by (simp add: forward_to_start.simps)
  next
    case (Suc k)
    then have "cont (str ! (j - Suc k))" by (intro c) auto
    moreover have "Suc (j - Suc k) = j - k" using Suc by simp
    ultimately show ?case
      using Suc j assms by (simp add: forward_to_start.simps [of str "j - Suc k"])
  qed
  from this [of "j - i"] j show ?thesis by auto
qed

subsection \<open>Chunks\<close>

lemma Contains_slice:
  assumes "a \<le> i" "i \<le> j" "j \<le> b"
  shows "Contains (slice a b xs) (slice i j xs)"
proof -
  have "slice a b xs = slice a i xs @ slice i j xs @ slice j b xs"
    using assms by (simp add: slice_append)
  then show ?thesis by (auto simp: Contains_iff)
qed

text \<open>Every chunk is a non-empty slice within the size limit, and a span of at most
  \<open>ChunkOverlap - UTFMax\<close> bytes that starts at or after \<open>start\<close> lies in one of them.\<close>

definition chunks_ok :: "string \<Rightarrow> nat \<Rightarrow> string list \<Rightarrow> bool" where
  "chunks_ok str start cs \<longleftrightarrow>
     (\<forall>c \<in> set cs. c \<noteq> [] \<and> length c \<le> chunkBytes \<and> Contains str c) \<and>
     (\<forall>i j. start \<le> i \<longrightarrow> i \<le> j \<longrightarrow> j \<le> length str \<longrightarrow> j - i \<le> ChunkOverlap - UTFMax \<longrightarrow>
        (\<exists>c \<in> set cs. Contains c (slice i j str)))"

lemma slice_chunk:
  assumes "start < e" "e \<le> length str" "e \<le> start + chunkBytes"
  shows "slice start e str \<noteq> [] \<and> length (slice start e str) \<le> chunkBytes \<and>
         Contains str (slice start e str)"
  using assms length_slice [of e str start] Contains_slice [of 0 start e "length str" str] by auto

lemma chunks_ok_last:
  assumes "start < length str" "length str \<le> start + chunkBytes"
  shows "chunks_ok str start [slice start (length str) str]"
  using slice_chunk [of start "length str" str] assms
  by (auto simp: chunks_ok_def intro: Contains_slice)

lemma chunks_ok_step:
  assumes "chunks_ok str next cs" "start < e" "e \<le> length str" "e \<le> start + chunkBytes"
    and "next + (ChunkOverlap - UTFMax) \<le> e"
  shows "chunks_ok str start (slice start e str # cs)"
  unfolding chunks_ok_def
proof (intro conjI ballI allI impI)
  fix c assume "c \<in> set (slice start e str # cs)"
  then show "c \<noteq> []" "length c \<le> chunkBytes" "Contains str c"
    using slice_chunk [of start e str] assms by (auto simp: chunks_ok_def)
next
  fix i j assume ij: "start \<le> i" "i \<le> j" "j \<le> length str" "j - i \<le> ChunkOverlap - UTFMax"
  show "\<exists>c \<in> set (slice start e str # cs). Contains c (slice i j str)"
  proof (cases "j \<le> e")
    case True
    with ij show ?thesis by (auto intro: Contains_slice)
  next
    case False
    with ij assms(5) have "next \<le> i" by linarith
    with ij assms(1) show ?thesis by (auto simp: chunks_ok_def)
  qed
qed

lemma chunks_from_ok:
  assumes "ValidString str" "start < length str"
  shows "\<exists>cs. chunks_from str start = Some cs \<and> chunks_ok str start cs"
  using assms(2)
proof (induction "length str - start" arbitrary: start rule: less_induct)
  case less
  let ?e0 = "min (start + chunkBytes) (length str)"
  obtain e where e: "back_to_start str ?e0 = Some e" "e \<le> ?e0" "?e0 \<le> e + 3"
    using back_to_start_valid [OF assms(1), of ?e0] by auto
  show ?case
  proof (cases "length str \<le> start + chunkBytes")
    case True
    then have "e = length str"
      using e(1) by (simp add: min_def back_to_start.simps split: if_splits)
    with e(1) less.prems show ?thesis
      using chunks_ok_last [OF less.prems True] by (auto simp: chunks_from.simps [of str start])
  next
    case False
    then have e': "start + chunkBytes \<le> e + 3" "e < length str" "e \<le> start + chunkBytes"
      using e by auto
    then have "start + ChunkOverlap < e" "\<not> e < start"
      by (auto simp: chunkBytes_def ChunkOverlap_def)
    then have mn: "min ChunkOverlap (e - start) = ChunkOverlap" by simp
    have "e - ChunkOverlap + 3 < length str"
      using e' \<open>start + ChunkOverlap < e\<close> by (simp add: ChunkOverlap_def)
    then obtain nx where nx: "forward_to_start str (e - ChunkOverlap) = Some nx"
        "e - ChunkOverlap \<le> nx" "nx \<le> e - ChunkOverlap + 3"
      using forward_to_start_valid [OF assms(1)] by blast
    have step: "start < nx" "nx < length str" "nx + (ChunkOverlap - UTFMax) \<le> e" "start < e"
      using nx e' by (auto simp: chunkBytes_def ChunkOverlap_def UTFMax_def)
    then obtain cs where cs: "chunks_from str nx = Some cs" "chunks_ok str nx cs"
      using less.hyps [of nx] less.prems by (meson diff_less_mono2)
    have "chunks_from str start = Some (slice start e str # cs)"
      using e(1) e' nx(1) cs(1) less.prems \<open>\<not> e < start\<close> mn
      by (subst chunks_from.simps) simp
    with chunks_ok_step [OF cs(2)] step e' show ?thesis by auto
  qed
qed

lemma Chunks_parts:
  assumes "ValidString str"
  obtains cs where "Chunks str = Some cs"
    "\<forall>c \<in> set cs. c \<noteq> [] \<and> length c \<le> chunkBytes \<and> Contains str c"
    "\<And>part. part \<noteq> [] \<Longrightarrow> length part \<le> ChunkOverlap - UTFMax \<Longrightarrow> Contains str part \<Longrightarrow> \<exists>c \<in> set cs. Contains c part"
proof (cases "str = []")
  case True
  then show thesis using that [of "[]"] by (auto simp: Chunks_def Contains_iff)
next
  case False
  then obtain cs where cs: "Chunks str = Some cs" "chunks_ok str 0 cs"
    using chunks_from_ok [OF assms, of 0] by (auto simp: Chunks_def)
  have "\<exists>c \<in> set cs. Contains c part"
    if "length part \<le> ChunkOverlap - UTFMax" "Contains str part" for part
  proof -
    from that(2) obtain u v where uv: "str = u @ part @ v" by (auto simp: Contains_iff)
    then have "slice (length u) (length u + length part) str = part" by (simp add: slice_def)
    moreover have "length u + length part \<le> length str" using uv by simp
    ultimately show ?thesis
      using cs(2) that(1) unfolding chunks_ok_def
      by (metis add_diff_cancel_left' le0 le_add1)
  qed
  moreover have "\<forall>c \<in> set cs. c \<noteq> [] \<and> length c \<le> chunkBytes \<and> Contains str c"
    using cs(2) by (simp add: chunks_ok_def)
  ultimately show thesis using that cs(1) by blast
qed

text \<open>C1. Cutting valid UTF-8 text into chunks always finishes, without an index panic; every chunk is a
  non-empty part of the text of at most 16 KiB; and any part of the text of at most
  \<open>ChunkOverlap-utf8.UTFMax\<close> = 1020 bytes lies whole inside one chunk, which is what the index
  relies on when it looks a phrase up chunk by chunk.\<close>

theorem Chunks_cover:
  assumes "ValidString str"
  shows "\<exists>cs. Chunks str = Some cs \<and>
    (\<forall>c \<in> set cs. c \<noteq> [] \<and> length c \<le> chunkBytes \<and> Contains str c) \<and>
    (\<forall>part. part \<noteq> [] \<longrightarrow> length part \<le> ChunkOverlap - UTFMax \<longrightarrow> Contains str part \<longrightarrow>
       (\<exists>c \<in> set cs. Contains c part))"
  using Chunks_parts [OF assms] by metis

theorem Chunks_cover_witness:
  "\<exists>cs. Chunks ''grep the chunk'' = Some cs \<and> (\<exists>c \<in> set cs. Contains c ''the'')"
proof -
  have "ValidString ''grep the chunk''" by (rule ascii_ValidString) simp
  from Chunks_cover [OF this] obtain cs where cs: "Chunks ''grep the chunk'' = Some cs"
      "\<forall>part. part \<noteq> [] \<longrightarrow> length part \<le> ChunkOverlap - UTFMax \<longrightarrow>
         Contains ''grep the chunk'' part \<longrightarrow> (\<exists>c \<in> set cs. Contains c part)" by blast
  moreover have "Contains ''grep the chunk'' ''the''"
    by (simp add: Contains_def Index_Cons)
  ultimately show ?thesis by (auto simp: ChunkOverlap_def UTFMax_def)
qed

subsection \<open>What a snippet keeps\<close>

lemma IndexByte_bound: "IndexByte s P = Some i \<Longrightarrow> i < length s"
  using length_takeWhile_le [of "\<lambda>c. \<not> P c" s]
  by (auto simp: IndexByte_def Let_def le_neq_implies_less split: if_splits)

lemma LastIndexByte_bound: "LastIndexByte s P = Some i \<Longrightarrow> i < length s"
  using length_takeWhile_le [of "\<lambda>c. \<not> P c" "rev s"]
  by (auto simp: LastIndexByte_def Let_def split: if_splits)

lemma word_start_bounds:
  "start \<le> word_start str start m \<and> word_start str start m \<le> start + snippet_word \<and>
   (0 < word_start str start m \<longrightarrow> 0 < start)"
proof -
  have "start + (sp + 1) \<le> start + snippet_word"
    if "IndexByte (slice start (min m (start + snippet_word)) str) blank = Some sp" for sp
    using IndexByte_bound [OF that] length_slice_le [of start "min m (start + snippet_word)" str] by simp
  then show ?thesis by (auto simp: word_start_def split: option.splits)
qed

lemma word_end_bounds: "word_end str e m \<le> e \<and> min e m \<le> word_end str e m"
proof -
  have "max m (e - snippet_word) + sp \<le> e"
    if "LastIndexByte (slice (max m (e - snippet_word)) e str) blank = Some sp" "m < e" for sp
    using LastIndexByte_bound [OF that(1)] length_slice_le [of "max m (e - snippet_word)" e str]
      that(2) by linarith
  then show ?thesis by (auto simp: word_end_def Let_def split: option.splits)
qed

lemma clamp_index_bounds:
  "0 \<le> lo \<Longrightarrow> lo \<le> int n \<Longrightarrow> lo \<le> int (clamp_index lo i n) \<and> clamp_index lo i n \<le> n"
  by (auto simp: clamp_index_def)

text \<open>The bounds of the cut, named as in the code: after clamping and the word edges, the cut starts at
  most 43 bytes after \<open>start\<close> and ends at most 474 bytes after it, on rune edges.\<close>

lemma SnippetRange_cut:
  fixes ms me :: int
  assumes valid: "ValidString str"
  defines "a \<equiv> clamp_index 0 ms (length str)"
  defines "b \<equiv> clamp_index (int a) me (length str)"
  shows "\<exists>i j. SnippetRange str ms me =
      Some ((if 0 < i then mark else []) @ slice i j str @ (if j < length str then mark else []))
    \<and> i \<le> j \<and> j \<le> length str \<and> j \<le> i + 474 \<and> i \<le> a \<and> a \<le> b \<and> b \<le> length str
    \<and> (b \<le> a + 354 \<longrightarrow> b = length str \<or> RuneStart (str ! b) \<longrightarrow> b \<le> j)"
proof -
  let ?n = "length str" and ?s = "a - snippet_radius"
  let ?e = "min ?n (min (b + snippet_radius) (?s + 480 - 2 * length mark))"
  define i where "i = word_start str ?s a"
  define j where "j = word_end str ?e b"
  have ab: "a \<le> b" "b \<le> ?n" "a \<le> ?n"
    using clamp_index_bounds [of 0 ?n ms] clamp_index_bounds [of "int a" ?n me]
    by (auto simp: a_def b_def)
  have i: "?s \<le> i" "i \<le> ?s + 40" "0 < i \<longrightarrow> 120 < a"
    using word_start_bounds [of ?s str a] by (auto simp: i_def snippet_word_def snippet_radius_def)
  have j: "j \<le> ?e" "min ?e b \<le> j"
    using word_end_bounds [of str ?e b] by (auto simp: j_def)
  have e: "?e \<le> ?n" "?e \<le> ?s + 474" "min ?n (min b (?s + 474)) \<le> ?e"
    by (auto simp: mark_def snippet_radius_def)
  obtain i' where i': "(if 0 < i then forward_to_start str i else Some i) = Some i'"
      "i \<le> i'" "i' \<le> i + 3" "i = 0 \<longrightarrow> i' = 0"
  proof (cases "0 < i")
    case True
    then have "i + 3 < ?n" using i ab by (simp add: snippet_radius_def)
    then obtain i' where "forward_to_start str i = Some i'" "i \<le> i'" "i' \<le> i + 3"
      using forward_to_start_valid [OF valid] by blast
    with True that [of i'] show thesis by simp
  qed (use that [of 0] in simp)
  obtain j' where j': "back_to_start str j = Some j'" "j' \<le> j" "j \<le> j' + 3"
    using back_to_start_valid [OF valid order_trans [OF j(1) e(1)]] by blast
  have le: "i' \<le> j' \<and> i' \<le> a"
  proof (cases "i = 0")
    case False
    then have s: "?s + 120 = a" using i by (auto simp: snippet_radius_def)
    then have "a \<le> ?e" using ab by (simp add: mark_def snippet_radius_def)
    then have "a \<le> j" using j(2) ab by (meson min.boundedI order_trans)
    with s i(2) i'(3) j'(3) show ?thesis by linarith
  qed (use i' in simp)
  have keep: "b \<le> j'" if "b \<le> a + 354" "b = ?n \<or> RuneStart (str ! b)"
  proof -
    have "b \<le> ?s + 474" using that(1) ab(1) by (simp add: snippet_radius_def)
    then have "b \<le> ?e" using ab by (simp add: mark_def snippet_radius_def)
    then have "b \<le> j" using j(2) by (meson min.boundedI order_refl order_trans)
    with that(2) show ?thesis using back_to_start_stop [OF j'(1)] by blast
  qed
  have "SnippetRange str ms me =
      Some ((if 0 < i' then mark else []) @ slice i' j' str @ (if j' < ?n then mark else []))"
    unfolding SnippetRange_def Let_def a_def [symmetric] b_def [symmetric] i_def [symmetric]
      j_def [symmetric] i'(1) option.case j'(1)
    using le by simp
  moreover have "j' \<le> ?n" using j'(2) j(1) e(1) by (meson order_trans)
  moreover have "j' \<le> i' + 474"
  proof -
    have "j' \<le> ?s + 474" using j'(2) j(1) e(2) by (meson order_trans)
    with i(1) i'(2) show ?thesis by linarith
  qed
  ultimately show ?thesis using le ab keep by blast
qed

text \<open>C2. A snippet of valid UTF-8 text never panics, whatever offsets it is asked for, and is at most
  480 bytes; and it shows the whole match when the match ends on a rune edge and is at most 354
  bytes long.\<close>

theorem SnippetRange_preview:
  assumes "ValidString str"
  shows "\<exists>s. SnippetRange str ms me = Some s \<and> length s \<le> 480 \<and>
    (0 \<le> ms \<longrightarrow> ms \<le> me \<longrightarrow> me \<le> ms + 354 \<longrightarrow> me \<le> int (length str) \<longrightarrow>
     me = int (length str) \<or> RuneStart (str ! nat me) \<longrightarrow>
     Contains s (slice (nat ms) (nat me) str))"
proof -
  let ?n = "length str"
  let ?a = "clamp_index 0 ms ?n"
  let ?b = "clamp_index (int ?a) me ?n"
  obtain i j where s: "SnippetRange str ms me =
      Some ((if 0 < i then mark else []) @ slice i j str @ (if j < ?n then mark else []))"
    and b: "i \<le> j" "j \<le> ?n" "j \<le> i + 474" "i \<le> ?a" "?a \<le> ?b"
    and keep: "?b \<le> ?a + 354 \<longrightarrow> ?b = ?n \<or> RuneStart (str ! ?b) \<longrightarrow> ?b \<le> j"
    using SnippetRange_cut [OF assms, of ms me] by blast
  let ?s = "(if 0 < i then mark else []) @ slice i j str @ (if j < ?n then mark else [])"
  have "length (slice i j str) \<le> 474" using b length_slice_le [of i j str] by linarith
  then have len: "length ?s \<le> 480" by (cases "i = 0") (auto simp: mark_def)
  have "Contains ?s (slice (nat ms) (nat me) str)"
    if h: "0 \<le> ms" "ms \<le> me" "me \<le> ms + 354" "me \<le> int ?n" "me = int ?n \<or> RuneStart (str ! nat me)"
  proof -
    have a: "?a = nat ms" using h by (auto simp: clamp_index_def)
    have b': "?b = nat me" using h by (auto simp: clamp_index_def a)
    note ab = b' a
    have "nat me = ?n \<or> RuneStart (str ! nat me)" using h by auto
    moreover have "nat me \<le> nat ms + 354" using h by linarith
    ultimately have "nat me \<le> j" using keep by (metis ab)
    moreover have "i \<le> nat ms" using b(4) a by simp
    moreover have "nat ms \<le> nat me" using h by simp
    ultimately show ?thesis by (intro Contains_extend Contains_slice)
  qed
  with s len show ?thesis by blast
qed

theorem SnippetRange_preview_witness:
  "\<exists>s. SnippetRange ''run the tests first'' 8 13 = Some s \<and> length s \<le> 480 \<and> Contains s ''tests''"
proof -
  have "ValidString ''run the tests first''" by (rule ascii_ValidString) simp
  from SnippetRange_preview [OF this, of 8 13] show ?thesis
    by (simp add: slice_def RuneStart_def numeral_eq_Suc)
qed

end
