(* ===== verification/Database.thy ===== *)
theory Database
  imports Domain GoTime SearchText Sha256 "HOL-Library.Product_Lexorder"
begin

text \<open>
  The SQLite schema of \<open>migrations/\<close> and the state \<open>Store\<close> of \<open>internal/store/types.go\<close>.  A table is
  the list of its rows in order of insertion, a row a record of its columns; the directory of source
  objects maps a path to the bytes of the file.  The FTS5 tables repeat the contents of
  \<open>search_chunks\<close> (the triggers keep them so) and are not kept apart.  Rows are found by their
  columns, never by position.  A transaction is a function of the state: an error drops what it did.
\<close>

subsection \<open>Rows\<close>

record MachineRow =
  sm_ID :: string
  sm_Hostname :: string
  sm_OS :: string
  sm_Arch :: string
  sm_FirstSeen :: string
  sm_LastSeen :: string

record ImportRow =
  im_ID :: int
  im_CreatedAt :: string
  im_Machine :: string
  im_Report :: "ImportReport option"

record RepositoryRow =
  rp_ID :: int
  rp_Identity :: string
  rp_Remote :: string
  rp_Root :: string

record TraceRow =
  t_ID :: int
  t_Harness :: string
  t_NativeTraceID :: string
  t_Title :: string
  t_WorkingDirectory :: string
  t_Repository :: "int option"
  t_ParentNativeTraceID :: string
  t_CreatedAt :: string
  t_UpdatedAt :: string
  t_TitleOverride :: string
  t_GeneratedTitle :: string
  t_GeneratedRevision :: int

record RevisionRow =
  v_ID :: int
  v_Trace :: int
  v_Digest :: string
  v_NativeUpdatedAt :: string
  v_CollectedAt :: string
  v_Adapter :: string
  v_Status :: string
  v_Version :: int

record SourceObjectRow =
  so_Digest :: string
  so_Size :: int
  so_Path :: string

record RevisionObjectRow =
  ro_Revision :: int
  ro_Path :: string
  ro_Digest :: string

record EventRow =
  ev_ID :: int
  ev_Trace :: int
  ev_Key :: string
  ev_SortTime :: string
  ev_SortKey :: string
  ev_Preferred :: "int option"

text \<open>The columns \<open>parent_key\<close> to \<open>text\<close> repeat fields of the event that \<open>event_json\<close> encodes.\<close>

record ObservationRow =
  ob_ID :: int
  ob_Event :: int
  ob_Digest :: string
  ob_ParentKey :: string
  ob_Branch :: string
  ob_Kind :: string
  ob_Role :: string
  ob_Model :: string
  ob_Provider :: string
  ob_Tool :: string
  ob_CallID :: string
  ob_Time :: string
  ob_Text :: string
  ob_JSON :: string

record ObservationRevisionRow =
  or_Observation :: int
  or_Revision :: int
  or_Text :: string

record ObservationSourceRow =
  os_Observation :: int
  os_Revision :: int
  os_Ordinal :: int
  os_Path :: string
  os_Line :: int

record ChunkRow =
  c_ID :: int
  c_Observation :: int
  c_Revision :: int
  c_Event :: int
  c_Content :: string

record RunRow =
  nr_ID :: int
  nr_Revision :: int
  nr_Version :: int
  nr_Status :: string
  nr_Diagnostics :: "Warning list"
  nr_CreatedAt :: string

record AliasRow =
  al_Trace :: int
  al_LegacyKey :: string
  al_LegacyID :: int
  al_EventKey :: string

record ImportSummary =
  is_ID :: int
  is_CreatedAt :: string
  is_Machine :: Machine
  is_Imported :: int
  is_Updated :: int
  is_Unchanged :: int
  is_Partial :: int
  is_Unsupported :: int
  is_Failed :: int
  is_Complete :: bool

subsection \<open>The store\<close>

text \<open>\<open>importSeq\<close> and \<open>eventSeq\<close> are the largest ids ever given by \<open>AUTOINCREMENT\<close>.\<close>

record Store =
  machines :: "MachineRow list"
  imports_table :: "ImportRow list"
  summaries :: "(int \<times> ImportSummary) list"
  repositories :: "RepositoryRow list"
  repository_paths :: "(int \<times> string) list"
  traces :: "TraceRow list"
  revisions :: "RevisionRow list"
  revision_machines :: "(int \<times> string) list"
  source_objects :: "SourceObjectRow list"
  revision_objects :: "RevisionObjectRow list"
  events :: "EventRow list"
  observations :: "ObservationRow list"
  observation_revisions :: "ObservationRevisionRow list"
  observation_sources :: "ObservationSourceRow list"
  chunks :: "ChunkRow list"
  runs :: "RunRow list"
  aliases :: "AliasRow list"
  importSeq :: int
  eventSeq :: int
  objects_dir :: "(string \<times> string) list"
  runningImport :: int

definition empty_store :: Store where
  "empty_store = \<lparr>machines = [], imports_table = [], summaries = [], repositories = [], repository_paths = [],
     traces = [], revisions = [], revision_machines = [], source_objects = [], revision_objects = [],
     events = [], observations = [], observation_revisions = [], observation_sources = [], chunks = [],
     runs = [], aliases = [], importSeq = 0, eventSeq = 0, objects_dir = [], runningImport = 0\<rparr>"

subsection \<open>SQL on lists of rows\<close>

text \<open>The id SQLite gives a new row of an \<open>INTEGER PRIMARY KEY\<close>.\<close>

definition next_rowid :: "int list \<Rightarrow> int" where
  "next_rowid ids = foldr max ids 0 + 1"

text \<open>\<open>UPDATE ... WHERE\<close>, \<open>DELETE ... WHERE\<close> and \<open>SELECT ... WHERE\<close> of one row.\<close>

definition update_where :: "('r \<Rightarrow> bool) \<Rightarrow> ('r \<Rightarrow> 'r) \<Rightarrow> 'r list \<Rightarrow> 'r list" where
  "update_where P f rows = map (\<lambda>r. if P r then f r else r) rows"

definition delete_where :: "('r \<Rightarrow> bool) \<Rightarrow> 'r list \<Rightarrow> 'r list" where
  "delete_where P rows = filter (\<lambda>r. \<not> P r) rows"

text \<open>\<open>INSERT OR IGNORE\<close> on a key, and \<open>INSERT\<close>, which fails when the key is there.\<close>

definition insert_or_ignore :: "('r \<Rightarrow> 'k) \<Rightarrow> 'r \<Rightarrow> 'r list \<Rightarrow> 'r list" where
  "insert_or_ignore key r rows = (if key r \<in> key ` set rows then rows else rows @ [r])"

definition insert_unique :: "('r \<Rightarrow> 'k) \<Rightarrow> 'r \<Rightarrow> 'r list \<Rightarrow> 'r list result" where
  "insert_unique key r rows = (if key r \<in> key ` set rows then Inl ''UNIQUE constraint failed'' else Inr (rows @ [r]))"

text \<open>The first row of \<open>ORDER BY key DESC LIMIT 1\<close>.\<close>

fun best :: "('r \<Rightarrow> 'k :: linorder) \<Rightarrow> 'r list \<Rightarrow> 'r option" where
  "best key [] = None"
| "best key (r # rs) = (case best key rs of None \<Rightarrow> Some r | Some q \<Rightarrow> if key r < key q then Some q else Some r)"

lemma next_rowid_fresh: "i \<in> set ids \<Longrightarrow> i < next_rowid ids"
  by (induction ids) (auto simp: next_rowid_def)

lemma next_rowid_pos: "0 < next_rowid ids"
  by (induction ids) (auto simp: next_rowid_def)

lemma next_rowid_new: "next_rowid ids \<notin> set ids"
  using next_rowid_fresh by blast

lemma insert_unique_iff:
  "insert_unique key r rows = Inr rows' \<longleftrightarrow> key r \<notin> key ` set rows \<and> rows' = rows @ [r]"
  by (auto simp: insert_unique_def)

lemma distinct_insert_or_ignore: "distinct (map key rows) \<Longrightarrow> distinct (map key (insert_or_ignore key r rows))"
  by (auto simp: insert_or_ignore_def)

lemma set_insert_or_ignore: "set (insert_or_ignore key r rows) \<subseteq> insert r (set rows)"
  by (auto simp: insert_or_ignore_def)

lemma in_insert_or_ignore: "x \<in> set rows \<Longrightarrow> x \<in> set (insert_or_ignore key r rows)"
  by (auto simp: insert_or_ignore_def)

lemma key_insert_or_ignore: "key r \<in> key ` set (insert_or_ignore key r rows)"
  by (auto simp: insert_or_ignore_def)

lemma set_update_where: "set (update_where P f rows) = (\<lambda>r. if P r then f r else r) ` set rows"
  by (simp add: update_where_def)

lemma update_where_key: "(\<And>r. key (f r) = key r) \<Longrightarrow> map key (update_where P f rows) = map key rows"
  by (simp add: update_where_def comp_def if_distrib cong: if_cong)

lemma image_update_where: "(\<And>r. key (f r) = key r) \<Longrightarrow> key ` set (update_where P f rows) = key ` set rows"
  using update_where_key [of key f P rows] by (metis list.set_map)

lemma set_delete_where [simp]: "set (delete_where P rows) = {r \<in> set rows. \<not> P r}"
  by (auto simp: delete_where_def)

lemma distinct_delete_where: "distinct (map key rows) \<Longrightarrow> distinct (map key (delete_where P rows))"
  by (simp add: delete_where_def distinct_map_filter)

lemma best_None: "best key rs = None \<longleftrightarrow> rs = []"
  by (cases rs) (auto split: option.splits)

lemma best_Some: "best key rs = Some r \<Longrightarrow> r \<in> set rs \<and> (\<forall>q \<in> set rs. key q \<le> key r)"
proof (induction rs arbitrary: r)
  case (Cons a rs)
  show ?case
  proof (cases "best key rs")
    case None
    then have "rs = []" using best_None by blast
    with Cons.prems show ?thesis by simp
  next
    case (Some q)
    with Cons.IH [of q] Cons.prems show ?thesis by (auto split: if_splits)
  qed
qed simp

end
