(* ===== verification/StoreWrite.thy ===== *)
theory StoreWrite
  imports Database Archive
begin

text \<open>
  The write path of \<open>internal/store/store.go\<close>: committing a revision with its events, observations,
  source references and search chunks.  Every function is the body of a transaction; \<open>Inl\<close> is the
  error that rolls it back.  A constraint that the code relies on is checked where the statement would
  check it, except foreign keys, which hold by the invariant of \<open>StoreInvariant\<close>.  Failures of
  SQLite itself are not modelled.  The time of day is an argument.
\<close>

subsection \<open>Values\<close>

definition canonicalTime :: "string \<Rightarrow> string" where
  "canonicalTime value =
     (if value = [] then []
      else case parse_rfc3339 value of None \<Rightarrow> value | Some parsed \<Rightarrow> format_canonical parsed)"

definition digestBytes :: "string \<Rightarrow> string" where
  "digestBytes value = sha256_hex value"

definition searchableText :: "Event \<Rightarrow> string" where
  "searchableText e =
     Join ([e_Text e, e_Model e, e_Provider e, e_Tool e, e_Kind e, e_Role e]
           @ concat (map (\<lambda>a. [a_Name a, a_Path a, a_MediaType a]) (e_Attachments e))
           @ map s_Path (e_Sources e)) newline"

definition observationDigest :: "Event \<Rightarrow> (string \<times> string) result" where
  "observationDigest event =
     (case event_json event of
        None \<Rightarrow> Inl ''json: error calling MarshalJSON for type json.RawMessage''
      | Some j \<Rightarrow> (let b = Marshal j in Inr (digestBytes b, b)))"

definition searchLabels :: "Descriptor \<Rightarrow> string list \<Rightarrow> string" where
  "searchLabels d extraTitles =
     Join ([d_Harness d, d_Title d, d_WorkingDirectory d, r_Remote (d_Repository d), r_Root (d_Repository d)]
           @ filter (\<lambda>title. title \<noteq> []) extraTitles) newline"

definition validateEvents :: "Event list \<Rightarrow> string option" where
  "validateEvents es = (if list_ex (\<lambda>e. e_Key e = []) es then Some ''normalized event key is required'' else None)"

definition no_rows :: string where "no_rows = ''sql: no rows in result set''"

definition found :: "'a option \<Rightarrow> 'a result" where
  "found r = (case r of None \<Rightarrow> Inl no_rows | Some x \<Rightarrow> Inr x)"

lemma found_iff [simp]: "found r = Inr x \<longleftrightarrow> r = Some x"
  by (cases r) (simp_all add: found_def)

subsection \<open>Repositories\<close>

definition repository_identity :: "string \<Rightarrow> Repository \<Rightarrow> string" where
  "repository_identity machineID r =
     (if r_Remote r = [] then ''path:'' @ machineID @ '':'' @ r_Root r else r_Remote r)"

definition upsertRepository :: "string \<Rightarrow> Repository \<Rightarrow> Store \<Rightarrow> (Store \<times> int option) result" where
  "upsertRepository machineID r s =
     (if r = zero_Repository then Inr (s, None)
      else let identity = repository_identity machineID r;
               row = \<lparr>rp_ID = next_rowid (map rp_ID (repositories s)), rp_Identity = identity, rp_Remote = r_Remote r,
                      rp_Root = r_Root r\<rparr>;
               rows = insert_or_ignore rp_Identity row (repositories s)
           in bind_result (found (map_option rp_ID (find (\<lambda>q. rp_Identity q = identity) rows))) (\<lambda>i.
                Inr (s\<lparr>repositories := rows,
                       repository_paths := (if r_Root r = [] then repository_paths s
                                            else insert_or_ignore id (i, r_Root r) (repository_paths s))\<rparr>, Some i)))"

subsection \<open>Events and observations\<close>

text \<open>\<open>INSERT OR IGNORE INTO events\<close> and the id of the row.\<close>

definition ensure_event :: "int \<Rightarrow> Event \<Rightarrow> Store \<Rightarrow> Store" where
  "ensure_event traceID event s =
     (if (traceID, e_Key event) \<in> (\<lambda>r. (ev_Trace r, ev_Key r)) ` set (events s) then s
      else s\<lparr>events := events s @ [\<lparr>ev_ID = eventSeq s + 1, ev_Trace = traceID, ev_Key = e_Key event,
               ev_SortTime = canonicalTime (e_Timestamp event), ev_SortKey = e_Key event, ev_Preferred = None\<rparr>],
             eventSeq := eventSeq s + 1\<rparr>)"

definition event_id :: "Store \<Rightarrow> int \<Rightarrow> string \<Rightarrow> int option" where
  "event_id s traceID key = map_option ev_ID (find (\<lambda>r. ev_Trace r = traceID \<and> ev_Key r = key) (events s))"

text \<open>Whether another observation of the event comes from a revision of the same normalizer version.\<close>

definition version_of :: "Store \<Rightarrow> int \<Rightarrow> int option" where
  "version_of s revisionID = map_option v_Version (find (\<lambda>r. v_ID r = revisionID) (revisions s))"

definition differs :: "Store \<Rightarrow> int \<Rightarrow> string \<Rightarrow> int \<Rightarrow> bool" where
  "differs s eventID digest revisionID \<longleftrightarrow>
     list_ex (\<lambda>q. ob_Event q = eventID \<and> ob_Digest q \<noteq> digest \<and>
       list_ex (\<lambda>x. or_Observation x = ob_ID q \<and>
         list_ex (\<lambda>r. v_ID r = or_Revision x \<and> Some (v_Version r) = version_of s revisionID) (revisions s))
       (observation_revisions s)) (observations s)"

definition ensure_observation :: "int \<Rightarrow> string \<Rightarrow> string \<Rightarrow> Event \<Rightarrow> Store \<Rightarrow> Store" where
  "ensure_observation eventID digest encoded event s =
     s\<lparr>observations := insert_or_ignore (\<lambda>q. (ob_Event q, ob_Digest q))
         \<lparr>ob_ID = next_rowid (map ob_ID (observations s)), ob_Event = eventID, ob_Digest = digest,
          ob_ParentKey = e_ParentKey event, ob_Branch = e_Branch event, ob_Kind = e_Kind event, ob_Role = e_Role event,
          ob_Model = e_Model event, ob_Provider = e_Provider event, ob_Tool = e_Tool event, ob_CallID = e_CallID event,
          ob_Time = canonicalTime (e_Timestamp event), ob_Text = e_Text event, ob_JSON = encoded\<rparr> (observations s)\<rparr>"

definition observation_id :: "Store \<Rightarrow> int \<Rightarrow> string \<Rightarrow> int option" where
  "observation_id s eventID digest =
     map_option ob_ID (find (\<lambda>q. ob_Event q = eventID \<and> ob_Digest q = digest) (observations s))"

definition link_revision :: "int \<Rightarrow> int \<Rightarrow> string \<Rightarrow> Store \<Rightarrow> Store" where
  "link_revision observationID revisionID searchable s =
     s\<lparr>observation_revisions := insert_or_ignore (\<lambda>x. (or_Observation x, or_Revision x))
         \<lparr>or_Observation = observationID, or_Revision = revisionID, or_Text = searchable\<rparr> (observation_revisions s)\<rparr>"

fun insert_sources :: "int \<Rightarrow> int \<Rightarrow> int \<Rightarrow> SourceRef list \<Rightarrow> ObservationSourceRow list \<Rightarrow>
    (ObservationSourceRow list \<times> int) result" where
  "insert_sources observationID revisionID n [] rows = Inr (rows, n)"
| "insert_sources observationID revisionID n (src # srcs) rows =
     bind_result (insert_unique (\<lambda>r. (os_Observation r, os_Revision r, os_Ordinal r))
         \<lparr>os_Observation = observationID, os_Revision = revisionID, os_Ordinal = n, os_Path = s_Path src, os_Line = s_Line src\<rparr> rows)
       (insert_sources observationID revisionID (n + 1) srcs)"

fun add_chunks :: "int \<Rightarrow> int \<Rightarrow> int \<Rightarrow> string list \<Rightarrow> ChunkRow list \<Rightarrow> ChunkRow list" where
  "add_chunks observationID revisionID eventID [] rows = rows"
| "add_chunks observationID revisionID eventID (c # cs) rows =
     add_chunks observationID revisionID eventID cs
       (rows @ [\<lparr>c_ID = next_rowid (map c_ID rows), c_Observation = observationID, c_Revision = revisionID,
                 c_Event = eventID, c_Content = c\<rparr>])"

text \<open>\<open>None\<close> of \<open>Chunks\<close> is an index out of range.  In the program that is a panic, which nothing in the store recovers and which would
  end the import; here it is an error of the transaction, so that the trace fails and the import goes on.  The two cannot be told
  apart in the program: \<open>Chunks\<close> is \<open>Some\<close> for every valid UTF-8 text (\<open>Chunks_cover\<close> in \<open>SearchText\<close>), and what the normalizers and the JSON
  of the manifest give is valid UTF-8.\<close>

definition insert_chunks :: "int \<Rightarrow> int \<Rightarrow> int \<Rightarrow> string \<Rightarrow> ChunkRow list \<Rightarrow> ChunkRow list result" where
  "insert_chunks observationID revisionID eventID searchable rows =
     (case Chunks searchable of None \<Rightarrow> Inl ''runtime error: index out of range''
      | Some cs \<Rightarrow> Inr (add_chunks observationID revisionID eventID cs rows))"

text \<open>The statement that picks the preferred observation: the newest revision, then the latest time, then
  the most archived attachments.\<close>

definition archived_count :: "string \<Rightarrow> nat" where
  "archived_count encoded =
     (case parse_text encoded of
        Some (JObj m) \<Rightarrow>
          (case map_of m ''attachments'' of
             Some (JArr as) \<Rightarrow> length (filter (\<lambda>a. case a of
                 JObj f \<Rightarrow> (case map_of f ''archived_path'' of Some (JStr p) \<Rightarrow> p \<noteq> [] | _ \<Rightarrow> False)
               | _ \<Rightarrow> False) as)
           | _ \<Rightarrow> 0)
      | _ \<Rightarrow> 0)"

definition preferred_rows :: "Store \<Rightarrow> int \<Rightarrow> (ObservationRow \<times> RevisionRow) list" where
  "preferred_rows s eventID =
     concat (map (\<lambda>q. concat (map (\<lambda>x. map (\<lambda>r. (q, r)) (filter (\<lambda>r. v_ID r = or_Revision x) (revisions s)))
       (filter (\<lambda>x. or_Observation x = ob_ID q) (observation_revisions s))))
     (filter (\<lambda>q. ob_Event q = eventID) (observations s)))"

definition preferred_observation :: "Store \<Rightarrow> int \<Rightarrow> int option" where
  "preferred_observation s eventID =
     map_option (\<lambda>(q, r). ob_ID q)
       (best (\<lambda>(q, r). (v_NativeUpdatedAt r, ob_Time q, archived_count (ob_JSON q), ob_Digest q)) (preferred_rows s eventID))"

definition set_preferred :: "(EventRow \<Rightarrow> bool) \<Rightarrow> Store \<Rightarrow> Store" where
  "set_preferred P s = s\<lparr>events := update_where P (\<lambda>r. r\<lparr>ev_Preferred := preferred_observation s (ev_ID r)\<rparr>) (events s)\<rparr>"

text \<open>The state of the loop over the events: \<open>ordinals\<close> holds the next ordinal of every observation of this call.\<close>

record Insertion =
  in_Store :: Store
  in_Ordinals :: "(int \<times> int) list"
  in_Conflicts :: "Warning list"

definition conflicting :: "string \<Rightarrow> Warning" where
  "conflicting key = \<lparr>w_Code = ''conflicting_observation'',
     w_Message = ''conflicting observations retained for event '' @ key\<rparr>"

definition duplicate :: "string \<Rightarrow> Warning" where
  "duplicate key = \<lparr>w_Code = ''duplicate_event'',
     w_Message = ''identical repeated event '' @ key @ '' was retained once with its source references merged''\<rparr>"

text \<open>The second half of the loop's body, from the \<open>observation_revisions\<close> statement on.\<close>

definition attach_observation :: "int \<Rightarrow> int \<Rightarrow> int \<Rightarrow> string \<Rightarrow> Event \<Rightarrow> Insertion \<Rightarrow> Insertion result" where
  "attach_observation observationID revisionID eventID searchable event st =
     (let s = link_revision observationID revisionID searchable (in_Store st);
          previous = map_of (in_Ordinals st) observationID;
          start = (case previous of None \<Rightarrow> 0 | Some n \<Rightarrow> n)
      in bind_result (insert_sources observationID revisionID start (e_Sources event) (observation_sources s))
          (\<lambda>(sources, following). let s = s\<lparr>observation_sources := sources\<rparr>;
                                 ordinals = alist_put observationID following (in_Ordinals st)
             in if previous \<noteq> None
                then Inr \<lparr>in_Store = s, in_Ordinals = ordinals, in_Conflicts = in_Conflicts st @ [duplicate (e_Key event)]\<rparr>
                else bind_result (insert_chunks observationID revisionID eventID searchable (chunks s)) (\<lambda>rows.
                       Inr \<lparr>in_Store = set_preferred (\<lambda>r. ev_ID r = eventID) (s\<lparr>chunks := rows\<rparr>), in_Ordinals = ordinals,
                            in_Conflicts = in_Conflicts st\<rparr>)))"

definition insert_event :: "int \<Rightarrow> int \<Rightarrow> string \<Rightarrow> Event \<Rightarrow> Insertion \<Rightarrow> Insertion result" where
  "insert_event traceID revisionID labels event st =
     (if e_Key event = [] then Inl ''normalized event key is required''
      else let s = ensure_event traceID event (in_Store st);
               searchable = searchableText event @ newline @ labels;
               bare = event\<lparr>e_ID := 0, e_TraceID := 0, e_Sources := []\<rparr>
           in bind_result (found (event_id s traceID (e_Key event))) (\<lambda>eventID.
              bind_result (observationDigest bare) (\<lambda>(digest, encoded).
                let conflicts = in_Conflicts st
                      @ (if differs s eventID digest revisionID then [conflicting (e_Key event)] else []);
                    s = ensure_observation eventID digest encoded bare s
                in bind_result (found (observation_id s eventID digest)) (\<lambda>observationID.
                     attach_observation observationID revisionID eventID searchable event
                       (st\<lparr>in_Store := s, in_Conflicts := conflicts\<rparr>)))))"

fun insert_each :: "int \<Rightarrow> int \<Rightarrow> string \<Rightarrow> Event list \<Rightarrow> Insertion \<Rightarrow> Insertion result" where
  "insert_each traceID revisionID labels [] st = Inr st"
| "insert_each traceID revisionID labels (e # es) st =
     bind_result (insert_event traceID revisionID labels e st) (insert_each traceID revisionID labels es)"

definition insertEvents :: "int \<Rightarrow> int \<Rightarrow> string \<Rightarrow> Event list \<Rightarrow> Store \<Rightarrow> (Store \<times> Warning list) result" where
  "insertEvents traceID revisionID labels es s =
     bind_result (insert_each traceID revisionID labels es \<lparr>in_Store = s, in_Ordinals = [], in_Conflicts = []\<rparr>)
       (\<lambda>st. Inr (in_Store st, in_Conflicts st))"

end
