(* ===== verification/StoreRevision.thy ===== *)
theory StoreRevision
  imports StoreWrite
begin

text \<open>
  Committing a new revision (\<open>store.go\<close>), replacing the events of one that was parsed again
  (\<open>maintenance.go\<close>), and the \<open>DELETE\<close> statements with what the schema deletes along with them.
\<close>

subsection \<open>Deleting with cascades\<close>

definition delete_observation_revisions :: "(ObservationRevisionRow \<Rightarrow> bool) \<Rightarrow> Store \<Rightarrow> Store" where
  "delete_observation_revisions P s =
     (let gone = map (\<lambda>x. (or_Observation x, or_Revision x)) (filter P (observation_revisions s))
      in s\<lparr>observation_revisions := delete_where P (observation_revisions s),
           observation_sources := delete_where (\<lambda>r. (os_Observation r, os_Revision r) \<in> set gone) (observation_sources s),
           chunks := delete_where (\<lambda>c. (c_Observation c, c_Revision c) \<in> set gone) (chunks s)\<rparr>)"

definition delete_observations :: "(ObservationRow \<Rightarrow> bool) \<Rightarrow> Store \<Rightarrow> Store" where
  "delete_observations P s =
     (let gone = map ob_ID (filter P (observations s))
      in delete_observation_revisions (\<lambda>x. or_Observation x \<in> set gone)
           (s\<lparr>observations := delete_where P (observations s)\<rparr>))"

definition delete_events :: "(EventRow \<Rightarrow> bool) \<Rightarrow> Store \<Rightarrow> Store" where
  "delete_events P s =
     (let gone = map ev_ID (filter P (events s));
          s = delete_observations (\<lambda>q. ob_Event q \<in> set gone) (s\<lparr>events := delete_where P (events s)\<rparr>)
      in s\<lparr>chunks := delete_where (\<lambda>c. c_Event c \<in> set gone) (chunks s)\<rparr>)"

definition delete_revisions :: "(RevisionRow \<Rightarrow> bool) \<Rightarrow> Store \<Rightarrow> Store" where
  "delete_revisions P s =
     (let gone = map v_ID (filter P (revisions s))
      in delete_observation_revisions (\<lambda>x. or_Revision x \<in> set gone)
           (s\<lparr>revisions := delete_where P (revisions s),
              revision_machines := delete_where (\<lambda>(r, _). r \<in> set gone) (revision_machines s),
              revision_objects := delete_where (\<lambda>q. ro_Revision q \<in> set gone) (revision_objects s),
              runs := delete_where (\<lambda>q. nr_Revision q \<in> set gone) (runs s)\<rparr>))"

definition delete_traces :: "(TraceRow \<Rightarrow> bool) \<Rightarrow> Store \<Rightarrow> Store" where
  "delete_traces P s =
     (let gone = map t_ID (filter P (traces s))
      in delete_events (\<lambda>e. ev_Trace e \<in> set gone) (delete_revisions (\<lambda>r. v_Trace r \<in> set gone)
           (s\<lparr>traces := delete_where P (traces s), aliases := delete_where (\<lambda>a. al_Trace a \<in> set gone) (aliases s)\<rparr>)))"

subsection \<open>Statements on a trace\<close>

definition storedTitles :: "Store \<Rightarrow> int \<Rightarrow> (string \<times> string) result" where
  "storedTitles s traceID =
     found (map_option (\<lambda>t. (t_TitleOverride t, t_GeneratedTitle t)) (find (\<lambda>t. t_ID t = traceID) (traces s)))"

definition insert_trace :: "Descriptor \<Rightarrow> int option \<Rightarrow> string \<Rightarrow> string \<Rightarrow> Store \<Rightarrow> Store" where
  "insert_trace d repositoryID now metadataTime s =
     s\<lparr>traces := insert_or_ignore (\<lambda>t. (t_Harness t, t_NativeTraceID t))
         \<lparr>t_ID = next_rowid (map t_ID (traces s)), t_Harness = d_Harness d, t_NativeTraceID = d_NativeTraceID d,
          t_Title = d_Title d, t_WorkingDirectory = d_WorkingDirectory d, t_Repository = repositoryID,
          t_ParentNativeTraceID = d_ParentNativeTraceID d, t_CreatedAt = now, t_UpdatedAt = metadataTime,
          t_TitleOverride = [], t_GeneratedTitle = [], t_GeneratedRevision = 0\<rparr> (traces s)\<rparr>"

definition trace_id :: "Store \<Rightarrow> string \<Rightarrow> string \<Rightarrow> int option" where
  "trace_id s harness native =
     map_option t_ID (find (\<lambda>t. t_Harness t = harness \<and> t_NativeTraceID t = native) (traces s))"

text \<open>The metadata of the newest revision wins.\<close>

definition newest_metadata :: "Descriptor \<Rightarrow> int option \<Rightarrow> string \<Rightarrow> TraceRow \<Rightarrow> TraceRow" where
  "newest_metadata d repositoryID metadataTime t =
     (if t_UpdatedAt t \<le> metadataTime
      then t\<lparr>t_Title := d_Title d, t_WorkingDirectory := d_WorkingDirectory d, t_Repository := repositoryID,
             t_ParentNativeTraceID := d_ParentNativeTraceID d, t_UpdatedAt := metadataTime\<rparr>
      else t)"

definition update_trace :: "int \<Rightarrow> (TraceRow \<Rightarrow> TraceRow) \<Rightarrow> Store \<Rightarrow> Store" where
  "update_trace traceID f s = s\<lparr>traces := update_where (\<lambda>t. t_ID t = traceID) f (traces s)\<rparr>"

definition fill_title :: "string \<Rightarrow> TraceRow \<Rightarrow> TraceRow" where
  "fill_title title t = (if t_Title t = [] \<and> title \<noteq> [] then t\<lparr>t_Title := title\<rparr> else t)"

definition recordRun :: "int \<Rightarrow> int \<Rightarrow> string \<Rightarrow> Warning list \<Rightarrow> string \<Rightarrow> Store \<Rightarrow> Store" where
  "recordRun revisionID version status ws now s =
     s\<lparr>runs := runs s @ [\<lparr>nr_ID = next_rowid (map nr_ID (runs s)), nr_Revision = revisionID, nr_Version = version,
                          nr_Status = status, nr_Diagnostics = ws, nr_CreatedAt = now\<rparr>]\<rparr>"

subsection \<open>Committing a revision\<close>

record storedObject =
  st_path :: string
  st_digest :: string
  st_size :: int

definition object_path :: "string \<Rightarrow> string" where
  "object_path digest = take 2 digest @ ''/'' @ drop 2 digest"

definition revision_row :: "int \<Rightarrow> Manifest \<Rightarrow> Descriptor \<Rightarrow> Normalization \<Rightarrow> string \<Rightarrow> Store \<Rightarrow> RevisionRow" where
  "revision_row traceID manifest d n metadataTime s =
     \<lparr>v_ID = next_rowid (map v_ID (revisions s)), v_Trace = traceID, v_Digest = d_RevisionDigest d,
      v_NativeUpdatedAt = metadataTime, v_CollectedAt = canonicalTime (mf_CreatedAt manifest), v_Adapter = d_Adapter d,
      v_Status = n_Status n, v_Version = n_Version n\<rparr>"

definition insert_revision :: "int \<Rightarrow> Manifest \<Rightarrow> Descriptor \<Rightarrow> Normalization \<Rightarrow> string \<Rightarrow> Store \<Rightarrow> (Store \<times> int) result" where
  "insert_revision traceID manifest d n metadataTime s =
     (let row = revision_row traceID manifest d n metadataTime s in
      bind_result (insert_unique (\<lambda>r. (v_Trace r, v_Digest r)) row (revisions s)) (\<lambda>rows.
      bind_result (insert_unique id (v_ID row, m_ID (mf_SourceMachine manifest)) (revision_machines s)) (\<lambda>ms.
        Inr (s\<lparr>revisions := rows, revision_machines := ms\<rparr>, v_ID row))))"

fun insert_objects :: "int \<Rightarrow> storedObject list \<Rightarrow> Store \<Rightarrow> Store result" where
  "insert_objects revisionID [] s = Inr s"
| "insert_objects revisionID (b # bs) s =
     bind_result (insert_unique (\<lambda>q. (ro_Revision q, ro_Path q))
         \<lparr>ro_Revision = revisionID, ro_Path = st_path b, ro_Digest = st_digest b\<rparr> (revision_objects s))
       (\<lambda>rows. insert_objects revisionID bs
          (s\<lparr>source_objects := insert_or_ignore so_Digest
               \<lparr>so_Digest = st_digest b, so_Size = st_size b, so_Path = object_path (st_digest b)\<rparr> (source_objects s),
             revision_objects := rows\<rparr>))"

definition metadata_time :: "Descriptor \<Rightarrow> string \<Rightarrow> string" where
  "metadata_time d now = (let t = canonicalTime (d_NativeUpdatedAt d) in if t = [] then now else t)"

text \<open>The first statements: the repository, the trace and its metadata, the revision and its objects.\<close>

definition begin_revision :: "string \<Rightarrow> Manifest \<Rightarrow> Descriptor \<Rightarrow> Normalization \<Rightarrow> storedObject list \<Rightarrow> Store \<Rightarrow>
    (Store \<times> int \<times> int) result" where
  "begin_revision now manifest d n stored s =
     bind_result (upsertRepository (m_ID (mf_SourceMachine manifest)) (d_Repository d) s) (\<lambda>(s, repositoryID).
       let s = insert_trace d repositoryID now (metadata_time d now) s
       in bind_result (found (trace_id s (d_Harness d) (d_NativeTraceID d))) (\<lambda>traceID.
          let s = update_trace traceID (newest_metadata d repositoryID (metadata_time d now)) s
          in bind_result (insert_revision traceID manifest d n (metadata_time d now) s) (\<lambda>(s, revisionID).
             bind_result (insert_objects revisionID stored s) (\<lambda>s. Inr (s, traceID, revisionID)))))"

definition commitRevision :: "string \<Rightarrow> Manifest \<Rightarrow> Descriptor \<Rightarrow> Normalization \<Rightarrow> storedObject list \<Rightarrow> Store \<Rightarrow>
    (Store \<times> int \<times> bool \<times> Warning list) result" where
  "commitRevision now manifest d n stored s0 =
     bind_result (begin_revision now manifest d n stored s0) (\<lambda>(s, traceID, revisionID).
     bind_result (storedTitles s traceID) (\<lambda>(override, generated).
     bind_result (insertEvents traceID revisionID (searchLabels d [override, generated]) (n_Events n) s) (\<lambda>(s, conflicts).
       let s = update_trace traceID (fill_title (n_Title n)) s;
           s = recordRun revisionID (n_Version n) (n_Status n) (n_Warnings n @ conflicts) now s
       in Inr (s, traceID, trace_id s0 (d_Harness d) (d_NativeTraceID d) = None, conflicts))))"

subsection \<open>Replacing events\<close>

text \<open>\<open>INSERT OR REPLACE INTO event_aliases\<close>: the old key of an event leads to the new one.\<close>

definition insert_alias :: "int \<Rightarrow> string \<Rightarrow> string \<Rightarrow> Store \<Rightarrow> Store" where
  "insert_alias traceID key legacy s =
     (case event_id s traceID legacy of
        None \<Rightarrow> s
      | Some i \<Rightarrow> s\<lparr>aliases := delete_where (\<lambda>a. al_Trace a = traceID \<and> al_LegacyKey a = legacy) (aliases s)
          @ [\<lparr>al_Trace = traceID, al_LegacyKey = legacy, al_LegacyID = i, al_EventKey = key\<rparr>]\<rparr>)"

definition insert_aliases :: "int \<Rightarrow> Event list \<Rightarrow> Store \<Rightarrow> Store" where
  "insert_aliases traceID es s =
     foldl (\<lambda>s e. foldl (\<lambda>s legacy. insert_alias traceID (e_Key e) legacy s) s (e_LegacyKeys e)) s es"

text \<open>What the transaction removes before the events are inserted again.\<close>

definition clear_revision :: "int \<Rightarrow> int \<Rightarrow> Normalization \<Rightarrow> Store \<Rightarrow> Store" where
  "clear_revision traceID revisionID n s =
     (let s = insert_aliases traceID (n_Events n) s;
          s = update_trace traceID (\<lambda>t. if t_GeneratedTitle t = [] then t\<lparr>t_GeneratedRevision := 0\<rparr> else t) s;
          s = update_trace traceID (fill_title (n_Title n)) s;
          s = delete_observation_revisions (\<lambda>x. or_Revision x = revisionID) s;
          mine = map ev_ID (filter (\<lambda>e. ev_Trace e = traceID) (events s));
          linked = map or_Observation (observation_revisions s);
          s = delete_observations (\<lambda>q. ob_Event q \<in> set mine \<and> ob_ID q \<notin> set linked) s
      in s\<lparr>revisions := update_where (\<lambda>r. v_ID r = revisionID) (\<lambda>r. r\<lparr>v_Status := n_Status n, v_Version := n_Version n\<rparr>)
             (revisions s)\<rparr>)"

definition replaceRevisionEvents :: "string \<Rightarrow> int \<Rightarrow> int \<Rightarrow> string \<Rightarrow> Normalization \<Rightarrow> Store \<Rightarrow> (Store \<times> Warning list) result" where
  "replaceRevisionEvents now traceID revisionID labels n s =
     bind_result (insertEvents traceID revisionID labels (n_Events n) (clear_revision traceID revisionID n s)) (\<lambda>(s, conflicts).
       let s = set_preferred (\<lambda>r. ev_Trace r = traceID) s;
           observed = map ob_Event (observations s);
           s = delete_events (\<lambda>e. ev_Trace e = traceID \<and> ev_ID e \<notin> set observed) s
       in Inr (recordRun revisionID (n_Version n) (n_Status n) (n_Warnings n @ conflicts) now s, conflicts))"

end
