(* ===== verification/StoreImport.thy ===== *)
theory StoreImport
  imports StoreRevision
begin

text \<open>
  Importing an archive, the rest of \<open>internal/store/store.go\<close>: storing the source objects, metadata that an
  earlier import lacked, one trace, the whole manifest.  The sources are a partial function from paths
  to bytes, \<open>run\<close> is the \<open>normalize\<close> argument the code passes, and \<open>clock\<close> gives the time of day of every step.
  The writer channel admits one call at a time, so an operation is one step of the store.
\<close>

type_synonym files = "string \<rightharpoonup> string"
type_synonym normalize_fun = "Descriptor \<Rightarrow> files \<Rightarrow> Normalization \<times> string option"

subsection \<open>Source objects\<close>

text \<open>\<open>object_path\<close> joins the two parts of a digest as \<open>filepath.Join\<close> does for parts without dots and slashes, of which every digest that
  \<open>Validate\<close> accepts is; for another text of 64 characters \<open>filepath.Join\<close> would also clean the path.\<close>

definition writeObject :: "string \<Rightarrow> string \<Rightarrow> string \<Rightarrow> int \<Rightarrow> (string \<times> string) list \<Rightarrow>
    ((string \<times> string) list \<times> storedObject) result" where
  "writeObject content relativePath expected expectedSize dir =
     (let digest = TrimPrefix expected ''sha256:'';
          destination = object_path digest;
          stored = \<lparr>st_path = relativePath, st_digest = digest, st_size = expectedSize\<rparr>
      in if length digest \<noteq> 64 then Inl (''invalid digest for '' @ relativePath)
         else case map_of dir destination of
           Some old \<Rightarrow> (if int (length old) \<noteq> expectedSize then Inl (''stored object size mismatch for '' @ relativePath)
                        else Inr (dir, stored))
         | None \<Rightarrow>
             (if digest \<noteq> sha256_hex content then Inl (''digest mismatch for '' @ relativePath)
              else if int (length content) \<noteq> expectedSize then Inl (''size mismatch for '' @ relativePath)
              else Inr (dir @ [(destination, content)], stored)))"

text \<open>Files that were stored before an error stay.\<close>

fun storeObjects :: "files \<Rightarrow> File list \<Rightarrow> (string \<times> string) list \<Rightarrow> (string \<times> string) list \<times> storedObject list result" where
  "storeObjects source [] dir = (dir, Inr [])"
| "storeObjects source (f # fs) dir =
     (case source (f_Path f) of
        None \<Rightarrow> (dir, Inl (''open '' @ f_Path f @ '': file does not exist''))
      | Some content \<Rightarrow>
          (case writeObject content (f_Path f) (f_SHA256 f) (f_Size f) dir of
             Inl e \<Rightarrow> (dir, Inl e)
           | Inr (dir, stored) \<Rightarrow>
               (case storeObjects source fs dir of
                  (dir, r) \<Rightarrow> (dir, bind_result r (\<lambda>objects. Inr (stored # objects))))))"

text \<open>\<open>fs.Sub\<close>\<close>

definition Sub :: "files \<Rightarrow> string \<Rightarrow> files result" where
  "Sub source dir =
     (if \<not> ValidPath dir then Inl (''sub '' @ dir @ '': invalid argument'')
      else Inr (\<lambda>name. if ValidPath name then source (if dir = ''.'' then name else dir @ ''/'' @ name) else None))"

subsection \<open>Normalizing\<close>

definition normalizeResult :: "normalize_fun \<Rightarrow> Descriptor \<Rightarrow> files \<Rightarrow> Normalization \<times> string option" where
  "normalizeResult run d source =
     (case run d source of (n, e) \<Rightarrow>
        let n = (case e of None \<Rightarrow> n
                 | Some m \<Rightarrow> n\<lparr>n_Status := ''failed'', n_Warnings := n_Warnings n @ [\<lparr>w_Code = ''normalizer_error'', w_Message = m\<rparr>]\<rparr>);
            n = (if n_Status n = [] then n\<lparr>n_Status := ''normalized''\<rparr> else n);
            n = (case validateEvents (n_Events n) of None \<Rightarrow> n
                 | Some m \<Rightarrow> n\<lparr>n_Status := ''failed'', n_Events := [],
                               n_Warnings := n_Warnings n @ [\<lparr>w_Code = ''invalid_event'', w_Message = m\<rparr>]\<rparr>)
        in (n, e))"

definition normalizationSuccessful :: "string \<Rightarrow> bool" where
  "normalizationSuccessful status \<longleftrightarrow> status = ''normalized''"

subsection \<open>Missing metadata\<close>

text \<open>\<open>UPDATE traces SET column=? WHERE id=? AND column='' AND updated_at<=?\<close>, and whether a row changed.\<close>

definition fill_column :: "(TraceRow \<Rightarrow> string) \<Rightarrow> (TraceRow \<Rightarrow> TraceRow) \<Rightarrow> int \<Rightarrow> string \<Rightarrow> Store \<Rightarrow> Store \<times> bool" where
  "fill_column column set_column traceID updated s =
     (let P = (\<lambda>t. t_ID t = traceID \<and> column t = [] \<and> t_UpdatedAt t \<le> updated)
      in (s\<lparr>traces := update_where P set_column (traces s)\<rparr>, list_ex P (traces s)))"

definition fill_metadata :: "string \<Rightarrow> int \<Rightarrow> Descriptor \<Rightarrow> Store \<Rightarrow> (Store \<times> string list) result" where
  "fill_metadata machineID traceID d s =
     (let updated = canonicalTime (d_NativeUpdatedAt d);
          (s, titled) = (if d_Title d = [] then (s, False)
                         else fill_column t_Title (\<lambda>t. t\<lparr>t_Title := d_Title d\<rparr>) traceID updated s);
          (s, placed) = (if d_WorkingDirectory d = [] then (s, False)
                         else fill_column t_WorkingDirectory (\<lambda>t. t\<lparr>t_WorkingDirectory := d_WorkingDirectory d\<rparr>) traceID updated s);
          texts = (if titled then [d_Title d] else []) @ (if placed then [d_WorkingDirectory d] else [])
      in if d_Repository d = zero_Repository then Inr (s, texts)
         else bind_result (found (find (\<lambda>t. t_ID t = traceID) (traces s))) (\<lambda>t.
           if t_Repository t = None \<and> t_UpdatedAt t \<le> updated
           then bind_result (upsertRepository machineID (d_Repository d) s) (\<lambda>(s, repositoryID).
             Inr (update_trace traceID (\<lambda>t. t\<lparr>t_Repository := repositoryID\<rparr>) s,
                  texts @ [r_Remote (d_Repository d), r_Root (d_Repository d)]))
           else Inr (s, texts)))"

text \<open>Writing the search chunks of a revision anew.\<close>

fun rechunk :: "int \<Rightarrow> (int \<times> int \<times> string) list \<Rightarrow> ChunkRow list \<Rightarrow> ChunkRow list result" where
  "rechunk revisionID [] rows = Inr rows"
| "rechunk revisionID ((observationID, eventID, text) # texts) rows =
     bind_result (insert_chunks observationID revisionID eventID text rows) (rechunk revisionID texts)"

definition revision_texts :: "int \<Rightarrow> Store \<Rightarrow> (int \<times> int \<times> string) list" where
  "revision_texts revisionID s =
     concat (map (\<lambda>x. map (\<lambda>q. (or_Observation x, ob_Event q, or_Text x))
         (filter (\<lambda>q. ob_ID q = or_Observation x) (observations s)))
       (filter (\<lambda>x. or_Revision x = revisionID) (observation_revisions s)))"

definition reindex_chunks :: "int \<Rightarrow> Store \<Rightarrow> Store result" where
  "reindex_chunks revisionID s =
     bind_result (rechunk revisionID (revision_texts revisionID s) (delete_where (\<lambda>c. c_Revision c = revisionID) (chunks s)))
       (\<lambda>rows. Inr (s\<lparr>chunks := rows\<rparr>))"

definition append_search_text :: "int \<Rightarrow> string \<Rightarrow> Store \<Rightarrow> Store" where
  "append_search_text revisionID added s =
     s\<lparr>observation_revisions := update_where (\<lambda>x. or_Revision x = revisionID)
         (\<lambda>x. x\<lparr>or_Text := or_Text x @ newline @ added\<rparr>) (observation_revisions s)\<rparr>"

definition backfillMissingTraceMetadata :: "int \<Rightarrow> int \<Rightarrow> string \<Rightarrow> Descriptor \<Rightarrow> Store \<Rightarrow> (Store \<times> bool) result" where
  "backfillMissingTraceMetadata traceID revisionID machineID d s0 =
     (if d_Title d = [] \<and> d_WorkingDirectory d = [] \<and> d_Repository d = zero_Repository then Inr (s0, False)
      else bind_result (fill_metadata machineID traceID d s0) (\<lambda>(s, texts).
        if texts = [] then Inr (s0, False)
        else bind_result (reindex_chunks revisionID (append_search_text revisionID (Join texts newline) s)) (\<lambda>s.
          Inr (s, True))))"

subsection \<open>One trace\<close>

definition find_revision :: "Store \<Rightarrow> Descriptor \<Rightarrow> (int \<times> int \<times> string) option" where
  "find_revision s d =
     Option.bind (trace_id s (d_Harness d) (d_NativeTraceID d)) (\<lambda>traceID.
       map_option (\<lambda>r. (v_ID r, traceID, v_Status r))
         (find (\<lambda>r. v_Trace r = traceID \<and> v_Digest r = d_RevisionDigest d) (revisions s)))"

definition start_outcome :: "Descriptor \<Rightarrow> TraceOutcome" where
  "start_outcome d = zero_Outcome\<lparr>o_Harness := d_Harness d, o_NativeTraceID := d_NativeTraceID d,
     o_RevisionDigest := d_RevisionDigest d, o_Warnings := d_Warnings d\<rparr>"

definition failed :: "string \<Rightarrow> TraceOutcome \<Rightarrow> TraceOutcome" where
  "failed e out = out\<lparr>o_Status := ''failed'', o_Error := e\<rparr>"

definition warn :: "Warning list \<Rightarrow> TraceOutcome \<Rightarrow> TraceOutcome" where
  "warn ws out = out\<lparr>o_Warnings := o_Warnings out @ ws\<rparr>"

definition note_error :: "string option \<Rightarrow> TraceOutcome \<Rightarrow> TraceOutcome" where
  "note_error e out = (case e of None \<Rightarrow> out | Some m \<Rightarrow> out\<lparr>o_Error := m\<rparr>)"

text \<open>A revision the store has, which an earlier import could not normalize: it is normalized again.\<close>

definition retry_revision :: "string \<Rightarrow> normalize_fun \<Rightarrow> Descriptor \<Rightarrow> files \<Rightarrow> int \<Rightarrow> int \<Rightarrow> TraceOutcome \<Rightarrow> Store \<Rightarrow> Store \<times> TraceOutcome" where
  "retry_revision now run d source traceID revisionID out s =
     (case normalizeResult run d source of (n, e) \<Rightarrow>
        let out = note_error e (warn (n_Warnings n) out)
        in if n_Status n = ''failed'' \<or> n_Status n = ''unsupported''
           then (recordRun revisionID (n_Version n) (n_Status n) (n_Warnings n) now s, out\<lparr>o_Status := n_Status n\<rparr>)
           else case storedTitles s traceID of
             Inl m \<Rightarrow> (s, failed m out)
           | Inr (override, generated) \<Rightarrow>
               (case replaceRevisionEvents now traceID revisionID (searchLabels d [override, generated]) n s of
                  Inl m \<Rightarrow> (s, failed m out)
                | Inr (s, conflicts) \<Rightarrow>
                    (s, warn conflicts out\<lparr>o_Status := (if normalizationSuccessful (n_Status n) then ''updated'' else n_Status n)\<rparr>)))"

definition known_revision :: "string \<Rightarrow> normalize_fun \<Rightarrow> Manifest \<Rightarrow> Descriptor \<Rightarrow> files \<Rightarrow> int \<Rightarrow> int \<Rightarrow> string \<Rightarrow> TraceOutcome \<Rightarrow> Store \<Rightarrow>
    Store \<times> TraceOutcome" where
  "known_revision now run manifest d source revisionID traceID status out s =
     (let s = s\<lparr>revision_machines := insert_or_ignore id (revisionID, m_ID (mf_SourceMachine manifest)) (revision_machines s)\<rparr>;
          out = out\<lparr>o_TraceID := traceID\<rparr>
      in case backfillMissingTraceMetadata traceID revisionID (m_ID (mf_SourceMachine manifest)) d s of
           Inl m \<Rightarrow> (s, failed m out)
         | Inr (s, updated) \<Rightarrow>
             (if normalizationSuccessful status then (s, out\<lparr>o_Status := (if updated then ''updated'' else ''unchanged'')\<rparr>)
              else retry_revision now run d source traceID revisionID out s))"

definition new_revision :: "string \<Rightarrow> normalize_fun \<Rightarrow> Manifest \<Rightarrow> Descriptor \<Rightarrow> files \<Rightarrow> storedObject list \<Rightarrow> TraceOutcome \<Rightarrow> Store \<Rightarrow>
    Store \<times> TraceOutcome" where
  "new_revision now run manifest d source stored out s =
     (case normalizeResult run d source of (n, e) \<Rightarrow>
        (case commitRevision now manifest d n stored s of
           Inl m \<Rightarrow> (s, failed m (warn (n_Warnings n) out))
         | Inr (s, traceID, isNew, conflicts) \<Rightarrow>
             (s, note_error e (warn (n_Warnings n @ conflicts) (out\<lparr>o_TraceID := traceID,
                o_Status := (if n_Status n \<in> {''partially_parsed'', ''unsupported'', ''failed''} then n_Status n
                             else if isNew then ''imported'' else ''updated'')\<rparr>)))))"

definition importTrace :: "string \<Rightarrow> normalize_fun \<Rightarrow> Manifest \<Rightarrow> Descriptor \<Rightarrow> files \<Rightarrow> Store \<Rightarrow> Store \<times> TraceOutcome" where
  "importTrace now run manifest d sources s =
     (case Sub sources (d_Path d) of
        Inl m \<Rightarrow> (s, failed m (start_outcome d))
      | Inr source \<Rightarrow>
          (case storeObjects source (d_Files d) (objects_dir s) of (dir, r) \<Rightarrow>
             let s = s\<lparr>objects_dir := dir\<rparr> in
             case r of
               Inl m \<Rightarrow> (s, failed m (start_outcome d))
             | Inr stored \<Rightarrow>
                 (case find_revision s d of
                    Some (revisionID, traceID, status) \<Rightarrow>
                      known_revision now run manifest d source revisionID traceID status (start_outcome d) s
                  | None \<Rightarrow> new_revision now run manifest d source stored (start_outcome d) s)))"

subsection \<open>An import\<close>

definition countOutcome :: "string \<Rightarrow> ImportReport \<Rightarrow> ImportReport" where
  "countOutcome status r =
     (if status = ''imported'' then r\<lparr>ir_Imported := ir_Imported r + 1\<rparr>
      else if status = ''updated'' then r\<lparr>ir_Updated := ir_Updated r + 1\<rparr>
      else if status = ''unchanged'' then r\<lparr>ir_Unchanged := ir_Unchanged r + 1\<rparr>
      else if status = ''partially_parsed'' then r\<lparr>ir_Partial := ir_Partial r + 1\<rparr>
      else if status = ''unsupported'' then r\<lparr>ir_Unsupported := ir_Unsupported r + 1\<rparr>
      else r\<lparr>ir_Failed := ir_Failed r + 1\<rparr>)"

definition see_machine :: "Machine \<Rightarrow> string \<Rightarrow> MachineRow list \<Rightarrow> MachineRow list" where
  "see_machine m now rows =
     (if m_ID m \<in> sm_ID ` set rows
      then update_where (\<lambda>r. sm_ID r = m_ID m)
             (\<lambda>r. r\<lparr>sm_Hostname := m_Hostname m, sm_OS := m_OS m, sm_Arch := m_Arch m, sm_LastSeen := now\<rparr>) rows
      else rows @ [\<lparr>sm_ID = m_ID m, sm_Hostname = m_Hostname m, sm_OS = m_OS m, sm_Arch = m_Arch m,
                    sm_FirstSeen = now, sm_LastSeen = now\<rparr>])"

definition beginImport :: "ImportReport \<Rightarrow> Store \<Rightarrow> Store \<times> ImportReport" where
  "beginImport r s =
     (let i = importSeq s + 1
      in (s\<lparr>machines := see_machine (ir_Machine r) (ir_CreatedAt r) (machines s),
            imports_table := imports_table s @ [\<lparr>im_ID = i, im_CreatedAt = ir_CreatedAt r, im_Machine = m_ID (ir_Machine r), im_Report = None\<rparr>],
            importSeq := i, runningImport := i\<rparr>, r\<lparr>ir_ID := i\<rparr>))"

definition normalizing :: "nat \<Rightarrow> nat \<Rightarrow> TraceOutcome option \<Rightarrow> Progress" where
  "normalizing done n out = \<lparr>p_Phase = ''normalizing'', p_Completed = int done, p_Total = int n, p_Outcome = out,
     p_Report = None, p_Error = []\<rparr>"

fun import_traces :: "(nat \<Rightarrow> string) \<Rightarrow> normalize_fun \<Rightarrow> Manifest \<Rightarrow> files \<Rightarrow> nat \<Rightarrow> Descriptor list \<Rightarrow>
    Store \<times> ImportReport \<times> Progress list \<Rightarrow> Store \<times> ImportReport \<times> Progress list" where
  "import_traces clock run manifest sources i [] st = st"
| "import_traces clock run manifest sources i (d # ds) (s, report, progress) =
     (case importTrace (clock (i + 1)) run manifest d sources s of (s, out) \<Rightarrow>
        import_traces clock run manifest sources (i + 1) ds
          (s, countOutcome (o_Status out) (report\<lparr>ir_Traces := ir_Traces report @ [out]\<rparr>),
           progress @ [normalizing (i + 1) (length (mf_Traces manifest)) (Some out)]))"

definition summary_of :: "ImportReport \<Rightarrow> ImportSummary" where
  "summary_of r = \<lparr>is_ID = ir_ID r, is_CreatedAt = ir_CreatedAt r, is_Machine = ir_Machine r, is_Imported = ir_Imported r,
     is_Updated = ir_Updated r, is_Unchanged = ir_Unchanged r, is_Partial = ir_Partial r,
     is_Unsupported = ir_Unsupported r, is_Failed = ir_Failed r, is_Complete = True\<rparr>"

definition finish_import :: "ImportReport \<Rightarrow> Store \<Rightarrow> Store result" where
  "finish_import report s =
     bind_result (insert_unique fst (ir_ID report, summary_of report) (summaries s)) (\<lambda>rows.
       Inr (s\<lparr>imports_table := update_where (\<lambda>r. im_ID r = ir_ID report) (\<lambda>r. r\<lparr>im_Report := Some report\<rparr>) (imports_table s),
              summaries := rows\<rparr>))"

definition Import :: "(nat \<Rightarrow> string) \<Rightarrow> normalize_fun \<Rightarrow> Manifest \<Rightarrow> files \<Rightarrow> Store \<Rightarrow> Store \<times> ImportReport result \<times> Progress list" where
  "Import clock run manifest sources s =
     (let n = length (mf_Traces manifest);
          (s, report) = beginImport (zero_Report\<lparr>ir_CreatedAt := clock 0, ir_Machine := mf_SourceMachine manifest\<rparr>) s;
          (s, report, progress) = import_traces clock run manifest sources 0 (mf_Traces manifest)
             (s, report, [normalizing 0 n None]);
          report = report\<lparr>ir_Complete := True\<rparr>
      in case finish_import report s of
           Inl e \<Rightarrow> (s\<lparr>runningImport := 0\<rparr>, Inl e, progress)
         | Inr s \<Rightarrow> (s\<lparr>runningImport := 0\<rparr>, Inr report,
             progress @ [\<lparr>p_Phase = ''complete'', p_Completed = int n, p_Total = int n, p_Outcome = None,
                          p_Report = Some report, p_Error = []\<rparr>]))"

end
