(* ===== verification/EventJson.thy ===== *)
theory EventJson
  imports StructRoundtrip
begin

text \<open>
  Reading back the events the store keeps: \<open>json.Unmarshal\<close> into \<open>domain.Event\<close>, and the proof that an
  event survives the column \<open>event_json\<close>.  \<open>LegacyKeys\<close> is not encoded.  \<open>metadata\<close> is raw JSON; the
  normalizers give it as the encoding of a map, whose keys are sorted and whose numbers and strings are
  written one way, so that reading and writing it again gives the same text.
\<close>

subsection \<open>Decoding\<close>

definition decode_source :: "json \<Rightarrow> SourceRef option" where
  "decode_source j =
     (if \<not> is_struct j then None
      else case (dec_str j ''path'', dec_int j ''line'') of
        (Some p, Some n) \<Rightarrow> Some \<lparr>s_Path = p, s_Line = n\<rparr>
      | _ \<Rightarrow> None)"

definition decode_attachment :: "json \<Rightarrow> Attachment option" where
  "decode_attachment j =
     (if \<not> is_struct j then None
      else
        Option.bind (dec_str j ''name'') (\<lambda>n.
        Option.bind (dec_str j ''media_type'') (\<lambda>mt.
        Option.bind (dec_str j ''path'') (\<lambda>p.
        Option.bind (dec_str j ''url'') (\<lambda>u.
        Option.bind (dec_str j ''source_pointer'') (\<lambda>sp.
        Option.bind (dec_bool j ''inline'') (\<lambda>i.
        Option.bind (dec_str j ''archived_path'') (\<lambda>ap.
        Option.bind (dec_int j ''size'') (\<lambda>n'.
          Some \<lparr>a_Name = n, a_MediaType = mt, a_Path = p, a_URL = u, a_SourcePointer = sp, a_Inline = i,
                a_ArchivedPath = ap, a_Size = n'\<rparr>)))))))))"

text \<open>A field of type \<open>json.RawMessage\<close>: the text of its value, also of \<open>null\<close>; nothing when the key is absent.\<close>

definition has_field :: "json \<Rightarrow> string \<Rightarrow> bool" where
  "has_field j k = (case j of JObj m \<Rightarrow> list_ex (\<lambda>kv. EqualFold (fst kv) k) m | _ \<Rightarrow> False)"

definition dec_raw :: "json \<Rightarrow> string \<Rightarrow> string" where
  "dec_raw j k = (if has_field j k then Marshal (get_field j k) else [])"

definition decode_event :: "json \<Rightarrow> Event option" where
  "decode_event j =
     (if \<not> is_struct j then None
      else
        Option.bind (dec_int j ''id'') (\<lambda>i.
        Option.bind (dec_int j ''trace_id'') (\<lambda>t.
        Option.bind (dec_str j ''key'') (\<lambda>key.
        Option.bind (dec_str j ''parent_key'') (\<lambda>pk.
        Option.bind (dec_str j ''branch'') (\<lambda>b.
        Option.bind (dec_str j ''kind'') (\<lambda>k.
        Option.bind (dec_str j ''role'') (\<lambda>r.
        Option.bind (dec_str j ''model'') (\<lambda>m.
        Option.bind (dec_str j ''provider'') (\<lambda>p.
        Option.bind (dec_str j ''tool'') (\<lambda>to.
        Option.bind (dec_str j ''call_id'') (\<lambda>c.
        Option.bind (dec_str j ''timestamp'') (\<lambda>ts.
        Option.bind (dec_str j ''text'') (\<lambda>te.
        Option.bind (dec_list decode_source j ''sources'') (\<lambda>ss.
        Option.bind (dec_list decode_attachment j ''attachments'') (\<lambda>as.
          Some \<lparr>e_ID = i, e_TraceID = t, e_Key = key, e_ParentKey = pk, e_Branch = b, e_Kind = k, e_Role = r,
                e_Model = m, e_Provider = p, e_Tool = to, e_CallID = c, e_Timestamp = ts, e_Text = te,
                e_Sources = ss, e_Attachments = as, e_Metadata = dec_raw j ''metadata'', e_LegacyKeys = []\<rparr>))))))))))))))))"

definition unmarshal_event :: "string \<Rightarrow> Event result" where
  "unmarshal_event encoded =
     (case Option.bind (parse_text encoded) decode_event of
        None \<Rightarrow> Inl ''json: cannot unmarshal'' | Some e \<Rightarrow> Inr e)"

subsection \<open>Events that survive\<close>

definition valid_source :: "SourceRef \<Rightarrow> bool" where
  "valid_source s \<longleftrightarrow> ValidString (s_Path s) \<and> int64 (s_Line s)"

definition valid_attachment :: "Attachment \<Rightarrow> bool" where
  "valid_attachment a \<longleftrightarrow> list_all ValidString [a_Name a, a_MediaType a, a_Path a, a_URL a, a_SourcePointer a, a_ArchivedPath a]
     \<and> int64 (a_Size a)"

definition valid_metadata :: "string \<Rightarrow> bool" where
  "valid_metadata s \<longleftrightarrow> s = [] \<or>
     (case parse_text s of Some v \<Rightarrow> Marshal v = s \<and> wf_json v \<and> depth v < max_depth | None \<Rightarrow> False)"

definition valid_event :: "Event \<Rightarrow> bool" where
  "valid_event e \<longleftrightarrow> int64 (e_ID e) \<and> int64 (e_TraceID e)
     \<and> list_all ValidString [e_Key e, e_ParentKey e, e_Branch e, e_Kind e, e_Role e, e_Model e, e_Provider e, e_Tool e,
         e_CallID e, e_Timestamp e, e_Text e]
     \<and> list_all valid_source (e_Sources e) \<and> list_all valid_attachment (e_Attachments e) \<and> valid_metadata (e_Metadata e)"

lemma plain_key_event [simp]:
  "plain_key ''line''" "plain_key ''name''" "plain_key ''media_type''" "plain_key ''url''" "plain_key ''source_pointer''"
  "plain_key ''inline''" "plain_key ''archived_path''" "plain_key ''trace_id''" "plain_key ''key''" "plain_key ''parent_key''"
  "plain_key ''branch''" "plain_key ''kind''" "plain_key ''role''" "plain_key ''model''" "plain_key ''provider''"
  "plain_key ''tool''" "plain_key ''call_id''" "plain_key ''timestamp''" "plain_key ''text''" "plain_key ''sources''"
  "plain_key ''attachments''" "plain_key ''metadata''"
  by (simp_all add: plain_key_def upper_ascii_def less_eq_char_def)

lemma event_field_lookup:
  "map_of (int_omit k i @ r) k' = (if k' = k \<and> i \<noteq> 0 then Some (jint i) else map_of r k')"
  "map_of (list_omit k f xs @ r) k' = (if k' = k \<and> xs \<noteq> [] then Some (JArr (map f xs)) else map_of r k')"
  "map_of (opt_field b k v @ r) k' = (if k' = k \<and> b then Some v else map_of r k')"
  "map_of (int_omit k i) k' = (if k' = k \<and> i \<noteq> 0 then Some (jint i) else None)"
  by (auto simp: field_defs)

lemma dec_int_field:
  "int64 i \<Longrightarrow> get_field j k = (if i = 0 then JNull else jint i) \<or> get_field j k = jint i \<Longrightarrow> dec_int j k = Some i"
  using dec_jint [of i j k] by (auto simp: dec_int_def split: if_splits)

text \<open>The keys of the fields are among a fixed list of distinct keys, in its order.\<close>

lemma field_keys:
  "subseq (map fst (str_field k s)) [k]" "subseq (map fst (str_omit k s)) [k]" "subseq (map fst (int_omit k i)) [k]"
  "subseq (map fst (list_omit k f xs)) [k]" "subseq (map fst (opt_field b k v)) [k]" "subseq (map fst (int_omit k i)) [k]"
  by (auto simp: field_defs)

lemma keys_facts:
  assumes "subseq (map fst kvs) ks" "distinct ks" "list_all plain_key ks"
  shows "distinct (map fst kvs)" "\<forall>kv \<in> set kvs. plain_key (fst kv)"
proof -
  show "distinct (map fst kvs)" using subseqs_distinctD [of "map fst kvs" ks] assms(1,2) by simp
  show "\<forall>kv \<in> set kvs. plain_key (fst kv)"
  proof
    fix kv assume "kv \<in> set kvs"
    then have "fst kv \<in> set (map fst kvs)" by simp
    then have "fst kv \<in> set ks" by (rule list_emb_set [OF assms(1)]) simp
    with assms(3) show "plain_key (fst kv)" by (simp add: list_all_iff)
  qed
qed

lemma has_field_canon:
  assumes "distinct (map fst kvs)" "\<forall>kv \<in> set kvs. plain_key (fst kv)" "plain_key k"
  shows "has_field (canon (JObj kvs)) k \<longleftrightarrow> k \<in> fst ` set kvs"
proof -
  have "distinct (map fst (map (\<lambda>kv. (fst kv, canon (snd kv))) kvs))" using assms(1) by (simp add: comp_def)
  then obtain m where m: "mk_obj (map (\<lambda>kv. (fst kv, canon (snd kv))) kvs) = JObj m" "set (map fst m) = set (map fst kvs)"
    by (rule mk_obj_lookup) (force simp: comp_def)
  have "list_ex (\<lambda>kv. EqualFold (fst kv) k) m \<longleftrightarrow> list_ex (\<lambda>a. EqualFold a k) (map fst m)" by (induction m) auto
  also have "\<dots> \<longleftrightarrow> (\<exists>a \<in> set (map fst kvs). EqualFold a k)" by (simp add: list_ex_iff m(2) del: set_map)
  also have "\<dots> \<longleftrightarrow> k \<in> fst ` set kvs" using assms(2,3) by (force simp: EqualFold_plain)
  finally show ?thesis by (simp add: has_field_def m(1))
qed

lemma source_roundtrip: "valid_source s \<Longrightarrow> decode_source (canon (source_json s)) = Some s"
proof -
  assume v: "valid_source s"
  let ?j = "canon (source_json s)"
  have "get_field ?j ''line'' = (if s_Line s = 0 then JNull else jint (s_Line s))"
    using v by (simp add: source_json_def field_defs get_field_canon valid_source_def del: canon.simps(2))
  then have "dec_int ?j ''line'' = Some (s_Line s)" using v by (intro dec_int_field) (simp_all add: valid_source_def)
  moreover have "dec_str ?j ''path'' = Some (s_Path s)" "is_struct ?j"
    by (simp_all add: source_json_def field_defs get_field_canon dec_str_def del: canon.simps(2))
  ultimately show ?thesis by (simp add: decode_source_def)
qed

definition attachment_fields :: "Attachment \<Rightarrow> (string \<times> json) list" where
  "attachment_fields a =
     str_omit ''name'' (a_Name a) @ str_omit ''media_type'' (a_MediaType a) @ str_omit ''path'' (a_Path a)
     @ str_omit ''url'' (a_URL a) @ str_omit ''source_pointer'' (a_SourcePointer a)
     @ opt_field (a_Inline a) ''inline'' (JBool True) @ str_omit ''archived_path'' (a_ArchivedPath a)
     @ int_omit ''size'' (a_Size a)"

lemma attachment_fields_json: "attachment_json a = JObj (attachment_fields a)"
  by (simp add: attachment_json_def attachment_fields_def)

lemma attachment_keys:
  "subseq (map fst (attachment_fields a))
    ([''name''] @ [''media_type''] @ [''path''] @ [''url''] @ [''source_pointer''] @ [''inline''] @ [''archived_path''] @ [''size''])"
  unfolding attachment_fields_def map_append by (intro list_emb_append_mono field_keys)

lemma attachment_get:
  assumes "plain_key k"
  shows "get_field (canon (attachment_json a)) k =
     (case map_of (attachment_fields a) k of Some v \<Rightarrow> canon v | None \<Rightarrow> JNull)"
  unfolding attachment_fields_json by (rule get_field_canon [OF keys_facts [OF attachment_keys] assms]) simp_all

lemma attachment_roundtrip:
  assumes "valid_attachment a"
  shows "decode_attachment (canon (attachment_json a)) = Some a"
proof -
  let ?j = "canon (attachment_json a)"
  note g = attachment_get attachment_fields_def field_lookup event_field_lookup
  have s: "is_struct ?j" by (simp add: attachment_fields_json del: canon.simps(2))
  have i: "dec_int ?j ''size'' = Some (a_Size a)"
    using assms by (intro dec_int_field) (simp_all add: g valid_attachment_def del: map_of_append)
  have b: "dec_bool ?j ''inline'' = Some (a_Inline a)" by (simp add: dec_bool_def g del: map_of_append)
  have t: "dec_str ?j ''name'' = Some (a_Name a)" "dec_str ?j ''media_type'' = Some (a_MediaType a)"
    "dec_str ?j ''path'' = Some (a_Path a)" "dec_str ?j ''url'' = Some (a_URL a)"
    "dec_str ?j ''source_pointer'' = Some (a_SourcePointer a)" "dec_str ?j ''archived_path'' = Some (a_ArchivedPath a)"
    by (rule dec_str_field; simp add: g del: map_of_append)+
  show ?thesis by (simp add: decode_attachment_def s i b t)
qed

subsection \<open>The round trip\<close>

definition event_fields :: "Event \<Rightarrow> (string \<times> json) list \<Rightarrow> (string \<times> json) list" where
  "event_fields e meta =
     int_omit ''id'' (e_ID e) @ int_omit ''trace_id'' (e_TraceID e) @ str_field ''key'' (e_Key e)
     @ str_omit ''parent_key'' (e_ParentKey e) @ str_omit ''branch'' (e_Branch e)
     @ str_field ''kind'' (e_Kind e) @ str_omit ''role'' (e_Role e) @ str_omit ''model'' (e_Model e)
     @ str_omit ''provider'' (e_Provider e) @ str_omit ''tool'' (e_Tool e)
     @ str_omit ''call_id'' (e_CallID e) @ str_omit ''timestamp'' (e_Timestamp e)
     @ str_field ''text'' (e_Text e) @ list_omit ''sources'' source_json (e_Sources e)
     @ list_omit ''attachments'' attachment_json (e_Attachments e) @ meta"

definition metadata_field :: "json option \<Rightarrow> (string \<times> json) list" where
  "metadata_field v = (case v of None \<Rightarrow> [] | Some v \<Rightarrow> [(''metadata'', v)])"

lemma valid_metadata_cases:
  assumes "valid_metadata s"
  obtains "s = []" | v where "s \<noteq> []" "parse_text s = Some v" "Marshal v = s" "canon v = v" "wf_json v" "depth v < max_depth"
proof (cases "s = []")
  case False
  with assms obtain v where v: "parse_text s = Some v" "Marshal v = s" "wf_json v" "depth v < max_depth"
    by (auto simp: valid_metadata_def split: option.splits)
  then have "canon v = v" using parse_text_encode(1) [of v True] by simp
  with v False that(2) show thesis by blast
qed (use that(1) in blast)

lemma event_json_fields:
  assumes "valid_event e"
  obtains v where "event_json e = Some (JObj (event_fields e (metadata_field v)))"
    "\<And>w. v = Some w \<Longrightarrow> canon w = w \<and> wf_json w \<and> depth w < max_depth"
    "(case v of None \<Rightarrow> [] | Some w \<Rightarrow> Marshal w) = e_Metadata e"
proof -
  have "valid_metadata (e_Metadata e)" using assms by (simp add: valid_event_def)
  then show thesis
  proof (cases rule: valid_metadata_cases)
    case 1
    then show ?thesis using that [of None] by (simp add: event_json_def event_fields_def metadata_field_def)
  next
    case (2 v)
    then show ?thesis using that [of "Some v"] by (simp add: event_json_def event_fields_def metadata_field_def)
  qed
qed

lemma event_keys:
  "subseq (map fst (event_fields e (metadata_field v)))
    ([''id''] @ [''trace_id''] @ [''key''] @ [''parent_key''] @ [''branch''] @ [''kind''] @ [''role''] @ [''model''] @ [''provider''] @
     [''tool''] @ [''call_id''] @ [''timestamp''] @ [''text''] @ [''sources''] @ [''attachments''] @ [''metadata''])"
  unfolding event_fields_def map_append by (intro list_emb_append_mono field_keys) (simp add: metadata_field_def split: option.split)

lemma event_get:
  assumes "plain_key k"
  shows "get_field (canon (JObj (event_fields e (metadata_field v)))) k =
     (case map_of (event_fields e (metadata_field v)) k of Some v \<Rightarrow> canon v | None \<Rightarrow> JNull)"
  by (rule get_field_canon [OF keys_facts [OF event_keys] assms]) simp_all

lemma event_wf:
  assumes "valid_event e" "\<And>w. v = Some w \<Longrightarrow> canon w = w \<and> wf_json w \<and> depth w < max_depth"
  shows "wf_json (JObj (event_fields e (metadata_field v))) \<and> depth (JObj (event_fields e (metadata_field v))) \<le> max_depth"
proof -
  have opt: "wf_fields n (int_omit k i)" if "plain_key k" "int64 i" for n k i
    using that by (simp add: int_omit_def wf_fields_simps)
  have lst: "wf_fields (Suc (Suc n)) (list_omit k f xs)"
    if "plain_key k" "\<And>x. x \<in> set xs \<Longrightarrow> wf_json (f x) \<and> depth (f x) \<le> Suc n" for n k f and xs :: "'b list"
    using wf_array [where xs = xs and f = f and n = "Suc n"] that by (simp add: list_omit_def wf_fields_simps del: wf_json.simps depth.simps)
  have s: "wf_json (source_json x) \<and> depth (source_json x) \<le> Suc 0" if "x \<in> set (e_Sources e)" for x
    using that assms(1) unfolding source_json_def
    by (intro wf_fields_obj) (auto simp: wf_fields_simps opt valid_event_def valid_source_def list_all_iff)
  have a: "wf_json (attachment_json x) \<and> depth (attachment_json x) \<le> Suc 0" if "x \<in> set (e_Attachments e)" for x
    using that assms(1) unfolding attachment_json_def
    by (intro wf_fields_obj) (auto simp: wf_fields_simps opt valid_event_def valid_attachment_def list_all_iff)
  have two: "max_depth - 1 = Suc (Suc (max_depth - 3))" by (simp add: max_depth_def)
  have m: "wf_fields (max_depth - 1) (metadata_field v)"
    using assms(2) by (cases v) (auto simp: metadata_field_def wf_fields_simps)
  have "wf_fields (max_depth - 1) (list_omit ''sources'' source_json (e_Sources e))"
    unfolding two by (rule lst) (use s in \<open>auto intro: order_trans\<close>)
  moreover have "wf_fields (max_depth - 1) (list_omit ''attachments'' attachment_json (e_Attachments e))"
    unfolding two by (rule lst) (use a in \<open>auto intro: order_trans\<close>)
  ultimately have "wf_fields (max_depth - 1) (event_fields e (metadata_field v))"
    using assms(1) m by (simp add: event_fields_def wf_fields_simps opt valid_event_def)
  from wf_fields_obj [OF this] show ?thesis by (simp add: max_depth_def del: wf_json.simps depth.simps)
qed

lemma decode_event_canon:
  assumes e: "valid_event e" and m: "(case v of None \<Rightarrow> [] | Some w \<Rightarrow> Marshal w) = e_Metadata e" "\<And>w. v = Some w \<Longrightarrow> canon w = w"
  shows "decode_event (canon (JObj (event_fields e (metadata_field v)))) = Some (e\<lparr>e_LegacyKeys := []\<rparr>)"
proof -
  define j where "j = canon (JObj (event_fields e (metadata_field v)))"
  have md: "map_of (metadata_field v) k = (if k = ''metadata'' then v else None)" for k
    by (cases v) (auto simp: metadata_field_def)
  have get: "plain_key k \<Longrightarrow> get_field j k = (case map_of (event_fields e (metadata_field v)) k of Some v \<Rightarrow> canon v | None \<Rightarrow> JNull)" for k
    unfolding j_def by (rule event_get)
  note g = get event_fields_def field_lookup event_field_lookup md
  have n: "int64 (e_ID e)" "int64 (e_TraceID e)" using e by (simp_all add: valid_event_def)
  have s: "is_struct j" by (simp add: j_def del: canon.simps(2))
  have i: "dec_int j ''id'' = Some (e_ID e)" "dec_int j ''trace_id'' = Some (e_TraceID e)"
    by (rule dec_int_field; simp add: n g del: map_of_append)+
  have t: "dec_str j ''key'' = Some (e_Key e)" "dec_str j ''parent_key'' = Some (e_ParentKey e)"
    "dec_str j ''branch'' = Some (e_Branch e)" "dec_str j ''kind'' = Some (e_Kind e)" "dec_str j ''role'' = Some (e_Role e)"
    "dec_str j ''model'' = Some (e_Model e)" "dec_str j ''provider'' = Some (e_Provider e)" "dec_str j ''tool'' = Some (e_Tool e)"
    "dec_str j ''call_id'' = Some (e_CallID e)" "dec_str j ''timestamp'' = Some (e_Timestamp e)" "dec_str j ''text'' = Some (e_Text e)"
    by (rule dec_str_field; simp add: g del: map_of_append canon.simps(2))+
  have ss: "dec_list decode_source j ''sources'' = Some (e_Sources e)"
    by (rule dec_list_field [where g = "\<lambda>x. canon (source_json x)"])
      (use e in \<open>auto simp: g comp_def valid_event_def list_all_iff source_roundtrip simp del: map_of_append\<close>)
  have as: "dec_list decode_attachment j ''attachments'' = Some (e_Attachments e)"
    by (rule dec_list_field [where g = "\<lambda>x. canon (attachment_json x)"])
      (use e in \<open>auto simp: g comp_def valid_event_def list_all_iff attachment_roundtrip simp del: map_of_append\<close>)
  have h: "has_field j ''metadata'' \<longleftrightarrow> ''metadata'' \<in> fst ` set (event_fields e (metadata_field v))"
    unfolding j_def by (rule has_field_canon [OF keys_facts [OF event_keys]]) simp_all
  have w: "map_of (event_fields e (metadata_field v)) ''metadata'' = v"
    by (simp add: event_fields_def field_lookup event_field_lookup md del: map_of_append)
  then have "has_field j ''metadata'' \<longleftrightarrow> v \<noteq> None" by (metis h map_of_eq_None_iff)
  then have r: "dec_raw j ''metadata'' = e_Metadata e"
    using m get [of "''metadata''"] by (auto simp: dec_raw_def w split: option.splits)
  show ?thesis unfolding j_def [symmetric] by (simp add: decode_event_def s i t ss as r)
qed

lemma unmarshal_encoded:
  assumes "valid_event e"
  shows "\<exists>j. event_json e = Some j \<and> unmarshal_event (Marshal j) = Inr (e\<lparr>e_LegacyKeys := []\<rparr>)"
proof -
  from assms obtain v where v: "event_json e = Some (JObj (event_fields e (metadata_field v)))"
    "\<And>w. v = Some w \<Longrightarrow> canon w = w \<and> wf_json w \<and> depth w < max_depth" "(case v of None \<Rightarrow> [] | Some w \<Rightarrow> Marshal w) = e_Metadata e"
    by (rule event_json_fields) blast
  let ?j = "JObj (event_fields e (metadata_field v))"
  have "parse_text (Marshal ?j) = Some (canon ?j)" using event_wf [OF assms v(2)] by (blast intro: parse_text_encode(1))
  with v decode_event_canon [OF assms v(3)] show ?thesis by (simp add: unmarshal_event_def del: canon.simps encode.simps)
qed

end
