(* ===== verification/StoreTitles.thy ===== *)
theory StoreTitles
  imports StoreImport EventJson
begin

text \<open>
  Titles, \<open>internal/store/titles.go\<close>: a manual override, the title a model generated, and the rebuilding of the
  search text that makes every title searchable.
\<close>

subsection \<open>Labels\<close>

definition displayTitle :: "TraceRow \<Rightarrow> string" where
  "displayTitle t = (if t_TitleOverride t \<noteq> [] then t_TitleOverride t
                     else if t_Title t \<noteq> [] then t_Title t else t_GeneratedTitle t)"

definition trace_repository :: "Store \<Rightarrow> TraceRow \<Rightarrow> Repository" where
  "trace_repository s t =
     (case Option.bind (t_Repository t) (\<lambda>i. find (\<lambda>r. rp_ID r = i) (repositories s)) of
        None \<Rightarrow> zero_Repository | Some r \<Rightarrow> \<lparr>r_Remote = rp_Remote r, r_Root = rp_Root r\<rparr>)"

definition currentSearchLabels :: "Store \<Rightarrow> int \<Rightarrow> string result" where
  "currentSearchLabels s traceID =
     bind_result (found (find (\<lambda>t. t_ID t = traceID) (traces s))) (\<lambda>t.
       Inr (searchLabels (zero_Descriptor\<lparr>d_Harness := t_Harness t, d_Title := t_Title t,
              d_WorkingDirectory := t_WorkingDirectory t, d_Repository := trace_repository s t\<rparr>)
            [t_TitleOverride t, t_GeneratedTitle t]))"

definition maxTitleRunes :: nat where "maxTitleRunes = 200"

text \<open>\<open>unicode.IsControl\<close>\<close>

definition IsControl :: "nat \<Rightarrow> bool" where
  "IsControl r \<longleftrightarrow> r < 0x20 \<or> 0x7F \<le> r \<and> r < 0xA0"

text \<open>\<open>unicode.IsSpace\<close> and \<open>strings.TrimSpace\<close>\<close>

definition IsSpace :: "nat \<Rightarrow> bool" where
  "IsSpace r \<longleftrightarrow> r \<in> {0x09, 0x0A, 0x0B, 0x0C, 0x0D, 0x20, 0x85, 0xA0, 0x1680, 0x2028, 0x2029, 0x202F, 0x205F, 0x3000}
     \<or> 0x2000 \<le> r \<and> r \<le> 0x200A"

definition TrimSpace :: "string \<Rightarrow> string" where
  "TrimSpace s = concat (map snd (rev (dropWhile (\<lambda>(r, _). IsSpace r) (rev (dropWhile (\<lambda>(r, _). IsSpace r) (runes s))))))"

definition ErrInvalidTitle :: string where "ErrInvalidTitle = ''invalid title''"

definition validateTitle :: "string \<Rightarrow> string result" where
  "validateTitle title0 =
     (let title = TrimSpace title0
      in if \<not> ValidString title \<or> maxTitleRunes < RuneCount title
         then Inl (ErrInvalidTitle @ '': title must be valid UTF-8 and at most 200 characters'')
         else if list_ex (\<lambda>(r, _). IsControl r) (runes title)
         then Inl (ErrInvalidTitle @ '': title must be one line without control characters'')
         else Inr title)"

subsection \<open>Rebuilding the search text\<close>

text \<open>The observations of a revision with the text each is to be found by.\<close>

definition revision_sources :: "Store \<Rightarrow> int \<Rightarrow> int \<Rightarrow> SourceRef list" where
  "revision_sources s revisionID observationID =
     map (\<lambda>r. \<lparr>s_Path = os_Path r, s_Line = os_Line r\<rparr>)
       (sort_key os_Ordinal (filter (\<lambda>r. os_Revision r = revisionID \<and> os_Observation r = observationID) (observation_sources s)))"

fun observation_texts :: "Store \<Rightarrow> int \<Rightarrow> string \<Rightarrow> ObservationRow list \<Rightarrow> (int \<times> int \<times> string) list result" where
  "observation_texts s revisionID labels [] = Inr []"
| "observation_texts s revisionID labels (q # qs) =
     bind_result (unmarshal_event (ob_JSON q)) (\<lambda>event.
       let text = searchableText (event\<lparr>e_Sources := revision_sources s revisionID (ob_ID q)\<rparr>) @ newline @ labels
       in bind_result (observation_texts s revisionID labels qs) (\<lambda>texts. Inr ((ob_ID q, ob_Event q, text) # texts)))"

definition revision_observations :: "Store \<Rightarrow> int \<Rightarrow> ObservationRow list" where
  "revision_observations s revisionID =
     concat (map (\<lambda>x. filter (\<lambda>q. ob_ID q = or_Observation x) (observations s))
       (filter (\<lambda>x. or_Revision x = revisionID) (observation_revisions s)))"

definition set_search_text :: "int \<Rightarrow> int \<times> int \<times> string \<Rightarrow> ObservationRevisionRow list \<Rightarrow> ObservationRevisionRow list" where
  "set_search_text revisionID item rows =
     (case item of (observationID, eventID, text) \<Rightarrow>
        update_where (\<lambda>x. or_Observation x = observationID \<and> or_Revision x = revisionID) (\<lambda>x. x\<lparr>or_Text := text\<rparr>) rows)"

definition reindexRevisionSearch :: "int \<Rightarrow> string \<Rightarrow> Store \<Rightarrow> Store result" where
  "reindexRevisionSearch revisionID labels s =
     bind_result (observation_texts s revisionID labels (revision_observations s revisionID)) (\<lambda>texts.
     bind_result (rechunk revisionID texts (delete_where (\<lambda>c. c_Revision c = revisionID) (chunks s))) (\<lambda>rows.
       Inr (s\<lparr>observation_revisions := foldl (\<lambda>rows item. set_search_text revisionID item rows) (observation_revisions s) texts,
              chunks := rows\<rparr>)))"

fun reindex_each :: "string \<Rightarrow> int list \<Rightarrow> Store \<Rightarrow> Store result" where
  "reindex_each labels [] s = Inr s"
| "reindex_each labels (r # rs) s = bind_result (reindexRevisionSearch r labels s) (reindex_each labels rs)"

definition reindexTraceSearch :: "int \<Rightarrow> Store \<Rightarrow> Store result" where
  "reindexTraceSearch traceID s =
     bind_result (currentSearchLabels s traceID) (\<lambda>labels.
       reindex_each labels (sort (map v_ID (filter (\<lambda>r. v_Trace r = traceID) (revisions s)))) s)"

subsection \<open>Setting titles\<close>

definition setTitleOverride :: "int \<Rightarrow> string \<Rightarrow> Store \<Rightarrow> Store result" where
  "setTitleOverride traceID title s =
     (if \<not> list_ex (\<lambda>t. t_ID t = traceID) (traces s) then Inl no_rows
      else reindexTraceSearch traceID (update_trace traceID (\<lambda>t. t\<lparr>t_TitleOverride := title\<rparr>) s))"

definition SetTitleOverride :: "int \<Rightarrow> string \<Rightarrow> Store \<Rightarrow> Store result" where
  "SetTitleOverride traceID title s = bind_result (validateTitle title) (\<lambda>title. setTitleOverride traceID title s)"

definition SetGeneratedTitle :: "int \<Rightarrow> int \<Rightarrow> string \<Rightarrow> Store \<Rightarrow> Store result" where
  "SetGeneratedTitle traceID revisionID title0 s =
     bind_result (validateTitle title0) (\<lambda>title.
     bind_result (found (find (\<lambda>t. t_ID t = traceID) (traces s))) (\<lambda>t.
       let P = (\<lambda>t. t_ID t = traceID \<and> t_GeneratedRevision t < revisionID);
           s' = s\<lparr>traces := update_where P (\<lambda>t. t\<lparr>t_GeneratedTitle := title, t_GeneratedRevision := revisionID\<rparr>) (traces s)\<rparr>
       in if \<not> list_ex P (traces s) then Inr s
          else if title \<noteq> t_GeneratedTitle t then reindexTraceSearch traceID s' else Inr s'))"

text \<open>\<open>TitleCandidates\<close>: \<open>idleBefore\<close> is the formatted time.\<close>

definition latest_revision :: "Store \<Rightarrow> int \<Rightarrow> int option" where
  "latest_revision s traceID = map_option v_ID (best v_ID (filter (\<lambda>r. v_Trace r = traceID) (revisions s)))"

definition TitleCandidates :: "string \<Rightarrow> nat \<Rightarrow> Store \<Rightarrow> (int \<times> int) list" where
  "TitleCandidates idleBefore limit s =
     (let rows = filter (\<lambda>t. t_TitleOverride t = [] \<and> t_Title t = [] \<and> t_UpdatedAt t < idleBefore) (traces s);
          rows = concat (map (\<lambda>t. case latest_revision s (t_ID t) of
                    Some r \<Rightarrow> if t_GeneratedRevision t < r then [(t, r)] else [] | None \<Rightarrow> []) rows)
      in take limit (map (\<lambda>(t, r). (t_ID t, r)) (rev (sort_key (\<lambda>(t, r). (t_UpdatedAt t, t_ID t)) rows))))"

end
