(* ===== verification/StoreMaintenance.thy ===== *)
theory StoreMaintenance
  imports StoreTitles
begin

text \<open>
  \<open>internal/store/maintenance.go\<close>: deleting a trace, collecting objects no revision uses, and normalizing old
  revisions again.  Both loops read batches of a hundred rows.  Between two candidates of \<open>Renormalize\<close> the
  writer lock is free; \<open>renormalize_one\<close> is the step under the lock, and \<open>Renormalize\<close> the whole loop when no
  other writer comes in between.  \<open>clock\<close> gives the time at which a revision is handled.
\<close>

subsection \<open>Garbage\<close>

definition unused_objects :: "Store \<Rightarrow> SourceObjectRow list" where
  "unused_objects s = filter (\<lambda>q. so_Digest q \<notin> ro_Digest ` set (revision_objects s)) (source_objects s)"

definition remove_file :: "string \<Rightarrow> (string \<times> string) list \<Rightarrow> (string \<times> string) list" where
  "remove_file path dir = filter (\<lambda>(p, _). p \<noteq> path) dir"

definition collect_object :: "Store \<Rightarrow> SourceObjectRow \<Rightarrow> Store" where
  "collect_object s q =
     s\<lparr>objects_dir := remove_file (so_Path q) (objects_dir s),
       source_objects := delete_where (\<lambda>r. so_Digest r = so_Digest q \<and> so_Digest q \<notin> ro_Digest ` set (revision_objects s))
         (source_objects s)\<rparr>"

text \<open>A batch is at most a hundred rows; a full one is followed by another.\<close>

lemma collect_object_shrinks:
  "q \<in> set (unused_objects s) \<Longrightarrow> length (source_objects (collect_object s q)) < length (source_objects s)"
  by (auto simp: collect_object_def unused_objects_def delete_where_def intro!: length_filter_less)

lemma collect_object_le: "length (source_objects (collect_object s q)) \<le> length (source_objects s)"
  by (simp add: collect_object_def delete_where_def)

lemma collect_objects_le: "length (source_objects (foldl collect_object s qs)) \<le> length (source_objects s)"
  by (induction qs arbitrary: s) (auto intro: order_trans collect_object_le)

function collect_unused :: "Store \<Rightarrow> Store" where
  "collect_unused s =
     (let batch = take 100 (unused_objects s); s' = foldl collect_object s batch
      in if length batch < 100 then s' else collect_unused s')"
  by pat_completeness auto
termination
proof (relation "measure (\<lambda>s. length (source_objects s))")
  fix s batch s' assume b: "batch = take 100 (unused_objects s)" "s' = foldl collect_object s batch" "\<not> length batch < 100"
  have "batch \<noteq> []" using b(3) by auto
  then obtain q qs where q: "batch = q # qs" using list.exhaust by blast
  have "q \<in> set (unused_objects s)" using b(1) q by (metis in_set_takeD list.set_intros(1))
  then show "(s', s) \<in> measure (\<lambda>s. length (source_objects s))"
    using collect_object_shrinks collect_objects_le [of "collect_object s q" qs] b(2) q by fastforce
qed simp

declare collect_unused.simps [simp del]

definition sweep_files :: "Store \<Rightarrow> Store" where
  "sweep_files s = s\<lparr>objects_dir := filter (\<lambda>(p, _). p \<in> so_Path ` set (source_objects s)) (objects_dir s)\<rparr>"

definition gc :: "Store \<Rightarrow> Store" where
  "gc s = sweep_files (collect_unused s)"

definition DeleteTrace :: "int \<Rightarrow> Store \<Rightarrow> Store result" where
  "DeleteTrace traceID s =
     (if \<not> list_ex (\<lambda>t. t_ID t = traceID) (traces s) then Inl no_rows
      else Inr (gc (delete_traces (\<lambda>t. t_ID t = traceID) s)))"

subsection \<open>Normalizing again\<close>

definition revisionFiles :: "Store \<Rightarrow> int \<Rightarrow> (string \<times> string) list" where
  "revisionFiles s revisionID =
     concat (map (\<lambda>q. map (\<lambda>r. (ro_Path q, so_Path r)) (filter (\<lambda>r. so_Digest r = ro_Digest q) (source_objects s)))
       (filter (\<lambda>q. ro_Revision q = revisionID) (revision_objects s)))"

definition objectFS :: "(string \<times> string) list \<Rightarrow> (string \<times> string) list \<Rightarrow> files" where
  "objectFS dir paths name =
     (case map_of paths name of None \<Rightarrow> None
      | Some path \<Rightarrow> (if ValidPath name then map_of dir path else None))"

text \<open>A row of the batch query; \<open>descriptor.Files\<close> is filled under the lock.\<close>

record candidate =
  cd_Revision :: int
  cd_Trace :: int
  cd_Descriptor :: Descriptor
  cd_Version :: int

definition candidate_of :: "Store \<Rightarrow> RevisionRow \<Rightarrow> candidate option" where
  "candidate_of s r =
     map_option (\<lambda>t. \<lparr>cd_Revision = v_ID r, cd_Trace = v_Trace r,
         cd_Descriptor = zero_Descriptor\<lparr>d_RevisionDigest := v_Digest r, d_NativeUpdatedAt := v_NativeUpdatedAt r,
            d_Adapter := v_Adapter r, d_Harness := t_Harness t, d_NativeTraceID := t_NativeTraceID t,
            d_ParentNativeTraceID := t_ParentNativeTraceID t, d_Title := t_Title t,
            d_WorkingDirectory := t_WorkingDirectory t, d_Repository := trace_repository s t\<rparr>,
         cd_Version = v_Version r\<rparr>) (find (\<lambda>t. t_ID t = v_Trace r) (traces s))"

fun stat_files :: "(string \<times> string) list \<Rightarrow> (string \<times> string) list \<Rightarrow> File list result" where
  "stat_files dir [] = Inr []"
| "stat_files dir ((name, path) # paths) =
     (case map_of dir path of None \<Rightarrow> Inl ''file does not exist''
      | Some content \<Rightarrow> bind_result (stat_files dir paths) (\<lambda>fs.
          Inr (\<lparr>f_Path = name, f_Size = int (length content), f_SHA256 = []\<rparr> # fs)))"

definition renormalize_one :: "string \<Rightarrow> (string \<Rightarrow> int) \<Rightarrow> normalize_fun \<Rightarrow> candidate \<Rightarrow> Store \<Rightarrow> Store result" where
  "renormalize_one now version run item s =
     (let paths = revisionFiles s (cd_Revision item) in
      bind_result (stat_files (objects_dir s) paths) (\<lambda>fs.
        let d = (cd_Descriptor item)\<lparr>d_Files := fs\<rparr> in
        case normalizeResult run d (objectFS (objects_dir s) paths) of (n, e) \<Rightarrow>
          let n = (if n_Version n = 0 then n\<lparr>n_Version := version (d_Harness d)\<rparr> else n) in
          if e \<noteq> None \<or> n_Status n = ''failed'' \<or> n_Status n = ''unsupported''
          then Inr (recordRun (cd_Revision item) (n_Version n) (n_Status n) (n_Warnings n) now s)
          else bind_result (currentSearchLabels s (cd_Trace item)) (\<lambda>labels.
               bind_result (replaceRevisionEvents now (cd_Trace item) (cd_Revision item) labels n s) (\<lambda>(s, _). Inr s))))"

fun renormalize_each :: "(int \<Rightarrow> string) \<Rightarrow> (string \<Rightarrow> int) \<Rightarrow> normalize_fun \<Rightarrow> candidate list \<Rightarrow> Store \<Rightarrow> Store \<times> string option" where
  "renormalize_each clock version run [] s = (s, None)"
| "renormalize_each clock version run (c # cs) s =
     (case renormalize_one (clock (cd_Revision c)) version run c s of
        Inl e \<Rightarrow> (s, Some e) | Inr s \<Rightarrow> renormalize_each clock version run cs s)"

text \<open>The batches, when no other writer comes in between: at most a hundred revisions after \<open>seen\<close> and up to the
  largest id there was at the start.\<close>

function renormalize_from :: "(int \<Rightarrow> string) \<Rightarrow> (string \<Rightarrow> int) \<Rightarrow> normalize_fun \<Rightarrow> int \<Rightarrow> int \<Rightarrow> Store \<Rightarrow> Store \<times> string option" where
  "renormalize_from clock version run seen maximum s =
     (if maximum \<le> seen then (s, None)
      else let rows = take 100 (filter (\<lambda>r. seen < v_ID r \<and> v_ID r \<le> maximum \<and> candidate_of s r \<noteq> None) (sort_key v_ID (revisions s)));
               batch = filter (\<lambda>c. cd_Version c < version (d_Harness (cd_Descriptor c)))
                         (concat (map (\<lambda>r. case candidate_of s r of None \<Rightarrow> [] | Some c \<Rightarrow> [c]) rows));
               seen' = (if rows = [] then maximum else foldl (\<lambda>_ r. v_ID r) seen rows)
           in case renormalize_each clock version run batch s of
                (s, Some e) \<Rightarrow> (s, Some e)
              | (s, None) \<Rightarrow> renormalize_from clock version run seen' maximum s)"
  by pat_completeness auto
termination
proof (relation "measure (\<lambda>(clock, version, run, seen, maximum, s). nat (maximum - seen))", goal_cases)
  case (2 clock version run seen maximum s rows batch seen')
  have "seen < seen'"
  proof (cases "rows = []")
    case False
    then obtain us r where rows: "rows = us @ [r]" by (metis rev_exhaust)
    then have "r \<in> set rows" by simp
    then have "seen < v_ID r" unfolding 2(2) using in_set_takeD by fastforce
    moreover have "seen' = v_ID r" unfolding 2(4) rows by simp
    ultimately show ?thesis by simp
  qed (use 2(1, 4) in simp)
  then show ?case using 2(1) by simp
qed simp

definition Renormalize :: "(int \<Rightarrow> string) \<Rightarrow> (string \<Rightarrow> int) \<Rightarrow> normalize_fun \<Rightarrow> Store \<Rightarrow> Store \<times> string option" where
  "Renormalize clock version run s = renormalize_from clock version run 0 (foldr max (map v_ID (revisions s)) 0) s"

end
