(* ===== verification/StoreInvariant.thy ===== *)
theory StoreInvariant
  imports StoreMaintenance
begin

text \<open>
  What holds of the database between transactions, and that every operation of the store keeps it.  \<open>links_ok\<close>
  is about keys and foreign keys of the tables of a trace, \<open>index_ok\<close> says that the search chunks are those of
  the search texts, \<open>preferred_ok\<close> that every event shows the observation of its newest revision.
\<close>

subsection \<open>Keys and foreign keys\<close>

definition link_keys :: "Store \<Rightarrow> (int \<times> int) list" where
  "link_keys s = map (\<lambda>x. (or_Observation x, or_Revision x)) (observation_revisions s)"

definition keys_ok :: "Store \<Rightarrow> bool" where
  "keys_ok s \<longleftrightarrow>
     distinct (map t_ID (traces s)) \<and> distinct (map (\<lambda>t. (t_Harness t, t_NativeTraceID t)) (traces s)) \<and>
     distinct (map v_ID (revisions s)) \<and> distinct (map (\<lambda>r. (v_Trace r, v_Digest r)) (revisions s)) \<and>
     distinct (map ev_ID (events s)) \<and> distinct (map (\<lambda>e. (ev_Trace e, ev_Key e)) (events s)) \<and>
     distinct (map ob_ID (observations s)) \<and> distinct (map (\<lambda>q. (ob_Event q, ob_Digest q)) (observations s)) \<and>
     distinct (link_keys s) \<and> list_all (\<lambda>i. i \<le> eventSeq s) (map ev_ID (events s))"

text \<open>The trace a row belongs to is the same on every way to it, and every observation is linked to a revision.\<close>

definition links_ok :: "Store \<Rightarrow> bool" where
  "links_ok s \<longleftrightarrow>
     (\<forall>r \<in> set (revisions s). v_Trace r \<in> t_ID ` set (traces s)) \<and>
     (\<forall>e \<in> set (events s). ev_Trace e \<in> t_ID ` set (traces s)) \<and>
     (\<forall>q \<in> set (observations s). ob_Event q \<in> ev_ID ` set (events s) \<and> ob_ID q \<in> fst ` set (link_keys s)) \<and>
     (\<forall>(i, j) \<in> set (link_keys s). \<exists>q \<in> set (observations s). \<exists>e \<in> set (events s). \<exists>r \<in> set (revisions s).
        ob_ID q = i \<and> ob_Event q = ev_ID e \<and> v_ID r = j \<and> ev_Trace e = v_Trace r) \<and>
     (\<forall>r \<in> set (observation_sources s). (os_Observation r, os_Revision r) \<in> set (link_keys s)) \<and>
     (\<forall>c \<in> set (chunks s). (c_Observation c, c_Revision c) \<in> set (link_keys s) \<and>
        (\<exists>q \<in> set (observations s). ob_ID q = c_Observation c \<and> ob_Event q = c_Event c))"

lemma links_okD:
  assumes "links_ok s"
  shows "r \<in> set (revisions s) \<Longrightarrow> v_Trace r \<in> t_ID ` set (traces s)"
    and "e \<in> set (events s) \<Longrightarrow> ev_Trace e \<in> t_ID ` set (traces s)"
    and "q \<in> set (observations s) \<Longrightarrow> ob_Event q \<in> ev_ID ` set (events s)"
    and "q \<in> set (observations s) \<Longrightarrow> ob_ID q \<in> fst ` set (link_keys s)"
    and "(i, j) \<in> set (link_keys s) \<Longrightarrow> \<exists>q \<in> set (observations s). \<exists>e \<in> set (events s). \<exists>r \<in> set (revisions s).
        ob_ID q = i \<and> ob_Event q = ev_ID e \<and> v_ID r = j \<and> ev_Trace e = v_Trace r"
    and "u \<in> set (observation_sources s) \<Longrightarrow> (os_Observation u, os_Revision u) \<in> set (link_keys s)"
    and "c \<in> set (chunks s) \<Longrightarrow> (c_Observation c, c_Revision c) \<in> set (link_keys s)"
    and "c \<in> set (chunks s) \<Longrightarrow> \<exists>q \<in> set (observations s). ob_ID q = c_Observation c \<and> ob_Event q = c_Event c"
  using assms by (auto simp: links_ok_def)

definition contents :: "ChunkRow list \<Rightarrow> int \<Rightarrow> int \<Rightarrow> string list" where
  "contents rows i j = map c_Content (filter (\<lambda>c. c_Observation c = i \<and> c_Revision c = j) rows)"

definition index_ok :: "Store \<Rightarrow> bool" where
  "index_ok s \<longleftrightarrow> (\<forall>x \<in> set (observation_revisions s).
     Chunks (or_Text x) = Some (contents (chunks s) (or_Observation x) (or_Revision x)))"

text \<open>For the events of the traces in \<open>D\<close> the column may be out of date.\<close>

definition preferred_but :: "int set \<Rightarrow> Store \<Rightarrow> bool" where
  "preferred_but D s \<longleftrightarrow> (\<forall>e \<in> set (events s). ev_Trace e \<notin> D \<longrightarrow>
     ev_Preferred e = preferred_observation s (ev_ID e) \<and> preferred_observation s (ev_ID e) \<noteq> None)"

definition chain_but :: "int set \<Rightarrow> Store \<Rightarrow> bool" where
  "chain_but D s \<longleftrightarrow> keys_ok s \<and> links_ok s \<and> index_ok s \<and> preferred_but D s"

abbreviation chain_ok :: "Store \<Rightarrow> bool" where
  "chain_ok \<equiv> chain_but {}"

subsection \<open>The preferred observation\<close>

text \<open>It depends on the observations of the event, on their links and on the revisions these lead to.\<close>

lemma filter_cong_keep: "(\<And>x. x \<in> set xs \<Longrightarrow> P x \<Longrightarrow> K x) \<Longrightarrow> filter P (filter K xs) = filter P xs"
  by (auto intro!: filter_cong)

lemma concat_map_cong: "(\<And>x. x \<in> set xs \<Longrightarrow> f x = g x) \<Longrightarrow> concat (map f xs) = concat (map g xs)"
  by (metis map_cong)

lemma preferred_observation_cong:
  assumes "filter (\<lambda>q. ob_Event q = i) (observations s') = filter (\<lambda>q. ob_Event q = i) (observations s)"
    and "\<And>q. q \<in> set (observations s) \<Longrightarrow> ob_Event q = i \<Longrightarrow>
      filter (\<lambda>k. fst k = ob_ID q) (link_keys s') = filter (\<lambda>k. fst k = ob_ID q) (link_keys s)"
    and "\<And>q k. q \<in> set (observations s) \<Longrightarrow> ob_Event q = i \<Longrightarrow> k \<in> set (link_keys s) \<Longrightarrow> fst k = ob_ID q \<Longrightarrow>
      filter (\<lambda>r. v_ID r = snd k) (revisions s') = filter (\<lambda>r. v_ID r = snd k) (revisions s)"
  shows "preferred_observation s' i = preferred_observation s i"
proof -
  have alt: "preferred_rows s i = concat (map (\<lambda>q. concat (map (\<lambda>k. map (\<lambda>r. (q, r)) (filter (\<lambda>r. v_ID r = snd k) (revisions s)))
      (filter (\<lambda>k. fst k = ob_ID q) (link_keys s)))) (filter (\<lambda>q. ob_Event q = i) (observations s)))" for s
    by (simp add: preferred_rows_def link_keys_def filter_map comp_def)
  have "preferred_rows s' i = preferred_rows s i"
    unfolding alt assms(1)
  proof (rule concat_map_cong)
    fix q assume q: "q \<in> set (filter (\<lambda>q. ob_Event q = i) (observations s))"
    then have "filter (\<lambda>k. fst k = ob_ID q) (link_keys s') = filter (\<lambda>k. fst k = ob_ID q) (link_keys s)"
      using assms(2) by simp
    then show "concat (map (\<lambda>k. map (\<lambda>r. (q, r)) (filter (\<lambda>r. v_ID r = snd k) (revisions s')))
          (filter (\<lambda>k. fst k = ob_ID q) (link_keys s'))) =
        concat (map (\<lambda>k. map (\<lambda>r. (q, r)) (filter (\<lambda>r. v_ID r = snd k) (revisions s)))
          (filter (\<lambda>k. fst k = ob_ID q) (link_keys s)))"
      using assms(3) [of q] q by (auto intro!: concat_map_cong)
  qed
  then show ?thesis by (simp add: preferred_observation_def)
qed

lemma preferred_observation_exists:
  assumes "q \<in> set (observations s)" "ob_Event q = i" "(ob_ID q, j) \<in> set (link_keys s)" "j \<in> v_ID ` set (revisions s)"
  shows "preferred_observation s i \<noteq> None"
proof -
  obtain r where "r \<in> set (revisions s)" "v_ID r = j" using assms(4) by auto
  then have "(q, r) \<in> set (preferred_rows s i)"
    using assms by (force simp: preferred_rows_def link_keys_def)
  then have "preferred_rows s i \<noteq> []" by auto
  then show ?thesis by (simp add: preferred_observation_def best_None)
qed

subsection \<open>Inserting events\<close>

lemma find_SomeD: "find P xs = Some x \<Longrightarrow> x \<in> set xs \<and> P x"
  by (metis find_Some_iff nth_mem)

lemma find_iff: "(\<exists>y. find P xs = Some y) \<longleftrightarrow> (\<exists>x \<in> set xs. P x)"
  by (induction xs) auto

lemma find_unique: "distinct (map f xs) \<Longrightarrow> find (\<lambda>x. f x = k) xs = Some x \<longleftrightarrow> x \<in> set xs \<and> f x = k"
  by (induction xs) (auto simp: image_iff)

lemma map_same: "map f xs = map f ys \<Longrightarrow> x \<in> set xs \<Longrightarrow> \<exists>y \<in> set ys. f x = f y"
  by (metis (mono_tags) imageE image_eqI list.set_map)

lemma distinct_map_eq: "distinct (map f xs) \<Longrightarrow> x \<in> set xs \<Longrightarrow> y \<in> set xs \<Longrightarrow> f x = f y \<Longrightarrow> x = y"
  by (meson distinct_map inj_onD)

text \<open>The state before a statement of the loop: the revision is there, and \<open>ordinals\<close> knows the observations
  that this call has linked to it.\<close>

definition inserting :: "int set \<Rightarrow> int \<Rightarrow> int \<Rightarrow> Store \<Rightarrow> (int \<times> int) list \<Rightarrow> bool" where
  "inserting D traceID revisionID s ordinals \<longleftrightarrow>
     chain_but D s \<and>
     (\<exists>r \<in> set (revisions s). v_ID r = revisionID \<and> v_Trace r = traceID) \<and>
     fst ` set ordinals = {i. (i, revisionID) \<in> set (link_keys s)}"

text \<open>The first statements: the rows of the event and of the observation are there, and no other row is new.\<close>

definition rows_for :: "int \<Rightarrow> int \<Rightarrow> int \<Rightarrow> Store \<Rightarrow> Store \<Rightarrow> bool" where
  "rows_for traceID i k s s' \<longleftrightarrow>
     keys_ok s' \<and> (\<exists>e \<in> set (events s'). ev_ID e = i \<and> ev_Trace e = traceID) \<and>
     (\<exists>q \<in> set (observations s'). ob_ID q = k \<and> ob_Event q = i) \<and>
     prefix (events s) (events s') \<and> (\<forall>e \<in> set (events s'). e \<in> set (events s) \<or> ev_ID e = i \<and> ev_Trace e = traceID) \<and>
     prefix (observations s) (observations s') \<and> (\<forall>q \<in> set (observations s'). q \<in> set (observations s) \<or> ob_ID q = k \<and> ob_Event q = i) \<and>
     (\<forall>j. j \<noteq> i \<longrightarrow> filter (\<lambda>q. ob_Event q = j) (observations s') = filter (\<lambda>q. ob_Event q = j) (observations s)) \<and>
     (traces s' = traces s \<and> revisions s' = revisions s \<and> observation_revisions s' = observation_revisions s \<and>
      observation_sources s' = observation_sources s \<and> chunks s' = chunks s)"

lemma rows_forD:
  assumes "rows_for traceID i k s s'"
  shows "keys_ok s'" and "\<exists>e \<in> set (events s'). ev_ID e = i \<and> ev_Trace e = traceID"
    and "\<exists>q \<in> set (observations s'). ob_ID q = k \<and> ob_Event q = i"
    and "e \<in> set (events s) \<Longrightarrow> e \<in> set (events s')"
    and "e \<in> set (events s') \<Longrightarrow> e \<in> set (events s) \<or> ev_ID e = i \<and> ev_Trace e = traceID"
    and "q \<in> set (observations s) \<Longrightarrow> q \<in> set (observations s')"
    and "q \<in> set (observations s') \<Longrightarrow> q \<in> set (observations s) \<or> ob_ID q = k \<and> ob_Event q = i"
    and "j \<noteq> i \<Longrightarrow> filter (\<lambda>q. ob_Event q = j) (observations s') = filter (\<lambda>q. ob_Event q = j) (observations s)"
    and "traces s' = traces s" "revisions s' = revisions s" "link_keys s' = link_keys s"
      "observation_revisions s' = observation_revisions s"
      "observation_sources s' = observation_sources s" "chunks s' = chunks s"
proof -
  note r = assms [unfolded rows_for_def]
  show "keys_ok s'" and "\<exists>e \<in> set (events s'). ev_ID e = i \<and> ev_Trace e = traceID"
    and "\<exists>q \<in> set (observations s'). ob_ID q = k \<and> ob_Event q = i" using r by simp_all
  show "e \<in> set (events s) \<Longrightarrow> e \<in> set (events s')" "q \<in> set (observations s) \<Longrightarrow> q \<in> set (observations s')"
    using r by (auto dest: set_mono_prefix)
  show "e \<in> set (events s') \<Longrightarrow> e \<in> set (events s) \<or> ev_ID e = i \<and> ev_Trace e = traceID"
    "q \<in> set (observations s') \<Longrightarrow> q \<in> set (observations s) \<or> ob_ID q = k \<and> ob_Event q = i"
    "j \<noteq> i \<Longrightarrow> filter (\<lambda>q. ob_Event q = j) (observations s') = filter (\<lambda>q. ob_Event q = j) (observations s)" using r by simp_all
  show "traces s' = traces s" "revisions s' = revisions s" "link_keys s' = link_keys s"
    "observation_revisions s' = observation_revisions s" "observation_sources s' = observation_sources s" "chunks s' = chunks s"
    using r by (simp_all add: link_keys_def)
qed

lemma ensure_event_keys: "keys_ok s \<Longrightarrow> keys_ok (ensure_event traceID event s)"
  by (fastforce simp: keys_ok_def ensure_event_def link_keys_def list_all_iff)

lemma ensure_observation_keys: "keys_ok s \<Longrightarrow> keys_ok (ensure_observation i digest encoded event s)"
  using next_rowid_new [of "map ob_ID (observations s)"]
  by (auto simp: keys_ok_def ensure_observation_def link_keys_def insert_or_ignore_def)

lemma event_id_row: "event_id s traceID key = Some i \<Longrightarrow> \<exists>e \<in> set (events s). ev_ID e = i \<and> ev_Trace e = traceID \<and> ev_Key e = key"
  by (auto simp: event_id_def dest: find_SomeD)

lemma observation_id_row:
  "observation_id s i digest = Some k \<Longrightarrow> \<exists>q \<in> set (observations s). ob_ID q = k \<and> ob_Event q = i \<and> ob_Digest q = digest"
  by (auto simp: observation_id_def dest: find_SomeD)

lemma loose_rows:
  assumes "keys_ok s" "s1 = ensure_event traceID event s" "event_id s1 traceID (e_Key event) = Some i"
    "s2 = ensure_observation i digest encoded bare s1" "observation_id s2 i digest = Some k"
  shows "rows_for traceID i k s s2"
proof -
  note keys = ensure_observation_keys [OF ensure_event_keys [OF assms(1)], of i digest encoded bare traceID event]
  have new_event: "e \<in> set (events s) \<or> ev_Trace e = traceID \<and> ev_Key e = e_Key event" if "e \<in> set (events s1)" for e
    using that by (auto simp: assms(2) ensure_event_def split: if_splits)
  have new_observation: "q \<in> set (observations s) \<or> ob_Event q = i \<and> ob_Digest q = digest" if "q \<in> set (observations s2)" for q
    using that by (auto simp: assms(2, 4) ensure_event_def ensure_observation_def insert_or_ignore_def split: if_splits)
  obtain e where e: "e \<in> set (events s1)" "ev_ID e = i" "ev_Trace e = traceID" "ev_Key e = e_Key event"
    using event_id_row [OF assms(3)] by blast
  obtain q where q: "q \<in> set (observations s2)" "ob_ID q = k" "ob_Event q = i" "ob_Digest q = digest"
    using observation_id_row [OF assms(5)] by blast
  have events: "events s2 = events s1" by (simp add: assms(4) ensure_observation_def)
  have "keys_ok s2" using keys assms(2, 4) by simp
  then have d: "distinct (map (\<lambda>e. (ev_Trace e, ev_Key e)) (events s2))" "distinct (map (\<lambda>q. (ob_Event q, ob_Digest q)) (observations s2))"
    by (simp_all add: keys_ok_def)
  have "\<forall>e' \<in> set (events s2). e' \<in> set (events s) \<or> ev_ID e' = i \<and> ev_Trace e' = traceID"
  proof
    fix e' assume "e' \<in> set (events s2)"
    then show "e' \<in> set (events s) \<or> ev_ID e' = i \<and> ev_Trace e' = traceID"
      using new_event [of e'] distinct_map_eq [OF d(1), of e' e] e unfolding events by auto
  qed
  moreover have "\<forall>q' \<in> set (observations s2). q' \<in> set (observations s) \<or> ob_ID q' = k \<and> ob_Event q' = i"
  proof
    fix q' assume "q' \<in> set (observations s2)"
    then show "q' \<in> set (observations s) \<or> ob_ID q' = k \<and> ob_Event q' = i"
      using new_observation [of q'] distinct_map_eq [OF d(2), of q' q] q by auto
  qed
  moreover have "prefix (events s) (events s2)"
    by (simp add: assms(2, 4) ensure_event_def ensure_observation_def)
  moreover have "prefix (observations s) (observations s2)"
    by (simp add: assms(2, 4) ensure_event_def ensure_observation_def insert_or_ignore_def)
  moreover have "traces s2 = traces s \<and> revisions s2 = revisions s \<and> observation_revisions s2 = observation_revisions s \<and>
      observation_sources s2 = observation_sources s \<and> chunks s2 = chunks s"
    by (simp add: assms(2, 4) ensure_event_def ensure_observation_def)
  moreover have "\<forall>j. j \<noteq> i \<longrightarrow> filter (\<lambda>q. ob_Event q = j) (observations s2) = filter (\<lambda>q. ob_Event q = j) (observations s)"
    by (simp add: assms(2, 4) ensure_event_def ensure_observation_def insert_or_ignore_def)
  moreover have "\<exists>e \<in> set (events s2). ev_ID e = i \<and> ev_Trace e = traceID" using e events by auto
  moreover have "\<exists>q \<in> set (observations s2). ob_ID q = k \<and> ob_Event q = i" using q by auto
  ultimately show ?thesis
    using \<open>keys_ok s2\<close> unfolding rows_for_def by (elim conjE) (intro conjI)
qed

text \<open>An observation that is already linked is an old one, so nothing was added.\<close>

lemma prefix_distinct_eq: "prefix xs ys \<Longrightarrow> distinct ys \<Longrightarrow> set ys \<subseteq> set xs \<Longrightarrow> ys = xs"
  by (auto simp: prefix_def) (metis Int_absorb1 list.set(1) set_empty)

lemma rows_for_linked:
  assumes rows: "rows_for traceID i k s s'" and ok: "keys_ok s" "links_ok s" "(k, j) \<in> set (link_keys s)"
  shows "events s' = events s" "observations s' = observations s"
proof -
  obtain q e where q: "q \<in> set (observations s)" "ob_ID q = k" and e: "e \<in> set (events s)" "ob_Event q = ev_ID e"
    using links_okD(5) [OF ok(2, 3)] by blast
  have keys: "distinct (map ob_ID (observations s'))" "distinct (map ev_ID (events s'))"
    using rows_forD(1) [OF rows] by (auto simp: keys_ok_def)
  have old: "q' = q" if "q' \<in> set (observations s')" "ob_ID q' = k" for q'
    using distinct_map_eq [OF keys(1), of q' q] that q rows_forD(6) [OF rows] by auto
  then have i: "ob_Event q = i" using rows_forD(3) [OF rows] by blast
  have "e' = e" if "e' \<in> set (events s')" "ev_ID e' = i" for e'
    using distinct_map_eq [OF keys(2), of e' e] that e i rows_forD(4) [OF rows] by auto
  then have "set (events s') \<subseteq> set (events s)" using rows_forD(5) [OF rows] e(1) by blast
  moreover have "set (observations s') \<subseteq> set (observations s)" using rows_forD(7) [OF rows] q(1) old by blast
  ultimately show "events s' = events s" "observations s' = observations s"
    using prefix_distinct_eq rows keys by (auto simp: rows_for_def distinct_map)
qed

text \<open>The statements that attach a new observation to the revision.\<close>

lemma insert_sources_rows:
  "insert_sources k j n srcs rows = Inr (rows', n') \<Longrightarrow>
   \<forall>r \<in> set rows'. r \<in> set rows \<or> (os_Observation r, os_Revision r) = (k, j)"
proof (induction k j n srcs rows rule: insert_sources.induct)
  case (2 k j n src srcs rows)
  then show ?case by (fastforce simp: bind_result_Inr_iff insert_unique_iff)
qed simp

lemma add_chunks_rows:
  "\<exists>rows'. add_chunks k j i cs rows = rows @ rows' \<and> map c_Content rows' = cs \<and>
     (\<forall>c \<in> set rows'. c_Observation c = k \<and> c_Revision c = j \<and> c_Event c = i)"
proof (induction k j i cs rows rule: add_chunks.induct)
  case (2 k j i c cs rows)
  let ?c = "\<lparr>c_ID = next_rowid (map c_ID rows), c_Observation = k, c_Revision = j, c_Event = i, c_Content = c\<rparr>"
  obtain rows' where "add_chunks k j i cs (rows @ [?c]) = (rows @ [?c]) @ rows'" "map c_Content rows' = cs"
    "\<forall>c \<in> set rows'. c_Observation c = k \<and> c_Revision c = j \<and> c_Event c = i" using 2 by blast
  then show ?case by (intro exI [of _ "?c # rows'"]) simp
qed simp

lemma contents_append: "contents (rows @ rows') k j = contents rows k j @ contents rows' k j"
  by (simp add: contents_def)

lemma contents_all: "\<forall>c \<in> set rows. c_Observation c = k \<and> c_Revision c = j \<Longrightarrow> contents rows k j = map c_Content rows"
  by (simp add: contents_def)

lemma contents_none: "\<forall>c \<in> set rows. (c_Observation c, c_Revision c) \<noteq> (k, j) \<Longrightarrow> contents rows k j = []"
  by (auto simp: contents_def filter_empty_conv)

lemma insert_chunks_index:
  assumes "insert_chunks k j i searchable rows = Inr rows'"
  shows "Chunks searchable = Some (contents rows' k j) \<or> contents rows k j \<noteq> []"
    and "(k', j') \<noteq> (k, j) \<Longrightarrow> contents rows' k' j' = contents rows k' j'"
    and "\<forall>c \<in> set rows'. c \<in> set rows \<or> (c_Observation c, c_Revision c, c_Event c) = (k, j, i)"
proof -
  obtain cs where cs: "Chunks searchable = Some cs" "rows' = add_chunks k j i cs rows"
    using assms by (auto simp: insert_chunks_def split: option.splits)
  obtain new where new: "rows' = rows @ new" "map c_Content new = cs"
    "\<forall>c \<in> set new. c_Observation c = k \<and> c_Revision c = j \<and> c_Event c = i"
    using add_chunks_rows [of k j i cs rows] cs(2) by blast
  show "Chunks searchable = Some (contents rows' k j) \<or> contents rows k j \<noteq> []"
    using new cs(1) contents_all [of new k j] by (simp add: contents_append)
  show "contents rows' k' j' = contents rows k' j'" if "(k', j') \<noteq> (k, j)"
    using new contents_none [of new k' j'] that by (auto simp: contents_append)
  show "\<forall>c \<in> set rows'. c \<in> set rows \<or> (c_Observation c, c_Revision c, c_Event c) = (k, j, i)" using new by auto
qed

lemma contents_unlinked: "links_ok s \<Longrightarrow> (k, j) \<notin> set (link_keys s) \<Longrightarrow> contents (chunks s) k j = []"
  by (rule contents_none) (auto simp: links_ok_def)

lemma preferred_observation_tables:
  "observations s' = observations s \<Longrightarrow> link_keys s' = link_keys s \<Longrightarrow> revisions s' = revisions s \<Longrightarrow>
   preferred_observation s' i = preferred_observation s i"
  by (rule preferred_observation_cong) simp_all

text \<open>The state after the observation \<open>k\<close> of the event \<open>i\<close> was attached to the revision \<open>j\<close>.\<close>

definition attached :: "int \<Rightarrow> int \<Rightarrow> int \<Rightarrow> string \<Rightarrow> Store \<Rightarrow> Store \<Rightarrow> bool" where
  "attached k j i searchable s s' \<longleftrightarrow>
     traces s' = traces s \<and> revisions s' = revisions s \<and> observations s' = observations s \<and> eventSeq s' = eventSeq s \<and>
     events s' = update_where (\<lambda>e. ev_ID e = i) (\<lambda>e. e\<lparr>ev_Preferred := preferred_observation s' (ev_ID e)\<rparr>) (events s) \<and>
     observation_revisions s' = observation_revisions s @ [\<lparr>or_Observation = k, or_Revision = j, or_Text = searchable\<rparr>] \<and>
     (\<forall>r \<in> set (observation_sources s'). r \<in> set (observation_sources s) \<or> (os_Observation r, os_Revision r) = (k, j)) \<and>
     insert_chunks k j i searchable (chunks s) = Inr (chunks s')"

lemma attached_keys:
  assumes "attached k j i searchable s s'" "keys_ok s" "(k, j) \<notin> set (link_keys s)"
  shows "keys_ok s'"
proof -
  note a = assms(1) [unfolded attached_def]
  have e: "map ev_ID (events s') = map ev_ID (events s)"
    "map (\<lambda>e. (ev_Trace e, ev_Key e)) (events s') = map (\<lambda>e. (ev_Trace e, ev_Key e)) (events s)"
    using a by (simp_all add: update_where_key)
  have "link_keys s' = link_keys s @ [(k, j)]" using a by (simp add: link_keys_def)
  then show ?thesis
    using assms(2, 3) a unfolding keys_ok_def e by simp
qed

lemma attachedD:
  assumes "attached k j i searchable s s'"
  shows "traces s' = traces s" "revisions s' = revisions s" "observations s' = observations s" "link_keys s' = link_keys s @ [(k, j)]"
    and "u \<in> set (observation_sources s') \<Longrightarrow> u \<in> set (observation_sources s) \<or> (os_Observation u, os_Revision u) = (k, j)"
    and "insert_chunks k j i searchable (chunks s) = Inr (chunks s')"
    and "e \<in> set (events s) \<Longrightarrow> \<exists>e' \<in> set (events s'). ev_ID e' = ev_ID e \<and> ev_Trace e' = ev_Trace e"
    and "e' \<in> set (events s') \<Longrightarrow> \<exists>e \<in> set (events s). ev_ID e' = ev_ID e \<and> ev_Trace e' = ev_Trace e"
proof -
  note a = assms [unfolded attached_def]
  show "traces s' = traces s" "revisions s' = revisions s" "observations s' = observations s" "link_keys s' = link_keys s @ [(k, j)]"
    using a by (simp_all add: link_keys_def)
  show "insert_chunks k j i searchable (chunks s) = Inr (chunks s')" using a by simp
  show "u \<in> set (observation_sources s) \<or> (os_Observation u, os_Revision u) = (k, j)" if "u \<in> set (observation_sources s')"
    using a that by simp
  have same: "map (\<lambda>e. (ev_ID e, ev_Trace e)) (events s') = map (\<lambda>e. (ev_ID e, ev_Trace e)) (events s)"
    using a by (simp add: update_where_key)
  show "\<exists>e' \<in> set (events s'). ev_ID e' = ev_ID e \<and> ev_Trace e' = ev_Trace e" if "e \<in> set (events s)"
    using map_same [OF same [symmetric] that] by auto
  show "\<exists>e \<in> set (events s). ev_ID e' = ev_ID e \<and> ev_Trace e' = ev_Trace e" if "e' \<in> set (events s')"
    using map_same [OF same that] by auto
qed

lemma attached_links:
  assumes a: "attached k j i searchable s s'" and rows: "rows_for traceID i k s0 s" and ok: "links_ok s0"
    and r: "r \<in> set (revisions s0)" "v_ID r = j" "v_Trace r = traceID"
  shows "links_ok s'"
  unfolding links_ok_def
proof (intro conjI ballI)
  note same = rows_forD(9-14) [OF rows] and a' = attachedD [OF a]
  obtain qk ei where new: "qk \<in> set (observations s)" "ob_ID qk = k" "ob_Event qk = i" "ei \<in> set (events s)" "ev_ID ei = i" "ev_Trace ei = traceID"
    using rows_forD(2, 3) [OF rows] by blast
  have keys: "link_keys s' = link_keys s0 @ [(k, j)]" using a'(4) same by simp
  show "v_Trace q \<in> t_ID ` set (traces s')" if "q \<in> set (revisions s')" for q
    using links_okD(1) [OF ok, of q] that a' same by simp
  show "ev_Trace e' \<in> t_ID ` set (traces s')" if e': "e' \<in> set (events s')" for e'
  proof -
    obtain e where e: "e \<in> set (events s)" "ev_Trace e' = ev_Trace e" using a'(8) [OF e'] by blast
    show ?thesis using rows_forD(5) [OF rows e(1)] links_okD(1) [OF ok r(1)] links_okD(2) [OF ok, of e] e(2) r(3) a'(1) same(1) by auto
  qed
  show "ob_Event q \<in> ev_ID ` set (events s')" if q: "q \<in> set (observations s')" for q
  proof -
    consider "q \<in> set (observations s0)" | "ob_Event q = i" using rows_forD(7) [OF rows, of q] q a'(3) by auto
    then obtain e where "e \<in> set (events s)" "ev_ID e = ob_Event q"
    proof cases
      case 1
      from links_okD(3) [OF ok this] that rows_forD(4) [OF rows] show thesis by (metis imageE)
    qed (use that new in blast)
    then show ?thesis using a'(7) by (metis imageI)
  qed
  show "ob_ID q \<in> fst ` set (link_keys s')" if q: "q \<in> set (observations s')" for q
    using rows_forD(7) [OF rows, of q] q a'(3) links_okD(4) [OF ok, of q] keys by auto
  show "case p of (i', j') \<Rightarrow> \<exists>q \<in> set (observations s'). \<exists>e \<in> set (events s'). \<exists>r \<in> set (revisions s').
        ob_ID q = i' \<and> ob_Event q = ev_ID e \<and> v_ID r = j' \<and> ev_Trace e = v_Trace r" if p: "p \<in> set (link_keys s')" for p
  proof -
    obtain i' j' where p': "p = (i', j')" by force
    have "\<exists>q \<in> set (observations s). \<exists>e \<in> set (events s). \<exists>r \<in> set (revisions s0).
        ob_ID q = i' \<and> ob_Event q = ev_ID e \<and> v_ID r = j' \<and> ev_Trace e = v_Trace r"
    proof (cases "(i', j') \<in> set (link_keys s0)")
      case True
      then show ?thesis using links_okD(5) [OF ok True] rows_forD(4, 6) [OF rows] by blast
    next
      case False
      then have "i' = k" "j' = j" using p keys p' by auto
      then show ?thesis using new r by metis
    qed
    then obtain q e r where "q \<in> set (observations s')" "e \<in> set (events s)" "r \<in> set (revisions s')"
        "ob_ID q = i'" "ob_Event q = ev_ID e" "v_ID r = j'" "ev_Trace e = v_Trace r"
      unfolding a'(2, 3) same(2) by blast
    then show ?thesis using a'(7) [of e] unfolding p' prod.case by metis
  qed
  show "(os_Observation u, os_Revision u) \<in> set (link_keys s')" if "u \<in> set (observation_sources s')" for u
    using a'(5) [OF that] links_okD(6) [OF ok, of u] same keys by auto
  fix c assume c: "c \<in> set (chunks s')"
  have c': "c \<in> set (chunks s0) \<or> (c_Observation c, c_Revision c, c_Event c) = (k, j, i)"
    using bspec [OF insert_chunks_index(3) [OF a'(6)] c] same by simp
  then show "(c_Observation c, c_Revision c) \<in> set (link_keys s')"
    using links_okD(7) [OF ok, of c] keys by auto
  show "\<exists>q \<in> set (observations s'). ob_ID q = c_Observation c \<and> ob_Event q = c_Event c"
    using c' links_okD(8) [OF ok, of c] new rows_forD(6) [OF rows] a'(3) by auto
qed

lemma attached_index:
  assumes a: "attached k j i searchable s s'" and rows: "rows_for traceID i k s0 s"
    and ok: "index_ok s0" "links_ok s0" "(k, j) \<notin> set (link_keys s0)"
  shows "index_ok s'"
  unfolding index_ok_def
proof
  fix x assume x: "x \<in> set (observation_revisions s')"
  note chunks = insert_chunks_index [OF attachedD(6) [OF a], unfolded rows_forD(14) [OF rows]]
  show "Chunks (or_Text x) = Some (contents (chunks s') (or_Observation x) (or_Revision x))"
  proof (cases "x \<in> set (observation_revisions s0)")
    case True
    then have "(or_Observation x, or_Revision x) \<noteq> (k, j)" using ok(3) by (auto simp: link_keys_def)
    then show ?thesis using chunks(2) ok(1) True by (auto simp: index_ok_def)
  next
    case False
    then have "x = \<lparr>or_Observation = k, or_Revision = j, or_Text = searchable\<rparr>"
      using x a rows_forD(12) [OF rows] by (auto simp: attached_def)
    then show ?thesis using chunks(1) contents_unlinked [OF ok(2, 3)] by simp
  qed
qed

lemma attached_preferred:
  assumes a: "attached k j i searchable s s'" and rows: "rows_for traceID i k s0 s"
    and ok: "preferred_but D s0" and j: "j \<in> v_ID ` set (revisions s0)"
  shows "preferred_but D s'"
  unfolding preferred_but_def
proof (intro ballI impI)
  note same = rows_forD(9-14) [OF rows] and a' = attachedD [OF a]
  fix e assume e: "e \<in> set (events s')" "ev_Trace e \<notin> D"
  have pref: "preferred_observation s' n = preferred_observation s0 n" if n: "n \<noteq> i" for n
  proof (rule preferred_observation_cong)
    show "filter (\<lambda>q. ob_Event q = n) (observations s') = filter (\<lambda>q. ob_Event q = n) (observations s0)"
      using rows_forD(8) [OF rows n] a'(3) by simp
    fix q assume q: "q \<in> set (observations s0)" "ob_Event q = n"
    have "distinct (map ob_ID (observations s))" using rows_forD(1) [OF rows] by (simp add: keys_ok_def)
    then have "ob_ID q \<noteq> k"
      using rows_forD(3, 6) [OF rows] q n distinct_map_eq by metis
    then show "filter (\<lambda>p. fst p = ob_ID q) (link_keys s') = filter (\<lambda>p. fst p = ob_ID q) (link_keys s0)"
      using a'(4) same(3) by simp
  qed (use a'(2) same in simp)
  obtain e0 where e0: "e0 \<in> set (events s)" "e = (if ev_ID e0 = i then e0\<lparr>ev_Preferred := preferred_observation s' (ev_ID e0)\<rparr> else e0)"
    using e(1) a by (auto simp: attached_def set_update_where)
  show "ev_Preferred e = preferred_observation s' (ev_ID e) \<and> preferred_observation s' (ev_ID e) \<noteq> None"
  proof (cases "ev_ID e0 = i")
    case True
    obtain q where "q \<in> set (observations s')" "ob_ID q = k" "ob_Event q = i"
      using rows_forD(3) [OF rows] a'(3) by auto
    then have "preferred_observation s' i \<noteq> None"
      using preferred_observation_exists [of q s' i j] a'(2, 4) same j by simp
    with True e0 show ?thesis by simp
  next
    case False
    then have "e = e0" "e \<in> set (events s0)" using e0 rows_forD(5) [OF rows e0(1)] by auto
    with ok e(2) False pref [of "ev_ID e"] show ?thesis unfolding preferred_but_def by metis
  qed
qed

subsection \<open>The loop over the events\<close>

text \<open>The repeated event: only source references are added.\<close>

lemma attach_repeated:
  assumes "attach_observation k j i searchable event st = Inr st'" "map_of (in_Ordinals st) k \<noteq> None"
    and "(k, j) \<in> set (link_keys (in_Store st))"
  shows "\<exists>sources n. in_Store st' = (in_Store st)\<lparr>observation_sources := sources\<rparr> \<and>
      (\<forall>r \<in> set sources. r \<in> set (observation_sources (in_Store st)) \<or> (os_Observation r, os_Revision r) = (k, j)) \<and>
      in_Ordinals st' = alist_put k n (in_Ordinals st)"
proof -
  have "link_revision k j searchable (in_Store st) = in_Store st"
    using assms(3) by (auto simp: link_revision_def insert_or_ignore_def link_keys_def)
  with assms(1, 2) obtain sources n where s: "insert_sources k j (the (map_of (in_Ordinals st) k)) (e_Sources event)
      (observation_sources (in_Store st)) = Inr (sources, n)"
    "in_Store st' = (in_Store st)\<lparr>observation_sources := sources\<rparr>" "in_Ordinals st' = alist_put k n (in_Ordinals st)"
    by (auto simp: attach_observation_def Let_def bind_result_Inr_iff)
  from s insert_sources_rows [OF s(1)] show ?thesis by blast
qed

lemma attach_new:
  assumes "attach_observation k j i searchable event st = Inr st'" "map_of (in_Ordinals st) k = None"
    and "(k, j) \<notin> set (link_keys (in_Store st))"
  shows "attached k j i searchable (in_Store st) (in_Store st') \<and> (\<exists>n. in_Ordinals st' = alist_put k n (in_Ordinals st))"
proof -
  define s where "s = link_revision k j searchable (in_Store st)"
  from assms(1, 2) obtain sources n rows where r: "insert_sources k j 0 (e_Sources event) (observation_sources s) = Inr (sources, n)"
      "insert_chunks k j i searchable (chunks s) = Inr rows"
      "in_Store st' = set_preferred (\<lambda>r. ev_ID r = i) (s\<lparr>observation_sources := sources, chunks := rows\<rparr>)"
      "in_Ordinals st' = alist_put k n (in_Ordinals st)"
    by (auto simp: attach_observation_def Let_def bind_result_Inr_iff s_def)
  have s: "observation_revisions s = observation_revisions (in_Store st) @ [\<lparr>or_Observation = k, or_Revision = j, or_Text = searchable\<rparr>]"
    using assms(3) by (auto simp: s_def link_revision_def insert_or_ignore_def link_keys_def)
  have rest: "traces s = traces (in_Store st)" "revisions s = revisions (in_Store st)" "observations s = observations (in_Store st)"
    "eventSeq s = eventSeq (in_Store st)" "events s = events (in_Store st)" "observation_sources s = observation_sources (in_Store st)"
    "chunks s = chunks (in_Store st)"
    by (simp_all add: s_def link_revision_def)
  let ?s = "s\<lparr>observation_sources := sources, chunks := rows\<rparr>"
  have pref: "preferred_observation ?s n = preferred_observation (in_Store st') n" for n
    by (rule preferred_observation_tables [symmetric]) (simp_all add: r(3) set_preferred_def link_keys_def)
  have "events (in_Store st') = update_where (\<lambda>e. ev_ID e = i) (\<lambda>e. e\<lparr>ev_Preferred := preferred_observation ?s (ev_ID e)\<rparr>)
      (events (in_Store st))"
    by (simp add: r(3) set_preferred_def rest)
  note events = this [unfolded pref]
  have "traces (in_Store st') = traces (in_Store st)" "revisions (in_Store st') = revisions (in_Store st)"
    "observations (in_Store st') = observations (in_Store st)" "eventSeq (in_Store st') = eventSeq (in_Store st)"
    "observation_revisions (in_Store st') = observation_revisions s" "observation_sources (in_Store st') = sources"
    "chunks (in_Store st') = rows"
    by (simp_all add: r(3) set_preferred_def rest)
  then have "attached k j i searchable (in_Store st) (in_Store st')"
    using r(2) s rest insert_sources_rows [OF r(1)] events unfolding attached_def by (intro conjI) simp_all
  with r(4) show ?thesis by blast
qed

lemma insert_event_step:
  assumes "insert_event traceID j labels event st = Inr st'" "keys_ok (in_Store st)"
  obtains i k searchable s digest where "rows_for traceID i k (in_Store st) s"
    "attach_observation k j i searchable event (st\<lparr>in_Store := s, in_Conflicts := digest\<rparr>) = Inr st'"
proof -
  let ?s1 = "ensure_event traceID event (in_Store st)" and ?bare = "event\<lparr>e_ID := 0, e_TraceID := 0, e_Sources := []\<rparr>"
  from assms(1) obtain i digest encoded k where r: "event_id ?s1 traceID (e_Key event) = Some i"
      "observation_id (ensure_observation i digest encoded ?bare ?s1) i digest = Some k"
      "attach_observation k j i (searchableText event @ newline @ labels) event
         (st\<lparr>in_Store := ensure_observation i digest encoded ?bare ?s1,
            in_Conflicts := in_Conflicts st @ (if differs ?s1 i digest j then [conflicting (e_Key event)] else [])\<rparr>) = Inr st'"
    by (auto simp: insert_event_def Let_def bind_result_Inr_iff split: if_splits)
  from that [OF loose_rows [OF assms(2) refl r(1) refl r(2)] r(3)] show thesis .
qed

lemma set_alist_put: "fst ` set (alist_put k v m) = insert k (fst ` set m)"
  using set_keys_alist_put [of k v m] by simp

lemma insert_event_inserting:
  assumes ok: "inserting D traceID j (in_Store st) (in_Ordinals st)" and step: "insert_event traceID j labels event st = Inr st'"
  shows "inserting D traceID j (in_Store st') (in_Ordinals st')"
proof -
  define s0 where "s0 = in_Store st"
  note ok = ok [unfolded inserting_def chain_but_def, folded s0_def]
  obtain i k searchable s w where rows: "rows_for traceID i k s0 s"
    and attach: "attach_observation k j i searchable event (st\<lparr>in_Store := s, in_Conflicts := w\<rparr>) = Inr st'"
    using insert_event_step [OF step] ok s0_def by metis
  have keys: "link_keys s = link_keys s0" using rows_forD(11) [OF rows] .
  have linked: "(k, j) \<in> set (link_keys s0) \<longleftrightarrow> map_of (in_Ordinals st) k \<noteq> None"
    using ok by (auto simp: map_of_eq_None_iff)
  show ?thesis
  proof (cases "(k, j) \<in> set (link_keys s0)")
    case True
    obtain sources n where s': "in_Store st' = s\<lparr>observation_sources := sources\<rparr>"
      "\<forall>r \<in> set sources. r \<in> set (observation_sources s) \<or> (os_Observation r, os_Revision r) = (k, j)"
      "in_Ordinals st' = alist_put k n (in_Ordinals st)"
      using attach_repeated [OF attach] True linked keys by auto
    have same: "events s = events s0" "observations s = observations s0"
      using rows_for_linked [OF rows _ _ True] ok by auto
    have pref: "preferred_observation (in_Store st') n = preferred_observation s0 n" for n
      using same s'(1) keys rows_forD(10) [OF rows] by (intro preferred_observation_tables) (simp_all add: link_keys_def)
    have "keys_ok (in_Store st')" using rows_forD(1) [OF rows] s'(1) by (simp add: keys_ok_def link_keys_def)
    moreover have "links_ok (in_Store st')"
      using ok s' same rows_forD(9-14) [OF rows] True by (auto simp: links_ok_def link_keys_def)
    moreover have "index_ok (in_Store st')" using ok s'(1) rows_forD(12, 14) [OF rows] by (simp add: index_ok_def)
    moreover have "preferred_but D (in_Store st')"
      using ok s'(1) same(1) pref by (simp add: preferred_but_def)
    moreover have "fst ` set (in_Ordinals st') = {n. (n, j) \<in> set (link_keys (in_Store st'))}"
      using ok True s'(1, 3) keys by (auto simp: set_alist_put link_keys_def)
    ultimately show ?thesis
      using ok s'(1) rows_forD(10) [OF rows] unfolding inserting_def chain_but_def by simp
  next
    case False
    obtain n where a: "attached k j i searchable s (in_Store st')" and n: "in_Ordinals st' = alist_put k n (in_Ordinals st)"
      using attach_new [OF attach] False linked keys by auto
    obtain r where r: "r \<in> set (revisions s0)" "v_ID r = j" "v_Trace r = traceID" using ok by blast
    have "keys_ok (in_Store st')" using attached_keys [OF a rows_forD(1) [OF rows]] False keys by simp
    moreover have "links_ok (in_Store st')" using attached_links [OF a rows _ r] ok by blast
    moreover have "index_ok (in_Store st')" using attached_index [OF a rows] ok False by blast
    moreover have "preferred_but D (in_Store st')" using attached_preferred [OF a rows] ok r by blast
    moreover have "fst ` set (in_Ordinals st') = {n. (n, j) \<in> set (link_keys (in_Store st'))}"
      using ok n attachedD(4) [OF a] keys by (auto simp: set_alist_put)
    ultimately show ?thesis
      using r attachedD(2) [OF a] rows_forD(10) [OF rows] unfolding inserting_def chain_but_def by auto
  qed
qed

lemma insert_each_inserting:
  "insert_each traceID j labels es st = Inr st' \<Longrightarrow> inserting D traceID j (in_Store st) (in_Ordinals st) \<Longrightarrow>
   inserting D traceID j (in_Store st') (in_Ordinals st')"
  by (induction traceID j labels es st rule: insert_each.induct) (auto simp: bind_result_Inr_iff dest: insert_event_inserting)

end
