(* ===== verification/StoreKeep.thy ===== *)
theory StoreKeep
  imports StoreInvariant
begin

text \<open>
  Every operation of the store keeps the invariants of the rows of a trace.
\<close>

subsection \<open>Statements beside the events\<close>

text \<open>What only adds traces and revisions, or changes columns that are no keys.\<close>

lemma chain_but_frame:
  assumes ok: "chain_but D s"
    and same: "events s' = events s" "eventSeq s' = eventSeq s" "observations s' = observations s"
      "observation_revisions s' = observation_revisions s" "observation_sources s' = observation_sources s" "chunks s' = chunks s"
    and traces: "distinct (map t_ID (traces s'))" "distinct (map (\<lambda>t. (t_Harness t, t_NativeTraceID t)) (traces s'))"
      "t_ID ` set (traces s) \<subseteq> t_ID ` set (traces s')"
    and revisions: "distinct (map v_ID (revisions s'))" "distinct (map (\<lambda>r. (v_Trace r, v_Digest r)) (revisions s'))"
      "\<And>r. r \<in> set (revisions s') \<Longrightarrow> v_Trace r \<in> t_ID ` set (traces s')"
      "\<And>j. j \<in> v_ID ` set (revisions s) \<Longrightarrow> filter (\<lambda>r. v_ID r = j) (revisions s') = filter (\<lambda>r. v_ID r = j) (revisions s)"
  shows "chain_but D s'"
proof -
  have keys: "link_keys s' = link_keys s" using same by (simp add: link_keys_def)
  note ok = ok [unfolded chain_but_def]
  have links: "links_ok s" using ok by simp
  have kept: "r \<in> set (revisions s')" if "r \<in> set (revisions s)" for r
  proof -
    have "r \<in> set (filter (\<lambda>q. v_ID q = v_ID r) (revisions s'))" using revisions(4) [of "v_ID r"] that by simp
    then show ?thesis by simp
  qed
  have pref: "preferred_observation s' i = preferred_observation s i" for i
    using same(3) keys revisions(4) links_okD(5) [OF links] by (intro preferred_observation_cong) fastforce+
  have "keys_ok s'" using ok same keys traces revisions by (simp add: keys_ok_def)
  moreover have "links_ok s'"
    unfolding links_ok_def keys same
  proof (intro conjI ballI)
    show "ev_Trace e \<in> t_ID ` set (traces s')" if "e \<in> set (events s)" for e
      using links_okD(2) [OF links that] traces(3) by blast
    fix p assume p: "p \<in> set (link_keys s)"
    obtain a b where p': "p = (a, b)" by force
    show "case p of (i, j) \<Rightarrow> \<exists>q \<in> set (observations s). \<exists>e \<in> set (events s). \<exists>r \<in> set (revisions s').
        ob_ID q = i \<and> ob_Event q = ev_ID e \<and> v_ID r = j \<and> ev_Trace e = v_Trace r"
      using links_okD(5) [OF links p [unfolded p']] kept unfolding p' prod.case by blast
  qed (use links_okD(3, 4, 6, 7, 8) [OF links] revisions(3) in blast)+
  moreover have "index_ok s'" using ok same by (simp add: index_ok_def)
  moreover have "preferred_but D s'" using ok same pref by (simp add: preferred_but_def)
  ultimately show ?thesis by (simp add: chain_but_def)
qed

text \<open>The tables of the chain alone.\<close>

definition same_chain :: "Store \<Rightarrow> Store \<Rightarrow> bool" where
  "same_chain s s' \<longleftrightarrow> traces s' = traces s \<and> revisions s' = revisions s \<and> events s' = events s \<and> eventSeq s' = eventSeq s \<and>
     observations s' = observations s \<and> observation_revisions s' = observation_revisions s \<and>
     observation_sources s' = observation_sources s \<and> chunks s' = chunks s"

lemma chain_but_same:
  assumes "chain_but D s" "same_chain s s'"
  shows "chain_but D s'"
  by (rule chain_but_frame [OF assms(1)])
    (use assms in \<open>auto simp: same_chain_def chain_but_def keys_ok_def links_okD\<close>)

lemma same_chain_refl: "same_chain s s"
  by (simp add: same_chain_def)

lemma same_chain_trans: "same_chain s s' \<Longrightarrow> same_chain s' s'' \<Longrightarrow> same_chain s s''"
  by (simp add: same_chain_def)

lemma chain_but_update_trace:
  assumes "chain_but D s" "\<And>t. t_ID (f t) = t_ID t \<and> t_Harness (f t) = t_Harness t \<and> t_NativeTraceID (f t) = t_NativeTraceID t"
    and "traces s' = update_where P f (traces s)" "revisions s' = revisions s" "events s' = events s" "eventSeq s' = eventSeq s"
    "observations s' = observations s" "observation_revisions s' = observation_revisions s"
    "observation_sources s' = observation_sources s" "chunks s' = chunks s"
  shows "chain_but D s'"
proof -
  have t: "map t_ID (traces s') = map t_ID (traces s)"
    "map (\<lambda>t. (t_Harness t, t_NativeTraceID t)) (traces s') = map (\<lambda>t. (t_Harness t, t_NativeTraceID t)) (traces s)"
    using assms(2, 3) by (simp_all add: update_where_key)
  then have "t_ID ` set (traces s') = t_ID ` set (traces s)" by (metis list.set_map)
  then show ?thesis
    using assms(1) t by (intro chain_but_frame [OF assms(1)]) (use assms in \<open>auto simp: chain_but_def keys_ok_def links_okD\<close>)
qed

subsection \<open>Committing a revision\<close>

lemma upsertRepository_same: "upsertRepository machineID r s = Inr (s', i) \<Longrightarrow> same_chain s s'"
  by (auto simp: upsertRepository_def Let_def bind_result_Inr_iff same_chain_def split: if_splits)

lemma insert_objects_same: "insert_objects j bs s = Inr s' \<Longrightarrow> same_chain s s'"
proof (induction j bs s rule: insert_objects.induct)
  case (2 j b bs s)
  then obtain rows where r: "insert_objects j bs (s\<lparr>source_objects := insert_or_ignore so_Digest
      \<lparr>so_Digest = st_digest b, so_Size = st_size b, so_Path = object_path (st_digest b)\<rparr> (source_objects s),
      revision_objects := rows\<rparr>) = Inr s'" by (auto simp: bind_result_Inr_iff)
  with 2 show ?case by (auto simp: bind_result_Inr_iff same_chain_def)
qed (simp add: same_chain_def)

lemma insert_trace_ok:
  assumes "chain_but D s"
  shows "chain_but D (insert_trace d i now time s)"
proof (rule chain_but_frame [OF assms])
  have "keys_ok s" "links_ok s" using assms by (simp_all add: chain_but_def)
  then show "distinct (map t_ID (traces (insert_trace d i now time s)))"
    "distinct (map (\<lambda>t. (t_Harness t, t_NativeTraceID t)) (traces (insert_trace d i now time s)))"
    "distinct (map v_ID (revisions (insert_trace d i now time s)))"
    "distinct (map (\<lambda>r. (v_Trace r, v_Digest r)) (revisions (insert_trace d i now time s)))"
    using next_rowid_new [of "map t_ID (traces s)"]
    by (auto simp: insert_trace_def insert_or_ignore_def keys_ok_def)
  show sub: "t_ID ` set (traces s) \<subseteq> t_ID ` set (traces (insert_trace d i now time s))"
    by (auto simp: insert_trace_def insert_or_ignore_def)
  show "v_Trace r \<in> t_ID ` set (traces (insert_trace d i now time s))" if "r \<in> set (revisions (insert_trace d i now time s))" for r
    using links_okD(1) [OF \<open>links_ok s\<close>, of r] that sub by (auto simp: insert_trace_def)
qed (simp_all add: insert_trace_def)

lemma trace_id_row: "trace_id s harness native = Some i \<Longrightarrow> i \<in> t_ID ` set (traces s)"
  by (auto simp: trace_id_def dest: find_SomeD)

lemma insert_revision_ok:
  assumes "chain_but D s" "insert_revision traceID manifest d n time s = Inr (s', j)" "traceID \<in> t_ID ` set (traces s)"
  shows "chain_but D s'" and "\<exists>r \<in> set (revisions s'). v_ID r = j \<and> v_Trace r = traceID"
    and "j \<notin> snd ` set (link_keys s')" and "link_keys s' = link_keys s"
proof -
  have ok: "keys_ok s" "links_ok s" using assms(1) by (simp_all add: chain_but_def)
  define row where "row = revision_row traceID manifest d n time s"
  obtain ms where s': "s' = s\<lparr>revisions := revisions s @ [row], revision_machines := ms\<rparr>" "j = v_ID row"
      "(v_Trace row, v_Digest row) \<notin> (\<lambda>r. (v_Trace r, v_Digest r)) ` set (revisions s)"
    using assms(2) unfolding insert_revision_def Let_def row_def [symmetric]
    by (auto simp: bind_result_Inr_iff insert_unique_iff)
  have row: "v_Trace row = traceID" "v_ID row = next_rowid (map v_ID (revisions s))" by (simp_all add: row_def revision_row_def)
  have j: "j \<notin> v_ID ` set (revisions s)" using next_rowid_new [of "map v_ID (revisions s)"] s'(2) row by simp
  show "chain_but D s'"
    by (rule chain_but_frame [OF assms(1)]) (use ok s' row(1) j assms(3) links_okD(1) [OF ok(2)] in \<open>auto simp: keys_ok_def\<close>)
  show "\<exists>r \<in> set (revisions s'). v_ID r = j \<and> v_Trace r = traceID" using s' row by simp
  show keys: "link_keys s' = link_keys s" using s' by (simp add: link_keys_def)
  show "j \<notin> snd ` set (link_keys s')" using links_okD(5) [OF ok(2)] j keys by fastforce
qed

lemma begin_revision_ok:
  assumes "chain_ok s" "begin_revision now manifest d n stored s = Inr (s', traceID, j)"
  shows "inserting {} traceID j s' []"
proof -
  from assms(2) obtain s1 i s3 where
    up: "upsertRepository (m_ID (mf_SourceMachine manifest)) (d_Repository d) s = Inr (s1, i)"
    and t: "trace_id (insert_trace d i now (metadata_time d now) s1) (d_Harness d) (d_NativeTraceID d) = Some traceID"
    and rev: "insert_revision traceID manifest d n (metadata_time d now)
        (update_trace traceID (newest_metadata d i (metadata_time d now)) (insert_trace d i now (metadata_time d now) s1)) = Inr (s3, j)"
    and objs: "insert_objects j stored s3 = Inr s'"
    by (auto simp: begin_revision_def Let_def bind_result_Inr_iff)
  let ?s2 = "insert_trace d i now (metadata_time d now) s1"
  let ?s2' = "update_trace traceID (newest_metadata d i (metadata_time d now)) ?s2"
  have "chain_ok s1" using chain_but_same [OF assms(1) upsertRepository_same [OF up]] .
  then have "chain_ok ?s2" by (rule insert_trace_ok)
  then have ok: "chain_ok ?s2'"
    by (rule chain_but_update_trace [where f = "newest_metadata d i (metadata_time d now)"])
      (simp_all add: update_trace_def newest_metadata_def)
  have "t_ID ` set (traces ?s2') = t_ID ` set (traces ?s2)"
    by (simp add: update_trace_def image_update_where newest_metadata_def)
  then have tr: "traceID \<in> t_ID ` set (traces ?s2')" using trace_id_row [OF t] by simp
  note r = insert_revision_ok [OF ok rev tr]
  note s' = insert_objects_same [OF objs]
  have "chain_ok s'" using chain_but_same [OF r(1) s'] .
  then show ?thesis using r(2, 3) s' by (auto simp: inserting_def link_keys_def image_iff same_chain_def)
qed

lemma insertEvents_inserting:
  "insertEvents traceID j labels es s = Inr (s', w) \<Longrightarrow> inserting D traceID j s [] \<Longrightarrow>
   chain_but D s' \<and> (\<exists>r \<in> set (revisions s'). v_ID r = j \<and> v_Trace r = traceID)"
  by (auto simp: insertEvents_def bind_result_Inr_iff inserting_def dest!: insert_each_inserting)

lemma commitRevision_ok:
  assumes "chain_ok s" "commitRevision now manifest d n stored s = Inr (s', r)"
  shows "chain_ok s'"
proof -
  from assms(2) obtain s1 traceID j ov ge s2 w where
    b: "begin_revision now manifest d n stored s = Inr (s1, traceID, j)"
    and e: "insertEvents traceID j (searchLabels d [ov, ge]) (n_Events n) s1 = Inr (s2, w)"
    and s': "s' = recordRun j (n_Version n) (n_Status n) (n_Warnings n @ w) now (update_trace traceID (fill_title (n_Title n)) s2)"
    by (auto simp: commitRevision_def Let_def bind_result_Inr_iff)
  have "chain_ok s2" using insertEvents_inserting [OF e begin_revision_ok [OF assms(1) b]] by blast
  then show ?thesis
    by (rule chain_but_update_trace [where f = "fill_title (n_Title n)"])
      (simp_all add: s' recordRun_def update_trace_def fill_title_def)
qed

subsection \<open>Deleting\<close>

text \<open>Only the links that satisfy \<open>K\<close> stay, with what hangs on them.\<close>

definition trimmed :: "(int \<times> int \<Rightarrow> bool) \<Rightarrow> Store \<Rightarrow> Store \<Rightarrow> bool" where
  "trimmed K s s' \<longleftrightarrow>
     observation_revisions s' = filter (\<lambda>x. K (or_Observation x, or_Revision x)) (observation_revisions s) \<and>
     observation_sources s' = filter (\<lambda>u. K (os_Observation u, os_Revision u)) (observation_sources s) \<and>
     chunks s' = filter (\<lambda>c. K (c_Observation c, c_Revision c)) (chunks s)"

text \<open>What hangs on a link hangs on one that is there.\<close>

definition hung :: "Store \<Rightarrow> bool" where
  "hung s \<longleftrightarrow> (\<forall>u \<in> set (observation_sources s). (os_Observation u, os_Revision u) \<in> set (link_keys s)) \<and>
     (\<forall>c \<in> set (chunks s). (c_Observation c, c_Revision c) \<in> set (link_keys s))"

lemma trimmed_keys: "trimmed K s s' \<Longrightarrow> link_keys s' = filter K (link_keys s)"
  by (simp add: trimmed_def link_keys_def filter_map comp_def)

lemma trimmed_hung: "trimmed K s s' \<Longrightarrow> hung s \<Longrightarrow> hung s'"
  using trimmed_keys [of K s s'] by (auto simp: hung_def trimmed_def)

lemma trimmed_trans: "trimmed K s s1 \<Longrightarrow> trimmed K' s1 s' \<Longrightarrow> trimmed (\<lambda>k. K k \<and> K' k) s s'"
  by (simp add: trimmed_def conj_commute)

lemma trimmed_cong:
  assumes "trimmed K s s'" "hung s" "\<And>k. k \<in> set (link_keys s) \<Longrightarrow> K k = K' k"
  shows "trimmed K' s s'"
  using assms unfolding trimmed_def hung_def
  by (auto simp: link_keys_def intro!: filter_cong)

lemma delete_links_trimmed:
  assumes "hung s" "\<And>x. P x = (\<not> K (or_Observation x, or_Revision x))"
  shows "trimmed K s (delete_observation_revisions P s)"
proof -
  have gone: "k \<in> set (map (\<lambda>x. (or_Observation x, or_Revision x)) (filter P (observation_revisions s))) \<longleftrightarrow> \<not> K k"
    if "k \<in> set (link_keys s)" for k
    using that by (auto simp: link_keys_def assms(2))
  have "\<forall>u \<in> set (observation_sources s). (os_Observation u, os_Revision u) \<in> set (link_keys s)"
    "\<forall>c \<in> set (chunks s). (c_Observation c, c_Revision c) \<in> set (link_keys s)"
    using assms(1) by (auto simp: hung_def)
  with gone show ?thesis
    by (auto simp: trimmed_def delete_observation_revisions_def Let_def delete_where_def assms(2) intro!: filter_cong)
qed

lemma delete_observation_revisions_frame:
  "traces (delete_observation_revisions P s) = traces s" "revisions (delete_observation_revisions P s) = revisions s"
  "events (delete_observation_revisions P s) = events s" "eventSeq (delete_observation_revisions P s) = eventSeq s"
  "observations (delete_observation_revisions P s) = observations s"
  by (simp_all add: delete_observation_revisions_def Let_def)

lemma hung_same: "observation_revisions s' = observation_revisions s \<Longrightarrow> observation_sources s' = observation_sources s \<Longrightarrow>
    chunks s' = chunks s \<Longrightarrow> hung s' = hung s"
  by (simp add: hung_def link_keys_def)

lemma delete_observations_trimmed:
  assumes "hung s"
  shows "trimmed (\<lambda>(i, j). i \<notin> ob_ID ` {q \<in> set (observations s). P q}) s (delete_observations P s)"
proof -
  let ?s = "s\<lparr>observations := delete_where P (observations s)\<rparr>"
  have "trimmed (\<lambda>(i, j). i \<notin> ob_ID ` {q \<in> set (observations s). P q}) ?s (delete_observations P s)"
    unfolding delete_observations_def Let_def
    by (rule delete_links_trimmed) (use assms in \<open>auto simp: hung_def link_keys_def\<close>)
  then show ?thesis by (simp add: trimmed_def)
qed

lemma delete_observations_frame:
  "traces (delete_observations P s) = traces s" "revisions (delete_observations P s) = revisions s"
  "events (delete_observations P s) = events s" "eventSeq (delete_observations P s) = eventSeq s"
  "observations (delete_observations P s) = filter (\<lambda>q. \<not> P q) (observations s)"
  by (simp_all add: delete_observations_def Let_def delete_observation_revisions_frame delete_where_def)

lemma contents_filter: "K (i, j) \<Longrightarrow> contents (filter (\<lambda>c. K (c_Observation c, c_Revision c)) rows) i j = contents rows i j"
  unfolding contents_def by (simp add: conj_commute) (metis (no_types, lifting) filter_cong)

lemma chain_but_trimmed:
  assumes ok: "chain_but D s" and cut: "trimmed K s s'"
    and rows: "observations s' = filter Ko (observations s)" "events s' = filter Ke (events s)" "eventSeq s' = eventSeq s"
    and traces: "distinct (map t_ID (traces s'))" "distinct (map (\<lambda>t. (t_Harness t, t_NativeTraceID t)) (traces s'))"
    and revisions: "distinct (map v_ID (revisions s'))" "distinct (map (\<lambda>r. (v_Trace r, v_Digest r)) (revisions s'))"
      "\<And>r. r \<in> set (revisions s') \<Longrightarrow> v_Trace r \<in> t_ID ` set (traces s')"
    and c1: "\<And>q. q \<in> set (observations s) \<Longrightarrow> Ko q \<Longrightarrow> \<exists>j. (ob_ID q, j) \<in> set (link_keys s) \<and> K (ob_ID q, j)"
    and c2: "\<And>q j. q \<in> set (observations s) \<Longrightarrow> (ob_ID q, j) \<in> set (link_keys s) \<Longrightarrow> K (ob_ID q, j) \<Longrightarrow> Ko q"
    and c3: "\<And>q e. q \<in> set (observations s) \<Longrightarrow> e \<in> set (events s) \<Longrightarrow> Ko q \<Longrightarrow> ob_Event q = ev_ID e \<Longrightarrow> Ke e"
    and c4: "\<And>i j r. (i, j) \<in> set (link_keys s) \<Longrightarrow> K (i, j) \<Longrightarrow> r \<in> set (revisions s) \<Longrightarrow> v_ID r = j \<Longrightarrow>
        \<exists>r' \<in> set (revisions s'). v_ID r' = j \<and> v_Trace r' = v_Trace r"
    and c5: "\<And>e. e \<in> set (events s) \<Longrightarrow> Ke e \<Longrightarrow> ev_Trace e \<in> t_ID ` set (traces s')"
    and c6: "\<And>e q j. e \<in> set (events s) \<Longrightarrow> Ke e \<Longrightarrow> ev_Trace e \<notin> D' \<Longrightarrow> q \<in> set (observations s) \<Longrightarrow> ob_Event q = ev_ID e \<Longrightarrow>
        (ob_ID q, j) \<in> set (link_keys s) \<Longrightarrow>
        Ko q \<and> K (ob_ID q, j) \<and> filter (\<lambda>r. v_ID r = j) (revisions s') = filter (\<lambda>r. v_ID r = j) (revisions s)"
    and D: "D \<subseteq> D'"
  shows "chain_but D' s'"
proof -
  note ok = ok [unfolded chain_but_def]
  have links: "links_ok s" using ok by simp
  have keys: "link_keys s' = filter K (link_keys s)" using trimmed_keys [OF cut] .
  have "keys_ok s'"
    using ok rows keys traces revisions(1, 2) by (auto simp: keys_ok_def distinct_map_filter list_all_iff)
  moreover have "links_ok s'"
    unfolding links_ok_def
  proof (intro conjI ballI)
    fix q assume q: "q \<in> set (observations s')"
    then have q': "q \<in> set (observations s)" "Ko q" using rows by auto
    obtain e where "e \<in> set (events s)" "ob_Event q = ev_ID e" using links_okD(3) [OF links q'(1)] by auto
    with c3 [OF q'(1)] q'(2) rows show "ob_Event q \<in> ev_ID ` set (events s')" by auto
    show "ob_ID q \<in> fst ` set (link_keys s')" using c1 [OF q'] keys by force
  next
    fix p assume p: "p \<in> set (link_keys s')"
    obtain i j where p': "p = (i, j)" by force
    then have k: "(i, j) \<in> set (link_keys s)" "K (i, j)" using p keys by auto
    obtain q e r where h: "q \<in> set (observations s)" "e \<in> set (events s)" "r \<in> set (revisions s)"
      "ob_ID q = i" "ob_Event q = ev_ID e" "v_ID r = j" "ev_Trace e = v_Trace r" using links_okD(5) [OF links k(1)] by blast
    have "Ko q" using c2 [OF h(1), of j] k h(4) by simp
    then have "q \<in> set (observations s')" "e \<in> set (events s')" using h c3 [OF h(1, 2)] rows by auto
    then show "case p of (i, j) \<Rightarrow> \<exists>q \<in> set (observations s'). \<exists>e \<in> set (events s'). \<exists>r \<in> set (revisions s').
        ob_ID q = i \<and> ob_Event q = ev_ID e \<and> v_ID r = j \<and> ev_Trace e = v_Trace r"
      using c4 [OF k h(3, 6)] h(4-7) unfolding p' prod.case by metis
  next
    fix u assume "u \<in> set (observation_sources s')"
    then show "(os_Observation u, os_Revision u) \<in> set (link_keys s')"
      using cut keys links_okD(6) [OF links, of u] by (simp add: trimmed_def)
  next
    fix c assume c: "c \<in> set (chunks s')"
    then have c': "c \<in> set (chunks s)" "K (c_Observation c, c_Revision c)" using cut by (auto simp: trimmed_def)
    then show "(c_Observation c, c_Revision c) \<in> set (link_keys s')" using keys links_okD(7) [OF links, of c] by simp
    obtain q where q: "q \<in> set (observations s)" "ob_ID q = c_Observation c" "ob_Event q = c_Event c"
      using links_okD(8) [OF links c'(1)] by blast
    have "Ko q" using c2 [OF q(1), of "c_Revision c"] c'(2) q(2) links_okD(7) [OF links c'(1)] by simp
    with q rows show "\<exists>q \<in> set (observations s'). ob_ID q = c_Observation c \<and> ob_Event q = c_Event c" by auto
  qed (use revisions(3) c5 rows in auto)
  moreover have "index_ok s'"
    using ok cut by (auto simp: index_ok_def trimmed_def contents_filter)
  moreover have "preferred_but D' s'"
    unfolding preferred_but_def
  proof (intro ballI impI)
    fix e assume e: "e \<in> set (events s')" "ev_Trace e \<notin> D'"
    then have e': "e \<in> set (events s)" "Ke e" "ev_Trace e \<notin> D" using rows D by auto
    have own: "Ko q" if "q \<in> set (observations s)" "ob_Event q = ev_ID e" for q
      using c6 [OF e'(1, 2) e(2) that] links_okD(4) [OF links that(1)] by force
    have "preferred_observation s' (ev_ID e) = preferred_observation s (ev_ID e)"
    proof (rule preferred_observation_cong)
      show "filter (\<lambda>q. ob_Event q = ev_ID e) (observations s') = filter (\<lambda>q. ob_Event q = ev_ID e) (observations s)"
        unfolding rows by (rule filter_cong_keep) (rule own)
      fix q assume q: "q \<in> set (observations s)" "ob_Event q = ev_ID e"
      show "filter (\<lambda>k. fst k = ob_ID q) (link_keys s') = filter (\<lambda>k. fst k = ob_ID q) (link_keys s)"
        unfolding keys by (rule filter_cong_keep) (metis c6 [OF e'(1, 2) e(2) q] prod.collapse)
      fix k assume k: "k \<in> set (link_keys s)" "fst k = ob_ID q"
      then have "(ob_ID q, snd k) \<in> set (link_keys s)" by (metis prod.collapse)
      then show "filter (\<lambda>r. v_ID r = snd k) (revisions s') = filter (\<lambda>r. v_ID r = snd k) (revisions s)"
        using c6 [OF e'(1, 2) e(2) q] by blast
    qed
    then show "ev_Preferred e = preferred_observation s' (ev_ID e) \<and> preferred_observation s' (ev_ID e) \<noteq> None"
      using ok e' by (metis preferred_but_def)
  qed
  ultimately show ?thesis by (simp add: chain_but_def)
qed

lemma link_trace:
  assumes ok: "chain_but D s" and h: "(ob_ID q, j) \<in> set (link_keys s)" "q \<in> set (observations s)" "e \<in> set (events s)"
    "ob_Event q = ev_ID e" "r \<in> set (revisions s)" "v_ID r = j"
  shows "ev_Trace e = v_Trace r"
proof -
  have keys: "distinct (map ob_ID (observations s))" "distinct (map ev_ID (events s))" "distinct (map v_ID (revisions s))"
    and links: "links_ok s" using ok by (auto simp: chain_but_def keys_ok_def)
  obtain q' e' r' where t: "q' \<in> set (observations s)" "e' \<in> set (events s)" "r' \<in> set (revisions s)" "ob_ID q' = ob_ID q"
    "ob_Event q' = ev_ID e'" "v_ID r' = j" "ev_Trace e' = v_Trace r'" using links_okD(5) [OF links h(1)] by blast
  have "q' = q" using distinct_map_eq [OF keys(1) t(1) h(2) t(4)] .
  then have "e' = e" using distinct_map_eq [OF keys(2) t(2) h(3)] t(5) h(4) by simp
  moreover have "r' = r" using distinct_map_eq [OF keys(3) t(3) h(5)] t(6) h(6) by simp
  ultimately show ?thesis using t(7) by simp
qed

subsection \<open>Replacing the events of a revision\<close>

lemma insert_aliases_same: "same_chain s (insert_aliases traceID es s)"
proof -
  have one: "same_chain s (insert_alias traceID key legacy s)" for key legacy s
    by (simp add: same_chain_def insert_alias_def split: option.split)
  have many: "same_chain s (foldl (\<lambda>s legacy. insert_alias traceID key legacy s) s ks)" for key ks s
    by (induction ks arbitrary: s) (auto simp: same_chain_refl intro: same_chain_trans [OF one])
  show ?thesis
    unfolding insert_aliases_def by (induction es arbitrary: s) (auto simp: same_chain_refl intro: same_chain_trans [OF many])
qed

lemma hung_ok: "chain_but D s \<Longrightarrow> hung s"
  by (auto simp: chain_but_def hung_def links_okD)

lemma clear_revision_ok:
  assumes ok: "chain_ok s" and rev: "\<exists>r \<in> set (revisions s). v_ID r = j \<and> v_Trace r = traceID"
  shows "inserting {traceID} traceID j (clear_revision traceID j n s) []"
proof -
  let ?g = "\<lambda>t. if t_GeneratedTitle t = [] then t\<lparr>t_GeneratedRevision := 0\<rparr> else t"
  let ?K = "\<lambda>k :: int \<times> int. snd k \<noteq> j"
  define s1 where "s1 = insert_aliases traceID (n_Events n) s"
  define s2 where "s2 = update_trace traceID ?g s1"
  define s3 where "s3 = update_trace traceID (fill_title (n_Title n)) s2"
  define s4 where "s4 = delete_observation_revisions (\<lambda>x. or_Revision x = j) s3"
  define P where "P = (\<lambda>q :: ObservationRow. ob_Event q \<in> set (map ev_ID (filter (\<lambda>e. ev_Trace e = traceID) (events s4))) \<and>
      ob_ID q \<notin> set (map or_Observation (observation_revisions s4)))"
  define s5 where "s5 = delete_observations P s4"
  let ?u = "\<lambda>r. r\<lparr>v_Status := n_Status n, v_Version := n_Version n\<rparr>"
  define s' where "s' = s5\<lparr>revisions := update_where (\<lambda>r. v_ID r = j) ?u (revisions s5)\<rparr>"
  have eq: "clear_revision traceID j n s = s'"
    by (simp add: clear_revision_def Let_def s'_def s5_def P_def s4_def s3_def s2_def s1_def)
  have "chain_ok s1" using chain_but_same [OF ok insert_aliases_same] by (simp add: s1_def)
  then have "chain_ok s2" by (rule chain_but_update_trace [where f = ?g]) (auto simp: s2_def update_trace_def)
  then have ok3: "chain_ok s3"
    by (rule chain_but_update_trace [where f = "fill_title (n_Title n)"]) (auto simp: s3_def update_trace_def fill_title_def)
  have "revisions s3 = revisions s"
    using insert_aliases_same [of s traceID "n_Events n"] by (simp add: s3_def s2_def s1_def update_trace_def same_chain_def)
  with rev obtain r where r: "r \<in> set (revisions s3)" "v_ID r = j" "v_Trace r = traceID" by auto
  have cut4: "trimmed ?K s3 s4" unfolding s4_def by (rule delete_links_trimmed [OF hung_ok [OF ok3]]) simp
  have linked: "set (map or_Observation (observation_revisions s4)) = {i. \<exists>j'. (i, j') \<in> set (link_keys s3) \<and> j' \<noteq> j}"
  proof -
    have "set (map or_Observation (observation_revisions s4)) = fst ` set (link_keys s4)" by (simp add: link_keys_def image_image)
    also have "\<dots> = {i. \<exists>j'. (i, j') \<in> set (link_keys s3) \<and> j' \<noteq> j}" unfolding trimmed_keys [OF cut4] by force
    finally show ?thesis .
  qed
  have rows4: "events s4 = events s3" "observations s4 = observations s3" "revisions s4 = revisions s3" "traces s4 = traces s3"
    "eventSeq s4 = eventSeq s3" by (simp_all add: s4_def delete_observation_revisions_frame)
  have "trimmed (\<lambda>k. ?K k \<and> (case k of (i, j) \<Rightarrow> i \<notin> ob_ID ` {q \<in> set (observations s4). P q})) s3 s5"
    unfolding s5_def by (rule trimmed_trans [OF cut4 delete_observations_trimmed [OF trimmed_hung [OF cut4 hung_ok [OF ok3]]]])
  then have "trimmed ?K s3 s5"
    by (rule trimmed_cong [OF _ hung_ok [OF ok3]]) (auto simp: P_def linked simp del: set_map)
  then have cut: "trimmed ?K s3 s'" by (simp add: trimmed_def s'_def)
  have rows: "observations s' = filter (\<lambda>q. \<not> P q) (observations s3)" "events s' = events s3" "traces s' = traces s3" "eventSeq s' = eventSeq s3"
    "revisions s' = update_where (\<lambda>r. v_ID r = j) ?u (revisions s3)"
    using rows4 by (simp_all add: s'_def s5_def delete_observations_frame)
  have keys3: "keys_ok s3" and links3: "links_ok s3" using ok3 by (auto simp: chain_but_def)
  have mine: "P q \<longleftrightarrow> (\<exists>e \<in> set (events s3). ev_Trace e = traceID \<and> ob_Event q = ev_ID e) \<and> (\<forall>j'. (ob_ID q, j') \<in> set (link_keys s3) \<longrightarrow> j' = j)" for q
    unfolding P_def linked rows4 by auto
  have other: "j' \<noteq> j \<and> \<not> P q" if "(ob_ID q, j') \<in> set (link_keys s3)" "q \<in> set (observations s3)" "e \<in> set (events s3)" "ob_Event q = ev_ID e"
      "ev_Trace e \<noteq> traceID" for q e j'
  proof
    show j': "j' \<noteq> j" using link_trace [OF ok3 that(1-4) r(1)] r that(5) by auto
    show "\<not> P q" using mine that(1) j' by blast
  qed
  have upd: "map v_ID (revisions s') = map v_ID (revisions s3)"
    "map (\<lambda>r. (v_Trace r, v_Digest r)) (revisions s') = map (\<lambda>r. (v_Trace r, v_Digest r)) (revisions s3)"
    "map (\<lambda>r. (v_ID r, v_Trace r)) (revisions s') = map (\<lambda>r. (v_ID r, v_Trace r)) (revisions s3)"
    unfolding rows by (simp_all add: update_where_key)
  have "chain_but {traceID} s'"
  proof (rule chain_but_trimmed [OF ok3 cut rows(1), where Ke = "\<lambda>_. True"])
    show "distinct (map v_ID (revisions s'))" "distinct (map (\<lambda>r. (v_Trace r, v_Digest r)) (revisions s'))"
      unfolding upd using keys3 by (auto simp: keys_ok_def)
    show "v_Trace q \<in> t_ID ` set (traces s')" if "q \<in> set (revisions s')" for q
      using map_same [OF upd(3) that] links_okD(1) [OF links3] rows by auto
    show "\<exists>j'. (ob_ID q, j') \<in> set (link_keys s3) \<and> snd (ob_ID q, j') \<noteq> j" if q: "q \<in> set (observations s3)" "\<not> P q" for q
    proof -
      obtain e where e: "e \<in> set (events s3)" "ob_Event q = ev_ID e" using links_okD(3) [OF links3 q(1)] by auto
      obtain j' where j': "(ob_ID q, j') \<in> set (link_keys s3)" using links_okD(4) [OF links3 q(1)] by force
      show ?thesis
      proof (cases "ev_Trace e = traceID")
        case True
        with q(2) e mine show ?thesis by auto
      next
        case False
        with other [OF j' q(1) e] j' show ?thesis by auto
      qed
    qed
    show "\<exists>r' \<in> set (revisions s'). v_ID r' = j' \<and> v_Trace r' = v_Trace q" if "q \<in> set (revisions s3)" "v_ID q = j'" for j' q
      using map_same [OF upd(3) [symmetric] that(1)] that(2) by auto
    show "\<not> P q \<and> snd (ob_ID q, j') \<noteq> j \<and> filter (\<lambda>r. v_ID r = j') (revisions s') = filter (\<lambda>r. v_ID r = j') (revisions s3)"
      if "e \<in> set (events s3)" "ev_Trace e \<notin> {traceID}" "q \<in> set (observations s3)" "ob_Event q = ev_ID e" "(ob_ID q, j') \<in> set (link_keys s3)"
      for e q j'
    proof -
      have "j' \<noteq> j" "\<not> P q" using other [OF that(5, 3, 1, 4)] that(2) by auto
      moreover have "filter (\<lambda>r. v_ID r = j') (update_where (\<lambda>r. v_ID r = j) ?u rs) = filter (\<lambda>r. v_ID r = j') rs" if "j' \<noteq> j" for rs
        using that by (induction rs) (auto simp: update_where_def)
      ultimately show ?thesis using rows by simp
    qed
  qed (use rows keys3 mine links_okD(2) [OF links3] in \<open>auto simp: keys_ok_def\<close>)
  moreover have "\<exists>q \<in> set (revisions s'). v_ID q = j \<and> v_Trace q = traceID"
    using map_same [OF upd(3) [symmetric] r(1)] r by auto
  moreover have "{i. (i, j) \<in> set (link_keys s')} = {}" using trimmed_keys [OF cut] by auto
  ultimately show ?thesis by (simp add: eq inserting_def)
qed

text \<open>Deleting events takes their observations and all that hangs on them along.\<close>

lemma delete_events_rows:
  fixes P :: "EventRow \<Rightarrow> bool"
  assumes hung: "hung s" and chunk: "\<forall>c \<in> set (chunks s). \<exists>q \<in> set (observations s). ob_ID q = c_Observation c \<and> ob_Event q = c_Event c"
  defines "gone \<equiv> {q \<in> set (observations s). ob_Event q \<in> ev_ID ` {e \<in> set (events s). P e}}"
  shows "trimmed (\<lambda>k. fst k \<notin> ob_ID ` gone) s (delete_events P s)"
    "observations (delete_events P s) = filter (\<lambda>q. q \<notin> gone) (observations s)"
    "events (delete_events P s) = filter (\<lambda>e. \<not> P e) (events s)"
    "traces (delete_events P s) = traces s" "revisions (delete_events P s) = revisions s"
    "eventSeq (delete_events P s) = eventSeq s"
proof -
  let ?ids = "map ev_ID (filter P (events s))"
  let ?s1 = "delete_observations (\<lambda>q. ob_Event q \<in> set ?ids) (s\<lparr>events := delete_where P (events s)\<rparr>)"
  have gone: "{q \<in> set (observations s). ob_Event q \<in> set ?ids} = gone" by (auto simp: gone_def)
  have hung': "hung (s\<lparr>events := delete_where P (events s)\<rparr>)"
    using hung by (simp add: hung_def link_keys_def)
  have cut: "trimmed (\<lambda>k. fst k \<notin> ob_ID ` gone) s ?s1"
    using delete_observations_trimmed [OF hung', of "\<lambda>q. ob_Event q \<in> set ?ids"] gone by (simp add: trimmed_def case_prod_unfold)
  have "c_Event c \<notin> set ?ids" if c: "c \<in> set (chunks ?s1)" for c
  proof
    assume e: "c_Event c \<in> set ?ids"
    have c': "c \<in> set (chunks s)" "c_Observation c \<notin> ob_ID ` gone" using c cut by (auto simp: trimmed_def)
    then obtain q where q: "q \<in> set (observations s)" "ob_ID q = c_Observation c" "ob_Event q = c_Event c"
      using chunk by blast
    then have "q \<in> gone" using e gone by auto
    with q(2) c'(2) show False by (metis imageI)
  qed
  then have "delete_where (\<lambda>c. c_Event c \<in> set ?ids) (chunks ?s1) = chunks ?s1"
    unfolding delete_where_def by (simp add: filter_id_conv)
  then have eq: "delete_events P s = ?s1" by (simp add: delete_events_def Let_def)
  show "trimmed (\<lambda>k. fst k \<notin> ob_ID ` gone) s (delete_events P s)" using cut eq by simp
  show "observations (delete_events P s) = filter (\<lambda>q. q \<notin> gone) (observations s)"
    unfolding eq by (auto simp: delete_observations_frame gone_def intro!: filter_cong)
  show "events (delete_events P s) = filter (\<lambda>e. \<not> P e) (events s)"
    "traces (delete_events P s) = traces s" "revisions (delete_events P s) = revisions s"
    "eventSeq (delete_events P s) = eventSeq s"
    unfolding eq by (simp_all add: delete_observations_frame delete_where_def)
qed

lemma set_preferred_ok:
  assumes ok: "chain_but {traceID} s"
  defines "s' \<equiv> set_preferred (\<lambda>r. ev_Trace r = traceID) s"
  shows "chain_but {traceID} s'" and "\<forall>e \<in> set (events s'). ev_Preferred e = preferred_observation s' (ev_ID e)"
proof -
  have same: "traces s' = traces s" "revisions s' = revisions s" "observations s' = observations s" "link_keys s' = link_keys s"
    "observation_revisions s' = observation_revisions s" "observation_sources s' = observation_sources s" "chunks s' = chunks s"
    "eventSeq s' = eventSeq s"
    by (simp_all add: s'_def set_preferred_def link_keys_def)
  have e: "map ev_ID (events s') = map ev_ID (events s)"
    "map (\<lambda>e. (ev_Trace e, ev_Key e)) (events s') = map (\<lambda>e. (ev_Trace e, ev_Key e)) (events s)"
    "map (\<lambda>e. (ev_ID e, ev_Trace e)) (events s') = map (\<lambda>e. (ev_ID e, ev_Trace e)) (events s)"
    by (simp_all add: s'_def set_preferred_def update_where_key)
  have pref: "preferred_observation s' i = preferred_observation s i" for i
    using same by (intro preferred_observation_tables) simp_all
  note ok' = ok [unfolded chain_but_def]
  have links: "links_ok s" using ok' by simp
  have event: "\<exists>e' \<in> set (events s'). ev_ID e' = ev_ID e \<and> ev_Trace e' = ev_Trace e" if "e \<in> set (events s)" for e
    using map_same [OF e(3) [symmetric] that] by auto
  have row: "(ev_Trace r = traceID \<longrightarrow> ev_Preferred r = preferred_observation s (ev_ID r)) \<and> (ev_Trace r \<noteq> traceID \<longrightarrow> r \<in> set (events s))"
    if "r \<in> set (events s')" for r
    using that by (auto simp: s'_def set_preferred_def set_update_where)
  have "keys_ok s'" using ok' same e by (simp add: keys_ok_def)
  moreover have "links_ok s'"
    unfolding links_ok_def same
  proof (intro conjI ballI)
    show "ev_Trace r \<in> t_ID ` set (traces s)" if "r \<in> set (events s')" for r
      using map_same [OF e(3) that] links_okD(2) [OF links] by auto
    show "ob_Event q \<in> ev_ID ` set (events s')" if "q \<in> set (observations s)" for q
      using links_okD(3) [OF links that] e(1) by (metis list.set_map)
    fix p assume p: "p \<in> set (link_keys s)"
    obtain a b where p': "p = (a, b)" by force
    show "case p of (i, j) \<Rightarrow> \<exists>q \<in> set (observations s). \<exists>e \<in> set (events s'). \<exists>r \<in> set (revisions s).
        ob_ID q = i \<and> ob_Event q = ev_ID e \<and> v_ID r = j \<and> ev_Trace e = v_Trace r"
      using links_okD(5) [OF links p [unfolded p']] event unfolding p' prod.case by metis
  qed (use links_okD(1, 4, 6, 7, 8) [OF links] in blast)+
  moreover have "index_ok s'" using ok' same by (simp add: index_ok_def)
  moreover have "preferred_but {traceID} s'"
    using ok' row pref by (simp add: preferred_but_def)
  ultimately show "chain_but {traceID} s'" by (simp add: chain_but_def)
  show "\<forall>e \<in> set (events s'). ev_Preferred e = preferred_observation s' (ev_ID e)"
    using row pref ok' by (metis (no_types, lifting) preferred_but_def singletonD)
qed

lemma replaceRevisionEvents_ok:
  assumes ok: "chain_ok s" "\<exists>r \<in> set (revisions s). v_ID r = j \<and> v_Trace r = traceID"
    and run: "replaceRevisionEvents now traceID j labels n s = Inr (s', w)"
  shows "chain_ok s'"
proof -
  obtain s1 w1 where e: "insertEvents traceID j labels (n_Events n) (clear_revision traceID j n s) = Inr (s1, w1)"
    and s': "s' = recordRun j (n_Version n) (n_Status n) (n_Warnings n @ w1) now
      (delete_events (\<lambda>e. ev_Trace e = traceID \<and> ev_ID e \<notin> set (map ob_Event (observations (set_preferred (\<lambda>r. ev_Trace r = traceID) s1))))
        (set_preferred (\<lambda>r. ev_Trace r = traceID) s1))"
    using run by (auto simp: replaceRevisionEvents_def Let_def bind_result_Inr_iff)
  define s2 where "s2 = set_preferred (\<lambda>r. ev_Trace r = traceID) s1"
  define P where "P = (\<lambda>e :: EventRow. ev_Trace e = traceID \<and> ev_ID e \<notin> set (map ob_Event (observations s2)))"
  define s3 where "s3 = delete_events P s2"
  have ok2: "chain_but {traceID} s2" and pref2: "\<forall>e \<in> set (events s2). ev_Preferred e = preferred_observation s2 (ev_ID e)"
    using set_preferred_ok insertEvents_inserting [OF e clear_revision_ok [OF ok]] by (auto simp: s2_def)
  have none: "{q \<in> set (observations s2). ob_Event q \<in> ev_ID ` {e \<in> set (events s2). P e}} = {}"
    unfolding P_def by (auto simp del: set_map) (metis image_eqI set_map)
  have keys2: "keys_ok s2" and links2: "links_ok s2" using ok2 by (auto simp: chain_but_def)
  note rows = delete_events_rows [OF hung_ok [OF ok2] ballI [OF links_okD(8) [OF links2]], of P, unfolded none, folded s3_def]
  have obs: "observations s3 = observations s2" using rows(2) by simp
  have keys: "link_keys s3 = link_keys s2" using trimmed_keys [OF rows(1)] by simp
  have ok3: "chain_but {traceID} s3"
  proof (rule chain_but_trimmed [OF ok2 rows(1, 2, 3, 6)])
    show "\<exists>j. (ob_ID q, j) \<in> set (link_keys s2) \<and> fst (ob_ID q, j) \<notin> ob_ID ` {}" if "q \<in> set (observations s2)" for q
      using links_okD(4) [OF links2 that] by auto
    show "\<not> P e" if "q \<in> set (observations s2)" "ob_Event q = ev_ID e" for q e
      using that by (metis P_def image_eqI set_map)
  qed (use rows(4, 5) keys2 links_okD(1, 2) [OF links2] in \<open>auto simp: keys_ok_def\<close>)
  have pref: "preferred_observation s3 i = preferred_observation s2 i" for i
    using obs keys rows(5) by (intro preferred_observation_tables) simp_all
  have "preferred_observation s3 (ev_ID e) \<noteq> None" if e: "e \<in> set (events s3)" "ev_Trace e = traceID" for e
  proof -
    have "ev_ID e \<in> set (map ob_Event (observations s2))" using e rows(3) by (simp add: P_def)
    then obtain q where q: "q \<in> set (observations s2)" "ob_Event q = ev_ID e" by auto
    obtain i where i: "(ob_ID q, i) \<in> set (link_keys s2)" using links_okD(4) [OF links2 q(1)] by force
    then have "i \<in> v_ID ` set (revisions s2)" using links_okD(5) [OF links2 i] by auto
    then show ?thesis using preferred_observation_exists [of q s3 "ev_ID e" i] q i obs keys rows(5) by simp
  qed
  then have "preferred_but {} s3"
    using ok3 pref2 pref rows(3) unfolding chain_but_def preferred_but_def by auto
  with ok3 have "chain_ok s3" by (simp add: chain_but_def)
  then show ?thesis
    by (rule chain_but_same) (simp add: s' recordRun_def same_chain_def s3_def P_def s2_def)
qed

subsection \<open>Deleting a trace\<close>

text \<open>The rows that go: of the traces, of their revisions, and the observations of their events.\<close>

definition gone_traces :: "(TraceRow \<Rightarrow> bool) \<Rightarrow> Store \<Rightarrow> int set" where
  "gone_traces P s = t_ID ` {t \<in> set (traces s). P t}"

definition gone_revisions :: "(TraceRow \<Rightarrow> bool) \<Rightarrow> Store \<Rightarrow> int set" where
  "gone_revisions P s = v_ID ` {r \<in> set (revisions s). v_Trace r \<in> gone_traces P s}"

definition gone_observations :: "(TraceRow \<Rightarrow> bool) \<Rightarrow> Store \<Rightarrow> ObservationRow set" where
  "gone_observations P s =
     {q \<in> set (observations s). ob_Event q \<in> ev_ID ` {e \<in> set (events s). ev_Trace e \<in> gone_traces P s}}"

lemma delete_traces_rows:
  fixes P :: "TraceRow \<Rightarrow> bool"
  assumes ok: "chain_ok s"
  defines "T \<equiv> gone_traces P s" and "R \<equiv> gone_revisions P s" and "G \<equiv> gone_observations P s" and "s' \<equiv> delete_traces P s"
  shows "trimmed (\<lambda>k. snd k \<notin> R \<and> fst k \<notin> ob_ID ` G) s s'"
    "observations s' = filter (\<lambda>q. q \<notin> G) (observations s)" "events s' = filter (\<lambda>e. ev_Trace e \<notin> T) (events s)"
    "traces s' = filter (\<lambda>t. \<not> P t) (traces s)" "revisions s' = filter (\<lambda>r. v_Trace r \<notin> T) (revisions s)"
    "eventSeq s' = eventSeq s"
proof -
  define sA where "sA = s\<lparr>traces := delete_where P (traces s), aliases := delete_where (\<lambda>a. al_Trace a \<in> T) (aliases s)\<rparr>"
  define sB where "sB = delete_revisions (\<lambda>r. v_Trace r \<in> T) sA"
  define sC where "sC = delete_events (\<lambda>e. ev_Trace e \<in> T) sB"
  have T: "set (map t_ID (filter P (traces s))) = T" by (auto simp: T_def gone_traces_def)
  have eq: "s' = sC" by (simp add: s'_def delete_traces_def Let_def T [simplified] sC_def sB_def sA_def)
  have links: "links_ok s" using ok by (auto simp: chain_but_def)
  have R: "set (map v_ID (filter (\<lambda>r. v_Trace r \<in> T) (revisions s))) = R" by (auto simp: R_def gone_revisions_def T_def)
  let ?sA' = "sA\<lparr>revisions := delete_where (\<lambda>r. v_Trace r \<in> T) (revisions s),
              revision_machines := delete_where (\<lambda>(r, _). r \<in> R) (revision_machines s),
              revision_objects := delete_where (\<lambda>q. ro_Revision q \<in> R) (revision_objects s),
              runs := delete_where (\<lambda>q. nr_Revision q \<in> R) (runs s)\<rparr>"
  have sB: "sB = delete_observation_revisions (\<lambda>x. or_Revision x \<in> R) ?sA'"
    by (simp add: sB_def delete_revisions_def Let_def R [simplified] sA_def)
  have "trimmed (\<lambda>k. snd k \<notin> R) ?sA' sB"
    unfolding sB by (rule delete_links_trimmed) (use hung_ok [OF ok] in \<open>simp_all add: hung_def link_keys_def sA_def\<close>)
  then have cutB: "trimmed (\<lambda>k. snd k \<notin> R) s sB" by (simp add: trimmed_def sA_def)
  have B: "observations sB = observations s" "events sB = events s" "eventSeq sB = eventSeq s"
    "traces sB = filter (\<lambda>t. \<not> P t) (traces s)" "revisions sB = filter (\<lambda>r. v_Trace r \<notin> T) (revisions s)"
    by (simp_all add: sB delete_observation_revisions_frame sA_def delete_where_def)
  have G: "{q \<in> set (observations s). ob_Event q \<in> ev_ID ` {e \<in> set (events s). ev_Trace e \<in> T}} = G"
    by (simp add: G_def gone_observations_def T_def)
  have "\<forall>c \<in> set (chunks sB). \<exists>q \<in> set (observations sB). ob_ID q = c_Observation c \<and> ob_Event q = c_Event c"
    using cutB links_okD(8) [OF links] B(1) by (simp add: trimmed_def)
  note C = delete_events_rows [OF trimmed_hung [OF cutB hung_ok [OF ok]] this, of "\<lambda>e. ev_Trace e \<in> T", folded sC_def, unfolded B G]
  show "trimmed (\<lambda>k. snd k \<notin> R \<and> fst k \<notin> ob_ID ` G) s s'" unfolding eq by (rule trimmed_trans [OF cutB C(1)])
  show "observations s' = filter (\<lambda>q. q \<notin> G) (observations s)" "events s' = filter (\<lambda>e. ev_Trace e \<notin> T) (events s)"
    "traces s' = filter (\<lambda>t. \<not> P t) (traces s)" "revisions s' = filter (\<lambda>r. v_Trace r \<notin> T) (revisions s)"
    "eventSeq s' = eventSeq s"
    using C(2-6) by (simp_all add: eq)
qed

text \<open>An observation goes with its event, a link with its revision, and both are of the same trace.\<close>

lemma gone_linked:
  assumes ok: "chain_ok s" and k: "(ob_ID q, j) \<in> set (link_keys s)" "q \<in> set (observations s)"
  shows "j \<in> gone_revisions P s \<longleftrightarrow> q \<in> gone_observations P s" and "ob_ID q \<in> ob_ID ` gone_observations P s \<longleftrightarrow> q \<in> gone_observations P s"
proof -
  have d: "distinct (map ob_ID (observations s))" "distinct (map ev_ID (events s))" and links: "links_ok s"
    using ok by (auto simp: chain_but_def keys_ok_def)
  obtain q' e r where h: "q' \<in> set (observations s)" "e \<in> set (events s)" "r \<in> set (revisions s)" "ob_ID q' = ob_ID q"
    "ob_Event q' = ev_ID e" "v_ID r = j" "ev_Trace e = v_Trace r" using links_okD(5) [OF links k(1)] by blast
  have q: "q' = q" using distinct_map_eq [OF d(1) h(1) k(2) h(4)] .
  have one: "ev_Trace e' = v_Trace r'" if "e' \<in> set (events s)" "ob_Event q = ev_ID e'" "r' \<in> set (revisions s)" "v_ID r' = j" for e' r'
    using link_trace [OF ok k that] .
  show "j \<in> gone_revisions P s \<longleftrightarrow> q \<in> gone_observations P s"
  proof
    assume "j \<in> gone_revisions P s"
    then obtain r' where r': "r' \<in> set (revisions s)" "v_ID r' = j" "v_Trace r' \<in> gone_traces P s" by (auto simp: gone_revisions_def)
    have "ev_Trace e \<in> gone_traces P s" using one [of e r'] h q r' by simp
    then show "q \<in> gone_observations P s" using h(2, 5) q k(2) by (auto simp: gone_observations_def)
  next
    assume "q \<in> gone_observations P s"
    then obtain e' where e': "e' \<in> set (events s)" "ob_Event q = ev_ID e'" "ev_Trace e' \<in> gone_traces P s" by (auto simp: gone_observations_def)
    have "v_Trace r \<in> gone_traces P s" using one [of e' r] h(3, 6) e' by simp
    then show "j \<in> gone_revisions P s" using h(3, 6) by (auto simp: gone_revisions_def)
  qed
  show "ob_ID q \<in> ob_ID ` gone_observations P s \<longleftrightarrow> q \<in> gone_observations P s"
    using distinct_map_eq [OF d(1) k(2)] by (auto simp: gone_observations_def)
qed

lemma delete_traces_ok:
  assumes ok: "chain_ok s"
  shows "chain_ok (delete_traces P s)"
proof -
  note C = delete_traces_rows [OF ok, of P]
  define s' T R G where "s' = delete_traces P s" "T = gone_traces P s" "R = gone_revisions P s" "G = gone_observations P s"
  note C = C [folded s'_T_R_G_def] and gone = gone_linked [OF ok, of _ _ P, folded s'_T_R_G_def]
  have keys: "keys_ok s" and links: "links_ok s" using ok by (auto simp: chain_but_def)
  have trace: "i \<in> t_ID ` set (traces s')" if "i \<in> t_ID ` set (traces s)" "i \<notin> T" for i
    using that C(4) by (auto simp: s'_T_R_G_def gone_traces_def)
  have own: "q \<in> G \<longleftrightarrow> ev_Trace e \<in> T" if "e \<in> set (events s)" "q \<in> set (observations s)" "ob_Event q = ev_ID e" for e q
    using distinct_map_eq [of ev_ID "events s" _ e] keys that by (auto simp: s'_T_R_G_def gone_observations_def keys_ok_def)
  show ?thesis
    unfolding s'_T_R_G_def(1) [symmetric]
  proof (rule chain_but_trimmed [OF ok C(1-3, 6)])
    show "distinct (map t_ID (traces s'))" "distinct (map (\<lambda>t. (t_Harness t, t_NativeTraceID t)) (traces s'))"
      "distinct (map v_ID (revisions s'))" "distinct (map (\<lambda>r. (v_Trace r, v_Digest r)) (revisions s'))"
      using keys by (auto simp: C(4, 5) keys_ok_def distinct_map_filter)
    show "v_Trace r \<in> t_ID ` set (traces s')" if "r \<in> set (revisions s')" for r
      using that trace links_okD(1) [OF links, of r] C(5) by auto
    show "\<exists>j. (ob_ID q, j) \<in> set (link_keys s) \<and> snd (ob_ID q, j) \<notin> R \<and> fst (ob_ID q, j) \<notin> ob_ID ` G" if q: "q \<in> set (observations s)" "q \<notin> G" for q
    proof -
      obtain j where j: "(ob_ID q, j) \<in> set (link_keys s)" using links_okD(4) [OF links q(1)] by force
      then show ?thesis using gone [OF j q(1)] q(2) by auto
    qed
    show "q \<notin> G" if "q \<in> set (observations s)" "snd (ob_ID q, j) \<notin> R \<and> fst (ob_ID q, j) \<notin> ob_ID ` G" for q j
      using that by auto
    show "\<exists>r' \<in> set (revisions s'). v_ID r' = j \<and> v_Trace r' = v_Trace r" if "snd (i, j) \<notin> R \<and> fst (i, j) \<notin> ob_ID ` G" "r \<in> set (revisions s)" "v_ID r = j" for i j r
      using that C(5) by (auto simp: s'_T_R_G_def gone_revisions_def)
    show "q \<notin> G \<and> (snd (ob_ID q, j) \<notin> R \<and> fst (ob_ID q, j) \<notin> ob_ID ` G) \<and> filter (\<lambda>r. v_ID r = j) (revisions s') = filter (\<lambda>r. v_ID r = j) (revisions s)"
      if h: "e \<in> set (events s)" "ev_Trace e \<notin> T" "q \<in> set (observations s)" "ob_Event q = ev_ID e" "(ob_ID q, j) \<in> set (link_keys s)" for e q j
    proof -
      have q: "q \<notin> G" using own [OF h(1, 3, 4)] h(2) by simp
      then have j: "j \<notin> R" using gone(1) [OF h(5, 3)] by simp
      have "filter (\<lambda>r. v_ID r = j) (revisions s') = filter (\<lambda>r. v_ID r = j) (revisions s)"
        unfolding C(5) by (rule filter_cong_keep) (use j in \<open>auto simp: s'_T_R_G_def gone_revisions_def\<close>)
      with q j gone(2) [OF h(5, 3)] show ?thesis by simp
    qed
  qed (use own trace links_okD(2) [OF links] in auto)
qed

end
