(* ===== verification/StoreReindex.thy ===== *)
theory StoreReindex
  imports StoreKeep
begin

text \<open>
  Rewriting the search texts of a revision, by new metadata or a new title, keeps the index the index of the
  texts.
\<close>

subsection \<open>The chunks of a revision\<close>

definition rechunked :: "int \<Rightarrow> (int \<times> int \<times> string) list \<Rightarrow> ChunkRow list \<Rightarrow> ChunkRow list \<Rightarrow> bool" where
  "rechunked j texts rows rows' \<longleftrightarrow>
     (\<forall>x \<in> set texts. Chunks (snd (snd x)) = Some (contents rows' (fst x) j)) \<and>
     (\<forall>k' j'. j' \<noteq> j \<or> k' \<notin> fst ` set texts \<longrightarrow> contents rows' k' j' = contents rows k' j') \<and>
     (\<forall>c \<in> set rows'. c \<in> set rows \<or> c_Revision c = j \<and> (c_Observation c, c_Event c) \<in> (\<lambda>x. (fst x, fst (snd x))) ` set texts)"

lemma rechunked_row:
  "rechunked j texts rows rows' \<Longrightarrow> c \<in> set rows' \<Longrightarrow>
   c \<in> set rows \<or> c_Revision c = j \<and> (c_Observation c, c_Event c) \<in> (\<lambda>x. (fst x, fst (snd x))) ` set texts"
  by (simp add: rechunked_def)

lemma rechunk_rows:
  "rechunk j texts rows = Inr rows' \<Longrightarrow> distinct (map fst texts) \<Longrightarrow> \<forall>x \<in> set texts. contents rows (fst x) j = [] \<Longrightarrow>
   rechunked j texts rows rows'"
proof (induction j texts rows rule: rechunk.induct)
  case (2 j k i t texts rows)
  from "2.prems"(1) obtain rows1 where r: "insert_chunks k j i t rows = Inr rows1" "rechunk j texts rows1 = Inr rows'"
    by (auto simp: bind_result_Inr_iff)
  note ins = insert_chunks_index [OF r(1)]
  have d: "distinct (map fst texts)" "k \<notin> fst ` set texts" using "2.prems"(2) by auto
  have "contents rows1 (fst x) j = []" if "x \<in> set texts" for x
  proof -
    have "fst x \<noteq> k" using d(2) that by auto
    then show ?thesis using ins(2) [of "fst x" j] "2.prems"(3) that by simp
  qed
  then have ih: "rechunked j texts rows1 rows'" using "2.IH" [OF r(2) d(1)] by blast
  have "Chunks t = Some (contents rows1 k j)" using ins(1) "2.prems"(3) by simp
  then have own: "Chunks t = Some (contents rows' k j)" using ih d(2) by (simp add: rechunked_def)
  have other: "contents rows' k' j' = contents rows k' j'" if "j' \<noteq> j \<or> k' \<notin> fst ` set ((k, i, t) # texts)" for k' j'
  proof -
    have "(k', j') \<noteq> (k, j)" "j' \<noteq> j \<or> k' \<notin> fst ` set texts" using that by auto
    then show ?thesis using ih ins(2) [of k' j'] by (simp add: rechunked_def)
  qed
  have rows: "c \<in> set rows \<or> c_Revision c = j \<and> (c_Observation c, c_Event c) \<in> (\<lambda>x. (fst x, fst (snd x))) ` set ((k, i, t) # texts)"
    if "c \<in> set rows'" for c
  proof -
    from rechunked_row [OF ih that] consider "c \<in> set rows1"
      | "c_Revision c = j \<and> (c_Observation c, c_Event c) \<in> (\<lambda>x. (fst x, fst (snd x))) ` set texts"
      by argo
    then show ?thesis
    proof cases
      case 1
      with ins(3) have "c \<in> set rows \<or> (c_Observation c, c_Revision c, c_Event c) = (k, j, i)" by blast
      then show ?thesis by force
    qed simp
  qed
  have "Chunks (snd (snd x)) = Some (contents rows' (fst x) j)" if "x \<in> set ((k, i, t) # texts)" for x
    using own ih that unfolding rechunked_def by auto
  with other rows show ?case unfolding rechunked_def by (intro conjI ballI allI impI)
qed (simp add: rechunked_def)

text \<open>The texts of all observations of the revision \<open>j\<close> and no others.\<close>

definition revision_list :: "Store \<Rightarrow> int \<Rightarrow> (int \<times> int \<times> string) list \<Rightarrow> bool" where
  "revision_list s j texts \<longleftrightarrow> distinct (map fst texts) \<and> fst ` set texts = {k. (k, j) \<in> set (link_keys s)} \<and>
     (\<forall>x \<in> set texts. \<exists>q \<in> set (observations s). ob_ID q = fst x \<and> ob_Event q = fst (snd x))"

lemma contents_deleted: "contents (delete_where (\<lambda>c. c_Revision c = j) rows) k j' = (if j' = j then [] else contents rows k j')"
  by (auto simp: contents_def delete_where_def filter_empty_conv intro: arg_cong [of _ _ "map c_Content"] filter_cong)

lemma reindexed_ok:
  assumes ok: "chain_but D s" and texts: "revision_list s j texts"
    and run: "rechunk j texts (delete_where (\<lambda>c. c_Revision c = j) (chunks s)) = Inr (chunks s')"
    and keys: "link_keys s' = link_keys s"
    and rows: "\<And>x. x \<in> set (observation_revisions s') \<Longrightarrow> or_Revision x \<noteq> j \<Longrightarrow> x \<in> set (observation_revisions s)"
      "\<And>x. x \<in> set (observation_revisions s') \<Longrightarrow> or_Revision x = j \<Longrightarrow> (or_Observation x, or_Text x) \<in> (\<lambda>x. (fst x, snd (snd x))) ` set texts"
    and same: "traces s' = traces s" "revisions s' = revisions s" "events s' = events s" "eventSeq s' = eventSeq s"
      "observations s' = observations s" "observation_sources s' = observation_sources s"
  shows "chain_but D s'"
proof -
  note ok = ok [unfolded chain_but_def]
  have links: "links_ok s" using ok by simp
  have re: "rechunked j texts (delete_where (\<lambda>c. c_Revision c = j) (chunks s)) (chunks s')"
    using rechunk_rows [OF run] texts by (simp add: revision_list_def contents_deleted)
  have pref: "preferred_observation s' i = preferred_observation s i" for i
    using same keys by (intro preferred_observation_tables) simp_all
  have "keys_ok s'" using ok same keys by (simp add: keys_ok_def)
  moreover have "links_ok s'"
    unfolding links_ok_def keys same
  proof (intro conjI ballI)
    fix c assume c: "c \<in> set (chunks s')"
    have "c \<in> set (chunks s) \<or> c_Revision c = j \<and> (c_Observation c, c_Event c) \<in> (\<lambda>x. (fst x, fst (snd x))) ` set texts"
      using re c unfolding rechunked_def by fastforce
    then consider "c \<in> set (chunks s)" | x where "c_Revision c = j" "x \<in> set texts" "c_Observation c = fst x" "c_Event c = fst (snd x)"
      by auto
    then have "(c_Observation c, c_Revision c) \<in> set (link_keys s) \<and>
        (\<exists>q \<in> set (observations s). ob_ID q = c_Observation c \<and> ob_Event q = c_Event c)"
    proof cases
      case 1
      then show ?thesis using links_okD(7, 8) [OF links, of c] by blast
    next
      case 2
      have "fst x \<in> {k. (k, j) \<in> set (link_keys s)}" using texts 2(2) unfolding revision_list_def by blast
      moreover have "\<exists>q \<in> set (observations s). ob_ID q = fst x \<and> ob_Event q = fst (snd x)"
        using texts 2(2) unfolding revision_list_def by blast
      ultimately show ?thesis using 2 by simp
    qed
    then show "(c_Observation c, c_Revision c) \<in> set (link_keys s)" "\<exists>q \<in> set (observations s). ob_ID q = c_Observation c \<and> ob_Event q = c_Event c"
      by simp_all
  qed (use links_okD(1-6) [OF links] in \<open>auto simp: split_beta\<close>)
  moreover have "index_ok s'"
    unfolding index_ok_def
  proof
    fix x assume x: "x \<in> set (observation_revisions s')"
    show "Chunks (or_Text x) = Some (contents (chunks s') (or_Observation x) (or_Revision x))"
    proof (cases "or_Revision x = j")
      case True
      with rows(2) [OF x] re show ?thesis unfolding rechunked_def by auto
    next
      case False
      with rows(1) [OF x] re ok show ?thesis by (simp add: rechunked_def index_ok_def contents_deleted)
    qed
  qed
  moreover have "preferred_but D s'" using ok same pref by (simp add: preferred_but_def)
  ultimately show ?thesis by (simp add: chain_but_def)
qed

subsection \<open>Backfilled metadata\<close>

lemma link_row:
  assumes "keys_ok s" "links_ok s" "x \<in> set (observation_revisions s)"
  obtains q where "q \<in> set (observations s)" "filter (\<lambda>q. ob_ID q = or_Observation x) (observations s) = [q]" "ob_ID q = or_Observation x"
proof -
  have "(or_Observation x, or_Revision x) \<in> set (link_keys s)" using assms(3) by (simp add: link_keys_def)
  then obtain q where q: "q \<in> set (observations s)" "ob_ID q = or_Observation x" using links_okD(5) [OF assms(2)] by blast
  have "filter (\<lambda>q'. ob_ID q = ob_ID q') (observations s) = [q]"
    using assms(1) q(1) by (intro filter_key_distinct) (simp_all add: keys_ok_def)
  moreover have "filter (\<lambda>q'. ob_ID q = ob_ID q') (observations s) = filter (\<lambda>q. ob_ID q = or_Observation x) (observations s)"
    using q(2) by (intro filter_cong) auto
  ultimately show thesis using that q by simp
qed

lemma concat_map_single: "(\<And>x. x \<in> set xs \<Longrightarrow> f x = [g x]) \<Longrightarrow> concat (map f xs) = map g xs"
  by (induction xs) auto

text \<open>The rows a revision's links lead to, one for each.\<close>

definition linked :: "Store \<Rightarrow> ObservationRevisionRow \<Rightarrow> ObservationRow" where
  "linked s x = hd (filter (\<lambda>q. ob_ID q = or_Observation x) (observations s))"

definition links_of :: "Store \<Rightarrow> int \<Rightarrow> ObservationRevisionRow list" where
  "links_of s j = filter (\<lambda>x. or_Revision x = j) (observation_revisions s)"

lemma linked_row:
  assumes "keys_ok s" "links_ok s" "x \<in> set (observation_revisions s)"
  shows "filter (\<lambda>q. ob_ID q = or_Observation x) (observations s) = [linked s x]"
    and "linked s x \<in> set (observations s)" and "ob_ID (linked s x) = or_Observation x"
  using link_row [OF assms] by (simp_all add: linked_def) (metis list.sel(1))+

lemma revision_rows:
  assumes "keys_ok s" "links_ok s"
  shows "revision_observations s j = map (linked s) (links_of s j)"
    and "revision_texts j s = map (\<lambda>x. (or_Observation x, ob_Event (linked s x), or_Text x)) (links_of s j)"
  unfolding revision_observations_def revision_texts_def links_of_def
  by (rule concat_map_single; simp add: linked_row [OF assms])+

lemma distinct_links_of: "keys_ok s \<Longrightarrow> distinct (map or_Observation (links_of s j))"
proof -
  assume "keys_ok s"
  then have "distinct (map (\<lambda>x. (or_Observation x, or_Revision x)) (links_of s j))"
    by (simp add: keys_ok_def link_keys_def links_of_def distinct_map_filter)
  then show ?thesis by (auto simp: distinct_map inj_on_def links_of_def)
qed

lemma set_links_of: "or_Observation ` set (links_of s j) = {k. (k, j) \<in> set (link_keys s)}"
  by (force simp: links_of_def link_keys_def)

lemma revision_list_links:
  assumes "keys_ok s" "links_ok s"
  shows "revision_list s j (map (\<lambda>x. (or_Observation x, ob_Event (linked s x), f x)) (links_of s j))"
proof -
  have "\<exists>q \<in> set (observations s). ob_ID q = or_Observation x \<and> ob_Event q = ob_Event (linked s x)" if "x \<in> set (links_of s j)" for x
    using linked_row [OF assms, of x] that unfolding links_of_def by auto
  then show ?thesis
    using distinct_links_of [OF assms(1), of j] set_links_of [of s j]
    by (simp add: revision_list_def comp_def image_image)
qed

lemma append_search_text_links:
  "link_keys (append_search_text j t s) = link_keys s"
  "links_of (append_search_text j t s) j = map (\<lambda>x. x\<lparr>or_Text := or_Text x @ newline @ t\<rparr>) (links_of s j)"
proof -
  show "link_keys (append_search_text j t s) = link_keys s"
    by (simp add: link_keys_def append_search_text_def update_where_key)
  have "filter (\<lambda>x. or_Revision x = j) (update_where (\<lambda>x. or_Revision x = j) (\<lambda>x. x\<lparr>or_Text := or_Text x @ newline @ t\<rparr>) rows) =
      map (\<lambda>x. x\<lparr>or_Text := or_Text x @ newline @ t\<rparr>) (filter (\<lambda>x. or_Revision x = j) rows)" for rows
    by (induction rows) (simp_all add: update_where_def)
  then show "links_of (append_search_text j t s) j = map (\<lambda>x. x\<lparr>or_Text := or_Text x @ newline @ t\<rparr>) (links_of s j)"
    by (simp add: links_of_def append_search_text_def)
qed

lemma reindex_chunks_ok:
  assumes ok: "chain_but D s" and run: "reindex_chunks j (append_search_text j t s) = Inr s'"
  shows "chain_but D s'"
proof -
  let ?s = "append_search_text j t s" and ?f = "\<lambda>x. or_Text x @ newline @ t"
  have wf: "keys_ok s" "links_ok s" using ok by (simp_all add: chain_but_def)
  have same: "traces ?s = traces s" "revisions ?s = revisions s" "events ?s = events s" "eventSeq ?s = eventSeq s"
    "observations ?s = observations s" "observation_sources ?s = observation_sources s" "chunks ?s = chunks s"
    by (simp_all add: append_search_text_def)
  have rows: "revision_texts j ?s = map (\<lambda>x. (or_Observation x, ob_Event (linked s x), ?f x)) (links_of s j)"
  proof -
    have "filter (\<lambda>q. ob_ID q = or_Observation x) (observations s) = [linked s x]" if "x \<in> set (links_of s j)" for x
      using linked_row(1) [OF wf] that by (simp add: links_of_def)
    then have "concat (map (\<lambda>x. map (\<lambda>q. (or_Observation x, ob_Event q, or_Text x)) (filter (\<lambda>q. ob_ID q = or_Observation x) (observations s)))
          (map (\<lambda>x. x\<lparr>or_Text := ?f x\<rparr>) (links_of s j))) =
        map (\<lambda>x. (or_Observation x, ob_Event (linked s x), ?f x)) (links_of s j)"
      unfolding map_map by (intro concat_map_single) simp
    then show ?thesis
      using append_search_text_links(2) [of j t s] by (simp add: revision_texts_def links_of_def same)
  qed
  obtain rows' where s': "rechunk j (revision_texts j ?s) (delete_where (\<lambda>c. c_Revision c = j) (chunks s)) = Inr rows'" "s' = ?s\<lparr>chunks := rows'\<rparr>"
    using run by (auto simp: reindex_chunks_def bind_result_Inr_iff same)
  show ?thesis
  proof (rule reindexed_ok [OF ok])
    show "revision_list s j (revision_texts j ?s)" unfolding rows by (rule revision_list_links [OF wf])
    show "link_keys s' = link_keys s" using append_search_text_links(1) [of j t s] by (simp add: s'(2) link_keys_def)
    fix x assume x: "x \<in> set (observation_revisions s')"
    then obtain y where y: "y \<in> set (observation_revisions s)"
      "x = (if or_Revision y = j then y\<lparr>or_Text := ?f y\<rparr> else y)"
      by (auto simp: s'(2) append_search_text_def set_update_where)
    show "x \<in> set (observation_revisions s)" if "or_Revision x \<noteq> j" using y that by (auto split: if_splits)
    show "(or_Observation x, or_Text x) \<in> (\<lambda>x. (fst x, snd (snd x))) ` set (revision_texts j ?s)" if "or_Revision x = j"
      using y that unfolding rows by (force simp: links_of_def split: if_splits)
  qed (simp_all add: s' same)
qed

lemma update_trace_ok:
  assumes "chain_but D s" "\<And>t. t_ID (f t) = t_ID t \<and> t_Harness (f t) = t_Harness t \<and> t_NativeTraceID (f t) = t_NativeTraceID t"
  shows "chain_but D (s\<lparr>traces := update_where P f (traces s)\<rparr>)"
  by (rule chain_but_update_trace [OF assms]) simp_all

lemma fill_column_ok:
  assumes "chain_but D s" "fill_column c f i u s = (s', b)"
    "\<And>t. t_ID (f t) = t_ID t \<and> t_Harness (f t) = t_Harness t \<and> t_NativeTraceID (f t) = t_NativeTraceID t"
  shows "chain_but D s'"
  using assms(2) update_trace_ok [OF assms(1, 3)] by (auto simp: fill_column_def Let_def)

lemma fill_metadata_ok:
  assumes ok: "chain_but D s" and run: "fill_metadata m i d s = Inr (s', texts)"
  shows "chain_but D s'"
proof -
  let ?u = "canonicalTime (d_NativeUpdatedAt d)"
  obtain s1 a where s1: "(if d_Title d = [] then (s, False) else fill_column t_Title (\<lambda>t. t\<lparr>t_Title := d_Title d\<rparr>) i ?u s) = (s1, a)"
    by force
  obtain s2 b where s2: "(if d_WorkingDirectory d = [] then (s1, False)
      else fill_column t_WorkingDirectory (\<lambda>t. t\<lparr>t_WorkingDirectory := d_WorkingDirectory d\<rparr>) i ?u s1) = (s2, b)" by force
  have ok1: "chain_but D s1" using s1 ok by (auto split: if_splits intro: fill_column_ok)
  have ok2: "chain_but D s2" using s2 ok1 by (auto split: if_splits intro: fill_column_ok)
  consider "s' = s2" | s3 r where "upsertRepository m (d_Repository d) s2 = Inr (s3, r)"
      "s' = update_trace i (\<lambda>t. t\<lparr>t_Repository := r\<rparr>) s3"
    using run by (auto simp: fill_metadata_def Let_def s1 s2 bind_result_Inr_iff split: if_splits)
  then show ?thesis
  proof cases
    case 2
    have "chain_but D s3" using chain_but_same [OF ok2 upsertRepository_same [OF 2(1)]] .
    then show ?thesis unfolding 2(2) update_trace_def by (rule update_trace_ok) simp
  qed (use ok2 in simp)
qed

lemma backfill_ok:
  assumes "chain_but D s" "backfillMissingTraceMetadata i j m d s = Inr (s', b)"
  shows "chain_but D s'"
proof (cases "d_Title d = [] \<and> d_WorkingDirectory d = [] \<and> d_Repository d = zero_Repository")
  case False
  then obtain s1 texts where s1: "fill_metadata m i d s = Inr (s1, texts)"
    "(if texts = [] then Inr (s, False)
      else bind_result (reindex_chunks j (append_search_text j (Join texts newline) s1)) (\<lambda>s. Inr (s, True))) = Inr (s', b)"
    using assms(2) by (auto simp: backfillMissingTraceMetadata_def bind_result_Inr_iff)
  with fill_metadata_ok [OF assms(1) s1(1)] assms(1) show ?thesis
    by (auto simp: bind_result_Inr_iff split: if_splits intro: reindex_chunks_ok)
qed (use assms in \<open>simp add: backfillMissingTraceMetadata_def\<close>)

subsection \<open>Titles\<close>

lemma observation_texts_keys:
  "observation_texts s j labels qs = Inr texts \<Longrightarrow> map (\<lambda>x. (fst x, fst (snd x))) texts = map (\<lambda>q. (ob_ID q, ob_Event q)) qs"
  by (induction s j labels qs arbitrary: texts rule: observation_texts.induct) (auto simp: bind_result_Inr_iff Let_def)

lemma set_search_text_other:
  "x \<in> set (foldl (\<lambda>rows item. set_search_text j item rows) rows texts) \<Longrightarrow> or_Revision x \<noteq> j \<Longrightarrow> x \<in> set rows"
  by (induction texts arbitrary: rows) (fastforce simp: set_search_text_def set_update_where split: prod.splits if_splits)+

lemma set_search_text_keys:
  "map (\<lambda>x. (or_Observation x, or_Revision x)) (foldl (\<lambda>rows item. set_search_text j item rows) rows texts) =
   map (\<lambda>x. (or_Observation x, or_Revision x)) rows"
  by (induction texts arbitrary: rows) (simp_all add: set_search_text_def update_where_key split: prod.split)

lemma set_search_text_one:
  assumes "x \<in> set (set_search_text j t rows)" "or_Revision x = j"
  shows "(or_Observation x, or_Text x) = (fst t, snd (snd t)) \<or> x \<in> set rows \<and> or_Observation x \<noteq> fst t"
proof -
  obtain k i w where t: "t = (k, i, w)" by (cases t) auto
  obtain y where "y \<in> set rows" "x = (if or_Observation y = k \<and> or_Revision y = j then y\<lparr>or_Text := w\<rparr> else y)"
    using assms(1) by (auto simp: set_search_text_def t set_update_where)
  with assms(2) show ?thesis by (auto simp: t split: if_splits)
qed

lemma set_search_text_own:
  "x \<in> set (foldl (\<lambda>rows item. set_search_text j item rows) rows texts) \<Longrightarrow> or_Revision x = j \<Longrightarrow>
   (or_Observation x, or_Text x) \<in> (\<lambda>x. (fst x, snd (snd x))) ` set texts \<or> x \<in> set rows \<and> or_Observation x \<notin> fst ` set texts"
proof (induction texts arbitrary: rows)
  case (Cons t texts)
  from Cons.IH [OF Cons.prems(1) [simplified] Cons.prems(2)] show ?case
  proof
    assume a: "x \<in> set (set_search_text j t rows) \<and> or_Observation x \<notin> fst ` set texts"
    from set_search_text_one [OF conjunct1 [OF a] Cons.prems(2)] show ?thesis
    proof
      assume "(or_Observation x, or_Text x) = (fst t, snd (snd t))"
      then show ?thesis by simp
    qed (use a in simp)
  qed simp
qed simp

lemma reindexRevisionSearch_ok:
  assumes ok: "chain_but D s" and run: "reindexRevisionSearch j labels s = Inr s'"
  shows "chain_but D s'"
proof -
  have wf: "keys_ok s" "links_ok s" using ok by (simp_all add: chain_but_def)
  obtain texts rows where t: "observation_texts s j labels (revision_observations s j) = Inr texts"
    and rows: "rechunk j texts (delete_where (\<lambda>c. c_Revision c = j) (chunks s)) = Inr rows"
    and s': "s' = s\<lparr>observation_revisions := foldl (\<lambda>rows item. set_search_text j item rows) (observation_revisions s) texts, chunks := rows\<rparr>"
    using run by (auto simp: reindexRevisionSearch_def bind_result_Inr_iff)
  have keys: "map (\<lambda>x. (fst x, fst (snd x))) texts = map (\<lambda>x. (or_Observation x, ob_Event (linked s x))) (links_of s j)"
    using observation_texts_keys [OF t] linked_row(3) [OF wf] unfolding revision_rows [OF wf] by (auto simp: links_of_def)
  have list: "revision_list s j texts"
  proof -
    have "map fst texts = map or_Observation (links_of s j)"
      using arg_cong [OF keys, of "map fst"] by (simp add: comp_def)
    moreover from this have "fst ` set texts = or_Observation ` set (links_of s j)" by (metis list.set_map)
    moreover have "\<exists>q \<in> set (observations s). ob_ID q = fst x \<and> ob_Event q = fst (snd x)" if x: "x \<in> set texts" for x
    proof -
      have "(fst x, fst (snd x)) \<in> (\<lambda>x. (or_Observation x, ob_Event (linked s x))) ` set (links_of s j)"
        using x keys by (metis (mono_tags, lifting) image_eqI list.set_map)
      then obtain y where y: "y \<in> set (observation_revisions s)" "fst x = or_Observation y" "fst (snd x) = ob_Event (linked s y)"
        by (auto simp: links_of_def)
      show ?thesis using linked_row(2, 3) [OF wf y(1)] y(2, 3) by auto
    qed
    ultimately show ?thesis using distinct_links_of [OF wf(1)] set_links_of [of s j] by (simp add: revision_list_def)
  qed
  show ?thesis
  proof (rule reindexed_ok [OF ok list])
    show "rechunk j texts (delete_where (\<lambda>c. c_Revision c = j) (chunks s)) = Inr (chunks s')" using rows s' by simp
    show keys': "link_keys s' = link_keys s" unfolding link_keys_def s' by (simp add: set_search_text_keys)
    fix x assume x: "x \<in> set (observation_revisions s')"
    show "x \<in> set (observation_revisions s)" if "or_Revision x \<noteq> j" using x that set_search_text_other unfolding s' by simp
    show "(or_Observation x, or_Text x) \<in> (\<lambda>x. (fst x, snd (snd x))) ` set texts" if j: "or_Revision x = j"
    proof -
      have "(or_Observation x, or_Revision x) \<in> set (link_keys s')" using x by (simp add: link_keys_def)
      then have "(or_Observation x, or_Revision x) \<in> set (link_keys s)" unfolding keys' .
      then have "or_Observation x \<in> fst ` set texts" using list j unfolding revision_list_def by auto
      then show ?thesis using set_search_text_own [of x j "observation_revisions s" texts] x j unfolding s' by auto
    qed
  qed (simp_all add: s')
qed

lemma reindex_each_ok: "chain_but D s \<Longrightarrow> reindex_each labels js s = Inr s' \<Longrightarrow> chain_but D s'"
  by (induction labels js s rule: reindex_each.induct) (auto simp: bind_result_Inr_iff dest: reindexRevisionSearch_ok)

lemma reindexTraceSearch_ok: "chain_but D s \<Longrightarrow> reindexTraceSearch i s = Inr s' \<Longrightarrow> chain_but D s'"
  by (auto simp: reindexTraceSearch_def bind_result_Inr_iff dest: reindex_each_ok)

lemma SetTitleOverride_ok:
  assumes "chain_but D s" "SetTitleOverride i title s = Inr s'"
  shows "chain_but D s'"
proof -
  obtain title' where "reindexTraceSearch i (update_trace i (\<lambda>t. t\<lparr>t_TitleOverride := title'\<rparr>) s) = Inr s'"
    using assms(2) by (auto simp: SetTitleOverride_def setTitleOverride_def bind_result_Inr_iff split: if_splits)
  then show ?thesis
    by (rule reindexTraceSearch_ok [rotated]) (use update_trace_ok [OF assms(1)] in \<open>simp add: update_trace_def\<close>)
qed

lemma SetGeneratedTitle_ok:
  assumes ok: "chain_but D s" and run: "SetGeneratedTitle i j title s = Inr s'"
  shows "chain_but D s'"
proof -
  define set_title where "set_title = (\<lambda>t (r :: TraceRow). r\<lparr>t_GeneratedTitle := t, t_GeneratedRevision := j\<rparr>)"
  obtain t P where "s' = s \<or> s' = s\<lparr>traces := update_where P (set_title t) (traces s)\<rparr> \<or>
      reindexTraceSearch i (s\<lparr>traces := update_where P (set_title t) (traces s)\<rparr>) = Inr s'"
    using run by (auto simp: SetGeneratedTitle_def Let_def bind_result_Inr_iff set_title_def split: if_splits)
  moreover have "chain_but D (s\<lparr>traces := update_where P (set_title t) (traces s)\<rparr>)"
    by (rule update_trace_ok [OF ok]) (simp add: set_title_def)
  ultimately show ?thesis using ok reindexTraceSearch_ok by blast
qed

end
