(* ===== verification/StoreReach.thy ===== *)
theory StoreReach
  imports StoreReindex
begin

text \<open>
  The transitions of the store, and what holds of every store that a sequence of operations leads to.
\<close>

subsection \<open>Importing\<close>

lemma upsertRepository_revisions: "upsertRepository m r s = Inr (s', i) \<Longrightarrow> revisions s' = revisions s"
  using upsertRepository_same by (simp add: same_chain_def)

lemma fill_metadata_revisions:
  assumes "fill_metadata m i d s = Inr (s', texts)"
  shows "revisions s' = revisions s"
  using assms
  by (auto simp: fill_metadata_def fill_column_def update_trace_def Let_def bind_result_Inr_iff upsertRepository_revisions
      split: if_splits)

lemma backfill_revisions: "backfillMissingTraceMetadata i j m d s = Inr (s', b) \<Longrightarrow> revisions s' = revisions s"
  by (auto simp: backfillMissingTraceMetadata_def bind_result_Inr_iff reindex_chunks_def append_search_text_def
      dest: fill_metadata_revisions split: if_splits)

abbreviation has_revision :: "Store \<Rightarrow> int \<Rightarrow> int \<Rightarrow> bool" where
  "has_revision s j i \<equiv> \<exists>r \<in> set (revisions s). v_ID r = j \<and> v_Trace r = i"

lemma recordRun_ok: "chain_but D s \<Longrightarrow> chain_but D (recordRun j v st ws now s)"
  by (rule chain_but_same) (simp_all add: recordRun_def same_chain_def)

lemma retry_revision_ok:
  assumes "chain_ok s" "has_revision s j i"
  shows "chain_ok (fst (retry_revision now run d source i j out s))"
proof -
  obtain n e where n: "normalizeResult run d source = (n, e)" by force
  have "chain_ok s'" if "replaceRevisionEvents now i j labels n s = Inr (s', w)" for labels s' w
    using replaceRevisionEvents_ok [OF assms that] .
  then show ?thesis
    using assms(1) by (auto simp: retry_revision_def n Let_def recordRun_ok split: prod.split sum.split)
qed

lemma known_revision_ok:
  assumes "chain_ok s" "has_revision s j i"
  shows "chain_ok (fst (known_revision now run manifest d source j i status out s))"
proof -
  let ?s = "s\<lparr>revision_machines := insert_or_ignore id (j, m_ID (mf_SourceMachine manifest)) (revision_machines s)\<rparr>"
  have ok: "chain_ok ?s" by (rule chain_but_same [OF assms(1)]) (simp add: same_chain_def)
  have rev: "has_revision ?s j i" using assms(2) by simp
  show ?thesis
  proof (cases "backfillMissingTraceMetadata i j (m_ID (mf_SourceMachine manifest)) d ?s")
    case (Inr p)
    obtain s' b where p: "p = (s', b)" by force
    have b: "backfillMissingTraceMetadata i j (m_ID (mf_SourceMachine manifest)) d ?s = Inr (s', b)" using Inr p by simp
    have "has_revision s' j i" using rev backfill_revisions [OF b] by simp
    then show ?thesis
      using retry_revision_ok [OF backfill_ok [OF ok b]] backfill_ok [OF ok b] by (simp add: known_revision_def Let_def b)
  qed (simp add: known_revision_def Let_def ok)
qed

lemma new_revision_ok:
  assumes "chain_ok s"
  shows "chain_ok (fst (new_revision now run manifest d source stored out s))"
  using assms by (auto simp: new_revision_def split: prod.split sum.split dest: commitRevision_ok)

lemma find_revision_row: "find_revision s d = Some (j, i, status) \<Longrightarrow> has_revision s j i"
  by (auto simp: find_revision_def bind_eq_Some_conv dest!: find_SomeD)

lemma importTrace_ok:
  assumes "chain_ok s"
  shows "chain_ok (fst (importTrace now run manifest d sources s))"
proof (cases "Sub sources (d_Path d)")
  case (Inr source)
  obtain dir r where r: "storeObjects source (d_Files d) (objects_dir s) = (dir, r)" by force
  have ok: "chain_ok (s\<lparr>objects_dir := dir\<rparr>)" by (rule chain_but_same [OF assms]) (simp add: same_chain_def)
  show ?thesis
    using known_revision_ok [OF ok find_revision_row] new_revision_ok [OF ok] ok
    by (simp add: importTrace_def Inr r Let_def split: sum.split option.split)
qed (simp add: importTrace_def assms)

text \<open>What importing one trace keeps, and what does not depend on the tables of imports, an import keeps.\<close>

lemma import_traces_keep:
  assumes step: "\<And>s now run manifest d sources. P s \<Longrightarrow> P (fst (importTrace now run manifest d sources s))"
  shows "P (fst st) \<Longrightarrow> P (fst (import_traces clock run manifest sources n ds st))"
proof (induction clock run manifest sources n ds st rule: import_traces.induct)
  case (2 clock run manifest sources i d ds s report progress)
  obtain s' out where t: "importTrace (clock (i + 1)) run manifest d sources s = (s', out)" by force
  then have "P s'" using 2(2) step [of s "clock (i + 1)" run manifest d sources] by simp
  then show ?case using 2(1) [OF t [symmetric]] t by simp
qed simp

lemma Import_store:
  assumes "beginImport (zero_Report\<lparr>ir_CreatedAt := clock 0, ir_Machine := mf_SourceMachine manifest\<rparr>) s = (s1, r1)"
    and "import_traces clock run manifest sources 0 (mf_Traces manifest) (s1, r1, [normalizing 0 (length (mf_Traces manifest)) None]) = (s2, r2, p)"
  shows "\<exists>b e. fst (Import clock run manifest sources s) = s2\<lparr>imports_table := b, summaries := e, runningImport := 0\<rparr>"
proof -
  have eq: "fst (Import clock run manifest sources s) =
      (case finish_import (r2\<lparr>ir_Complete := True\<rparr>) s2 of Inl e \<Rightarrow> s2\<lparr>runningImport := 0\<rparr> | Inr s \<Rightarrow> s\<lparr>runningImport := 0\<rparr>)"
    by (simp add: Import_def Let_def assms split: sum.split)
  show ?thesis
  proof (cases "finish_import (r2\<lparr>ir_Complete := True\<rparr>) s2")
    case (Inl e)
    then show ?thesis using eq by (intro exI [of _ "imports_table s2"] exI [of _ "summaries s2"]) simp
  next
    case (Inr s3)
    then obtain b e where "s3 = s2\<lparr>imports_table := b, summaries := e\<rparr>" by (auto simp: finish_import_def bind_result_Inr_iff)
    then show ?thesis using Inr eq by (intro exI [of _ b] exI [of _ e]) simp
  qed
qed

lemma Import_keeps:
  assumes step: "\<And>s now run manifest d sources. P s \<Longrightarrow> P (fst (importTrace now run manifest d sources s))"
    and frame: "\<And>s a b c d e. P s \<Longrightarrow> P (s\<lparr>machines := a, imports_table := b, importSeq := c, summaries := e, runningImport := d\<rparr>)"
    and start: "P s"
  shows "P (fst (Import clock run manifest sources s))"
proof -
  define b where "b = beginImport (zero_Report\<lparr>ir_CreatedAt := clock 0, ir_Machine := mf_SourceMachine manifest\<rparr>) s"
  obtain s1 r1 where b: "b = (s1, r1)" by force
  obtain s2 r2 p where t: "import_traces clock run manifest sources 0 (mf_Traces manifest)
    (s1, r1, [normalizing 0 (length (mf_Traces manifest)) None]) = (s2, r2, p)" by (metis prod.collapse)
  have "P s1" using frame [OF start, where e = "summaries s"] b by (auto simp: b_def beginImport_def Let_def)
  then have "P s2" using import_traces_keep [of P "(s1, r1, _)", OF step] t by (metis fst_conv)
  moreover obtain b' e where "fst (Import clock run manifest sources s) = s2\<lparr>imports_table := b', summaries := e, runningImport := 0\<rparr>"
    using Import_store [where clock = clock and run = run and sources = sources, OF b [unfolded b_def] t] by blast
  ultimately show ?thesis using frame [of s2, where a = "machines s2" and b = b' and c = "importSeq s2" and d = 0 and e = e] by simp
qed

lemma Import_ok: "chain_ok s \<Longrightarrow> chain_ok (fst (Import clock run manifest sources s))"
  by (rule Import_keeps) (auto intro: importTrace_ok chain_but_same simp: same_chain_def)

subsection \<open>Maintenance\<close>

text \<open>Collecting touches the objects alone.\<close>

lemma gc_frame:
  assumes f: "\<And>s dir rows. f (s\<lparr>objects_dir := dir, source_objects := rows\<rparr>) = f s"
  shows "f (gc s) = f s"
proof -
  have objects: "f (foldl collect_object s qs) = f s" for s qs
    by (induction qs arbitrary: s) (auto simp: collect_object_def f)
  have "f (collect_unused s) = f s" for s
  proof (induction s rule: collect_unused.induct)
    case (1 s)
    define s' where "s' = foldl collect_object s (take 100 (unused_objects s))"
    have s': "f s' = f s" using objects by (simp add: s'_def)
    show ?case
    proof (cases "length (take 100 (unused_objects s)) < 100")
      case True
      then show ?thesis using s' by (subst collect_unused.simps) (simp only: Let_def s'_def if_True)
    next
      case False
      then show ?thesis
        using s' 1 [OF refl refl False] by (subst collect_unused.simps) (simp only: Let_def s'_def if_False)
    qed
  qed
  moreover have "f (sweep_files s) = f s" for s
    using f [where s = s and rows = "source_objects s"] by (simp add: sweep_files_def)
  ultimately show ?thesis by (simp add: gc_def)
qed

lemma gc_same: "same_chain s (gc s)"
  unfolding same_chain_def by (intro conjI; rule gc_frame; simp)

lemma DeleteTrace_ok:
  assumes "chain_ok s" "DeleteTrace i s = Inr s'"
  shows "chain_ok s'"
  using assms chain_but_same [OF delete_traces_ok [OF assms(1)] gc_same] by (auto simp: DeleteTrace_def split: if_splits)

text \<open>Either the run is recorded, or the events of the revision are replaced.\<close>

lemma renormalize_one_cases:
  assumes "renormalize_one now version run item s = Inr s'"
  obtains v st ws where "s' = recordRun (cd_Revision item) v st ws now s"
  | labels n w where "replaceRevisionEvents now (cd_Trace item) (cd_Revision item) labels n s = Inr (s', w)"
proof -
  let ?paths = "revisionFiles s (cd_Revision item)"
  obtain fs where fs: "stat_files (objects_dir s) ?paths = Inr fs"
    using assms by (auto simp: renormalize_one_def Let_def bind_result_Inr_iff)
  let ?d = "(cd_Descriptor item)\<lparr>d_Files := fs\<rparr>"
  obtain n e where n: "normalizeResult run ?d (objectFS (objects_dir s) ?paths) = (n, e)" by force
  define n' where "n' = (if n_Version n = 0 then n\<lparr>n_Version := version (d_Harness ?d)\<rparr> else n)"
  have "(if e \<noteq> None \<or> n_Status n' = ''failed'' \<or> n_Status n' = ''unsupported''
      then Inr (recordRun (cd_Revision item) (n_Version n') (n_Status n') (n_Warnings n') now s)
      else bind_result (currentSearchLabels s (cd_Trace item)) (\<lambda>labels.
        bind_result (replaceRevisionEvents now (cd_Trace item) (cd_Revision item) labels n' s) (\<lambda>(s, _). Inr s))) = Inr s'"
    using assms unfolding renormalize_one_def Let_def fs bind_result_simps n prod.case n'_def [symmetric] .
  with that show thesis by (auto simp: bind_result_Inr_iff split: if_splits)
qed

lemma renormalize_one_ok:
  assumes "chain_ok s" "has_revision s (cd_Revision item) (cd_Trace item)" "renormalize_one now version run item s = Inr s'"
  shows "chain_ok s'"
  using assms(3) by (rule renormalize_one_cases)
    (use recordRun_ok [OF assms(1)] replaceRevisionEvents_ok [OF assms(1, 2)] in auto)

subsection \<open>The transitions\<close>

text \<open>
  One step of the writer.  A transaction that fails leaves the store as it was, but an import keeps what the
  traces before and after a failed one did.  \<open>Renormalize\<close> reads a batch of candidates without the lock and takes them one by one
  under it, so a candidate can be stale.  When its revision is gone, or its trace, the statements fail.  But SQLite gives the
  ids of traces and revisions again after a deletion, so that both ids can be there and belong to different traces.  The code
  does not check this; \<open>step_renormalize\<close> asks for it, and so excludes a run of the program: two writers in between, a
  deletion and an import.
\<close>

inductive store_step :: "Store \<Rightarrow> Store \<Rightarrow> bool" where
  step_import: "Import clock run manifest sources s = (s', r, ps) \<Longrightarrow> store_step s s'"
| step_gc: "store_step s (gc s)"
| step_delete: "DeleteTrace i s = Inr s' \<Longrightarrow> store_step s s'"
| step_override: "SetTitleOverride i title s = Inr s' \<Longrightarrow> store_step s s'"
| step_title: "SetGeneratedTitle i j title s = Inr s' \<Longrightarrow> store_step s s'"
| step_renormalize: "has_revision s (cd_Revision item) (cd_Trace item) \<Longrightarrow> renormalize_one now version run item s = Inr s' \<Longrightarrow>
    store_step s s'"

inductive reachable :: "Store \<Rightarrow> bool" where
  reachable_empty: "reachable empty_store"
| reachable_step: "reachable s \<Longrightarrow> store_step s s' \<Longrightarrow> reachable s'"

inductive_cases store_stepE: "store_step s s'"

text \<open>A property every operation keeps.\<close>

locale kept =
  fixes good :: "Store \<Rightarrow> bool"
  assumes start: "good empty_store"
    and keep_import: "good s \<Longrightarrow> good (fst (Import clock run manifest sources s))"
    and keep_gc: "good s \<Longrightarrow> good (gc s)"
    and keep_delete: "good s \<Longrightarrow> DeleteTrace i s = Inr s' \<Longrightarrow> good s'"
    and keep_override: "good s \<Longrightarrow> SetTitleOverride i title s = Inr s' \<Longrightarrow> good s'"
    and keep_title: "good s \<Longrightarrow> SetGeneratedTitle i j title s = Inr s' \<Longrightarrow> good s'"
    and keep_renormalize: "good s \<Longrightarrow> has_revision s (cd_Revision item) (cd_Trace item) \<Longrightarrow>
      renormalize_one now version run item s = Inr s' \<Longrightarrow> good s'"
begin

lemma keep_step: "store_step s s' \<Longrightarrow> good s \<Longrightarrow> good s'"
proof (induction rule: store_step.induct)
  case (step_import clock run manifest sources s s' r ps)
  then show ?case using keep_import [of s clock run manifest sources] by simp
qed (blast intro: keep_gc keep_delete keep_override keep_title keep_renormalize)+

lemma always: "reachable s \<Longrightarrow> good s"
  by (induction rule: reachable.induct) (auto intro: start keep_step)

end

interpretation chain: kept chain_ok
proof
  show "chain_ok empty_store"
    by (simp add: chain_but_def keys_ok_def links_ok_def index_ok_def preferred_but_def link_keys_def empty_store_def)
  show "chain_ok (gc s)" if "chain_ok s" for s using chain_but_same [OF that gc_same] .
qed (fact Import_ok DeleteTrace_ok SetTitleOverride_ok SetGeneratedTitle_ok renormalize_one_ok)+

end
