(* ===== verification/StoreObjects.thy ===== *)
theory StoreObjects
  imports StoreReach
begin

text \<open>
  The directory of source objects is addressed by content: a file is stored under the digest of its bytes, every
  object a revision refers to is there, and collecting garbage keeps exactly these.
\<close>

subsection \<open>The invariant\<close>

definition object_there :: "(string \<times> string) list \<Rightarrow> SourceObjectRow \<Rightarrow> bool" where
  "object_there dir q \<longleftrightarrow> so_Path q = object_path (so_Digest q) \<and>
     (\<exists>content. map_of dir (so_Path q) = Some content \<and> so_Digest q = sha256_hex content \<and> so_Size q = int (length content))"

definition addressed :: "(string \<times> string) list \<Rightarrow> bool" where
  "addressed dir \<longleftrightarrow> distinct (map fst dir) \<and> list_all (\<lambda>(p, content). p = object_path (sha256_hex content)) dir"

definition objects_ok :: "Store \<Rightarrow> bool" where
  "objects_ok s \<longleftrightarrow> addressed (objects_dir s) \<and>
     distinct (map so_Digest (source_objects s)) \<and> list_all (object_there (objects_dir s)) (source_objects s) \<and>
     ro_Digest ` set (revision_objects s) \<subseteq> so_Digest ` set (source_objects s)"

lemma object_path_inject: "object_path a = object_path b \<longleftrightarrow> a = b" if "2 \<le> length a" "2 \<le> length b"
proof
  assume "object_path a = object_path b"
  then have "take 2 a = take 2 b \<and> drop 2 a = drop 2 b"
    using that by (simp add: object_path_def append_eq_append_conv)
  then show "a = b" by (metis append_take_drop_id)
qed simp

lemma object_path_hex: "object_path (sha256_hex a) = object_path (sha256_hex b) \<longleftrightarrow> sha256_hex a = sha256_hex b"
  by (rule object_path_inject) simp_all

lemma addressed_content: "addressed dir \<Longrightarrow> map_of dir p = Some content \<Longrightarrow> p = object_path (sha256_hex content)"
  by (auto simp: addressed_def list_all_iff dest: map_of_SomeD)

lemma object_there_mono:
  "object_there dir q \<Longrightarrow> (\<And>c. map_of dir (so_Path q) = Some c \<Longrightarrow> map_of dir' (so_Path q) = Some c) \<Longrightarrow> object_there dir' q"
  by (auto simp: object_there_def)

subsection \<open>Storing objects\<close>

definition extends_dir :: "(string \<times> string) list \<Rightarrow> (string \<times> string) list \<Rightarrow> bool" where
  "extends_dir dir dir' \<longleftrightarrow> (\<forall>p c. map_of dir p = Some c \<longrightarrow> map_of dir' p = Some c)"

definition stored_in :: "(string \<times> string) list \<Rightarrow> storedObject \<Rightarrow> bool" where
  "stored_in dir b \<longleftrightarrow> (\<exists>content. map_of dir (object_path (st_digest b)) = Some content \<and> st_digest b = sha256_hex content \<and>
     st_size b = int (length content))"

lemma writeObject_stored:
  assumes "addressed dir" "writeObject content path expected n dir = Inr (dir', b)"
  shows "addressed dir' \<and> extends_dir dir dir' \<and> stored_in dir' b \<and> st_path b = path"
proof (cases "map_of dir (object_path (TrimPrefix expected ''sha256:''))")
  case None
  then have "object_path (TrimPrefix expected ''sha256:'') \<notin> fst ` set dir" by (simp add: map_of_eq_None_iff)
  with assms None show ?thesis
    by (auto simp: writeObject_def Let_def addressed_def extends_dir_def stored_in_def map_add_def split: if_splits option.split)
next
  case (Some old)
  have len: "length (TrimPrefix expected ''sha256:'') = 64" using assms(2) by (auto simp: writeObject_def Let_def split: if_splits)
  then have "TrimPrefix expected ''sha256:'' = sha256_hex old"
    using addressed_content [OF assms(1) Some] object_path_inject [of "TrimPrefix expected ''sha256:''" "sha256_hex old"] by simp
  with assms Some len show ?thesis
    by (auto simp: writeObject_def Let_def extends_dir_def stored_in_def split: if_splits)
qed

lemma extends_dir_trans: "extends_dir a b \<Longrightarrow> extends_dir b c \<Longrightarrow> extends_dir a c"
  by (simp add: extends_dir_def)

lemma stored_in_extends: "stored_in dir b \<Longrightarrow> extends_dir dir dir' \<Longrightarrow> stored_in dir' b"
  by (auto simp: stored_in_def extends_dir_def)

lemma storeObjects_stored:
  "addressed dir \<Longrightarrow> storeObjects source fs dir = (dir', r) \<Longrightarrow>
   addressed dir' \<and> extends_dir dir dir' \<and> (\<forall>bs. r = Inr bs \<longrightarrow> list_all (stored_in dir') bs)"
proof (induction source fs dir arbitrary: dir' r rule: storeObjects.induct)
  case (2 source f fs dir)
  show ?case
  proof (cases "source (f_Path f)")
    case (Some content)
    show ?thesis
    proof (cases "writeObject content (f_Path f) (f_SHA256 f) (f_Size f) dir")
      case (Inr p)
      obtain dir1 b where p: "p = (dir1, b)" by force
      note w = writeObject_stored [OF 2(2) Inr [unfolded p]]
      obtain dir2 r2 where s: "storeObjects source fs dir1 = (dir2, r2)" by force
      have ih: "addressed dir2 \<and> extends_dir dir1 dir2 \<and> (\<forall>bs. r2 = Inr bs \<longrightarrow> list_all (stored_in dir2) bs)"
        using 2(1) [OF Some Inr p [symmetric] _ s] w by blast
      have "dir' = dir2" "r = bind_result r2 (\<lambda>objects. Inr (b # objects))" using 2(3) Some Inr p s by simp_all
      with ih w show ?thesis by (auto simp: bind_result_Inr_iff intro: extends_dir_trans stored_in_extends)
    qed (use 2(2, 3) Some in \<open>auto simp: extends_dir_def\<close>)
  qed (use 2(2, 3) in \<open>auto simp: extends_dir_def\<close>)
qed (simp add: extends_dir_def)

lemma objects_ok_dir: "objects_ok s \<Longrightarrow> addressed dir \<Longrightarrow> extends_dir (objects_dir s) dir \<Longrightarrow> objects_ok (s\<lparr>objects_dir := dir\<rparr>)"
  by (auto simp: objects_ok_def list_all_iff extends_dir_def intro: object_there_mono)

lemma insert_objects_ok:
  "insert_objects j bs s = Inr s' \<Longrightarrow> list_all (stored_in (objects_dir s)) bs \<Longrightarrow> objects_ok s \<Longrightarrow>
   objects_ok s' \<and> objects_dir s' = objects_dir s"
proof (induction j bs s rule: insert_objects.induct)
  case (2 j b bs s)
  define row where "row = \<lparr>so_Digest = st_digest b, so_Size = st_size b, so_Path = object_path (st_digest b)\<rparr>"
  obtain rows where r: "rows = revision_objects s @ [\<lparr>ro_Revision = j, ro_Path = st_path b, ro_Digest = st_digest b\<rparr>]"
    "insert_objects j bs (s\<lparr>source_objects := insert_or_ignore so_Digest row (source_objects s), revision_objects := rows\<rparr>) = Inr s'"
    using 2(2) by (auto simp: bind_result_Inr_iff insert_unique_iff row_def)
  let ?s = "s\<lparr>source_objects := insert_or_ignore so_Digest row (source_objects s), revision_objects := rows\<rparr>"
  have there: "object_there (objects_dir s) row" using 2(3) by (simp add: stored_in_def object_there_def row_def)
  have "objects_ok ?s"
    unfolding objects_ok_def
  proof (intro conjI)
    show "addressed (objects_dir ?s)" "distinct (map so_Digest (source_objects ?s))"
      using 2(4) by (simp_all add: objects_ok_def distinct_insert_or_ignore)
    show "list_all (object_there (objects_dir ?s)) (source_objects ?s)"
      using 2(4) there by (auto simp: objects_ok_def list_all_iff insert_or_ignore_def)
    show "ro_Digest ` set (revision_objects ?s) \<subseteq> so_Digest ` set (source_objects ?s)"
      using 2(4) key_insert_or_ignore [of so_Digest row "source_objects s"]
      by (auto simp: objects_ok_def r(1) row_def insert_or_ignore_def split: if_splits)
  qed
  with 2 r show ?case by (auto simp: bind_result_Inr_iff row_def)
qed simp

subsection \<open>Collecting garbage\<close>

definition used :: "Store \<Rightarrow> string \<Rightarrow> bool" where
  "used s digest \<longleftrightarrow> digest \<in> ro_Digest ` set (revision_objects s)"

text \<open>A batch of rows no revision uses goes, with the files.\<close>

lemma collect_objects_batch:
  "list_all (\<lambda>q. \<not> used s (so_Digest q)) batch \<Longrightarrow>
   foldl collect_object s batch = s\<lparr>objects_dir := filter (\<lambda>(p, _). p \<notin> so_Path ` set batch) (objects_dir s),
     source_objects := filter (\<lambda>r. so_Digest r \<notin> so_Digest ` set batch) (source_objects s)\<rparr>"
proof (induction batch arbitrary: s)
  case (Cons q batch)
  let ?s = "collect_object s q"
  have "revision_objects ?s = revision_objects s" by (simp add: collect_object_def)
  then have "list_all (\<lambda>q. \<not> used ?s (so_Digest q)) batch" using Cons.prems by (simp add: used_def list_all_iff)
  then have "foldl collect_object ?s batch = ?s\<lparr>objects_dir := filter (\<lambda>(p, _). p \<notin> so_Path ` set batch) (objects_dir ?s),
     source_objects := filter (\<lambda>r. so_Digest r \<notin> so_Digest ` set batch) (source_objects ?s)\<rparr>" by (rule Cons.IH)
  moreover have "objects_dir ?s = filter (\<lambda>(p, _). p \<noteq> so_Path q) (objects_dir s)"
    by (simp add: collect_object_def remove_file_def)
  moreover have "source_objects ?s = filter (\<lambda>r. so_Digest r \<noteq> so_Digest q) (source_objects s)"
    using Cons.prems by (auto simp: collect_object_def delete_where_def used_def intro!: filter_cong)
  moreover have "?s\<lparr>objects_dir := a, source_objects := b\<rparr> = s\<lparr>objects_dir := a, source_objects := b\<rparr>" for a b
    by (simp add: collect_object_def)
  moreover have "filter (\<lambda>(p, _). p \<notin> so_Path ` set batch) (filter (\<lambda>(p, _). p \<noteq> so_Path q) dir) =
      filter (\<lambda>(p, _). p \<notin> so_Path ` set (q # batch)) dir" for dir :: "(string \<times> string) list"
    by (auto intro!: filter_cong)
  moreover have "filter (\<lambda>r. so_Digest r \<notin> so_Digest ` set batch) (filter (\<lambda>r. so_Digest r \<noteq> so_Digest q) rows) =
      filter (\<lambda>r. so_Digest r \<notin> so_Digest ` set (q # batch)) rows" for rows :: "SourceObjectRow list"
    by (auto intro!: filter_cong)
  ultimately show ?case by simp
qed (simp add: case_prod_unfold)

lemma collect_unused_rows:
  "distinct (map so_Digest (source_objects s)) \<Longrightarrow>
   collect_unused s = s\<lparr>objects_dir := filter (\<lambda>(p, _). p \<notin> so_Path ` set (unused_objects s)) (objects_dir s),
     source_objects := filter (\<lambda>r. used s (so_Digest r)) (source_objects s)\<rparr>"
proof (induction s rule: collect_unused.induct)
  case (1 s)
  define batch where "batch = take 100 (unused_objects s)"
  define s' where "s' = foldl collect_object s batch"
  have unused: "unused_objects s = filter (\<lambda>q. \<not> used s (so_Digest q)) (source_objects s)" by (simp add: unused_objects_def used_def)
  have batch: "set batch \<subseteq> set (unused_objects s)" by (auto simp: batch_def dest: in_set_takeD)
  have s': "s' = s\<lparr>objects_dir := filter (\<lambda>(p, _). p \<notin> so_Path ` set batch) (objects_dir s),
     source_objects := filter (\<lambda>r. so_Digest r \<notin> so_Digest ` set batch) (source_objects s)\<rparr>"
    unfolding s'_def by (rule collect_objects_batch) (use batch in \<open>auto simp: list_all_iff unused\<close>)
  have used': "used s' = used s" by (simp add: s' used_def fun_eq_iff)
  have same: "r \<in> set batch" if "r \<in> set (source_objects s)" "so_Digest r \<in> so_Digest ` set batch" for r
    using distinct_map_eq [OF 1(2) that(1)] that(2) batch by (auto simp: unused)
  show ?case
  proof (cases "length batch < 100")
    case True
    then have all: "batch = unused_objects s" by (simp add: batch_def)
    have "collect_unused s = s'" using True by (subst collect_unused.simps) (simp only: Let_def s'_def batch_def if_True)
    moreover have "filter (\<lambda>r. so_Digest r \<notin> so_Digest ` set batch) (source_objects s) = filter (\<lambda>r. used s (so_Digest r)) (source_objects s)"
      using same unfolding all unused by (intro filter_cong) auto
    ultimately show ?thesis by (simp add: s' all)
  next
    case False
    have rest: "set (unused_objects s') = set (unused_objects s) - set batch"
      using same by (auto simp: unused_objects_def used' [unfolded used_def fun_eq_iff] s')
    then have paths: "so_Path ` set batch \<union> so_Path ` set (unused_objects s') = so_Path ` set (unused_objects s)"
      using batch by auto
    have "distinct (map so_Digest (source_objects s'))" using 1(2) by (simp add: s' distinct_map_filter)
    then have "collect_unused s' = s'\<lparr>objects_dir := filter (\<lambda>(p, _). p \<notin> so_Path ` set (unused_objects s')) (objects_dir s'),
        source_objects := filter (\<lambda>r. used s' (so_Digest r)) (source_objects s')\<rparr>"
      using 1(1) [OF refl refl] False unfolding s'_def batch_def by blast
    moreover have "collect_unused s = collect_unused s'"
      using False by (subst collect_unused.simps) (simp only: Let_def s'_def batch_def if_False)
    moreover have "filter (\<lambda>(p, _). p \<notin> so_Path ` set (unused_objects s')) (objects_dir s') =
        filter (\<lambda>(p, _). p \<notin> so_Path ` set (unused_objects s)) (objects_dir s)"
      unfolding paths [symmetric] by (auto simp: s' intro!: filter_cong)
    moreover have "filter (\<lambda>r. used s' (so_Digest r)) (source_objects s') = filter (\<lambda>r. used s (so_Digest r)) (source_objects s)"
      unfolding used' using batch by (auto simp: s' unused intro!: filter_cong)
    ultimately show ?thesis by (simp add: s'(1))
  qed
qed

lemma used_digests:
  assumes "objects_ok s"
  shows "so_Digest ` {r \<in> set (source_objects s). used s (so_Digest r)} = ro_Digest ` set (revision_objects s)"
proof -
  have "so_Digest ` {r \<in> set (source_objects s). used s (so_Digest r)} =
      so_Digest ` set (source_objects s) \<inter> ro_Digest ` set (revision_objects s)" unfolding used_def by blast
  then show ?thesis using assms by (auto simp: objects_ok_def)
qed

text \<open>What \<open>gc\<close> keeps.\<close>

lemma gc_spec:
  assumes "objects_ok s"
  shows "gc s = s\<lparr>objects_dir := filter (\<lambda>(p, _). p \<in> object_path ` ro_Digest ` set (revision_objects s)) (objects_dir s),
     source_objects := filter (\<lambda>r. used s (so_Digest r)) (source_objects s)\<rparr>"
proof -
  note ok = assms [unfolded objects_ok_def]
  have there: "object_there (objects_dir s) q" if "q \<in> set (source_objects s)" for q using ok that by (simp add: list_all_iff)
  have path: "so_Path q = object_path (so_Digest q)" "2 \<le> length (so_Digest q)" if "q \<in> set (source_objects s)" for q
    using there [OF that] by (auto simp: object_there_def)
  note digest = used_digests [OF assms]
  have row: "p \<in> so_Path ` {r \<in> set (source_objects s). used s (so_Digest r)} \<longleftrightarrow> p \<in> object_path ` ro_Digest ` set (revision_objects s)" for p
  proof -
    have "so_Path ` {r \<in> set (source_objects s). used s (so_Digest r)} = object_path ` so_Digest ` {r \<in> set (source_objects s). used s (so_Digest r)}"
      unfolding image_image using path(1) by (intro image_cong) auto
    then show ?thesis unfolding digest by simp
  qed
  have apart: "p \<notin> so_Path ` set (unused_objects s)" if "p \<in> so_Path ` {r \<in> set (source_objects s). used s (so_Digest r)}" for p
  proof
    assume "p \<in> so_Path ` set (unused_objects s)"
    then obtain r where r: "r \<in> set (source_objects s)" "\<not> used s (so_Digest r)" "p = so_Path r" by (auto simp: unused_objects_def used_def)
    from that obtain q where q: "q \<in> set (source_objects s)" "used s (so_Digest q)" "p = so_Path q" by auto
    have "so_Digest q = so_Digest r"
      using path [OF r(1)] path [OF q(1)] r(3) q(3) object_path_inject by simp
    with r q show False by simp
  qed
  have files: "filter (\<lambda>(p, _). p \<in> so_Path ` {r \<in> set (source_objects s). used s (so_Digest r)})
      (filter (\<lambda>(p, _). p \<notin> so_Path ` set (unused_objects s)) dir) =
    filter (\<lambda>(p, _). p \<in> object_path ` ro_Digest ` set (revision_objects s)) dir" for dir
    using row apart by (auto intro!: filter_cong)
  have "distinct (map so_Digest (source_objects s))" using ok by simp
  then show ?thesis by (simp add: gc_def sweep_files_def collect_unused_rows files del: filter_filter)
qed

subsection \<open>Every operation\<close>

text \<open>Most statements leave the objects and the log of imports alone.\<close>

definition same_objects :: "Store \<Rightarrow> Store \<Rightarrow> bool" where
  "same_objects s s' \<longleftrightarrow> objects_dir s' = objects_dir s \<and> source_objects s' = source_objects s \<and>
     set (revision_objects s') \<subseteq> set (revision_objects s) \<and> importSeq s' = importSeq s \<and> summaries s' = summaries s \<and>
     imports_table s' = imports_table s \<and> machines s' = machines s"

lemma same_objects_refl: "same_objects s s"
  by (simp add: same_objects_def)

lemma same_objects_trans: "same_objects s s' \<Longrightarrow> same_objects s' s'' \<Longrightarrow> same_objects s s''"
  by (auto simp: same_objects_def)

lemma objects_ok_same: "objects_ok s \<Longrightarrow> same_objects s s' \<Longrightarrow> objects_ok s'"
  using image_mono [of "set (revision_objects s')" "set (revision_objects s)" ro_Digest]
  by (simp add: objects_ok_def same_objects_def) (meson order_trans)

lemma delete_objects:
  "same_objects s (delete_observation_revisions P s)" "same_objects s (delete_observations Q s)" "same_objects s (delete_events R s)"
  "same_objects s (delete_revisions S s)" "same_objects s (delete_traces T s)"
proof -
  show links: "same_objects s (delete_observation_revisions P s)" for s P
    by (simp add: same_objects_def delete_observation_revisions_def Let_def)
  show obs: "same_objects s (delete_observations Q s)" for s Q
    unfolding delete_observations_def Let_def by (rule same_objects_trans [OF _ links]) (simp add: same_objects_def)
  show evs: "same_objects s (delete_events R s)" for s R
  proof -
    let ?s = "s\<lparr>events := delete_where R (events s)\<rparr>"
    define s1 where "s1 = delete_observations (\<lambda>q. ob_Event q \<in> set (map ev_ID (filter R (events s)))) ?s"
    have "same_objects s ?s" by (simp add: same_objects_def)
    then have "same_objects s s1" unfolding s1_def using obs same_objects_trans by blast
    then show ?thesis by (simp add: delete_events_def Let_def s1_def same_objects_def)
  qed
  show revs: "same_objects s (delete_revisions S s)" for s S
  proof -
    let ?gone = "map v_ID (filter S (revisions s))"
    let ?s = "s\<lparr>revisions := delete_where S (revisions s), revision_machines := delete_where (\<lambda>(r, _). r \<in> set ?gone) (revision_machines s),
      revision_objects := delete_where (\<lambda>q. ro_Revision q \<in> set ?gone) (revision_objects s), runs := delete_where (\<lambda>q. nr_Revision q \<in> set ?gone) (runs s)\<rparr>"
    have "same_objects s ?s" by (auto simp: same_objects_def)
    then show ?thesis using links same_objects_trans unfolding delete_revisions_def Let_def by blast
  qed
  show "same_objects s (delete_traces T s)"
    unfolding delete_traces_def Let_def by (rule same_objects_trans [OF same_objects_trans [OF _ revs] evs]) (simp add: same_objects_def)
qed

lemma upsertRepository_objects: "upsertRepository m r s = Inr (s', i) \<Longrightarrow> same_objects s s'"
  by (auto simp: upsertRepository_def Let_def bind_result_Inr_iff same_objects_def split: if_splits)

lemma attach_objects:
  "attach_observation k j i w e st = Inr st' \<Longrightarrow> same_objects (in_Store st) (in_Store st')"
  by (auto simp: attach_observation_def Let_def bind_result_Inr_iff same_objects_def link_revision_def set_preferred_def split: if_splits)

lemma insert_event_objects:
  assumes "insert_event i j labels e st = Inr st'"
  shows "same_objects (in_Store st) (in_Store st')"
proof -
  obtain k n digest encoded bare w st0 where
    a: "attach_observation k j n w e st0 = Inr st'" "in_Store st0 = ensure_observation n digest encoded bare (ensure_event i e (in_Store st))"
    using assms by (fastforce simp: insert_event_def Let_def bind_result_Inr_iff split: if_splits)
  have "same_objects (in_Store st) (in_Store st0)"
    by (simp add: a(2) ensure_event_def ensure_observation_def same_objects_def)
  from same_objects_trans [OF this attach_objects [OF a(1)]] show ?thesis .
qed

lemma insertEvents_objects:
  assumes "insertEvents i j labels es s = Inr (s', w)"
  shows "same_objects s s'"
proof -
  have "insert_each i j labels es st = Inr st' \<Longrightarrow> same_objects (in_Store st) (in_Store st')" for st st'
    by (induction i j labels es st rule: insert_each.induct)
      (auto simp: bind_result_Inr_iff same_objects_refl dest!: insert_event_objects intro: same_objects_trans)
  with assms show ?thesis by (fastforce simp: insertEvents_def bind_result_Inr_iff)
qed

lemma recordRun_objects: "same_objects s (recordRun j v st ws now s)"
  by (simp add: same_objects_def recordRun_def)

lemma insert_aliases_objects: "same_objects s (insert_aliases i es s)"
proof -
  have one: "same_objects s (insert_alias i k l s)" for k l s by (simp add: same_objects_def insert_alias_def split: option.split)
  have many: "same_objects s (foldl (\<lambda>s l. insert_alias i k l s) s ls)" for k ls s
    by (induction ls arbitrary: s) (auto simp: same_objects_refl intro: same_objects_trans [OF one])
  show ?thesis
    unfolding insert_aliases_def by (induction es arbitrary: s) (auto simp: same_objects_refl intro: same_objects_trans [OF many])
qed

lemma clear_revision_objects: "same_objects s (clear_revision i j n s)"
proof -
  define s1 where "s1 = insert_aliases i (n_Events n) s"
  define s2 where "s2 = update_trace i (fill_title (n_Title n)) (update_trace i (\<lambda>t. if t_GeneratedTitle t = [] then t\<lparr>t_GeneratedRevision := 0\<rparr> else t) s1)"
  define s3 where "s3 = delete_observation_revisions (\<lambda>x. or_Revision x = j) s2"
  have "same_objects s s1" by (simp add: s1_def insert_aliases_objects)
  moreover have "same_objects s1 s2" by (simp add: s2_def update_trace_def same_objects_def)
  moreover have "same_objects s2 s3" by (simp add: s3_def delete_objects)
  moreover
  have "\<exists>P f. clear_revision i j n s = (delete_observations P s3)\<lparr>revisions := f (revisions (delete_observations P s3))\<rparr>"
    unfolding clear_revision_def Let_def s3_def s2_def s1_def by blast
  then obtain P f where "clear_revision i j n s = (delete_observations P s3)\<lparr>revisions := f (revisions (delete_observations P s3))\<rparr>" by blast
  then have "same_objects s3 (clear_revision i j n s)" using delete_objects(2) [of s3 P] by (simp add: same_objects_def)
  ultimately show ?thesis using same_objects_trans by blast
qed

lemma replaceRevisionEvents_objects:
  assumes "replaceRevisionEvents now i j labels n s = Inr (s', w)"
  shows "same_objects s s'"
proof -
  obtain s1 w1 P where e: "insertEvents i j labels (n_Events n) (clear_revision i j n s) = Inr (s1, w1)"
    and s': "s' = recordRun j (n_Version n) (n_Status n) (n_Warnings n @ w1) now (delete_events P (set_preferred (\<lambda>r. ev_Trace r = i) s1))"
    using assms by (auto simp: replaceRevisionEvents_def Let_def bind_result_Inr_iff)
  have "same_objects s1 (set_preferred (\<lambda>r. ev_Trace r = i) s1)" by (simp add: set_preferred_def same_objects_def)
  then show ?thesis
    unfolding s' using same_objects_trans [OF same_objects_trans [OF clear_revision_objects insertEvents_objects [OF e]]]
      same_objects_trans [OF delete_objects(3) recordRun_objects] same_objects_trans by meson
qed

lemma backfill_objects:
  assumes "backfillMissingTraceMetadata i j m d s = Inr (s', b)"
  shows "same_objects s s'"
proof -
  have fill: "same_objects s s'" if "fill_metadata m i d s = Inr (s', texts)" for s' texts
    using that
    by (auto simp: fill_metadata_def fill_column_def update_trace_def Let_def bind_result_Inr_iff same_objects_def
        dest!: upsertRepository_objects split: if_splits)
  have chunks: "same_objects s s'" if "reindex_chunks j (append_search_text j t s) = Inr s'" for s s' t
    using that by (auto simp: reindex_chunks_def append_search_text_def bind_result_Inr_iff same_objects_def)
  from assms consider "s' = s" | s1 texts t where "fill_metadata m i d s = Inr (s1, texts)" "reindex_chunks j (append_search_text j t s1) = Inr s'"
    by (auto simp: backfillMissingTraceMetadata_def bind_result_Inr_iff split: if_splits)
  then show ?thesis by cases (use fill chunks same_objects_refl same_objects_trans in blast)+
qed

lemma reindexTraceSearch_objects: "reindexTraceSearch i s = Inr s' \<Longrightarrow> same_objects s s'"
proof -
  have "same_objects s s'" if "reindexRevisionSearch j labels s = Inr s'" for j labels s s'
    using that by (auto simp: reindexRevisionSearch_def bind_result_Inr_iff same_objects_def)
  then have "reindex_each labels js s = Inr s' \<Longrightarrow> same_objects s s'" for labels js s s'
  proof (induction labels js s rule: reindex_each.induct)
    case (2 labels r rs s)
    then obtain s1 where "reindexRevisionSearch r labels s = Inr s1" "reindex_each labels rs s1 = Inr s'" by (auto simp: bind_result_Inr_iff)
    with 2 show ?case using same_objects_trans by blast
  qed (simp add: same_objects_refl)
  then show "reindexTraceSearch i s = Inr s' \<Longrightarrow> same_objects s s'"
    by (auto simp: reindexTraceSearch_def bind_result_Inr_iff)
qed

lemma begin_revision_objects:
  assumes "objects_ok s" "begin_revision now manifest d n stored s = Inr (s', i, j)" "list_all (stored_in (objects_dir s)) stored"
  shows "objects_ok s'"
proof -
  obtain s1 s2 where s1: "same_objects s s1" "same_objects s1 s2" and ins: "insert_objects j stored s2 = Inr s'"
  proof -
    from assms(2) obtain s1 k s2 where
      up: "upsertRepository (m_ID (mf_SourceMachine manifest)) (d_Repository d) s = Inr (s1, k)"
      and rev: "insert_revision i manifest d n (metadata_time d now)
        (update_trace i (newest_metadata d k (metadata_time d now)) (insert_trace d k now (metadata_time d now) s1)) = Inr (s2, j)"
      and objs: "insert_objects j stored s2 = Inr s'"
      by (auto simp: begin_revision_def Let_def bind_result_Inr_iff)
    have "same_objects s1 s2"
      using rev by (auto simp: insert_revision_def Let_def bind_result_Inr_iff update_trace_def insert_trace_def same_objects_def)
    then show thesis using that upsertRepository_objects [OF up] objs by blast
  qed
  have same: "same_objects s s2" using same_objects_trans [OF s1] .
  then have "objects_dir s2 = objects_dir s" by (simp add: same_objects_def)
  then show ?thesis using insert_objects_ok [OF ins] assms(3) objects_ok_same [OF assms(1) same] by simp
qed

lemma commitRevision_objects:
  assumes "objects_ok s" "commitRevision now manifest d n stored s = Inr (s', r)" "list_all (stored_in (objects_dir s)) stored"
  shows "objects_ok s'"
proof -
  from assms(2) obtain s1 i j labels s2 w where
    b: "begin_revision now manifest d n stored s = Inr (s1, i, j)"
    and e: "insertEvents i j labels (n_Events n) s1 = Inr (s2, w)"
    and s': "s' = recordRun j (n_Version n) (n_Status n) (n_Warnings n @ w) now (update_trace i (fill_title (n_Title n)) s2)"
    by (auto simp: commitRevision_def Let_def bind_result_Inr_iff)
  have "objects_ok s2" using objects_ok_same [OF begin_revision_objects [OF assms(1) b assms(3)] insertEvents_objects [OF e]] .
  then show ?thesis by (rule objects_ok_same) (simp add: s' recordRun_def update_trace_def same_objects_def)
qed

lemma retry_revision_objects: "same_objects s (fst (retry_revision now run d source i j out s))"
proof -
  obtain n e where n: "normalizeResult run d source = (n, e)" by force
  show ?thesis
    by (auto simp: retry_revision_def n Let_def recordRun_objects same_objects_refl dest: replaceRevisionEvents_objects split: prod.split sum.split)
qed

lemma known_revision_objects: "same_objects s (fst (known_revision now run manifest d source j i status out s))"
proof -
  let ?s = "s\<lparr>revision_machines := insert_or_ignore id (j, m_ID (mf_SourceMachine manifest)) (revision_machines s)\<rparr>"
  have same: "same_objects s ?s" by (simp add: same_objects_def)
  show ?thesis
  proof (cases "backfillMissingTraceMetadata i j (m_ID (mf_SourceMachine manifest)) d ?s")
    case (Inr p)
    obtain s' b where p: "p = (s', b)" by force
    have s': "same_objects s s'" using same_objects_trans [OF same backfill_objects [OF Inr [unfolded p]]] .
    show ?thesis
    proof (cases "normalizationSuccessful status")
      case False
      then show ?thesis using same_objects_trans [OF s' retry_revision_objects] by (simp add: known_revision_def Let_def Inr p)
    qed (use s' in \<open>simp add: known_revision_def Let_def Inr p\<close>)
  qed (use same in \<open>simp add: known_revision_def Let_def\<close>)
qed

lemma importTrace_objects:
  assumes ok: "objects_ok s"
  shows "objects_ok (fst (importTrace now run manifest d sources s))"
proof (cases "Sub sources (d_Path d)")
  case (Inr source)
  obtain dir r where r: "storeObjects source (d_Files d) (objects_dir s) = (dir, r)" by force
  have dir: "addressed dir \<and> extends_dir (objects_dir s) dir \<and> (\<forall>bs. r = Inr bs \<longrightarrow> list_all (stored_in dir) bs)"
    by (rule storeObjects_stored [OF _ r]) (use ok in \<open>simp add: objects_ok_def\<close>)
  let ?s = "s\<lparr>objects_dir := dir\<rparr>"
  have ok': "objects_ok ?s" using objects_ok_dir [OF ok] dir by blast
  show ?thesis
  proof (cases r)
    case (Inr stored)
    have there: "list_all (stored_in (objects_dir ?s)) stored" using dir Inr by simp
    have "objects_ok (fst (new_revision now run manifest d source stored out ?s))" for out
    proof -
      obtain n e where n: "normalizeResult run d source = (n, e)" by force
      show ?thesis
      proof (cases "commitRevision now manifest d n stored ?s")
        case (Inr p)
        obtain s' x where p: "p = (s', x)" by (cases p) auto
        from commitRevision_objects [OF ok' Inr [unfolded p] there] show ?thesis
          by (simp add: new_revision_def n Inr p split: prod.split)
      qed (simp add: new_revision_def n ok')
    qed
    moreover have "objects_ok (fst (known_revision now run manifest d source j i status out ?s))" for j i status out
      using objects_ok_same [OF ok' known_revision_objects] .
    ultimately show ?thesis using \<open>Sub sources (d_Path d) = Inr source\<close> by (simp add: importTrace_def r Inr Let_def split: option.split)
  qed (use \<open>Sub sources (d_Path d) = Inr source\<close> in \<open>simp add: importTrace_def r ok'\<close>)
qed (simp add: importTrace_def ok)

lemma SetTitleOverride_objects:
  assumes "SetTitleOverride i title s = Inr s'"
  shows "same_objects s s'"
proof -
  from assms obtain title' where "reindexTraceSearch i (update_trace i (\<lambda>t. t\<lparr>t_TitleOverride := title'\<rparr>) s) = Inr s'"
    by (auto simp: SetTitleOverride_def setTitleOverride_def bind_result_Inr_iff split: if_splits)
  moreover have "same_objects s (update_trace i (\<lambda>t. t\<lparr>t_TitleOverride := title'\<rparr>) s)" by (simp add: update_trace_def same_objects_def)
  ultimately show ?thesis using reindexTraceSearch_objects same_objects_trans by blast
qed

lemma SetGeneratedTitle_objects:
  assumes "SetGeneratedTitle i j title s = Inr s'"
  shows "same_objects s s'"
proof -
  from assms obtain rows where "s' = s \<or> s' = s\<lparr>traces := rows\<rparr> \<or> reindexTraceSearch i (s\<lparr>traces := rows\<rparr>) = Inr s'"
    by (auto simp: SetGeneratedTitle_def Let_def bind_result_Inr_iff split: if_splits)
  moreover have "same_objects s (s\<lparr>traces := rows\<rparr>)" by (simp add: same_objects_def)
  ultimately show ?thesis using reindexTraceSearch_objects same_objects_trans same_objects_refl by blast
qed

lemma renormalize_one_objects: "renormalize_one now version run item s = Inr s' \<Longrightarrow> same_objects s s'"
  by (erule renormalize_one_cases) (auto intro: recordRun_objects replaceRevisionEvents_objects)

interpretation objects: kept objects_ok
proof
  fix s s' :: Store and i j title clock run manifest sources now version item
  assume ok: "objects_ok s"
  show "objects_ok (fst (Import clock run manifest sources s))"
  proof (rule Import_keeps [of objects_ok])
    show "objects_ok (s\<lparr>machines := a, imports_table := b, importSeq := c, summaries := e, runningImport := d\<rparr>)" if "objects_ok s"
      for s a b c d e using that by (simp add: objects_ok_def)
  qed (auto intro: importTrace_objects ok)
  have gc: "objects_ok (gc s)" if ok: "objects_ok s" for s
  proof -
    let ?keep = "\<lambda>(p, _). p \<in> object_path ` ro_Digest ` set (revision_objects s)"
    have "map_of (filter ?keep dir) p = map_of dir p" if "p \<in> object_path ` ro_Digest ` set (revision_objects s)"
      for p and dir :: "(string \<times> string) list"
      using that by (induction dir) auto
    moreover have "addressed (filter ?keep (objects_dir s))"
      using ok by (auto simp: objects_ok_def addressed_def list_all_iff distinct_map_filter)
    ultimately have "addressed (objects_dir (gc s))" "list_all (object_there (objects_dir (gc s))) (source_objects (gc s))"
      using ok unfolding gc_spec [OF ok]
      by (auto simp: objects_ok_def list_all_iff used_def object_there_def)
    moreover have "distinct (map so_Digest (source_objects (gc s)))" using ok by (simp add: gc_spec [OF ok] objects_ok_def distinct_map_filter)
    moreover have "so_Digest ` set (source_objects (gc s)) = ro_Digest ` set (revision_objects (gc s))"
      using used_digests [OF ok] by (simp add: gc_spec [OF ok])
    ultimately show ?thesis by (simp add: objects_ok_def)
  qed
  show "objects_ok (gc s)" using gc [OF ok] .
  show "objects_ok s'" if "DeleteTrace i s = Inr s'"
    using that gc [OF objects_ok_same [OF ok delete_objects(5)]] by (auto simp: DeleteTrace_def split: if_splits)
  show "objects_ok s'" if "SetTitleOverride i title s = Inr s'"
    using objects_ok_same [OF ok SetTitleOverride_objects [OF that]] .
  show "objects_ok s'" if "SetGeneratedTitle i j title s = Inr s'"
    using objects_ok_same [OF ok SetGeneratedTitle_objects [OF that]] .
  show "objects_ok s'" if "renormalize_one now version run item s = Inr s'"
    using objects_ok_same [OF ok renormalize_one_objects [OF that]] .
qed (simp add: objects_ok_def addressed_def empty_store_def)

end
