(* ===== verification/StoreDemo.thy ===== *)
theory StoreDemo
  imports StoreObjects
begin

text \<open>
  A store after the import of one trace with one event and one source file, computed step by step with the digests of
  the event left symbolic.
\<close>

definition note_digest :: string where
  "note_digest = sha256_hex ''{}''"

definition note_event :: Event where
  "note_event = zero_Event\<lparr>e_Key := ''k'', e_Text := ''acd''\<rparr>"

definition note_result :: Normalization where
  "note_result = \<lparr>n_Version = 1, n_Status = ''normalized'', n_Events = [note_event], n_Warnings = [], n_Title = []\<rparr>"

definition note_run :: normalize_fun where
  "note_run d source = (note_result, None)"

definition note_trace :: Descriptor where
  "note_trace = zero_Descriptor\<lparr>d_Path := ''t'', d_Harness := ''pi'', d_NativeTraceID := ''n'', d_RevisionDigest := ''r'',
     d_Files := [\<lparr>f_Path = ''a'', f_Size = 2, f_SHA256 = ''sha256:'' @ note_digest\<rparr>]\<rparr>"

definition note_manifest :: Manifest where
  "note_manifest = \<lparr>mf_FormatVersion = 1, mf_CollectorVersion = [], mf_CreatedAt = [],
     mf_SourceMachine = \<lparr>m_ID = ''m'', m_Hostname = ''h'', m_OS = [], m_Arch = []\<rparr>, mf_Traces = [note_trace]\<rparr>"

definition note_files :: files where
  "note_files name = (if name = ''t/a'' then Some ''{}'' else None)"

definition note_text :: string where
  "note_text = searchableText note_event @ newline @ searchLabels note_trace [[], []]"

definition note_json :: string where
  "note_json = Marshal (the (event_json note_event))"

lemma note_parts:
  "e_Key note_event = ''k''" "e_Timestamp note_event = []" "e_Sources note_event = []"
  "note_event\<lparr>e_ID := 0, e_TraceID := 0, e_Sources := []\<rparr> = note_event"
  "observationDigest note_event = Inr (sha256_hex note_json, note_json)"
proof -
  have "event_json note_event \<noteq> None" by (simp add: note_event_def zero_Event_def event_json_def)
  then show "observationDigest note_event = Inr (sha256_hex note_json, note_json)"
    by (auto simp: observationDigest_def note_json_def digestBytes_def Let_def)
qed (simp_all add: note_event_def zero_Event_def)

lemma note_descriptor:
  "d_Path note_trace = ''t''" "d_Harness note_trace = ''pi''" "d_NativeTraceID note_trace = ''n''" "d_RevisionDigest note_trace = ''r''"
  "d_Files note_trace = [\<lparr>f_Path = ''a'', f_Size = 2, f_SHA256 = ''sha256:'' @ note_digest\<rparr>]" "d_Title note_trace = []"
  "d_WorkingDirectory note_trace = []" "d_Repository note_trace = zero_Repository" "d_NativeUpdatedAt note_trace = []"
  "d_ParentNativeTraceID note_trace = []" "d_Adapter note_trace = []" "d_Warnings note_trace = []"
  by (simp_all add: note_trace_def zero_Descriptor_def)

lemma note_text_eq: "note_text = ''acd'' @ concat (replicate 6 newline) @ ''pi'' @ concat (replicate 4 newline)"
  by (simp add: note_text_def searchableText_def searchLabels_def note_descriptor)
    (simp add: note_event_def zero_Event_def newline_def zero_Repository_def numeral_eq_Suc)

lemma Chunks_short:
  assumes "str \<noteq> []" "length str \<le> chunkBytes"
  shows "Chunks str = Some [str]"
proof -
  have "back_to_start str (length str) = Some (length str)" by (subst back_to_start.simps) simp
  then show ?thesis using assms by (simp add: Chunks_def chunks_from.simps)
qed

lemma note_chunks: "Chunks note_text = Some [note_text]"
  by (rule Chunks_short) (simp_all add: note_text_eq newline_def chunkBytes_def)

lemma note_insert:
  assumes "events s = []" "observations s = []" "observation_revisions s = []" "chunks s = []" "observation_sources s = []"
    "revisions s = [r]" "v_ID r = 1"
  shows "insertEvents 1 1 (searchLabels note_trace [[], []]) [note_event] s =
    Inr (s\<lparr>eventSeq := eventSeq s + 1, observations := [\<lparr>ob_ID = 1, ob_Event = eventSeq s + 1, ob_Digest = sha256_hex note_json,
        ob_ParentKey = e_ParentKey note_event, ob_Branch = e_Branch note_event, ob_Kind = e_Kind note_event, ob_Role = e_Role note_event,
        ob_Model = e_Model note_event, ob_Provider = e_Provider note_event, ob_Tool = e_Tool note_event, ob_CallID = e_CallID note_event,
        ob_Time = canonicalTime [], ob_Text = e_Text note_event, ob_JSON = note_json\<rparr>],
      observation_revisions := [\<lparr>or_Observation = 1, or_Revision = 1, or_Text = note_text\<rparr>],
      chunks := [\<lparr>c_ID = 1, c_Observation = 1, c_Revision = 1, c_Event = eventSeq s + 1, c_Content = note_text\<rparr>],
      events := [\<lparr>ev_ID = eventSeq s + 1, ev_Trace = 1, ev_Key = ''k'', ev_SortTime = canonicalTime [], ev_SortKey = ''k'', ev_Preferred = Some 1\<rparr>]\<rparr>, [])"
  by (simp add: insertEvents_def insert_event_def ensure_event_def event_id_def ensure_observation_def observation_id_def note_parts
      Let_def assms insert_or_ignore_def next_rowid_def differs_def attach_observation_def link_revision_def found_def insert_chunks_def
      set_preferred_def update_where_def preferred_observation_def preferred_rows_def note_text_def [symmetric] note_chunks)

definition note_object :: storedObject where
  "note_object = \<lparr>st_path = ''a'', st_digest = note_digest, st_size = 2\<rparr>"

lemma note_manifest_parts:
  "mf_CreatedAt note_manifest = []" "m_ID (mf_SourceMachine note_manifest) = ''m''" "mf_Traces note_manifest = [note_trace]"
  by (simp_all add: note_manifest_def)

definition note_rows :: "Store \<Rightarrow> Store" where
  "note_rows s = s\<lparr>traces := [\<lparr>t_ID = 1, t_Harness = ''pi'', t_NativeTraceID = ''n'', t_Title = [], t_WorkingDirectory = [],
        t_Repository = None, t_ParentNativeTraceID = [], t_CreatedAt = [], t_UpdatedAt = [], t_TitleOverride = [], t_GeneratedTitle = [],
        t_GeneratedRevision = 0\<rparr>],
     revisions := [\<lparr>v_ID = 1, v_Trace = 1, v_Digest = ''r'', v_NativeUpdatedAt = [], v_CollectedAt = [], v_Adapter = [],
        v_Status = ''normalized'', v_Version = 1\<rparr>],
     revision_machines := [(1, ''m'')],
     source_objects := [\<lparr>so_Digest = note_digest, so_Size = 2, so_Path = object_path note_digest\<rparr>],
     revision_objects := [\<lparr>ro_Revision = 1, ro_Path = ''a'', ro_Digest = note_digest\<rparr>]\<rparr>"

lemma note_begin:
  assumes "traces s = []" "revisions s = []" "revision_machines s = []" "revision_objects s = []" "source_objects s = []"
  shows "begin_revision [] note_manifest note_trace note_result [note_object] s = Inr (note_rows s, 1, 1)"
  by (simp add: begin_revision_def note_descriptor upsertRepository_def Let_def insert_trace_def trace_id_def insert_or_ignore_def assms
    metadata_time_def canonicalTime_def found_def update_trace_def update_where_def next_rowid_def newest_metadata_def insert_revision_def
    revision_row_def insert_unique_def note_result_def note_object_def note_manifest_parts note_rows_def)

definition note_attached :: "Store \<Rightarrow> Store" where
  "note_attached s = s\<lparr>eventSeq := eventSeq s + 1, observations := [\<lparr>ob_ID = 1, ob_Event = eventSeq s + 1, ob_Digest = sha256_hex note_json,
        ob_ParentKey = e_ParentKey note_event, ob_Branch = e_Branch note_event, ob_Kind = e_Kind note_event, ob_Role = e_Role note_event,
        ob_Model = e_Model note_event, ob_Provider = e_Provider note_event, ob_Tool = e_Tool note_event, ob_CallID = e_CallID note_event,
        ob_Time = canonicalTime [], ob_Text = e_Text note_event, ob_JSON = note_json\<rparr>],
      observation_revisions := [\<lparr>or_Observation = 1, or_Revision = 1, or_Text = note_text\<rparr>],
      chunks := [\<lparr>c_ID = 1, c_Observation = 1, c_Revision = 1, c_Event = eventSeq s + 1, c_Content = note_text\<rparr>],
      events := [\<lparr>ev_ID = eventSeq s + 1, ev_Trace = 1, ev_Key = ''k'', ev_SortTime = canonicalTime [], ev_SortKey = ''k'', ev_Preferred = Some 1\<rparr>]\<rparr>"

lemma note_commit:
  assumes "traces s = []" "revisions s = []" "revision_machines s = []" "revision_objects s = []" "source_objects s = []"
    "events s = []" "observations s = []" "observation_revisions s = []" "chunks s = []" "observation_sources s = []"
  shows "commitRevision [] note_manifest note_trace note_result [note_object] s =
    Inr (recordRun 1 1 ''normalized'' [] [] (note_attached (note_rows s)), 1, True, [])"
proof -
  have "update_trace 1 (fill_title []) s' = s'" for s' :: Store
    by (simp add: update_trace_def update_where_def fill_title_def cong: if_cong)
  moreover have "storedTitles (note_rows s) 1 = Inr ([], [])" by (simp add: storedTitles_def note_rows_def found_def)
  moreover have "insertEvents 1 1 (searchLabels note_trace [[], []]) [note_event] (note_rows s) = Inr (note_attached (note_rows s), [])"
    unfolding note_attached_def by (rule note_insert) (simp_all add: note_rows_def assms, simp)
  moreover have "n_Events note_result = [note_event]" "n_Version note_result = 1" "n_Status note_result = ''normalized''"
    "n_Warnings note_result = []" "n_Title note_result = []" by (simp_all add: note_result_def)
  ultimately show ?thesis
    using assms(1) by (simp add: commitRevision_def note_begin assms Let_def trace_id_def)
qed

definition note_store :: Store where
  "note_store = fst (Import (\<lambda>_. []) note_run note_manifest note_files empty_store)"

lemma note_stored:
  "storeObjects (\<lambda>name. if ValidPath name then note_files (''t/'' @ name) else None) (d_Files note_trace) [] =
     ([(object_path note_digest, ''{}'')], Inr [note_object])"
proof -
  have "ValidPath ''a''" by (auto simp: ValidPath_def ContainsAny_def intro!: ascii_ValidString)
  moreover have "TrimPrefix (''sha256:'' @ note_digest) ''sha256:'' = note_digest" by (simp add: TrimPrefix_def)
  moreover have "length note_digest = 64" by (simp add: note_digest_def)
  ultimately show ?thesis
    by (simp add: note_descriptor note_files_def writeObject_def Let_def note_object_def note_digest_def)
qed

lemma note_normalized: "normalizeResult note_run d source = (note_result, None)"
  by (simp add: normalizeResult_def note_run_def note_result_def Let_def validateEvents_def note_parts)

lemma note_imported:
  assumes "traces s = []" "revisions s = []" "revision_machines s = []" "revision_objects s = []" "source_objects s = []"
    "events s = []" "observations s = []" "observation_revisions s = []" "chunks s = []" "observation_sources s = []"
    "objects_dir s = []"
  shows "importTrace [] note_run note_manifest note_trace note_files s =
    (recordRun 1 1 ''normalized'' [] [] (note_attached (note_rows (s\<lparr>objects_dir := [(object_path note_digest, ''{}'')]\<rparr>))),
     (start_outcome note_trace)\<lparr>o_TraceID := 1, o_Status := ''imported''\<rparr>)"
proof -
  have "ValidPath ''t''" by (auto simp: ValidPath_def ContainsAny_def intro!: ascii_ValidString)
  then have "Sub note_files (d_Path note_trace) = Inr (\<lambda>name. if ValidPath name then note_files (''t/'' @ name) else None)"
    by (simp add: Sub_def note_descriptor fun_eq_iff)
  then show ?thesis
    using assms by (simp add: importTrace_def note_stored Let_def find_revision_def trace_id_def new_revision_def note_normalized note_commit)
     (simp add: note_result_def note_error_def warn_def start_outcome_def)
qed

lemma note_store_eq:
  "\<exists>ms ims sums. note_store = (recordRun 1 1 ''normalized'' [] [] (note_attached (note_rows (empty_store\<lparr>objects_dir := [(object_path note_digest, ''{}'')]\<rparr>))))
     \<lparr>machines := ms, imports_table := ims, summaries := sums, importSeq := 1\<rparr>"
proof -
  let ?r = "zero_Report\<lparr>ir_CreatedAt := [], ir_Machine := mf_SourceMachine note_manifest\<rparr>"
  let ?dir = "\<lambda>s. s\<lparr>objects_dir := [(object_path note_digest, ''{}'')]\<rparr>"
  obtain s1 r1 where b: "beginImport ?r empty_store = (s1, r1)" by force
  then obtain ms ims where s1: "s1 = empty_store\<lparr>machines := ms, imports_table := ims, importSeq := 1, runningImport := 1\<rparr>"
    by (auto simp: beginImport_def Let_def empty_store_def)
  obtain out where t: "importTrace [] note_run note_manifest note_trace note_files s1 =
      (recordRun 1 1 ''normalized'' [] [] (note_attached (note_rows (?dir s1))), out)"
    using note_imported [of s1] by (simp add: s1 empty_store_def)
  define s2 where "s2 = recordRun 1 1 ''normalized'' [] [] (note_attached (note_rows (?dir s1)))"
  obtain r2 p where ts: "import_traces (\<lambda>_. []) note_run note_manifest note_files 0 (mf_Traces note_manifest)
      (s1, r1, [normalizing 0 (length (mf_Traces note_manifest)) None]) = (s2, r2, p)"
    by (simp add: note_manifest_parts t s2_def)
  have "\<exists>b e. note_store = s2\<lparr>imports_table := b, summaries := e, runningImport := 0\<rparr>"
    unfolding note_store_def by (rule Import_store [OF b ts])
  then show ?thesis
    by (auto simp: s2_def s1 recordRun_def note_attached_def note_rows_def empty_store_def)
qed

end
