(* ===== verification/StoreLog.thy ===== *)
theory StoreLog
  imports StoreObjects
begin

text \<open>
  The log of imports: the ids of an import are given once, so an import always gets its summary.
\<close>

subsection \<open>Statements that leave the log alone\<close>

definition same_log :: "Store \<Rightarrow> Store \<Rightarrow> bool" where
  "same_log s s' \<longleftrightarrow> importSeq s' = importSeq s \<and> summaries s' = summaries s \<and>
     imports_table s' = imports_table s \<and> machines s' = machines s"

lemma same_log_refl: "same_log s s"
  by (simp add: same_log_def)

lemma same_log_trans: "same_log s s' \<Longrightarrow> same_log s' s'' \<Longrightarrow> same_log s s''"
  by (simp add: same_log_def)

lemma same_objects_log: "same_objects s s' \<Longrightarrow> same_log s s'"
  by (simp add: same_objects_def same_log_def)

lemma insert_objects_log: "insert_objects j bs s = Inr s' \<Longrightarrow> same_log s s'"
proof (induction j bs s rule: insert_objects.induct)
  case (2 j b bs s)
  then obtain rows where "insert_objects j bs (s\<lparr>source_objects := insert_or_ignore so_Digest
      \<lparr>so_Digest = st_digest b, so_Size = st_size b, so_Path = object_path (st_digest b)\<rparr> (source_objects s), revision_objects := rows\<rparr>) = Inr s'"
    by (auto simp: bind_result_Inr_iff)
  with 2 show ?case by (auto simp: bind_result_Inr_iff same_log_def)
qed (simp add: same_log_def)

lemma begin_revision_log: "begin_revision now manifest d n stored s = Inr (s', i, j) \<Longrightarrow> same_log s s'"
  by (auto simp: begin_revision_def Let_def bind_result_Inr_iff insert_revision_def insert_trace_def update_trace_def same_log_def
      dest!: insert_objects_log upsertRepository_objects [THEN same_objects_log])

lemma commitRevision_log:
  assumes "commitRevision now manifest d n stored s = Inr (s', r)"
  shows "same_log s s'"
proof -
  from assms obtain s1 i j labels s2 w where
    b: "begin_revision now manifest d n stored s = Inr (s1, i, j)" and e: "insertEvents i j labels (n_Events n) s1 = Inr (s2, w)"
    and s': "s' = recordRun j (n_Version n) (n_Status n) (n_Warnings n @ w) now (update_trace i (fill_title (n_Title n)) s2)"
    by (auto simp: commitRevision_def Let_def bind_result_Inr_iff)
  have "same_log s2 s'" by (simp add: s' recordRun_def update_trace_def same_log_def)
  then show ?thesis using begin_revision_log [OF b] same_objects_log [OF insertEvents_objects [OF e]] same_log_trans by blast
qed

lemma new_revision_log: "same_log s (fst (new_revision now run manifest d source stored out s))"
proof -
  obtain n e where n: "normalizeResult run d source = (n, e)" by force
  show ?thesis
  proof (cases "commitRevision now manifest d n stored s")
    case (Inr p)
    obtain s' x where p: "p = (s', x)" by (cases p) auto
    from commitRevision_log [OF Inr [unfolded p]] show ?thesis by (simp add: new_revision_def n Inr p split: prod.split)
  qed (simp add: new_revision_def n same_log_refl)
qed

lemma importTrace_log: "same_log s (fst (importTrace now run manifest d sources s))"
proof (cases "Sub sources (d_Path d)")
  case (Inr source)
  obtain dir r where r: "storeObjects source (d_Files d) (objects_dir s) = (dir, r)" by force
  let ?s = "s\<lparr>objects_dir := dir\<rparr>"
  have s: "same_log s ?s" by (simp add: same_log_def)
  have "same_log s (fst (new_revision now run manifest d source stored out ?s))" for stored out
    using same_log_trans [OF s new_revision_log] .
  moreover have "same_log s (fst (known_revision now run manifest d source j i status out ?s))" for out j i status
    using same_log_trans [OF s same_objects_log [OF known_revision_objects]] .
  ultimately show ?thesis using s by (simp add: importTrace_def Inr r Let_def split: sum.split option.split)
qed (simp add: importTrace_def same_log_refl)

lemma import_traces_log: "same_log (fst st) (fst (import_traces clock run manifest sources n ds st))"
proof (induction clock run manifest sources n ds st rule: import_traces.induct)
  case (2 clock run manifest sources i d ds s report progress)
  obtain s' out where t: "importTrace (clock (i + 1)) run manifest d sources s = (s', out)" by force
  have "same_log s s'" using importTrace_log [of s "clock (i + 1)" run manifest d sources] t by simp
  from same_log_trans [OF this 2 [OF t [symmetric], simplified]] show ?case using t by simp
qed (simp add: same_log_refl)

subsection \<open>Ids of imports\<close>

definition log_ok :: "Store \<Rightarrow> bool" where
  "log_ok s \<longleftrightarrow> 0 \<le> importSeq s \<and> list_all (\<lambda>(i, x). i \<le> importSeq s \<and> is_ID x = i) (summaries s) \<and>
     distinct (map im_ID (imports_table s)) \<and>
     list_all (\<lambda>r. 0 < im_ID r \<and> im_ID r \<le> importSeq s \<and> im_Machine r \<in> sm_ID ` set (machines s)) (imports_table s)"

lemma log_ok_same: "log_ok s \<Longrightarrow> same_log s s' \<Longrightarrow> log_ok s'"
  by (simp add: log_ok_def same_log_def)

lemma see_machine_ids: "sm_ID ` set (see_machine m now rows) = insert (m_ID m) (sm_ID ` set rows)"
proof -
  have "sm_ID ` set (update_where (\<lambda>r. sm_ID r = m_ID m) (\<lambda>r. r\<lparr>sm_Hostname := m_Hostname m, sm_OS := m_OS m,
      sm_Arch := m_Arch m, sm_LastSeen := now\<rparr>) rows) = sm_ID ` set rows"
    by (rule image_update_where) simp
  then show ?thesis by (simp add: see_machine_def insert_absorb)
qed

lemma beginImport_log: "log_ok s \<Longrightarrow> log_ok (fst (beginImport r s))"
  by (fastforce simp: log_ok_def beginImport_def Let_def list_all_iff see_machine_ids)

lemma finish_import_log:
  assumes "log_ok s" "ir_ID r \<le> importSeq s" "finish_import r s = Inr s'"
  shows "log_ok s' \<and> importSeq s' = importSeq s \<and> map im_ID (imports_table s') = map im_ID (imports_table s)"
proof -
  have s': "s' = s\<lparr>imports_table := update_where (\<lambda>q. im_ID q = ir_ID r) (\<lambda>q. q\<lparr>im_Report := Some r\<rparr>) (imports_table s),
      summaries := summaries s @ [(ir_ID r, summary_of r)]\<rparr>"
    using assms(3) by (auto simp: finish_import_def bind_result_Inr_iff insert_unique_iff)
  have "is_ID (summary_of r) = ir_ID r" by (simp add: summary_of_def)
  with assms(1,2) show ?thesis
    by (auto simp: s' log_ok_def list_all_iff update_where_key [of im_ID] set_update_where)
qed

lemma import_traces_report: "ir_ID (fst (snd (import_traces clock run manifest sources n ds st))) = ir_ID (fst (snd st))"
proof (induction clock run manifest sources n ds st rule: import_traces.induct)
  case (2 clock run manifest sources i d ds s report progress)
  obtain s' out where t: "importTrace (clock (i + 1)) run manifest d sources s = (s', out)" by force
  have "ir_ID (countOutcome w r) = ir_ID r" for w r by (simp add: countOutcome_def)
  with 2 [OF t [symmetric]] show ?case using t by simp
qed simp

text \<open>The import gets a new id, so its summary can be inserted.\<close>

lemma Import_adds:
  assumes "log_ok s"
  shows "\<exists>s' r ps. Import clock run manifest sources s = (s', Inr r, ps) \<and> ir_ID r = importSeq s + 1 \<and> log_ok s' \<and>
    importSeq s' = importSeq s + 1 \<and> map im_ID (imports_table s') = map im_ID (imports_table s) @ [importSeq s + 1]"
proof -
  define b where "b = beginImport (zero_Report\<lparr>ir_CreatedAt := clock 0, ir_Machine := mf_SourceMachine manifest\<rparr>) s"
  obtain s1 r1 where b: "b = (s1, r1)" by force
  have b': "importSeq s1 = importSeq s + 1" "summaries s1 = summaries s" "ir_ID r1 = importSeq s + 1"
    using b by (auto simp: b_def beginImport_def Let_def)
  have ok1: "log_ok s1" using beginImport_log [OF assms] b by (metis b_def fst_conv)
  obtain s2 r2 p where t: "import_traces clock run manifest sources 0 (mf_Traces manifest)
    (s1, r1, [normalizing 0 (length (mf_Traces manifest)) None]) = (s2, r2, p)" by (metis prod.collapse)
  have same: "same_log s1 s2"
    using import_traces_log [of "(s1, r1, [normalizing 0 (length (mf_Traces manifest)) None])" clock run manifest sources 0 "mf_Traces manifest"] t
    by simp
  then have s2: "importSeq s2 = importSeq s + 1" "summaries s2 = summaries s" using b' by (simp_all add: same_log_def)
  have r2: "ir_ID r2 = importSeq s + 1"
    using import_traces_report [of clock run manifest sources 0 "mf_Traces manifest" "(s1, r1, [normalizing 0 (length (mf_Traces manifest)) None])"] t b'
    by simp
  have "importSeq s + 1 \<notin> fst ` set (summaries s2)" using assms s2(2) by (auto simp: log_ok_def list_all_iff)
  then obtain s3 where f: "finish_import (r2\<lparr>ir_Complete := True\<rparr>) s2 = Inr s3"
    by (simp add: finish_import_def insert_unique_def r2)
  have i1: "map im_ID (imports_table s1) = map im_ID (imports_table s) @ [importSeq s + 1]"
    using b by (auto simp: b_def beginImport_def Let_def)
  have ok2: "log_ok s2" by (rule log_ok_same [OF ok1 same])
  have s3: "log_ok s3" "importSeq s3 = importSeq s2" "map im_ID (imports_table s3) = map im_ID (imports_table s2)"
    using finish_import_log [OF ok2 _ f] by (simp_all add: r2 s2)
  have "imports_table s2 = imports_table s1" using same by (simp add: same_log_def)
  then have "importSeq s3 = importSeq s + 1" "map im_ID (imports_table s3) = map im_ID (imports_table s) @ [importSeq s + 1]"
    using s2(1) s3 i1 by simp_all
  moreover have "log_ok (s3\<lparr>runningImport := 0\<rparr>)" using s3(1) by (simp add: log_ok_def)
  ultimately show ?thesis by (simp add: Import_def Let_def b_def [symmetric] b t r2 f)
qed

lemma Import_finishes:
  assumes "log_ok s"
  shows "\<exists>s' r ps. Import clock run manifest sources s = (s', Inr r, ps) \<and> ir_ID r = importSeq s + 1 \<and> log_ok s'"
  using Import_adds [OF assms] by blast

interpretation log: kept log_ok
proof
  fix s s' :: Store and i j title clock run manifest sources now version item
  assume ok: "log_ok s"
  show "log_ok (fst (Import clock run manifest sources s))"
    using Import_finishes [OF ok, of clock run manifest sources] by auto
  have gc: "same_log s (gc s)" for s
    unfolding same_log_def by (intro conjI; rule gc_frame; simp)
  show "log_ok (gc s)" using log_ok_same [OF ok gc] .
  show "log_ok s'" if "DeleteTrace i s = Inr s'"
    using that log_ok_same [OF log_ok_same [OF ok same_objects_log [OF delete_objects(5)]] gc] by (auto simp: DeleteTrace_def split: if_splits)
  show "log_ok s'" if "SetTitleOverride i title s = Inr s'"
    using log_ok_same [OF ok same_objects_log [OF SetTitleOverride_objects [OF that]]] .
  show "log_ok s'" if "SetGeneratedTitle i j title s = Inr s'"
    using log_ok_same [OF ok same_objects_log [OF SetGeneratedTitle_objects [OF that]]] .
  show "log_ok s'" if "renormalize_one now version run item s = Inr s'"
    using log_ok_same [OF ok same_objects_log [OF renormalize_one_objects [OF that]]] .
qed (simp add: log_ok_def empty_store_def)

end
