(* ===== verification/StoreTables.thy ===== *)
theory StoreTables
  imports StoreLog
begin

text \<open>
  The keys and foreign keys of the tables around the revisions: the machines and repositories a trace comes from, the files
  and normalizer runs of a revision, the aliases of its events, the source references and chunks of an observation, and the
  summaries of the imports.  \<open>StoreInvariant\<close> has those of the traces, revisions, events and observations, \<open>StoreObjects\<close> the source
  objects and \<open>StoreLog\<close> the imports.
\<close>

subsection \<open>Keys and foreign keys\<close>

definition repositories_ok :: "Store \<Rightarrow> bool" where
  "repositories_ok s \<longleftrightarrow>
     distinct (map rp_ID (repositories s)) \<and> distinct (map rp_Identity (repositories s)) \<and> distinct (repository_paths s) \<and>
     fst ` set (repository_paths s) \<subseteq> rp_ID ` set (repositories s) \<and>
     t_Repository ` set (traces s) \<subseteq> insert None (Some ` rp_ID ` set (repositories s))"

definition revision_rows_ok :: "Store \<Rightarrow> bool" where
  "revision_rows_ok s \<longleftrightarrow>
     distinct (map sm_ID (machines s)) \<and>
     distinct (revision_machines s) \<and> fst ` set (revision_machines s) \<subseteq> v_ID ` set (revisions s) \<and>
     snd ` set (revision_machines s) \<subseteq> sm_ID ` set (machines s) \<and>
     distinct (map (\<lambda>q. (ro_Revision q, ro_Path q)) (revision_objects s)) \<and>
     ro_Revision ` set (revision_objects s) \<subseteq> v_ID ` set (revisions s) \<and>
     distinct (map nr_ID (runs s)) \<and> nr_Revision ` set (runs s) \<subseteq> v_ID ` set (revisions s)"

definition aliases_ok :: "Store \<Rightarrow> bool" where
  "aliases_ok s \<longleftrightarrow> distinct (map (\<lambda>a. (al_Trace a, al_LegacyKey a)) (aliases s)) \<and> al_Trace ` set (aliases s) \<subseteq> t_ID ` set (traces s)"

definition attached_ok :: "Store \<Rightarrow> bool" where
  "attached_ok s \<longleftrightarrow> distinct (map (\<lambda>u. (os_Observation u, os_Revision u, os_Ordinal u)) (observation_sources s)) \<and>
     distinct (map c_ID (chunks s))"

definition tables_ok :: "Store \<Rightarrow> bool" where
  "tables_ok s \<longleftrightarrow> repositories_ok s \<and> revision_rows_ok s \<and> aliases_ok s \<and> attached_ok s"

subsection \<open>Statements that leave these tables alone\<close>

definition same_tables :: "Store \<Rightarrow> Store \<Rightarrow> bool" where
  "same_tables s s' \<longleftrightarrow>
     repositories s' = repositories s \<and> repository_paths s' = repository_paths s \<and> machines s' = machines s \<and>
     revision_machines s' = revision_machines s \<and> revision_objects s' = revision_objects s \<and> runs s' = runs s \<and>
     aliases s' = aliases s \<and> map (\<lambda>t. (t_ID t, t_Repository t)) (traces s') = map (\<lambda>t. (t_ID t, t_Repository t)) (traces s) \<and>
     map v_ID (revisions s') = map v_ID (revisions s) \<and> (attached_ok s \<longrightarrow> attached_ok s')"

lemma same_tables_refl: "same_tables s s"
  by (simp add: same_tables_def)

lemma same_tables_trans: "same_tables s s' \<Longrightarrow> same_tables s' s'' \<Longrightarrow> same_tables s s''"
  by (simp add: same_tables_def)

lemma same_tables_traces: "same_tables s s' \<Longrightarrow> t_ID ` set (traces s') = t_ID ` set (traces s) \<and> t_Repository ` set (traces s') = t_Repository ` set (traces s)"
proof -
  assume "same_tables s s'"
  then have "(\<lambda>t. (t_ID t, t_Repository t)) ` set (traces s') = (\<lambda>t. (t_ID t, t_Repository t)) ` set (traces s)"
    unfolding same_tables_def by (metis list.set_map)
  then have "fst ` (\<lambda>t. (t_ID t, t_Repository t)) ` set (traces s') = fst ` (\<lambda>t. (t_ID t, t_Repository t)) ` set (traces s)"
    "snd ` (\<lambda>t. (t_ID t, t_Repository t)) ` set (traces s') = snd ` (\<lambda>t. (t_ID t, t_Repository t)) ` set (traces s)" by simp_all
  then show ?thesis by (simp add: image_image)
qed

lemma same_tables_revisions: "same_tables s s' \<Longrightarrow> v_ID ` set (revisions s') = v_ID ` set (revisions s)"
  unfolding same_tables_def by (metis list.set_map)

lemma tables_ok_same: "tables_ok s \<Longrightarrow> same_tables s s' \<Longrightarrow> tables_ok s'"
  using same_tables_traces [of s s'] same_tables_revisions [of s s']
  by (simp add: tables_ok_def repositories_ok_def revision_rows_ok_def aliases_ok_def same_tables_def)

lemma attached_delete:
  "attached_ok s \<Longrightarrow> observation_sources s' = filter A (observation_sources s) \<Longrightarrow> chunks s' = filter B (chunks s) \<Longrightarrow> attached_ok s'"
  by (simp add: attached_ok_def distinct_map_filter)

lemma delete_links_tables: "same_tables s (delete_observation_revisions P s)"
  by (auto simp: same_tables_def delete_observation_revisions_def Let_def delete_where_def intro: attached_delete)

lemma delete_observations_tables: "same_tables s (delete_observations P s)"
  unfolding delete_observations_def Let_def
  by (rule same_tables_trans [OF _ delete_links_tables]) (simp add: same_tables_def attached_ok_def)

lemma delete_events_tables: "same_tables s (delete_events P s)"
proof -
  let ?s = "s\<lparr>events := delete_where P (events s)\<rparr>" and ?ids = "set (map ev_ID (filter P (events s)))"
  define s1 where "s1 = delete_observations (\<lambda>q. ob_Event q \<in> ?ids) ?s"
  have "same_tables s ?s" by (simp add: same_tables_def attached_ok_def)
  then have "same_tables s s1" unfolding s1_def using delete_observations_tables same_tables_trans by blast
  moreover have "same_tables s1 (s1\<lparr>chunks := delete_where (\<lambda>c. c_Event c \<in> ?ids) (chunks s1)\<rparr>)"
    by (simp add: same_tables_def attached_ok_def distinct_delete_where)
  ultimately show ?thesis unfolding delete_events_def Let_def s1_def using same_tables_trans by blast
qed

lemma update_trace_tables: "(\<And>t. t_ID (f t) = t_ID t) \<Longrightarrow> (\<And>t. t_Repository (f t) = t_Repository t) \<Longrightarrow> same_tables s (update_trace i f s)"
  by (simp add: same_tables_def update_trace_def update_where_def attached_ok_def)

subsection \<open>Events\<close>

lemma insert_sources_keys:
  "insert_sources k j n srcs rows = Inr (rows', m) \<Longrightarrow> distinct (map (\<lambda>u. (os_Observation u, os_Revision u, os_Ordinal u)) rows) \<Longrightarrow>
   distinct (map (\<lambda>u. (os_Observation u, os_Revision u, os_Ordinal u)) rows')"
proof (induction k j n srcs rows rule: insert_sources.induct)
  case (2 k j n src srcs rows)
  then show ?case by (auto simp: bind_result_Inr_iff insert_unique_iff)
qed simp

lemma add_chunks_ids: "distinct (map c_ID rows) \<Longrightarrow> distinct (map c_ID (add_chunks k j e cs rows))"
proof (induction k j e cs rows rule: add_chunks.induct)
  case (2 k j e c cs rows)
  have "next_rowid (map c_ID rows) \<notin> c_ID ` set rows" using next_rowid_new [of "map c_ID rows"] by simp
  with 2 show ?case by simp
qed simp

lemma insert_chunks_ids: "insert_chunks k j e w rows = Inr rows' \<Longrightarrow> distinct (map c_ID rows) \<Longrightarrow> distinct (map c_ID rows')"
  using add_chunks_ids by (auto simp: insert_chunks_def split: option.splits)

lemma attach_tables: "attach_observation k j i w e st = Inr st' \<Longrightarrow> same_tables (in_Store st) (in_Store st')"
  by (auto simp: attach_observation_def Let_def bind_result_Inr_iff same_tables_def link_revision_def set_preferred_def attached_ok_def
      dest: insert_sources_keys insert_chunks_ids split: if_splits)

lemma insert_event_tables:
  assumes "insert_event i j labels e st = Inr st'"
  shows "same_tables (in_Store st) (in_Store st')"
proof -
  obtain k n digest encoded bare w st0 where
    a: "attach_observation k j n w e st0 = Inr st'" "in_Store st0 = ensure_observation n digest encoded bare (ensure_event i e (in_Store st))"
    using assms by (fastforce simp: insert_event_def Let_def bind_result_Inr_iff split: if_splits)
  have "same_tables (in_Store st) (in_Store st0)"
    by (simp add: a(2) ensure_event_def ensure_observation_def same_tables_def attached_ok_def)
  from same_tables_trans [OF this attach_tables [OF a(1)]] show ?thesis .
qed

lemma insertEvents_tables:
  assumes "insertEvents i j labels es s = Inr (s', w)"
  shows "same_tables s s'"
proof -
  have "insert_each i j labels es st = Inr st' \<Longrightarrow> same_tables (in_Store st) (in_Store st')" for st st'
    by (induction i j labels es st rule: insert_each.induct)
      (auto simp: bind_result_Inr_iff same_tables_refl dest!: insert_event_tables intro: same_tables_trans)
  with assms show ?thesis by (fastforce simp: insertEvents_def bind_result_Inr_iff)
qed

lemma rechunk_ids: "rechunk j texts rows = Inr rows' \<Longrightarrow> distinct (map c_ID rows) \<Longrightarrow> distinct (map c_ID rows')"
  by (induction j texts rows rule: rechunk.induct) (auto simp: bind_result_Inr_iff dest: insert_chunks_ids)

lemma reindexTraceSearch_tables: "reindexTraceSearch i s = Inr s' \<Longrightarrow> same_tables s s'"
proof -
  have "same_tables s s'" if "reindexRevisionSearch j labels s = Inr s'" for j labels s s'
    using that by (auto simp: reindexRevisionSearch_def bind_result_Inr_iff same_tables_def attached_ok_def distinct_delete_where dest: rechunk_ids)
  then have "reindex_each labels js s = Inr s' \<Longrightarrow> same_tables s s'" for labels js s s'
  proof (induction labels js s rule: reindex_each.induct)
    case (2 labels r rs s)
    then obtain s1 where "reindexRevisionSearch r labels s = Inr s1" "reindex_each labels rs s1 = Inr s'" by (auto simp: bind_result_Inr_iff)
    with 2 show ?case using same_tables_trans by blast
  qed (simp add: same_tables_refl)
  then show "reindexTraceSearch i s = Inr s' \<Longrightarrow> same_tables s s'"
    by (auto simp: reindexTraceSearch_def bind_result_Inr_iff)
qed

subsection \<open>Repositories\<close>

text \<open>A repository is there before a trace refers to it.\<close>

definition known_repository :: "Store \<Rightarrow> int option \<Rightarrow> bool" where
  "known_repository s k \<longleftrightarrow> k \<in> insert None (Some ` rp_ID ` set (repositories s))"

lemma upsertRepository_tables:
  assumes ok: "tables_ok s" and up: "upsertRepository m r s = Inr (s', k)"
  shows "tables_ok s'" "known_repository s' k" "traces s' = traces s"
proof -
  have "tables_ok s' \<and> known_repository s' k \<and> traces s' = traces s"
  proof (cases "r = zero_Repository")
    case False
    define row where "row = \<lparr>rp_ID = next_rowid (map rp_ID (repositories s)), rp_Identity = repository_identity m r,
      rp_Remote = r_Remote r, rp_Root = r_Root r\<rparr>"
    define rows where "rows = insert_or_ignore rp_Identity row (repositories s)"
    obtain q where q: "find (\<lambda>q. rp_Identity q = repository_identity m r) rows = Some q" "k = Some (rp_ID q)"
      and s': "s' = s\<lparr>repositories := rows, repository_paths := (if r_Root r = [] then repository_paths s
          else insert_or_ignore id (rp_ID q, r_Root r) (repository_paths s))\<rparr>"
      using up False by (auto simp: upsertRepository_def Let_def bind_result_Inr_iff rows_def row_def)
    have mem: "q \<in> set rows" using q(1) by (metis find_SomeD)
    have fresh: "rp_ID row \<notin> rp_ID ` set (repositories s)" using next_rowid_new [of "map rp_ID (repositories s)"] by (simp add: row_def)
    have rows: "distinct (map rp_ID rows)" "distinct (map rp_Identity rows)" "set (repositories s) \<subseteq> set rows"
      using ok fresh by (auto simp: rows_def insert_or_ignore_def tables_ok_def repositories_ok_def)
    have ids: "rp_ID ` set (repositories s) \<subseteq> rp_ID ` set rows" using rows(3) by blast
    note old = ok [unfolded tables_ok_def repositories_ok_def]
    have "fst ` set (repository_paths s') \<subseteq> rp_ID ` set rows"
    proof -
      have "fst ` set (repository_paths s') \<subseteq> insert (rp_ID q) (fst ` set (repository_paths s))"
        using set_insert_or_ignore [of id "(rp_ID q, r_Root r)" "repository_paths s"] by (auto simp: s')
      moreover have "fst ` set (repository_paths s) \<subseteq> rp_ID ` set rows" using old ids by (meson order_trans)
      moreover have "rp_ID q \<in> rp_ID ` set rows" using mem by (rule imageI)
      ultimately show ?thesis by (meson insert_subsetI order_trans)
    qed
    moreover have "t_Repository ` set (traces s) \<subseteq> insert None (Some ` rp_ID ` set rows)"
      using old image_mono [OF ids, of Some] by (meson insert_mono order_trans)
    moreover have "distinct (repository_paths s')"
      using old distinct_insert_or_ignore [of id "repository_paths s"] by (simp add: s')
    ultimately have "repositories_ok s'" using rows by (simp add: s' repositories_ok_def)
    moreover have "revision_rows_ok s'" "aliases_ok s'" "attached_ok s'"
      using ok by (simp_all add: s' tables_ok_def revision_rows_ok_def aliases_ok_def attached_ok_def)
    ultimately show ?thesis using mem q(2) by (auto simp: tables_ok_def known_repository_def s')
  qed (use up ok in \<open>simp add: upsertRepository_def known_repository_def\<close>)
  then show "tables_ok s'" "known_repository s' k" "traces s' = traces s" by simp_all
qed

lemma tables_ok_traces:
  assumes "tables_ok s" "t_ID ` set (traces s) \<subseteq> t_ID ` set ts" "\<And>t. t \<in> set ts \<Longrightarrow> t_Repository t \<in> t_Repository ` set (traces s) \<or> known_repository s (t_Repository t)"
  shows "tables_ok (s\<lparr>traces := ts\<rparr>)"
proof -
  have "repositories_ok (s\<lparr>traces := ts\<rparr>)"
    using assms(1,3) by (auto simp: tables_ok_def repositories_ok_def known_repository_def) blast
  moreover have "aliases_ok (s\<lparr>traces := ts\<rparr>)"
    using assms(1) subset_trans [OF _ assms(2), of "al_Trace ` set (aliases s)"] by (simp add: tables_ok_def aliases_ok_def)
  ultimately show ?thesis using assms(1) by (simp add: tables_ok_def revision_rows_ok_def attached_ok_def)
qed

lemma update_trace_repository:
  assumes "tables_ok s" "\<And>t. t_ID (f t) = t_ID t" "\<And>t. t_Repository (f t) = t_Repository t \<or> known_repository s (t_Repository (f t))"
  shows "tables_ok (update_trace i f s)"
  unfolding update_trace_def
proof (rule tables_ok_traces [OF assms(1)])
  show "t_ID ` set (traces s) \<subseteq> t_ID ` set (update_where (\<lambda>t. t_ID t = i) f (traces s))"
    using image_update_where [of t_ID f] assms(2) by simp
  show "t_Repository t \<in> t_Repository ` set (traces s) \<or> known_repository s (t_Repository t)"
    if "t \<in> set (update_where (\<lambda>t. t_ID t = i) f (traces s))" for t
    using that assms(3) by (auto simp: set_update_where split: if_splits)
qed

subsection \<open>Revisions\<close>

lemma recordRun_tables:
  assumes "tables_ok s" "j \<in> v_ID ` set (revisions s)"
  shows "tables_ok (recordRun j v st ws now s)"
proof -
  have "next_rowid (map nr_ID (runs s)) \<notin> nr_ID ` set (runs s)" using next_rowid_new [of "map nr_ID (runs s)"] by simp
  with assms show ?thesis
    by (auto simp: tables_ok_def recordRun_def repositories_ok_def revision_rows_ok_def aliases_ok_def attached_ok_def)
qed

lemma see_revision_tables:
  assumes "tables_ok s" "j \<in> v_ID ` set (revisions s)" "m \<in> sm_ID ` set (machines s)"
  shows "tables_ok (s\<lparr>revision_machines := insert_or_ignore id (j, m) (revision_machines s)\<rparr>)"
  using assms by (auto simp: tables_ok_def repositories_ok_def revision_rows_ok_def aliases_ok_def attached_ok_def insert_or_ignore_def)

lemma insert_revision_tables:
  assumes ok: "tables_ok s" and m: "m_ID (mf_SourceMachine manifest) \<in> sm_ID ` set (machines s)"
    and ins: "insert_revision i manifest d n now s = Inr (s', j)"
  shows "tables_ok s' \<and> j \<in> v_ID ` set (revisions s')"
proof -
  let ?row = "revision_row i manifest d n now s"
  have s': "s' = s\<lparr>revisions := revisions s @ [?row], revision_machines := revision_machines s @ [(v_ID ?row, m_ID (mf_SourceMachine manifest))]\<rparr>"
    "(v_ID ?row, m_ID (mf_SourceMachine manifest)) \<notin> set (revision_machines s)" "j = v_ID ?row"
    using ins by (auto simp: insert_revision_def Let_def bind_result_Inr_iff insert_unique_iff)
  show ?thesis
    using ok m s'(2) by (auto simp: s'(1,3) tables_ok_def repositories_ok_def revision_rows_ok_def aliases_ok_def attached_ok_def)
qed

lemma insert_objects_tables:
  "insert_objects j bs s = Inr s' \<Longrightarrow> tables_ok s \<Longrightarrow> j \<in> v_ID ` set (revisions s) \<Longrightarrow> tables_ok s' \<and> revisions s' = revisions s \<and> machines s' = machines s"
proof (induction j bs s rule: insert_objects.induct)
  case (2 j b bs s)
  let ?q = "\<lparr>ro_Revision = j, ro_Path = st_path b, ro_Digest = st_digest b\<rparr>"
  let ?s = "s\<lparr>source_objects := insert_or_ignore so_Digest \<lparr>so_Digest = st_digest b, so_Size = st_size b, so_Path = object_path (st_digest b)\<rparr> (source_objects s),
      revision_objects := revision_objects s @ [?q]\<rparr>"
  have new: "(j, st_path b) \<notin> (\<lambda>q. (ro_Revision q, ro_Path q)) ` set (revision_objects s)" and rest: "insert_objects j bs ?s = Inr s'"
    using 2(2) by (auto simp: bind_result_Inr_iff insert_unique_iff)
  have "insert_unique (\<lambda>q. (ro_Revision q, ro_Path q)) ?q (revision_objects s) = Inr (revision_objects s @ [?q])"
    using new by (simp add: insert_unique_iff)
  moreover have "tables_ok ?s"
    using 2(3,4) new by (auto simp: tables_ok_def repositories_ok_def revision_rows_ok_def aliases_ok_def attached_ok_def)
  ultimately show ?case using 2(1) [OF _ _ , of "revision_objects s @ [?q]"] rest 2(4) by simp
qed simp

subsection \<open>Aliases\<close>

lemma insert_alias_tables:
  assumes "tables_ok s" "i \<in> t_ID ` set (traces s)"
  shows "tables_ok (insert_alias i k l s)"
proof (cases "event_id s i l")
  case (Some e)
  let ?a = "\<lparr>al_Trace = i, al_LegacyKey = l, al_LegacyID = e, al_EventKey = k\<rparr>"
  have "aliases_ok (insert_alias i k l s)"
    using assms Some by (auto simp: tables_ok_def aliases_ok_def insert_alias_def distinct_delete_where)
  then show ?thesis
    using assms(1) Some by (simp add: tables_ok_def insert_alias_def repositories_ok_def revision_rows_ok_def attached_ok_def)
qed (use assms in \<open>simp add: insert_alias_def\<close>)

lemma insert_alias_frame: "traces (insert_alias i k l s) = traces s" "revisions (insert_alias i k l s) = revisions s"
  "machines (insert_alias i k l s) = machines s"
  by (simp_all add: insert_alias_def split: option.split)

lemma insert_aliases_tables:
  assumes "tables_ok s" "i \<in> t_ID ` set (traces s)"
  shows "tables_ok (insert_aliases i es s) \<and> traces (insert_aliases i es s) = traces s \<and> revisions (insert_aliases i es s) = revisions s
    \<and> machines (insert_aliases i es s) = machines s"
proof -
  define good where "good = (\<lambda>s'. tables_ok s' \<and> traces s' = traces s \<and> revisions s' = revisions s \<and> machines s' = machines s)"
  have one: "good (insert_alias i k l s')" if "good s'" for k l s'
    using that assms(2) insert_alias_tables [of s' i k l] by (simp add: good_def insert_alias_frame)
  have many: "good (foldl (\<lambda>s l. insert_alias i k l s) s' ls)" if "good s'" for k ls s'
    using that by (induction ls arbitrary: s') (auto intro: one)
  have "good (foldl (\<lambda>s e. foldl (\<lambda>s l. insert_alias i (e_Key e) l s) s (e_LegacyKeys e)) s' es)" if "good s'" for s'
    using that by (induction es arbitrary: s') (auto intro: many)
  then show ?thesis using assms(1) by (simp add: good_def insert_aliases_def)
qed

subsection \<open>Committing and replacing\<close>

abbreviation machine_seen :: "Manifest \<Rightarrow> Store \<Rightarrow> bool" where
  "machine_seen manifest s \<equiv> m_ID (mf_SourceMachine manifest) \<in> sm_ID ` set (machines s)"

lemma begin_revision_tables:
  assumes ok: "tables_ok s" and m: "machine_seen manifest s" and b: "begin_revision now manifest d n stored s = Inr (s', i, j)"
  shows "tables_ok s' \<and> j \<in> v_ID ` set (revisions s')"
proof -
  let ?time = "metadata_time d now"
  from b obtain s1 k s2 where
    up: "upsertRepository (m_ID (mf_SourceMachine manifest)) (d_Repository d) s = Inr (s1, k)"
    and rev: "insert_revision i manifest d n ?time (update_trace i (newest_metadata d k ?time) (insert_trace d k now ?time s1)) = Inr (s2, j)"
    and objs: "insert_objects j stored s2 = Inr s'"
    by (auto simp: begin_revision_def Let_def bind_result_Inr_iff)
  note s1 = upsertRepository_tables [OF ok up]
  let ?s = "insert_trace d k now ?time s1"
  have trace: "tables_ok ?s"
    unfolding insert_trace_def
    by (rule tables_ok_traces [OF s1(1)]) (use s1(2) in \<open>auto simp: insert_or_ignore_def split: if_splits\<close>)
  have known: "known_repository ?s k" using s1(2) by (simp add: known_repository_def insert_trace_def)
  have "tables_ok (update_trace i (newest_metadata d k ?time) ?s)"
    by (rule update_trace_repository [OF trace]) (use known in \<open>auto simp: newest_metadata_def\<close>)
  moreover have "machines s1 = machines s" using upsertRepository_objects [OF up] by (simp add: same_objects_def)
  then have "machine_seen manifest (update_trace i (newest_metadata d k ?time) ?s)" using m by (simp add: update_trace_def insert_trace_def)
  ultimately have "tables_ok s2 \<and> j \<in> v_ID ` set (revisions s2)" using insert_revision_tables [OF _ _ rev] by blast
  then show ?thesis using insert_objects_tables [OF objs] by simp
qed

lemma commitRevision_tables:
  assumes "tables_ok s" "machine_seen manifest s" "commitRevision now manifest d n stored s = Inr (s', r)"
  shows "tables_ok s'"
proof -
  from assms(3) obtain s1 i j labels s2 w where
    b: "begin_revision now manifest d n stored s = Inr (s1, i, j)" and e: "insertEvents i j labels (n_Events n) s1 = Inr (s2, w)"
    and s': "s' = recordRun j (n_Version n) (n_Status n) (n_Warnings n @ w) now (update_trace i (fill_title (n_Title n)) s2)"
    by (auto simp: commitRevision_def Let_def bind_result_Inr_iff)
  have same: "same_tables s1 (update_trace i (fill_title (n_Title n)) s2)"
    by (rule same_tables_trans [OF insertEvents_tables [OF e] update_trace_tables]) (simp_all add: fill_title_def)
  show ?thesis
    unfolding s' using begin_revision_tables [OF assms(1,2) b] tables_ok_same [OF _ same] same_tables_revisions [OF same]
    by (intro recordRun_tables) auto
qed

lemma clear_revision_tables:
  assumes "tables_ok s" "i \<in> t_ID ` set (traces s)"
  shows "tables_ok (clear_revision i j n s) \<and> v_ID ` set (revisions (clear_revision i j n s)) = v_ID ` set (revisions s)"
proof -
  define s1 where "s1 = insert_aliases i (n_Events n) s"
  define s2 where "s2 = update_trace i (fill_title (n_Title n)) (update_trace i (\<lambda>t. if t_GeneratedTitle t = [] then t\<lparr>t_GeneratedRevision := 0\<rparr> else t) s1)"
  define s3 where "s3 = delete_observation_revisions (\<lambda>x. or_Revision x = j) s2"
  have s1: "tables_ok s1" "revisions s1 = revisions s" using insert_aliases_tables [OF assms] by (simp_all add: s1_def)
  have "same_tables s1 s2"
    unfolding s2_def by (rule same_tables_trans [OF update_trace_tables update_trace_tables]) (simp_all add: fill_title_def)
  moreover have "same_tables s2 s3" by (simp add: s3_def delete_links_tables)
  moreover
  obtain P s4 where s4: "s4 = delete_observations P s3" "clear_revision i j n s = s4\<lparr>revisions :=
      update_where (\<lambda>r. v_ID r = j) (\<lambda>r. r\<lparr>v_Status := n_Status n, v_Version := n_Version n\<rparr>) (revisions s4)\<rparr>"
    unfolding clear_revision_def Let_def s3_def s2_def s1_def by blast
  have "same_tables s3 s4" unfolding s4(1) by (rule delete_observations_tables)
  moreover have "same_tables s4 (clear_revision i j n s)"
    by (simp add: s4(2) same_tables_def attached_ok_def update_where_key [of v_ID])
  ultimately have "same_tables s1 (clear_revision i j n s)" using same_tables_trans by blast
  then show ?thesis using tables_ok_same [OF s1(1)] same_tables_revisions s1(2) by metis
qed

lemma replaceRevisionEvents_tables:
  assumes "tables_ok s" "i \<in> t_ID ` set (traces s)" "j \<in> v_ID ` set (revisions s)" "replaceRevisionEvents now i j labels n s = Inr (s', w)"
  shows "tables_ok s'"
proof -
  obtain s1 w1 P where e: "insertEvents i j labels (n_Events n) (clear_revision i j n s) = Inr (s1, w1)"
    and s': "s' = recordRun j (n_Version n) (n_Status n) (n_Warnings n @ w1) now (delete_events P (set_preferred (\<lambda>r. ev_Trace r = i) s1))"
    using assms(4) by (auto simp: replaceRevisionEvents_def Let_def bind_result_Inr_iff)
  have "same_tables s1 (set_preferred (\<lambda>r. ev_Trace r = i) s1)" by (simp add: set_preferred_def same_tables_def attached_ok_def)
  then have same: "same_tables (clear_revision i j n s) (delete_events P (set_preferred (\<lambda>r. ev_Trace r = i) s1))"
    using insertEvents_tables [OF e] delete_events_tables same_tables_trans by blast
  note clear = clear_revision_tables [OF assms(1,2), of j n]
  show ?thesis
    unfolding s' using clear assms(3) tables_ok_same [OF _ same] same_tables_revisions [OF same] by (intro recordRun_tables) auto
qed

lemma backfill_tables:
  assumes "tables_ok s" "backfillMissingTraceMetadata i j m d s = Inr (s', b)"
  shows "tables_ok s'"
proof -
  have column: "tables_ok s \<Longrightarrow> (\<And>t. t_ID (f t) = t_ID t) \<Longrightarrow> (\<And>t. t_Repository (f t) = t_Repository t) \<Longrightarrow> tables_ok (fst (fill_column c f i u s))" for s c f u
    by (erule tables_ok_same)
      (simp add: fill_column_def Let_def same_tables_def update_where_def attached_ok_def)
  have fill: "tables_ok s'" if "fill_metadata m i d s = Inr (s', texts)" for s' texts
  proof -
    let ?u = "canonicalTime (d_NativeUpdatedAt d)"
    define s1 where "s1 = (if d_Title d = [] then s else fst (fill_column t_Title (\<lambda>t. t\<lparr>t_Title := d_Title d\<rparr>) i ?u s))"
    define s2 where "s2 = (if d_WorkingDirectory d = [] then s1 else fst (fill_column t_WorkingDirectory (\<lambda>t. t\<lparr>t_WorkingDirectory := d_WorkingDirectory d\<rparr>) i ?u s1))"
    have ok2: "tables_ok s2" using assms(1) by (simp add: s1_def s2_def column)
    from that have "s' = s2 \<or> (\<exists>s3 k. upsertRepository m (d_Repository d) s2 = Inr (s3, k) \<and> s' = update_trace i (\<lambda>t. t\<lparr>t_Repository := k\<rparr>) s3)"
      unfolding fill_metadata_def Let_def s1_def s2_def
      by (auto simp: bind_result_Inr_iff split: if_splits prod.splits)
    then show ?thesis
    proof
      assume "\<exists>s3 k. upsertRepository m (d_Repository d) s2 = Inr (s3, k) \<and> s' = update_trace i (\<lambda>t. t\<lparr>t_Repository := k\<rparr>) s3"
      then obtain s3 k where k: "upsertRepository m (d_Repository d) s2 = Inr (s3, k)" "s' = update_trace i (\<lambda>t. t\<lparr>t_Repository := k\<rparr>) s3" by blast
      show ?thesis unfolding k(2) by (rule update_trace_repository) (use upsertRepository_tables [OF ok2 k(1)] in auto)
    qed (simp add: ok2)
  qed
  have chunks: "same_tables s s'" if "reindex_chunks j (append_search_text j t s) = Inr s'" for s s' t
    using that by (auto simp: reindex_chunks_def append_search_text_def bind_result_Inr_iff same_tables_def attached_ok_def distinct_delete_where
        dest: rechunk_ids)
  from assms(2) consider "s' = s" | s1 texts t where "fill_metadata m i d s = Inr (s1, texts)" "reindex_chunks j (append_search_text j t s1) = Inr s'"
    by (auto simp: backfillMissingTraceMetadata_def bind_result_Inr_iff split: if_splits)
  then show ?thesis by cases (use fill chunks assms(1) tables_ok_same in blast)+
qed

subsection \<open>Every operation\<close>

text \<open>With the foreign keys of the revisions.\<close>

definition rows_ok :: "Store \<Rightarrow> bool" where
  "rows_ok s \<longleftrightarrow> chain_ok s \<and> tables_ok s"

lemma revision_trace_there: "chain_ok s \<Longrightarrow> has_revision s j i \<Longrightarrow> i \<in> t_ID ` set (traces s) \<and> j \<in> v_ID ` set (revisions s)"
  using links_okD(1) [of s] by (auto simp: chain_but_def)

lemma retry_revision_tables:
  assumes "rows_ok s" "has_revision s j i"
  shows "tables_ok (fst (retry_revision now run d source i j out s))"
proof -
  obtain n e where n: "normalizeResult run d source = (n, e)" by force
  have ok: "tables_ok s" and there: "i \<in> t_ID ` set (traces s)" "j \<in> v_ID ` set (revisions s)"
    using assms revision_trace_there by (auto simp: rows_ok_def)
  have "tables_ok s'" if "replaceRevisionEvents now i j labels n s = Inr (s', w)" for labels s' w
    using replaceRevisionEvents_tables [OF ok there that] .
  then show ?thesis
    using recordRun_tables [OF ok there(2)] ok by (auto simp: retry_revision_def n Let_def split: prod.split sum.split)
qed

lemma known_revision_tables:
  assumes "rows_ok s" "has_revision s j i" "machine_seen manifest s"
  shows "tables_ok (fst (known_revision now run manifest d source j i status out s))"
proof -
  let ?s = "s\<lparr>revision_machines := insert_or_ignore id (j, m_ID (mf_SourceMachine manifest)) (revision_machines s)\<rparr>"
  have ok: "rows_ok ?s"
    using assms see_revision_tables [of s j "m_ID (mf_SourceMachine manifest)"] revision_trace_there [of s j i] chain_but_same [of "{}" s ?s]
    by (auto simp: rows_ok_def same_chain_def)
  have rev: "has_revision ?s j i" using assms(2) by simp
  show ?thesis
  proof (cases "backfillMissingTraceMetadata i j (m_ID (mf_SourceMachine manifest)) d ?s")
    case (Inr p)
    obtain s' b where p: "p = (s', b)" by force
    have b: "backfillMissingTraceMetadata i j (m_ID (mf_SourceMachine manifest)) d ?s = Inr (s', b)" using Inr p by simp
    have "has_revision s' j i" using rev backfill_revisions [OF b] by simp
    moreover have "rows_ok s'" using ok backfill_ok [OF _ b] backfill_tables [OF _ b] by (simp add: rows_ok_def)
    ultimately show ?thesis
      using retry_revision_tables [of s' j i] by (simp add: known_revision_def Let_def b rows_ok_def)
  qed (use ok in \<open>simp add: known_revision_def Let_def rows_ok_def\<close>)
qed

lemma importTrace_rows:
  assumes ok: "rows_ok s" and m: "machine_seen manifest s"
  shows "rows_ok (fst (importTrace now run manifest d sources s))"
proof -
  have "tables_ok (fst (importTrace now run manifest d sources s))"
  proof (cases "Sub sources (d_Path d)")
    case (Inr source)
    obtain dir r where r: "storeObjects source (d_Files d) (objects_dir s) = (dir, r)" by force
    let ?s = "s\<lparr>objects_dir := dir\<rparr>"
    have ok': "rows_ok ?s" and m': "machine_seen manifest ?s"
      using ok m tables_ok_same [of s ?s] chain_but_same [of "{}" s ?s] by (auto simp: rows_ok_def same_chain_def same_tables_def attached_ok_def)
    have "tables_ok (fst (new_revision now run manifest d source stored out ?s))" for stored out
      using ok' commitRevision_tables [OF _ m'] by (auto simp: rows_ok_def new_revision_def split: prod.split sum.split)
    moreover have "tables_ok (fst (known_revision now run manifest d source j i status out ?s))"
      if "find_revision ?s d = Some (j, i, status)" for j i status out
      using known_revision_tables [OF ok' find_revision_row [OF that] m'] .
    ultimately show ?thesis
      using ok' by (simp add: importTrace_def Inr r Let_def rows_ok_def split: sum.split option.split)
  qed (use ok in \<open>simp add: importTrace_def rows_ok_def\<close>)
  then show ?thesis using ok importTrace_ok [of s] by (simp add: rows_ok_def)
qed

lemma import_traces_rows:
  "rows_ok (fst st) \<Longrightarrow> machine_seen manifest (fst st) \<Longrightarrow> rows_ok (fst (import_traces clock run manifest sources n ds st))"
proof (induction clock run manifest sources n ds st rule: import_traces.induct)
  case (2 clock run manifest sources i d ds s report progress)
  obtain s' out where t: "importTrace (clock (i + 1)) run manifest d sources s = (s', out)" by force
  have "rows_ok s'" using importTrace_rows [of s manifest "clock (i + 1)" run d sources] 2(2,3) t by simp
  moreover have "machines s' = machines s" using importTrace_log [of s "clock (i + 1)" run manifest d sources] t by (simp add: same_log_def)
  ultimately show ?case using 2(1) [OF t [symmetric]] 2(3) t by simp
qed simp

lemma see_machine_distinct: "distinct (map sm_ID rows) \<Longrightarrow> distinct (map sm_ID (see_machine m now rows))"
proof -
  assume d: "distinct (map sm_ID rows)"
  have "map sm_ID (update_where (\<lambda>r. sm_ID r = m_ID m) (\<lambda>r. r\<lparr>sm_Hostname := m_Hostname m, sm_OS := m_OS m,
      sm_Arch := m_Arch m, sm_LastSeen := now\<rparr>) rows) = map sm_ID rows"
    by (rule update_where_key) simp
  with d show ?thesis by (auto simp: see_machine_def)
qed

lemma rows_ok_frame:
  assumes "rows_ok s" "distinct (map sm_ID a)" "sm_ID ` set (machines s) \<subseteq> sm_ID ` set a"
  shows "rows_ok (s\<lparr>machines := a, imports_table := b, importSeq := c, summaries := e, runningImport := d\<rparr>)"
proof -
  have "snd ` set (revision_machines s) \<subseteq> sm_ID ` set a"
    using assms(1,3) unfolding rows_ok_def tables_ok_def revision_rows_ok_def by (meson order_trans)
  moreover have "chain_ok (s\<lparr>machines := a, imports_table := b, importSeq := c, summaries := e, runningImport := d\<rparr>)"
    by (rule chain_but_same [of _ s]) (use assms(1) in \<open>simp_all add: rows_ok_def same_chain_def\<close>)
  ultimately show ?thesis
    using assms(1,2) by (simp add: rows_ok_def tables_ok_def repositories_ok_def revision_rows_ok_def aliases_ok_def attached_ok_def)
qed

lemma Import_rows:
  assumes "rows_ok s"
  shows "rows_ok (fst (Import clock run manifest sources s))"
proof -
  define b where "b = beginImport (zero_Report\<lparr>ir_CreatedAt := clock 0, ir_Machine := mf_SourceMachine manifest\<rparr>) s"
  obtain s1 r1 where b: "b = (s1, r1)" by force
  obtain s2 r2 p where t: "import_traces clock run manifest sources 0 (mf_Traces manifest)
    (s1, r1, [normalizing 0 (length (mf_Traces manifest)) None]) = (s2, r2, p)" by (metis prod.collapse)
  have d: "distinct (map sm_ID (machines s))" using assms by (simp add: rows_ok_def tables_ok_def revision_rows_ok_def)
  let ?ms = "see_machine (mf_SourceMachine manifest) (clock 0) (machines s)"
  obtain c q f where s1: "s1 = s\<lparr>machines := ?ms, imports_table := c, importSeq := q, summaries := summaries s, runningImport := f\<rparr>"
    using b by (auto simp: b_def beginImport_def Let_def zero_Report_def)
  have "rows_ok s1" unfolding s1 by (rule rows_ok_frame [OF assms see_machine_distinct [OF d]]) (auto simp: see_machine_ids)
  moreover have "machine_seen manifest s1" by (simp add: s1 see_machine_ids)
  ultimately have "rows_ok s2"
    using import_traces_rows [of "(s1, r1, [normalizing 0 (length (mf_Traces manifest)) None])" manifest clock run sources 0 "mf_Traces manifest"] t by simp
  moreover obtain b' e where "fst (Import clock run manifest sources s) = s2\<lparr>imports_table := b', summaries := e, runningImport := 0\<rparr>"
    using Import_store [where clock = clock and run = run and sources = sources, OF b [unfolded b_def] t] by blast
  moreover have "distinct (map sm_ID (machines s2))" using \<open>rows_ok s2\<close> by (simp add: rows_ok_def tables_ok_def revision_rows_ok_def)
  ultimately show ?thesis using rows_ok_frame [of s2 "machines s2", where b = b' and c = "importSeq s2" and e = e and d = 0] by simp
qed

lemma delete_links_shape: "\<exists>a b c. delete_observation_revisions P s = s\<lparr>observation_revisions := a, observation_sources := b, chunks := c\<rparr>"
  by (auto simp: delete_observation_revisions_def Let_def)

lemma delete_events_shape:
  "\<exists>e q a b c. delete_events P s = s\<lparr>events := e, observations := q, observation_revisions := a, observation_sources := b, chunks := c\<rparr>"
proof -
  let ?s = "s\<lparr>events := delete_where P (events s)\<rparr>" and ?Q = "\<lambda>q. ob_Event q \<in> set (map ev_ID (filter P (events s)))"
  obtain a b c where "delete_observations ?Q ?s =
      ?s\<lparr>observations := delete_where ?Q (observations s), observation_revisions := a, observation_sources := b, chunks := c\<rparr>"
    using delete_links_shape [of _ "?s\<lparr>observations := delete_where ?Q (observations s)\<rparr>"] unfolding delete_observations_def Let_def by fastforce
  then have "delete_events P s = s\<lparr>events := delete_where P (events s), observations := delete_where ?Q (observations s),
      observation_revisions := a, observation_sources := b, chunks := delete_where (\<lambda>c. c_Event c \<in> set (map ev_ID (filter P (events s)))) c\<rparr>"
    unfolding delete_events_def Let_def by simp
  then show ?thesis by blast
qed

text \<open>What a deletion cascades to; all else stays.\<close>

lemma delete_traces_shape:
  fixes P :: "TraceRow \<Rightarrow> bool" and s :: Store
  defines "R \<equiv> gone_revisions P s" and "T \<equiv> gone_traces P s"
  shows "\<exists>e q a b c. delete_traces P s =
    s\<lparr>traces := delete_where P (traces s), aliases := filter (\<lambda>a. al_Trace a \<notin> T) (aliases s),
      revisions := filter (\<lambda>r. v_Trace r \<notin> T) (revisions s), revision_machines := filter (\<lambda>q. fst q \<notin> R) (revision_machines s),
      revision_objects := filter (\<lambda>q. ro_Revision q \<notin> R) (revision_objects s), runs := filter (\<lambda>q. nr_Revision q \<notin> R) (runs s),
      events := e, observations := q, observation_revisions := a, observation_sources := b, chunks := c\<rparr>"
proof -
  let ?s = "s\<lparr>traces := delete_where P (traces s), aliases := filter (\<lambda>a. al_Trace a \<notin> T) (aliases s)\<rparr>"
  have T: "set (map t_ID (filter P (traces s))) = T" by (auto simp: gone_traces_def T_def)
  have R: "set (map v_ID (filter (\<lambda>r. v_Trace r \<in> T) (revisions s))) = R" by (auto simp: R_def gone_revisions_def T_def)
  obtain a b c where "delete_revisions (\<lambda>r. v_Trace r \<in> T) ?s =
      ?s\<lparr>revisions := filter (\<lambda>r. v_Trace r \<notin> T) (revisions s), revision_machines := filter (\<lambda>q. fst q \<notin> R) (revision_machines s),
        revision_objects := filter (\<lambda>q. ro_Revision q \<notin> R) (revision_objects s), runs := filter (\<lambda>q. nr_Revision q \<notin> R) (runs s),
        observation_revisions := a, observation_sources := b, chunks := c\<rparr>"
    using delete_links_shape [of "\<lambda>x. or_Revision x \<in> R" "?s\<lparr>revisions := filter (\<lambda>r. v_Trace r \<notin> T) (revisions s),
      revision_machines := filter (\<lambda>q. fst q \<notin> R) (revision_machines s),
      revision_objects := filter (\<lambda>q. ro_Revision q \<notin> R) (revision_objects s), runs := filter (\<lambda>q. nr_Revision q \<notin> R) (runs s)\<rparr>"]
    by (simp add: delete_revisions_def Let_def R [simplified] delete_where_def case_prod_unfold) blast
  then show ?thesis
    using delete_events_shape [of "\<lambda>e. ev_Trace e \<in> T" "delete_revisions (\<lambda>r. v_Trace r \<in> T) ?s"]
    by (simp add: delete_traces_def Let_def T [simplified] delete_where_def)
qed

lemma same_tables_attached: "attached_ok s \<Longrightarrow> same_tables s s' \<Longrightarrow> attached_ok s'"
  by (simp add: same_tables_def)

lemma delete_traces_attached: "attached_ok s \<Longrightarrow> attached_ok (delete_traces P s)"
proof -
  assume a: "attached_ok s"
  have revs: "attached_ok (delete_revisions Q s)" if "attached_ok s" for Q s
    unfolding delete_revisions_def Let_def by (rule same_tables_attached [OF _ delete_links_tables]) (use that in \<open>simp add: attached_ok_def\<close>)
  show ?thesis
    unfolding delete_traces_def Let_def
    by (rule same_tables_attached [OF revs delete_events_tables]) (use a in \<open>simp add: attached_ok_def\<close>)
qed

lemma delete_traces_tables:
  assumes "tables_ok s"
  shows "tables_ok (delete_traces P s)"
proof -
  let ?R = "gone_revisions P s" and ?T = "gone_traces P s"
  obtain e q a b c where s': "delete_traces P s =
    s\<lparr>traces := delete_where P (traces s), aliases := filter (\<lambda>a. al_Trace a \<notin> ?T) (aliases s),
      revisions := filter (\<lambda>r. v_Trace r \<notin> ?T) (revisions s), revision_machines := filter (\<lambda>q. fst q \<notin> ?R) (revision_machines s),
      revision_objects := filter (\<lambda>q. ro_Revision q \<notin> ?R) (revision_objects s), runs := filter (\<lambda>q. nr_Revision q \<notin> ?R) (runs s),
      events := e, observations := q, observation_revisions := a, observation_sources := b, chunks := c\<rparr>"
    using delete_traces_shape [of P s] by blast
  have rev: "f ` {x \<in> A. f x \<notin> ?R} \<subseteq> v_ID ` {r \<in> set (revisions s). v_Trace r \<notin> ?T}" if "f ` A \<subseteq> v_ID ` set (revisions s)"
    for f :: "'x \<Rightarrow> int" and A
    using that by (fastforce simp: gone_revisions_def)
  have tr: "al_Trace ` {a \<in> A. al_Trace a \<notin> ?T} \<subseteq> t_ID ` {t \<in> set (traces s). \<not> P t}" if "al_Trace ` A \<subseteq> t_ID ` set (traces s)" for A
    using that by (fastforce simp: gone_traces_def)
  note ok = assms [unfolded tables_ok_def repositories_ok_def revision_rows_ok_def aliases_ok_def]
  have "t_Repository ` {t \<in> set (traces s). \<not> P t} \<subseteq> t_Repository ` set (traces s)" by blast
  also have "\<dots> \<subseteq> insert None (Some ` rp_ID ` set (repositories s))" using ok by (elim conjE)
  finally have r1: "repositories_ok (delete_traces P s)" using ok by (simp add: s' repositories_ok_def)
  have "snd ` {k \<in> set (revision_machines s). fst k \<notin> ?R} \<subseteq> snd ` set (revision_machines s)" by blast
  also have "\<dots> \<subseteq> sm_ID ` set (machines s)" using ok by (elim conjE)
  finally have r2: "revision_rows_ok (delete_traces P s)"
    using ok rev [of fst "set (revision_machines s)"] rev [of ro_Revision "set (revision_objects s)"] rev [of nr_Revision "set (runs s)"]
    by (simp add: s' revision_rows_ok_def distinct_map_filter)
  have "aliases_ok (delete_traces P s)"
    using ok tr [of "set (aliases s)"] by (simp add: s' aliases_ok_def distinct_map_filter)
  with r1 r2 show ?thesis using assms delete_traces_attached [of s P] by (simp add: tables_ok_def)
qed

lemma SetTitleOverride_tables:
  assumes "SetTitleOverride i title s = Inr s'"
  shows "same_tables s s'"
proof -
  from assms obtain title' where "reindexTraceSearch i (update_trace i (\<lambda>t. t\<lparr>t_TitleOverride := title'\<rparr>) s) = Inr s'"
    by (auto simp: SetTitleOverride_def setTitleOverride_def bind_result_Inr_iff split: if_splits)
  moreover have "same_tables s (update_trace i (\<lambda>t. t\<lparr>t_TitleOverride := title'\<rparr>) s)" by (rule update_trace_tables) simp_all
  ultimately show ?thesis using reindexTraceSearch_tables same_tables_trans by blast
qed

lemma SetGeneratedTitle_tables:
  assumes "SetGeneratedTitle i j title s = Inr s'"
  shows "same_tables s s'"
proof -
  from assms obtain P title' where "s' = s \<or> s' = s\<lparr>traces := update_where P (\<lambda>t. t\<lparr>t_GeneratedTitle := title', t_GeneratedRevision := j\<rparr>) (traces s)\<rparr> \<or>
      reindexTraceSearch i (s\<lparr>traces := update_where P (\<lambda>t. t\<lparr>t_GeneratedTitle := title', t_GeneratedRevision := j\<rparr>) (traces s)\<rparr>) = Inr s'"
    by (auto simp: SetGeneratedTitle_def Let_def bind_result_Inr_iff split: if_splits)
  moreover have "same_tables s (s\<lparr>traces := update_where P (\<lambda>t. t\<lparr>t_GeneratedTitle := title', t_GeneratedRevision := j\<rparr>) (traces s)\<rparr>)"
    by (simp add: same_tables_def update_where_def attached_ok_def)
  ultimately show ?thesis using reindexTraceSearch_tables same_tables_trans same_tables_refl by blast
qed

lemma gc_tables: "same_tables s (gc s)"
proof -
  have "observation_sources (gc s) = observation_sources s" "chunks (gc s) = chunks s" "traces (gc s) = traces s" "revisions (gc s) = revisions s"
    "repositories (gc s) = repositories s" "repository_paths (gc s) = repository_paths s" "machines (gc s) = machines s"
    "revision_machines (gc s) = revision_machines s" "revision_objects (gc s) = revision_objects s" "runs (gc s) = runs s"
    "aliases (gc s) = aliases s"
    by (rule gc_frame; simp)+
  then show ?thesis by (simp add: same_tables_def attached_ok_def)
qed

interpretation tables: kept rows_ok
proof
  fix s s' :: Store and i j title clock run manifest sources now version item
  assume ok: "rows_ok s"
  have same: "rows_ok s'" if "chain_ok s'" "same_tables s s'" for s' using that ok tables_ok_same by (auto simp: rows_ok_def)
  have chain: "chain_ok s" using ok by (simp add: rows_ok_def)
  show "rows_ok (fst (Import clock run manifest sources s))" by (rule Import_rows [OF ok])
  show "rows_ok (gc s)" by (rule same [OF chain.keep_gc [OF chain] gc_tables])
  show "rows_ok s'" if d: "DeleteTrace i s = Inr s'"
  proof -
    obtain P where "s' = gc (delete_traces P s)" using d by (auto simp: DeleteTrace_def split: if_splits)
    then have "tables_ok s'" using ok delete_traces_tables [of s P] tables_ok_same [OF _ gc_tables] by (auto simp: rows_ok_def)
    then show ?thesis using DeleteTrace_ok [OF chain d] by (simp add: rows_ok_def)
  qed
  show "rows_ok s'" if "SetTitleOverride i title s = Inr s'"
    by (rule same [OF chain.keep_override [OF chain that] SetTitleOverride_tables [OF that]])
  show "rows_ok s'" if "SetGeneratedTitle i j title s = Inr s'"
    by (rule same [OF chain.keep_title [OF chain that] SetGeneratedTitle_tables [OF that]])
  show "rows_ok s'" if rev: "has_revision s (cd_Revision item) (cd_Trace item)" and one: "renormalize_one now version run item s = Inr s'"
  proof -
    note there = revision_trace_there [OF chain rev]
    have "tables_ok s'"
    proof (rule renormalize_one_cases [OF one])
      show "tables_ok s'" if "s' = recordRun (cd_Revision item) v st ws now s" for v st ws
        using that ok there recordRun_tables by (simp add: rows_ok_def)
      show "tables_ok s'" if "replaceRevisionEvents now (cd_Trace item) (cd_Revision item) labels n s = Inr (s', w)" for labels n w
        using replaceRevisionEvents_tables [OF _ _ _ that] ok there by (simp add: rows_ok_def)
    qed
    then show ?thesis using renormalize_one_ok [OF chain rev one] by (simp add: rows_ok_def)
  qed
next
  show "rows_ok empty_store"
    using chain.start by (simp add: rows_ok_def tables_ok_def repositories_ok_def revision_rows_ok_def aliases_ok_def attached_ok_def empty_store_def)
qed

subsection \<open>Summaries\<close>

text \<open>Every import has at most one summary, and a summary its import.\<close>

definition summaries_ok :: "Store \<Rightarrow> bool" where
  "summaries_ok s \<longleftrightarrow> log_ok s \<and> distinct (map fst (summaries s)) \<and> fst ` set (summaries s) \<subseteq> im_ID ` set (imports_table s)"

lemma summaries_ok_same: "summaries_ok s \<Longrightarrow> same_log s s' \<Longrightarrow> summaries_ok s'"
  using log_ok_same [of s s'] by (simp add: summaries_ok_def same_log_def)

lemma Import_summaries:
  assumes ok: "summaries_ok s"
  shows "summaries_ok (fst (Import clock run manifest sources s))"
proof -
  define b where "b = beginImport (zero_Report\<lparr>ir_CreatedAt := clock 0, ir_Machine := mf_SourceMachine manifest\<rparr>) s"
  obtain s1 r1 where b: "b = (s1, r1)" by force
  let ?st = "(s1, r1, [normalizing 0 (length (mf_Traces manifest)) None])"
  obtain s2 r2 p where t: "import_traces clock run manifest sources 0 (mf_Traces manifest) ?st = (s2, r2, p)" by (metis prod.collapse)
  have s1: "summaries s1 = summaries s" "im_ID ` set (imports_table s1) = insert (ir_ID r1) (im_ID ` set (imports_table s))"
    using b by (auto simp: b_def beginImport_def Let_def)
  have same: "same_log s1 s2" using import_traces_log [of ?st clock run manifest sources 0 "mf_Traces manifest"] t by simp
  have r2: "ir_ID r2 = ir_ID r1" using import_traces_report [of clock run manifest sources 0 "mf_Traces manifest" ?st] t by simp
  have log: "log_ok (fst (Import clock run manifest sources s))" using ok by (intro log.keep_import) (simp add: summaries_ok_def)
  obtain s3 where f: "finish_import (r2\<lparr>ir_Complete := True\<rparr>) s2 = Inr s3"
    using Import_adds [of s clock run manifest sources] ok by (auto simp: summaries_ok_def Import_def Let_def b_def [symmetric] b t split: sum.splits)
  have eq: "fst (Import clock run manifest sources s) = s3\<lparr>runningImport := 0\<rparr>" by (simp add: Import_def Let_def b_def [symmetric] b t f)
  have s3: "summaries s3 = summaries s @ [(ir_ID r1, summary_of (r2\<lparr>ir_Complete := True\<rparr>))]" "ir_ID r1 \<notin> fst ` set (summaries s)"
    "imports_table s3 = update_where (\<lambda>q. im_ID q = ir_ID r1) (\<lambda>q. q\<lparr>im_Report := Some (r2\<lparr>ir_Complete := True\<rparr>)\<rparr>) (imports_table s2)"
    using f same s1(1) r2 by (auto simp: finish_import_def bind_result_Inr_iff insert_unique_iff same_log_def)
  have "im_ID ` set (imports_table s3) = im_ID ` set (imports_table s2)" unfolding s3(3) by (rule image_update_where) simp
  then have "im_ID ` set (imports_table s3) = insert (ir_ID r1) (im_ID ` set (imports_table s))" using same s1(2) by (simp add: same_log_def)
  then show ?thesis using ok log s3(1,2) by (auto simp: summaries_ok_def eq)
qed

interpretation summaries_kept: kept summaries_ok
proof
  fix s s' :: Store and i j title clock run manifest sources now version item
  assume ok: "summaries_ok s"
  show "summaries_ok (fst (Import clock run manifest sources s))" by (rule Import_summaries [OF ok])
  have gc: "same_log s (gc s)" for s
    unfolding same_log_def by (intro conjI; rule gc_frame; simp)
  show "summaries_ok (gc s)" using summaries_ok_same [OF ok gc] .
  show "summaries_ok s'" if "DeleteTrace i s = Inr s'"
    using that summaries_ok_same [OF summaries_ok_same [OF ok same_objects_log [OF delete_objects(5)]] gc] by (auto simp: DeleteTrace_def split: if_splits)
  show "summaries_ok s'" if "SetTitleOverride i title s = Inr s'"
    using summaries_ok_same [OF ok same_objects_log [OF SetTitleOverride_objects [OF that]]] .
  show "summaries_ok s'" if "SetGeneratedTitle i j title s = Inr s'"
    using summaries_ok_same [OF ok same_objects_log [OF SetGeneratedTitle_objects [OF that]]] .
  show "summaries_ok s'" if "renormalize_one now version run item s = Inr s'"
    using summaries_ok_same [OF ok same_objects_log [OF renormalize_one_objects [OF that]]] .
qed (simp add: summaries_ok_def log_ok_def empty_store_def)

end
