(* ===== verification/FoldText.thy ===== *)
theory FoldText
  imports JsonRoundtrip
begin

text \<open>
  Decoding a concatenation: a rune never extends over the first byte of the next one, so decoding commutes with
  cutting at rune starts.  On that rests every argument that text found in a part of a string is
  found in the whole after folding it rune by rune.
\<close>

subsection \<open>Cutting at rune starts\<close>

lemma unit_len_append_start:
  assumes "RuneStart c" "a \<noteq> []"
  shows "unit_len (a @ c # w) = unit_len a"
  using assms
  by (cases a; cases "tl a"; cases "tl (tl a)"; cases "tl (tl (tl a))")
    (auto simp: unit_len_def Let_def split: if_splits list.split)

lemma runes_append_start: "RuneStart c \<Longrightarrow> runes (a @ c # w) = runes a @ runes (c # w)"
proof (induction a rule: runes.induct)
  case (1 a)
  show ?case
  proof (cases "a = []")
    case False
    have u: "unit_len (a @ c # w) = unit_len a" using 1 False by (intro unit_len_append_start)
    show ?thesis
    proof (cases "unit_len a = 0")
      case True
      with 1 False u show ?thesis
        by (subst (1 2) runes.simps) (cases a; simp add: Let_def)
    next
      case pos: False
      have len: "unit_len a \<le> length a" by (rule unit_len_le)
      then have "take (unit_len a) (a @ c # w) = take (unit_len a) a" "drop (unit_len a) (a @ c # w) = drop (unit_len a) a @ c # w"
        by simp_all
      with 1 False u pos show ?thesis
        by (simp add: runes.simps [of a] runes.simps [of "a @ c # w"] Let_def)
    qed
  qed simp
qed

lemma runes_append_valid: "ValidString w \<Longrightarrow> runes (a @ w) = runes a @ runes w"
  using ValidString_start [of w] runes_append_start by (cases w) auto

lemma unit_len_append_valid: "0 < unit_len w \<Longrightarrow> unit_len (w @ b) = unit_len w"
  using unit_len_take [of w "unit_len w" "drop (unit_len w) w @ b"]
  by (metis append.assoc append_take_drop_id)

lemma runes_valid_append: "ValidString w \<Longrightarrow> runes (w @ b) = runes w @ runes b"
proof (induction w rule: ValidString.induct)
  case (1 w)
  show ?case
  proof (cases "w = []")
    case False
    then have u: "0 < unit_len w" using 1 ValidString_start by blast
    then have len: "unit_len (w @ b) = unit_len w" "unit_len w \<le> length w"
      by (simp_all add: unit_len_append_valid unit_len_le)
    have "runes (drop (unit_len w) w @ b) = runes (drop (unit_len w) w) @ runes b"
      using 1 False u ValidString_drop_unit by auto
    with False u len show ?thesis
      by (simp add: runes.simps [of w] runes.simps [of "w @ b"] Let_def)
  qed simp
qed

lemma ValidString_append: "ValidString a \<Longrightarrow> ValidString (a @ b) = ValidString b"
proof (induction a rule: ValidString.induct)
  case (1 a)
  show ?case
  proof (cases "a = []")
    case False
    then have u: "0 < unit_len a" using 1 ValidString_start by blast
    have "ValidString (a @ b) = ValidString (drop (unit_len a) a @ b)"
      using False u unit_len_append_valid [OF u, of b] unit_len_le [of a]
      by (subst ValidString.simps) simp
    with 1 False u ValidString_drop_unit [of a] show ?thesis by simp
  qed simp
qed

subsection \<open>Single runes\<close>

text \<open>A string that is the encoding of one rune, and what it decodes to.\<close>

definition single :: "string \<Rightarrow> bool" where
  "single w \<longleftrightarrow> w \<noteq> [] \<and> unit_len w = length w"

lemma single_runes: "single w \<Longrightarrow> runes w = [(rune_of w, w)]"
  by (simp add: single_def runes.simps [of w])

lemma single_valid: "single w \<Longrightarrow> ValidString w"
  by (simp add: single_def ValidString.simps [of w])

lemma single_length: "single w \<Longrightarrow> 1 \<le> length w \<and> length w \<le> 4"
  using unit_len_le4 [of w] by (cases w) (auto simp: single_def)

lemma single_ascii: "byte c < (0x80 :: nat) \<Longrightarrow> single [c]"
  by (simp add: single_def unit_len_def)

lemma valid_singles:
  "ValidString s \<Longrightarrow> \<exists>ws. s = concat ws \<and> list_all single ws \<and> runes s = map (\<lambda>w. (rune_of w, w)) ws"
proof (induction s rule: ValidString.induct)
  case (1 s)
  show ?case
  proof (cases "s = []")
    case True
    then show ?thesis by (intro exI [of _ "[]"]) simp
  next
    case False
    let ?n = "unit_len s"
    have n: "0 < ?n" using 1 False ValidString_start by blast
    then obtain ws where ws: "drop ?n s = concat ws" "list_all single ws" "runes (drop ?n s) = map (\<lambda>w. (rune_of w, w)) ws"
      using 1 False ValidString_drop_unit by auto
    have "unit_len (take ?n s) = ?n" using unit_len_take [of s ?n "[]"] n by simp
    then have "single (take ?n s)" using n unit_len_le [of s] False by (simp add: single_def)
    moreover have "runes s = (rune_of (take ?n s), take ?n s) # runes (drop ?n s)"
      using False n by (simp add: runes.simps [of s] Let_def)
    moreover have "s = take ?n s @ concat ws" using ws(1) by (metis append_take_drop_id)
    ultimately have "s = concat (take ?n s # ws) \<and> list_all single (take ?n s # ws)
        \<and> runes s = map (\<lambda>w. (rune_of w, w)) (take ?n s # ws)"
      using ws(2, 3) by (simp only: concat.simps list.pred_inject list.map simp_thms)
    then show ?thesis by blast
  qed
qed

subsection \<open>Folding\<close>

definition fold_text :: "(nat \<times> string \<Rightarrow> string) \<Rightarrow> string \<Rightarrow> string" where
  "fold_text f s = concat (map f (runes s))"

lemma fold_text_Nil [simp]: "fold_text f [] = []"
  by (simp add: fold_text_def)

lemma fold_text_append_valid: "ValidString w \<Longrightarrow> fold_text f (a @ w) = fold_text f a @ fold_text f w"
  by (simp add: fold_text_def runes_append_valid)

lemma fold_text_valid_append: "ValidString w \<Longrightarrow> fold_text f (w @ b) = fold_text f w @ fold_text f b"
  by (simp add: fold_text_def runes_valid_append)

lemma fold_text_single: "single w \<Longrightarrow> fold_text f w = f (rune_of w, w)"
  by (simp add: fold_text_def single_runes)

lemma fold_text_singles: "list_all single ws \<Longrightarrow> fold_text f (concat ws) = concat (map (fold_text f) ws)"
  by (induction ws) (simp_all add: fold_text_valid_append single_valid)

lemma ValidString_singles: "list_all single ws \<Longrightarrow> ValidString (concat ws)"
  by (induction ws) (simp_all add: ValidString_append single_valid)

text \<open>What contains a valid string contains it after folding.\<close>

lemma runes_mid:
  assumes "w \<noteq> []" and v: "ValidString w"
  shows "runes (a @ w @ b) = runes a @ runes w @ runes b"
proof -
  obtain c w' where w: "w = c # w'" "RuneStart c" using ValidString_start [OF v assms(1)] by (cases w) auto
  then have "runes (a @ w @ b) = runes a @ runes (w @ b)"
    using runes_append_start [of c a "w' @ b"] by simp
  then show ?thesis by (simp add: runes_valid_append [OF v])
qed

lemma fold_text_Contains:
  assumes "ValidString w" "Contains s w"
  shows "Contains (fold_text f s) (fold_text f w)"
proof (cases "w = []")
  case True
  then show ?thesis by (auto simp: Contains_iff)
next
  case False
  from assms(2) obtain a b where "s = a @ w @ b" by (auto simp: Contains_iff)
  then have "fold_text f s = fold_text f a @ fold_text f w @ fold_text f b"
    by (simp add: fold_text_def runes_mid [OF False assms(1)])
  then show ?thesis by (auto simp: Contains_iff)
qed

lemma Contains_trans: "Contains a b \<Longrightarrow> Contains b c \<Longrightarrow> Contains a c"
  by (metis Contains_iff append.assoc)

end
