(* ===== verification/SearchQuery.thy ===== *)
theory SearchQuery
  imports FoldText SearchText
begin

text \<open>
  The second half of \<open>internal/store/search.go\<close>: which FTS5 query narrows a search.  The trigram index looks a query
  up chunk by chunk and ignores case; a search must not lose a match by it.  The parsed expression
  of \<open>regexp/syntax\<close> is the datatype \<open>Regexp\<close>, the query of the codesearch package is \<open>Query\<close>, and its
  \<open>index.RegexpQuery\<close> a parameter with the contract that a text with a match satisfies the query.
\<close>

subsection \<open>Expressions\<close>

datatype Regexp =
    OpNoMatch | OpEmptyMatch
  | OpLiteral bool "nat list"
  | OpCharClass "(nat \<times> nat) list"
  | OpAnyCharNotNL | OpAnyChar
  | OpBeginLine | OpEndLine | OpBeginText | OpEndText | OpWordBoundary | OpNoWordBoundary
  | OpCapture Regexp | OpStar Regexp | OpPlus Regexp | OpQuest Regexp
  | OpRepeat int int Regexp
  | OpConcat "Regexp list" | OpAlternate "Regexp list"

text \<open>The runes of a literal as text, \<open>string(expression.Rune)\<close>.\<close>

definition rune_text :: "nat list \<Rightarrow> string" where
  "rune_text rs = concat (map encode_rune rs)"

fun maxMatchBytes :: "Regexp \<Rightarrow> int"
  and concat_bytes :: "Regexp list \<Rightarrow> int \<Rightarrow> int"
  and alternate_bytes :: "Regexp list \<Rightarrow> int \<Rightarrow> int" where
  "maxMatchBytes (OpLiteral ci rs) = int (length rs) * int UTFMax"
| "maxMatchBytes (OpCharClass cs) = int UTFMax"
| "maxMatchBytes OpAnyChar = int UTFMax"
| "maxMatchBytes OpAnyCharNotNL = int UTFMax"
| "maxMatchBytes (OpCapture r) = maxMatchBytes r"
| "maxMatchBytes (OpQuest r) = maxMatchBytes r"
| "maxMatchBytes (OpRepeat mn mx r) =
     (let longest = maxMatchBytes r in if 0 \<le> mx \<and> 0 \<le> longest then longest * mx else - 1)"
| "maxMatchBytes (OpConcat rs) = concat_bytes rs 0"
| "maxMatchBytes (OpAlternate rs) = alternate_bytes rs 0"
| "maxMatchBytes (OpStar r) = - 1"
| "maxMatchBytes (OpPlus r) = - 1"
| "maxMatchBytes r = 0"
| "concat_bytes [] acc = acc"
| "concat_bytes (r # rs) acc =
     (let longest = maxMatchBytes r in if longest < 0 then - 1 else concat_bytes rs (acc + longest))"
| "alternate_bytes [] acc = acc"
| "alternate_bytes (r # rs) acc =
     (let longest = maxMatchBytes r in if longest < 0 then - 1 else alternate_bytes rs (max acc longest))"

fun requiredLiteral :: "Regexp \<Rightarrow> string"
  and longest_literal :: "Regexp list \<Rightarrow> string \<Rightarrow> string" where
  "requiredLiteral (OpLiteral ci rs) = (if ci \<and> list_ex (\<lambda>r. 0x80 \<le> r) rs then [] else rune_text rs)"
| "requiredLiteral (OpCapture r) = requiredLiteral r"
| "requiredLiteral (OpPlus r) = requiredLiteral r"
| "requiredLiteral (OpRepeat mn mx r) = (if 0 < mn then requiredLiteral r else [])"
| "requiredLiteral (OpConcat rs) = longest_literal rs []"
| "requiredLiteral r = []"
| "longest_literal [] longest = longest"
| "longest_literal (r # rs) longest =
     (let literal = requiredLiteral r
      in longest_literal rs (if RuneCount longest < RuneCount literal then literal else longest))"

text \<open>\<open>lowerFoldedLiterals\<close>: the expression the index query is computed from.\<close>

definition lower_letter :: "nat \<Rightarrow> nat" where
  "lower_letter r = (if 65 \<le> r \<and> r \<le> 90 then r + 32 else r)"

fun lowerFoldedLiterals :: "Regexp \<Rightarrow> Regexp" where
  "lowerFoldedLiterals (OpLiteral ci rs) =
     (if ci \<and> \<not> list_ex (\<lambda>r. 0x80 \<le> r) rs then OpLiteral False (map lower_letter rs) else OpLiteral ci rs)"
| "lowerFoldedLiterals (OpCapture r) = OpCapture (lowerFoldedLiterals r)"
| "lowerFoldedLiterals (OpStar r) = OpStar (lowerFoldedLiterals r)"
| "lowerFoldedLiterals (OpPlus r) = OpPlus (lowerFoldedLiterals r)"
| "lowerFoldedLiterals (OpQuest r) = OpQuest (lowerFoldedLiterals r)"
| "lowerFoldedLiterals (OpRepeat mn mx r) = OpRepeat mn mx (lowerFoldedLiterals r)"
| "lowerFoldedLiterals (OpConcat rs) = OpConcat (map lowerFoldedLiterals rs)"
| "lowerFoldedLiterals (OpAlternate rs) = OpAlternate (map lowerFoldedLiterals rs)"
| "lowerFoldedLiterals r = r"

subsection \<open>Index queries\<close>

definition trigramCandidate :: "string \<Rightarrow> string" where
  "trigramCandidate v =
     (if RuneCount v < 3 then []
      else case back_to_start v (min (length v) 512) of Some e \<Rightarrow> take e v | None \<Rightarrow> [])"

definition ftsPhrase :: "string \<Rightarrow> string" where
  "ftsPhrase s = [CHR 0x22] @ concat (map (\<lambda>c. if c = CHR 0x22 then [c, c] else [c]) s) @ [CHR 0x22]"

text \<open>\<open>strings.Map\<close> writes U+FFFD for a byte it cannot decode and keeps the bytes of a rune it does not change.\<close>

definition asciiLower :: "string \<Rightarrow> string" where
  "asciiLower s = concat (map (\<lambda>(r, w). if 65 \<le> r \<and> r \<le> 90 then [char_of (r + 32)]
      else if r = RuneError \<and> length w = 1 then encode_rune RuneError else w) (runes s))"

datatype QueryOp = QAll | QNone | QAnd | QOr

datatype Query = Query (q_Op: QueryOp) (q_Trigram: "string list") (q_Sub: "Query list")

text \<open>The local \<open>add\<close>: a part once, with its count.\<close>

definition add_part :: "string \<Rightarrow> nat \<Rightarrow> string list \<times> nat \<Rightarrow> string list \<times> nat" where
  "add_part part n st =
     (case st of (parts, phrases) \<Rightarrow> if part \<in> set parts then st else (parts @ [part], phrases + n))"

text \<open>The two loops; \<open>None\<close> is the early return of the empty query.\<close>

fun fts_trigrams :: "bool \<Rightarrow> string \<Rightarrow> string list \<Rightarrow> string list \<times> nat \<Rightarrow> (string list \<times> nat) option" where
  "fts_trigrams isOr literal [] st = Some st"
| "fts_trigrams isOr literal (t # ts) st =
     (if \<not> ValidString t \<or> RuneCount t \<noteq> 3 \<or> Contains literal (asciiLower t)
      then (if isOr then None else fts_trigrams isOr literal ts st)
      else fts_trigrams isOr literal ts (add_part (ftsPhrase (asciiLower t)) 1 st))"

fun ftsQuery :: "Query \<Rightarrow> string \<Rightarrow> string \<times> nat"
  and fts_subs :: "bool \<Rightarrow> string \<Rightarrow> Query list \<Rightarrow> string list \<times> nat \<Rightarrow> (string list \<times> nat) option" where
  "ftsQuery (Query op trigrams subs) literal =
     (if op \<noteq> QAnd \<and> op \<noteq> QOr then ([], 0)
      else case fts_trigrams (op = QOr) literal trigrams ([], 0) of
             None \<Rightarrow> ([], 0)
           | Some st \<Rightarrow>
               (case fts_subs (op = QOr) literal subs st of
                  None \<Rightarrow> ([], 0)
                | Some (parts, phrases) \<Rightarrow> (Join parts (if op = QOr then '' OR '' else '' AND ''), phrases)))"
| "fts_subs isOr literal [] st = Some st"
| "fts_subs isOr literal (q # qs) st =
     (case ftsQuery q literal of
        (part, n) \<Rightarrow>
          (if part = [] then (if isOr then None else fts_subs isOr literal qs st)
           else fts_subs isOr literal qs (add_part (''('' @ part @ '')'') n st)))"

definition maxTrigramPhrases :: nat where "maxTrigramPhrases = 256"

definition regexTrigramQuery :: "(Regexp \<Rightarrow> Query) \<Rightarrow> Regexp \<Rightarrow> string" where
  "regexTrigramQuery RegexpQuery expression =
     (let literal = trigramCandidate (requiredLiteral expression);
          longest = maxMatchBytes expression;
          narrow = (if 0 \<le> longest \<and> longest \<le> int (ChunkOverlap - UTFMax)
                    then (case ftsQuery (RegexpQuery (lowerFoldedLiterals expression)) (asciiLower literal) of
                            (query, phrases) \<Rightarrow>
                              if query \<noteq> [] \<and> phrases \<le> maxTrigramPhrases then [''('' @ query @ '')''] else [])
                    else [])
      in Join (narrow @ (if literal \<noteq> [] then [ftsPhrase literal] else [])) '' AND '')"

subsection \<open>What an expression matches\<close>

text \<open>A rune of a literal matches the encoding of that rune.  Without regard to case an ASCII letter also matches its
  other case, the Kelvin sign for k and the long s for s; for a rune beyond ASCII \<open>orbit\<close> stands for
  the engine's Unicode table.\<close>

definition folds_to :: "(nat \<Rightarrow> nat \<Rightarrow> bool) \<Rightarrow> nat \<Rightarrow> string \<Rightarrow> bool" where
  "folds_to orbit r w \<longleftrightarrow>
     (if 0x80 \<le> r then orbit r (rune_of w)
      else (\<exists>c. w = [c] \<and> byte c < (0x80 :: nat) \<and> lower_char c = lower_char (char_of r))
        \<or> rune_of w = 0x212A \<and> lower_char (char_of r) = CHR ''k''
        \<or> rune_of w = 0x017F \<and> lower_char (char_of r) = CHR ''s'')"

definition rune_match :: "(nat \<Rightarrow> nat \<Rightarrow> bool) \<Rightarrow> bool \<Rightarrow> nat \<Rightarrow> string \<Rightarrow> bool" where
  "rune_match orbit ci r w \<longleftrightarrow> single w \<and> (w = encode_rune r \<or> ci \<and> folds_to orbit r w)"

inductive matches :: "(nat \<Rightarrow> nat \<Rightarrow> bool) \<Rightarrow> Regexp \<Rightarrow> string \<Rightarrow> bool" for orbit where
  "matches orbit OpEmptyMatch []"
| "e \<in> {OpBeginLine, OpEndLine, OpBeginText, OpEndText, OpWordBoundary, OpNoWordBoundary} \<Longrightarrow> matches orbit e []"
| "list_all2 (rune_match orbit ci) rs ws \<Longrightarrow> matches orbit (OpLiteral ci rs) (concat ws)"
| "single w \<Longrightarrow> (lo, hi) \<in> set cs \<Longrightarrow> lo \<le> rune_of w \<Longrightarrow> rune_of w \<le> hi \<Longrightarrow> matches orbit (OpCharClass cs) w"
| "single w \<Longrightarrow> w \<noteq> newline \<Longrightarrow> matches orbit OpAnyCharNotNL w"
| "single w \<Longrightarrow> matches orbit OpAnyChar w"
| "matches orbit r w \<Longrightarrow> matches orbit (OpCapture r) w"
| "matches orbit (OpQuest r) []"
| "matches orbit r w \<Longrightarrow> matches orbit (OpQuest r) w"
| "\<forall>w \<in> set ws. matches orbit r w \<Longrightarrow> matches orbit (OpStar r) (concat ws)"
| "ws \<noteq> [] \<Longrightarrow> \<forall>w \<in> set ws. matches orbit r w \<Longrightarrow> matches orbit (OpPlus r) (concat ws)"
| "mn \<le> int (length ws) \<Longrightarrow> mx < 0 \<or> int (length ws) \<le> mx \<Longrightarrow> \<forall>w \<in> set ws. matches orbit r w \<Longrightarrow>
     matches orbit (OpRepeat mn mx r) (concat ws)"
| "list_all2 (matches orbit) rs ws \<Longrightarrow> matches orbit (OpConcat rs) (concat ws)"
| "r \<in> set rs \<Longrightarrow> matches orbit r w \<Longrightarrow> matches orbit (OpAlternate rs) w"

inductive_cases matches_cases:
  "matches orbit OpNoMatch w" "matches orbit OpEmptyMatch w" "matches orbit (OpLiteral ci rs) w" "matches orbit (OpCharClass cs) w"
  "matches orbit OpAnyCharNotNL w" "matches orbit OpAnyChar w" "matches orbit (OpCapture r) w" "matches orbit (OpQuest r) w"
  "matches orbit (OpStar r) w" "matches orbit (OpPlus r) w" "matches orbit (OpRepeat mn mx r) w" "matches orbit (OpConcat rs) w"
  "matches orbit (OpAlternate rs) w"

text \<open>How many bytes of a match a byte of a required literal can stand for: without regard to case the Kelvin sign of
  three bytes stands for k.\<close>

fun fold_width :: "Regexp \<Rightarrow> nat" where
  "fold_width (OpLiteral ci rs) = (if ci then 3 else 1)"
| "fold_width (OpCapture r) = fold_width r"
| "fold_width (OpStar r) = fold_width r"
| "fold_width (OpPlus r) = fold_width r"
| "fold_width (OpQuest r) = fold_width r"
| "fold_width (OpRepeat mn mx r) = fold_width r"
| "fold_width (OpConcat rs) = foldr (\<lambda>r n. max (fold_width r) n) rs 1"
| "fold_width (OpAlternate rs) = foldr (\<lambda>r n. max (fold_width r) n) rs 1"
| "fold_width r = 1"

lemma single_le4: "single w \<Longrightarrow> length w \<le> UTFMax"
  using single_length by (simp add: UTFMax_def)

text \<open>A match of valid text is valid text.\<close>

lemma rune_match_singles: "list_all2 (rune_match orbit ci) rs ws \<Longrightarrow> list_all single ws"
  by (induction rule: list_all2_induct) (auto simp: rune_match_def)

lemma ValidString_concat: "\<forall>w \<in> set ws. ValidString w \<Longrightarrow> ValidString (concat ws)"
  by (induction ws) (auto simp: ValidString_append)

lemma matches_valid: "matches orbit r w \<Longrightarrow> ValidString w"
proof (induction rule: matches.induct)
  case (3 ci rs ws)
  then show ?case by (intro ValidString_singles rune_match_singles)
next
  case (13 rs ws)
  then have "\<forall>w \<in> set ws. ValidString w" by (induction rule: list_all2_induct) auto
  then show ?case by (rule ValidString_concat)
qed (auto simp: single_valid intro: ValidString_concat)

end
