(* ===== verification/SearchSound.thy ===== *)
theory SearchSound
  imports SearchQuery
begin

text \<open>
  Why narrowing a regular expression search by the trigram index loses no match: the bound on a match, the
  literal every match contains, and the query that is satisfied by a chunk the match lies in.
\<close>

subsection \<open>The length of a match\<close>

lemma length_concat_le: "\<forall>w \<in> set ws. length w \<le> n \<Longrightarrow> length (concat ws) \<le> length ws * n"
  by (induction ws) auto

lemma concat_bytes_bound:
  assumes "list_all2 (\<lambda>r w. 0 \<le> maxMatchBytes r \<longrightarrow> int (length w) \<le> maxMatchBytes r) rs ws"
    and "0 \<le> concat_bytes rs acc"
  shows "int (length (concat ws)) + acc \<le> concat_bytes rs acc"
  using assms
proof (induction rs ws arbitrary: acc rule: list_all2_induct)
  case (Cons r rs w ws)
  have "0 \<le> maxMatchBytes r" using Cons.prems by (auto simp: Let_def split: if_splits)
  then have "concat_bytes (r # rs) acc = concat_bytes rs (acc + maxMatchBytes r)" by (simp add: Let_def)
  with Cons.IH [of "acc + maxMatchBytes r"] Cons.prems Cons.hyps(1) \<open>0 \<le> maxMatchBytes r\<close> show ?case by auto
qed simp

lemma alternate_bytes_bound:
  "0 \<le> alternate_bytes rs acc \<Longrightarrow> acc \<le> alternate_bytes rs acc \<and>
   (\<forall>r \<in> set rs. 0 \<le> maxMatchBytes r \<and> maxMatchBytes r \<le> alternate_bytes rs acc)"
proof (induction rs arbitrary: acc)
  case (Cons r rs)
  then have r: "0 \<le> maxMatchBytes r" by (auto simp: Let_def split: if_splits)
  then have "alternate_bytes (r # rs) acc = alternate_bytes rs (max acc (maxMatchBytes r))" by (simp add: Let_def)
  with Cons.IH [of "max acc (maxMatchBytes r)"] Cons.prems r show ?case by auto
qed simp

lemma matches_bound: "matches orbit r w \<Longrightarrow> 0 \<le> maxMatchBytes r \<Longrightarrow> int (length w) \<le> maxMatchBytes r"
proof (induction rule: matches.induct)
  case (2 e)
  then show ?case by auto
next
  case (3 ci rs ws)
  have "\<forall>w \<in> set ws. length w \<le> UTFMax"
    using rune_match_singles [OF 3(1)] single_le4 by (auto simp: list_all_iff)
  then have "length (concat ws) \<le> length rs * UTFMax"
    using length_concat_le [of ws UTFMax] list_all2_lengthD [OF 3(1)] by simp
  then show ?case by (simp flip: of_nat_mult)
next
  case (12 mn ws mx r)
  let ?l = "maxMatchBytes r"
  have l: "0 \<le> mx" "0 \<le> ?l" using "12.prems" by (auto simp: Let_def split: if_splits)
  then have "\<forall>w \<in> set ws. length w \<le> nat ?l" using 12(3) by auto
  then have "length (concat ws) \<le> length ws * nat ?l" by (rule length_concat_le)
  then have "int (length (concat ws)) \<le> int (length ws) * ?l" using l(2) by (metis int_nat_eq of_nat_le_iff of_nat_mult)
  also have "\<dots> \<le> mx * ?l" using 12(2) l by (intro mult_right_mono) auto
  finally show ?case using l by (simp add: Let_def mult.commute)
next
  case (13 rs ws)
  have "list_all2 (\<lambda>r w. 0 \<le> maxMatchBytes r \<longrightarrow> int (length w) \<le> maxMatchBytes r) rs ws"
    using 13(1) by (rule list_all2_mono) simp
  with "13.prems" concat_bytes_bound [of rs ws 0] show ?case by simp
next
  case (14 r rs w)
  then show ?case using alternate_bytes_bound [of rs 0] by auto
qed (auto simp: UTFMax_def dest: single_le4)

subsection \<open>The contract of the index\<close>

text \<open>The trigram index folds case rune by rune: for ASCII letters as ASCII does, and it takes the Kelvin sign and the
  long s for k and s.  What it does with other runes does not matter.\<close>

locale trigram_index =
  fixes fold_char :: "nat \<times> string \<Rightarrow> string"
  assumes fold_ascii: "byte c < (0x80 :: nat) \<Longrightarrow> fold_char (byte c, [c]) = [lower_char c]"
    and fold_kelvin: "fold_char (0x212A, w) = ''k''"
    and fold_long_s: "fold_char (0x017F, w) = ''s''"
begin

abbreviation folded :: "string \<Rightarrow> string" where
  "folded \<equiv> fold_text fold_char"

lemma folded_ascii: "byte c < (0x80 :: nat) \<Longrightarrow> folded [c] = [lower_char c]"
  by (simp add: fold_text_single single_ascii fold_ascii)

text \<open>A literal and a piece of text it was found in, rune by rune.\<close>

definition covers :: "nat \<Rightarrow> string \<Rightarrow> string \<Rightarrow> bool" where
  "covers k p literal \<longleftrightarrow> (\<exists>bs ps. literal = concat bs \<and> p = concat ps \<and> list_all single bs \<and>
     list_all2 (\<lambda>b q. single q \<and> folded q = folded b \<and> length q \<le> k * length b) bs ps)"

lemma covers_Nil: "\<exists>p. Contains w p \<and> covers k p []"
proof -
  have "covers k [] []" unfolding covers_def by (intro exI [of _ "[]"]) simp
  moreover have "Contains w []" by (auto simp: Contains_iff)
  ultimately show ?thesis by blast
qed

lemma single_short: "single w \<Longrightarrow> rune_of w < 0x10000 \<Longrightarrow> length w \<le> 3"
proof -
  assume w: "single w" "rune_of w < 0x10000"
  have "unit_len w = length w" "0 < length w" using w by (auto simp: single_def)
  then show "length w \<le> 3"
  proof (cases rule: unit_shape)
    case (four a b c d)
    define x y where "x = (byte a :: nat)" "y = (byte b :: nat)"
    have "0xF0 \<le> x" "x = 0xF0 \<longrightarrow> 0x90 \<le> y" using four by (auto simp: x_y_def second_ok_def)
    then have "0x10000 \<le> (x - 0xF0) * 262144 + (y - 0x80) * 4096" by (cases "x = 0xF0") auto
    then have "0x10000 \<le> rune_of w" using four by (simp add: x_y_def)
    with w(2) show ?thesis by simp
  qed auto
qed

lemma rune_match_covers:
  assumes "rune_match orbit ci r w" "\<not> (ci \<and> 0x80 \<le> r)" "(if ci then 3 else 1) \<le> k"
  shows "single (encode_rune r) \<and> folded w = folded (encode_rune r) \<and> length w \<le> k * length (encode_rune r)"
proof (cases "w = encode_rune r")
  case True
  moreover have "1 \<le> k" using assms(3) by (simp split: if_splits)
  ultimately show ?thesis using assms(1) by (simp add: rune_match_def)
next
  case False
  with assms have r: "r < 0x80" "single w" "folds_to orbit r w" "3 \<le> k" by (auto simp: rune_match_def split: if_splits)
  then have e: "encode_rune r = [char_of r]" "byte (char_of r) < (0x80 :: nat)"
    by (simp_all add: encode_rune_ascii)
  have f: "folded [char_of r] = [lower_char (char_of r)]" using folded_ascii [OF e(2)] .
  have "folded w = folded [char_of r] \<and> length w \<le> 3"
    using r(1, 3) single_short [OF r(2)] f
    by (auto simp: folds_to_def fold_text_single [OF r(2)] fold_kelvin fold_long_s fold_ascii)
  then show ?thesis using e single_ascii [OF e(2)] r(4) by simp
qed

lemma literal_covers:
  assumes "list_all2 (rune_match orbit ci) rs ws" "\<not> (ci \<and> list_ex (\<lambda>r. 0x80 \<le> r) rs)"
    "(if ci then 3 else 1) \<le> k"
  shows "covers k (concat ws) (rune_text rs)"
proof -
  have "list_all2 (\<lambda>b q. single q \<and> folded q = folded b \<and> length q \<le> k * length b) (map encode_rune rs) ws
      \<and> list_all single (map encode_rune rs)"
    using assms
  proof (induction rule: list_all2_induct)
    case (Cons r rs w ws)
    then have "\<not> (ci \<and> 0x80 \<le> r)" "\<not> (ci \<and> list_ex (\<lambda>r. 0x80 \<le> r) rs)" by auto
    with rune_match_covers [OF Cons.hyps(1), of k] Cons.IH Cons.hyps(1) Cons.prems(2) show ?case by (simp add: rune_match_def)
  qed simp
  then show ?thesis unfolding covers_def rune_text_def by blast
qed

lemma longest_literal_from: "longest_literal rs acc = acc \<or> longest_literal rs acc \<in> requiredLiteral ` set rs"
proof (induction rs arbitrary: acc)
  case (Cons r rs)
  then show ?case by (auto simp: Let_def)
qed simp

lemma Contains_concat: "w \<in> set ws \<Longrightarrow> Contains (concat ws) w"
  by (auto simp: Contains_iff dest!: split_list) blast

text \<open>How much longer than the literal a text can be: not at all with regard to case.\<close>

lemma fold_width_pos: "r \<in> set rs \<Longrightarrow> fold_width r \<le> foldr (\<lambda>r n. max (fold_width r) n) rs 1"
  by (induction rs) auto

text \<open>Every match contains the required literal.\<close>

lemma required_literal: "matches orbit r w \<Longrightarrow> fold_width r \<le> k \<Longrightarrow> \<exists>p. Contains w p \<and> covers k p (requiredLiteral r)"
proof (induction rule: matches.induct)
  case (3 ci rs ws)
  show ?case
  proof (cases "ci \<and> list_ex (\<lambda>r. 0x80 \<le> r) rs")
    case True
    then show ?thesis using covers_Nil by simp
  next
    case False
    with literal_covers [OF 3(1)] "3.prems" show ?thesis by (intro exI [of _ "concat ws"]) auto
  qed
next
  case (11 ws r)
  then obtain w where "w \<in> set ws" by (cases ws) auto
  with 11 show ?case using Contains_concat Contains_trans by fastforce
next
  case (12 mn ws mx r)
  show ?case
  proof (cases "0 < mn")
    case True
    with 12 obtain w where "w \<in> set ws" by (cases ws) auto
    with 12 True show ?thesis using Contains_concat Contains_trans by fastforce
  next
    case False
    then show ?thesis using covers_Nil by simp
  qed
next
  case (13 rs ws)
  consider "longest_literal rs [] = []" | r where "r \<in> set rs" "longest_literal rs [] = requiredLiteral r"
    using longest_literal_from [of rs "[]"] by auto
  then show ?case
  proof cases
    case 1
    then show ?thesis using covers_Nil by simp
  next
    case (2 r)
    then obtain i where i: "i < length rs" "r = rs ! i" by (metis in_set_conv_nth)
    have "fold_width r \<le> k" using fold_width_pos [OF 2(1)] "13.prems" by simp
    with i 13 have "\<exists>p. Contains (ws ! i) p \<and> covers k p (requiredLiteral r)" "ws ! i \<in> set ws"
      by (auto simp: list_all2_conv_all_nth)
    then show ?thesis using 2 Contains_concat Contains_trans by fastforce
  qed
qed (use covers_Nil in auto)

subsection \<open>The candidate\<close>

lemma single_inner: "single b \<Longrightarrow> 0 < e \<Longrightarrow> e < length b \<Longrightarrow> \<not> RuneStart (b ! e)"
proof -
  assume b: "single b" "0 < e" "e < length b"
  have "unit_len b = length b" "0 < length b" using b by (auto simp: single_def)
  then show "\<not> RuneStart (b ! e)"
    using b(2, 3) by (cases rule: unit_shape) (auto simp: nth_Cons' less_Suc_eq)
qed

lemma take_units:
  "list_all single bs \<Longrightarrow> e \<le> length (concat bs) \<Longrightarrow> e = length (concat bs) \<or> RuneStart (concat bs ! e) \<Longrightarrow>
   \<exists>n. take e (concat bs) = concat (take n bs)"
proof (induction bs arbitrary: e)
  case (Cons b bs)
  show ?case
  proof (cases "e = 0")
    case True
    then show ?thesis by (intro exI [of _ 0]) simp
  next
    case False
    have "length b \<le> e"
    proof (rule ccontr)
      assume "\<not> length b \<le> e"
      then have "\<not> RuneStart (b ! e)" using single_inner [of b e] Cons.prems(1) False by auto
      with \<open>\<not> length b \<le> e\<close> Cons.prems(3) show False by (auto simp: nth_append)
    qed
    then have "\<exists>n. take (e - length b) (concat bs) = concat (take n bs)"
      using Cons.prems by (intro Cons.IH) (auto simp: nth_append)
    then obtain n where "take (e - length b) (concat bs) = concat (take n bs)" by blast
    with \<open>length b \<le> e\<close> show ?thesis by (intro exI [of _ "Suc n"]) simp
  qed
qed simp

lemma covers_candidate:
  assumes "covers k p literal"
  shows "\<exists>q. Contains p q \<and> covers k q (trigramCandidate literal) \<and> length q \<le> k * length (trigramCandidate literal)"
proof (cases "RuneCount literal < 3")
  case True
  have "covers k [] []" unfolding covers_def by (intro exI [of _ "[]"]) simp
  then show ?thesis using True by (intro exI [of _ "[]"]) (auto simp: trigramCandidate_def Contains_iff)
next
  case False
  obtain bs ps where c: "literal = concat bs" "p = concat ps" "list_all single bs"
      "list_all2 (\<lambda>b q. single q \<and> folded q = folded b \<and> length q \<le> k * length b) bs ps"
    using assms by (auto simp: covers_def)
  have valid: "ValidString literal" using c(1, 3) ValidString_singles by simp
  let ?i = "min (length literal) 512"
  obtain e where e: "back_to_start literal ?i = Some e" "e \<le> ?i" "e < length literal \<longrightarrow> RuneStart (literal ! e)"
    using back_to_start_valid [OF valid, of ?i] by auto
  then obtain n where n: "take e literal = concat (take n bs)"
    using take_units [OF c(3), of e] c(1) by (cases "e = length literal") auto
  let ?q = "concat (take n ps)"
  have t: "list_all2 (\<lambda>b q. single q \<and> folded q = folded b \<and> length q \<le> k * length b) (take n bs) (take n ps)"
    using c(4) by (rule list_all2_takeI)
  have "p = ?q @ concat (drop n ps)" using c(2) by (metis append_take_drop_id concat_append)
  then have "Contains p ?q" by (auto simp: Contains_iff intro: exI [of _ "[]"])
  moreover have "covers k ?q (concat (take n bs))"
    unfolding covers_def using t c(3) by (intro exI [of _ "take n bs"] exI [of _ "take n ps"]) (auto simp: list_all_iff dest: in_set_takeD)
  moreover have "length ?q \<le> k * length (concat (take n bs))"
    using t by (induction rule: list_all2_induct) (auto simp: distrib_left)
  moreover have "trigramCandidate literal = concat (take n bs)"
    using False e(1) n by (simp add: trigramCandidate_def)
  ultimately show ?thesis by auto
qed

lemma covers_folded: "covers k p literal \<Longrightarrow> folded p = folded literal \<and> ValidString p"
proof -
  assume "covers k p literal"
  then obtain bs ps where c: "literal = concat bs" "p = concat ps" "list_all single bs"
      "list_all2 (\<lambda>b q. single q \<and> folded q = folded b \<and> length q \<le> k * length b) bs ps"
    by (auto simp: covers_def)
  have ps: "list_all single ps \<and> map folded ps = map folded bs"
    using c(4) by (induction rule: list_all2_induct) auto
  then show ?thesis using c by (simp add: fold_text_singles ValidString_singles)
qed

subsection \<open>The lowered expression\<close>

lemma list_all2_choice:
  "list_all2 (\<lambda>x y. \<exists>z. P x z \<and> f z = f y) xs ys \<Longrightarrow> \<exists>zs. list_all2 P xs zs \<and> map f zs = map f ys"
proof (induction rule: list_all2_induct)
  case (Cons x xs y ys)
  then obtain z zs where "P x z" "f z = f y" "list_all2 P xs zs" "map f zs = map f ys" by auto
  then show ?case by (intro exI [of _ "z # zs"]) simp
qed simp

lemma folded_concat: "\<forall>w \<in> set ws. ValidString w \<Longrightarrow> folded (concat ws) = concat (map folded ws)"
  by (induction ws) (auto simp: fold_text_valid_append)

lemma lower_literal:
  assumes "list_all2 (rune_match orbit ci) rs ws" "ci" "\<not> list_ex (\<lambda>r. 0x80 \<le> r) rs"
  shows "\<exists>ws'. list_all2 (rune_match orbit False) (map lower_letter rs) ws' \<and> map folded ws' = map folded ws"
proof (unfold list.rel_map, rule list_all2_choice)
  have "\<exists>w'. rune_match orbit False (lower_letter r) w' \<and> folded w' = folded w" if "rune_match orbit ci r w" "r < 0x80" for r w
  proof (intro exI conjI)
    let ?l = "char_of (lower_letter r) :: char"
    have l: "lower_letter r < 0x80" "byte (char_of r) < (0x80 :: nat)" "byte ?l < (0x80 :: nat)"
      using that(2) by (auto simp: lower_letter_def)
    have e: "encode_rune (lower_letter r) = [?l]" using l by (simp add: encode_rune_ascii)
    show "rune_match orbit False (lower_letter r) [?l]"
      using single_ascii [OF l(3)] e by (simp add: rune_match_def)
    have "lower_char ?l = lower_char (char_of r)"
      using that(2) by (auto simp: lower_char_def upper_ascii_def lower_letter_def less_eq_char_def)
    then show "folded [?l] = folded w"
      using rune_match_covers [OF that(1), of 3] that(2) folded_ascii [OF l(2)] folded_ascii [OF l(3)]
      by (simp add: encode_rune_ascii)
  qed
  moreover have "list_all2 (\<lambda>r w. rune_match orbit ci r w \<and> r < 0x80) rs ws"
    using assms(1, 3) by (induction rule: list_all2_induct) auto
  ultimately show "list_all2 (\<lambda>r w. \<exists>w'. rune_match orbit False (lower_letter r) w' \<and> folded w' = folded w) rs ws"
    by (auto elim: list_all2_mono)
qed

lemma lowered_all:
  "\<forall>w \<in> set ws. matches orbit r w \<and> (\<exists>w'. matches orbit r' w' \<and> folded w' = folded w) \<Longrightarrow>
   \<exists>ws'. (\<forall>w \<in> set ws'. matches orbit r' w) \<and> length ws' = length ws \<and> folded (concat ws') = folded (concat ws)"
proof (induction ws)
  case (Cons w ws)
  then obtain w' ws' where w': "matches orbit r' w'" "folded w' = folded w" "matches orbit r w"
    and ws': "\<forall>w \<in> set ws'. matches orbit r' w" "length ws' = length ws" "folded (concat ws') = folded (concat ws)" by auto
  have "folded (concat (w' # ws')) = folded (concat (w # ws))"
    using w' ws'(3) matches_valid [OF w'(1)] matches_valid [OF w'(3)] by (simp add: fold_text_valid_append)
  with w' ws' show ?case by (intro exI [of _ "w' # ws'"]) simp
qed simp

lemma valid_all2:
  "list_all2 P rs ws \<Longrightarrow> (\<And>r w. P r w \<Longrightarrow> ValidString w) \<Longrightarrow> \<forall>w \<in> set ws. ValidString w"
  by (induction rule: list_all2_induct) auto

text \<open>Lowering an expression matches some text with the same folding.\<close>

lemma lowered_match: "matches orbit r w \<Longrightarrow> \<exists>w'. matches orbit (lowerFoldedLiterals r) w' \<and> folded w' = folded w"
proof (induction rule: matches.induct)
  case (2 e)
  then show ?case by (intro exI [of _ "[]"]) (auto intro: matches.intros)
next
  case (3 ci rs ws)
  show ?case
  proof (cases "ci \<and> \<not> list_ex (\<lambda>r. 0x80 \<le> r) rs")
    case True
    then obtain ws' where ws': "list_all2 (rune_match orbit False) (map lower_letter rs) ws'" "map folded ws' = map folded ws"
      using lower_literal [OF 3] by auto
    have "folded (concat ws') = folded (concat ws)"
      using ws' rune_match_singles [OF 3] rune_match_singles [OF ws'(1)] by (simp add: fold_text_singles)
    with True ws'(1) show ?thesis by (auto intro: matches.intros(3))
  next
    case False
    with 3 show ?thesis by (auto intro: matches.intros(3))
  qed
next
  case (10 ws r)
  from lowered_all [of ws orbit r "lowerFoldedLiterals r"] 10 obtain ws' where
    "\<forall>w \<in> set ws'. matches orbit (lowerFoldedLiterals r) w" "folded (concat ws') = folded (concat ws)" by auto
  then show ?case by (auto intro: matches.intros)
next
  case (11 ws r)
  from lowered_all [of ws orbit r "lowerFoldedLiterals r"] 11 obtain ws' where
    "\<forall>w \<in> set ws'. matches orbit (lowerFoldedLiterals r) w" "ws' \<noteq> []" "folded (concat ws') = folded (concat ws)" by fastforce
  then show ?case by (auto intro: matches.intros)
next
  case (12 mn ws mx r)
  from lowered_all [of ws orbit r "lowerFoldedLiterals r"] 12 obtain ws' where
    "\<forall>w \<in> set ws'. matches orbit (lowerFoldedLiterals r) w" "length ws' = length ws" "folded (concat ws') = folded (concat ws)" by auto
  then have "matches orbit (OpRepeat mn mx (lowerFoldedLiterals r)) (concat ws')"
    using 12(1, 2) matches.intros(12) [of mn ws' mx orbit "lowerFoldedLiterals r"] by simp
  with \<open>folded (concat ws') = _\<close> show ?case by auto
next
  case (13 rs ws)
  have step: "list_all2 (\<lambda>x y. \<exists>z. (\<lambda>r. matches orbit (lowerFoldedLiterals r)) x z \<and> folded z = folded y) rs ws"
    using "13.IH" by (rule list_all2_mono) (elim conjE)
  obtain ws' where ws': "list_all2 (\<lambda>r. matches orbit (lowerFoldedLiterals r)) rs ws'" "map folded ws' = map folded ws"
    using list_all2_choice [OF step] by (elim exE conjE)
  have "list_all2 (matches orbit) (map lowerFoldedLiterals rs) ws'" using ws'(1) by (simp add: list.rel_map)
  then have "matches orbit (OpConcat (map lowerFoldedLiterals rs)) (concat ws')" by (rule matches.intros)
  moreover have "\<forall>w \<in> set ws'. ValidString w" "\<forall>w \<in> set ws. ValidString w"
    using valid_all2 [OF ws'(1)] valid_all2 [OF "13.IH"] matches_valid by blast+
  then have "folded (concat ws') = folded (concat ws)" using ws'(2) by (simp add: folded_concat)
  ultimately show ?case by auto
next
  case (14 r rs w)
  then obtain w' where w': "matches orbit (lowerFoldedLiterals r) w'" "folded w' = folded w" by blast
  have "matches orbit (OpAlternate (map lowerFoldedLiterals rs)) w'"
    using 14(1) w'(1) by (intro matches.intros(14) [of "lowerFoldedLiterals r"]) auto
  with w'(2) show ?case by auto
qed (auto intro: matches.intros)

end

interpretation ascii_index: trigram_index fold_rune
  by unfold_locales (auto simp: fold_rune_def)

end
