(* ===== verification/SearchIndex.thy ===== *)
theory SearchIndex
  imports SearchSound
begin

text \<open>
  The FTS5 query of a regular expression search is satisfied by a chunk of every text with a match.  A query is
  given its meaning through its reading as a tree of phrases; a phrase is found in a text when its
  folding is part of the text's folding.
\<close>

datatype fts = Phrase string | Paren fts | AllOf "fts list" | AnyOf "fts list"

fun render :: "fts \<Rightarrow> string" where
  "render (Phrase p) = ftsPhrase p"
| "render (Paren t) = ''('' @ render t @ '')''"
| "render (AllOf ts) = Join (map render ts) '' AND ''"
| "render (AnyOf ts) = Join (map render ts) '' OR ''"

text \<open>Satisfied by a text, given the folded text and the folding of phrases.\<close>

fun found_in :: "(string \<Rightarrow> string) \<Rightarrow> fts \<Rightarrow> string \<Rightarrow> bool" where
  "found_in f (Phrase p) s \<longleftrightarrow> Contains s (f p)"
| "found_in f (Paren t) s \<longleftrightarrow> found_in f t s"
| "found_in f (AllOf ts) s \<longleftrightarrow> list_all (\<lambda>t. found_in f t s) ts"
| "found_in f (AnyOf ts) s \<longleftrightarrow> list_ex (\<lambda>t. found_in f t s) ts"

lemma found_in_mono: "found_in f t s \<Longrightarrow> Contains u s \<Longrightarrow> found_in f t u"
  by (induction t) (auto simp: list_all_iff list_ex_iff intro: Contains_trans)

text \<open>The codesearch query on the bytes of a text.\<close>

fun satisfied :: "Query \<Rightarrow> string \<Rightarrow> bool" where
  "satisfied (Query op ts qs) s =
     (case op of QAll \<Rightarrow> True | QNone \<Rightarrow> False
      | QAnd \<Rightarrow> list_all (Contains s) ts \<and> list_all (\<lambda>q. satisfied q s) qs
      | QOr \<Rightarrow> list_ex (Contains s) ts \<or> list_ex (\<lambda>q. satisfied q s) qs)"

text \<open>The contract of \<open>index.RegexpQuery\<close>: a match of an expression satisfies its query.\<close>

definition query_sound :: "(nat \<Rightarrow> nat \<Rightarrow> bool) \<Rightarrow> (Regexp \<Rightarrow> Query) \<Rightarrow> bool" where
  "query_sound orbit RegexpQuery \<longleftrightarrow> (\<forall>r w. matches orbit r w \<longrightarrow> satisfied (RegexpQuery r) w)"

text \<open>A query text has a reading.\<close>

definition readable :: "string \<Rightarrow> bool" where
  "readable s \<longleftrightarrow> (\<exists>t. render t = s)"

text \<open>A query text has a reading that holds of a text: what the index finds.\<close>

definition fts_finds :: "(nat \<times> string \<Rightarrow> string) \<Rightarrow> string \<Rightarrow> string \<Rightarrow> bool" where
  "fts_finds fold_char query u \<longleftrightarrow> (\<exists>t. render t = query \<and> found_in (fold_text fold_char) t (fold_text fold_char u))"

lemma single_small:
  assumes "single w" "rune_of w < 0x80"
  obtains c where "w = [c]" "byte c < (0x80 :: nat)" "rune_of w = byte c"
proof -
  have "unit_len w = length w" "0 < length w" using assms by (auto simp: single_def)
  then show thesis using unit_rune_small [of w "length w"] assms(2) that by auto
qed

context trigram_index
begin

abbreviation holds :: "string \<Rightarrow> string \<Rightarrow> bool" where
  "holds \<equiv> fts_finds fold_char"

lemmas holds_def = fts_finds_def [of fold_char]

lemma holds_readable: "holds s u \<Longrightarrow> readable s"
  by (auto simp: holds_def readable_def)

lemma trees_of: "\<forall>s \<in> set parts. \<exists>t. render t = s \<and> P t \<Longrightarrow> \<exists>ts. map render ts = parts \<and> list_all P ts"
proof (induction parts)
  case (Cons s parts)
  then obtain t ts where "render t = s" "P t" "map render ts = parts" "list_all P ts" by auto
  then show ?case by (intro exI [of _ "t # ts"]) simp
qed simp

lemma holds_all: "\<forall>s \<in> set parts. holds s u \<Longrightarrow> holds (Join parts '' AND '') u"
  using trees_of [of parts "\<lambda>t. found_in folded t (folded u)"]
  by (auto simp: holds_def) (metis found_in.simps(3) render.simps(3))

lemma holds_any:
  assumes "\<forall>s \<in> set parts. readable s" "s \<in> set parts" "holds s u"
  shows "holds (Join parts '' OR '') u"
proof -
  obtain xs ys where p: "parts = xs @ s # ys" using assms(2) by (metis split_list)
  obtain ts us where "map render ts = xs" "map render us = ys"
    using trees_of [of xs "\<lambda>_. True"] trees_of [of ys "\<lambda>_. True"] assms(1) p by (auto simp: readable_def)
  moreover obtain t where "render t = s" "found_in folded t (folded u)" using assms(3) by (auto simp: holds_def)
  ultimately show ?thesis
    unfolding holds_def p by (intro exI [of _ "AnyOf (ts @ t # us)"]) simp
qed

lemma readable_any: "\<forall>s \<in> set parts. readable s \<Longrightarrow> readable (Join parts '' OR '') \<and> readable (Join parts '' AND '')"
proof -
  assume "\<forall>s \<in> set parts. readable s"
  then obtain ts where "map render ts = parts" using trees_of [of parts "\<lambda>_. True"] by (auto simp: readable_def)
  then show ?thesis unfolding readable_def by (metis render.simps(3, 4))
qed

lemma holds_paren: "holds s u \<Longrightarrow> holds (''('' @ s @ '')'') u"
  unfolding holds_def by (metis found_in.simps(2) render.simps(2))

lemma readable_paren: "readable s \<Longrightarrow> readable (''('' @ s @ '')'')"
  unfolding readable_def by (metis render.simps(2))

lemma readable_phrase: "readable (ftsPhrase p)"
  unfolding readable_def by (metis render.simps(1))

subsection \<open>Trigrams\<close>

lemma folded_lower:
  assumes "ValidString t"
  shows "folded (asciiLower t) = folded t"
proof -
  obtain ws where ws: "t = concat ws" "list_all single ws" "runes t = map (\<lambda>w. (rune_of w, w)) ws"
    using valid_singles [OF assms] by blast
  define g where "g w = (if 65 \<le> rune_of w \<and> rune_of w \<le> 90 then [char_of (rune_of w + 32)]
      else if rune_of w = RuneError \<and> length w = 1 then encode_rune RuneError else w)" for w
  have g: "single (g w) \<and> folded (g w) = folded w" if w: "single w" for w
  proof (cases "65 \<le> rune_of w \<and> rune_of w \<le> 90")
    case True
    then obtain c where c: "w = [c]" "byte c < (0x80 :: nat)" "rune_of w = byte c" using single_small [OF w] by auto
    let ?l = "char_of (byte c + 32 :: nat) :: char"
    have l: "byte ?l < (0x80 :: nat)" using True c by simp
    have "lower_char ?l = lower_char c"
      using True c by (auto simp: lower_char_def upper_ascii_def less_eq_char_def)
    then show ?thesis using True c single_ascii [OF l] folded_ascii [OF l] folded_ascii [OF c(2)] by (simp add: g_def)
  next
    case False
    have "\<not> (rune_of w = RuneError \<and> length w = 1)"
    proof
      assume e: "rune_of w = RuneError \<and> length w = 1"
      then obtain c where c: "w = [c]" by (auto simp: length_Suc_conv)
      then have "byte c < (0x100 :: nat)" by (metis of_char_mod_256 mod_less_divisor zero_less_numeral)
      then have "RuneError < 0x100" using e c by (metis rune_of.simps(1))
      then show False by (simp add: RuneError_def)
    qed
    with False have "g w = w" by (simp only: g_def if_False)
    with w show ?thesis by simp
  qed
  have "asciiLower t = concat (map g ws)"
    by (simp add: asciiLower_def ws(3) g_def [abs_def] comp_def)
  moreover have "list_all single (map g ws)" using ws(2) g by (simp add: list_all_iff)
  moreover have "map folded (map g ws) = map folded ws" using ws(2) g by (simp add: list_all_iff)
  ultimately show ?thesis by (metis fold_text_singles ws(1, 2))
qed

lemma phrase_holds:
  assumes "ValidString t" "Contains s t" "folded s = folded u"
  shows "holds (ftsPhrase (asciiLower t)) u"
proof -
  have "Contains (folded u) (folded (asciiLower t))"
    using fold_text_Contains [OF assms(1, 2), of fold_char] assms(3) folded_lower [OF assms(1)] by simp
  then show ?thesis unfolding holds_def by (metis found_in.simps(1) render.simps(1))
qed

subsection \<open>The query\<close>

lemma add_part_set: "set (fst (add_part p n st)) = insert p (set (fst st))"
  by (auto simp: add_part_def split: prod.split)

lemma fts_trigrams_all:
  assumes "fts_trigrams False literal ts st = Some st'" "list_all (Contains s) ts" "folded s = folded u"
    "\<forall>p \<in> set (fst st). holds p u"
  shows "\<forall>p \<in> set (fst st'). holds p u"
  using assms
proof (induction ts arbitrary: st)
  case (Cons t ts)
  show ?case
  proof (cases "\<not> ValidString t \<or> RuneCount t \<noteq> 3 \<or> Contains literal (asciiLower t)")
    case True
    with Cons.prems(1) have "fts_trigrams False literal ts st = Some st'" by simp
    with Cons show ?thesis by simp
  next
    case False
    then have "fts_trigrams False literal ts (add_part (ftsPhrase (asciiLower t)) 1 st) = Some st'"
      using Cons.prems(1) by simp
    moreover have "holds (ftsPhrase (asciiLower t)) u"
      using phrase_holds [of t s u] False Cons.prems(2, 3) by simp
    moreover have "\<forall>p \<in> set (fst (add_part (ftsPhrase (asciiLower t)) 1 st)). holds p u"
      using calculation(2) Cons.prems(4) by (simp add: add_part_set)
    ultimately show ?thesis using Cons.IH Cons.prems(2, 3) by simp
  qed
qed simp

lemma fts_trigrams_readable:
  assumes "fts_trigrams isOr literal ts st = Some st'" "\<forall>p \<in> set (fst st). readable p"
  shows "(\<forall>p \<in> set (fst st'). readable p) \<and> set (fst st) \<subseteq> set (fst st')"
  using assms
proof (induction ts arbitrary: st)
  case (Cons t ts)
  show ?case
  proof (cases "\<not> ValidString t \<or> RuneCount t \<noteq> 3 \<or> Contains literal (asciiLower t)")
    case True
    with Cons show ?thesis by (auto split: if_splits)
  next
    case False
    with Cons.prems have "fts_trigrams isOr literal ts (add_part (ftsPhrase (asciiLower t)) 1 st) = Some st'" by simp
    from Cons.IH [OF this] Cons.prems(2) readable_phrase show ?thesis by (auto simp: add_part_set)
  qed
qed simp

lemma fts_trigrams_any:
  assumes "fts_trigrams True literal ts st = Some st'" "list_ex (Contains s) ts" "folded s = folded u"
    "\<forall>p \<in> set (fst st). readable p"
  shows "\<exists>p \<in> set (fst st'). holds p u"
  using assms
proof (induction ts arbitrary: st)
  case (Cons t ts)
  then have t: "ValidString t"
    "fts_trigrams True literal ts (add_part (ftsPhrase (asciiLower t)) 1 st) = Some st'"
    by (auto split: if_splits)
  have r: "\<forall>p \<in> set (fst (add_part (ftsPhrase (asciiLower t)) 1 st)). readable p"
    using Cons.prems(4) readable_phrase by (auto simp: add_part_set)
  show ?case
  proof (cases "Contains s t")
    case True
    then have "holds (ftsPhrase (asciiLower t)) u" using phrase_holds t(1) Cons.prems(3) by blast
    with fts_trigrams_readable [OF t(2) r] show ?thesis by (auto simp: add_part_set)
  next
    case False
    with Cons.IH [OF t(2) _ Cons.prems(3) r] Cons.prems(2) show ?thesis by simp
  qed
qed simp

text \<open>A query the index can use holds of every text that has the same folding as one the codesearch query is
  satisfied by.\<close>

lemma fts_sound:
  shows "ftsQuery q literal = (s, n) \<Longrightarrow> s \<noteq> [] \<Longrightarrow> readable s \<and> (satisfied q v \<longrightarrow> folded v = folded u \<longrightarrow> holds s u)"
    and "fts_subs isOr literal qs st = Some st' \<Longrightarrow> (\<forall>p \<in> set (fst st). readable p) \<Longrightarrow>
      (\<forall>p \<in> set (fst st'). readable p) \<and> set (fst st) \<subseteq> set (fst st') \<and>
      (folded v = folded u \<longrightarrow>
         (\<not> isOr \<longrightarrow> list_all (\<lambda>q. satisfied q v) qs \<longrightarrow> (\<forall>p \<in> set (fst st). holds p u) \<longrightarrow> (\<forall>p \<in> set (fst st'). holds p u)) \<and>
         (isOr \<longrightarrow> list_ex (\<lambda>q. satisfied q v) qs \<longrightarrow> (\<exists>p \<in> set (fst st'). holds p u)))"
proof (induction q literal and isOr literal qs st arbitrary: s n and st' rule: ftsQuery_fts_subs.induct)
  case (1 op ts qs literal)
  define isOr where "isOr = (op = QOr)"
  obtain st st' where a: "op = QAnd \<or> op = QOr" "fts_trigrams isOr literal ts ([], 0) = Some st"
      "fts_subs isOr literal qs st = Some st'" "s = Join (fst st') (if isOr then '' OR '' else '' AND '')"
    using "1.prems" by (auto simp: isOr_def split: if_splits option.splits)
  have r: "\<forall>p \<in> set (fst st). readable p" using fts_trigrams_readable [OF a(2)] by simp
  have ih: "(\<forall>p \<in> set (fst st'). readable p) \<and> set (fst st) \<subseteq> set (fst st') \<and>
      (folded v = folded u \<longrightarrow>
         (\<not> isOr \<longrightarrow> list_all (\<lambda>q. satisfied q v) qs \<longrightarrow> (\<forall>p \<in> set (fst st). holds p u) \<longrightarrow> (\<forall>p \<in> set (fst st'). holds p u)) \<and>
         (isOr \<longrightarrow> list_ex (\<lambda>q. satisfied q v) qs \<longrightarrow> (\<exists>p \<in> set (fst st'). holds p u)))"
    using "1.IH" a r unfolding isOr_def by blast
  show ?case
  proof (cases isOr)
    case True
    have "holds s u" if "satisfied (Query op ts qs) v" "folded v = folded u"
    proof -
      have "list_ex (Contains v) ts \<or> list_ex (\<lambda>q. satisfied q v) qs" using that(1) True by (simp add: isOr_def)
      then have "\<exists>p \<in> set (fst st'). holds p u"
        using fts_trigrams_any [of literal ts "([], 0)" st v u] a(2) True ih that(2) by auto
      then show ?thesis using holds_any ih a(4) True by auto
    qed
    then show ?thesis using readable_any ih a(4) True by auto
  next
    case False
    have "holds s u" if "satisfied (Query op ts qs) v" "folded v = folded u"
    proof -
      have c: "list_all (Contains v) ts" "list_all (\<lambda>q. satisfied q v) qs"
        using that(1) False a(1) by (auto simp: isOr_def)
      have "\<forall>p \<in> set (fst st). holds p u"
        using fts_trigrams_all [of literal ts "([], 0)" st v u] a(2) False c(1) that(2) by simp
      then show ?thesis using holds_all ih a(4) False c(2) that(2) by simp
    qed
    then show ?thesis using readable_any ih a(4) False by auto
  qed
next
  case (3 isOr literal q qs st)
  obtain part n where q: "ftsQuery q literal = (part, n)" by force
  show ?case
  proof (cases "part = []")
    case True
    then have rest: "\<not> isOr" "fts_subs isOr literal qs st = Some st'" using "3.prems"(1) q by (auto split: if_splits)
    show ?thesis using "3.IH"(2) [OF q [symmetric] True rest "3.prems"(2)] rest(1)
      by (metis list.pred_inject(2))
  next
    case False
    let ?st = "add_part (''('' @ part @ '')'') n st"
    have rest: "fts_subs isOr literal qs ?st = Some st'" using "3.prems"(1) q False by simp
    have part: "readable part \<and> (satisfied q v \<longrightarrow> folded v = folded u \<longrightarrow> holds part u)"
      using "3.IH"(1) [OF q False] .
    have r: "\<forall>p \<in> set (fst ?st). readable p" using "3.prems"(2) part readable_paren by (auto simp: add_part_set)
    note ih = "3.IH"(3) [OF q [symmetric] False rest r]
    have keep: "set (fst st) \<subseteq> set (fst st')" and own: "''('' @ part @ '')'' \<in> set (fst st')"
      using ih by (auto simp: add_part_set)
    have "\<forall>p \<in> set (fst st'). holds p u"
      if "folded v = folded u" "\<not> isOr" "list_all (\<lambda>q. satisfied q v) (q # qs)" "\<forall>p \<in> set (fst st). holds p u"
    proof -
      have "\<forall>p \<in> set (fst ?st). holds p u" using that part holds_paren by (simp add: add_part_set)
      with ih that show ?thesis by simp
    qed
    moreover have "\<exists>p \<in> set (fst st'). holds p u"
      if "folded v = folded u" isOr "list_ex (\<lambda>q. satisfied q v) (q # qs)"
    proof (cases "satisfied q v")
      case True
      with that part holds_paren own show ?thesis by blast
    next
      case False
      with ih that show ?thesis by simp
    qed
    ultimately show ?thesis using ih keep by blast
  qed
qed simp

lemma holds_mono: "holds s w \<Longrightarrow> ValidString w \<Longrightarrow> Contains c w \<Longrightarrow> holds s c"
  unfolding holds_def using found_in_mono fold_text_Contains by blast

lemma narrowed_holds:
  assumes "ftsQuery (RegexpQuery (lowerFoldedLiterals e)) literal = (query, n)" "query \<noteq> []"
    "query_sound orbit RegexpQuery" "matches orbit e w" "Contains c w"
  shows "holds (''('' @ query @ '')'') c"
proof -
  obtain w' where "matches orbit (lowerFoldedLiterals e) w'" "folded w' = folded w" using lowered_match assms(4) by blast
  then have "holds query w" using fts_sound(1) [OF assms(1, 2)] assms(3) by (auto simp: query_sound_def)
  then show ?thesis using holds_mono holds_paren matches_valid [OF assms(4)] assms(5) by blast
qed

lemma literal_holds: "covers k q literal \<Longrightarrow> Contains c q \<Longrightarrow> holds (ftsPhrase literal) c"
proof -
  assume "covers k q literal" "Contains c q"
  then have "Contains (folded c) (folded literal)"
    using covers_folded [of k q literal] fold_text_Contains [of q c fold_char] by simp
  then show ?thesis unfolding holds_def by (metis found_in.simps(1) render.simps(1))
qed

lemma narrow_chunk:
  assumes RegexpQuery: "query_sound orbit RegexpQuery"
    and m: "matches orbit e w"
    and lit: "Contains w q" "covers k q (trigramCandidate (requiredLiteral e))"
    and c: "Contains c q" "0 \<le> maxMatchBytes e \<and> maxMatchBytes e \<le> int (ChunkOverlap - UTFMax) \<Longrightarrow> Contains c w"
  shows "holds (regexTrigramQuery RegexpQuery e) c"
proof -
  let ?literal = "trigramCandidate (requiredLiteral e)" and ?l = "maxMatchBytes e"
  obtain query n where q: "ftsQuery (RegexpQuery (lowerFoldedLiterals e)) (asciiLower ?literal) = (query, n)" by force
  let ?narrow = "if 0 \<le> ?l \<and> ?l \<le> int (ChunkOverlap - UTFMax) \<and> query \<noteq> [] \<and> n \<le> maxTrigramPhrases
      then [''('' @ query @ '')''] else []"
  have "regexTrigramQuery RegexpQuery e = Join (?narrow @ (if ?literal \<noteq> [] then [ftsPhrase ?literal] else [])) '' AND ''"
    unfolding regexTrigramQuery_def Let_def q prod.case by (simp only: if_distrib if_True if_False) (auto simp del: Join.simps)
  moreover have "\<forall>p \<in> set (?narrow @ (if ?literal \<noteq> [] then [ftsPhrase ?literal] else [])). holds p c"
    using narrowed_holds [OF q _ RegexpQuery m] literal_holds [OF lit(2) c(1)] c(2)
    by (auto simp del: append.simps split: if_splits)
  ultimately show ?thesis using holds_all by metis
qed

end

subsection \<open>The search keeps every match\<close>

lemma nonempty_part: "ValidString s \<Longrightarrow> s \<noteq> [] \<Longrightarrow> \<exists>w. w \<noteq> [] \<and> length w \<le> 4 \<and> Contains s w"
proof -
  assume s: "ValidString s" "s \<noteq> []"
  obtain ws where ws: "s = concat ws" "list_all single ws" using valid_singles [OF s(1)] by blast
  with s(2) obtain w us where "ws = w # us" by (cases ws) auto
  with ws single_length [of w] show ?thesis by (intro exI [of _ w]) (auto simp: Contains_iff intro: exI [of _ "[]"])
qed

text \<open>C12. Narrowing a regular expression search by the trigram index loses no text that has a match: if a non-empty
  text of valid UTF-8 contains a match of the expression, then one of its chunks is found by the query
  \<open>regexTrigramQuery\<close> builds, whatever the phrases, provided that the literal the query asks for fits
  into the overlap of two chunks as the index sees it, Kelvin signs for k included.\<close>

theorem regexTrigramQuery_sound:
  assumes "trigram_index fold_char"
    and "query_sound orbit RegexpQuery"
    and "ValidString str" "str \<noteq> []" "Contains str w" "matches orbit e w"
    and "fold_width e * length (trigramCandidate (requiredLiteral e)) \<le> ChunkOverlap - UTFMax"
  shows "\<exists>cs. Chunks str = Some cs \<and> list_ex (fts_finds fold_char (regexTrigramQuery RegexpQuery e)) cs"
proof -
  note ti = assms(1)
  let ?covers = "trigram_index.covers fold_char (fold_width e)"
  let ?max = "ChunkOverlap - UTFMax"
  obtain cs where cs: "Chunks str = Some cs"
    "\<And>part. part \<noteq> [] \<Longrightarrow> length part \<le> ?max \<Longrightarrow> Contains str part \<Longrightarrow> \<exists>c \<in> set cs. Contains c part"
    using Chunks_parts [OF assms(3)] by metis
  have part: "\<exists>c \<in> set cs. Contains c p" if "length p \<le> ?max" "Contains str p" for p
  proof (cases "p = []")
    case True
    obtain u where "u \<noteq> []" "length u \<le> 4" "Contains str u" using nonempty_part assms(3, 4) by blast
    with cs(2) [of u] True show ?thesis by (auto simp: ChunkOverlap_def UTFMax_def Contains_iff)
  qed (use cs(2) that in blast)
  obtain p where p: "Contains w p" "?covers p (requiredLiteral e)"
    using trigram_index.required_literal [OF ti assms(6) order_refl] by blast
  then obtain q where q: "Contains w q" "?covers q (trigramCandidate (requiredLiteral e))" "length q \<le> ?max"
    using trigram_index.covers_candidate [OF ti p(2)] Contains_trans assms(7) by (meson order_trans)
  have "\<exists>c \<in> set cs. Contains c q \<and> (0 \<le> maxMatchBytes e \<and> maxMatchBytes e \<le> int ?max \<longrightarrow> Contains c w)"
  proof (cases "0 \<le> maxMatchBytes e \<and> maxMatchBytes e \<le> int ?max")
    case True
    then have "length w \<le> ?max" using matches_bound [OF assms(6)] by linarith
    then show ?thesis using part [of w] assms(5) q(1) Contains_trans by blast
  next
    case False
    then show ?thesis using part [OF q(3)] Contains_trans [OF assms(5) q(1)] by blast
  qed
  then obtain c where "c \<in> set cs" "Contains c q"
      "0 \<le> maxMatchBytes e \<and> maxMatchBytes e \<le> int ?max \<Longrightarrow> Contains c w" by blast
  then have "fts_finds fold_char (regexTrigramQuery RegexpQuery e) c"
    
    by (intro trigram_index.narrow_chunk [OF ti assms(2, 6) q(1, 2)]) blast+
  with cs(1) \<open>c \<in> set cs\<close> show ?thesis by (auto simp: list_ex_iff)
qed

definition acd_or_bcd :: Regexp where
  "acd_or_bcd = OpConcat [OpCharClass [(97, 98)], OpLiteral False [99, 100]]"

definition acd_query :: "Regexp \<Rightarrow> Query" where
  "acd_query r = (if r = acd_or_bcd then Query QOr [''acd'', ''bcd''] [] else Query QAll [] [])"

lemma char_of_cd: "char_of (99 :: nat) = CHR ''c''" "char_of (100 :: nat) = CHR ''d''"
  by code_simp+

lemma acd_or_bcd_matches: "matches orbit acd_or_bcd w \<longleftrightarrow> w = ''acd'' \<or> w = ''bcd''"
proof
  assume "matches orbit acd_or_bcd w"
  then obtain x where x: "w = x @ ''cd''" "single x" "97 \<le> rune_of x" "rune_of x \<le> 98"
    by (auto simp: acd_or_bcd_def list_all2_Cons1 rune_match_def encode_rune_ascii char_of_cd elim!: matches_cases)
  from x(4) have "rune_of x < 0x80" by simp
  from x(2) this obtain c where c: "x = [c]" "rune_of x = byte c" by (rule single_small)
  then have "byte c = (97 :: nat) \<or> byte c = (98 :: nat)" using x(3, 4) by auto
  then have "of_char c = (of_char CHR ''a'' :: nat) \<or> of_char c = (of_char CHR ''b'' :: nat)" by simp
  then have "c = CHR ''a'' \<or> c = CHR ''b''" by (simp only: of_char_eq_iff)
  with x(1) c(1) show "w = ''acd'' \<or> w = ''bcd''" by auto
next
  have l: "matches orbit (OpLiteral False [99, 100]) ''cd''"
    using matches.intros(3) [of orbit False "[99, 100]" "[''c'', ''d'']"]
    by (simp add: rune_match_def encode_rune_ascii single_ascii char_of_cd)
  have "matches orbit (OpCharClass [(97, 98)]) [c]" if "c \<in> {CHR ''a'', CHR ''b''}" for c
    using that single_ascii [of c] by (auto intro!: matches.intros(4) [of _ 97 98])
  with l have "matches orbit acd_or_bcd (concat [[c], ''cd''])" if "c \<in> {CHR ''a'', CHR ''b''}" for c
    unfolding acd_or_bcd_def using that by (intro matches.intros) simp
  moreover assume "w = ''acd'' \<or> w = ''bcd''"
  ultimately show "matches orbit acd_or_bcd w" by fastforce
qed

lemma acd_query_sound: "query_sound orbit acd_query"
  using acd_or_bcd_matches by (auto simp: query_sound_def acd_query_def Contains_def Index_Cons)

theorem regexTrigramQuery_sound_witness:
  "\<exists>cs. Chunks ''find acd here'' = Some cs \<and> list_ex (fts_finds fold_rune (regexTrigramQuery acd_query acd_or_bcd)) cs"
proof (rule regexTrigramQuery_sound [OF ascii_index.trigram_index_axioms acd_query_sound])
  show "ValidString ''find acd here''" by (rule ascii_ValidString) simp
  show "Contains ''find acd here'' ''acd''" by (simp add: Contains_def Index_Cons)
  show "matches (\<lambda>_ _. False) acd_or_bcd ''acd''" by (simp add: acd_or_bcd_matches)
  have "requiredLiteral acd_or_bcd = ''cd''"
    by (simp add: acd_or_bcd_def rune_text_def encode_rune_ascii char_of_cd RuneCount_def Let_def runes_ascii)
  moreover have "RuneCount ''cd'' < 3" by (simp add: RuneCount_def runes_ascii)
  ultimately show "fold_width acd_or_bcd * length (trigramCandidate (requiredLiteral acd_or_bcd)) \<le> ChunkOverlap - UTFMax"
    by (simp add: trigramCandidate_def)
qed simp

end
