(* ===== verification/StoreProperties.thy ===== *)
theory StoreProperties
  imports StoreDemo StoreTables SearchIndex
begin

text \<open>
  What the store promises, for every state that a sequence of imports, deletions, renames, collections and
  normalizations leads to.
\<close>

lemma note_reachable: "reachable note_store"
proof -
  obtain s r ps where "Import (\<lambda>_. []) note_run note_manifest note_files empty_store = (s, r, ps)" by (metis prod.collapse)
  then have "store_step empty_store s" by (rule step_import)
  then show ?thesis
    using \<open>Import _ _ _ _ _ = _\<close> reachable_step [OF reachable_empty] by (simp add: note_store_def)
qed

lemma note_contents:
  "events note_store = [\<lparr>ev_ID = 1, ev_Trace = 1, ev_Key = ''k'', ev_SortTime = canonicalTime [], ev_SortKey = ''k'', ev_Preferred = Some 1\<rparr>]"
  "observation_revisions note_store = [\<lparr>or_Observation = 1, or_Revision = 1, or_Text = note_text\<rparr>]"
  "chunks note_store = [\<lparr>c_ID = 1, c_Observation = 1, c_Revision = 1, c_Event = 1, c_Content = note_text\<rparr>]"
  "revision_objects note_store = [\<lparr>ro_Revision = 1, ro_Path = ''a'', ro_Digest = note_digest\<rparr>]"
  "source_objects note_store = [\<lparr>so_Digest = note_digest, so_Size = 2, so_Path = object_path note_digest\<rparr>]"
  "objects_dir note_store = [(object_path note_digest, ''{}'')]"
  "traces note_store = traces (note_rows empty_store)" "revisions note_store = revisions (note_rows empty_store)"
  "map t_ID (traces note_store) = [1]" "map (\<lambda>r. (v_ID r, v_Trace r)) (revisions note_store) = [(1, 1)]"
  "map (\<lambda>q. (ob_ID q, ob_Event q)) (observations note_store) = [(1, 1)]" "map (\<lambda>n. (nr_ID n, nr_Revision n)) (runs note_store) = [(1, 1)]"
proof -
  obtain ms ims sums where s: "note_store = (recordRun 1 1 ''normalized'' [] [] (note_attached (note_rows (empty_store\<lparr>objects_dir := [(object_path note_digest, ''{}'')]\<rparr>))))
     \<lparr>machines := ms, imports_table := ims, summaries := sums, importSeq := 1\<rparr>" using note_store_eq by blast
  show "events note_store = [\<lparr>ev_ID = 1, ev_Trace = 1, ev_Key = ''k'', ev_SortTime = canonicalTime [], ev_SortKey = ''k'', ev_Preferred = Some 1\<rparr>]"
    "observation_revisions note_store = [\<lparr>or_Observation = 1, or_Revision = 1, or_Text = note_text\<rparr>]"
    "chunks note_store = [\<lparr>c_ID = 1, c_Observation = 1, c_Revision = 1, c_Event = 1, c_Content = note_text\<rparr>]"
    "revision_objects note_store = [\<lparr>ro_Revision = 1, ro_Path = ''a'', ro_Digest = note_digest\<rparr>]"
    "source_objects note_store = [\<lparr>so_Digest = note_digest, so_Size = 2, so_Path = object_path note_digest\<rparr>]"
    "objects_dir note_store = [(object_path note_digest, ''{}'')]"
    "traces note_store = traces (note_rows empty_store)" "revisions note_store = revisions (note_rows empty_store)"
    "map t_ID (traces note_store) = [1]" "map (\<lambda>r. (v_ID r, v_Trace r)) (revisions note_store) = [(1, 1)]"
    "map (\<lambda>q. (ob_ID q, ob_Event q)) (observations note_store) = [(1, 1)]" "map (\<lambda>n. (nr_ID n, nr_Revision n)) (runs note_store) = [(1, 1)]"
    by (simp_all add: s recordRun_def note_attached_def note_rows_def empty_store_def next_rowid_def)
qed

subsection \<open>Keys and foreign keys\<close>

text \<open>C13. The keys of the tables are unique and every foreign key leads to a row, in every state the operations of the
  store reach.  The ids and natural keys of machines, imports, summaries, repositories and their paths, traces, revisions,
  source objects, the files, machines and runs of a revision, events, aliases, observations, links, source references and chunks are
  distinct; every reference between these tables is to a row that is there, and every file a row names is in the directory; an
  event and the revision its observation is linked to belong to the same trace, and every observation is linked to a revision.
  The candidate of a step of \<open>Renormalize\<close> must name a revision of the trace it names: the code reads a batch of candidates
  without the lock and does not check them again, and row ids are given again after a deletion, so that a candidate can by then
  name a revision of one trace and the id of another, which breaks the last but one of these claims.\<close>

theorem store_consistent:
  assumes "reachable s"
  shows "keys_ok s \<and> links_ok s \<and> tables_ok s \<and> objects_ok s \<and> summaries_ok s"
  using chain.always [OF assms] tables.always [OF assms] objects.always [OF assms] summaries_kept.always [OF assms]
  by (simp add: chain_but_def rows_ok_def)

theorem store_consistent_witness: "keys_ok note_store \<and> links_ok note_store \<and> tables_ok note_store \<and> objects_ok note_store \<and> summaries_ok note_store"
  by (rule store_consistent [OF note_reachable])

subsection \<open>The preferred observation\<close>

text \<open>C14. Every event shows the observation a reader should see: its preferred observation is one of those a revision
  links to it, and no other one comes from a newer revision, or from one as new with a later time, or with the same time
  with more archived attachments, or with as many of these a greater digest.  This is the order of the statement in
  \<open>store.go\<close>; \<open>docs/design.md\<close> leaves the attachments out.  As above, a candidate of \<open>Renormalize\<close> must name a revision of its trace:
  with a stale one the code replaces the links of another trace's revision and updates the preferred observations of the
  wrong trace.\<close>

theorem preferred_is_newest:
  assumes "reachable s" "e \<in> set (events s)"
  shows "\<exists>q r. (q, r) \<in> set (preferred_rows s (ev_ID e)) \<and> ev_Preferred e = Some (ob_ID q) \<and>
    list_all (\<lambda>(q', r'). (v_NativeUpdatedAt r', ob_Time q', archived_count (ob_JSON q'), ob_Digest q')
      \<le> (v_NativeUpdatedAt r, ob_Time q, archived_count (ob_JSON q), ob_Digest q)) (preferred_rows s (ev_ID e))"
proof -
  let ?key = "\<lambda>(q, r). (v_NativeUpdatedAt r, ob_Time q, archived_count (ob_JSON q), ob_Digest q)"
  have "preferred_but {} s" using chain.always [OF assms(1)] by (simp add: chain_but_def)
  then have p: "ev_Preferred e = preferred_observation s (ev_ID e)" "preferred_observation s (ev_ID e) \<noteq> None"
    using assms(2) by (auto simp: preferred_but_def)
  then obtain q r where b: "best ?key (preferred_rows s (ev_ID e)) = Some (q, r)" "ev_Preferred e = Some (ob_ID q)"
    by (auto simp: preferred_observation_def)
  from best_Some [OF b(1)] show ?thesis
    using b(2) by (intro exI [of _ q] exI [of _ r]) (auto simp: list_all_iff)
qed

theorem preferred_is_newest_witness:
  "\<exists>e. events note_store = [e] \<and> (\<exists>q r. (q, r) \<in> set (preferred_rows note_store (ev_ID e)) \<and> ev_Preferred e = Some (ob_ID q) \<and>
    list_all (\<lambda>(q', r'). (v_NativeUpdatedAt r', ob_Time q', archived_count (ob_JSON q'), ob_Digest q')
      \<le> (v_NativeUpdatedAt r, ob_Time q, archived_count (ob_JSON q), ob_Digest q)) (preferred_rows note_store (ev_ID e)))"
  using preferred_is_newest [OF note_reachable] by (simp add: note_contents)

subsection \<open>The index of chunks\<close>

text \<open>C15. The index is never behind: whatever was imported, renamed, deleted or normalized again, the chunks of an
  observation in a revision are exactly the cut of its search text, in order.\<close>

theorem chunks_are_current:
  assumes "reachable s" "x \<in> set (observation_revisions s)"
  shows "Chunks (or_Text x) =
    Some (map c_Content (filter (\<lambda>c. c_Observation c = or_Observation x \<and> c_Revision c = or_Revision x) (chunks s)))"
  using chain.always [OF assms(1)] assms(2) by (simp add: chain_but_def index_ok_def contents_def)

theorem chunks_are_current_witness: "Chunks note_text = Some [note_text]"
  using chunks_are_current [OF note_reachable] by (simp add: note_contents)

subsection \<open>Source objects\<close>

text \<open>C16. Collecting garbage keeps exactly the source files some revision uses: the batches of rows and the sweep of the
  directory together leave the files and rows of these objects as they are and nothing else.\<close>

theorem gc_keeps_used:
  assumes "reachable s"
  shows "gc s = s\<lparr>objects_dir := filter (\<lambda>(p, _). p \<in> object_path ` ro_Digest ` set (revision_objects s)) (objects_dir s),
     source_objects := filter (\<lambda>q. so_Digest q \<in> ro_Digest ` set (revision_objects s)) (source_objects s)\<rparr>"
  using gc_spec [OF objects.always [OF assms]] by (simp add: used_def)

theorem gc_keeps_used_witness: "gc note_store = note_store"
  using gc_keeps_used [OF note_reachable] by (simp add: note_contents)

lemma revision_file:
  assumes ok: "objects_ok s" and p: "(name, path) \<in> set (revisionFiles s j)"
  obtains content q where "map_of (objects_dir s) path = Some content" "q \<in> set (revision_objects s)" "ro_Revision q = j"
    "ro_Path q = name" "ro_Digest q = sha256_hex content"
proof -
  obtain q r where h: "q \<in> set (revision_objects s)" "ro_Revision q = j" "r \<in> set (source_objects s)" "so_Digest r = ro_Digest q"
    "name = ro_Path q" "path = so_Path r" using p by (auto simp: revisionFiles_def)
  have "object_there (objects_dir s) r" using ok h(3) by (simp add: objects_ok_def list_all_iff)
  with h that show thesis by (auto simp: object_there_def)
qed

lemma stat_files_present: "list_all (\<lambda>(name, path). map_of dir path \<noteq> None) paths \<Longrightarrow> \<exists>fs. stat_files dir paths = Inr fs"
  by (induction dir paths rule: stat_files.induct) auto

text \<open>C17. What a revision was collected from can always be read back: every file of every revision opens, with the bytes
  whose digest was recorded, so normalizing a revision again never fails because a file is gone or changed.\<close>

theorem revision_files_intact:
  assumes "reachable s" "q \<in> set (revision_objects s)" "ValidPath (ro_Path q)"
  shows "\<exists>content q'. objectFS (objects_dir s) (revisionFiles s (ro_Revision q)) (ro_Path q) = Some content \<and>
      q' \<in> set (revision_objects s) \<and> (ro_Revision q', ro_Path q', ro_Digest q') = (ro_Revision q, ro_Path q, sha256_hex content) \<and>
      (\<exists>fs. stat_files (objects_dir s) (revisionFiles s (ro_Revision q)) = Inr fs)"
proof -
  note ok = objects.always [OF assms(1)]
  let ?files = "revisionFiles s (ro_Revision q)"
  have "ro_Digest q \<in> so_Digest ` set (source_objects s)" using ok assms(2) by (auto simp: objects_ok_def)
  then obtain r where "r \<in> set (source_objects s)" "so_Digest r = ro_Digest q" by auto
  then have "(ro_Path q, so_Path r) \<in> set ?files" using assms(2) by (force simp: revisionFiles_def)
  then obtain path where path: "map_of ?files (ro_Path q) = Some path" by (metis not_Some_eq map_of_eq_None_iff fst_conv image_eqI)
  from revision_file [OF ok map_of_SomeD [OF path]] obtain content q' where
    "map_of (objects_dir s) path = Some content" "q' \<in> set (revision_objects s)" "ro_Revision q' = ro_Revision q"
    "ro_Path q' = ro_Path q" "ro_Digest q' = sha256_hex content" by blast
  moreover have "\<exists>fs. stat_files (objects_dir s) ?files = Inr fs"
    by (rule stat_files_present) (auto simp: list_all_iff elim!: revision_file [OF ok])
  ultimately show ?thesis using path assms(3) by (auto simp: objectFS_def)
qed

theorem revision_files_intact_witness:
  "objectFS (objects_dir note_store) (revisionFiles note_store 1) ''a'' = Some ''{}''"
proof -
  have "ValidPath ''a''" by (auto simp: ValidPath_def ContainsAny_def intro!: ascii_ValidString)
  with revision_files_intact [OF note_reachable, of "\<lparr>ro_Revision = 1, ro_Path = ''a'', ro_Digest = note_digest\<rparr>"]
  show ?thesis by (auto simp: note_contents revisionFiles_def objectFS_def)
qed

subsection \<open>Deleting a trace\<close>

text \<open>The links that go are those of the deleted revisions.\<close>

lemma delete_traces_links:
  assumes ok: "chain_ok s"
  shows "trimmed (\<lambda>k. snd k \<notin> gone_revisions P s) s (delete_traces P s)"
proof (rule trimmed_cong [OF delete_traces_rows(1) [OF ok, of P] hung_ok [OF ok]])
  fix k assume k: "k \<in> set (link_keys s)"
  then obtain x where x: "x \<in> set (observation_revisions s)" "k = (or_Observation x, or_Revision x)" by (auto simp: link_keys_def)
  have wf: "keys_ok s" "links_ok s" using ok by (auto simp: chain_but_def)
  have "(ob_ID (linked s x), or_Revision x) \<in> set (link_keys s)" using k x(2) linked_row(3) [OF wf x(1)] by simp
  from gone_linked [OF ok this linked_row(2) [OF wf x(1)], of P]
  show "(snd k \<notin> gone_revisions P s \<and> fst k \<notin> ob_ID ` gone_observations P s) = (snd k \<notin> gone_revisions P s)"
    using linked_row(3) [OF wf x(1)] x(2) by auto
qed

text \<open>C18. Deleting a trace deletes all of it and nothing else.  With \<open>R\<close> the ids of its revisions and \<open>E\<close> those of its events, the
  store after it is the one before, without the trace's row and aliases, the revisions, their machines, files and runs, the
  events and their observations, and the links, source references and chunks of these revisions; of the source objects and the files on
  disk exactly those stay that some other revision uses.  Every other table and counter is as it was.  A trace that is not there
  is an error and changes nothing.\<close>

theorem DeleteTrace_exact:
  assumes "reachable s" "R = v_ID ` {r \<in> set (revisions s). v_Trace r = i}" "E = ev_ID ` {e \<in> set (events s). ev_Trace e = i}"
    "U = ro_Digest ` {q \<in> set (revision_objects s). ro_Revision q \<notin> R}"
  shows "DeleteTrace i s =
    (if i \<in> t_ID ` set (traces s)
     then Inr (s\<lparr>traces := filter (\<lambda>t. t_ID t \<noteq> i) (traces s), aliases := filter (\<lambda>a. al_Trace a \<noteq> i) (aliases s),
       revisions := filter (\<lambda>r. v_Trace r \<noteq> i) (revisions s), revision_machines := filter (\<lambda>q. fst q \<notin> R) (revision_machines s),
       revision_objects := filter (\<lambda>q. ro_Revision q \<notin> R) (revision_objects s), runs := filter (\<lambda>n. nr_Revision n \<notin> R) (runs s),
       events := filter (\<lambda>e. ev_Trace e \<noteq> i) (events s), observations := filter (\<lambda>q. ob_Event q \<notin> E) (observations s),
       observation_revisions := filter (\<lambda>x. or_Revision x \<notin> R) (observation_revisions s),
       observation_sources := filter (\<lambda>u. os_Revision u \<notin> R) (observation_sources s),
       chunks := filter (\<lambda>c. c_Revision c \<notin> R) (chunks s),
       source_objects := filter (\<lambda>q. so_Digest q \<in> U) (source_objects s),
       objects_dir := filter (\<lambda>(path, _). path \<in> object_path ` U) (objects_dir s)\<rparr>)
     else Inl no_rows)"
proof (cases "i \<in> t_ID ` set (traces s)")
  case True
  have ok: "chain_ok s" using chain.always [OF assms(1)] .
  define P where "P = (\<lambda>t :: TraceRow. t_ID t = i)"
  define s1 where "s1 = delete_traces P s"
  have d: "DeleteTrace i s = Inr (gc s1)" using True by (auto simp: DeleteTrace_def s1_def P_def list_ex_iff)
  have ok1: "objects_ok s1" unfolding s1_def by (rule objects_ok_same [OF objects.always [OF assms(1)] delete_objects(5)])
  have T: "gone_traces P s = {i}" using True by (auto simp: gone_traces_def P_def)
  have R: "gone_revisions P s = R" by (simp add: gone_revisions_def T assms(2))
  have G: "q \<in> gone_observations P s \<longleftrightarrow> ob_Event q \<in> E" if "q \<in> set (observations s)" for q
    using that by (auto simp: gone_observations_def T assms(3))
  note rows = delete_traces_rows [OF ok, of P, folded s1_def, unfolded T R]
  obtain e q a b c where other: "s1 = s\<lparr>traces := delete_where P (traces s), aliases := filter (\<lambda>a. al_Trace a \<noteq> i) (aliases s),
      revisions := filter (\<lambda>r. v_Trace r \<noteq> i) (revisions s), revision_machines := filter (\<lambda>q. fst q \<notin> R) (revision_machines s),
      revision_objects := filter (\<lambda>q. ro_Revision q \<notin> R) (revision_objects s), runs := filter (\<lambda>q. nr_Revision q \<notin> R) (runs s),
      events := e, observations := q, observation_revisions := a, observation_sources := b, chunks := c\<rparr>"
    using delete_traces_shape [of P s] unfolding T R s1_def by auto
  have links: "trimmed (\<lambda>k. snd k \<notin> R) s s1" using delete_traces_links [OF ok, of P] by (simp add: R s1_def)
  have obs: "observations s1 = filter (\<lambda>q. ob_Event q \<notin> E) (observations s)" unfolding rows(2) by (rule filter_cong) (auto simp: G)
  have used: "used s1 d \<longleftrightarrow> d \<in> U" for d by (auto simp: used_def other assms(4))
  then have "ro_Digest ` set (revision_objects s1) = U" by (auto simp: used_def)
  then have g: "gc s1 = s1\<lparr>objects_dir := filter (\<lambda>(path, _). path \<in> object_path ` U) (objects_dir s1),
      source_objects := filter (\<lambda>q. so_Digest q \<in> U) (source_objects s1)\<rparr>" using gc_spec [OF ok1] used by simp
  have s1: "s1 = s\<lparr>traces := filter (\<lambda>t. t_ID t \<noteq> i) (traces s), aliases := filter (\<lambda>a. al_Trace a \<noteq> i) (aliases s),
       revisions := filter (\<lambda>r. v_Trace r \<noteq> i) (revisions s), revision_machines := filter (\<lambda>q. fst q \<notin> R) (revision_machines s),
       revision_objects := filter (\<lambda>q. ro_Revision q \<notin> R) (revision_objects s), runs := filter (\<lambda>n. nr_Revision n \<notin> R) (runs s),
       events := filter (\<lambda>e. ev_Trace e \<noteq> i) (events s), observations := filter (\<lambda>q. ob_Event q \<notin> E) (observations s),
       observation_revisions := filter (\<lambda>x. or_Revision x \<notin> R) (observation_revisions s),
       observation_sources := filter (\<lambda>u. os_Revision u \<notin> R) (observation_sources s),
       chunks := filter (\<lambda>c. c_Revision c \<notin> R) (chunks s)\<rparr>"
    using links rows(3-5) obs by (simp add: other trimmed_def P_def)
  show ?thesis unfolding if_P [OF True] d g by (simp add: s1)
qed (auto simp: DeleteTrace_def list_ex_iff)

text \<open>The only trace of a store goes with its file.\<close>

theorem DeleteTrace_exact_witness:
  "\<exists>s'. DeleteTrace 1 note_store = Inr s' \<and> traces s' = [] \<and> revisions s' = [] \<and> events s' = [] \<and> observations s' = [] \<and>
     chunks s' = [] \<and> runs s' = [] \<and> source_objects s' = [] \<and> objects_dir s' = []"
proof -
  have one: "\<exists>a. xs = [a] \<and> f a = k" if "map f xs = [k]" for xs :: "'x list" and f :: "'x \<Rightarrow> 'y" and k
    using that by auto
  obtain t where t: "traces note_store = [t]" "t_ID t = 1" using one [OF note_contents(9)] by blast
  obtain r where r: "revisions note_store = [r]" "v_ID r = 1" "v_Trace r = 1" using one [OF note_contents(10)] by blast
  obtain q where q: "observations note_store = [q]" "ob_Event q = 1" using one [OF note_contents(11)] by blast
  obtain n where n: "runs note_store = [n]" "nr_Revision n = 1" using one [OF note_contents(12)] by blast
  obtain e where e: "events note_store = [e]" "ev_ID e = 1" "ev_Trace e = 1"
    using one [of "\<lambda>e. (ev_ID e, ev_Trace e)" "events note_store" "(1, 1)"] unfolding note_contents(1) by simp
  note rows = t r q n e
  have rev: "v_ID ` {r \<in> set (revisions note_store). v_Trace r = 1} = {1}" by (auto simp: rows)
  have ev: "ev_ID ` {e \<in> set (events note_store). ev_Trace e = 1} = {1}" by (auto simp: rows)
  have us: "ro_Digest ` {q \<in> set (revision_objects note_store). ro_Revision q \<notin> {1}} = {}" by (simp add: note_contents(4))
  have tr: "1 \<in> t_ID ` set (traces note_store)" by (simp add: rows)
  note d = DeleteTrace_exact [OF note_reachable rev [symmetric] ev [symmetric] us [symmetric], unfolded if_P [OF tr]]
  show ?thesis by (intro exI conjI, rule d) (simp_all add: rows note_contents(2-6))
qed

subsection \<open>Imports\<close>

text \<open>C19. An import always ends with a report, under an id no import had before.\<close>

theorem Import_reports:
  assumes "reachable s"
  shows "\<exists>s' r ps. Import clock run manifest sources s = (s', Inr r, ps) \<and> ir_ID r = importSeq s + 1 \<and>
    ir_ID r \<notin> fst ` set (summaries s)"
proof -
  have ok: "log_ok s" using log.always [OF assms] .
  then have "importSeq s + 1 \<notin> fst ` set (summaries s)" by (auto simp: log_ok_def list_all_iff)
  with Import_finishes [OF ok, of clock run manifest sources] show ?thesis by auto
qed

theorem Import_reports_witness:
  "\<exists>s' r ps. Import (\<lambda>_. []) note_run note_manifest note_files empty_store = (s', Inr r, ps) \<and> ir_ID r = 1"
  using Import_reports [OF reachable_empty, of "\<lambda>_. []" note_run note_manifest note_files] by (auto simp: empty_store_def)

definition status_count :: "string \<Rightarrow> ImportReport \<Rightarrow> int" where
  "status_count status r = int (length (filter (\<lambda>out. o_Status out = status) (ir_Traces r)))"

definition counted :: "ImportReport \<Rightarrow> bool" where
  "counted r \<longleftrightarrow> ir_Imported r = status_count ''imported'' r \<and> ir_Updated r = status_count ''updated'' r \<and>
     ir_Unchanged r = status_count ''unchanged'' r \<and> ir_Partial r = status_count ''partially_parsed'' r \<and>
     ir_Unsupported r = status_count ''unsupported'' r \<and>
     ir_Imported r + ir_Updated r + ir_Unchanged r + ir_Partial r + ir_Unsupported r + ir_Failed r = int (length (ir_Traces r))"

lemma counted_step: "counted r \<Longrightarrow> counted (countOutcome (o_Status out) (r\<lparr>ir_Traces := ir_Traces r @ [out]\<rparr>))"
  by (simp add: counted_def countOutcome_def status_count_def)

abbreviation outcome_key :: "TraceOutcome \<Rightarrow> string \<times> string \<times> string" where
  "outcome_key out \<equiv> (o_Harness out, o_NativeTraceID out, o_RevisionDigest out)"

abbreviation descriptor_key :: "Descriptor \<Rightarrow> string \<times> string \<times> string" where
  "descriptor_key d \<equiv> (d_Harness d, d_NativeTraceID d, d_RevisionDigest d)"

lemma outcome_keeps [simp]:
  "o_Harness (failed m out) = o_Harness out" "o_NativeTraceID (failed m out) = o_NativeTraceID out" "o_RevisionDigest (failed m out) = o_RevisionDigest out"
  "o_Harness (warn ws out) = o_Harness out" "o_NativeTraceID (warn ws out) = o_NativeTraceID out" "o_RevisionDigest (warn ws out) = o_RevisionDigest out"
  "o_Harness (note_error e out) = o_Harness out" "o_NativeTraceID (note_error e out) = o_NativeTraceID out" "o_RevisionDigest (note_error e out) = o_RevisionDigest out"
  by (simp_all add: failed_def warn_def note_error_def split: option.split)

lemma retry_revision_key: "outcome_key (snd (retry_revision now run d source i j out s)) = outcome_key out"
  by (auto simp: retry_revision_def Let_def split: prod.split sum.split)

lemma importTrace_key: "outcome_key (snd (importTrace now run manifest d sources s)) = descriptor_key d"
proof -
  have start: "outcome_key (start_outcome d) = descriptor_key d" by (simp add: start_outcome_def)
  have known: "outcome_key (snd (known_revision now run manifest d source j i status out s)) = outcome_key out" for source j i status out s
    using retry_revision_key by (auto simp: known_revision_def Let_def split: prod.split sum.split)
  have new: "outcome_key (snd (new_revision now run manifest d source stored out s)) = outcome_key out" for source stored out s
    by (auto simp: new_revision_def split: prod.split sum.split)
  show ?thesis
    using start known new by (simp add: importTrace_def Let_def split: prod.split sum.split option.split)
qed

lemma import_traces_outcomes:
  assumes "counted (fst (snd st))"
  shows "counted (fst (snd (import_traces clock run manifest sources i ds st))) \<and>
    map outcome_key (ir_Traces (fst (snd (import_traces clock run manifest sources i ds st)))) =
      map outcome_key (ir_Traces (fst (snd st))) @ map descriptor_key ds \<and>
    map p_Completed (snd (snd (import_traces clock run manifest sources i ds st))) =
      map p_Completed (snd (snd st)) @ map int [i + 1..<i + 1 + length ds]"
  using assms
proof (induction clock run manifest sources i ds st rule: import_traces.induct)
  case (2 clock run manifest sources i d ds s report progress)
  obtain s' out where t: "importTrace (clock (i + 1)) run manifest d sources s = (s', out)" by force
  let ?report = "countOutcome (o_Status out) (report\<lparr>ir_Traces := ir_Traces report @ [out]\<rparr>)"
  have out: "outcome_key out = descriptor_key d" using importTrace_key [of "clock (i + 1)" run manifest d sources s] t by simp
  have traces: "ir_Traces ?report = ir_Traces report @ [out]" by (simp add: countOutcome_def)
  have "counted ?report" using counted_step 2(2) by simp
  let ?progress = "progress @ [normalizing (i + 1) (length (mf_Traces manifest)) (Some out)]"
  have eq: "import_traces clock run manifest sources i (d # ds) (s, report, progress) =
      import_traces clock run manifest sources (i + 1) ds (s', ?report, ?progress)" using t by simp
  have upt: "[i + 1..<i + 1 + length (d # ds)] = (i + 1) # [i + 1 + 1..<i + 1 + 1 + length ds]"
    by (simp add: upt_conv_Cons del: upt_Suc)
  have "map p_Completed ?progress = map p_Completed progress @ [int (i + 1)]" by (simp add: normalizing_def)
  with 2(1) [OF t [symmetric]] \<open>counted ?report\<close> show ?case
    unfolding eq upt using out traces by (simp del: upt_Suc)
qed simp

lemma Import_outcomes:
  assumes "Import clock run manifest sources s = (s', Inr r, ps)"
  shows "map outcome_key (ir_Traces r) = map descriptor_key (mf_Traces manifest) \<and> counted r \<and>
    map p_Completed ps = map int [0..<length (mf_Traces manifest) + 1] @ [int (length (mf_Traces manifest))]"
proof -
  let ?n = "length (mf_Traces manifest)"
  define b where "b = beginImport (zero_Report\<lparr>ir_CreatedAt := clock 0, ir_Machine := mf_SourceMachine manifest\<rparr>) s"
  obtain s1 r1 where b: "b = (s1, r1)" by force
  have r1: "counted r1" "ir_Traces r1 = []"
    using b by (auto simp: b_def beginImport_def Let_def zero_Report_def counted_def status_count_def)
  obtain s2 r2 p where t: "import_traces clock run manifest sources 0 (mf_Traces manifest) (s1, r1, [normalizing 0 ?n None]) = (s2, r2, p)"
    by (metis prod.collapse)
  have r: "r = r2\<lparr>ir_Complete := True\<rparr>" "\<exists>q. ps = p @ [q] \<and> p_Completed q = int ?n"
    using assms by (auto simp: Import_def Let_def b_def [symmetric] b t split: sum.splits)
  have "counted r2 \<and> map outcome_key (ir_Traces r2) = map descriptor_key (mf_Traces manifest) \<and> map p_Completed p = 0 # map int [1..<1 + ?n]"
    using import_traces_outcomes [of "(s1, r1, [normalizing 0 ?n None])" clock run manifest sources 0 "mf_Traces manifest"] r1 t
    by (simp add: normalizing_def)
  then show ?thesis using r by (auto simp: counted_def status_count_def upt_conv_Cons simp del: upt_Suc)
qed

text \<open>C20. The report accounts for every trace of the manifest: one outcome for each, in the order of the manifest and under
  its identity, the counters are the numbers of outcomes of each status, and the progress the client saw counts up by one.\<close>

theorem Import_report_counts:
  assumes "Import clock run manifest sources s = (s', Inr r, ps)"
  shows "map outcome_key (ir_Traces r) = map descriptor_key (mf_Traces manifest) \<and> counted r \<and>
    map p_Completed ps = map int [0..<length (mf_Traces manifest) + 1] @ [int (length (mf_Traces manifest))]"
  by (rule Import_outcomes [OF assms])

theorem Import_report_counts_witness:
  "\<exists>s' r ps. Import (\<lambda>_. []) note_run note_manifest note_files empty_store = (s', Inr r, ps) \<and>
    map outcome_key (ir_Traces r) = [(''pi'', ''n'', ''r'')] \<and> counted r \<and> map p_Completed ps = [0, 1, 1]"
proof -
  have "log_ok empty_store" by (simp add: log_ok_def empty_store_def)
  from Import_finishes [OF this] obtain s' r ps where
    i: "Import (\<lambda>_. []) note_run note_manifest note_files empty_store = (s', Inr r, ps)" by metis
  from Import_report_counts [OF i] i show ?thesis by (simp add: note_manifest_parts note_descriptor)
qed

end
