(* ===== verification/StoreAgain.thy ===== *)
theory StoreAgain
  imports StoreProperties
begin

text \<open>
  Importing the same revision a second time: nothing is written and the normalizer is not asked again.
\<close>

subsection \<open>Frames\<close>

lemma insertEvents_frame:
  assumes f: "\<And>s a. f (s\<lparr>events := a\<rparr>) = f s" "\<And>s a. f (s\<lparr>eventSeq := a\<rparr>) = f s" "\<And>s a. f (s\<lparr>observations := a\<rparr>) = f s"
      "\<And>s a. f (s\<lparr>observation_revisions := a\<rparr>) = f s" "\<And>s a. f (s\<lparr>observation_sources := a\<rparr>) = f s"
      "\<And>s a. f (s\<lparr>chunks := a\<rparr>) = f s"
    and run: "insertEvents i j labels es s = Inr (s', w)"
  shows "f s' = f s"
proof -
  have attach: "f (in_Store st') = f (in_Store st)" if "attach_observation k j n w e st = Inr st'" for k n w e st st'
    using that by (auto simp: attach_observation_def Let_def bind_result_Inr_iff link_revision_def set_preferred_def f split: if_splits)
  have event: "f (in_Store st') = f (in_Store st)" if "insert_event i j labels e st = Inr st'" for e st st'
  proof -
    from that obtain k n digest encoded bare w st0 where a: "attach_observation k j n w e st0 = Inr st'"
      "in_Store st0 = ensure_observation n digest encoded bare (ensure_event i e (in_Store st))"
      by (fastforce simp: insert_event_def Let_def bind_result_Inr_iff split: if_splits)
    then show ?thesis using attach [OF a(1)] by (simp add: ensure_observation_def ensure_event_def f)
  qed
  have "insert_each i j labels es st = Inr st' \<Longrightarrow> f (in_Store st') = f (in_Store st)" for st st'
    using event by (induction i j labels es st rule: insert_each.induct) (fastforce simp: bind_result_Inr_iff)+
  with run show ?thesis by (fastforce simp: insertEvents_def bind_result_Inr_iff)
qed

lemma writeObject_again:
  assumes "writeObject content path expected n dir = Inr (dir1, b)" "extends_dir dir1 dir'"
  shows "writeObject content path expected n dir' = Inr (dir', b)"
proof -
  let ?p = "object_path (TrimPrefix expected ''sha256:'')"
  obtain old where "map_of dir1 ?p = Some old" "int (length old) = n"
    using assms(1) by (auto simp: writeObject_def Let_def map_add_def split: if_splits option.splits)
  moreover from this have "map_of dir' ?p = Some old" using assms(2) by (simp add: extends_dir_def)
  ultimately show ?thesis using assms(1) by (auto simp: writeObject_def Let_def split: if_splits option.splits)
qed

lemma storeObjects_extends: "storeObjects source fs dir = (dir', r) \<Longrightarrow> extends_dir dir dir'"
proof (induction source fs dir arbitrary: dir' r rule: storeObjects.induct)
  case (2 source f fs dir)
  have put: "extends_dir dir dir1" if "writeObject c p e n dir = Inr (dir1, b)" for c p e n dir1 b
    using that by (auto simp: writeObject_def Let_def extends_dir_def split: if_splits option.splits)
  show ?case
  proof (cases "source (f_Path f)")
    case (Some content)
    show ?thesis
    proof (cases "writeObject content (f_Path f) (f_SHA256 f) (f_Size f) dir")
      case (Inr p)
      obtain dir1 b where p: "p = (dir1, b)" by force
      obtain dir2 r2 where s: "storeObjects source fs dir1 = (dir2, r2)" by force
      have "extends_dir dir1 dir2" using 2(1) [OF Some Inr p [symmetric] s] .
      then have "extends_dir dir dir2" using put [OF Inr [unfolded p]] extends_dir_trans by blast
      then show ?thesis using 2(2) Some Inr p s by simp
    qed (use 2(2) Some in \<open>auto simp: extends_dir_def\<close>)
  qed (use 2(2) in \<open>auto simp: extends_dir_def\<close>)
qed (simp add: extends_dir_def)

lemma storeObjects_again:
  "storeObjects source fs dir = (dir', Inr bs) \<Longrightarrow> extends_dir dir' dir'' \<Longrightarrow> storeObjects source fs dir'' = (dir'', Inr bs)"
proof (induction source fs dir arbitrary: bs rule: storeObjects.induct)
  case (2 source f fs dir)
  then obtain content p where c: "source (f_Path f) = Some content" "writeObject content (f_Path f) (f_SHA256 f) (f_Size f) dir = Inr p"
    by (auto split: option.splits sum.splits)
  obtain dir1 b where p: "p = (dir1, b)" by force
  obtain r2 where s: "storeObjects source fs dir1 = (dir', r2)" "bind_result r2 (\<lambda>objects. Inr (b # objects)) = Inr bs"
    using 2(2) c p by (auto split: prod.splits)
  then obtain bs' where bs: "r2 = Inr bs'" "bs = b # bs'" by (auto simp: bind_result_Inr_iff)
  have "writeObject content (f_Path f) (f_SHA256 f) (f_Size f) dir'' = Inr (dir'', b)"
    using writeObject_again c(2) p extends_dir_trans [OF storeObjects_extends [OF s(1)] 2(3)] by blast
  moreover have "storeObjects source fs dir'' = (dir'', Inr bs')"
    using 2(1) [OF c(1, 2) p [symmetric]] s(1) bs 2(3) by blast
  ultimately show ?case using c(1) bs by simp
qed simp

subsection \<open>What a commit leaves\<close>

lemma insert_objects_frame: "insert_objects j bs s = Inr s' \<Longrightarrow> revision_machines s' = revision_machines s"
  by (induction j bs s rule: insert_objects.induct) (auto simp: bind_result_Inr_iff)

lemma commitRevision_dir: "commitRevision now manifest d n stored s = Inr (s', r) \<Longrightarrow> objects_dir s' = objects_dir s"
proof -
  assume run: "commitRevision now manifest d n stored s = Inr (s', r)"
  have objs: "insert_objects j bs s = Inr s' \<Longrightarrow> objects_dir s' = objects_dir s" for j bs s s'
    by (induction j bs s rule: insert_objects.induct) (auto simp: bind_result_Inr_iff)
  from run obtain s1 i j labels s2 w where b: "begin_revision now manifest d n stored s = Inr (s1, i, j)"
    and e: "insertEvents i j labels (n_Events n) s1 = Inr (s2, w)"
    and s': "s' = recordRun j (n_Version n) (n_Status n) (n_Warnings n @ w) now (update_trace i (fill_title (n_Title n)) s2)"
    by (auto simp: commitRevision_def Let_def bind_result_Inr_iff)
  have "objects_dir s2 = objects_dir s1" using insertEvents_objects [OF e] by (simp add: same_objects_def)
  moreover have "objects_dir s1 = objects_dir s"
    using b by (auto simp: begin_revision_def Let_def bind_result_Inr_iff insert_revision_def insert_trace_def update_trace_def same_objects_def
        dest!: objs upsertRepository_objects)
  ultimately show ?thesis by (simp add: s' recordRun_def update_trace_def)
qed

text \<open>The trace lacks nothing the descriptor could fill in.\<close>

definition complete_for :: "Descriptor \<Rightarrow> TraceRow \<Rightarrow> bool" where
  "complete_for d t \<longleftrightarrow> t_UpdatedAt t \<le> canonicalTime (d_NativeUpdatedAt d) \<longrightarrow>
     (d_Title d = [] \<or> t_Title t \<noteq> []) \<and> (d_WorkingDirectory d = [] \<or> t_WorkingDirectory t \<noteq> []) \<and>
     (d_Repository d = zero_Repository \<or> t_Repository t \<noteq> None)"

definition known_complete :: "Store \<Rightarrow> Descriptor \<Rightarrow> string \<Rightarrow> int \<Rightarrow> int \<Rightarrow> string \<Rightarrow> bool" where
  "known_complete s d machine j i status \<longleftrightarrow> find_revision s d = Some (j, i, status) \<and> (j, machine) \<in> set (revision_machines s) \<and>
     (\<exists>t \<in> set (traces s). t_ID t = i \<and> complete_for d t)"

lemma find_trace_key: "find (\<lambda>t. t_Harness t = a \<and> t_NativeTraceID t = b) ts = find (\<lambda>t. (t_Harness t, t_NativeTraceID t) = (a, b)) ts"
  by (rule arg_cong [of _ _ "\<lambda>P. find P ts"]) auto

lemma find_revision_key: "find (\<lambda>r. v_Trace r = a \<and> v_Digest r = b) rs = find (\<lambda>r. (v_Trace r, v_Digest r) = (a, b)) rs"
  by (rule arg_cong [of _ _ "\<lambda>P. find P rs"]) auto

lemma find_revision_rows:
  assumes "keys_ok s" "t \<in> set (traces s)" "t_Harness t = d_Harness d" "t_NativeTraceID t = d_NativeTraceID d"
    and "r \<in> set (revisions s)" "v_Trace r = t_ID t" "v_Digest r = d_RevisionDigest d"
  shows "find_revision s d = Some (v_ID r, t_ID t, v_Status r)"
proof -
  have "find (\<lambda>t. (t_Harness t, t_NativeTraceID t) = (d_Harness d, d_NativeTraceID d)) (traces s) = Some t"
    using assms(1-4) by (subst find_unique) (auto simp: keys_ok_def)
  moreover have "find (\<lambda>r. (v_Trace r, v_Digest r) = (t_ID t, d_RevisionDigest d)) (revisions s) = Some r"
    using assms(1, 5-7) by (subst find_unique) (auto simp: keys_ok_def)
  ultimately show ?thesis by (simp add: find_revision_def trace_id_def find_trace_key find_revision_key del: prod.inject)
qed

lemma newest_complete:
  assumes "d_Repository d \<noteq> zero_Repository \<Longrightarrow> k \<noteq> None"
  shows "complete_for d (fill_title title (newest_metadata d k (metadata_time d now) t))"
proof -
  have "canonicalTime (d_NativeUpdatedAt d) \<le> metadata_time d now" by (simp add: metadata_time_def Let_def)
  then show ?thesis using assms by (auto simp: complete_for_def newest_metadata_def fill_title_def)
qed

lemma insert_revision_row:
  assumes "insert_revision i manifest d n time s = Inr (s', j)"
  shows "\<exists>ms. s' = s\<lparr>revisions := revisions s @ [revision_row i manifest d n time s],
      revision_machines := ms @ [(v_ID (revision_row i manifest d n time s), m_ID (mf_SourceMachine manifest))]\<rparr> \<and>
    j = v_ID (revision_row i manifest d n time s)"
proof -
  define row where "row = revision_row i manifest d n time s"
  show ?thesis
    using assms unfolding insert_revision_def Let_def row_def [symmetric] by (auto simp: bind_result_Inr_iff insert_unique_iff)
qed

lemma commit_known:
  assumes ok: "chain_ok s" and run: "commitRevision now manifest d n stored s = Inr (s', i, isNew, w)"
  shows "\<exists>j. known_complete s' d (m_ID (mf_SourceMachine manifest)) j i (n_Status n)"
proof -
  let ?m = "m_ID (mf_SourceMachine manifest)" and ?time = "metadata_time d now"
  from run obtain s5 j labels s6 w' where b: "begin_revision now manifest d n stored s = Inr (s5, i, j)"
    and e: "insertEvents i j labels (n_Events n) s5 = Inr (s6, w')"
    and s': "s' = recordRun j (n_Version n) (n_Status n) (n_Warnings n @ w') now (update_trace i (fill_title (n_Title n)) s6)"
    by (auto simp: commitRevision_def Let_def bind_result_Inr_iff)
  from b obtain s1 k s4 where up: "upsertRepository ?m (d_Repository d) s = Inr (s1, k)"
    and tr: "trace_id (insert_trace d k now ?time s1) (d_Harness d) (d_NativeTraceID d) = Some i"
    and rev: "insert_revision i manifest d n ?time (update_trace i (newest_metadata d k ?time) (insert_trace d k now ?time s1)) = Inr (s4, j)"
    and objs: "insert_objects j stored s4 = Inr s5"
    by (auto simp: begin_revision_def Let_def bind_result_Inr_iff)
  have k: "d_Repository d \<noteq> zero_Repository \<Longrightarrow> k \<noteq> None"
    using up by (auto simp: upsertRepository_def Let_def bind_result_Inr_iff)
  have frame: "traces s6 = traces s5" "revisions s6 = revisions s5" "revision_machines s6 = revision_machines s5"
    by (rule insertEvents_frame [OF _ _ _ _ _ _ e]; simp)+
  have s5: "traces s5 = traces s4" "revisions s5 = revisions s4" "revision_machines s5 = revision_machines s4"
    using insert_objects_same [OF objs] insert_objects_frame [OF objs] by (simp_all add: same_chain_def)
  let ?s3 = "update_trace i (newest_metadata d k ?time) (insert_trace d k now ?time s1)"
  let ?row = "revision_row i manifest d n ?time ?s3"
  obtain ms where s4: "s4 = ?s3\<lparr>revisions := revisions ?s3 @ [?row], revision_machines := ms @ [(v_ID ?row, ?m)]\<rparr>" "j = v_ID ?row"
    using insert_revision_row [OF rev] by blast
  from tr obtain t where t: "t \<in> set (traces (insert_trace d k now ?time s1))" "t_ID t = i" "t_Harness t = d_Harness d" "t_NativeTraceID t = d_NativeTraceID d"
    by (auto simp: trace_id_def dest!: find_SomeD)
  let ?t = "fill_title (n_Title n) (newest_metadata d k ?time t)"
  have member: "g t \<in> set (update_where (\<lambda>t. t_ID t = i) g ts)" if "t \<in> set ts" "t_ID t = i" for g :: "TraceRow \<Rightarrow> TraceRow" and t ts
    using that by (force simp: set_update_where)
  have "newest_metadata d k ?time t \<in> set (traces s4)"
    using member [OF t(1, 2)] by (simp add: s4(1) update_trace_def)
  then have row: "?t \<in> set (traces s')"
    using member [of "newest_metadata d k ?time t" "traces s4" "fill_title (n_Title n)"] t(2)
    by (simp add: s' recordRun_def update_trace_def frame s5 newest_metadata_def)
  have fields: "t_ID ?t = i" "t_Harness ?t = d_Harness d" "t_NativeTraceID ?t = d_NativeTraceID d"
    using t by (auto simp: fill_title_def newest_metadata_def)
  have revs: "?row \<in> set (revisions s')" "(j, ?m) \<in> set (revision_machines s')"
    using frame s5 s4(2) by (simp_all add: s' recordRun_def update_trace_def s4(1))
  have "keys_ok s'" using commitRevision_ok [OF ok run] by (simp add: chain_but_def)
  from find_revision_rows [OF this row fields(2, 3) revs(1)]
  have "find_revision s' d = Some (j, i, n_Status n)" using s4(2) fields(1) by (simp add: revision_row_def)
  then show ?thesis
    using revs(2) row fields(1) newest_complete [OF k] unfolding known_complete_def by blast
qed

subsection \<open>The second import\<close>

lemma update_where_none: "\<not> list_ex P rows \<Longrightarrow> update_where P f rows = rows"
  by (induction rows) (auto simp: update_where_def)

lemma backfill_complete:
  assumes "keys_ok s" "t \<in> set (traces s)" "t_ID t = i" "complete_for d t"
  shows "backfillMissingTraceMetadata i j m d s = Inr (s, False)"
proof -
  let ?u = "canonicalTime (d_NativeUpdatedAt d)"
  have ids: "distinct (map t_ID (traces s))" using assms(1) by (simp add: keys_ok_def)
  have only: "list_ex (\<lambda>t. t_ID t = i \<and> P t) (traces s) \<longleftrightarrow> P t" for P
    using assms(2, 3) distinct_map_eq [OF ids] by (auto simp: list_ex_iff)
  have skip: "fill_column c f i ?u s = (s, False)" if "\<not> (c t = [] \<and> t_UpdatedAt t \<le> ?u)" for c f
    using that only [of "\<lambda>t. c t = [] \<and> t_UpdatedAt t \<le> ?u"] by (simp add: fill_column_def Let_def update_where_none)
  have titled: "(if d_Title d = [] then (s, False) else fill_column t_Title f i ?u s) = (s, False)" for f
    using assms(4) skip [of t_Title] by (auto simp: complete_for_def)
  have placed: "(if d_WorkingDirectory d = [] then (s, False) else fill_column t_WorkingDirectory f i ?u s) = (s, False)" for f
    using assms(4) skip [of t_WorkingDirectory] by (auto simp: complete_for_def)
  have t: "find (\<lambda>t. t_ID t = i) (traces s) = Some t" using assms(2, 3) find_unique [OF ids] by simp
  have "fill_metadata m i d s = Inr (s, [])"
    using assms(4) t by (auto simp: fill_metadata_def Let_def titled placed found_def complete_for_def)
  then show ?thesis by (simp add: backfillMissingTraceMetadata_def)
qed

lemma importTrace_known:
  assumes "keys_ok s" "known_complete s d (m_ID (mf_SourceMachine manifest)) j i ''normalized''"
    and "Sub sources (d_Path d) = Inr source" "storeObjects source (d_Files d) (objects_dir s) = (objects_dir s, Inr bs)"
  shows "importTrace now run manifest d sources s = (s, (start_outcome d)\<lparr>o_TraceID := i, o_Status := ''unchanged''\<rparr>)"
proof -
  obtain t where t: "t \<in> set (traces s)" "t_ID t = i" "complete_for d t" and r: "find_revision s d = Some (j, i, ''normalized'')"
    "(j, m_ID (mf_SourceMachine manifest)) \<in> set (revision_machines s)"
    using assms(2) by (auto simp: known_complete_def)
  have "insert_or_ignore id (j, m_ID (mf_SourceMachine manifest)) (revision_machines s) = revision_machines s"
    using r(2) by (simp add: insert_or_ignore_def)
  then show ?thesis
    using backfill_complete [OF assms(1) t] r(1) assms(3, 4)
    by (simp add: importTrace_def Let_def known_revision_def normalizationSuccessful_def)
qed

text \<open>C21. Importing is idempotent: once a new revision of a trace was stored and normalized, importing the same trace again
  leaves the store exactly as it is and reports it unchanged, whatever the normalizer would say now.\<close>

theorem reimport_unchanged:
  assumes "reachable s" "find_revision s d = None" "importTrace now run manifest d sources s = (s', out)"
    and "n_Status (fst (normalizeResult run d source)) = ''normalized''" "Sub sources (d_Path d) = Inr source" "o_Status out \<noteq> ''failed''"
  shows "importTrace now' run' manifest d sources s' =
    (s', (start_outcome d)\<lparr>o_TraceID := o_TraceID out, o_Status := ''unchanged''\<rparr>)"
proof -
  obtain dir r where dir: "storeObjects source (d_Files d) (objects_dir s) = (dir, r)" by force
  let ?s = "s\<lparr>objects_dir := dir\<rparr>"
  have find: "find_revision ?s d = None" using assms(2) by (simp add: find_revision_def trace_id_def)
  obtain stored where r: "r = Inr stored"
    using assms(3, 6) by (cases r) (auto simp: importTrace_def assms(5) dir failed_def)
  obtain n e where n: "normalizeResult run d source = (n, e)" by force
  have new: "new_revision now run manifest d source stored (start_outcome d) ?s = (s', out)"
    using assms(3) by (simp add: importTrace_def assms(5) dir r Let_def find)
  obtain i isNew w where c: "commitRevision now manifest d n stored ?s = Inr (s', i, isNew, w)" and i: "o_TraceID out = i"
    using new assms(6) n
    by (auto simp: new_revision_def failed_def note_error_def warn_def split: sum.splits prod.splits option.splits)
  have ok: "chain_ok ?s" using chain.always [OF assms(1)] by (rule chain_but_same) (simp add: same_chain_def)
  obtain j where known: "known_complete s' d (m_ID (mf_SourceMachine manifest)) j i ''normalized''"
    using commit_known [OF ok c] assms(4) n by auto
  have "objects_dir s' = dir"
    using commitRevision_dir [OF c] by simp
  then have again: "storeObjects source (d_Files d) (objects_dir s') = (objects_dir s', Inr stored)"
    using storeObjects_again [of source "d_Files d" "objects_dir s" dir stored dir] dir r by (simp add: extends_dir_def)
  have "keys_ok s'" using commitRevision_ok [OF ok c] by (simp add: chain_but_def)
  from importTrace_known [OF this known assms(5) again] i show ?thesis by simp
qed

theorem reimport_unchanged_witness:
  "\<exists>s'. fst (importTrace [] note_run note_manifest note_trace note_files empty_store) = s' \<and>
    importTrace ''later'' (\<lambda>_ _. (note_result, Some ''broken'')) note_manifest note_trace note_files s' =
      (s', (start_outcome note_trace)\<lparr>o_TraceID := 1, o_Status := ''unchanged''\<rparr>)"
proof -
  obtain s' where i: "importTrace [] note_run note_manifest note_trace note_files empty_store =
      (s', (start_outcome note_trace)\<lparr>o_TraceID := 1, o_Status := ''imported''\<rparr>)"
    using note_imported [of empty_store] by (simp add: empty_store_def)
  have "ValidPath ''t''" by (auto simp: ValidPath_def ContainsAny_def intro!: ascii_ValidString)
  then obtain source where "Sub note_files (d_Path note_trace) = Inr source" by (simp add: Sub_def note_descriptor)
  from reimport_unchanged [OF reachable_empty _ i _ this] i show ?thesis
    by (simp add: note_normalized note_result_def find_revision_def trace_id_def empty_store_def)
qed

end
