(* ===== verification/StoreRenormalize.thy ===== *)
theory StoreRenormalize
  imports StoreAgain
begin

text \<open>
  The loop of \<open>Renormalize\<close> over batches: every step is a step of the store, and every revision that is out of date at
  the start is normalized once.
\<close>

subsection \<open>One revision\<close>

text \<open>What a step leaves of the columns the loop reads.\<close>

definition trace_keys :: "Store \<Rightarrow> (int \<times> string) list" where
  "trace_keys s = map (\<lambda>t. (t_ID t, t_Harness t)) (traces s)"

definition version_rows :: "Store \<Rightarrow> (int \<times> int \<times> int) list" where
  "version_rows s = map (\<lambda>r. (v_ID r, v_Trace r, v_Version r)) (revisions s)"

definition kept_but :: "int \<Rightarrow> Store \<Rightarrow> Store \<Rightarrow> bool" where
  "kept_but j s s' \<longleftrightarrow> trace_keys s' = trace_keys s \<and>
     map (\<lambda>r. (v_ID r, v_Trace r)) (revisions s') = map (\<lambda>r. (v_ID r, v_Trace r)) (revisions s) \<and>
     filter (\<lambda>x. fst x \<noteq> j) (version_rows s') = filter (\<lambda>x. fst x \<noteq> j) (version_rows s)"

lemma delete_runs:
  "traces (delete_events P s) = traces s" "revisions (delete_events P s) = revisions s" "runs (delete_events P s) = runs s"
  by (simp_all add: delete_events_def delete_observations_def delete_observation_revisions_def Let_def)

lemma insert_aliases_runs: "traces (insert_aliases i es s) = traces s \<and> revisions (insert_aliases i es s) = revisions s \<and> runs (insert_aliases i es s) = runs s"
proof -
  have one: "traces (insert_alias i k l s) = traces s \<and> revisions (insert_alias i k l s) = revisions s \<and> runs (insert_alias i k l s) = runs s" for k l s
    by (simp add: insert_alias_def split: option.split)
  have many: "traces (foldl (\<lambda>s l. insert_alias i k l s) s ls) = traces s \<and> revisions (foldl (\<lambda>s l. insert_alias i k l s) s ls) = revisions s \<and>
      runs (foldl (\<lambda>s l. insert_alias i k l s) s ls) = runs s" for k ls s
    using one by (induction ls arbitrary: s) auto
  show ?thesis unfolding insert_aliases_def using many by (induction es arbitrary: s) auto
qed

lemma clear_revision_rows:
  "runs (clear_revision i j n s) = runs s" "kept_but j s (clear_revision i j n s)"
proof -
  define s1 where "s1 = insert_aliases i (n_Events n) s"
  have s1: "traces s1 = traces s" "revisions s1 = revisions s" "runs s1 = runs s" using insert_aliases_runs by (auto simp: s1_def)
  let ?g = "\<lambda>t. if t_GeneratedTitle t = [] then t\<lparr>t_GeneratedRevision := 0\<rparr> else t"
  let ?u = "\<lambda>r. r\<lparr>v_Status := n_Status n, v_Version := n_Version n\<rparr>"
  have rows: "runs (clear_revision i j n s) = runs s"
    "traces (clear_revision i j n s) = update_where (\<lambda>t. t_ID t = i) (fill_title (n_Title n)) (update_where (\<lambda>t. t_ID t = i) ?g (traces s))"
    "revisions (clear_revision i j n s) = update_where (\<lambda>r. v_ID r = j) ?u (revisions s)"
    by (simp_all add: clear_revision_def Let_def delete_observations_def delete_observation_revisions_def update_trace_def s1_def [symmetric] s1)
  have other: "filter (\<lambda>x. fst x \<noteq> j) (map (\<lambda>r. (v_ID r, v_Trace r, v_Version r)) (update_where (\<lambda>r. v_ID r = j) ?u rs)) =
      filter (\<lambda>x. fst x \<noteq> j) (map (\<lambda>r. (v_ID r, v_Trace r, v_Version r)) rs)" for rs
    by (induction rs) (auto simp: update_where_def)
  have same: "map (\<lambda>t. (t_ID t, t_Harness t)) (update_where (\<lambda>t. t_ID t = i) (fill_title (n_Title n)) (update_where (\<lambda>t. t_ID t = i) ?g ts)) =
      map (\<lambda>t. (t_ID t, t_Harness t)) ts" for ts
    by (subst update_where_key) (simp_all add: fill_title_def update_where_key)
  show "runs (clear_revision i j n s) = runs s" "kept_but j s (clear_revision i j n s)"
    using other same by (simp_all add: kept_but_def trace_keys_def version_rows_def rows update_where_key)
qed

lemma replaceRevisionEvents_rows:
  assumes "replaceRevisionEvents now i j labels n s = Inr (s', w)"
  shows "kept_but j s s' \<and> (\<exists>u. runs s' = runs s @ [u] \<and> nr_Revision u = j)"
proof -
  obtain s1 w1 P where e: "insertEvents i j labels (n_Events n) (clear_revision i j n s) = Inr (s1, w1)"
    and s': "s' = recordRun j (n_Version n) (n_Status n) (n_Warnings n @ w1) now (delete_events P (set_preferred (\<lambda>r. ev_Trace r = i) s1))"
    using assms by (auto simp: replaceRevisionEvents_def Let_def bind_result_Inr_iff)
  have s1: "traces s1 = traces (clear_revision i j n s)" "revisions s1 = revisions (clear_revision i j n s)" "runs s1 = runs (clear_revision i j n s)"
    by (rule insertEvents_frame [OF _ _ _ _ _ _ e]; simp)+
  show ?thesis
    using clear_revision_rows(1) [of i j n s] clear_revision_rows(2) [of j s i n]
    by (simp add: s' recordRun_def delete_runs set_preferred_def s1 kept_but_def trace_keys_def version_rows_def)
qed

lemma renormalize_one_rows:
  assumes "renormalize_one now version run item s = Inr s'"
  shows "kept_but (cd_Revision item) s s' \<and> (\<exists>u. runs s' = runs s @ [u] \<and> nr_Revision u = cd_Revision item)"
  using assms
proof (rule renormalize_one_cases)
  fix v st ws assume "s' = recordRun (cd_Revision item) v st ws now s"
  then show ?thesis by (simp add: recordRun_def kept_but_def trace_keys_def version_rows_def)
qed (rule replaceRevisionEvents_rows)

subsection \<open>A batch\<close>

lemma kept_trans:
  assumes "kept_but j s s'" "filter (\<lambda>x. fst x \<notin> J) (version_rows s'') = filter (\<lambda>x. fst x \<notin> J) (version_rows s')"
  shows "filter (\<lambda>x. fst x \<notin> insert j J) (version_rows s'') = filter (\<lambda>x. fst x \<notin> insert j J) (version_rows s)"
proof -
  have split: "filter (\<lambda>x. fst x \<notin> insert j J) xs = filter (\<lambda>x. fst x \<noteq> j) (filter (\<lambda>x. fst x \<notin> J) xs)"
    "filter (\<lambda>x. fst x \<notin> insert j J) xs = filter (\<lambda>x. fst x \<notin> J) (filter (\<lambda>x. fst x \<noteq> j) xs)" for xs :: "(int \<times> int \<times> int) list"
    by (auto intro!: filter_cong)
  have "filter (\<lambda>x. fst x \<notin> insert j J) (version_rows s'') = filter (\<lambda>x. fst x \<notin> insert j J) (version_rows s')"
    unfolding split(1) assms(2) ..
  also have "\<dots> = filter (\<lambda>x. fst x \<notin> insert j J) (version_rows s)"
    using assms(1) unfolding split(2) kept_but_def by simp
  finally show ?thesis .
qed

lemma renormalize_each_rows:
  "renormalize_each clock version run cs s = (s', None) \<Longrightarrow>
   trace_keys s' = trace_keys s \<and> map (\<lambda>r. (v_ID r, v_Trace r)) (revisions s') = map (\<lambda>r. (v_ID r, v_Trace r)) (revisions s) \<and>
   filter (\<lambda>x. fst x \<notin> cd_Revision ` set cs) (version_rows s') = filter (\<lambda>x. fst x \<notin> cd_Revision ` set cs) (version_rows s) \<and>
   (\<exists>us. runs s' = runs s @ us \<and> map nr_Revision us = map cd_Revision cs)"
proof (induction clock version run cs s rule: renormalize_each.induct)
  case (2 clock version run c cs s)
  then obtain s1 where s1: "renormalize_one (clock (cd_Revision c)) version run c s = Inr s1" "renormalize_each clock version run cs s1 = (s', None)"
    by (auto split: sum.splits)
  note one = renormalize_one_rows [OF s1(1)] and rest = 2(1) [OF s1]
  have "filter (\<lambda>x. fst x \<notin> insert (cd_Revision c) (cd_Revision ` set cs)) (version_rows s') =
      filter (\<lambda>x. fst x \<notin> insert (cd_Revision c) (cd_Revision ` set cs)) (version_rows s)"
    using one rest by (intro kept_trans) auto
  moreover obtain u us where "runs s1 = runs s @ [u]" "nr_Revision u = cd_Revision c" "runs s' = runs s1 @ us" "map nr_Revision us = map cd_Revision cs"
    using one rest by blast
  then have "runs s' = runs s @ (u # us)" "map nr_Revision (u # us) = map cd_Revision (c # cs)" by simp_all
  ultimately show ?case using one rest by (auto simp: kept_but_def)
qed simp

lemma renormalize_each_reachable:
  "reachable s \<Longrightarrow> list_all (\<lambda>c. has_revision s (cd_Revision c) (cd_Trace c)) cs \<Longrightarrow> reachable (fst (renormalize_each clock version run cs s))"
proof (induction clock version run cs s rule: renormalize_each.induct)
  case (2 clock version run c cs s)
  show ?case
  proof (cases "renormalize_one (clock (cd_Revision c)) version run c s")
    case (Inr s1)
    have "reachable s1" using reachable_step [OF 2(2) step_renormalize [OF _ Inr]] 2(3) by simp
    moreover have "has_revision s1 j i \<longleftrightarrow> has_revision s j i" for j i
    proof -
      have "set (map (\<lambda>r. (v_ID r, v_Trace r)) (revisions s1)) = set (map (\<lambda>r. (v_ID r, v_Trace r)) (revisions s))"
        using renormalize_one_rows [OF Inr] by (simp add: kept_but_def del: set_map)
      then have "(j, i) \<in> (\<lambda>r. (v_ID r, v_Trace r)) ` set (revisions s1) \<longleftrightarrow> (j, i) \<in> (\<lambda>r. (v_ID r, v_Trace r)) ` set (revisions s)" by simp
      then show ?thesis by (auto simp: image_iff)
    qed
    ultimately show ?thesis using 2(1) [OF Inr] 2(3) Inr by simp
  qed (use 2(2) in simp)
qed simp

subsection \<open>All batches\<close>

text \<open>The revisions whose normalizer has a newer version.\<close>

definition out_of_date :: "(string \<Rightarrow> int) \<Rightarrow> (int \<times> string) list \<Rightarrow> int \<times> int \<times> int \<Rightarrow> bool" where
  "out_of_date version keys x \<longleftrightarrow>
     (case x of (j, i, v) \<Rightarrow> (case map_of keys i of None \<Rightarrow> False | Some h \<Rightarrow> v < version h))"

text \<open>Their ids in order, above \<open>lo\<close> and up to \<open>hi\<close>.\<close>

definition todo :: "(string \<Rightarrow> int) \<Rightarrow> int \<Rightarrow> int \<Rightarrow> Store \<Rightarrow> int list" where
  "todo version lo hi s =
     map fst (filter (\<lambda>x. lo < fst x \<and> fst x \<le> hi \<and> out_of_date version (trace_keys s) x) (sort_key fst (version_rows s)))"

lemma find_map_of: "find (\<lambda>t. t_ID t = i) ts = Some t \<Longrightarrow> map_of (map (\<lambda>t. (t_ID t, t_Harness t)) ts) i = Some (t_Harness t)"
  by (induction ts) (auto split: if_splits)

lemma find_map_of_None: "find (\<lambda>t. t_ID t = i) ts = None \<Longrightarrow> map_of (map (\<lambda>t. (t_ID t, t_Harness t)) ts) i = None"
  by (induction ts) (auto split: if_splits)

lemma candidate_out_of_date:
  "out_of_date version (trace_keys s) (v_ID r, v_Trace r, v_Version r) \<longleftrightarrow>
   (\<exists>c. candidate_of s r = Some c \<and> cd_Version c < version (d_Harness (cd_Descriptor c)))"
  by (cases "find (\<lambda>t. t_ID t = v_Trace r) (traces s)")
    (auto simp: out_of_date_def trace_keys_def candidate_of_def dest: find_map_of find_map_of_None)

lemma candidate_keys: "candidate_of s r = Some c \<Longrightarrow> cd_Revision c = v_ID r \<and> cd_Trace c = v_Trace r"
  by (auto simp: candidate_of_def)

lemma sort_version_rows: "sort_key fst (version_rows s) = map (\<lambda>r. (v_ID r, v_Trace r, v_Version r)) (sort_key v_ID (revisions s))"
proof -
  have "insort_key fst (f r) (map f rs) = map f (insort_key v_ID r rs)"
    if "f = (\<lambda>r. (v_ID r, v_Trace r, v_Version r))" for f and r :: RevisionRow and rs
    using that by (induction rs) auto
  then have "foldr (insort_key fst) (map (\<lambda>r. (v_ID r, v_Trace r, v_Version r)) rs) [] =
      map (\<lambda>r. (v_ID r, v_Trace r, v_Version r)) (foldr (insort_key v_ID) rs [])" for rs :: "RevisionRow list"
    by (induction rs) auto
  then show ?thesis by (simp add: sort_key_def version_rows_def)
qed

lemma todo_rows:
  "todo version lo hi s = map v_ID (filter (\<lambda>r. lo < v_ID r \<and> v_ID r \<le> hi \<and> out_of_date version (trace_keys s) (v_ID r, v_Trace r, v_Version r))
     (sort_key v_ID (revisions s)))"
  by (simp add: todo_def sort_version_rows filter_map comp_def)

lemma renormalized_ids:
  "map cd_Revision (filter (\<lambda>c. cd_Version c < version (d_Harness (cd_Descriptor c)))
     (concat (map (\<lambda>r. case candidate_of s r of None \<Rightarrow> [] | Some c \<Rightarrow> [c]) rows))) =
   map v_ID (filter (\<lambda>r. out_of_date version (trace_keys s) (v_ID r, v_Trace r, v_Version r)) rows)"
  by (induction rows) (auto simp: candidate_out_of_date candidate_keys split: option.splits)

lemma todo_other:
  assumes "trace_keys s' = trace_keys s" "filter (\<lambda>x. fst x \<notin> J) (version_rows s') = filter (\<lambda>x. fst x \<notin> J) (version_rows s)"
    and "\<forall>j \<in> J. j \<le> lo"
  shows "todo version lo hi s' = todo version lo hi s"
proof -
  let ?P = "\<lambda>x. lo < fst x \<and> fst x \<le> hi \<and> out_of_date version (trace_keys s) x"
  have keep: "filter ?P (filter (\<lambda>x. fst x \<notin> J) xs) = filter ?P xs" for xs
    by (rule filter_cong_keep) (use assms(3) not_less in blast)
  have "filter ?P (version_rows s') = filter ?P (filter (\<lambda>x. fst x \<notin> J) (version_rows s'))" by (rule keep [symmetric])
  also have "\<dots> = filter ?P (version_rows s)" unfolding assms(2) by (rule keep)
  finally show ?thesis by (simp add: todo_def assms(1) filter_sort)
qed

lemma filter_above_last:
  fixes f :: "'a \<Rightarrow> int"
  assumes "sorted_wrt (\<lambda>a b. f a < f b) (xs @ ys)" "xs \<noteq> []"
  shows "filter (\<lambda>x. f (last xs) < f x) (xs @ ys) = ys"
proof -
  obtain us where us: "xs = us @ [last xs]" using assms(2) by (metis append_butlast_last_id)
  have "sorted_wrt (\<lambda>a b. f a < f b) (us @ [last xs])" using assms(1) us by (metis sorted_wrt_append)
  then have "f x < f (last xs)" if "x \<in> set us" for x using that by (simp add: sorted_wrt_append)
  then have "f x \<le> f (last xs)" if "x \<in> set xs" for x
    using that us by (metis Un_iff empty_iff empty_set insert_iff list.simps(15) order_less_imp_le order_refl set_append)
  moreover have "f (last xs) < f y" if "y \<in> set ys" for y
    using assms that by (simp add: sorted_wrt_append)
  ultimately show ?thesis by (auto simp: filter_empty_conv filter_id_conv not_less)
qed

lemma sorted_strict:
  fixes f :: "'a \<Rightarrow> int"
  assumes "distinct (map f xs)"
  shows "sorted_wrt (\<lambda>a b. f a < f b) (filter P (sort_key f xs))"
proof -
  have "distinct (map f (sort_key f xs))" using assms by (simp add: distinct_map)
  then have "sorted_wrt (<) (map f (sort_key f xs))" by (simp add: strict_sorted_iff)
  then show ?thesis by (simp add: sorted_wrt_map sorted_wrt_filter)
qed

lemma last_foldl: "foldl (\<lambda>_ r. f r) z rows = (if rows = [] then z else f (last rows))"
  by (induction rows arbitrary: z) auto

lemma renormalize_from_runs:
  assumes "renormalize_from clock version run seen maximum s = (s', None)" "distinct (map v_ID (revisions s))"
  shows "\<exists>us. runs s' = runs s @ us \<and> map nr_Revision us = todo version seen maximum s"
  using assms
proof (induction clock version run seen maximum s rule: renormalize_from.induct)
  case (1 clock version run seen maximum s)
  show ?case
  proof (cases "maximum \<le> seen")
    case True
    then have "todo version seen maximum s = []" by (auto simp: todo_def filter_empty_conv)
    with 1(2) True show ?thesis by (simp add: renormalize_from.simps)
  next
    case False
    define F where "F = filter (\<lambda>r. seen < v_ID r \<and> v_ID r \<le> maximum \<and> candidate_of s r \<noteq> None) (sort_key v_ID (revisions s))"
    define rows where "rows = take 100 F"
    define batch where "batch = filter (\<lambda>c. cd_Version c < version (d_Harness (cd_Descriptor c)))
      (concat (map (\<lambda>r. case candidate_of s r of None \<Rightarrow> [] | Some c \<Rightarrow> [c]) rows))"
    define seen' where "seen' = (if rows = [] then maximum else foldl (\<lambda>_ r. v_ID r) seen rows)"
    let ?ood = "\<lambda>r. out_of_date version (trace_keys s) (v_ID r, v_Trace r, v_Version r)"
    obtain s1 where s1: "renormalize_each clock version run batch s = (s1, None)" "renormalize_from clock version run seen' maximum s1 = (s', None)"
      using 1(2) False unfolding renormalize_from.simps [of clock version run seen maximum s] Let_def
        F_def [symmetric] rows_def [symmetric] batch_def [symmetric] seen'_def [symmetric]
      by (auto split: prod.splits option.splits)
    note each = renormalize_each_rows [OF s1(1)]
    have ids: "map cd_Revision batch = map v_ID (filter ?ood rows)" unfolding batch_def by (rule renormalized_ids)
    have "map v_ID (revisions s1) = map v_ID (revisions s)"
      using arg_cong [of _ _ "map fst", OF conjunct1 [OF conjunct2 [OF each]]] by (simp add: comp_def)
    then have d1: "distinct (map v_ID (revisions s1))" using 1(3) by simp
    have some: "\<exists>c. candidate_of s r = Some c" if "?ood r" for r using that candidate_out_of_date by blast
    have here: "todo version seen maximum s = map v_ID (filter ?ood F)"
      unfolding todo_rows F_def by (auto simp: some intro!: arg_cong [of _ _ "map v_ID"] filter_cong)
    have sorted: "sorted_wrt (\<lambda>a b. v_ID a < v_ID b) (rows @ drop 100 F)"
      using sorted_strict [OF 1(3)] by (simp add: rows_def F_def)
    have last: "rows \<noteq> [] \<Longrightarrow> seen' = v_ID (last rows)" by (simp add: seen'_def last_foldl)
    have low: "\<forall>j \<in> cd_Revision ` set batch. j \<le> seen'"
    proof
      fix j assume "j \<in> cd_Revision ` set batch"
      then have "j \<in> set (map cd_Revision batch)" by simp
      then obtain r where r: "r \<in> set rows" "j = v_ID r" unfolding ids by auto
      then have ne: "rows \<noteq> []" by auto
      have "filter (\<lambda>x. v_ID (last rows) < v_ID x) rows = []"
        using filter_above_last [of v_ID rows "[]"] sorted ne by (simp add: sorted_wrt_append)
      then have "v_ID r \<le> v_ID (last rows)" using r(1) by (auto simp: filter_empty_conv not_less)
      then show "j \<le> seen'" using last [OF ne] r(2) by simp
    qed
    have "todo version seen' maximum s1 = todo version seen' maximum s"
      by (rule todo_other [OF _ _ low]) (use each in auto)
    also have "\<dots> = map v_ID (filter ?ood (drop 100 F))"
    proof (cases "rows = []")
      case True
      then have "F = []" by (simp add: rows_def)
      with True show ?thesis by (auto simp: seen'_def todo_def filter_empty_conv)
    next
      case False
      have "filter (\<lambda>r. seen' < v_ID r \<and> v_ID r \<le> maximum \<and> ?ood r) (sort_key v_ID (revisions s)) = filter ?ood (filter (\<lambda>r. seen' < v_ID r) F)"
      proof -
        have "seen < seen'"
          using last [OF False] last_in_set [OF False] by (auto simp: rows_def F_def dest: in_set_takeD)
        then show ?thesis unfolding F_def filter_filter using some by (intro filter_cong) auto
      qed
      also have "filter (\<lambda>r. seen' < v_ID r) F = drop 100 F"
        using filter_above_last [OF sorted False] last [OF False] by (simp add: rows_def)
      finally show ?thesis by (simp add: todo_rows)
    qed
    finally have rest: "todo version seen' maximum s1 = map v_ID (filter ?ood (drop 100 F))" .
    have ih: "\<exists>us. runs s' = runs s1 @ us \<and> map nr_Revision us = todo version seen' maximum s1"
      using 1(1) [OF False refl refl refl, folded F_def, folded rows_def, folded batch_def seen'_def, OF s1(1) [symmetric] refl s1(2) d1] .
    obtain us vs where "runs s1 = runs s @ us" "map nr_Revision us = map cd_Revision batch"
      "runs s' = runs s1 @ vs" "map nr_Revision vs = map v_ID (filter ?ood (drop 100 F))"
      using each ih rest by metis
    then have "runs s' = runs s @ (us @ vs)" "map nr_Revision (us @ vs) = map v_ID (filter ?ood rows) @ map v_ID (filter ?ood (drop 100 F))"
      using ids by simp_all
    moreover have "map v_ID (filter ?ood rows) @ map v_ID (filter ?ood (drop 100 F)) = todo version seen maximum s"
      unfolding here rows_def by (simp flip: map_append filter_append)
    ultimately show ?thesis by metis
  qed
qed

lemma renormalize_from_reachable:
  "reachable s \<Longrightarrow> reachable (fst (renormalize_from clock version run seen maximum s))"
proof (induction clock version run seen maximum s rule: renormalize_from.induct)
  case (1 clock version run seen maximum s)
  show ?case
  proof (cases "maximum \<le> seen")
    case False
    define rows where "rows = take 100 (filter (\<lambda>r. seen < v_ID r \<and> v_ID r \<le> maximum \<and> candidate_of s r \<noteq> None) (sort_key v_ID (revisions s)))"
    define batch where "batch = filter (\<lambda>c. cd_Version c < version (d_Harness (cd_Descriptor c)))
      (concat (map (\<lambda>r. case candidate_of s r of None \<Rightarrow> [] | Some c \<Rightarrow> [c]) rows))"
    obtain s1 e where s1: "renormalize_each clock version run batch s = (s1, e)" by force
    have "has_revision s (cd_Revision c) (cd_Trace c)" if "c \<in> set batch" for c
    proof -
      from that obtain r where r: "r \<in> set rows" "candidate_of s r = Some c" by (auto simp: batch_def split: option.splits)
      have "r \<in> set (revisions s)" using r(1) by (auto simp: rows_def dest!: in_set_takeD)
      then show ?thesis using candidate_keys [OF r(2)] by auto
    qed
    then have "list_all (\<lambda>c. has_revision s (cd_Revision c) (cd_Trace c)) batch" by (simp add: list_all_iff)
    from renormalize_each_reachable [OF 1(2) this, of clock version run] have r: "reachable s1" using s1 by simp
    show ?thesis
    proof (cases e)
      case None
      then show ?thesis
        using 1(1) [OF False refl refl refl, folded rows_def, folded batch_def, OF s1 [symmetric]] r False s1
        unfolding renormalize_from.simps [of clock version run seen maximum s] Let_def rows_def [symmetric] batch_def [symmetric] by simp
    next
      case (Some m)
      then show ?thesis
        using r False s1
        unfolding renormalize_from.simps [of clock version run seen maximum s] Let_def rows_def [symmetric] batch_def [symmetric] by simp
    qed
  qed (use 1(2) in \<open>simp add: renormalize_from.simps\<close>)
qed

subsection \<open>Ids of revisions\<close>

definition ids_ok :: "Store \<Rightarrow> bool" where
  "ids_ok s \<longleftrightarrow> list_all (\<lambda>i. 0 < i) (map v_ID (revisions s))"

lemma ids_ok_same: "ids_ok s \<Longrightarrow> map v_ID (revisions s') = map v_ID (revisions s) \<Longrightarrow> ids_ok s'"
  by (simp add: ids_ok_def)

lemma replaceRevisionEvents_ids:
  assumes "replaceRevisionEvents now i j labels n s = Inr (s', w)"
  shows "map v_ID (revisions s') = map v_ID (revisions s)"
proof -
  have "map (\<lambda>r. (v_ID r, v_Trace r)) (revisions s') = map (\<lambda>r. (v_ID r, v_Trace r)) (revisions s)"
    using replaceRevisionEvents_rows [OF assms] by (simp add: kept_but_def)
  from arg_cong [OF this, of "map fst"] show ?thesis by (simp add: comp_def)
qed

lemma commitRevision_ids:
  assumes "ids_ok s" "commitRevision now manifest d n stored s = Inr (s', r)"
  shows "ids_ok s'"
proof -
  from assms(2) obtain s5 i j labels s6 w' where b: "begin_revision now manifest d n stored s = Inr (s5, i, j)"
    and e: "insertEvents i j labels (n_Events n) s5 = Inr (s6, w')"
    and s': "s' = recordRun j (n_Version n) (n_Status n) (n_Warnings n @ w') now (update_trace i (fill_title (n_Title n)) s6)"
    by (auto simp: commitRevision_def Let_def bind_result_Inr_iff)
  from b obtain s1 k s3 s4 where up: "upsertRepository (m_ID (mf_SourceMachine manifest)) (d_Repository d) s = Inr (s1, k)"
    and rev: "insert_revision i manifest d n (metadata_time d now) s3 = Inr (s4, j)" "revisions s3 = revisions s1"
    and objs: "insert_objects j stored s4 = Inr s5"
    by (auto simp: begin_revision_def Let_def bind_result_Inr_iff update_trace_def insert_trace_def)
  have "revisions s6 = revisions s5" by (rule insertEvents_frame [OF _ _ _ _ _ _ e]) simp_all
  moreover have "revisions s5 = revisions s4" using insert_objects_same [OF objs] by (simp add: same_chain_def)
  moreover have "revisions s4 = revisions s @ [revision_row i manifest d n (metadata_time d now) s3]"
    using insert_revision_row [OF rev(1)] rev(2) upsertRepository_revisions [OF up] by auto
  ultimately show ?thesis
    using assms(1) next_rowid_pos by (simp add: s' recordRun_def update_trace_def ids_ok_def revision_row_def)
qed

lemma importTrace_ids:
  assumes ok: "ids_ok s"
  shows "ids_ok (fst (importTrace now run manifest d sources s))"
proof -
  have retry: "map v_ID (revisions (fst (retry_revision now run d source i j out s))) = map v_ID (revisions s)" for source i j out s
  proof -
    obtain n e where n: "normalizeResult run d source = (n, e)" by force
    show ?thesis
      by (auto simp: retry_revision_def n Let_def recordRun_def dest: replaceRevisionEvents_ids split: prod.split sum.split)
  qed
  have known: "map v_ID (revisions (fst (known_revision now run manifest d source j i status out s))) = map v_ID (revisions s)" for source j i status out s
    using retry by (auto simp: known_revision_def Let_def dest: backfill_revisions split: prod.split sum.split)
  have new: "ids_ok (fst (new_revision now run manifest d source stored out s))" if "ids_ok s" for source stored out s
  proof -
    obtain n e where n: "normalizeResult run d source = (n, e)" by force
    show ?thesis
      using that commitRevision_ids [OF that] by (auto simp: new_revision_def n split: sum.split prod.split)
  qed
  have dir: "ids_ok (s\<lparr>objects_dir := dir\<rparr>)" for dir using ok by (simp add: ids_ok_def)
  show ?thesis
    using ok dir new [OF dir] ids_ok_same [OF dir known]
    by (simp add: importTrace_def Let_def split: prod.split sum.split option.split)
qed

lemma reindexTraceSearch_revisions: "reindexTraceSearch i s = Inr s' \<Longrightarrow> revisions s' = revisions s"
proof -
  have "reindex_each labels js s = Inr s' \<Longrightarrow> revisions s' = revisions s" for labels js s s'
    by (induction labels js s rule: reindex_each.induct) (auto simp: bind_result_Inr_iff reindexRevisionSearch_def)
  then show "reindexTraceSearch i s = Inr s' \<Longrightarrow> revisions s' = revisions s"
    by (auto simp: reindexTraceSearch_def bind_result_Inr_iff)
qed

interpretation ids: kept ids_ok
proof
  fix s s' :: Store and i j title clock run manifest sources now version item
  assume ok: "ids_ok s"
  show "ids_ok (fst (Import clock run manifest sources s))"
  proof (rule Import_keeps [of ids_ok])
    show "ids_ok (s\<lparr>machines := a, imports_table := b, importSeq := c, summaries := e, runningImport := d\<rparr>)" if "ids_ok s"
      for s a b c d e using that by (simp add: ids_ok_def)
  qed (auto intro: importTrace_ids ok)
  have gc: "revisions (gc s) = revisions s" for s using gc_same [of s] by (simp add: same_chain_def)
  show "ids_ok (gc s)" using ok by (simp add: ids_ok_def gc)
  show "ids_ok s'" if "DeleteTrace i s = Inr s'"
  proof -
    have gone: "set (revisions (delete_traces P s)) \<subseteq> set (revisions s)" for P
      by (auto simp: delete_traces_def delete_revisions_def delete_observation_revisions_def delete_runs Let_def)
    have "revisions s' = revisions (delete_traces (\<lambda>t. t_ID t = i) s)" using that by (auto simp: DeleteTrace_def gc split: if_splits)
    then have "set (revisions s') \<subseteq> set (revisions s)" using gone by simp
    then show ?thesis using ok by (auto simp: ids_ok_def list_all_iff)
  qed
  show "ids_ok s'" if "SetTitleOverride i title s = Inr s'"
    using that ok by (auto simp: SetTitleOverride_def setTitleOverride_def bind_result_Inr_iff ids_ok_def update_trace_def
        dest!: reindexTraceSearch_revisions split: if_splits)
  show "ids_ok s'" if "SetGeneratedTitle i j title s = Inr s'"
    using that ok by (auto simp: SetGeneratedTitle_def Let_def bind_result_Inr_iff ids_ok_def
        dest!: reindexTraceSearch_revisions split: if_splits)
  show "ids_ok s'" if "renormalize_one now version run item s = Inr s'"
    using that
  proof (rule renormalize_one_cases)
    show "ids_ok s'" if "s' = recordRun (cd_Revision item) v st ws now s" for v st ws using ok that by (simp add: ids_ok_def recordRun_def)
    show "ids_ok s'" if "replaceRevisionEvents now (cd_Trace item) (cd_Revision item) labels n s = Inr (s', w)" for labels n w
      using ids_ok_same [OF ok replaceRevisionEvents_ids [OF that]] .
  qed
qed (simp add: ids_ok_def empty_store_def)

text \<open>C22. Renormalization misses nothing and does nothing twice: when the loop over the batches ends without an error, every
  revision whose normalizer has become newer got exactly one more run, in the order of their ids, no other revision got
  one, and the store is one that the operations reach.\<close>

theorem Renormalize_handles_all:
  assumes "reachable s" "Renormalize clock version run s = (s', None)"
  shows "reachable s' \<and> (\<exists>us. runs s' = runs s @ us \<and> map nr_Revision us = map v_ID
    (filter (\<lambda>r. list_ex (\<lambda>t. t_ID t = v_Trace r \<and> v_Version r < version (t_Harness t)) (traces s)) (sort_key v_ID (revisions s))))"
proof -
  let ?max = "foldr max (map v_ID (revisions s)) 0"
  have keys: "distinct (map t_ID (traces s))" "distinct (map v_ID (revisions s))"
    using chain.always [OF assms(1)] by (auto simp: chain_but_def keys_ok_def)
  have ood: "out_of_date version (trace_keys s) (v_ID r, v_Trace r, v_Version r) \<longleftrightarrow>
      list_ex (\<lambda>t. t_ID t = v_Trace r \<and> v_Version r < version (t_Harness t)) (traces s)" for r
  proof -
    have row: "map_of (trace_keys s) (t_ID t) = Some (t_Harness t)" if "t \<in> set (traces s)" for t
      using keys(1) that by (subst map_of_eq_Some_iff) (auto simp: trace_keys_def comp_def)
    show ?thesis
    proof (cases "\<exists>t \<in> set (traces s). t_ID t = v_Trace r")
      case True
      then obtain t where t: "t \<in> set (traces s)" "t_ID t = v_Trace r" by blast
      have one: "t' = t" if "t' \<in> set (traces s)" "t_ID t' = v_Trace r" for t'
        using distinct_map_eq [OF keys(1) that(1) t(1)] that(2) t(2) by simp
      have "list_ex (\<lambda>t. t_ID t = v_Trace r \<and> v_Version r < version (t_Harness t)) (traces s) \<longleftrightarrow> v_Version r < version (t_Harness t)"
        using t one unfolding list_ex_iff by blast
      then show ?thesis using row [OF t(1)] t(2) by (simp add: out_of_date_def)
    next
      case False
      then have "map_of (trace_keys s) (v_Trace r) = None" by (auto simp: map_of_eq_None_iff trace_keys_def)
      with False show ?thesis by (auto simp: out_of_date_def list_ex_iff)
    qed
  qed
  have "v_ID r \<le> ?max" "0 < v_ID r" if "r \<in> set (revisions s)" for r
    using that next_rowid_fresh [of "v_ID r" "map v_ID (revisions s)"] ids.always [OF assms(1)]
    by (auto simp: next_rowid_def ids_ok_def list_all_iff)
  then have "todo version 0 ?max s = map v_ID
      (filter (\<lambda>r. list_ex (\<lambda>t. t_ID t = v_Trace r \<and> v_Version r < version (t_Harness t)) (traces s)) (sort_key v_ID (revisions s)))"
    unfolding todo_rows ood by (intro arg_cong [of _ _ "map v_ID"] filter_cong) auto
  moreover have "reachable s'"
    using renormalize_from_reachable [OF assms(1), of clock version run 0 ?max] assms(2) by (simp add: Renormalize_def)
  ultimately show ?thesis
    using renormalize_from_runs [OF assms(2) [unfolded Renormalize_def] keys(2)] by simp
qed

abbreviation broken_run :: normalize_fun where
  "broken_run \<equiv> \<lambda>_ _. (note_result, Some ''broken'')"

lemma note_renormalized:
  "\<exists>u. Renormalize (\<lambda>_. []) (\<lambda>_. 2) broken_run note_store = (note_store\<lparr>runs := runs note_store @ [u]\<rparr>, None)"
proof -
  have r: "revisions note_store = [r]" "v_ID r = 1" "v_Version r = 1" "v_Trace r = 1" if "r = hd (revisions (note_rows empty_store))" for r
    using that by (simp_all add: note_contents(8) note_rows_def)
  define r where "r = hd (revisions (note_rows empty_store))"
  note r = r [OF r_def]
  obtain t where t: "traces note_store = [t]" "t_ID t = 1" by (auto simp: note_contents(7) note_rows_def)
  obtain c where c: "candidate_of note_store r = Some c" "cd_Revision c = 1" "cd_Version c = 1" using t r by (simp add: candidate_of_def)
  obtain u where one: "renormalize_one [] (\<lambda>_. 2) broken_run c note_store = Inr (note_store\<lparr>runs := runs note_store @ [u]\<rparr>)"
    by (simp add: renormalize_one_def revisionFiles_def note_contents c normalizeResult_def Let_def recordRun_def
        validateEvents_def note_result_def note_parts)
  let ?s = "note_store\<lparr>runs := runs note_store @ [u]\<rparr>"
  have "renormalize_from (\<lambda>_. []) (\<lambda>_. 2) broken_run 1 1 ?s = (?s, None)" by (simp add: renormalize_from.simps)
  then have "renormalize_from (\<lambda>_. []) (\<lambda>_. 2) broken_run 0 1 note_store = (?s, None)"
    by (subst renormalize_from.simps) (simp add: r c one)
  then show ?thesis by (auto simp: Renormalize_def r)
qed

theorem Renormalize_handles_all_witness:
  "\<exists>s' u. Renormalize (\<lambda>_. []) (\<lambda>_. 2) broken_run note_store = (s', None) \<and> reachable s' \<and> runs s' = runs note_store @ [u] \<and> nr_Revision u = 1"
proof -
  obtain u where u: "Renormalize (\<lambda>_. []) (\<lambda>_. 2) broken_run note_store = (note_store\<lparr>runs := runs note_store @ [u]\<rparr>, None)"
    using note_renormalized by blast
  from Renormalize_handles_all [OF note_reachable u] u show ?thesis
    by (auto simp: note_contents(7, 8) note_rows_def)
qed

end
