(* ===== verification/Cursor.thy ===== *)
theory Cursor
  imports StructRoundtrip
begin

text \<open>
  Positions between pages, \<open>internal/store/types.go\<close> and \<open>internal/store/read.go\<close>: the structs \<open>cursor\<close> and
  \<open>eventCursor\<close>, their text (JSON in unpadded URL base64 of \<open>encoding/base64\<close>), and the interface \<open>paged\<close> of a
  listing that is read page by page.
\<close>

subsection \<open>\<open>base64.RawURLEncoding\<close>\<close>

definition alphabet :: string where
  "alphabet = ''ABCDEFGHIJKLMNOPQRSTUVWXYZabcdefghijklmnopqrstuvwxyz0123456789-_''"

fun pack :: "nat list \<Rightarrow> nat list" where
  "pack (x # y # z # r) = x div 4 # (x mod 4 * 16 + y div 16) # (y mod 16 * 4 + z div 64) # z mod 64 # pack r"
| "pack [x, y] = [x div 4, x mod 4 * 16 + y div 16, y mod 16 * 4]"
| "pack [x] = [x div 4, x mod 4 * 16]"
| "pack [] = []"

definition EncodeToString :: "string \<Rightarrow> string" where
  "EncodeToString s = map ((!) alphabet) (pack (map of_char s))"

text \<open>Decoding skips line ends, refuses other bytes and a single last digit, and ignores the unused bits of the
  last digit.\<close>

fun unpack :: "nat list \<Rightarrow> nat list option" where
  "unpack (a # b # c # d # r) = map_option (\<lambda>t. (a * 4 + b div 16) # (b mod 16 * 16 + c div 4) # (c mod 4 * 64 + d) # t) (unpack r)"
| "unpack [a, b, c] = Some [a * 4 + b div 16, b mod 16 * 16 + c div 4]"
| "unpack [a, b] = Some [a * 4 + b div 16]"
| "unpack [a] = None"
| "unpack [] = Some []"

definition digit_of :: "char \<Rightarrow> nat option" where
  "digit_of c = map_of (zip alphabet [0..<64]) c"

fun digits :: "string \<Rightarrow> nat list option" where
  "digits [] = Some []"
| "digits (c # s) = (if c = CHR 0x0A \<or> c = CHR 0x0D then digits s
     else case (digit_of c, digits s) of (Some d, Some ds) \<Rightarrow> Some (d # ds) | _ \<Rightarrow> None)"

definition DecodeString :: "string \<Rightarrow> string option" where
  "DecodeString s = map_option (map char_of) (Option.bind (digits s) unpack)"

lemma unpack_pack: "list_all (\<lambda>x. x < 256) xs \<Longrightarrow> unpack (pack xs) = Some xs"
  by (induction xs rule: pack.induct) (auto simp: algebra_simps)

lemma pack_small: "list_all (\<lambda>x. x < 256) xs \<Longrightarrow> list_all (\<lambda>x. x < 64) (pack xs)"
  by (induction xs rule: pack.induct) auto

lemma alphabet_digits:
  "list_all (\<lambda>d. alphabet ! d \<noteq> CHR 0x0A \<and> alphabet ! d \<noteq> CHR 0x0D \<and> digit_of (alphabet ! d) = Some d) [0..<64]"
  by code_simp

lemma digits_alphabet: "list_all (\<lambda>x. x < 64) ds \<Longrightarrow> digits (map ((!) alphabet) ds) = Some ds"
  using alphabet_digits by (induction ds) (auto simp: list_all_iff)

lemma DecodeString_Encode: "DecodeString (EncodeToString s) = Some s"
proof -
  have bytes: "list_all (\<lambda>x. x < 256) (map of_char s :: nat list)" by (simp add: list_all_iff)
  then have "digits (map ((!) alphabet) (pack (map of_char s))) = Some (pack (map of_char s))"
    by (intro digits_alphabet pack_small)
  with unpack_pack [OF bytes] show ?thesis by (simp add: DecodeString_def EncodeToString_def comp_def)
qed

lemma EncodeToString_alphabet: "set (EncodeToString s) \<subseteq> set alphabet"
proof -
  have "list_all (\<lambda>x. x < 64) (pack (map of_char s))" by (rule pack_small) (simp add: list_all_iff)
  moreover have "length alphabet = 64" by (simp add: alphabet_def)
  ultimately show ?thesis by (auto simp: EncodeToString_def list_all_iff)
qed

lemma EncodeToString_Nil: "EncodeToString s = [] \<longleftrightarrow> s = []"
  by (cases "map of_char s :: nat list" rule: pack.cases) (auto simp: EncodeToString_def)

subsection \<open>Cursors\<close>

record cursor =
  cu_Last :: int
  cu_Max :: int

record eventCursor =
  ec_MaxID :: int
  ec_Time :: string
  ec_Key :: string
  ec_ID :: int

definition cursor_json :: "cursor \<Rightarrow> json" where
  "cursor_json c = JObj (int_field ''last'' (cu_Last c) @ int_field ''max'' (cu_Max c))"

definition event_cursor_json :: "eventCursor \<Rightarrow> json" where
  "event_cursor_json c = JObj (int_field ''max_id'' (ec_MaxID c) @ str_field ''time'' (ec_Time c) @ str_field ''key'' (ec_Key c)
     @ int_field ''id'' (ec_ID c))"

definition encodeCursor :: "cursor \<Rightarrow> string" where
  "encodeCursor c = EncodeToString (Marshal (cursor_json c))"

definition encodeEventCursor :: "eventCursor \<Rightarrow> string" where
  "encodeEventCursor c = EncodeToString (Marshal (event_cursor_json c))"

definition decode_cursor :: "json \<Rightarrow> cursor option" where
  "decode_cursor j =
     (if \<not> is_struct j then None
      else case (dec_int j ''last'', dec_int j ''max'') of
        (Some l, Some m) \<Rightarrow> Some \<lparr>cu_Last = l, cu_Max = m\<rparr>
      | _ \<Rightarrow> None)"

definition decode_event_cursor :: "json \<Rightarrow> eventCursor option" where
  "decode_event_cursor j =
     (if \<not> is_struct j then None
      else case (dec_int j ''max_id'', dec_str j ''time'', dec_str j ''key'', dec_int j ''id'') of
        (Some m, Some t, Some k, Some i) \<Rightarrow> Some \<lparr>ec_MaxID = m, ec_Time = t, ec_Key = k, ec_ID = i\<rparr>
      | _ \<Rightarrow> None)"

definition ErrInvalidQuery :: string where "ErrInvalidQuery = ''invalid search query''"

definition invalid_cursor :: string where "invalid_cursor = ErrInvalidQuery @ '': invalid cursor''"

text \<open>\<open>decodeCursor\<close> and \<open>decodeEventCursor\<close>; the largest id comes from the query the caller names.\<close>

definition decodeCursor :: "int \<Rightarrow> string \<Rightarrow> cursor result" where
  "decodeCursor maximum encoded =
     (if encoded \<noteq> []
      then case Option.bind (Option.bind (DecodeString encoded) parse_text) decode_cursor of
          Some c \<Rightarrow> if cu_Last c \<le> 0 \<or> cu_Max c \<le> 0 then Inl invalid_cursor else Inr c
        | None \<Rightarrow> Inl invalid_cursor
      else Inr \<lparr>cu_Last = maximum + 1, cu_Max = maximum\<rparr>)"

definition decodeEventCursor :: "int \<Rightarrow> string \<Rightarrow> eventCursor result" where
  "decodeEventCursor maximum encoded =
     (if encoded \<noteq> []
      then case Option.bind (Option.bind (DecodeString encoded) parse_text) decode_event_cursor of
          Some c \<Rightarrow> if ec_MaxID c \<le> 0 \<or> ec_ID c < 0 then Inl invalid_cursor else Inr c
        | None \<Rightarrow> Inl invalid_cursor
      else Inr \<lparr>ec_MaxID = maximum, ec_Time = [], ec_Key = [], ec_ID = 0\<rparr>)"

definition valid_cursor :: "cursor \<Rightarrow> bool" where
  "valid_cursor c \<longleftrightarrow> 0 < cu_Last c \<and> cu_Last c < 2 ^ 63 \<and> 0 < cu_Max c \<and> cu_Max c < 2 ^ 63"

definition valid_event_cursor :: "eventCursor \<Rightarrow> bool" where
  "valid_event_cursor c \<longleftrightarrow> 0 < ec_MaxID c \<and> ec_MaxID c < 2 ^ 63 \<and> 0 \<le> ec_ID c \<and> ec_ID c < 2 ^ 63 \<and>
     ValidString (ec_Time c) \<and> ValidString (ec_Key c)"

lemma plain_key_cursor [simp]:
  "plain_key ''last''" "plain_key ''max''" "plain_key ''max_id''" "plain_key ''time''" "plain_key ''key''"
  by (simp_all add: plain_key_def upper_ascii_def less_eq_char_def)

lemma cursor_canon:
  assumes "valid_cursor c"
  shows "decode_cursor (canon (cursor_json c)) = Some c" "wf_json (cursor_json c) \<and> depth (cursor_json c) \<le> 1"
proof -
  have i: "int64 (cu_Last c)" "int64 (cu_Max c)" using assms by (auto simp: valid_cursor_def int64_def)
  have "get_field (canon (cursor_json c)) ''last'' = jint (cu_Last c)" "get_field (canon (cursor_json c)) ''max'' = jint (cu_Max c)"
    using i by (simp_all add: cursor_json_def field_defs get_field_canon del: canon.simps(2))
  then have "dec_int (canon (cursor_json c)) ''last'' = Some (cu_Last c)" "dec_int (canon (cursor_json c)) ''max'' = Some (cu_Max c)"
    using i by (auto intro: dec_jint)
  moreover have "is_struct (canon (cursor_json c))" by (simp add: cursor_json_def del: canon.simps(2))
  ultimately show "decode_cursor (canon (cursor_json c)) = Some c" by (simp add: decode_cursor_def)
  show "wf_json (cursor_json c) \<and> depth (cursor_json c) \<le> 1"
    unfolding cursor_json_def One_nat_def using i by (intro wf_fields_obj) (simp add: wf_fields_simps)
qed

lemma event_cursor_canon:
  assumes "valid_event_cursor c"
  shows "decode_event_cursor (canon (event_cursor_json c)) = Some c" "wf_json (event_cursor_json c) \<and> depth (event_cursor_json c) \<le> 1"
proof -
  define j where "j = canon (event_cursor_json c)"
  have i: "int64 (ec_MaxID c)" "int64 (ec_ID c)" using assms by (auto simp: valid_event_cursor_def int64_def)
  have "get_field j ''max_id'' = jint (ec_MaxID c)" "get_field j ''id'' = jint (ec_ID c)"
    using i by (simp_all add: j_def event_cursor_json_def field_defs get_field_canon del: canon.simps(2))
  then have "dec_int j ''max_id'' = Some (ec_MaxID c)" "dec_int j ''id'' = Some (ec_ID c)" using i by (auto intro: dec_jint)
  moreover have "dec_str j ''time'' = Some (ec_Time c)" "dec_str j ''key'' = Some (ec_Key c)"
    by (simp_all add: j_def event_cursor_json_def field_defs get_field_canon dec_str_def del: canon.simps(2))
  moreover have "is_struct j" by (simp add: j_def event_cursor_json_def del: canon.simps(2))
  ultimately show "decode_event_cursor (canon (event_cursor_json c)) = Some c" unfolding j_def [symmetric] by (simp add: decode_event_cursor_def)
  show "wf_json (event_cursor_json c) \<and> depth (event_cursor_json c) \<le> 1"
    unfolding event_cursor_json_def One_nat_def using i assms
    by (intro wf_fields_obj) (simp add: wf_fields_simps valid_event_cursor_def)
qed

lemma Marshal_nonempty: "Marshal (JObj m) \<noteq> []"
  by simp

lemma decodeCursor_encode: "valid_cursor c \<Longrightarrow> encodeCursor c \<noteq> [] \<and> decodeCursor maximum (encodeCursor c) = Inr c"
  using cursor_canon [of c] parse_text_encode(1) [of "cursor_json c" True]
  by (auto simp: encodeCursor_def decodeCursor_def EncodeToString_Nil DecodeString_Encode valid_cursor_def max_depth_def cursor_json_def
      simp del: wf_json.simps depth.simps canon.simps)

lemma decodeEventCursor_encode:
  "valid_event_cursor c \<Longrightarrow> encodeEventCursor c \<noteq> [] \<and> decodeEventCursor maximum (encodeEventCursor c) = Inr c"
  using event_cursor_canon [of c] parse_text_encode(1) [of "event_cursor_json c" True]
  by (auto simp: encodeEventCursor_def decodeEventCursor_def EncodeToString_Nil DecodeString_Encode valid_event_cursor_def max_depth_def
      event_cursor_json_def simp del: wf_json.simps depth.simps canon.simps)

definition pageLimit :: "int \<Rightarrow> nat" where
  "pageLimit limit = (if limit \<le> 0 then 50 else nat (min limit 200))"

lemma pageLimit_bounds: "0 < pageLimit limit \<and> pageLimit limit \<le> 200"
  by (auto simp: pageLimit_def)

subsection \<open>Listings read by pages\<close>

text \<open>Scanning the rows of a query: the first error ends it.\<close>

fun map_result :: "('a \<Rightarrow> 'b result) \<Rightarrow> 'a list \<Rightarrow> 'b list result" where
  "map_result f [] = Inr []"
| "map_result f (x # xs) = bind_result (f x) (\<lambda>y. bind_result (map_result f xs) (\<lambda>ys. Inr (y # ys)))"

lemma map_result_take: "map_result f xs = Inr ys \<Longrightarrow> length ys = length xs \<and> map_result f (take n xs) = Inr (take n ys)"
proof (induction f xs arbitrary: ys n rule: map_result.induct)
  case (2 f x xs)
  then show ?case by (cases n) (auto simp: bind_result_Inr_iff)
qed simp

lemma map_result_append: "map_result f (xs @ ys) = bind_result (map_result f xs) (\<lambda>us. bind_result (map_result f ys) (\<lambda>vs. Inr (us @ vs)))"
  by (induction xs) (auto simp: bind_result_def split: sum.split)

lemma map_result_all: "(\<And>x. x \<in> set xs \<Longrightarrow> \<exists>y. f x = Inr y) \<Longrightarrow> \<exists>ys. map_result f xs = Inr ys"
proof (induction xs)
  case (Cons x xs)
  then obtain y ys where "f x = Inr y" "map_result f xs = Inr ys" by (meson list.set_intros)
  then show ?case by simp
qed simp

text \<open>A reader that asks for the next page, which is its items and the next cursor, while there is one.\<close>

fun read_all :: "(string \<Rightarrow> ('v list \<times> string) result) \<Rightarrow> nat \<Rightarrow> string \<Rightarrow> 'v list result" where
  "read_all turn 0 c = Inr []"
| "read_all turn (Suc n) c = bind_result (turn c) (\<lambda>(xs, c').
     if c' = [] then Inr xs else bind_result (read_all turn n c') (\<lambda>ys. Inr (xs @ ys)))"

text \<open>What a listing rests on: the rows of a state not yet read at a position, and the position after a row.\<close>

locale paged =
  fixes good :: "'s \<Rightarrow> bool" and rest :: "'s \<Rightarrow> 'p \<Rightarrow> 'r list" and after :: "'p \<Rightarrow> 'r \<Rightarrow> 'p"
  assumes rest_after: "good s \<Longrightarrow> k < length (rest s p) \<Longrightarrow> rest s (after p (rest s p ! k)) = drop (Suc k) (rest s p)"
begin

text \<open>If every page shows the next rows, and its cursor stands for the position after the last of them, a reader gets
  every row once, in order, in as many pages as it takes.\<close>

lemma reads_all:
  assumes good: "good s" and k: "0 < k"
    and turn: "\<And>c p. decode c = Inr p \<Longrightarrow> fits p \<Longrightarrow> \<exists>xs c'. turn c = Inr (xs, c') \<and> map_result view (take k (rest s p)) = Inr xs \<and>
      (if length (rest s p) \<le> k then c' = []
       else c' \<noteq> [] \<and> decode c' = Inr (after p (rest s p ! (k - 1))) \<and> fits (after p (rest s p ! (k - 1))))"
  shows "decode c = Inr p \<Longrightarrow> fits p \<Longrightarrow> length (rest s p) < n \<Longrightarrow>
    \<exists>xs. read_all turn n c = Inr xs \<and> map_result view (rest s p) = Inr xs"
proof (induction n arbitrary: c p)
  case (Suc n)
  from turn [OF Suc.prems(1,2)] obtain xs c' where
    t: "turn c = Inr (xs, c')" "map_result view (take k (rest s p)) = Inr xs"
    and n: "if length (rest s p) \<le> k then c' = []
       else c' \<noteq> [] \<and> decode c' = Inr (after p (rest s p ! (k - 1))) \<and> fits (after p (rest s p ! (k - 1)))" by blast
  show ?case
  proof (cases "length (rest s p) \<le> k")
    case False
    let ?q = "after p (rest s p ! (k - 1))"
    have q: "decode c' = Inr ?q" "fits ?q" "c' \<noteq> []" using n False by simp_all
    have r: "rest s ?q = drop k (rest s p)" using rest_after [OF good, of "k - 1" p] False k by simp
    then have "length (rest s ?q) < n" using Suc.prems(3) False k by simp
    with Suc.IH [OF q(1,2)] r obtain ys where
      "read_all turn n c' = Inr ys" "map_result view (drop k (rest s p)) = Inr ys" by auto
    moreover have "map_result view (rest s p) = Inr (xs @ ys)"
      using map_result_append [of view "take k (rest s p)" "drop k (rest s p)"] t(2) calculation(2) by simp
    ultimately show ?thesis using t q(3) by simp
  qed (use t n in simp)
qed simp

end

text \<open>Rows in the order of distinct keys: those with a greater key than the k-th are the ones after it.\<close>

lemma keyset_drop:
  fixes key :: "'r \<Rightarrow> 'k :: linorder"
  assumes "distinct (map key rows)" "sorted (map key rows)" "k < length rows"
  shows "filter (\<lambda>r. key (rows ! k) < key r) rows = drop (Suc k) rows"
proof -
  have s: "sorted_wrt (<) (map key rows)" using assms(1,2) by (simp add: strict_sorted_iff)
  have lt: "key (rows ! i) < key (rows ! j)" if "i < j" "j < length rows" for i j
    using s that by (simp add: sorted_wrt_iff_nth_less)
  have ge: "\<not> key (rows ! k) < key (rows ! i)" if "i < Suc k" for i
    using lt [of i k] assms(3) that by (cases "i = k") (simp_all add: not_less less_imp_le)
  have "filter (\<lambda>r. key (rows ! k) < key r) (take (Suc k) rows) = []"
    using assms(3) by (auto simp: filter_empty_conv in_set_conv_nth ge)
  moreover have "filter (\<lambda>r. key (rows ! k) < key r) (drop (Suc k) rows) = drop (Suc k) rows"
    using assms(3) by (auto simp: filter_id_conv in_set_conv_nth intro!: lt)
  ultimately show ?thesis by (metis append_take_drop_id filter_append append_Nil)
qed

text \<open>C23. A cursor survives the query string of a URL: its text has only letters, digits, dash and underscore, and decodes to
  the position it was made from, whatever the largest id is by then.\<close>

theorem cursor_roundtrip:
  assumes "valid_event_cursor e" "valid_cursor c"
  shows "set (encodeEventCursor e) \<union> set (encodeCursor c) \<subseteq> set alphabet \<and>
    decodeEventCursor maximum (encodeEventCursor e) = Inr e \<and> decodeCursor maximum (encodeCursor c) = Inr c"
  using decodeEventCursor_encode [OF assms(1)] decodeCursor_encode [OF assms(2)] EncodeToString_alphabet
  by (auto simp: encodeEventCursor_def encodeCursor_def)

theorem cursor_roundtrip_witness:
  "decodeEventCursor 0 (encodeEventCursor \<lparr>ec_MaxID = 9, ec_Time = ''2026-01-02'', ec_Key = ''k'', ec_ID = 3\<rparr>) =
     Inr \<lparr>ec_MaxID = 9, ec_Time = ''2026-01-02'', ec_Key = ''k'', ec_ID = 3\<rparr> \<and>
   decodeCursor 7 (encodeCursor \<lparr>cu_Last = 5, cu_Max = 9\<rparr>) = Inr \<lparr>cu_Last = 5, cu_Max = 9\<rparr>"
proof -
  have "valid_event_cursor \<lparr>ec_MaxID = 9, ec_Time = ''2026-01-02'', ec_Key = ''k'', ec_ID = 3\<rparr>"
    by (simp add: valid_event_cursor_def ascii_ValidString)
  moreover have "valid_cursor \<lparr>cu_Last = 5, cu_Max = 9\<rparr>" by (simp add: valid_cursor_def)
  ultimately show ?thesis
    using cursor_roundtrip [of "\<lparr>ec_MaxID = 9, ec_Time = ''2026-01-02'', ec_Key = ''k'', ec_ID = 3\<rparr>" "\<lparr>cu_Last = 5, cu_Max = 9\<rparr>" 0]
      cursor_roundtrip [of "\<lparr>ec_MaxID = 9, ec_Time = ''2026-01-02'', ec_Key = ''k'', ec_ID = 3\<rparr>" "\<lparr>cu_Last = 5, cu_Max = 9\<rparr>" 7] by simp
qed

end
