(* ===== verification/StoreRead.thy ===== *)
theory StoreRead
  imports Cursor StoreTitles
begin

text \<open>
  What the store tells its readers, \<open>internal/store/read.go\<close>: traces with their revisions and relatives, the events of
  a trace page by page, the sources of an event and of a revision, the log of imports and the machines.  A query is a
  comprehension over the tables; a join on a primary key has at most one row.
\<close>

subsection \<open>Records\<close>

record TraceRef =
  tf_ID :: int
  tf_NativeTraceID :: string
  tf_Title :: string

record Revision =
  rv_ID :: int
  rv_Digest :: string
  rv_NativeUpdatedAt :: string
  rv_CollectedAt :: string
  rv_Adapter :: string
  rv_Status :: string
  rv_NormalizerVersion :: int
  rv_Diagnostics :: "Warning list"

record Trace =
  td_ID :: int
  td_Harness :: string
  td_NativeTraceID :: string
  td_Title :: string
  td_NativeTitle :: string
  td_TitleOverride :: string
  td_GeneratedTitle :: string
  td_WorkingDirectory :: string
  td_Repository :: string
  td_ParentNativeTraceID :: string
  td_CreatedAt :: string
  td_UpdatedAt :: string
  td_Revisions :: "Revision list"
  td_Parents :: "TraceRef list"
  td_Children :: "TraceRef list"

record PageEvent =
  pe_Event :: Event
  pe_ObservationCount :: int
  pe_RevisionID :: int
  pe_Aliases :: "string list"

record EventPage =
  ep_Events :: "PageEvent list"
  ep_NextCursor :: string

record EventSource =
  es_ObservationID :: int
  es_RevisionID :: int
  es_RevisionDigest :: string
  es_Path :: string
  es_Line :: int
  es_ObjectDigest :: string
  es_Size :: int
  es_Event :: Event

record SourceObject =
  sb_RevisionID :: int
  sb_Path :: string
  sb_Digest :: string
  sb_Size :: int

record ImportPage =
  ip_Imports :: "ImportSummary list"
  ip_NextCursor :: string

subsection \<open>Traces\<close>

definition trace_named :: "Store \<Rightarrow> string \<Rightarrow> string \<Rightarrow> TraceRow option" where
  "trace_named s harness nativeID = find (\<lambda>t. t_Harness t = harness \<and> t_NativeTraceID t = nativeID) (traces s)"

definition TraceID :: "Store \<Rightarrow> string \<Rightarrow> string \<Rightarrow> int result" where
  "TraceID s harness nativeID = found (map_option t_ID (trace_named s harness nativeID))"

definition requireTrace :: "Store \<Rightarrow> int \<Rightarrow> unit result" where
  "requireTrace s i = (if list_ex (\<lambda>t. t_ID t = i) (traces s) then Inr () else Inl no_rows)"

definition trace_ref :: "TraceRow \<Rightarrow> TraceRef" where
  "trace_ref t = \<lparr>tf_ID = t_ID t, tf_NativeTraceID = t_NativeTraceID t, tf_Title = displayTitle t\<rparr>"

definition revision_info :: "Store \<Rightarrow> RevisionRow \<Rightarrow> Revision" where
  "revision_info s r =
     \<lparr>rv_ID = v_ID r, rv_Digest = v_Digest r, rv_NativeUpdatedAt = v_NativeUpdatedAt r, rv_CollectedAt = v_CollectedAt r,
      rv_Adapter = v_Adapter r, rv_Status = v_Status r, rv_NormalizerVersion = v_Version r,
      rv_Diagnostics = (case best nr_ID (filter (\<lambda>n. nr_Revision n = v_ID r) (runs s)) of
         None \<Rightarrow> [] | Some n \<Rightarrow> nr_Diagnostics n)\<rparr>"

definition getTrace :: "Store \<Rightarrow> int \<Rightarrow> Trace result" where
  "getTrace s i =
     bind_result (found (find (\<lambda>t. t_ID t = i) (traces s))) (\<lambda>t. Inr
       \<lparr>td_ID = t_ID t, td_Harness = t_Harness t, td_NativeTraceID = t_NativeTraceID t, td_Title = displayTitle t,
        td_NativeTitle = t_Title t, td_TitleOverride = t_TitleOverride t, td_GeneratedTitle = t_GeneratedTitle t,
        td_WorkingDirectory = t_WorkingDirectory t, td_Repository = r_Remote (trace_repository s t),
        td_ParentNativeTraceID = t_ParentNativeTraceID t, td_CreatedAt = t_CreatedAt t, td_UpdatedAt = t_UpdatedAt t,
        td_Revisions = map (revision_info s) (rev (sort_key v_ID (filter (\<lambda>r. v_Trace r = i) (revisions s)))),
        td_Parents = (if t_ParentNativeTraceID t = [] then []
           else case trace_named s (t_Harness t) (t_ParentNativeTraceID t) of None \<Rightarrow> [] | Some p \<Rightarrow> [trace_ref p]),
        td_Children = map trace_ref (sort_key t_ID
           (filter (\<lambda>c. t_Harness c = t_Harness t \<and> t_ParentNativeTraceID c = t_NativeTraceID t) (traces s)))\<rparr>)"

subsection \<open>Events by page\<close>

text \<open>The events of a trace joined with their preferred observations, and the order they are listed in.\<close>

definition preferred_row :: "Store \<Rightarrow> EventRow \<Rightarrow> ObservationRow option" where
  "preferred_row s e = Option.bind (ev_Preferred e) (\<lambda>i. find (\<lambda>q. ob_ID q = i) (observations s))"

definition event_rows :: "Store \<Rightarrow> int \<Rightarrow> (EventRow \<times> ObservationRow) list" where
  "event_rows s traceID =
     List.map_filter (\<lambda>e. map_option (Pair e) (preferred_row s e)) (filter (\<lambda>e. ev_Trace e = traceID) (events s))"

definition event_key :: "EventRow \<times> 'a \<Rightarrow> string \<times> string \<times> int" where
  "event_key r = (ev_SortTime (fst r), ev_SortKey (fst r), ev_ID (fst r))"

definition from_position :: "eventCursor \<Rightarrow> EventRow \<Rightarrow> bool" where
  "from_position p e \<longleftrightarrow> ev_ID e \<le> ec_MaxID p \<and>
     (ev_SortTime e > ec_Time p \<or> ev_SortTime e = ec_Time p \<and> ev_SortKey e > ec_Key p \<or>
      ev_SortTime e = ec_Time p \<and> ev_SortKey e = ec_Key p \<and> ev_ID e \<ge> ec_ID p)"

definition event_rest :: "Store \<times> int \<Rightarrow> eventCursor \<Rightarrow> (EventRow \<times> ObservationRow) list" where
  "event_rest st p = sort_key event_key (filter (\<lambda>r. from_position p (fst r)) (event_rows (fst st) (snd st)))"

definition event_after :: "eventCursor \<Rightarrow> EventRow \<times> 'a \<Rightarrow> eventCursor" where
  "event_after p r = p\<lparr>ec_Time := ev_SortTime (fst r), ec_Key := ev_SortKey (fst r), ec_ID := ev_ID (fst r) + 1\<rparr>"

definition page_event :: "Store \<Rightarrow> int \<Rightarrow> EventRow \<times> ObservationRow \<Rightarrow> PageEvent result" where
  "page_event s traceID r =
     bind_result (unmarshal_event (ob_JSON (snd r))) (\<lambda>event. Inr
       \<lparr>pe_Event = event\<lparr>e_ID := ev_ID (fst r), e_TraceID := traceID\<rparr>,
        pe_ObservationCount = int (length (filter (\<lambda>q. ob_Event q = ev_ID (fst r)) (observations s))),
        pe_RevisionID = 0, pe_Aliases = []\<rparr>)"

definition eventsAt :: "Store \<Rightarrow> int \<Rightarrow> eventCursor \<Rightarrow> int \<Rightarrow> EventPage result" where
  "eventsAt s traceID p limit =
     (let limit = pageLimit limit; rows = take (limit + 1) (event_rest (s, traceID) p)
      in bind_result (map_result (page_event s traceID) rows) (\<lambda>es. Inr
        \<lparr>ep_Events = take limit es,
         ep_NextCursor = (if length es > limit then encodeEventCursor (event_after p (rows ! (limit - 1))) else [])\<rparr>))"

definition max_event :: "Store \<Rightarrow> int \<Rightarrow> int" where
  "max_event s traceID = foldr max (map ev_ID (filter (\<lambda>e. ev_Trace e = traceID) (events s))) 0"

definition Events :: "Store \<Rightarrow> int \<Rightarrow> string \<Rightarrow> int \<Rightarrow> EventPage result" where
  "Events s traceID encoded limit =
     bind_result (requireTrace s traceID) (\<lambda>_.
     bind_result (decodeEventCursor (max_event s traceID) encoded) (\<lambda>p. eventsAt s traceID p limit))"

text \<open>A position at an event named by id or key, also by one it had before the aliases were made.\<close>

definition alias_event :: "Store \<Rightarrow> (AliasRow \<Rightarrow> bool) \<Rightarrow> EventRow option" where
  "alias_event s P =
     (case List.map_filter (\<lambda>a. find (\<lambda>e. ev_Trace e = al_Trace a \<and> ev_Key e = al_EventKey a) (events s)) (filter P (aliases s)) of
        [] \<Rightarrow> None | e # _ \<Rightarrow> Some e)"

definition eventPosition :: "Store \<Rightarrow> int \<Rightarrow> (EventRow \<Rightarrow> bool) \<Rightarrow> (AliasRow \<Rightarrow> bool) \<Rightarrow> eventCursor result" where
  "eventPosition s traceID P Q =
     (let e = (case find (\<lambda>e. ev_Trace e = traceID \<and> P e) (events s) of
                 Some e \<Rightarrow> Some e | None \<Rightarrow> alias_event s (\<lambda>a. al_Trace a = traceID \<and> Q a))
      in bind_result (found e) (\<lambda>e. Inr
        \<lparr>ec_MaxID = max_event s traceID, ec_Time = ev_SortTime e, ec_Key = ev_SortKey e, ec_ID = ev_ID e\<rparr>))"

definition EventsFrom :: "Store \<Rightarrow> int \<Rightarrow> int \<Rightarrow> int \<Rightarrow> EventPage result" where
  "EventsFrom s traceID eventID limit =
     bind_result (eventPosition s traceID (\<lambda>e. ev_ID e = eventID) (\<lambda>a. al_LegacyID a = eventID)) (\<lambda>p. eventsAt s traceID p limit)"

definition EventsFromKey :: "Store \<Rightarrow> int \<Rightarrow> string \<Rightarrow> int \<Rightarrow> EventPage result" where
  "EventsFromKey s traceID eventKey limit =
     bind_result (eventPosition s traceID (\<lambda>e. ev_Key e = eventKey) (\<lambda>a. al_LegacyKey a = eventKey)) (\<lambda>p. eventsAt s traceID p limit)"

subsection \<open>Sources\<close>

definition left_join :: "'a list \<Rightarrow> 'a option list" where
  "left_join rows = (if rows = [] then [None] else map Some rows)"

definition source_row :: "Store \<Rightarrow> ObservationRow \<Rightarrow> RevisionRow \<Rightarrow> ObservationSourceRow option \<Rightarrow> EventSource result" where
  "source_row s q r src =
     (let object = Option.bind src (\<lambda>x. find (\<lambda>o'. ro_Revision o' = v_ID r \<and> ro_Path o' = os_Path x) (revision_objects s));
          stored = Option.bind object (\<lambda>o'. find (\<lambda>b. so_Digest b = ro_Digest o') (source_objects s))
      in bind_result (unmarshal_event (ob_JSON q)) (\<lambda>event. Inr
        \<lparr>es_ObservationID = ob_ID q, es_RevisionID = v_ID r, es_RevisionDigest = v_Digest r,
         es_Path = (case src of None \<Rightarrow> [] | Some x \<Rightarrow> os_Path x), es_Line = (case src of None \<Rightarrow> 0 | Some x \<Rightarrow> os_Line x),
         es_ObjectDigest = (case object of None \<Rightarrow> [] | Some o' \<Rightarrow> ro_Digest o'),
         es_Size = (case stored of None \<Rightarrow> 0 | Some b \<Rightarrow> so_Size b), es_Event = event\<rparr>))"

definition source_rows :: "Store \<Rightarrow> int \<Rightarrow> (ObservationRow \<times> RevisionRow \<times> ObservationSourceRow option) list" where
  "source_rows s eventID =
     concat (map (\<lambda>(q, r). map (\<lambda>src. (q, r, src))
       (left_join (filter (\<lambda>x. os_Observation x = ob_ID q \<and> os_Revision x = v_ID r) (observation_sources s))))
     (preferred_rows s eventID))"

definition Sources :: "Store \<Rightarrow> int \<Rightarrow> EventSource list result" where
  "Sources s eventID =
     (let resolved = (case find (\<lambda>e. ev_ID e = eventID) (events s) of
                        Some e \<Rightarrow> Some e | None \<Rightarrow> alias_event s (\<lambda>a. al_LegacyID a = eventID))
      in bind_result (found resolved) (\<lambda>e.
        map_result (\<lambda>(q, r, src). source_row s q r src)
          (sort_key (\<lambda>(q, r, src). (ob_ID q, v_ID r, case src of None \<Rightarrow> -1 | Some x \<Rightarrow> os_Ordinal x)) (source_rows s (ev_ID e)))))"

definition RevisionSources :: "Store \<Rightarrow> int \<Rightarrow> SourceObject list result" where
  "RevisionSources s revisionID =
     (if \<not> list_ex (\<lambda>r. v_ID r = revisionID) (revisions s) then Inl no_rows
      else Inr (sort_key sb_Path (List.map_filter (\<lambda>o'. map_option (\<lambda>b.
        \<lparr>sb_RevisionID = revisionID, sb_Path = ro_Path o', sb_Digest = ro_Digest o', sb_Size = so_Size b\<rparr>)
          (find (\<lambda>b. so_Digest b = ro_Digest o') (source_objects s)))
        (filter (\<lambda>o'. ro_Revision o' = revisionID) (revision_objects s)))))"

definition OpenSource :: "Store \<Rightarrow> int \<Rightarrow> string \<Rightarrow> string result" where
  "OpenSource s revisionID path =
     bind_result (found (Option.bind (find (\<lambda>o'. ro_Revision o' = revisionID \<and> ro_Path o' = path) (revision_objects s))
        (\<lambda>o'. find (\<lambda>b. so_Digest b = ro_Digest o') (source_objects s)))) (\<lambda>b.
       case map_of (objects_dir s) (so_Path b) of
         None \<Rightarrow> Inl ''open: no such file or directory'' | Some content \<Rightarrow> Inr content)"

subsection \<open>Imports and machines\<close>

definition machine_of :: "MachineRow \<Rightarrow> Machine" where
  "machine_of m = \<lparr>m_ID = sm_ID m, m_Hostname = sm_Hostname m, m_OS = sm_OS m, m_Arch = sm_Arch m\<rparr>"

definition import_rows :: "Store \<Rightarrow> (ImportRow \<times> MachineRow) list" where
  "import_rows s = List.map_filter (\<lambda>i. map_option (Pair i) (find (\<lambda>m. sm_ID m = im_Machine i) (machines s))) (imports_table s)"

definition import_rest :: "Store \<Rightarrow> cursor \<Rightarrow> (ImportRow \<times> MachineRow) list" where
  "import_rest s p = sort_key (\<lambda>r. - im_ID (fst r))
     (filter (\<lambda>r. im_ID (fst r) \<le> cu_Max p \<and> im_ID (fst r) < cu_Last p) (import_rows s))"

definition import_after :: "cursor \<Rightarrow> ImportRow \<times> MachineRow \<Rightarrow> cursor" where
  "import_after p r = p\<lparr>cu_Last := im_ID (fst r)\<rparr>"

definition import_summary :: "Store \<Rightarrow> ImportRow \<times> MachineRow \<Rightarrow> ImportSummary" where
  "import_summary s r =
     (case map_of (summaries s) (im_ID (fst r)) of
        Some summary \<Rightarrow> summary\<lparr>is_Complete := True\<rparr>
      | None \<Rightarrow> \<lparr>is_ID = im_ID (fst r), is_CreatedAt = im_CreatedAt (fst r), is_Machine = machine_of (snd r), is_Imported = 0,
          is_Updated = 0, is_Unchanged = 0, is_Partial = 0, is_Unsupported = 0, is_Failed = 0, is_Complete = False\<rparr>)"

definition Imports :: "Store \<Rightarrow> string \<Rightarrow> int \<Rightarrow> ImportPage result" where
  "Imports s encoded limit =
     bind_result (decodeCursor (foldr max (map im_ID (imports_table s)) 0) encoded) (\<lambda>p.
       let limit = pageLimit limit; imports = map (import_summary s) (take (limit + 1) (import_rest s p))
       in Inr \<lparr>ip_Imports = take limit imports,
               ip_NextCursor = (if length imports > limit
                 then encodeCursor \<lparr>cu_Last = is_ID (last (take limit imports)), cu_Max = cu_Max p\<rparr> else [])\<rparr>)"

definition fillOutcomeTitles :: "Store \<Rightarrow> TraceOutcome list \<Rightarrow> TraceOutcome list" where
  "fillOutcomeTitles s outcomes =
     (if filter (\<lambda>out. o_TraceID out \<noteq> 0) outcomes = [] then outcomes
      else map (\<lambda>out. out\<lparr>o_Title :=
        (case find (\<lambda>t. t_ID t = o_TraceID out \<and> o_TraceID out \<noteq> 0) (traces s) of None \<Rightarrow> [] | Some t \<Rightarrow> displayTitle t)\<rparr>) outcomes)"

definition getReport :: "Store \<Rightarrow> int \<Rightarrow> ImportReport result" where
  "getReport s i =
     bind_result (found (find (\<lambda>r. im_ID (fst r) = i) (import_rows s))) (\<lambda>(row, m).
       let report = (case im_Report row of
             None \<Rightarrow> zero_Report\<lparr>ir_ID := im_ID row, ir_CreatedAt := im_CreatedAt row, ir_Machine := machine_of m\<rparr>
           | Some r \<Rightarrow> r\<lparr>ir_Complete := True\<rparr>)
       in Inr (report\<lparr>ir_Traces := fillOutcomeTitles s (ir_Traces report)\<rparr>))"

text \<open>\<open>ORDER BY last_seen DESC, id\<close>.\<close>

definition Machines :: "Store \<Rightarrow> (Machine \<times> string \<times> string) list" where
  "Machines s = map (\<lambda>m. (machine_of m, sm_FirstSeen m, sm_LastSeen m))
     (rev (sort_key sm_LastSeen (rev (sort_key sm_ID (machines s)))))"

end
