(* ===== verification/StoreSearch.thy ===== *)
theory StoreSearch
  imports StoreRead SearchQuery
begin

text \<open>
  Searching, \<open>internal/store/search.go\<close>: checking a query, the three statements that fetch candidates, and the loop that
  collects a page of results.  SQLite's FTS5 and the \<open>regexp\<close> package are parameters (record \<open>Engine\<close>): which contents
  an index matches with a query, and where an expression matches a text.
\<close>

record SearchQuery =
  sq_Query :: string
  sq_Mode :: string
  sq_Harness :: string
  sq_Model :: string
  sq_Machine :: string
  sq_Repository :: string
  sq_After :: string
  sq_Before :: string
  sq_Role :: string
  sq_Kind :: string
  sq_Tool :: string
  sq_Cursor :: string
  sq_Limit :: int

record SearchResult =
  sr_EventID :: int
  sr_TraceID :: int
  sr_TraceTitle :: string
  sr_Harness :: string
  sr_Repository :: string
  sr_Kind :: string
  sr_Role :: string
  sr_Model :: string
  sr_Tool :: string
  sr_Timestamp :: string
  sr_Snippet :: string

record SearchPage =
  sp_Results :: "SearchResult list"
  sp_NextCursor :: string
  sp_Partial :: bool

text \<open>\<open>MATCH\<close> of an index (words or trigrams), its complaint about a query, the regular expressions of the \<open>regexp\<close>
  package with their leftmost match, the search that ignores case, and \<open>index.RegexpQuery\<close>.\<close>

datatype Index = NoIndex | SearchWords | SearchTrigrams

record Engine =
  en_Match :: "Index \<Rightarrow> string \<Rightarrow> string \<Rightarrow> bool"
  en_Error :: "Index \<Rightarrow> string \<Rightarrow> string option"
  en_Compile :: "string \<Rightarrow> Regexp result"
  en_Find :: "Regexp \<Rightarrow> string \<Rightarrow> (nat \<times> nat) option"
  en_FoldFind :: "string \<Rightarrow> string \<Rightarrow> (nat \<times> nat) option"
  en_RegexpQuery :: "Regexp \<Rightarrow> Query"

record preparedSearch =
  ps_query :: SearchQuery
  ps_mode :: string
  ps_expression :: "Regexp option"
  ps_index :: Index
  ps_indexQuery :: string
  ps_broad :: bool
  ps_position :: cursor

subsection \<open>Preparing\<close>

definition midnight :: "int \<times> nat \<times> nat \<Rightarrow> datetime" where
  "midnight d = (case d of (y, mo, da) \<Rightarrow>
     \<lparr>year = y, month = mo, day = da, hour = 0, minute = 0, second = 0, nanos = 0\<rparr>)"

text \<open>The end of the day is a nanosecond before the next midnight.\<close>

definition searchDate :: "string \<Rightarrow> bool \<Rightarrow> string option" where
  "searchDate v endOfDay =
     (if v = [] then Some []
      else case parse_date v of
          Some (d, []) \<Rightarrow> Some (format_canonical (if endOfDay
            then (midnight d)\<lparr>hour := 23, minute := 59, second := 59, nanos := 999999999\<rparr> else midnight d))
        | _ \<Rightarrow> map_option format_canonical (parse_rfc3339 v))"

definition candidateIsBroad :: "Engine \<Rightarrow> Store \<Rightarrow> Index \<Rightarrow> string \<Rightarrow> bool result" where
  "candidateIsBroad en s ix query =
     (case en_Error en ix query of
        Some e \<Rightarrow> Inl e
      | None \<Rightarrow> Inr (length (take 257 (filter (\<lambda>c. en_Match en ix query (c_Content c)) (chunks s))) = 257))"

definition invalid_query :: "string \<Rightarrow> string" where
  "invalid_query why = ErrInvalidQuery @ '': '' @ why"

text \<open>The index a query can use, and the text to ask it for.\<close>

definition search_index :: "Engine \<Rightarrow> string \<Rightarrow> string \<Rightarrow> Regexp option \<Rightarrow> Index \<times> string" where
  "search_index en mode query expression =
     (let trigramQuery = (case expression of
            Some e \<Rightarrow> regexTrigramQuery (en_RegexpQuery en) e
          | None \<Rightarrow> if mode = ''exact'' \<and> trigramCandidate query \<noteq> [] then ftsPhrase (trigramCandidate query) else [])
      in if mode = ''fulltext'' \<and> query \<noteq> [] then (SearchWords, query)
         else if trigramQuery \<noteq> [] then (SearchTrigrams, trigramQuery) else (NoIndex, []))"

definition word_syntax :: "string \<Rightarrow> bool" where
  "word_syntax e \<longleftrightarrow> Contains e ''fts5:'' \<or> Contains e ''unterminated string'' \<or> Contains e ''no such column:''"

definition compile_query :: "Engine \<Rightarrow> string \<Rightarrow> string \<Rightarrow> Regexp option result" where
  "compile_query en mode query =
     (if mode = ''regex'' \<and> query \<noteq> []
      then (case en_Compile en query of Inl e \<Rightarrow> Inl (invalid_query (''invalid regular expression: '' @ e)) | Inr r \<Rightarrow> Inr (Some r))
      else Inr None)"

definition use_index :: "Engine \<Rightarrow> Store \<Rightarrow> preparedSearch \<Rightarrow> preparedSearch result" where
  "use_index en s p =
     (if ps_index p = NoIndex then Inr p
      else case candidateIsBroad en s (ps_index p) (ps_indexQuery p) of
          Inl e \<Rightarrow> Inl (if ps_index p = SearchWords \<and> word_syntax e then invalid_query ''invalid full-text syntax'' else e)
        | Inr broad \<Rightarrow> Inr (p\<lparr>ps_broad := broad\<rparr>))"

definition search_mode :: "SearchQuery \<Rightarrow> string" where
  "search_mode query = (if sq_Mode query = [] then ''fulltext'' else sq_Mode query)"

definition prepareSearch :: "Engine \<Rightarrow> Store \<Rightarrow> SearchQuery \<Rightarrow> preparedSearch result" where
  "prepareSearch en s query =
     (let mode = search_mode query
      in if mode \<noteq> ''fulltext'' \<and> mode \<noteq> ''exact'' \<and> mode \<noteq> ''regex''
         then Inl (invalid_query ''mode must be fulltext, exact, or regex'')
         else case searchDate (sq_After query) False of
           None \<Rightarrow> Inl (invalid_query ''after must be YYYY-MM-DD or an RFC 3339 timestamp'')
         | Some after \<Rightarrow>
           (case searchDate (sq_Before query) True of
              None \<Rightarrow> Inl (invalid_query ''before must be YYYY-MM-DD or an RFC 3339 timestamp'')
            | Some before \<Rightarrow>
              bind_result (compile_query en mode (sq_Query query)) (\<lambda>expression.
              bind_result (decodeCursor (foldr max (map ev_ID (events s)) 0) (sq_Cursor query)) (\<lambda>position.
                use_index en s \<lparr>ps_query = query\<lparr>sq_After := after, sq_Before := before\<rparr>, ps_mode = mode, ps_expression = expression,
                  ps_index = fst (search_index en mode (sq_Query query) expression),
                  ps_indexQuery = snd (search_index en mode (sq_Query query) expression), ps_broad = False, ps_position = position\<rparr>))))"

subsection \<open>Statements\<close>

text \<open>A row of the joins: an event with its trace, one of its observations, a link of it and the linked revision.\<close>

datatype Hit = Hit (h_event: EventRow) (h_trace: TraceRow) (h_observation: ObservationRow) (h_link: ObservationRevisionRow)
  (h_revision: RevisionRow)

definition hit_event :: "Hit \<Rightarrow> int" where "hit_event h = ev_ID (h_event h)"

definition trace_of :: "Store \<Rightarrow> EventRow \<Rightarrow> TraceRow option" where
  "trace_of s e = find (\<lambda>t. t_ID t = ev_Trace e) (traces s)"

definition revision_of :: "Store \<Rightarrow> int \<Rightarrow> RevisionRow option" where
  "revision_of s i = find (\<lambda>r. v_ID r = i) (revisions s)"

definition event_hits :: "Store \<Rightarrow> EventRow \<Rightarrow> Hit list" where
  "event_hits s e =
     (case trace_of s e of None \<Rightarrow> [] | Some t \<Rightarrow>
        concat (map (\<lambda>q. List.map_filter (\<lambda>x. map_option (Hit e t q x) (revision_of s (or_Revision x)))
            (filter (\<lambda>x. or_Observation x = ob_ID q) (observation_revisions s)))
          (filter (\<lambda>q. ob_Event q = ev_ID e) (observations s))))"

definition chunk_hits :: "Store \<Rightarrow> ChunkRow \<Rightarrow> Hit list" where
  "chunk_hits s c =
     (case (find (\<lambda>e. ev_ID e = c_Event c) (events s), find (\<lambda>q. ob_ID q = c_Observation c) (observations s), revision_of s (c_Revision c)) of
        (Some e, Some q, Some r) \<Rightarrow>
          (case trace_of s e of None \<Rightarrow> [] | Some t \<Rightarrow> map (\<lambda>x. Hit e t q x r)
             (filter (\<lambda>x. or_Observation x = c_Observation c \<and> or_Revision x = c_Revision c) (observation_revisions s)))
      | _ \<Rightarrow> [])"

text \<open>A filter that is not set holds.\<close>

definition wanted :: "string \<Rightarrow> bool \<Rightarrow> bool" where
  "wanted v holds \<longleftrightarrow> v = [] \<or> holds"

definition repository_matches :: "Store \<Rightarrow> TraceRow \<Rightarrow> string \<Rightarrow> bool" where
  "repository_matches s t v =
     (case Option.bind (t_Repository t) (\<lambda>i. find (\<lambda>r. rp_ID r = i) (repositories s)) of
        None \<Rightarrow> False | Some r \<Rightarrow> rp_Remote r = v \<or> (rp_ID r, v) \<in> set (repository_paths s))"

definition trace_filters :: "Store \<Rightarrow> SearchQuery \<Rightarrow> TraceRow \<Rightarrow> bool" where
  "trace_filters s query t \<longleftrightarrow> wanted (sq_Harness query) (t_Harness t = sq_Harness query) \<and>
     wanted (sq_Repository query) (repository_matches s t (sq_Repository query))"

definition observation_filters :: "SearchQuery \<Rightarrow> ObservationRow \<Rightarrow> bool" where
  "observation_filters query q \<longleftrightarrow> wanted (sq_Model query) (ob_Model q = sq_Model query) \<and>
     wanted (sq_After query) (sq_After query \<le> ob_Time q) \<and> wanted (sq_Before query) (ob_Time q \<le> sq_Before query) \<and>
     wanted (sq_Role query) (ob_Role q = sq_Role query) \<and> wanted (sq_Kind query) (ob_Kind q = sq_Kind query) \<and>
     wanted (sq_Tool query) (ob_Tool q = sq_Tool query)"

definition machine_filter :: "Store \<Rightarrow> SearchQuery \<Rightarrow> int \<Rightarrow> bool" where
  "machine_filter s query revisionID \<longleftrightarrow> wanted (sq_Machine query) ((revisionID, sq_Machine query) \<in> set (revision_machines s))"

text \<open>\<open>observationSearchFilters\<close>, of a row.\<close>

definition observationSearchFilters :: "Store \<Rightarrow> SearchQuery \<Rightarrow> Hit \<Rightarrow> bool" where
  "observationSearchFilters s query h =
     (observation_filters query (h_observation h) \<and> machine_filter s query (v_ID (h_revision h)))"

text \<open>The columns of a row, and the order of the rows of a statement.\<close>

definition search_row :: "Store \<Rightarrow> Hit \<Rightarrow> SearchResult \<times> string" where
  "search_row s h = (case h of Hit e t q x r \<Rightarrow>
     (\<lparr>sr_EventID = ev_ID e, sr_TraceID = t_ID t, sr_TraceTitle = displayTitle t, sr_Harness = t_Harness t,
       sr_Repository = r_Remote (trace_repository s t), sr_Kind = ob_Kind q, sr_Role = ob_Role q, sr_Model = ob_Model q,
       sr_Tool = ob_Tool q, sr_Timestamp = ob_Time q, sr_Snippet = []\<rparr>, or_Text x))"

definition newest_first :: "Hit list \<Rightarrow> Hit list" where
  "newest_first hs = sort_key (\<lambda>h. (- hit_event h, - ob_ID (h_observation h))) hs"

definition distinct_rows :: "'a list \<Rightarrow> 'a list" where
  "distinct_rows rows = rev (remdups (rev rows))"

definition descending :: "int list \<Rightarrow> int list" where
  "descending ids = rev (sort (remdups ids))"

definition in_range :: "preparedSearch \<Rightarrow> int \<Rightarrow> int \<Rightarrow> bool" where
  "in_range p before i \<longleftrightarrow> i \<le> cu_Max (ps_position p) \<and> i < before"

definition candidates :: "Engine \<Rightarrow> Store \<Rightarrow> preparedSearch \<Rightarrow> ChunkRow list" where
  "candidates en s p = filter (\<lambda>c. en_Match en (ps_index p) (ps_indexQuery p) (c_Content c)) (chunks s)"

definition selectiveSearchStatement :: "Engine \<Rightarrow> Store \<Rightarrow> preparedSearch \<Rightarrow> int \<Rightarrow> (SearchResult \<times> string) list" where
  "selectiveSearchStatement en s p before =
     map (search_row s) (newest_first (filter (\<lambda>h. in_range p before (hit_event h) \<and> trace_filters s (ps_query p) (h_trace h) \<and>
         observationSearchFilters s (ps_query p) h)
       (concat (map (\<lambda>h. map (\<lambda>_. h)
           (filter (\<lambda>c. c_Observation c = ob_ID (h_observation h) \<and> c_Revision c = v_ID (h_revision h)) (candidates en s p)))
         (concat (map (event_hits s) (events s)))))))"

text \<open>The joins the filters of a chunk need are only made for the filters that are set.\<close>

definition chunk_filters :: "Store \<Rightarrow> SearchQuery \<Rightarrow> ChunkRow \<Rightarrow> bool" where
  "chunk_filters s query c \<longleftrightarrow>
     (sq_Harness query = [] \<and> sq_Repository query = [] \<or>
      (case Option.bind (find (\<lambda>e. ev_ID e = c_Event c) (events s)) (trace_of s) of None \<Rightarrow> False | Some t \<Rightarrow> trace_filters s query t)) \<and>
     (list_all (\<lambda>v. v = []) [sq_Model query, sq_After query, sq_Before query, sq_Role query, sq_Kind query, sq_Tool query] \<or>
      (case find (\<lambda>q. ob_ID q = c_Observation c) (observations s) of None \<Rightarrow> False | Some q \<Rightarrow> observation_filters query q)) \<and>
     machine_filter s query (c_Revision c)"

definition candidateFirstSearchStatement :: "Engine \<Rightarrow> Store \<Rightarrow> preparedSearch \<Rightarrow> nat \<Rightarrow> int \<Rightarrow> (SearchResult \<times> string) list" where
  "candidateFirstSearchStatement en s p batchSize before =
     (let batch = take batchSize (descending (map c_Event
            (filter (\<lambda>c. in_range p before (c_Event c) \<and> chunk_filters s (ps_query p) c) (candidates en s p))))
      in distinct_rows (map (search_row s) (newest_first (filter (observationSearchFilters s (ps_query p))
           (concat (map (chunk_hits s) (filter (\<lambda>c. c_Event c \<in> set batch) (candidates en s p))))))))"

definition eventFirstSearchStatement :: "Store \<Rightarrow> preparedSearch \<Rightarrow> nat \<Rightarrow> int \<Rightarrow> (SearchResult \<times> string) list" where
  "eventFirstSearchStatement s p batchSize before =
     (let batch = take batchSize (descending (map ev_ID (filter (\<lambda>e. in_range p before (ev_ID e) \<and>
            (case trace_of s e of None \<Rightarrow> False | Some t \<Rightarrow> trace_filters s (ps_query p) t) \<and>
            list_ex (observationSearchFilters s (ps_query p)) (event_hits s e)) (events s))))
      in distinct_rows (map (search_row s) (newest_first (filter (observationSearchFilters s (ps_query p))
           (concat (map (event_hits s) (filter (\<lambda>e. ev_ID e \<in> set batch) (events s))))))))"

definition searchStatement :: "Engine \<Rightarrow> Store \<Rightarrow> preparedSearch \<Rightarrow> nat \<Rightarrow> int \<Rightarrow> (SearchResult \<times> string) list" where
  "searchStatement en s p batchSize before =
     (if ps_index p = NoIndex then eventFirstSearchStatement s p batchSize before
      else if \<not> ps_broad p then selectiveSearchStatement en s p before
      else candidateFirstSearchStatement en s p batchSize before)"

subsection \<open>Collecting\<close>

definition searchMatches :: "Engine \<Rightarrow> preparedSearch \<Rightarrow> string \<Rightarrow> bool" where
  "searchMatches en p text \<longleftrightarrow> sq_Query (ps_query p) = [] \<or> ps_mode p = ''fulltext'' \<or>
     ps_mode p = ''exact'' \<and> Contains text (sq_Query (ps_query p)) \<or>
     ps_mode p = ''regex'' \<and> (case ps_expression p of None \<Rightarrow> False | Some r \<Rightarrow> en_Find en r text \<noteq> None)"

definition search_snippet :: "Engine \<Rightarrow> preparedSearch \<Rightarrow> string \<Rightarrow> string option" where
  "search_snippet en p text =
     (case ps_expression p of
        Some r \<Rightarrow> (case en_Find en r text of None \<Rightarrow> None | Some (lo, hi) \<Rightarrow> SnippetRange text (int lo) (int hi))
      | None \<Rightarrow> Snippet (en_FoldFind en) text (Trim (sq_Query (ps_query p)) [CHR 0x22]))"

text \<open>The state of the loop over the rows: events counted in the batch, the last event, the results and the events seen.
  A panic of the snippet is an error.\<close>

fun collectSearchBatch :: "Engine \<Rightarrow> preparedSearch \<Rightarrow> nat \<Rightarrow> (SearchResult \<times> string) list \<Rightarrow>
    nat \<times> int \<times> SearchResult list \<times> int list \<Rightarrow> (nat \<times> int \<times> SearchResult list \<times> int list) result" where
  "collectSearchBatch en p limit [] st = Inr st"
| "collectSearchBatch en p limit ((result, text) # rows) (batchEvents, lastEventID, results, seen) =
     (let i = sr_EventID result;
          (batchEvents, lastEventID) = (if i \<noteq> lastEventID then (batchEvents + 1, i) else (batchEvents, lastEventID))
      in if i \<in> set seen \<or> \<not> searchMatches en p text
         then collectSearchBatch en p limit rows (batchEvents, lastEventID, results, seen)
         else case search_snippet en p text of
             None \<Rightarrow> Inl ''runtime error: index out of range''
           | Some snippet \<Rightarrow>
               (let st = (batchEvents, lastEventID, results @ [result\<lparr>sr_Snippet := snippet\<rparr>], i # seen)
                in if length results + 1 > limit then Inr st else collectSearchBatch en p limit rows st))"

text \<open>The loop over the batches.  \<open>expired n\<close> says whether the search budget is used up after the n-th batch; the
  result has the id to go on below when it is.\<close>

partial_function (option) collect_batches :: "Engine \<Rightarrow> Store \<Rightarrow> preparedSearch \<Rightarrow> nat \<Rightarrow> (nat \<Rightarrow> bool) \<Rightarrow> nat \<Rightarrow> int \<Rightarrow> SearchResult list \<Rightarrow>
    int list \<Rightarrow> (SearchResult list \<times> int option) result option" where
  "collect_batches en s p limit expired n before results seen =
     (if length results > limit then Some (Inr (results, None))
      else let batchSize = max 256 (limit * 2)
           in case collectSearchBatch en p limit (searchStatement en s p batchSize before) (0, 0, results, seen) of
                Inl e \<Rightarrow> Some (Inl e)
              | Inr (batchEvents, lastEventID, results, seen) \<Rightarrow>
                  if length results > limit \<or> batchEvents < batchSize then Some (Inr (results, None))
                  else if expired n then Some (Inr (results, Some lastEventID))
                  else collect_batches en s p limit expired (n + 1) lastEventID results seen)"

definition search_page :: "preparedSearch \<Rightarrow> nat \<Rightarrow> SearchResult list \<times> int option \<Rightarrow> SearchPage" where
  "search_page p limit st =
     (case st of
        (results, Some before) \<Rightarrow> \<lparr>sp_Results = results,
          sp_NextCursor = encodeCursor \<lparr>cu_Last = before, cu_Max = cu_Max (ps_position p)\<rparr>, sp_Partial = True\<rparr>
      | (results, None) \<Rightarrow>
          (if length results > limit
           then \<lparr>sp_Results = take limit results, sp_NextCursor = encodeCursor
                  \<lparr>cu_Last = sr_EventID (last (take limit results)), cu_Max = cu_Max (ps_position p)\<rparr>, sp_Partial = False\<rparr>
           else \<lparr>sp_Results = results, sp_NextCursor = [], sp_Partial = False\<rparr>))"

definition collectSearch :: "Engine \<Rightarrow> Store \<Rightarrow> (nat \<Rightarrow> bool) \<Rightarrow> preparedSearch \<Rightarrow> SearchPage result option" where
  "collectSearch en s expired p =
     (let limit = pageLimit (sq_Limit (ps_query p))
      in map_option (\<lambda>r. bind_result r (\<lambda>st. Inr (search_page p limit st)))
           (collect_batches en s p limit expired 0 (cu_Last (ps_position p)) [] []))"

definition Search :: "Engine \<Rightarrow> Store \<Rightarrow> (nat \<Rightarrow> bool) \<Rightarrow> SearchQuery \<Rightarrow> SearchPage result option" where
  "Search en s expired query =
     (case prepareSearch en s query of Inl e \<Rightarrow> Some (Inl e) | Inr p \<Rightarrow> collectSearch en s expired p)"

end
