(* ===== verification/SearchLoop.thy ===== *)
theory SearchLoop
  imports StoreSearch
begin

text \<open>
  The loop that collects a page, on the interface \<open>batched\<close> its statements have to keep: what a statement returns is
  the rows of the newest events below an id, all of them or at least as many as were asked for.
\<close>

subsection \<open>Ids in descending order\<close>

lemma sorted_descending: "sorted_wrt (>) (descending xs)"
  by (simp add: descending_def sorted_wrt_rev strict_sorted_iff)

lemma set_descending [simp]: "set (descending xs) = set xs"
  by (simp add: descending_def)

lemma distinct_descending [simp]: "distinct (descending xs)"
  by (simp add: descending_def)

lemma descending_unique:
  assumes "sorted_wrt (>) xs" "set xs = set ys"
  shows "descending ys = xs"
proof -
  have "sorted_wrt (<) (rev xs)" using assms(1) by (simp add: sorted_wrt_rev)
  moreover have "sorted_wrt (<) (sort (remdups ys))" by (simp add: strict_sorted_iff)
  ultimately have "sort (remdups ys) = rev xs" using assms(2) by (intro strict_sorted_equal) simp_all
  then show ?thesis by (simp add: descending_def)
qed

lemma descending_append:
  assumes "\<And>x y. x \<in> set xs \<Longrightarrow> y \<in> set ys \<Longrightarrow> x > y" "set zs = set xs \<union> set ys"
  shows "descending zs = descending xs @ descending ys"
  by (rule descending_unique) (use assms sorted_descending in \<open>auto simp: sorted_wrt_append\<close>)

lemma descending_last_le: "x \<in> set xs \<Longrightarrow> last (descending xs) \<le> x"
proof -
  assume x: "x \<in> set xs"
  then have "descending xs \<noteq> []" by (metis set_descending empty_iff empty_set)
  then obtain ys l where l: "descending xs = ys @ [l]" by (metis append_butlast_last_id)
  with sorted_descending [of xs] have "\<forall>y \<in> set ys. l < y" by (simp add: sorted_wrt_append)
  moreover have "x \<in> set (ys @ [l])" using x l by (metis set_descending)
  ultimately show ?thesis using l by auto
qed

lemma last_in_descending: "xs \<noteq> [] \<Longrightarrow> last (descending xs) \<in> set xs"
  by (metis set_descending last_in_set empty_set set_empty)

text \<open>The first occurrences of a list that are not in a set.\<close>

fun firsts :: "'a set \<Rightarrow> 'a list \<Rightarrow> 'a list" where
  "firsts S [] = []"
| "firsts S (x # xs) = (if x \<in> S then firsts S xs else x # firsts (insert x S) xs)"

lemma set_firsts: "set (firsts S xs) = set xs - S"
  by (induction S xs rule: firsts.induct) auto

lemma firsts_sorted: "sorted_wrt (\<ge>) (xs :: int list) \<Longrightarrow> sorted_wrt (>) (firsts S xs)"
proof (induction S xs rule: firsts.induct)
  case (2 S x xs)
  have "y \<noteq> x" if "y \<in> set (firsts (insert x S) xs)" for y using that by (simp add: set_firsts)
  with 2 show ?case by (auto simp: set_firsts)
qed simp

lemma firsts_descending: "sorted_wrt (\<ge>) (xs :: int list) \<Longrightarrow> S \<inter> set xs = {} \<Longrightarrow> firsts S xs = descending xs"
  by (rule sym, rule descending_unique) (auto simp: firsts_sorted set_firsts)

lemma adjacent_sorted: "sorted_wrt (\<ge>) (xs :: int list) \<Longrightarrow> sorted_wrt (>) (remdups_adj xs)"
  by (induction xs rule: remdups_adj.induct) auto

lemma adjacent_descending: "sorted_wrt (\<ge>) (xs :: int list) \<Longrightarrow> remdups_adj xs = descending xs"
  by (rule sym, rule descending_unique) (simp_all add: adjacent_sorted)

subsection \<open>The interface\<close>

locale batched =
  fixes good :: "'s \<Rightarrow> bool" and rows :: "'s \<Rightarrow> 'r list" and ident :: "'r \<Rightarrow> int" and stmt :: "'s \<Rightarrow> nat \<Rightarrow> int \<Rightarrow> 'r list"
  assumes stmt_sorted: "good s \<Longrightarrow> sorted_wrt (\<ge>) (map ident (stmt s n b))"
    and stmt_batch: "good s \<Longrightarrow> \<exists>m \<ge> n. set (stmt s n b) =
      {r \<in> set (rows s). ident r \<in> set (take m (descending (map ident (filter (\<lambda>r. ident r < b) (rows s)))))}"
begin

abbreviation below :: "'s \<Rightarrow> int \<Rightarrow> int list" where
  "below s b \<equiv> descending (map ident (filter (\<lambda>r. ident r < b) (rows s)))"

abbreviation hits :: "'s \<Rightarrow> ('r \<Rightarrow> bool) \<Rightarrow> int \<Rightarrow> int list" where
  "hits s P b \<equiv> descending (map ident (filter (\<lambda>r. P r \<and> ident r < b) (rows s)))"

text \<open>A batch that is not full is all there is; a full one is followed by what is below its last event.\<close>

lemma batch_ids:
  assumes "good s"
  obtains m where "n \<le> m" "descending (map ident (stmt s n b)) = take m (below s b)"
    "set (stmt s n b) = {r \<in> set (rows s). ident r \<in> set (take m (below s b))}"
proof -
  obtain m where m: "n \<le> m" "set (stmt s n b) = {r \<in> set (rows s). ident r \<in> set (take m (below s b))}"
    using stmt_batch [OF assms] by blast
  have "descending (map ident (stmt s n b)) = take m (below s b)"
  proof (rule descending_unique)
    show "sorted_wrt (>) (take m (below s b))" by (rule sorted_wrt_take [OF sorted_descending])
    have "set (take m (below s b)) \<subseteq> ident ` set (rows s)"
      using set_take_subset [of m "below s b"] by auto
    then show "set (take m (below s b)) = set (map ident (stmt s n b))" using m(2) by auto
  qed
  with m that show thesis by blast
qed

lemma full_batch:
  fixes b :: int
  assumes "good s" "0 < n"
  defines "D \<equiv> descending (map ident (stmt s n b))"
  shows "length D < n \<Longrightarrow> descending (map ident (filter P (stmt s n b))) = hits s P b"
    and "n \<le> length D \<Longrightarrow> D \<noteq> [] \<and> last D < b \<and> last D \<in> ident ` set (rows s) \<and>
      descending (map ident (filter P (stmt s n b))) @ hits s P (last D) = hits s P b"
proof -
  obtain m where m: "n \<le> m" "D = take m (below s b)" "set (stmt s n b) = {r \<in> set (rows s). ident r \<in> set (take m (below s b))}"
    using batch_ids [OF assms(1)] unfolding D_def by blast
  have in_below: "x \<in> set (below s b) \<longleftrightarrow> x < b \<and> x \<in> ident ` set (rows s)" for x by auto
  have D: "D = take m (below s b)" by (rule m(2))
  show "descending (map ident (filter P (stmt s n b))) = hits s P b" if "length D < n"
  proof -
    have "take m (below s b) = below s b" using that m(1) D by simp
    then have "set (stmt s n b) = {r \<in> set (rows s). ident r < b}" using m(3) by auto
    then show ?thesis by (intro descending_unique [symmetric] sorted_descending) auto
  qed
  show "D \<noteq> [] \<and> last D < b \<and> last D \<in> ident ` set (rows s) \<and>
      descending (map ident (filter P (stmt s n b))) @ hits s P (last D) = hits s P b" if "n \<le> length D"
  proof -
    have ne: "D \<noteq> []" using that assms(2) by auto
    then have l: "last D \<in> set (below s b)" using D by (metis in_set_takeD last_in_set)
    have split: "x \<in> set D \<longleftrightarrow> last D \<le> x" if "x \<in> set (below s b)" for x
    proof -
      have s: "sorted_wrt (>) (D @ drop m (below s b))" using sorted_descending D by simp
      obtain xs where xs: "D = xs @ [last D]" using ne by (metis append_butlast_last_id)
      have "\<forall>y \<in> set xs. last D < y" "\<forall>y \<in> set (drop m (below s b)). y < last D"
        using s by (subst (asm) xs; simp add: sorted_wrt_append)+
      moreover have "x \<in> set D \<or> x \<in> set (drop m (below s b))"
        using that D by (metis append_take_drop_id Un_iff set_append)
      moreover have "x \<in> set D \<longleftrightarrow> x \<in> set xs \<or> x = last D" by (subst xs) auto
      ultimately show ?thesis by auto
    qed
    have rows: "r \<in> set (stmt s n b) \<longleftrightarrow> r \<in> set (rows s) \<and> ident r < b \<and> last D \<le> ident r" for r
      using split [of "ident r"] m(3) D in_set_takeD [of "ident r" m "below s b"] by auto
    have "hits s P b = descending (map ident (filter P (stmt s n b))) @ hits s P (last D)"
    proof (rule descending_append)
      show "x > y" if "x \<in> set (map ident (filter P (stmt s n b)))" "y \<in> set (map ident (filter (\<lambda>r. P r \<and> ident r < last D) (rows s)))" for x y
        using that rows by force
      show "set (map ident (filter (\<lambda>r. P r \<and> ident r < b) (rows s))) =
        set (map ident (filter P (stmt s n b))) \<union> set (map ident (filter (\<lambda>r. P r \<and> ident r < last D) (rows s)))"
        using rows l by force
    qed
    with ne l show ?thesis by auto
  qed
qed

end

end
