(* ===== verification/StoreFound.thy ===== *)
theory StoreFound
  imports SearchLoop StoreProperties
begin

text \<open>
  What a search finds: each of the three statements keeps the contract of a batch, so the pages of a search list the
  events that match once each, the newest first; and the index never hides one.
\<close>

subsection \<open>Rows of the joins\<close>

definition joined :: "Store \<Rightarrow> Hit list" where
  "joined s = concat (map (event_hits s) (events s))"

lemma in_event_hits: "h \<in> set (event_hits s e) \<longleftrightarrow> h_event h = e \<and> trace_of s e = Some (h_trace h) \<and> h_observation h \<in> set (observations s) \<and>
    ob_Event (h_observation h) = ev_ID e \<and> h_link h \<in> set (observation_revisions s) \<and> or_Observation (h_link h) = ob_ID (h_observation h) \<and>
    revision_of s (or_Revision (h_link h)) = Some (h_revision h)"
  by (cases h) (force simp: event_hits_def List.map_filter_def split: option.split)

lemma in_joined: "h \<in> set (joined s) \<longleftrightarrow> h_event h \<in> set (events s) \<and> h \<in> set (event_hits s (h_event h))"
  by (auto simp: joined_def in_event_hits)

definition has_candidate :: "Engine \<Rightarrow> Store \<Rightarrow> preparedSearch \<Rightarrow> Hit \<Rightarrow> bool" where
  "has_candidate en s p h \<longleftrightarrow>
     list_ex (\<lambda>c. c_Observation c = ob_ID (h_observation h) \<and> c_Revision c = v_ID (h_revision h)) (candidates en s p)"

definition qualifies :: "Engine \<Rightarrow> Store \<Rightarrow> preparedSearch \<Rightarrow> Hit \<Rightarrow> bool" where
  "qualifies en s p h \<longleftrightarrow> hit_event h \<le> cu_Max (ps_position p) \<and> trace_filters s (ps_query p) (h_trace h) \<and>
     observationSearchFilters s (ps_query p) h \<and> (ps_index p = NoIndex \<or> has_candidate en s p h)"

definition search_rows :: "Engine \<Rightarrow> Store \<Rightarrow> preparedSearch \<Rightarrow> (SearchResult \<times> string) list" where
  "search_rows en s p = map (search_row s) (filter (qualifies en s p) (joined s))"

definition row_event :: "SearchResult \<times> string \<Rightarrow> int" where "row_event r = sr_EventID (fst r)"

lemma row_event_row [simp]: "row_event (search_row s h) = hit_event h"
  by (cases h) (simp add: row_event_def search_row_def hit_event_def)

text \<open>The keys the joins rely on.\<close>

definition joins_ok :: "Store \<Rightarrow> bool" where
  "joins_ok s \<longleftrightarrow> keys_ok s \<and> links_ok s"

lemma joins_okD:
  assumes "joins_ok s"
  shows "distinct (map ev_ID (events s))" "distinct (map ob_ID (observations s))" "distinct (map v_ID (revisions s))"
    "distinct (map t_ID (traces s))"
  using assms by (auto simp: joins_ok_def keys_ok_def)

lemma same_event:
  assumes "joins_ok s" "h \<in> set (joined s)" "h' \<in> set (joined s)" "hit_event h = hit_event h'"
  shows "h_trace h = h_trace h'"
proof -
  have "h_event h = h_event h'"
    using assms(2-4) joins_okD(1) [OF assms(1)] by (auto simp: in_joined hit_event_def distinct_map inj_on_def)
  then show ?thesis using assms(2,3) by (simp add: in_joined in_event_hits)
qed

subsection \<open>The order of the rows\<close>

lemma sorted_wrt_remdups: "sorted_wrt P xs \<Longrightarrow> sorted_wrt P (remdups xs)"
  by (induction xs) auto

lemma rows_sorted: "sorted_wrt (\<ge>) (map row_event (map (search_row s) (newest_first hs)))"
proof -
  have "sorted (map (\<lambda>h. (- hit_event h, - ob_ID (h_observation h))) (newest_first hs))" by (simp add: newest_first_def)
  then have "sorted_wrt (\<lambda>h h'. hit_event h \<ge> hit_event h') (newest_first hs)"
    unfolding sorted_wrt_map by (rule sorted_wrt_mono_rel [rotated]) (auto simp: less_eq_prod_def)
  then show ?thesis by (simp add: sorted_wrt_map)
qed

lemma set_newest_first [simp]: "set (newest_first hs) = set hs"
  by (simp add: newest_first_def)

lemma set_distinct_rows [simp]: "set (distinct_rows xs) = set xs"
  by (simp add: distinct_rows_def)

lemma distinct_rows_sorted: "sorted_wrt (\<ge>) (map row_event rows) \<Longrightarrow> sorted_wrt (\<ge>) (map row_event (distinct_rows rows))"
  by (simp add: distinct_rows_def sorted_wrt_map sorted_wrt_rev sorted_wrt_remdups)

lemma statement_sorted: "sorted_wrt (\<ge>) (map row_event (searchStatement en s p n b))"
  unfolding searchStatement_def eventFirstSearchStatement_def selectiveSearchStatement_def candidateFirstSearchStatement_def Let_def
  by (simp only: split: if_split) (intro conjI impI distinct_rows_sorted rows_sorted)

subsection \<open>The rows of a batch\<close>

abbreviation rows_below :: "Engine \<Rightarrow> Store \<Rightarrow> preparedSearch \<Rightarrow> int \<Rightarrow> int list" where
  "rows_below en s p b \<equiv> descending (map row_event (filter (\<lambda>r. row_event r < b) (search_rows en s p)))"

lemma set_rows_below: "set (rows_below en s p b) = hit_event ` {h \<in> set (joined s). qualifies en s p h \<and> hit_event h < b}"
  by (simp add: search_rows_def) force

lemma hit_ids: "ev_ID ` {e \<in> set (events s). \<exists>h \<in> set (event_hits s e). Q h} = hit_event ` {h \<in> set (joined s). Q h}"
proof -
  have "(\<exists>e \<in> set (events s). \<exists>h \<in> set (event_hits s e). Q h \<and> i = ev_ID e) \<longleftrightarrow> (\<exists>h \<in> set (joined s). Q h \<and> i = hit_event h)" for i
    by (auto simp: joined_def hit_event_def in_event_hits)
  then show ?thesis by (simp add: set_eq_iff image_iff) blast
qed

text \<open>Two ways to name the same ids give the same batch.\<close>

lemma same_batch: "set ids = set (rows_below en s p b) \<Longrightarrow> take n (descending ids) = take n (rows_below en s p b)"
  by (metis descending_unique set_descending sorted_descending)

lemma batch_rows:
  assumes "joins_ok s" "\<And>h. h \<in> H \<longleftrightarrow> h \<in> set (joined s) \<and> hit_event h \<in> set (take n (rows_below en s p b)) \<and>
      observationSearchFilters s (ps_query p) h \<and> (ps_index p = NoIndex \<or> has_candidate en s p h)"
  shows "search_row s ` H = {r \<in> set (search_rows en s p). row_event r \<in> set (take n (rows_below en s p b))}"
proof -
  have q: "qualifies en s p h" if "h \<in> H" for h
  proof -
    have "hit_event h \<in> set (rows_below en s p b)" "h \<in> set (joined s)" using that assms(2) by (blast dest: in_set_takeD)+
    then obtain h' where h': "h' \<in> set (joined s)" "qualifies en s p h'" "hit_event h = hit_event h'"
      unfolding set_rows_below by blast
    then have "h_trace h = h_trace h'" using same_event [OF assms(1) \<open>h \<in> set (joined s)\<close>] by blast
    with h'(2,3) that assms(2) [of h] show ?thesis by (simp add: qualifies_def)
  qed
  have "h \<in> H \<longleftrightarrow> h \<in> set (joined s) \<and> qualifies en s p h \<and> hit_event h \<in> set (take n (rows_below en s p b))" for h
    using q [of h] assms(2) [of h] qualifies_def [of en s p h] by blast
  then have "H = {h \<in> set (joined s). qualifies en s p h \<and> hit_event h \<in> set (take n (rows_below en s p b))}" by blast
  then show ?thesis by (simp add: search_rows_def) force
qed

lemma eventFirst_batch:
  assumes ok: "joins_ok s" and i: "ps_index p = NoIndex"
  shows "set (eventFirstSearchStatement s p n b) =
    {r \<in> set (search_rows en s p). row_event r \<in> set (take n (rows_below en s p b))}"
proof -
  let ?ids = "map ev_ID (filter (\<lambda>e. in_range p b (ev_ID e) \<and>
      (case trace_of s e of None \<Rightarrow> False | Some t \<Rightarrow> trace_filters s (ps_query p) t) \<and>
      list_ex (observationSearchFilters s (ps_query p)) (event_hits s e)) (events s))"
  have wanted_event: "in_range p b (ev_ID e) \<and>
      (case trace_of s e of None \<Rightarrow> False | Some t \<Rightarrow> trace_filters s (ps_query p) t) \<and>
      list_ex (observationSearchFilters s (ps_query p)) (event_hits s e) \<longleftrightarrow>
      (\<exists>h \<in> set (event_hits s e). qualifies en s p h \<and> hit_event h < b)" for e
    by (auto simp: list_ex_iff in_event_hits qualifies_def i hit_event_def in_range_def)
  have "set ?ids = set (rows_below en s p b)"
    unfolding set_rows_below wanted_event list.set_map set_filter by (rule hit_ids)
  then have batch: "take n (descending ?ids) = take n (rows_below en s p b)" by (rule same_batch)
  show ?thesis
    unfolding eventFirstSearchStatement_def Let_def batch set_distinct_rows list.set_map set_newest_first
    by (rule batch_rows [OF ok]) (auto simp: i joined_def hit_event_def in_event_hits)
qed

text \<open>A chunk belongs to one observation in one revision, of one event.\<close>

lemma chunk_parts:
  assumes "joins_ok s" "c \<in> set (chunks s)"
  obtains e t q r where "find (\<lambda>e. ev_ID e = c_Event c) (events s) = Some e" "trace_of s e = Some t"
    "find (\<lambda>q. ob_ID q = c_Observation c) (observations s) = Some q" "ob_Event q = ev_ID e" "revision_of s (c_Revision c) = Some r"
    "v_ID r = c_Revision c" "ob_ID q = c_Observation c" "(c_Observation c, c_Revision c) \<in> set (link_keys s)" "ev_ID e = c_Event c"
    "e \<in> set (events s)" "q \<in> set (observations s)"
proof -
  have l: "links_ok s" using assms(1) by (simp add: joins_ok_def)
  have k: "(c_Observation c, c_Revision c) \<in> set (link_keys s)" by (rule links_okD(7) [OF l assms(2)])
  obtain q where q: "q \<in> set (observations s)" "ob_ID q = c_Observation c" "ob_Event q = c_Event c"
    using links_okD(8) [OF l assms(2)] by blast
  obtain q' e r where e: "q' \<in> set (observations s)" "e \<in> set (events s)" "r \<in> set (revisions s)" "ob_ID q' = c_Observation c"
      "ob_Event q' = ev_ID e" "v_ID r = c_Revision c" using links_okD(5) [OF l k] by blast
  have "q' = q" using q e(1,4) joins_okD(2) [OF assms(1)] by (auto simp: distinct_map inj_on_def)
  obtain t where t: "trace_of s e = Some t"
    using links_okD(2) [OF l e(2)] find_iff [of "\<lambda>t. t_ID t = ev_Trace e" "traces s"] by (auto simp: trace_of_def)
  have "find (\<lambda>e. ev_ID e = c_Event c) (events s) = Some e" "find (\<lambda>q. ob_ID q = c_Observation c) (observations s) = Some q"
    "revision_of s (c_Revision c) = Some r"
    unfolding revision_of_def using q e \<open>q' = q\<close> by (simp_all add: find_unique joins_okD [OF assms(1)])
  with that [of e t q r] q e t k \<open>q' = q\<close> show thesis by simp
qed

lemma in_chunk_hits:
  assumes "joins_ok s" "c \<in> set (chunks s)"
  shows "h \<in> set (chunk_hits s c) \<longleftrightarrow> h \<in> set (joined s) \<and> c_Observation c = ob_ID (h_observation h) \<and> c_Revision c = v_ID (h_revision h)"
    and "h \<in> set (chunk_hits s c) \<Longrightarrow> hit_event h = c_Event c"
    and "\<exists>h. h \<in> set (chunk_hits s c)"
    and "h \<in> set (chunk_hits s c) \<Longrightarrow> chunk_filters s qy c \<longleftrightarrow> trace_filters s qy (h_trace h) \<and> observationSearchFilters s qy h"
proof -
  obtain e t q r where p: "find (\<lambda>e. ev_ID e = c_Event c) (events s) = Some e" "trace_of s e = Some t"
    "find (\<lambda>q. ob_ID q = c_Observation c) (observations s) = Some q" "ob_Event q = ev_ID e" "revision_of s (c_Revision c) = Some r"
    "v_ID r = c_Revision c" "ob_ID q = c_Observation c" "(c_Observation c, c_Revision c) \<in> set (link_keys s)" "ev_ID e = c_Event c"
    "e \<in> set (events s)" "q \<in> set (observations s)" by (rule chunk_parts [OF assms])
  have hits: "chunk_hits s c = map (\<lambda>x. Hit e t q x r)
      (filter (\<lambda>x. or_Observation x = c_Observation c \<and> or_Revision x = c_Revision c) (observation_revisions s))"
    by (simp add: chunk_hits_def p)
  obtain x where "x \<in> set (observation_revisions s)" "or_Observation x = c_Observation c \<and> or_Revision x = c_Revision c"
    using p(8) unfolding link_keys_def by auto
  then have "Hit e t q x r \<in> set (chunk_hits s c)" by (simp add: hits)
  then show "\<exists>h. h \<in> set (chunk_hits s c)" by blast
  show "h \<in> set (chunk_hits s c) \<longleftrightarrow> h \<in> set (joined s) \<and> c_Observation c = ob_ID (h_observation h) \<and> c_Revision c = v_ID (h_revision h)"
  proof
    assume "h \<in> set (chunk_hits s c)"
    with p show "h \<in> set (joined s) \<and> c_Observation c = ob_ID (h_observation h) \<and> c_Revision c = v_ID (h_revision h)"
      by (auto simp: hits in_joined in_event_hits)
  next
    assume h: "h \<in> set (joined s) \<and> c_Observation c = ob_ID (h_observation h) \<and> c_Revision c = v_ID (h_revision h)"
    have "h_observation h = q" using h p(7,11) joins_okD(2) [OF assms(1)] by (auto simp: in_joined in_event_hits distinct_map inj_on_def)
    moreover from this have "h_event h = e"
      using h p(4,10) joins_okD(1) [OF assms(1)] by (auto simp: in_joined in_event_hits distinct_map inj_on_def)
    moreover have "or_Revision (h_link h) = c_Revision c" "h_revision h = r"
      using h p(5) joins_okD(3) [OF assms(1)] by (auto simp: in_joined in_event_hits revision_of_def find_unique dest: find_SomeD)
        (metis find_unique option.inject)
    ultimately show "h \<in> set (chunk_hits s c)" using h p(2) by (cases h) (auto simp: hits in_joined in_event_hits)
  qed
  show "h \<in> set (chunk_hits s c) \<Longrightarrow> hit_event h = c_Event c" using p(9) by (auto simp: hits hit_event_def)
  have filters: "chunk_filters s qy c \<longleftrightarrow> trace_filters s qy t \<and> observation_filters qy q \<and> machine_filter s qy (c_Revision c)"
    by (auto simp: chunk_filters_def p trace_filters_def observation_filters_def wanted_def)
  show "h \<in> set (chunk_hits s c) \<Longrightarrow> chunk_filters s qy c \<longleftrightarrow> trace_filters s qy (h_trace h) \<and> observationSearchFilters s qy h"
    using p(6) by (auto simp: hits filters observationSearchFilters_def)
qed

lemma candidates_chunks: "c \<in> set (candidates en s p) \<Longrightarrow> c \<in> set (chunks s)"
  by (simp add: candidates_def)

lemma candidate_hits:
  assumes "joins_ok s"
  shows "(\<exists>c \<in> set (candidates en s p). h \<in> set (chunk_hits s c)) \<longleftrightarrow> h \<in> set (joined s) \<and> has_candidate en s p h"
  using in_chunk_hits(1) [OF assms candidates_chunks] by (auto simp: has_candidate_def list_ex_iff)

lemma candidateFirst_batch:
  assumes ok: "joins_ok s" and i: "ps_index p \<noteq> NoIndex"
  shows "set (candidateFirstSearchStatement en s p n b) =
    {r \<in> set (search_rows en s p). row_event r \<in> set (take n (rows_below en s p b))}"
proof -
  note chunk = in_chunk_hits [OF ok candidates_chunks]
  let ?ids = "map c_Event (filter (\<lambda>c. in_range p b (c_Event c) \<and> chunk_filters s (ps_query p) c) (candidates en s p))"
  have "i \<in> set ?ids \<longleftrightarrow> i \<in> set (rows_below en s p b)" for i
  proof
    assume "i \<in> set ?ids"
    then obtain c where c: "c \<in> set (candidates en s p)" "in_range p b (c_Event c)" "chunk_filters s (ps_query p) c" "i = c_Event c" by auto
    from chunk(3) [OF c(1)] obtain h where h: "h \<in> set (chunk_hits s c)" by blast
    have "h \<in> set (joined s)" "has_candidate en s p h" using candidate_hits [OF ok] c(1) h by blast+
    moreover have "hit_event h = i" "trace_filters s (ps_query p) (h_trace h) \<and> observationSearchFilters s (ps_query p) h"
      using chunk(2,4) [OF c(1) h] c(3,4) by simp_all
    ultimately have "h \<in> set (joined s) \<and> qualifies en s p h \<and> hit_event h < b" "i = hit_event h"
      using c(2,4) by (simp_all add: qualifies_def in_range_def)
    then show "i \<in> set (rows_below en s p b)" unfolding set_rows_below by blast
  next
    assume "i \<in> set (rows_below en s p b)"
    then obtain h where h: "h \<in> set (joined s)" "qualifies en s p h" "hit_event h < b" "i = hit_event h" unfolding set_rows_below by blast
    then have "has_candidate en s p h" using i by (simp add: qualifies_def)
    with h(1) candidate_hits [OF ok] obtain c where c: "c \<in> set (candidates en s p)" "h \<in> set (chunk_hits s c)" by blast
    then have "c_Event c = i" "in_range p b (c_Event c)" "chunk_filters s (ps_query p) c"
      using chunk(2,4) [OF c] h by (simp_all add: qualifies_def in_range_def)
    with c(1) show "i \<in> set ?ids" by auto
  qed
  then have batch: "take n (descending ?ids) = take n (rows_below en s p b)" by (intro same_batch) blast
  have "h \<in> set (filter (observationSearchFilters s (ps_query p)) (concat (map (chunk_hits s)
        (filter (\<lambda>c. c_Event c \<in> set (take n (rows_below en s p b))) (candidates en s p))))) \<longleftrightarrow>
      h \<in> set (joined s) \<and> hit_event h \<in> set (take n (rows_below en s p b)) \<and> observationSearchFilters s (ps_query p) h \<and>
      (ps_index p = NoIndex \<or> has_candidate en s p h)" for h
  proof -
    have "(\<exists>c \<in> set (candidates en s p). c_Event c \<in> B \<and> h \<in> set (chunk_hits s c)) \<longleftrightarrow>
      hit_event h \<in> B \<and> (\<exists>c \<in> set (candidates en s p). h \<in> set (chunk_hits s c))" for B
      using chunk(2) by metis
    then show ?thesis using candidate_hits [OF ok, of en p h] i by auto
  qed
  then show ?thesis
    unfolding candidateFirstSearchStatement_def Let_def batch set_distinct_rows list.set_map set_newest_first
    by (intro batch_rows [OF ok])
qed

lemma selective_batch:
  assumes ok: "joins_ok s" and i: "ps_index p \<noteq> NoIndex"
  shows "set (selectiveSearchStatement en s p b) = {r \<in> set (search_rows en s p). row_event r \<in> set (rows_below en s p b)}"
proof -
  have "h \<in> set (filter (\<lambda>h. in_range p b (hit_event h) \<and> trace_filters s (ps_query p) (h_trace h) \<and> observationSearchFilters s (ps_query p) h)
       (concat (map (\<lambda>h. map (\<lambda>_. h)
           (filter (\<lambda>c. c_Observation c = ob_ID (h_observation h) \<and> c_Revision c = v_ID (h_revision h)) (candidates en s p))) (joined s)))) \<longleftrightarrow>
      h \<in> set (joined s) \<and> qualifies en s p h \<and> hit_event h < b" for h
    using i by (auto simp: qualifies_def in_range_def has_candidate_def list_ex_iff)
  then have "set (selectiveSearchStatement en s p b) = search_row s ` {h \<in> set (joined s). qualifies en s p h \<and> hit_event h < b}"
    unfolding selectiveSearchStatement_def joined_def [symmetric] list.set_map set_newest_first by blast
  also have "\<dots> = {r \<in> set (search_rows en s p). row_event r \<in> set (rows_below en s p b)}"
    by (auto simp: search_rows_def)
  finally show ?thesis .
qed

type_synonym search_state = "Engine \<times> Store \<times> preparedSearch"

interpretation search: batched "\<lambda>(en, s, p). joins_ok s" "\<lambda>(en, s, p). search_rows en s p" row_event
  "\<lambda>(en, s, p). searchStatement en s p"
proof (unfold_locales, unfold split_beta)
  fix st :: search_state and n b
  obtain en s p where st: "st = (en, s, p)" by (metis prod_cases3)
  show "sorted_wrt (\<ge>) (map row_event (searchStatement (fst st) (fst (snd st)) (snd (snd st)) n b))" by (rule statement_sorted)
  assume "joins_ok (fst (snd st))"
  then have ok: "joins_ok s" by (simp add: st)
  show "\<exists>m\<ge>n. set (searchStatement (fst st) (fst (snd st)) (snd (snd st)) n b) =
    {r \<in> set (search_rows (fst st) (fst (snd st)) (snd (snd st))). row_event r \<in> set (take m (descending (map row_event
      (filter (\<lambda>r. row_event r < b) (search_rows (fst st) (fst (snd st)) (snd (snd st)))))))}"
  proof (cases "ps_index p \<noteq> NoIndex \<and> \<not> ps_broad p")
    case True
    have "take (max n (length (rows_below en s p b))) (rows_below en s p b) = rows_below en s p b" by simp
    with True selective_batch [OF ok, of p en b] show ?thesis
      by (intro exI [of _ "max n (length (rows_below en s p b))"]) (simp add: st searchStatement_def del: set_descending)
  next
    case False
    with eventFirst_batch [OF ok] candidateFirst_batch [OF ok] show ?thesis
      by (intro exI [of _ n]) (auto simp: st searchStatement_def simp del: set_descending)
  qed
qed

end
