(* ===== verification/StoreListing.thy ===== *)
theory StoreListing
  imports StoreRead StoreProperties
begin

text \<open>
  Reading page by page: whoever follows \<open>next_cursor\<close> gets every event of a trace, and every import, exactly once
  and in order.
\<close>

lemma map_filter_find_keys:
  "map (\<lambda>r. key (fst r)) (List.map_filter (\<lambda>e. map_option (Pair e) (f e)) xs) = map key (filter (\<lambda>e. f e \<noteq> None) xs)"
  by (induction xs) (auto simp: List.map_filter_def)

lemma sort_key_filter: "filter P (sort_key k xs) = sort_key k (filter P xs)"
  by (rule filter_sort)

subsection \<open>The events of a trace\<close>

lemma from_position_key:
  "from_position p (fst r) \<longleftrightarrow> ev_ID (fst r) \<le> ec_MaxID p \<and> (ec_Time p, ec_Key p, ec_ID p) \<le> event_key r"
  by (auto simp: from_position_def event_key_def less_eq_prod_def)

lemma from_after: "from_position (event_after p r') (fst r) \<longleftrightarrow> ev_ID (fst r) \<le> ec_MaxID p \<and> event_key r' < event_key r"
  by (auto simp: from_position_def event_key_def event_after_def less_prod_def)

definition event_ids_ok :: "Store \<times> int \<Rightarrow> bool" where
  "event_ids_ok st \<longleftrightarrow> distinct (map ev_ID (events (fst st)))"

lemma preferred_row_in: "preferred_row s e = Some q \<Longrightarrow> q \<in> set (observations s) \<and> ev_Preferred e = Some (ob_ID q)"
  by (auto simp: preferred_row_def find_Some_iff split: bind_splits)

lemma in_event_rows: "r \<in> set (event_rows s i) \<longleftrightarrow> fst r \<in> set (events s) \<and> ev_Trace (fst r) = i \<and> preferred_row s (fst r) = Some (snd r)"
  by (cases r) (force simp: event_rows_def List.map_filter_def)

lemma event_rows_ids: "map (\<lambda>r. ev_ID (fst r)) (event_rows s i) = map ev_ID (filter (\<lambda>e. preferred_row s e \<noteq> None) (filter (\<lambda>e. ev_Trace e = i) (events s)))"
  unfolding event_rows_def by (rule map_filter_find_keys)

lemma event_keys_distinct:
  assumes "event_ids_ok st"
  shows "distinct (map event_key (event_rest st p))"
proof -
  have "distinct (map (\<lambda>r. ev_ID (fst r)) (event_rows (fst st) (snd st)))"
    unfolding event_rows_ids using assms by (simp add: event_ids_ok_def distinct_map_filter)
  then have "distinct (map (\<lambda>r. ev_ID (fst r)) (event_rest st p))"
    unfolding event_rest_def by (simp add: distinct_map inj_on_def)
  then show ?thesis by (auto simp: distinct_map inj_on_def event_key_def)
qed

lemma event_rest_filter: "event_rest st p = filter (\<lambda>x. from_position p (fst x)) (sort_key event_key (event_rows (fst st) (snd st)))"
  by (simp add: event_rest_def filter_sort)

interpretation event_list: paged event_ids_ok event_rest event_after
proof
  fix st :: "Store \<times> int" and p k
  assume ok: "event_ids_ok st" and k: "k < length (event_rest st p)"
  define r where "r = event_rest st p ! k"
  have "r \<in> set (event_rest st p)" using k by (simp add: r_def)
  then have "from_position p (fst r)" by (simp add: event_rest_def)
  then have "from_position (event_after p r) (fst x) \<longleftrightarrow> event_key r < event_key x \<and> from_position p (fst x)"
    for x :: "EventRow \<times> ObservationRow"
    unfolding from_after unfolding from_position_key by (auto intro: order.trans less_imp_le)
  then have "event_rest st (event_after p r) = filter (\<lambda>x. event_key r < event_key x) (event_rest st p)"
    by (simp add: event_rest_filter conj_commute)
  also have "\<dots> = drop (Suc k) (event_rest st p)"
    unfolding r_def by (rule keyset_drop [OF event_keys_distinct [OF ok] _ k]) (simp add: event_rest_def)
  finally show "event_rest st (event_after p (event_rest st p ! k)) = drop (Suc k) (event_rest st p)" by (simp add: r_def)
qed

subsection \<open>Following the cursors\<close>

definition event_pages :: "Store \<Rightarrow> int \<Rightarrow> int \<Rightarrow> string \<Rightarrow> (PageEvent list \<times> string) result" where
  "event_pages s i limit c = bind_result (Events s i c limit) (\<lambda>p. Inr (ep_Events p, ep_NextCursor p))"

text \<open>One page: the next rows, and a cursor that leads to the rest.\<close>

definition decodable :: "Store \<Rightarrow> bool" where
  "decodable s \<longleftrightarrow> list_all (\<lambda>e. ValidString (ev_SortTime e) \<and> ValidString (ev_SortKey e) \<and> 0 < ev_ID e \<and> ev_ID e < 2 ^ 63 - 1) (events s) \<and>
     list_all (\<lambda>q. isl (unmarshal_event (ob_JSON q)) = False) (observations s)"

lemma page_event_ok:
  assumes "decodable s" "r \<in> set (event_rows s i)"
  shows "\<exists>e. page_event s i r = Inr e"
proof -
  have "snd r \<in> set (observations s)" using assms(2) by (auto simp: in_event_rows dest: preferred_row_in)
  with assms(1) have "\<not> isl (unmarshal_event (ob_JSON (snd r)))" by (auto simp: decodable_def list_all_iff)
  then obtain e where "unmarshal_event (ob_JSON (snd r)) = Inr e" by (cases "unmarshal_event (ob_JSON (snd r))") auto
  then show ?thesis by (simp add: page_event_def)
qed

lemma Events_page:
  assumes "decodable s" "distinct (map ev_ID (events s))" "requireTrace s i = Inr ()"
    and p: "decodeEventCursor (max_event s i) c = Inr p" "ec_MaxID p < 2 ^ 63"
  shows "\<exists>es c'. event_pages s i limit c = Inr (es, c') \<and>
    map_result (page_event s i) (take (pageLimit limit) (event_rest (s, i) p)) = Inr es \<and>
    (if length (event_rest (s, i) p) \<le> pageLimit limit then c' = []
     else c' \<noteq> [] \<and> decodeEventCursor (max_event s i) c' = Inr (event_after p (event_rest (s, i) p ! (pageLimit limit - 1))) \<and>
       ec_MaxID (event_after p (event_rest (s, i) p ! (pageLimit limit - 1))) < 2 ^ 63)"
proof -
  define n where "n = pageLimit limit"
  let ?rest = "event_rest (s, i) p"
  have n: "0 < n" using pageLimit_bounds by (simp add: n_def)
  have "\<exists>es. map_result (page_event s i) (take (n + 1) ?rest) = Inr es"
    by (rule map_result_all, rule page_event_ok [OF assms(1)]) (auto simp: event_rest_def dest!: in_set_takeD)
  then obtain es where es: "map_result (page_event s i) (take (n + 1) ?rest) = Inr es" by blast
  then have len: "length es = min (length ?rest) (n + 1)" and tk: "map_result (page_event s i) (take n ?rest) = Inr (take n es)"
    using map_result_take [OF es, of n] by auto
  let ?q = "event_after p (?rest ! (n - 1))"
  have q: "decodeEventCursor (max_event s i) (encodeEventCursor ?q) = Inr ?q \<and> encodeEventCursor ?q \<noteq> []" if "n < length ?rest"
  proof -
    have "?rest ! (n - 1) \<in> set ?rest" using that by simp
    then have "fst (?rest ! (n - 1)) \<in> set (events s)" "ev_ID (fst (?rest ! (n - 1))) \<le> ec_MaxID p"
      by (simp_all add: event_rest_def in_event_rows from_position_def)
    then have "valid_event_cursor ?q" using assms(1) p(2)
      by (auto simp: decodable_def list_all_iff valid_event_cursor_def event_after_def)
    then show ?thesis using decodeEventCursor_encode by blast
  qed
  have "event_pages s i limit c = Inr (take n es, if n < length ?rest then encodeEventCursor ?q else [])"
    using n len es assms(3) p(1) by (simp add: event_pages_def Events_def eventsAt_def Let_def n_def [symmetric])
  then show ?thesis using tk q p(2) by (auto simp: n_def [symmetric] event_after_def)
qed

lemma map_result_ids: "map_result (page_event s i) rows = Inr es \<Longrightarrow> map (\<lambda>e. e_ID (pe_Event e)) es = map (\<lambda>r. ev_ID (fst r)) rows"
  by (induction rows arbitrary: es) (auto simp: bind_result_Inr_iff page_event_def)

lemma foldr_max_ge: "x \<in> set xs \<Longrightarrow> x \<le> foldr max xs (0 :: int)"
  by (induction xs) auto

lemma foldr_max_less: "list_all (\<lambda>x. x < b) xs \<Longrightarrow> 0 < b \<Longrightarrow> foldr max xs (0 :: int) < b"
  by (induction xs) auto

lemma preferred_there:
  assumes "chain_ok s" "e \<in> set (events s)"
  shows "preferred_row s e \<noteq> None"
proof -
  have "ev_Preferred e = preferred_observation s (ev_ID e)" "preferred_observation s (ev_ID e) \<noteq> None"
    using assms by (auto simp: chain_but_def preferred_but_def)
  then obtain q r where q: "(q, r) \<in> set (preferred_rows s (ev_ID e))" "ev_Preferred e = Some (ob_ID q)"
    by (force simp: preferred_observation_def dest: best_Some)
  then have "q \<in> set (observations s)" by (auto simp: preferred_rows_def)
  then have "find (\<lambda>q'. ob_ID q' = ob_ID q) (observations s) \<noteq> None" unfolding find_None_iff by auto
  then show ?thesis by (simp add: preferred_row_def q(2))
qed

lemma map_insort_key: "map f (insort_key (\<lambda>x. k (f x)) x xs) = insort_key k (f x) (map f xs)"
  by (induction xs) auto

lemma map_sort_key: "map f (sort_key (\<lambda>x. k (f x)) xs) = sort_key k (map f xs)"
  by (induction xs) (simp_all add: map_insort_key)

text \<open>C25. Reading a trace page by page shows each of its events exactly once, in the order of time, key and id, whatever
  the size of the pages: a reader that follows \<open>next_cursor\<close> from the start comes to an end after at most one page for
  every event and one more.\<close>

theorem Events_listed:
  assumes "reachable s" "decodable s" "list_ex (\<lambda>t. t_ID t = i) (traces s)"
  shows "\<exists>es. read_all (event_pages s i limit) (length (events s) + 1) [] = Inr es \<and> map (\<lambda>e. e_ID (pe_Event e)) es =
    map ev_ID (sort_key (\<lambda>e. (ev_SortTime e, ev_SortKey e, ev_ID e)) (filter (\<lambda>e. ev_Trace e = i) (events s)))"
proof -
  note ok = chain.always [OF assms(1)]
  then have ids: "distinct (map ev_ID (events s))" by (simp add: chain_but_def keys_ok_def)
  define p where "p = \<lparr>ec_MaxID = max_event s i, ec_Time = [], ec_Key = [], ec_ID = 0\<rparr>"
  let ?es = "filter (\<lambda>e. ev_Trace e = i) (events s)"
  have max: "max_event s i < 2 ^ 63" unfolding max_event_def using assms(2)
    by (intro foldr_max_less) (auto simp: decodable_def list_all_iff)
  have rows: "map fst (event_rows s i) = ?es"
    unfolding event_rows_def using preferred_there [OF ok] 
    by (subst map_filter_find_keys [where key = "\<lambda>e. e", simplified]) (auto intro: filter_cong)
  have nil: "[] < t \<longleftrightarrow> t \<noteq> []" for t :: string by (cases t) auto
  have "from_position p (fst r)" if "r \<in> set (event_rows s i)" for r
  proof -
    have "fst r \<in> set ?es" using that rows by (metis image_eqI list.set_map)
    then have "ev_ID (fst r) \<le> max_event s i" unfolding max_event_def by (intro foldr_max_ge) auto
    moreover have "0 < ev_ID (fst r)" using \<open>fst r \<in> set ?es\<close> assms(2) by (simp add: decodable_def list_all_iff)
    ultimately show ?thesis by (auto simp: from_position_def p_def nil)
  qed
  then have rest: "event_rest (s, i) p = sort_key event_key (event_rows s i)" by (simp add: event_rest_def)
  have len: "length (event_rest (s, i) p) \<le> length (events s)"
    unfolding rest using rows by (metis length_filter_le length_map length_sort)
  have "decodeEventCursor (max_event s i) [] = Inr p" "requireTrace s i = Inr ()"
    using assms(3) by (simp_all add: decodeEventCursor_def p_def requireTrace_def)
  then have "\<exists>es. read_all (event_pages s i limit) (length (events s) + 1) [] = Inr es \<and> map_result (page_event s i) (event_rest (s, i) p) = Inr es"
    using len max by (intro event_list.reads_all [where decode = "decodeEventCursor (max_event s i)" and fits = "\<lambda>p. ec_MaxID p < 2 ^ 63"
      and k = "pageLimit limit", OF _ _ Events_page [OF assms(2) ids]]) (simp_all add: event_ids_ok_def ids pageLimit_bounds p_def)
  then obtain es where
    es: "read_all (event_pages s i limit) (length (events s) + 1) [] = Inr es" "map_result (page_event s i) (sort_key event_key (event_rows s i)) = Inr es"
    unfolding rest by blast
  have "map fst (sort_key event_key (event_rows s i)) = sort_key (\<lambda>e. (ev_SortTime e, ev_SortKey e, ev_ID e)) (map fst (event_rows s i))"
    unfolding event_key_def by (rule map_sort_key)
  then show ?thesis using es(1) map_result_ids [OF es(2)] rows by (metis (no_types, lifting) map_map comp_def map_eq_conv)
qed

lemma note_valid: "valid_event note_event"
  by (simp add: valid_event_def note_event_def zero_Event_def int64_def valid_metadata_def ascii_ValidString)

lemma note_unmarshal: "unmarshal_event note_json = Inr note_event"
proof -
  have "note_event\<lparr>e_LegacyKeys := []\<rparr> = note_event" by (simp add: note_event_def zero_Event_def)
  with unmarshal_encoded [OF note_valid] show ?thesis by (auto simp: note_json_def)
qed

lemma note_readable: "decodable note_store"
proof -
  obtain ms ims sums where s: "note_store = (recordRun 1 1 ''normalized'' [] [] (note_attached (note_rows (empty_store\<lparr>objects_dir := [(object_path note_digest, ''{}'')]\<rparr>))))
     \<lparr>machines := ms, imports_table := ims, summaries := sums, importSeq := 1\<rparr>" using note_store_eq by blast
  have "map ob_JSON (observations note_store) = [note_json]"
    by (simp add: s recordRun_def note_attached_def note_rows_def empty_store_def)
  then have "list_all (\<lambda>j. isl (unmarshal_event j) = False) (map ob_JSON (observations note_store))" by (simp add: note_unmarshal)
  then show ?thesis
    by (simp add: decodable_def note_contents(1) list.pred_map comp_def canonicalTime_def ascii_ValidString)
qed

theorem Events_listed_witness:
  "\<exists>es. read_all (event_pages note_store 1 1) 2 [] = Inr es \<and> map (\<lambda>e. e_ID (pe_Event e)) es = [1]"
proof -
  have "list_ex (\<lambda>t. t_ID t = 1) (traces note_store)" using note_contents(9) by auto
  from Events_listed [OF note_reachable note_readable this, of 1] show ?thesis by (simp add: note_contents(1) numeral_2_eq_2)
qed

text \<open>C24. An event is read as it was stored: decoding the text whose digest names an observation gives the event the
  normalizer made, but for the keys it had before, which are not part of it.\<close>

theorem event_roundtrip:
  assumes "valid_event e"
  shows "\<exists>b. observationDigest e = Inr (digestBytes b, b) \<and> unmarshal_event b = Inr (e\<lparr>e_LegacyKeys := []\<rparr>)"
  using unmarshal_encoded [OF assms] by (auto simp: observationDigest_def Let_def)

theorem event_roundtrip_witness:
  "\<exists>b. observationDigest note_event = Inr (digestBytes b, b) \<and> unmarshal_event b = Inr note_event"
proof -
  have "note_event\<lparr>e_LegacyKeys := []\<rparr> = note_event" by (simp add: note_event_def zero_Event_def)
  with event_roundtrip [OF note_valid] show ?thesis by simp
qed

subsection \<open>The log of imports\<close>

lemma import_rows_ids:
  assumes "log_ok s"
  shows "map fst (import_rows s) = imports_table s"
proof -
  have "find (\<lambda>m. sm_ID m = im_Machine r) (machines s) \<noteq> None" if "r \<in> set (imports_table s)" for r
  proof -
    have "im_Machine r \<in> sm_ID ` set (machines s)" using assms that by (simp add: log_ok_def list_all_iff)
    then show ?thesis unfolding find_None_iff by fastforce
  qed
  then show ?thesis unfolding import_rows_def
    by (subst map_filter_find_keys [where key = "\<lambda>r. r", simplified]) (auto intro: filter_True)
qed

lemma import_rest_filter:
  "import_rest s p = filter (\<lambda>r. im_ID (fst r) \<le> cu_Max p \<and> im_ID (fst r) < cu_Last p) (sort_key (\<lambda>r. - im_ID (fst r)) (import_rows s))"
  by (simp add: import_rest_def filter_sort)

interpretation import_list: paged log_ok import_rest import_after
proof
  fix s p k assume ok: "log_ok s" and k: "k < length (import_rest s p)"
  let ?key = "\<lambda>r :: ImportRow \<times> MachineRow. - im_ID (fst r)"
  define r where "r = import_rest s p ! k"
  have "r \<in> set (import_rest s p)" using k by (simp add: r_def)
  then have r: "im_ID (fst r) \<le> cu_Max p" "im_ID (fst r) < cu_Last p" by (simp_all add: import_rest_def)
  have "map (\<lambda>r. im_ID (fst r)) (import_rows s) = map im_ID (imports_table s)"
    using import_rows_ids [OF ok] by (metis (no_types, lifting) map_map comp_def map_eq_conv)
  then have "distinct (map (\<lambda>r. im_ID (fst r)) (import_rows s))" using ok by (simp add: log_ok_def)
  then have "distinct (map ?key (import_rows s))" by (simp add: distinct_map inj_on_def)
  then have d: "distinct (map ?key (import_rest s p))" by (simp add: import_rest_def distinct_map inj_on_def)
  have "import_rest s (import_after p r) = filter (\<lambda>x. ?key r < ?key x) (import_rest s p)"
    using r by (auto simp: import_rest_filter import_after_def intro!: filter_cong)
  also have "\<dots> = drop (Suc k) (import_rest s p)"
    unfolding r_def by (rule keyset_drop [OF d _ k]) (simp add: import_rest_def)
  finally show "import_rest s (import_after p (import_rest s p ! k)) = drop (Suc k) (import_rest s p)" by (simp add: r_def)
qed

definition import_pages :: "Store \<Rightarrow> int \<Rightarrow> string \<Rightarrow> (ImportSummary list \<times> string) result" where
  "import_pages s limit c = bind_result (Imports s c limit) (\<lambda>p. Inr (ip_Imports p, ip_NextCursor p))"

lemma import_summary_id: "log_ok s \<Longrightarrow> is_ID (import_summary s r) = im_ID (fst r)"
  by (auto simp: import_summary_def log_ok_def list_all_iff dest!: map_of_SomeD split: option.split)

lemma map_result_pure: "map_result (\<lambda>x. Inr (f x)) xs = Inr (map f xs)"
  by (induction xs) simp_all

lemma Imports_page:
  assumes ok: "log_ok s" and p: "decodeCursor m c = Inr p" "m = foldr max (map im_ID (imports_table s)) 0" "0 \<le> cu_Max p \<and> cu_Max p < 2 ^ 63"
  shows "\<exists>xs c'. import_pages s limit c = Inr (xs, c') \<and>
    map_result (\<lambda>r. Inr (import_summary s r)) (take (pageLimit limit) (import_rest s p)) = Inr xs \<and>
    (if length (import_rest s p) \<le> pageLimit limit then c' = []
     else c' \<noteq> [] \<and> decodeCursor m c' = Inr (import_after p (import_rest s p ! (pageLimit limit - 1))) \<and>
       0 \<le> cu_Max (import_after p (import_rest s p ! (pageLimit limit - 1))) \<and> cu_Max (import_after p (import_rest s p ! (pageLimit limit - 1))) < 2 ^ 63)"
proof -
  define n where "n = pageLimit limit"
  let ?rest = "import_rest s p"
  have n: "0 < n" using pageLimit_bounds by (simp add: n_def)
  let ?xs = "map (import_summary s) (take (n + 1) ?rest)" and ?q = "import_after p (?rest ! (n - 1))"
  have q: "\<lparr>cu_Last = is_ID (last (take n ?xs)), cu_Max = cu_Max p\<rparr> = ?q \<and> valid_cursor ?q" if "n < length ?rest"
  proof -
    have rest_there: "?rest \<noteq> []" using that by force
    have "last (take n ?xs) = import_summary s (?rest ! (n - 1))" 
      using n that rest_there last_conv_nth [of "map (import_summary s) (take n ?rest)"] by (auto simp: take_map)
    moreover have "?rest ! (n - 1) \<in> set ?rest" using that by simp
    then have "im_ID (fst (?rest ! (n - 1))) \<le> cu_Max p" "?rest ! (n - 1) \<in> set (import_rows s)" by (simp_all add: import_rest_def)
    moreover from this have "fst (?rest ! (n - 1)) \<in> set (imports_table s)" using import_rows_ids [OF ok] by (metis image_eqI list.set_map)
    then have "0 < im_ID (fst (?rest ! (n - 1)))" using ok by (simp add: log_ok_def list_all_iff)
    ultimately show ?thesis using p(3) import_summary_id [OF ok] by (auto simp: import_after_def valid_cursor_def)
  qed
  have "import_pages s limit c = Inr (map (import_summary s) (take n ?rest), if n < length ?rest then encodeCursor ?q else [])"
    using n q p(1,2) by (auto simp: import_pages_def Imports_def Let_def n_def [symmetric] take_map)
  then show ?thesis using q decodeCursor_encode [of ?q m] p(3) by (auto simp: n_def [symmetric] map_result_pure import_after_def)
qed

lemma sort_descending: "sort_key uminus xs = rev (sort (xs :: int list))"
proof -
  have "map uminus (sort_key uminus xs) = sort (map uminus xs)" using map_sort_key [of uminus "\<lambda>x. x" xs] by simp
  also have "\<dots> = map uminus (rev (sort xs))"
    by (rule properties_for_sort) (simp_all add: rev_map sorted_wrt_rev sorted_wrt_map)
  finally show ?thesis by (simp add: inj_map_eq_map)
qed

text \<open>C26. The log of imports read page by page shows each import exactly once, the newest first.\<close>

theorem Imports_listed:
  assumes "reachable s" "importSeq s < 2 ^ 63 - 1"
  shows "\<exists>xs. read_all (import_pages s limit) (length (imports_table s) + 1) [] = Inr xs \<and>
    map is_ID xs = rev (sort (map im_ID (imports_table s)))"
proof -
  note ok = log.always [OF assms(1)]
  define m where "m = foldr max (map im_ID (imports_table s)) 0"
  define p where "p = \<lparr>cu_Last = m + 1, cu_Max = m\<rparr>"
  have m: "0 \<le> m" "m < 2 ^ 63 - 1"
  proof -
    have "0 \<le> foldr max ids (0 :: int)" for ids by (induction ids) auto
    then show "0 \<le> m" by (simp add: m_def)
    have "0 \<le> importSeq s" "\<forall>r \<in> set (imports_table s). im_ID r \<le> importSeq s" using ok by (simp_all add: log_ok_def list_all_iff)
    then show "m < 2 ^ 63 - 1" unfolding m_def using assms(2) by (intro foldr_max_less) (auto simp: list_all_iff)
  qed
  have "im_ID (fst r) \<le> m" if "r \<in> set (import_rows s)" for r
  proof -
    have "fst r \<in> set (imports_table s)" using that import_rows_ids [OF ok] by (metis image_eqI list.set_map)
    then show ?thesis unfolding m_def by (intro foldr_max_ge) simp
  qed
  then have rest: "import_rest s p = sort_key (\<lambda>r. - im_ID (fst r)) (import_rows s)"
    unfolding import_rest_def p_def by (intro arg_cong [where f = "sort_key _"] filter_True) fastforce
  have "decodeCursor m [] = Inr p" by (simp add: decodeCursor_def p_def)
  moreover have "length (import_rest s p) = length (imports_table s)" using rest import_rows_ids [OF ok] by (metis length_map length_sort)
  ultimately have "\<exists>xs. read_all (import_pages s limit) (length (imports_table s) + 1) [] = Inr xs \<and>
      map_result (\<lambda>r. Inr (import_summary s r)) (import_rest s p) = Inr xs"
    using m by (intro import_list.reads_all [where decode = "decodeCursor m" and fits = "\<lambda>p. 0 \<le> cu_Max p \<and> cu_Max p < 2 ^ 63"
      and k = "pageLimit limit", OF ok _ Imports_page [OF ok _ m_def]]) (simp_all add: pageLimit_bounds p_def)
  then have "read_all (import_pages s limit) (length (imports_table s) + 1) [] = Inr (map (import_summary s) (import_rest s p))"
    by (simp add: map_result_pure)
  moreover have "map is_ID (map (import_summary s) (import_rest s p)) = rev (sort (map im_ID (imports_table s)))"
  proof -
    have "map is_ID (map (import_summary s) (import_rest s p)) = map im_ID (map fst (sort_key (\<lambda>r. - im_ID (fst r)) (import_rows s)))"
      by (simp add: rest import_summary_id [OF ok])
    also have "\<dots> = rev (sort (map im_ID (imports_table s)))"
      by (simp only: map_sort_key [where k = "\<lambda>r. - im_ID r"] import_rows_ids [OF ok] map_sort_key [where k = uminus] sort_descending)
    finally show ?thesis .
  qed
  ultimately show ?thesis by blast
qed

theorem Imports_listed_witness:
  "\<exists>xs. read_all (import_pages note_store 1) 2 [] = Inr xs \<and> map is_ID xs = [1]"
proof -
  have "log_ok empty_store" by (simp add: log_ok_def empty_store_def)
  from Import_adds [OF this, of "\<lambda>_. []" note_run note_manifest note_files]
  have "map im_ID (imports_table note_store) = [1]" "importSeq note_store = 1" by (auto simp: note_store_def empty_store_def)
  moreover from this(1) have "length (imports_table note_store) = 1" by (metis length_map length_Cons list.size(3) One_nat_def)
  ultimately show ?thesis using Imports_listed [OF note_reachable, of 1] by (simp add: numeral_2_eq_2)
qed

end
