(* ===== verification/SearchPages.thy ===== *)
theory SearchPages
  imports StoreFound StoreListing
begin

text \<open>
  The pages of a search: what the loop of \<open>collectSearch\<close> returns, whether or not its budget runs out.
\<close>

subsection \<open>One batch\<close>

definition row_matches :: "Engine \<Rightarrow> preparedSearch \<Rightarrow> SearchResult \<times> string \<Rightarrow> bool" where
  "row_matches en p r = searchMatches en p (snd r)"

definition shown :: "Engine \<Rightarrow> preparedSearch \<Rightarrow> (SearchResult \<times> string) set \<Rightarrow> SearchResult \<Rightarrow> bool" where
  "shown en p R x \<longleftrightarrow> (\<exists>r \<in> R. row_matches en p r \<and> (\<exists>sn. search_snippet en p (snd r) = Some sn \<and> x = (fst r)\<lparr>sr_Snippet := sn\<rparr>))"

lemma shown_mono: "shown en p R x \<Longrightarrow> R \<subseteq> R' \<Longrightarrow> shown en p R' x"
  by (auto simp: shown_def)

lemma collect_batch:
  assumes "\<And>r. r \<in> set rows \<Longrightarrow> row_matches en p r \<Longrightarrow> search_snippet en p (snd r) \<noteq> None" "length results \<le> limit"
  shows "\<exists>n' l' new seen'. collectSearchBatch en p limit rows (n, l, results, seen) = Inr (n', l', results @ new, seen') \<and>
    map sr_EventID new = take (limit + 1 - length results) (firsts (set seen) (map row_event (filter (row_matches en p) rows))) \<and>
    (length (results @ new) \<le> limit \<longrightarrow>
      n' + 1 = n + length (remdups_adj (l # map row_event rows)) \<and> l' = last (l # map row_event rows)) \<and>
    set seen' = set seen \<union> sr_EventID ` set new \<and> (\<forall>x \<in> set new. shown en p (set rows) x)"
  using assms
proof (induction rows arbitrary: n l results seen)
  case (Cons r rows)
  obtain res body where r: "r = (res, body)" by force
  let ?i = "sr_EventID res"
  obtain n1 l1 where nl: "(if ?i \<noteq> l then (n + 1, ?i) else (n, l)) = (n1, l1)" by force
  have l1: "l1 = ?i" using nl by (auto split: if_splits)
  have count: "n1 + length (remdups_adj (l1 # map row_event rows)) = n + length (remdups_adj (l # map row_event (r # rows)))"
    using nl by (auto simp: l1 r row_event_def split: if_splits)
  have step: "m + 1 = n1 + length (remdups_adj (l1 # map row_event rows)) \<and> k = last (l1 # map row_event rows) \<Longrightarrow>
      m + 1 = n + length (remdups_adj (l # map row_event (r # rows))) \<and> k = last (l # map row_event (r # rows))" for m k
    using count by (simp add: l1 r row_event_def)
  have match: "row_matches en p r = searchMatches en p body" by (simp add: row_matches_def r)
  show ?case
  proof (cases "?i \<in> set seen \<or> \<not> searchMatches en p body")
    case True
    have go: "collectSearchBatch en p limit (r # rows) (n, l, results, seen) = collectSearchBatch en p limit rows (n1, l1, results, seen)"
      using True nl by (auto simp: r Let_def split: prod.split)
    have same: "firsts (set seen) (map row_event (filter (row_matches en p) (r # rows))) = firsts (set seen) (map row_event (filter (row_matches en p) rows))"
      using True by (auto simp: match [unfolded r] row_event_def r)
    from Cons.IH [where n = n1 and l = l1 and results = results and seen = seen] Cons.prems obtain n' l' new seen' where
      ih: "collectSearchBatch en p limit rows (n1, l1, results, seen) = Inr (n', l', results @ new, seen')"
        "map sr_EventID new = take (limit + 1 - length results) (firsts (set seen) (map row_event (filter (row_matches en p) rows)))"
        "length (results @ new) \<le> limit \<longrightarrow> n' + 1 = n1 + length (remdups_adj (l1 # map row_event rows)) \<and> l' = last (l1 # map row_event rows)"
        "set seen' = set seen \<union> sr_EventID ` set new" "\<forall>x \<in> set new. shown en p (set rows) x" by (metis list.set_intros(2))
    have "\<forall>x \<in> set new. shown en p (set (r # rows)) x" using ih(5) by (meson shown_mono set_subset_Cons)
    with ih step [of n' l'] show ?thesis unfolding go same by blast
  next
    case False
    obtain sn where sn: "search_snippet en p body = Some sn"
      using Cons.prems(1) [of r] False match by (auto simp: r)
    let ?x = "res\<lparr>sr_Snippet := sn\<rparr>"
    have x: "shown en p (set (r # rows)) ?x" "sr_EventID ?x = ?i" using False sn match by (auto simp: shown_def r)
    have ids: "firsts (set seen) (map row_event (filter (row_matches en p) (r # rows))) =
        ?i # firsts (set (?i # seen)) (map row_event (filter (row_matches en p) rows))"
      using False by (simp add: match [unfolded r] row_event_def r)
    show ?thesis
    proof (cases "length results + 1 > limit")
      case True
      have "collectSearchBatch en p limit (r # rows) (n, l, results, seen) = Inr (n1, l1, results @ [?x], ?i # seen)"
        using True False nl sn by (auto simp: r Let_def split: prod.split)
      moreover have "limit + 1 - length results = 1" using True Cons.prems(2) by simp
      ultimately show ?thesis using x True unfolding ids by (intro exI conjI) (assumption | simp)+
    next
      case f: False
      have go: "collectSearchBatch en p limit (r # rows) (n, l, results, seen) =
          collectSearchBatch en p limit rows (n1, l1, results @ [?x], ?i # seen)"
        using f False nl sn by (auto simp: r Let_def split: prod.split)
      have "length (results @ [?x]) \<le> limit" using f by simp
      from Cons.IH [OF _ this, where n = n1 and l = l1 and seen = "?i # seen"] Cons.prems(1) obtain n' l' new seen' where
        ih: "collectSearchBatch en p limit rows (n1, l1, results @ [?x], ?i # seen) = Inr (n', l', (results @ [?x]) @ new, seen')"
          "map sr_EventID new = take (limit + 1 - length (results @ [?x])) (firsts (set (?i # seen)) (map row_event (filter (row_matches en p) rows)))"
          "length ((results @ [?x]) @ new) \<le> limit \<longrightarrow> n' + 1 = n1 + length (remdups_adj (l1 # map row_event rows)) \<and> l' = last (l1 # map row_event rows)"
          "set seen' = set (?i # seen) \<union> sr_EventID ` set new" "\<forall>x \<in> set new. shown en p (set rows) x" by (metis list.set_intros(2))
      have "limit + 1 - length results = Suc (limit + 1 - length (results @ [?x]))" using f by simp
      then have "map sr_EventID (?x # new) = take (limit + 1 - length results) (?i # firsts (set (?i # seen)) (map row_event (filter (row_matches en p) rows)))"
        using ih(2) by simp
      moreover have "\<forall>x \<in> set (?x # new). shown en p (set (r # rows)) x"
        using ih(5) x(1) by (auto intro: shown_mono [where R = "set rows"])
      moreover have "set seen' = set seen \<union> sr_EventID ` set (?x # new)" using ih(4) by auto
      moreover have "results @ ?x # new = (results @ [?x]) @ new" by simp
      ultimately show ?thesis unfolding go ids using ih(1,3) step [of n' l'] by metis
    qed
  qed
qed simp

subsection \<open>All batches\<close>

definition search_hits :: "Engine \<Rightarrow> Store \<Rightarrow> preparedSearch \<Rightarrow> int \<Rightarrow> int list" where
  "search_hits en s p b = descending (map row_event (filter (\<lambda>r. row_matches en p r \<and> row_event r < b) (search_rows en s p)))"

lemma collect_all:
  assumes ok: "joins_ok s" and pos: "\<And>r. r \<in> set (search_rows en s p) \<Longrightarrow> 0 < row_event r"
    and snip: "\<And>r. r \<in> set (search_rows en s p) \<Longrightarrow> row_matches en p r \<Longrightarrow> search_snippet en p (snd r) \<noteq> None"
  shows "length results \<le> limit \<Longrightarrow> (\<forall>i \<in> set seen. b \<le> i) \<Longrightarrow>
    \<exists>new out. collect_batches en s p limit expired k b results seen = Some (Inr (results @ new, out)) \<and>
      (\<forall>x \<in> set new. shown en p (set (search_rows en s p)) x) \<and>
      (case out of None \<Rightarrow> map sr_EventID new = take (limit + 1 - length results) (search_hits en s p b)
       | Some c \<Rightarrow> c \<in> row_event ` set (search_rows en s p) \<and> c < b \<and> length (results @ new) \<le> limit \<and> map sr_EventID new @ search_hits en s p c = search_hits en s p b)"
proof (induction "length (rows_below en s p b)" arbitrary: b results seen k rule: less_induct)
  case less
  define N where "N = max 256 (limit * 2)"
  define rows where "rows = searchStatement en s p N b"
  define D where "D = descending (map row_event rows)"
  have N: "0 < N" by (simp add: N_def)
  have sorted: "sorted_wrt (\<ge>) (map row_event rows)" unfolding rows_def by (rule statement_sorted)
  obtain m where sub: "set rows = {r \<in> set (search_rows en s p). row_event r \<in> set (take m (rows_below en s p b))}"
    using search.stmt_batch [of "(en, s, p)" N b] ok by (auto simp: rows_def)
  then have sub_rows: "r \<in> set (search_rows en s p)" "row_event r < b" if "r \<in> set rows" for r
  proof -
    have "row_event r \<in> set (rows_below en s p b)" using that sub by (blast dest: in_set_takeD)
    with that sub show "r \<in> set (search_rows en s p)" "row_event r < b" by auto
  qed
  let ?found = "descending (map row_event (filter (row_matches en p) rows))"
  have "sorted_wrt (\<ge>) (map row_event (filter (row_matches en p) rows))" using sorted by (simp add: sorted_wrt_map sorted_wrt_filter)
  moreover have "set seen \<inter> set (map row_event (filter (row_matches en p) rows)) = {}" using less.prems(2) sub_rows(2) by force
  ultimately have firsts: "firsts (set seen) (map row_event (filter (row_matches en p) rows)) = ?found" by (rule firsts_descending)
  from collect_batch [of rows en p results limit 0 0 seen] snip sub_rows(1) less.prems(1) obtain n' l' new seen' where
    c: "collectSearchBatch en p limit rows (0, 0, results, seen) = Inr (n', l', results @ new, seen')"
    and new: "map sr_EventID new = take (limit + 1 - length results) ?found"
    and count: "length (results @ new) \<le> limit \<longrightarrow> n' + 1 = length (remdups_adj (0 # map row_event rows)) \<and> l' = last (0 # map row_event rows)"
    and seen': "set seen' = set seen \<union> sr_EventID ` set new" and sh: "\<forall>x \<in> set new. shown en p (set rows) x"
    unfolding firsts by auto
  have sh': "\<forall>x \<in> set new. shown en p (set (search_rows en s p)) x" using sh sub_rows(1) by (blast intro: shown_mono)
  have D: "n' = length D \<and> (D \<noteq> [] \<longrightarrow> l' = last D)" if "length (results @ new) \<le> limit"
  proof -
    have "0 \<notin> set (map row_event rows)" using pos sub_rows(1) by force
    then have "remdups_adj (0 # map row_event rows) = 0 # D"
      using adjacent_descending [OF sorted] by (cases rows) (auto simp: D_def)
    moreover have "D \<noteq> [] \<Longrightarrow> last (0 # map row_event rows) = last D"
      using adjacent_descending [OF sorted] by (metis D_def last_ConsR last_remdups_adj remdups_adj_Nil_iff)
    ultimately show ?thesis using count that by simp
  qed
  note full = search.full_batch [of "(en, s, p)" N b "row_matches en p", unfolded prod.case, OF ok N, folded rows_def D_def search_hits_def]
  have step: "collect_batches en s p limit expired k b results seen =
      (if length (results @ new) > limit \<or> n' < N then Some (Inr (results @ new, None))
       else if expired k then Some (Inr (results @ new, Some l'))
       else collect_batches en s p limit expired (k + 1) l' (results @ new) seen')"
    using less.prems(1) by (subst collect_batches.simps) (simp add: Let_def N_def [symmetric] rows_def [symmetric] c)
  show ?case
  proof (cases "length (results @ new) > limit \<or> n' < N")
    case True
    have "map sr_EventID new = take (limit + 1 - length results) (search_hits en s p b)"
    proof (cases "length D < N")
      case True
      then show ?thesis using full(1) new by simp
    next
      case False
      have "n' = length D" if "length (results @ new) \<le> limit" using D that by blast
      with True False have l: "length (results @ new) > limit" by (metis not_le)
      have "search_hits en s p b = ?found @ search_hits en s p (last D)" using full(2) False by simp
      moreover have "length ?found \<ge> limit + 1 - length results"
      proof -
        have "length new = min (limit + 1 - length results) (length ?found)" using new by (metis length_map length_take min.commute)
        then show ?thesis using l by simp
      qed
      ultimately show ?thesis using new by simp
    qed
    then show ?thesis using True sh' step by (intro exI [of _ new] exI [of _ None]) simp
  next
    case False
    then have le: "length (results @ new) \<le> limit" and "N \<le> length D" using D by auto
    then have f: "D \<noteq> []" "last D < b" "last D \<in> row_event ` set (search_rows en s p)" "l' = last D"
        "?found @ search_hits en s p l' = search_hits en s p b" using full(2) D by auto
    have all: "map sr_EventID new = ?found"
    proof -
      have "length new < limit + 1 - length results" using le by simp
      then show ?thesis using new by (metis length_map length_take min_def not_less take_all_iff nat_less_le)
    qed
    have c0: "l' \<in> row_event ` set (search_rows en s p)" using f(3,4) by simp
    show ?thesis
    proof (cases "expired k")
      case True
      then show ?thesis using False step sh' le c0 f all by (intro exI [of _ new] exI [of _ "Some l'"]) simp
    next
      case go: False
      have "set (rows_below en s p l') \<subset> set (rows_below en s p b)"
      proof -
        have "l' \<in> set (rows_below en s p b)" "l' \<notin> set (rows_below en s p l')" using f(2,3,4) by auto
        moreover have "set (rows_below en s p l') \<subseteq> set (rows_below en s p b)" using f(2,4) by auto
        ultimately show ?thesis by blast
      qed
      then have smaller: "length (rows_below en s p l') < length (rows_below en s p b)"
        by (metis distinct_card distinct_descending finite_set psubset_card_mono)
      have "\<forall>i \<in> set seen'. l' \<le> i"
      proof -
        have "l' \<le> i" if "i \<in> set (map sr_EventID new)" for i
        proof -
          have "i \<in> set (map row_event rows)" using that unfolding all by auto
          then show ?thesis using f(4) descending_last_le unfolding D_def by blast
        qed
        then show ?thesis using seen' less.prems(2) f(2,4) by force
      qed
      from less.hyps [OF smaller le this, where k = "k + 1"] obtain new' out where
        r: "collect_batches en s p limit expired (k + 1) l' (results @ new) seen' = Some (Inr ((results @ new) @ new', out))"
          "\<forall>x \<in> set new'. shown en p (set (search_rows en s p)) x"
          "case out of None \<Rightarrow> map sr_EventID new' = take (limit + 1 - length (results @ new)) (search_hits en s p l')
           | Some c \<Rightarrow> c \<in> row_event ` set (search_rows en s p) \<and> c < l' \<and> length ((results @ new) @ new') \<le> limit \<and> map sr_EventID new' @ search_hits en s p c = search_hits en s p l'"
        by blast
      have "collect_batches en s p limit expired k b results seen = Some (Inr (results @ (new @ new'), out))" using step False go r(1) by simp
      moreover have "\<forall>x \<in> set (new @ new'). shown en p (set (search_rows en s p)) x" using sh' r(2) by auto
      moreover have "case out of None \<Rightarrow> map sr_EventID (new @ new') = take (limit + 1 - length results) (search_hits en s p b)
          | Some c \<Rightarrow> c \<in> row_event ` set (search_rows en s p) \<and> c < b \<and> length (results @ (new @ new')) \<le> limit \<and> map sr_EventID (new @ new') @ search_hits en s p c = search_hits en s p b"
      proof (cases out)
        case None
        have "take (limit + 1 - length results) (?found @ search_hits en s p l') =
            ?found @ take (limit + 1 - length results - length ?found) (search_hits en s p l')"
          using new all le by (metis take_append take_all_iff)
        moreover have "limit + 1 - length results - length ?found = limit + 1 - length (results @ new)" using all by (metis diff_diff_eq length_append length_map)
        ultimately show ?thesis using None r(3) all f(5) by simp
      next
        case (Some c)
        then show ?thesis using r(3) f(2,4) f(5) all by auto
      qed
      ultimately show ?thesis by blast
    qed
  qed
qed

subsection \<open>The page\<close>

lemma search_hits_below: "c \<le> b \<Longrightarrow> search_hits en s p c = filter (\<lambda>i. i < c) (search_hits en s p b)"
  unfolding search_hits_def by (rule descending_unique) (auto intro: sorted_wrt_filter sorted_descending)

lemma search_hits_drop:
  assumes "k < length (search_hits en s p b)"
  shows "search_hits en s p (search_hits en s p b ! k) = drop (Suc k) (search_hits en s p b)"
proof -
  let ?H = "search_hits en s p b"
  have s: "sorted_wrt (>) ?H" unfolding search_hits_def by (rule sorted_descending)
  then have "sorted (map uminus ?H)" "distinct (map uminus ?H)"
    by (auto simp: sorted_wrt_map distinct_map search_hits_def intro: sorted_wrt_mono_rel [rotated])
  from keyset_drop [OF this(2,1) assms] have "filter (\<lambda>i. i < ?H ! k) ?H = drop (Suc k) ?H" by simp
  moreover have "?H ! k \<in> set ?H" using assms by simp
  then have "?H ! k < b" by (auto simp: search_hits_def)
  ultimately show ?thesis using search_hits_below [of "?H ! k" b] by simp
qed

lemma prepareSearch_Inr:
  "prepareSearch en s query = Inr p \<longleftrightarrow> search_mode query \<in> {''fulltext'', ''exact'', ''regex''} \<and>
    (\<exists>after before expression position. searchDate (sq_After query) False = Some after \<and> searchDate (sq_Before query) True = Some before \<and>
      compile_query en (search_mode query) (sq_Query query) = Inr expression \<and>
      decodeCursor (foldr max (map ev_ID (events s)) 0) (sq_Cursor query) = Inr position \<and>
      use_index en s \<lparr>ps_query = query\<lparr>sq_After := after, sq_Before := before\<rparr>, ps_mode = search_mode query, ps_expression = expression,
        ps_index = fst (search_index en (search_mode query) (sq_Query query) expression),
        ps_indexQuery = snd (search_index en (search_mode query) (sq_Query query) expression), ps_broad = False, ps_position = position\<rparr> = Inr p)"
  by (auto simp: prepareSearch_def Let_def bind_result_Inr_iff split: option.split)

lemma use_index_Inr: "use_index en s q = Inr p \<longleftrightarrow> (\<exists>b. p = q\<lparr>ps_broad := b\<rparr> \<and> (if ps_index q = NoIndex then b = ps_broad q
    else candidateIsBroad en s (ps_index q) (ps_indexQuery q) = Inr b))"
  by (auto simp: use_index_def sum_case_Inr_iff split: sum.split)

lemma prepared_parts:
  assumes "prepareSearch en s query = Inr p"
  shows "decodeCursor (foldr max (map ev_ID (events s)) 0) (sq_Cursor query) = Inr (ps_position p)"
    "sq_Limit (ps_query p) = sq_Limit query" "sq_Query (ps_query p) = sq_Query query" "ps_mode p = search_mode query"
    "compile_query en (ps_mode p) (sq_Query query) = Inr (ps_expression p)"
    "(ps_index p, ps_indexQuery p) = search_index en (ps_mode p) (sq_Query query) (ps_expression p)"
  using assms by (auto simp: prepareSearch_Inr use_index_Inr)

lemma prepared_expression:
  assumes "prepareSearch en s query = Inr p" "ps_expression p = Some e"
  shows "ps_mode p = ''regex'' \<and> sq_Query (ps_query p) \<noteq> [] \<and> en_Compile en (sq_Query query) = Inr e"
  using prepared_parts(3,4,5) [OF assms(1)] assms(2) by (auto simp: compile_query_def sum_case_Inr_iff split: if_splits)

text \<open>The same search from another position.\<close>

lemma prepared_next:
  assumes "prepareSearch en s query = Inr p" "decodeCursor (foldr max (map ev_ID (events s)) 0) next' = Inr c"
  shows "prepareSearch en s (query\<lparr>sq_Cursor := next'\<rparr>) = Inr (p\<lparr>ps_query := (ps_query p)\<lparr>sq_Cursor := next'\<rparr>, ps_position := c\<rparr>)"
proof -
  have m: "search_mode (query\<lparr>sq_Cursor := next'\<rparr>) = search_mode query" by (simp add: search_mode_def)
  from assms(1) obtain after before expression position where
    p: "search_mode query \<in> {''fulltext'', ''exact'', ''regex''}" "searchDate (sq_After query) False = Some after"
    "searchDate (sq_Before query) True = Some before" "compile_query en (search_mode query) (sq_Query query) = Inr expression"
    and u: "use_index en s \<lparr>ps_query = query\<lparr>sq_After := after, sq_Before := before\<rparr>, ps_mode = search_mode query, ps_expression = expression,
        ps_index = fst (search_index en (search_mode query) (sq_Query query) expression),
        ps_indexQuery = snd (search_index en (search_mode query) (sq_Query query) expression), ps_broad = False, ps_position = position\<rparr> = Inr p"
    unfolding prepareSearch_Inr by blast
  define q where "q = \<lparr>ps_query = query\<lparr>sq_After := after, sq_Before := before\<rparr>, ps_mode = search_mode query, ps_expression = expression,
        ps_index = fst (search_index en (search_mode query) (sq_Query query) expression),
        ps_indexQuery = snd (search_index en (search_mode query) (sq_Query query) expression), ps_broad = False, ps_position = position\<rparr>"
  from u obtain b where b: "p = q\<lparr>ps_broad := b\<rparr>" "if ps_index q = NoIndex then b = ps_broad q
      else candidateIsBroad en s (ps_index q) (ps_indexQuery q) = Inr b"
    unfolding q_def [symmetric] use_index_Inr by blast
  have "use_index en s (q\<lparr>ps_query := (ps_query q)\<lparr>sq_Cursor := next'\<rparr>, ps_position := c\<rparr>) =
      Inr (p\<lparr>ps_query := (ps_query p)\<lparr>sq_Cursor := next'\<rparr>, ps_position := c\<rparr>)"
    unfolding use_index_Inr by (intro exI [of _ b]) (use b(2) in \<open>simp add: b(1)\<close>)
  moreover have "q\<lparr>ps_query := (ps_query q)\<lparr>sq_Cursor := next'\<rparr>, ps_position := c\<rparr> =
      \<lparr>ps_query = query\<lparr>sq_Cursor := next', sq_After := after, sq_Before := before\<rparr>, ps_mode = search_mode query, ps_expression = expression,
        ps_index = fst (search_index en (search_mode query) (sq_Query query) expression),
        ps_indexQuery = snd (search_index en (search_mode query) (sq_Query query) expression), ps_broad = False, ps_position = c\<rparr>"
    by (simp add: q_def)
  ultimately show ?thesis unfolding prepareSearch_Inr m using p assms(2) by simp
qed

lemma next_hits:
  assumes "cu_Max c = cu_Max (ps_position p)"
  shows "search_hits en s (p\<lparr>ps_query := (ps_query p)\<lparr>sq_Cursor := next'\<rparr>, ps_position := c\<rparr>) b = search_hits en s p b"
proof -
  let ?p = "p\<lparr>ps_query := (ps_query p)\<lparr>sq_Cursor := next'\<rparr>, ps_position := c\<rparr>"
  have "row_matches en ?p r = row_matches en p r" for r by (simp add: row_matches_def searchMatches_def)
  moreover have "qualifies en s ?p h = qualifies en s p h" for h
    by (simp add: qualifies_def assms trace_filters_def observationSearchFilters_def observation_filters_def machine_filter_def
        has_candidate_def candidates_def)
  then have "qualifies en s ?p = qualifies en s p" by (rule ext)
  ultimately show ?thesis by (simp add: search_hits_def search_rows_def)
qed

lemma search_text_valid:
  assumes "list_all (\<lambda>x. ValidString (or_Text x)) (observation_revisions s)" "r \<in> set (search_rows en s p)" "row_matches en p r"
    and "\<And>e. ps_expression p = Some e \<Longrightarrow> ps_mode p = ''regex'' \<and> sq_Query (ps_query p) \<noteq> []"
  shows "search_snippet en p (snd r) \<noteq> None"
proof -
  obtain h where h: "h \<in> set (joined s)" "r = search_row s h" using assms(2) by (auto simp: search_rows_def)
  have "snd (search_row s h) = or_Text (h_link h)" by (cases h) (simp add: search_row_def)
  then have "snd r = or_Text (h_link h)" using h(2) by simp
  moreover have "h_link h \<in> set (observation_revisions s)" using h(1) by (simp add: in_joined in_event_hits)
  ultimately have v: "ValidString (snd r)" using assms(1) by (simp add: list_all_iff)
  have range: "SnippetRange (snd r) i j \<noteq> None" for i j using SnippetRange_cut [OF v, of i j] by (metis option.distinct(1))
  show ?thesis
  proof (cases "ps_expression p")
    case None
    then show ?thesis using range by (auto simp: search_snippet_def Snippet_def split: option.splits)
  next
    case (Some e)
    then have "en_Find en e (snd r) \<noteq> None" using assms(3,4) by (auto simp: row_matches_def searchMatches_def)
    then show ?thesis using range Some by (auto simp: search_snippet_def)
  qed
qed

lemma decodeCursor_range:
  assumes "decodeCursor m c = Inr p" "m < 2 ^ 63 - 1"
  shows "cu_Last p < 2 ^ 63 \<and> cu_Max p < 2 ^ 63"
proof (cases "c = []")
  case False
  then obtain j where "decode_cursor j = Some p" using assms(1) by (auto simp: decodeCursor_def bind_eq_Some_conv split: option.splits if_splits)
  then show ?thesis by (auto simp: decode_cursor_def dec_int_def Let_def split: if_splits option.splits json.splits)
qed (use assms in \<open>auto simp: decodeCursor_def\<close>)

text \<open>A cursor the page can give leads to the same search from there.\<close>

lemma next_page:
  assumes p: "prepareSearch en s query = Inr p" and ev: "list_all (\<lambda>e. 0 < ev_ID e \<and> ev_ID e < 2 ^ 63 - 1) (events s)"
    and c: "c \<in> row_event ` set (search_rows en s p)" "c < cu_Last (ps_position p)"
  defines "q \<equiv> encodeCursor \<lparr>cu_Last = c, cu_Max = cu_Max (ps_position p)\<rparr>"
  shows "q \<noteq> [] \<and> (\<exists>p'. prepareSearch en s (query\<lparr>sq_Cursor := q\<rparr>) = Inr p' \<and> cu_Last (ps_position p') = c \<and>
    search_hits en s p' c = search_hits en s p c)"
proof -
  let ?m = "foldr max (map ev_ID (events s)) 0" and ?q = "\<lparr>cu_Last = c, cu_Max = cu_Max (ps_position p)\<rparr>"
  have "?m < 2 ^ 63 - 1" using ev by (intro foldr_max_less) (auto simp: list_all_iff)
  then have "cu_Last (ps_position p) < 2 ^ 63 \<and> cu_Max (ps_position p) < 2 ^ 63" by (rule decodeCursor_range [OF prepared_parts(1) [OF p]])
  moreover have "0 < c \<and> c \<le> cu_Max (ps_position p)"
    using c(1) ev by (auto simp: search_rows_def qualifies_def in_joined hit_event_def list_all_iff)
  ultimately have "valid_cursor ?q" using c(2) by (simp add: valid_cursor_def)
  from decodeCursor_encode [OF this, of ?m] prepared_next [OF p, of q ?q] next_hits [of ?q p en s q c] show ?thesis by (auto simp: q_def)
qed

text \<open>When there is one result too many, the cursor is at the last one that is shown.\<close>

lemma cut_page:
  assumes "map sr_EventID new = take (k + 1) (search_hits en s p b)" "k < length new" "0 < k"
  defines "c \<equiv> sr_EventID (last (take k new))"
  shows "c \<in> row_event ` set (search_rows en s p)" "c < b" "map sr_EventID (take k new) @ search_hits en s p c = search_hits en s p b"
proof -
  let ?H = "search_hits en s p b"
  have long: "k < length ?H" using assms(1,2) by (metis length_map length_take min_less_iff_conj)
  have ids: "map sr_EventID (take k new) = take k ?H" by (simp add: take_map [symmetric] assms(1) min_def)
  have "take k new \<noteq> []" using assms(2,3) by auto
  then have "c = last (map sr_EventID (take k new))" by (simp add: last_map c_def)
  also have "\<dots> = take k ?H ! (k - 1)" unfolding ids using long assms(3) by (subst last_conv_nth) auto
  finally have last_id: "c = ?H ! (k - 1)" using assms(3) by simp
  then have "c \<in> set ?H" using long assms(3) by simp
  then show "c \<in> row_event ` set (search_rows en s p)" "c < b" by (auto simp: search_hits_def)
  have "search_hits en s p c = drop k ?H" using search_hits_drop [of "k - 1" en s p b] long assms(3) by (simp add: last_id)
  then show "map sr_EventID (take k new) @ search_hits en s p c = ?H" by (simp add: ids)
qed

text \<open>C27. Every page of a search is the next part of what there is to find. The results of a page, followed by what the
  search finds from the page's cursor, are the events below the position with a text that matches, each once, the newest
  first; a page without a cursor is the last; and that does not depend on when the search budget runs out, only the
  length of the page does.\<close>

theorem Search_pages:
  assumes "reachable s" "list_all (\<lambda>e. 0 < ev_ID e \<and> ev_ID e < 2 ^ 63 - 1) (events s)"
    and "list_all (\<lambda>x. ValidString (or_Text x)) (observation_revisions s)" and "prepareSearch en s query = Inr p"
  shows "\<exists>page. Search en s expired query = Some (Inr page) \<and> length (sp_Results page) \<le> pageLimit (sq_Limit query) \<and>
    list_all (shown en p (set (search_rows en s p))) (sp_Results page) \<and>
    (if sp_NextCursor page = [] then map sr_EventID (sp_Results page) = search_hits en s p (cu_Last (ps_position p))
     else \<exists>p'. prepareSearch en s (query\<lparr>sq_Cursor := sp_NextCursor page\<rparr>) = Inr p' \<and> cu_Last (ps_position p') < cu_Last (ps_position p) \<and>
       map sr_EventID (sp_Results page) @ search_hits en s p' (cu_Last (ps_position p')) = search_hits en s p (cu_Last (ps_position p)))"
proof -
  let ?b = "cu_Last (ps_position p)"
  define k where "k = pageLimit (sq_Limit query)"
  have k: "0 < k" using pageLimit_bounds by (simp add: k_def)
  have ok: "joins_ok s" using chain.always [OF assms(1)] by (simp add: joins_ok_def chain_but_def)
  have rows: "0 < row_event r" if "r \<in> set (search_rows en s p)" for r
    using that assms(2) by (auto simp: search_rows_def in_joined hit_event_def list_all_iff)
  have snip: "search_snippet en p (snd r) \<noteq> None" if "r \<in> set (search_rows en s p)" "row_matches en p r" for r
    using prepared_expression [OF assms(4)] by (intro search_text_valid [OF assms(3) that]) blast
  have "\<exists>new out. collect_batches en s p k expired 0 ?b [] [] = Some (Inr ([] @ new, out)) \<and>
      (\<forall>x \<in> set new. shown en p (set (search_rows en s p)) x) \<and>
      (case out of None \<Rightarrow> map sr_EventID new = take (k + 1 - length ([] :: SearchResult list)) (search_hits en s p ?b)
       | Some c \<Rightarrow> c \<in> row_event ` set (search_rows en s p) \<and> c < ?b \<and> length ([] @ new) \<le> k \<and> map sr_EventID new @ search_hits en s p c = search_hits en s p ?b)"
    by (rule collect_all [OF ok _ snip]) (use rows in simp_all)
  then obtain new out where c: "collect_batches en s p k expired 0 ?b [] [] = Some (Inr (new, out))" and sh: "list_all (shown en p (set (search_rows en s p))) new"
    and o: "case out of None \<Rightarrow> map sr_EventID new = take (k + 1) (search_hits en s p ?b)
     | Some c \<Rightarrow> c \<in> row_event ` set (search_rows en s p) \<and> c < ?b \<and> length new \<le> k \<and> map sr_EventID new @ search_hits en s p c = search_hits en s p ?b"
    unfolding append_Nil list.size(3) diff_zero list_all_iff by blast
  have search: "Search en s expired query = Some (Inr (search_page p k (new, out)))"
    by (simp add: Search_def assms(4) collectSearch_def prepared_parts(2) [OF assms(4)] k_def [symmetric] Let_def c)
  have sh': "list_all (shown en p (set (search_rows en s p))) (take k new)" using sh by (auto simp: list_all_iff dest: in_set_takeD)
  consider (part) c where "out = Some c" | (all) "out = None" "length new \<le> k" | (cut) "out = None" "k < length new" by (cases out) force+
  then show ?thesis
  proof cases
    case part
    with o next_page [OF assms(4,2), of c] sh show ?thesis unfolding search k_def [symmetric] by (auto simp: search_page_def)
  next
    case all
    have m: "map sr_EventID new = take (k + 1) (search_hits en s p ?b)" using o all(1) by simp
    have "length new = min (length (search_hits en s p ?b)) (k + 1)" using arg_cong [OF m, of length] by simp
    with m all(2) have "map sr_EventID new = search_hits en s p ?b" by (simp add: min_def split: if_splits)
    with all sh show ?thesis unfolding search k_def [symmetric] by (simp add: search_page_def)
  next
    case cut
    have "map sr_EventID new = take (k + 1) (search_hits en s p ?b)" using o cut(1) by simp
    note page = cut_page [OF this cut(2) k]
    from next_page [OF assms(4,2) page(1,2)] page sh' cut show ?thesis unfolding search k_def [symmetric] by (auto simp: search_page_def)
  qed
qed

text \<open>An engine that finds nothing, and the query for everything.\<close>

definition no_engine :: Engine where
  "no_engine = \<lparr>en_Match = (\<lambda>_ _ _. False), en_Error = (\<lambda>_ _. None), en_Compile = (\<lambda>e. Inl e), en_Find = (\<lambda>_ _. None),
     en_FoldFind = (\<lambda>_ _. None), en_RegexpQuery = (\<lambda>_. Query QAll [] [])\<rparr>"

definition any_query :: SearchQuery where
  "any_query = \<lparr>sq_Query = [], sq_Mode = [], sq_Harness = [], sq_Model = [], sq_Machine = [], sq_Repository = [], sq_After = [],
     sq_Before = [], sq_Role = [], sq_Kind = [], sq_Tool = [], sq_Cursor = [], sq_Limit = 0\<rparr>"

theorem Search_pages_witness:
  "\<exists>page. Search no_engine note_store (\<lambda>_. False) any_query = Some (Inr page) \<and> length (sp_Results page) \<le> 50"
proof -
  obtain p where p: "prepareSearch no_engine note_store any_query = Inr p"
    by (simp add: prepareSearch_def any_query_def search_mode_def searchDate_def compile_query_def decodeCursor_def use_index_def
      search_index_def no_engine_def Let_def)
  have "list_all (\<lambda>x. ValidString (or_Text x)) (observation_revisions note_store)"
    by (auto simp: note_contents note_text_eq newline_def list_all_iff intro!: ascii_ValidString)
  with Search_pages [OF note_reachable _ _ p, of "\<lambda>_. False"] show ?thesis
    by (auto simp: note_contents any_query_def pageLimit_def)
qed

end
