(* ===== verification/ReportJson.thy ===== *)
theory ReportJson
  imports EventJson JsonLength
begin

text \<open>
  The JSON of import reports and of the progress of an import (\<open>internal/domain/types.go\<close>), which the server sends line by
  line while it imports and the collector reads back, with the proof that it is read as it was written.
\<close>

definition outcome_fields :: "TraceOutcome \<Rightarrow> (string \<times> json) list" where
  "outcome_fields out =
     int_omit ''trace_id'' (o_TraceID out) @ str_field ''harness'' (o_Harness out) @ str_field ''native_trace_id'' (o_NativeTraceID out)
     @ str_omit ''title'' (o_Title out) @ str_field ''revision_digest'' (o_RevisionDigest out) @ str_field ''status'' (o_Status out)
     @ list_omit ''warnings'' warning_json (o_Warnings out) @ str_omit ''error'' (o_Error out)"

definition outcome_json :: "TraceOutcome \<Rightarrow> json" where
  "outcome_json out = JObj (outcome_fields out)"

definition report_fields :: "ImportReport \<Rightarrow> (string \<times> json) list" where
  "report_fields r =
     int_field ''id'' (ir_ID r) @ str_field ''created_at'' (ir_CreatedAt r) @ [(''source_machine'', machine_json (ir_Machine r))]
     @ int_field ''imported'' (ir_Imported r) @ int_field ''updated'' (ir_Updated r) @ int_field ''unchanged'' (ir_Unchanged r)
     @ int_field ''partially_parsed'' (ir_Partial r) @ int_field ''unsupported'' (ir_Unsupported r) @ int_field ''failed'' (ir_Failed r)
     @ [(''complete'', JBool (ir_Complete r))] @ [(''traces'', JArr (map outcome_json (ir_Traces r)))]"

definition report_json :: "ImportReport \<Rightarrow> json" where
  "report_json r = JObj (report_fields r)"

text \<open>A pointer with \<open>omitempty\<close>.\<close>

definition ptr_omit :: "string \<Rightarrow> ('a \<Rightarrow> json) \<Rightarrow> 'a option \<Rightarrow> (string \<times> json) list" where
  "ptr_omit k f x = (case x of None \<Rightarrow> [] | Some v \<Rightarrow> [(k, f v)])"

definition progress_fields :: "Progress \<Rightarrow> (string \<times> json) list" where
  "progress_fields p =
     str_field ''phase'' (p_Phase p) @ int_omit ''completed'' (p_Completed p) @ int_omit ''total'' (p_Total p)
     @ ptr_omit ''outcome'' outcome_json (p_Outcome p) @ ptr_omit ''report'' report_json (p_Report p) @ str_omit ''error'' (p_Error p)"

definition progress_json :: "Progress \<Rightarrow> json" where
  "progress_json p = JObj (progress_fields p)"

subsection \<open>Decoding\<close>

definition decode_outcome :: "json \<Rightarrow> TraceOutcome option" where
  "decode_outcome j =
     (if \<not> is_struct j then None
      else
        Option.bind (dec_int j ''trace_id'') (\<lambda>i.
        Option.bind (dec_str j ''harness'') (\<lambda>h.
        Option.bind (dec_str j ''native_trace_id'') (\<lambda>n.
        Option.bind (dec_str j ''title'') (\<lambda>t.
        Option.bind (dec_str j ''revision_digest'') (\<lambda>d.
        Option.bind (dec_str j ''status'') (\<lambda>st.
        Option.bind (dec_list decode_warning j ''warnings'') (\<lambda>ws.
        Option.bind (dec_str j ''error'') (\<lambda>e.
          Some \<lparr>o_TraceID = i, o_Harness = h, o_NativeTraceID = n, o_Title = t, o_RevisionDigest = d, o_Status = st,
                o_Warnings = ws, o_Error = e\<rparr>)))))))))"

definition decode_report :: "json \<Rightarrow> ImportReport option" where
  "decode_report j =
     (if \<not> is_struct j then None
      else
        Option.bind (dec_int j ''id'') (\<lambda>i.
        Option.bind (dec_str j ''created_at'') (\<lambda>c.
        Option.bind (decode_machine (get_field j ''source_machine'')) (\<lambda>m.
        Option.bind (dec_int j ''imported'') (\<lambda>im.
        Option.bind (dec_int j ''updated'') (\<lambda>up.
        Option.bind (dec_int j ''unchanged'') (\<lambda>un.
        Option.bind (dec_int j ''partially_parsed'') (\<lambda>pa.
        Option.bind (dec_int j ''unsupported'') (\<lambda>us.
        Option.bind (dec_int j ''failed'') (\<lambda>fa.
        Option.bind (dec_bool j ''complete'') (\<lambda>co.
        Option.bind (dec_list decode_outcome j ''traces'') (\<lambda>ts.
          Some \<lparr>ir_ID = i, ir_CreatedAt = c, ir_Machine = m, ir_Imported = im, ir_Updated = up, ir_Unchanged = un, ir_Partial = pa,
                ir_Unsupported = us, ir_Failed = fa, ir_Complete = co, ir_Traces = ts\<rparr>))))))))))))"

definition dec_ptr :: "(json \<Rightarrow> 'a option) \<Rightarrow> json \<Rightarrow> string \<Rightarrow> 'a option option" where
  "dec_ptr f j k = (case get_field j k of JNull \<Rightarrow> Some None | v \<Rightarrow> map_option Some (f v))"

definition decode_progress :: "json \<Rightarrow> Progress option" where
  "decode_progress j =
     (if \<not> is_struct j then None
      else
        Option.bind (dec_str j ''phase'') (\<lambda>ph.
        Option.bind (dec_int j ''completed'') (\<lambda>c.
        Option.bind (dec_int j ''total'') (\<lambda>t.
        Option.bind (dec_ptr decode_outcome j ''outcome'') (\<lambda>out.
        Option.bind (dec_ptr decode_report j ''report'') (\<lambda>r.
        Option.bind (dec_str j ''error'') (\<lambda>e.
          Some \<lparr>p_Phase = ph, p_Completed = c, p_Total = t, p_Outcome = out, p_Report = r, p_Error = e\<rparr>)))))))"

definition unmarshal_progress :: "string \<Rightarrow> Progress result" where
  "unmarshal_progress line =
     (case Option.bind (parse_text line) decode_progress of
        None \<Rightarrow> Inl ''json: cannot unmarshal'' | Some p \<Rightarrow> Inr p)"

subsection \<open>What is read as it was written\<close>

definition valid_outcome :: "TraceOutcome \<Rightarrow> bool" where
  "valid_outcome out \<longleftrightarrow> int64 (o_TraceID out) \<and> list_all valid_warning (o_Warnings out) \<and>
     list_all ValidString [o_Harness out, o_NativeTraceID out, o_Title out, o_RevisionDigest out, o_Status out, o_Error out]"

definition valid_report :: "ImportReport \<Rightarrow> bool" where
  "valid_report r \<longleftrightarrow> list_all int64 [ir_ID r, ir_Imported r, ir_Updated r, ir_Unchanged r, ir_Partial r, ir_Unsupported r, ir_Failed r] \<and>
     ValidString (ir_CreatedAt r) \<and> valid_machine (ir_Machine r) \<and> list_all valid_outcome (ir_Traces r)"

definition valid_progress :: "Progress \<Rightarrow> bool" where
  "valid_progress p \<longleftrightarrow> ValidString (p_Phase p) \<and> int64 (p_Completed p) \<and> int64 (p_Total p) \<and> ValidString (p_Error p) \<and>
     pred_option valid_outcome (p_Outcome p) \<and> pred_option valid_report (p_Report p)"

lemma plain_key_report [simp]:
  "plain_key ''status''" "plain_key ''error''" "plain_key ''imported''" "plain_key ''updated''" "plain_key ''unchanged''"
  "plain_key ''partially_parsed''" "plain_key ''unsupported''" "plain_key ''failed''" "plain_key ''complete''" "plain_key ''phase''"
  "plain_key ''completed''" "plain_key ''total''" "plain_key ''outcome''" "plain_key ''report''"
  by (simp_all add: plain_key_def upper_ascii_def less_eq_char_def)

lemma report_field_lookup:
  "map_of (ptr_omit k f x @ r) k' = (if k' = k \<and> x \<noteq> None then Some (f (the x)) else map_of r k')"
  "map_of (str_omit k s) k' = (if k' = k \<and> s \<noteq> [] then Some (JStr s) else None)"
  by (auto simp: ptr_omit_def field_defs split: option.split)

lemma ptr_key: "subseq (map fst (ptr_omit k f x)) [k]"
  by (auto simp: ptr_omit_def split: option.split)

lemma outcome_keys:
  "subseq (map fst (outcome_fields out))
    ([''trace_id''] @ [''harness''] @ [''native_trace_id''] @ [''title''] @ [''revision_digest''] @ [''status''] @ [''warnings''] @ [''error''])"
  unfolding outcome_fields_def map_append by (intro list_emb_append_mono field_keys)

lemma progress_keys:
  "subseq (map fst (progress_fields p)) ([''phase''] @ [''completed''] @ [''total''] @ [''outcome''] @ [''report''] @ [''error''])"
  unfolding progress_fields_def map_append by (intro list_emb_append_mono field_keys ptr_key)

lemma outcome_get:
  "plain_key k \<Longrightarrow> get_field (canon (outcome_json out)) k = (case map_of (outcome_fields out) k of Some v \<Rightarrow> canon v | None \<Rightarrow> JNull)"
  unfolding outcome_json_def by (rule get_field_canon [OF keys_facts [OF outcome_keys]]) simp_all

lemma report_get:
  "plain_key k \<Longrightarrow> get_field (canon (report_json r)) k = (case map_of (report_fields r) k of Some v \<Rightarrow> canon v | None \<Rightarrow> JNull)"
  unfolding report_json_def by (intro get_field_canon) (simp_all add: field_defs report_fields_def)

lemma progress_get:
  "plain_key k \<Longrightarrow> get_field (canon (progress_json p)) k = (case map_of (progress_fields p) k of Some v \<Rightarrow> canon v | None \<Rightarrow> JNull)"
  unfolding progress_json_def by (rule get_field_canon [OF keys_facts [OF progress_keys]]) simp_all

lemma outcome_roundtrip:
  assumes "valid_outcome out"
  shows "decode_outcome (canon (outcome_json out)) = Some out"
proof -
  let ?j = "canon (outcome_json out)"
  note g = outcome_get outcome_fields_def field_lookup event_field_lookup report_field_lookup
  have s: "is_struct ?j" by (simp add: outcome_json_def del: canon.simps(2))
  have i: "dec_int ?j ''trace_id'' = Some (o_TraceID out)"
    using assms by (intro dec_int_field) (simp_all add: g valid_outcome_def del: map_of_append)
  have t: "dec_str ?j ''harness'' = Some (o_Harness out)" "dec_str ?j ''native_trace_id'' = Some (o_NativeTraceID out)"
    "dec_str ?j ''title'' = Some (o_Title out)" "dec_str ?j ''revision_digest'' = Some (o_RevisionDigest out)"
    "dec_str ?j ''status'' = Some (o_Status out)" "dec_str ?j ''error'' = Some (o_Error out)"
    by (rule dec_str_field; simp add: g del: map_of_append)+
  have w: "dec_list decode_warning ?j ''warnings'' = Some (o_Warnings out)"
    by (rule dec_list_field [where g = "\<lambda>w. canon (warning_json w)"]) (simp_all add: g comp_def warning_roundtrip del: map_of_append)
  show ?thesis by (simp add: decode_outcome_def s i t w)
qed

lemma report_roundtrip:
  assumes "valid_report r"
  shows "decode_report (canon (report_json r)) = Some r"
proof -
  let ?j = "canon (report_json r)"
  note g = report_get report_fields_def field_lookup event_field_lookup
  have s: "is_struct ?j" by (simp add: report_json_def del: canon.simps(2))
  have i: "dec_int ?j ''id'' = Some (ir_ID r)" "dec_int ?j ''imported'' = Some (ir_Imported r)" "dec_int ?j ''updated'' = Some (ir_Updated r)"
    "dec_int ?j ''unchanged'' = Some (ir_Unchanged r)" "dec_int ?j ''partially_parsed'' = Some (ir_Partial r)"
    "dec_int ?j ''unsupported'' = Some (ir_Unsupported r)" "dec_int ?j ''failed'' = Some (ir_Failed r)"
    using assms by - (rule dec_int_field; simp add: g valid_report_def del: map_of_append)+
  have c: "dec_str ?j ''created_at'' = Some (ir_CreatedAt r)" by (rule dec_str_field) (simp add: g del: map_of_append)
  have m: "decode_machine (get_field ?j ''source_machine'') = Some (ir_Machine r)"
    using machine_roundtrip by (simp add: g del: map_of_append)
  have b: "dec_bool ?j ''complete'' = Some (ir_Complete r)" by (simp add: dec_bool_def g del: map_of_append)
  have t: "dec_list decode_outcome ?j ''traces'' = Some (ir_Traces r)"
    by (rule dec_list_field [where g = "\<lambda>x. canon (outcome_json x)"])
      (use assms in \<open>auto simp: g comp_def valid_report_def list_all_iff outcome_roundtrip simp del: map_of_append\<close>)
  show ?thesis by (simp add: decode_report_def s i c m b t)
qed

lemma dec_ptr_field:
  assumes "get_field j k = (case x of None \<Rightarrow> JNull | Some v \<Rightarrow> canon (h v))"
    "\<And>v. x = Some v \<Longrightarrow> f (canon (h v)) = Some v \<and> (\<exists>kvs. h v = JObj kvs)"
  shows "dec_ptr f j k = Some x"
proof (cases x)
  case (Some v)
  with assms(2) obtain kvs where "f (canon (h v)) = Some v" "h v = JObj kvs" by blast
  with Some assms(1) show ?thesis by (auto simp: dec_ptr_def mk_obj_def)
qed (use assms(1) in \<open>simp add: dec_ptr_def\<close>)

lemma progress_roundtrip:
  assumes "valid_progress p"
  shows "decode_progress (canon (progress_json p)) = Some p"
proof -
  let ?j = "canon (progress_json p)"
  note g = progress_get progress_fields_def field_lookup event_field_lookup report_field_lookup
  have s: "is_struct ?j" by (simp add: progress_json_def del: canon.simps(2))
  have i: "dec_int ?j ''completed'' = Some (p_Completed p)" "dec_int ?j ''total'' = Some (p_Total p)"
    using assms by - (rule dec_int_field; simp add: g valid_progress_def del: map_of_append)+
  have t: "dec_str ?j ''phase'' = Some (p_Phase p)" "dec_str ?j ''error'' = Some (p_Error p)"
    by (rule dec_str_field; simp add: g del: map_of_append)+
  have out: "dec_ptr decode_outcome ?j ''outcome'' = Some (p_Outcome p)"
  proof (rule dec_ptr_field [where h = outcome_json])
    show "decode_outcome (canon (outcome_json v)) = Some v \<and> (\<exists>kvs. outcome_json v = JObj kvs)" if "p_Outcome p = Some v" for v
      using that assms by (intro conjI outcome_roundtrip exI [of _ "outcome_fields v"]) (simp_all add: valid_progress_def outcome_json_def)
  qed (simp add: g split: option.split del: map_of_append canon.simps(2))
  have rep: "dec_ptr decode_report ?j ''report'' = Some (p_Report p)"
  proof (rule dec_ptr_field [where h = report_json])
    show "decode_report (canon (report_json v)) = Some v \<and> (\<exists>kvs. report_json v = JObj kvs)" if "p_Report p = Some v" for v
      using that assms by (intro conjI report_roundtrip exI [of _ "report_fields v"]) (simp_all add: valid_progress_def report_json_def)
  qed (simp add: g split: option.split del: map_of_append canon.simps(2))
  show ?thesis by (simp add: decode_progress_def s i t out rep)
qed

subsection \<open>On a line\<close>

lemma wf_outcome: "valid_outcome out \<Longrightarrow> wf_json (outcome_json out) \<and> depth (outcome_json out) \<le> 3"
proof -
  assume v: "valid_outcome out"
  have "wf_json (JArr (map warning_json (o_Warnings out))) \<and> depth (JArr (map warning_json (o_Warnings out))) \<le> Suc 1"
    using v by (intro wf_array wf_warning) (auto simp: valid_outcome_def list_all_iff)
  then have "wf_fields 2 (list_omit ''warnings'' warning_json (o_Warnings out))"
    by (simp add: list_omit_def wf_fields_simps del: wf_json.simps depth.simps)
  moreover have "wf_fields 2 (int_omit ''trace_id'' (o_TraceID out))"
    using v by (simp add: int_omit_def wf_fields_simps valid_outcome_def)
  ultimately have "wf_fields 2 (outcome_fields out)"
    using v by (simp add: outcome_fields_def wf_fields_simps valid_outcome_def)
  from wf_fields_obj [OF this] show ?thesis by (simp add: outcome_json_def)
qed

lemma wf_report: "valid_report r \<Longrightarrow> wf_json (report_json r) \<and> depth (report_json r) \<le> 5"
proof -
  assume v: "valid_report r"
  have t: "wf_json (JArr (map outcome_json (ir_Traces r))) \<and> depth (JArr (map outcome_json (ir_Traces r))) \<le> Suc 3"
    using v by (intro wf_array wf_outcome) (auto simp: valid_report_def list_all_iff)
  have "wf_json (machine_json (ir_Machine r)) \<and> depth (machine_json (ir_Machine r)) \<le> Suc 0"
    using v unfolding machine_json_def
    by (intro wf_fields_obj) (simp add: wf_fields_simps valid_report_def valid_machine_def)
  then have "wf_fields 4 (report_fields r)"
    using v t by (simp add: report_fields_def wf_fields_simps valid_report_def del: wf_json.simps(3,4) depth.simps(1,2) list.pred_map)
  from wf_fields_obj [OF this] show ?thesis by (simp add: report_json_def)
qed

lemma wf_progress: "valid_progress p \<Longrightarrow> wf_json (progress_json p) \<and> depth (progress_json p) \<le> max_depth"
proof -
  assume v: "valid_progress p"
  have out: "wf_json (outcome_json x) \<and> depth (outcome_json x) \<le> 5" if "p_Outcome p = Some x" for x
    using wf_outcome [of x] v that by (simp add: valid_progress_def)
  have rep: "wf_json (report_json x) \<and> depth (report_json x) \<le> 5" if "p_Report p = Some x" for x
    using wf_report [of x] v that by (simp add: valid_progress_def)
  have "wf_fields 5 (progress_fields p)"
    using v out rep
    by (auto simp: progress_fields_def wf_fields_simps valid_progress_def int_omit_def ptr_omit_def split: option.split)
  from wf_fields_obj [OF this] show ?thesis by (simp add: progress_json_def max_depth_def)
qed

text \<open>What \<open>Encode\<close> of the server's encoder writes, and what the collector's scanner and \<open>Unmarshal\<close> make of it.\<close>

definition encode_line :: "Progress \<Rightarrow> string" where
  "encode_line p = Marshal (progress_json p)"

lemma unmarshal_line: "valid_progress p \<Longrightarrow> unmarshal_progress (encode_line p) = Inr p"
  using wf_progress [of p] progress_roundtrip [of p] parse_text_encode(1) [of "progress_json p" True]
  by (simp add: unmarshal_progress_def encode_line_def)

lemma line_printable: "valid_progress p \<Longrightarrow> list_all printable (encode_line p)"
  using wf_progress [of p] encode_printable by (simp add: encode_line_def)

end
