(* ===== verification/Upload.thy ===== *)
theory Upload
  imports ReportJson Validate Normalize StoreImport
begin

text \<open>
  Uploading an archive: the server's side, \<open>importZIP\<close> of \<open>internal/server/routes.go\<close>, and the collector's,
  \<open>internal/collector/upload.go\<close> with the collection state of \<open>internal/config/collector.go\<close>.  The server checks the ZIP,
  imports it and sends one line of JSON per step; the collector reads the lines up to the report, holds the report
  against the manifest it sent, and remembers the revisions the server has.
\<close>

subsection \<open>The server\<close>

text \<open>A response: the status code, its text and the body.\<close>

record Response =
  rs_Code :: int
  rs_Status :: string
  rs_Body :: string

definition error_json :: "string \<Rightarrow> string \<Rightarrow> json" where
  "error_json code message = JObj [(''_tag'', JStr code), (''api_version'', jint 1),
     (''error'', JObj [(''code'', JStr code), (''message'', JStr message)]), (''message'', JStr message)]"

definition writeError :: "int \<Rightarrow> string \<Rightarrow> string \<Rightarrow> string \<Rightarrow> Response" where
  "writeError code status tag message = \<lparr>rs_Code = code, rs_Status = status, rs_Body = Marshal (error_json tag message) @ newline\<rparr>"

text \<open>The file system of the ZIP reader.\<close>

definition zip_files :: "ZipEntry list \<Rightarrow> files" where
  "zip_files es name = map_option z_Data (find (\<lambda>e. z_Name e = name) es)"

definition zero_Progress :: Progress where
  "zero_Progress = \<lparr>p_Phase = [], p_Completed = 0, p_Total = 0, p_Outcome = None, p_Report = None, p_Error = []\<rparr>"

definition validating :: Progress where
  "validating = zero_Progress\<lparr>p_Phase := ''validating''\<rparr>"

definition import_failed :: "string \<Rightarrow> Progress" where
  "import_failed e = zero_Progress\<lparr>p_Phase := ''failed'', p_Error := e\<rparr>"

text \<open>The steps \<open>importZIP\<close> reports while it checks and imports an archive it has received.\<close>

definition import_archive :: "(string \<Rightarrow> ZipEntry list result) \<Rightarrow> Limits \<Rightarrow> (nat \<Rightarrow> string) \<Rightarrow> string \<Rightarrow> Store \<Rightarrow> Store \<times> Progress list" where
  "import_archive unzip limits clock bytes s =
     (case Validate unzip bytes (int (length bytes)) limits of
        Inl e \<Rightarrow> (s, [validating, import_failed e])
      | Inr v \<Rightarrow>
          (case Import clock Run (v_Manifest v) (zip_files (v_ZIP v)) s of
             (s, r, ps) \<Rightarrow> (s, validating # ps @ (case r of Inl e \<Rightarrow> [import_failed ''import interrupted; retry the ZIP''] | Inr _ \<Rightarrow> []))))"

definition importZIP :: "string \<Rightarrow> bool \<Rightarrow> (string \<Rightarrow> ZipEntry list result) \<Rightarrow> Limits \<Rightarrow> (nat \<Rightarrow> string) \<Rightarrow> string \<Rightarrow> Store \<Rightarrow> Store \<times> Response" where
  "importZIP contentType busy unzip limits clock bytes s =
     (if takeWhile (\<lambda>c. c \<noteq> CHR '';'') contentType \<noteq> ''application/zip''
      then (s, writeError 415 ''415 Unsupported Media Type'' ''content_type'' ''send a Trace ZIP with Content-Type: application/zip'')
      else if busy
      then (s, writeError 503 ''503 Service Unavailable'' ''import_busy'' ''another import is running; retry this ZIP'')
      else if l_ArchiveBytes limits < int (length bytes)
      then (s, writeError 400 ''400 Bad Request'' ''upload_failed'' ''upload is incomplete or exceeds the configured limit'')
      else case import_archive unzip limits clock bytes s of
        (s, ps) \<Rightarrow> (s, \<lparr>rs_Code = 200, rs_Status = ''200 OK'', rs_Body = concat (map (\<lambda>p. encode_line p @ newline) ps)\<rparr>))"

subsection \<open>The collector's state\<close>

record CollectionRevision =
  cr_Digest :: string
  cr_MachineID :: string

record Collector =
  cfg_MachineID :: string
  cfg_ServerURL :: string
  cfg_Token :: string
  cfg_Sources :: "(string \<times> string list) list"
  cfg_State :: "(string \<times> CollectionRevision) list"

definition StateKey :: "string \<Rightarrow> string \<Rightarrow> string" where
  "StateKey harness nativeTraceID = harness @ nul @ nativeTraceID"

definition acknowledged :: "string \<Rightarrow> bool" where
  "acknowledged status \<longleftrightarrow> status = ''imported'' \<or> status = ''updated'' \<or> status = ''unchanged''"

definition acknowledge :: "ImportReport \<Rightarrow> Collector \<Rightarrow> Collector" where
  "acknowledge report cfg = cfg\<lparr>cfg_State := foldl (\<lambda>state out.
     if acknowledged (o_Status out)
     then alist_put (StateKey (o_Harness out) (o_NativeTraceID out)) \<lparr>cr_Digest = o_RevisionDigest out, cr_MachineID = cfg_MachineID cfg\<rparr> state
     else state) (cfg_State cfg) (ir_Traces report)\<rparr>"

subsection \<open>Reading the response\<close>

record UploadStatus =
  us_File :: string
  us_Phase :: string
  us_Sent :: int
  us_Size :: int
  us_Completed :: int
  us_Total :: int

definition upload_step :: "string \<Rightarrow> string \<Rightarrow> int \<Rightarrow> int \<Rightarrow> UploadStatus" where
  "upload_step path phase completed n = \<lparr>us_File = path, us_Phase = phase, us_Sent = 0, us_Size = 0, us_Completed = completed, us_Total = n\<rparr>"

definition max_line :: nat where "max_line = 4 * 2 ^ 20"

text \<open>The loop over the lines, with the report read so far; it gives what was reported to the caller and the result.\<close>

fun read_progress :: "string \<Rightarrow> string list \<Rightarrow> ImportReport option \<Rightarrow> UploadStatus list \<times> ImportReport result" where
  "read_progress path [] report =
     ([], case report of None \<Rightarrow> Inl ''import response ended without a complete report'' | Some r \<Rightarrow> Inr r)"
| "read_progress path (line # ls) report =
     (if max_line \<le> length line then ([], Inl ''read import progress: bufio.Scanner: token too long'')
      else case unmarshal_progress (strip_cr line) of
        Inl e \<Rightarrow> ([], Inl (''malformed import progress: '' @ e))
      | Inr event \<Rightarrow>
          if p_Phase event = ''validating'' \<or> p_Phase event = ''normalizing''
          then (if report \<noteq> None then ([], Inl ''progress received after complete report'')
                else case read_progress path ls report of
                  (steps, r) \<Rightarrow> (upload_step path (p_Phase event) (p_Completed event) (p_Total event) # steps, r))
          else if p_Phase event = ''complete''
          then (if report \<noteq> None \<or> p_Report event = None then ([], Inl ''complete progress must contain exactly one report'')
                else read_progress path ls (p_Report event))
          else if p_Phase event = ''failed''
          then (if report \<noteq> None then ([], Inl ''progress received after complete report'')
                else if p_Error event = [] then ([], Inl ''import failed without an error'')
                else ([], Inl (''import failed: '' @ p_Error event)))
          else ([], Inl (''unknown import progress phase '' @ quote False (p_Phase event))))"

definition readCompleteReport :: "string \<Rightarrow> string \<Rightarrow> UploadStatus list \<times> ImportReport result" where
  "readCompleteReport path body = read_progress path (raw_lines body) None"

subsection \<open>Holding the report against the manifest\<close>

definition known_status :: "string \<Rightarrow> bool" where
  "known_status status \<longleftrightarrow> status \<in> {''imported'', ''updated'', ''unchanged'', ''partially_parsed'', ''unsupported'', ''failed''}"

fun check_outcomes :: "(string \<times> string) list \<Rightarrow> TraceOutcome list \<Rightarrow> string list \<Rightarrow> string list result" where
  "check_outcomes expected [] seen = Inr seen"
| "check_outcomes expected (out # outs) seen =
     (let key = StateKey (o_Harness out) (o_NativeTraceID out); name = o_Harness out @ ''/'' @ o_NativeTraceID out
      in if map_of expected key \<noteq> Some (o_RevisionDigest out) then Inl (''server reported an unknown trace revision '' @ name)
         else if key \<in> set seen then Inl (''server reported trace '' @ name @ '' more than once'')
         else if \<not> known_status (o_Status out) then Inl (''server reported unknown trace status '' @ quote False (o_Status out))
         else check_outcomes expected outs (key # seen))"

definition outcome_count :: "string \<Rightarrow> TraceOutcome list \<Rightarrow> int" where
  "outcome_count status outs = int (length (filter (\<lambda>out. o_Status out = status) outs))"

text \<open>\<open>expected\<close> is the map of the descriptors' digests; a later descriptor of the same trace replaces an earlier one.\<close>

definition expected_digests :: "Descriptor list \<Rightarrow> (string \<times> string) list" where
  "expected_digests ds = foldl (\<lambda>m d. alist_put (StateKey (d_Harness d) (d_NativeTraceID d)) (d_RevisionDigest d) m) [] ds"

definition validateOutcomes :: "ImportReport \<Rightarrow> Descriptor list \<Rightarrow> string option" where
  "validateOutcomes report ds =
     (let expected = expected_digests ds; outs = ir_Traces report
      in case check_outcomes expected outs [] of
           Inl e \<Rightarrow> Some e
         | Inr seen \<Rightarrow>
             if length seen \<noteq> length expected
             then Some (''server reported '' @ Itoa (int (length seen)) @ '' of '' @ Itoa (int (length expected)) @ '' trace outcomes'')
             else if outcome_count ''imported'' outs \<noteq> ir_Imported report \<or> outcome_count ''updated'' outs \<noteq> ir_Updated report \<or>
               outcome_count ''unchanged'' outs \<noteq> ir_Unchanged report \<or> outcome_count ''partially_parsed'' outs \<noteq> ir_Partial report \<or>
               outcome_count ''unsupported'' outs \<noteq> ir_Unsupported report \<or> outcome_count ''failed'' outs \<noteq> ir_Failed report
             then Some ''server report totals do not match its trace outcomes''
             else None)"

subsection \<open>Uploading\<close>

text \<open>The request is a function of the token and the bytes sent, with an error of the connection; \<open>reads\<close> are the sizes in which the
  HTTP client reads the file.\<close>

type_synonym post = "string \<Rightarrow> string \<Rightarrow> Response result"

fun sent_steps :: "string \<Rightarrow> int \<Rightarrow> int \<Rightarrow> nat list \<Rightarrow> UploadStatus list" where
  "sent_steps path n sent [] = []"
| "sent_steps path n sent (k # ks) =
     (let sent = sent + int k
      in (if k = 0 then [] else [\<lparr>us_File = path, us_Phase = ''sending'', us_Sent = sent, us_Size = n, us_Completed = 0, us_Total = 0\<rparr>])
         @ sent_steps path n sent ks)"

definition uploadOne :: "(string \<Rightarrow> ZipEntry list result) \<Rightarrow> post \<Rightarrow> nat list \<Rightarrow> string \<Rightarrow> string \<Rightarrow> string \<Rightarrow>
    UploadStatus list \<times> (ImportReport \<times> Manifest) result" where
  "uploadOne unzip post reads token path bytes =
     (let n = int (length bytes); checking = upload_step path ''checking'' 0 0
      in case Validate unzip bytes n DefaultLimits of
        Inl e \<Rightarrow> ([checking], Inl (''validate '' @ path @ '' before upload: '' @ e))
      | Inr v \<Rightarrow>
          (let nt = int (length (mf_Traces (v_Manifest v)));
               steps = [checking, upload_step path ''checked'' nt nt] @ sent_steps path n 0 reads
           in case post token bytes of
                Inl e \<Rightarrow> (steps, Inl (''upload '' @ path @ '': '' @ e))
              | Inr r \<Rightarrow>
                  if rs_Code r < 200 \<or> 300 \<le> rs_Code r
                  then (steps, Inl (''upload '' @ path @ '': server returned '' @ rs_Status r @ '': '' @ TrimSpace (take 4096 (rs_Body r))))
                  else case readCompleteReport path (rs_Body r) of
                      (rest, Inl e) \<Rightarrow> (steps @ rest, Inl (''upload '' @ path @ '': '' @ e))
                    | (rest, Inr report) \<Rightarrow>
                        (let m = int (length (ir_Traces report))
                         in (steps @ rest @ [upload_step path ''complete'' m m], Inr (report, v_Manifest v)))))"

text \<open>One file of \<open>Upload\<close>; \<open>save\<close> gives the error of writing the configuration.  The result has the changed
  configuration also when there is an error.\<close>

definition upload_file :: "(string \<Rightarrow> ZipEntry list result) \<Rightarrow> post \<Rightarrow> nat list \<Rightarrow> (Collector \<Rightarrow> string option) \<Rightarrow> string \<times> string \<Rightarrow>
    Collector \<Rightarrow> Collector \<times> UploadStatus list \<times> ImportReport result" where
  "upload_file unzip post reads save item cfg =
     (case item of (path, bytes) \<Rightarrow>
        (case uploadOne unzip post reads (cfg_Token cfg) path bytes of
           (steps, Inl e) \<Rightarrow> (cfg, steps, Inl e)
         | (steps, Inr (report, manifest)) \<Rightarrow>
             if m_ID (ir_Machine report) \<noteq> m_ID (mf_SourceMachine manifest)
             then (cfg, steps, Inl (''upload '' @ path @ '': server report belongs to machine '' @ quote False (m_ID (ir_Machine report)) @
               '', archive belongs to '' @ quote False (m_ID (mf_SourceMachine manifest))))
             else case validateOutcomes report (mf_Traces manifest) of
               Some e \<Rightarrow> (cfg, steps, Inl (''upload '' @ path @ '': '' @ e))
             | None \<Rightarrow>
                 if m_ID (mf_SourceMachine manifest) \<noteq> cfg_MachineID cfg then (cfg, steps, Inr report)
                 else let cfg = acknowledge report cfg
                      in (cfg, steps, case save cfg of Some e \<Rightarrow> Inl e | None \<Rightarrow> Inr report)))"

fun upload_files :: "(string \<Rightarrow> ZipEntry list result) \<Rightarrow> post \<Rightarrow> nat list \<Rightarrow> (Collector \<Rightarrow> string option) \<Rightarrow> (string \<times> string) list \<Rightarrow>
    Collector \<Rightarrow> Collector \<times> UploadStatus list \<times> ImportReport list \<times> string option" where
  "upload_files unzip post reads save [] cfg = (cfg, [], [], None)"
| "upload_files unzip post reads save (item # items) cfg =
     (case upload_file unzip post reads save item cfg of
        (cfg, steps, Inl e) \<Rightarrow> (cfg, steps, [], Some e)
      | (cfg, steps, Inr report) \<Rightarrow>
          (case upload_files unzip post reads save items cfg of
             (cfg, rest, reports, e) \<Rightarrow> (cfg, steps @ rest, report # reports, e)))"

text \<open>\<open>endpoint\<close> is \<open>client.Endpoint\<close> of the server's URL, which \<open>net/url\<close> parses.\<close>

definition not_logged_in :: string where
  "not_logged_in = ''not logged in; run traicr login URL and provide a token''"

definition Upload :: "(string \<Rightarrow> ZipEntry list result) \<Rightarrow> (string \<Rightarrow> string result) \<Rightarrow> (string \<Rightarrow> post) \<Rightarrow> nat list \<Rightarrow> (Collector \<Rightarrow> string option) \<Rightarrow>
    (string \<times> string) list \<Rightarrow> Collector \<Rightarrow> Collector \<times> UploadStatus list \<times> ImportReport list \<times> string option" where
  "Upload unzip endpoint post reads save items cfg =
     (if cfg_ServerURL cfg = [] \<or> cfg_Token cfg = [] then (cfg, [], [], Some not_logged_in)
      else case endpoint (cfg_ServerURL cfg) of
             Inl e \<Rightarrow> (cfg, [], [], Some e)
           | Inr url \<Rightarrow> upload_files unzip (post url) reads save items cfg)"

end
