(* ===== verification/UploadFacts.thy ===== *)
theory UploadFacts
  imports Upload StoreProperties
begin

text \<open>
  What the collector makes of the server's answer: which streams it reads as a report, and that the report of an
  import always passes its checks.
\<close>

subsection \<open>Statuses\<close>

lemma Run_status:
  "snd (Run d src) \<noteq> None \<or> n_Status (fst (Run d src)) \<in> {''normalized'', ''partially_parsed'', ''unsupported''}"
proof (cases "normalizer_of d")
  case (Some f)
  have f: "normalizer f" by (rule normalizer_of_contract [OF Some])
  show ?thesis
    using Some normalizer.run_status [OF f]
    by (cases "f (newLimitedFS src (source_limit (d_Harness d)))") (auto simp: Run_def status_of_def)
qed (simp add: Run_def)

lemma normalizeResult_status:
  "n_Status (fst (normalizeResult Run d src)) \<in> {''normalized'', ''partially_parsed'', ''unsupported'', ''failed''}"
  using Run_status [of d src] by (cases "Run d src") (auto simp: normalizeResult_def Let_def split: option.split)

lemma status_simps [simp]:
  "o_Status (failed m out) = ''failed''" "o_Status (warn ws out) = o_Status out" "o_Status (note_error e out) = o_Status out"
  by (simp_all add: failed_def warn_def note_error_def split: option.split)

lemma retry_status: "known_status (o_Status (snd (retry_revision now Run d source i j out s)))"
  using normalizeResult_status [of d source]
  by (cases "normalizeResult Run d source")
    (auto simp: retry_revision_def Let_def known_status_def normalizationSuccessful_def split: prod.split sum.split)

lemma importTrace_status: "known_status (o_Status (snd (importTrace now Run manifest d sources s)))"
proof -
  have f: "known_status ''failed''" by (simp add: known_status_def)
  have known: "known_status (o_Status (snd (known_revision now Run manifest d source j i status out s)))" for source j i status out s
    using retry_status f by (auto simp: known_revision_def Let_def known_status_def [of "''unchanged''"] known_status_def [of "''updated''"] split: prod.split sum.split)
  have new: "known_status (o_Status (snd (new_revision now Run manifest d source stored out s)))" for source stored out s
    using f by (auto simp: new_revision_def known_status_def split: prod.split sum.split)
  show ?thesis using f known new by (simp add: importTrace_def Let_def split: prod.split sum.split option.split)
qed

lemma import_traces_status:
  assumes "list_all (\<lambda>out. known_status (o_Status out)) (ir_Traces (fst (snd st)))"
  shows "list_all (\<lambda>out. known_status (o_Status out)) (ir_Traces (fst (snd (import_traces clock Run manifest sources i ds st))))"
  using assms
proof (induction ds arbitrary: i st)
  case (Cons d ds)
  obtain s report progress where st: "st = (s, report, progress)" by (cases st)
  obtain s' out where t: "importTrace (clock (Suc i)) Run manifest d sources s = (s', out)" by force
  have "known_status (o_Status out)" using importTrace_status [of "clock (Suc i)" manifest d sources s] t by simp
  moreover have "ir_Traces (countOutcome status r) = ir_Traces r" for status r by (simp add: countOutcome_def)
  ultimately show ?case using Cons.prems by (simp add: st t) (rule Cons.IH, simp)
qed simp

text \<open>The progress of an import: steps, then the report.\<close>

definition step_phase :: "Progress \<Rightarrow> bool" where
  "step_phase p \<longleftrightarrow> p_Phase p = ''validating'' \<or> p_Phase p = ''normalizing''"

lemma step_normalizing [simp]: "step_phase (normalizing i n out)"
  by (simp add: step_phase_def normalizing_def)

lemma import_traces_steps:
  assumes "list_all step_phase (snd (snd st))"
  shows "list_all step_phase (snd (snd (import_traces clock run manifest sources i ds st)))"
  using assms
proof (induction ds arbitrary: i st)
  case (Cons d ds)
  obtain s report progress where st: "st = (s, report, progress)" by (cases st)
  obtain s' out where t: "importTrace (clock (Suc i)) run manifest d sources s = (s', out)" by force
  show ?case using Cons.prems by (simp add: st t) (rule Cons.IH, simp)
qed simp

lemma Import_stream:
  assumes "Import clock Run manifest sources s = (s', Inr r, ps)"
  shows "list_all (\<lambda>out. known_status (o_Status out)) (ir_Traces r)"
    "\<exists>steps q. ps = steps @ [q] \<and> list_all step_phase steps \<and> p_Phase q = ''complete'' \<and> p_Report q = Some r"
    "ir_Machine r = mf_SourceMachine manifest"
proof -
  let ?n = "length (mf_Traces manifest)"
  define b where "b = beginImport (zero_Report\<lparr>ir_CreatedAt := clock 0, ir_Machine := mf_SourceMachine manifest\<rparr>) s"
  obtain s1 r1 where b: "b = (s1, r1)" by force
  have r1: "ir_Traces r1 = []" "ir_Machine r1 = mf_SourceMachine manifest" using b by (auto simp: b_def beginImport_def Let_def zero_Report_def)
  obtain s2 r2 p where t: "import_traces clock Run manifest sources 0 (mf_Traces manifest) (s1, r1, [normalizing 0 ?n None]) = (s2, r2, p)"
    by (metis prod.collapse)
  have r: "r = r2\<lparr>ir_Complete := True\<rparr>" "\<exists>q. ps = p @ [q] \<and> p_Phase q = ''complete'' \<and> p_Report q = Some r"
    using assms by (auto simp: Import_def Let_def b_def [symmetric] b t split: sum.splits)
  show "list_all (\<lambda>out. known_status (o_Status out)) (ir_Traces r)"
    using import_traces_status [of "(s1, r1, [normalizing 0 ?n None])" clock manifest sources 0 "mf_Traces manifest"] r1 r(1) by (simp add: t)
  show "\<exists>steps q. ps = steps @ [q] \<and> list_all step_phase steps \<and> p_Phase q = ''complete'' \<and> p_Report q = Some r"
    using import_traces_steps [of "(s1, r1, [normalizing 0 ?n None])" clock Run manifest sources 0 "mf_Traces manifest"] r(2)
    by (auto simp: t)
  have m: "ir_Machine (fst (snd (import_traces clock Run manifest sources i ds st))) = ir_Machine (fst (snd st))" for i ds st
    by (induction clock "Run :: normalize_fun" manifest sources i ds st rule: import_traces.induct)
      (auto simp: countOutcome_def split: prod.split)
  show "ir_Machine r = mf_SourceMachine manifest"
    using m [of 0 "mf_Traces manifest" "(s1, r1, [normalizing 0 ?n None])"] r(1) r1(2) by (simp add: t)
qed

subsection \<open>Streams\<close>

lemma Split_line: "sep \<notin> set l \<Longrightarrow> Split sep (l @ sep # s) = l # Split sep s"
  by (induction l) auto

lemma raw_lines_concat:
  assumes "list_all (\<lambda>l. CHR 0x0A \<notin> set l) ls"
  shows "raw_lines (concat (map (\<lambda>l. l @ newline) ls)) = ls"
proof -
  have "Split (CHR 0x0A) (concat (map (\<lambda>l. l @ newline) ls)) = ls @ [[]]"
    using assms by (induction ls) (simp_all add: newline_def Split_line)
  then show ?thesis by (simp add: raw_lines_def)
qed

lemma printable_lines:
  assumes "list_all printable l"
  shows "CHR 0x0A \<notin> set l" "strip_cr l = l"
proof -
  show "CHR 0x0A \<notin> set l" using assms by (auto simp: list_all_iff printable_def)
  have "\<not> suffix [CHR 0x0D] l" using assms by (auto simp: list_all_iff printable_def suffix_def)
  then show "strip_cr l = l" by (simp add: strip_cr_def TrimSuffix_def)
qed

text \<open>A line as the collector understands it.\<close>

abbreviation line_event :: "string \<Rightarrow> Progress result" where
  "line_event l \<equiv> unmarshal_progress (strip_cr l)"

definition step_line :: "string \<Rightarrow> bool" where
  "step_line l \<longleftrightarrow> length l < max_line \<and> (case line_event l of Inr p \<Rightarrow> step_phase p | Inl _ \<Rightarrow> False)"

definition report_line :: "ImportReport \<Rightarrow> string \<Rightarrow> bool" where
  "report_line r l \<longleftrightarrow> length l < max_line \<and> (case line_event l of Inr p \<Rightarrow> p_Phase p = ''complete'' \<and> p_Report p = Some r | Inl _ \<Rightarrow> False)"

lemma read_progress_reported: "snd (read_progress path ls (Some r)) = Inr r' \<longleftrightarrow> ls = [] \<and> r' = r"
  by (cases ls) (auto split: sum.split)

lemma read_progress_accepts:
  "snd (read_progress path ls None) = Inr r \<longleftrightarrow> (\<exists>ks l. ls = ks @ [l] \<and> list_all step_line ks \<and> report_line r l)"
proof (induction ls)
  case (Cons l ls)
  define rest where "rest \<longleftrightarrow> (\<exists>ks l'. ls = ks @ [l'] \<and> list_all step_line ks \<and> report_line r l')"
  have IH: "snd (read_progress path ls None) = Inr r \<longleftrightarrow> rest" using Cons.IH by (simp add: rest_def)
  have split: "(\<exists>ks l'. l # ls = ks @ [l'] \<and> list_all step_line ks \<and> report_line r l') \<longleftrightarrow> ls = [] \<and> report_line r l \<or> step_line l \<and> rest"
    by (auto simp: Cons_eq_append_conv rest_def)
  show ?case
  proof (cases "max_line \<le> length l \<or> (\<exists>e. line_event l = Inl e)")
    case True
    then show ?thesis unfolding split by (auto simp: step_line_def report_line_def)
  next
    case False
    then obtain p where p: "\<not> max_line \<le> length l" "line_event l = Inr p" by (cases "line_event l") auto
    then have lines: "step_line l \<longleftrightarrow> step_phase p" "report_line r l \<longleftrightarrow> p_Phase p = ''complete'' \<and> p_Report p = Some r"
      by (simp_all add: step_line_def report_line_def)
    show ?thesis unfolding split lines using p IH
      by (cases "p_Report p") (auto simp: step_phase_def read_progress_reported split: prod.split)
  qed
qed simp

text \<open>C33. Every outcome of an import has one of the six statuses the collector knows, whatever the archive holds and
  whichever normalizer handles its traces.\<close>

theorem Import_statuses:
  assumes "Import clock Run manifest sources s = (s', Inr r, ps)"
  shows "list_all (\<lambda>out. known_status (o_Status out)) (ir_Traces r)"
  by (rule Import_stream(1) [OF assms])

text \<open>C31. The collector takes a response as a report exactly when it is complete: every line but the last is a step of validating or
  normalizing, the last one is the only report, and no line is too long.  A response that was cut off, that reports a
  failure, or that goes on after the report is an error.\<close>

theorem readCompleteReport_accepts:
  "snd (readCompleteReport path body) = Inr r \<longleftrightarrow>
     (\<exists>ks l. raw_lines body = ks @ [l] \<and> list_all step_line ks \<and> report_line r l)"
  by (simp add: readCompleteReport_def read_progress_accepts)

subsection \<open>The checks\<close>

abbreviation outcome_state :: "TraceOutcome \<Rightarrow> string" where
  "outcome_state out \<equiv> StateKey (o_Harness out) (o_NativeTraceID out)"

abbreviation descriptor_state :: "Descriptor \<Rightarrow> string" where
  "descriptor_state d \<equiv> StateKey (d_Harness d) (d_NativeTraceID d)"

lemma expected_digests_distinct:
  assumes "distinct (map descriptor_state ds)"
  shows "expected_digests ds = map (\<lambda>d. (descriptor_state d, d_RevisionDigest d)) ds"
proof -
  have "foldl (\<lambda>m d. alist_put (descriptor_state d) (d_RevisionDigest d) m) m ds = m @ map (\<lambda>d. (descriptor_state d, d_RevisionDigest d)) ds"
    if "distinct (map fst m @ map descriptor_state ds)" for m
    using that
  proof (induction ds arbitrary: m)
    case (Cons d ds)
    then show ?case by (auto simp: alist_put_new)
  qed simp
  from this [of "[]"] assms show ?thesis by (simp add: expected_digests_def)
qed

lemma check_outcomes_ok:
  "list_all (\<lambda>out. map_of expected (outcome_state out) = Some (o_RevisionDigest out) \<and> known_status (o_Status out)) outs \<Longrightarrow>
   distinct (map outcome_state outs @ seen) \<Longrightarrow> check_outcomes expected outs seen = Inr (rev (map outcome_state outs) @ seen)"
  by (induction outs arbitrary: seen) (auto simp: Let_def)

lemma status_total:
  assumes "list_all (\<lambda>out. known_status (o_Status out)) outs"
  shows "outcome_count ''imported'' outs + outcome_count ''updated'' outs + outcome_count ''unchanged'' outs + outcome_count ''partially_parsed'' outs +
    outcome_count ''unsupported'' outs + outcome_count ''failed'' outs = int (length outs)"
  using assms by (induction outs) (auto simp: outcome_count_def known_status_def)

lemma validateOutcomes_ok:
  assumes "list_all (\<lambda>out. known_status (o_Status out)) (ir_Traces r)" "counted r"
    "map outcome_key (ir_Traces r) = map descriptor_key ds" "distinct (map descriptor_state ds)"
  shows "validateOutcomes r ds = None"
proof -
  have keys: "map outcome_state (ir_Traces r) = map descriptor_state ds"
    using arg_cong [OF assms(3), of "map (\<lambda>(h, n, d). StateKey h n)"] by (simp add: comp_def)
  have pairs: "map (\<lambda>out. (outcome_state out, o_RevisionDigest out)) (ir_Traces r) = map (\<lambda>d. (descriptor_state d, d_RevisionDigest d)) ds"
    using arg_cong [OF assms(3), of "map (\<lambda>(h, n, d). (StateKey h n, d))"] by (simp add: comp_def)
  have "map_of (expected_digests ds) (outcome_state out) = Some (o_RevisionDigest out)" if "out \<in> set (ir_Traces r)" for out
  proof (rule map_of_is_SomeI)
    show "distinct (map fst (expected_digests ds))" using assms(4) by (simp add: expected_digests_distinct comp_def)
    have "(outcome_state out, o_RevisionDigest out) \<in> set (map (\<lambda>out. (outcome_state out, o_RevisionDigest out)) (ir_Traces r))" using that by simp
    then show "(outcome_state out, o_RevisionDigest out) \<in> set (expected_digests ds)" unfolding pairs expected_digests_distinct [OF assms(4)] .
  qed
  then have "check_outcomes (expected_digests ds) (ir_Traces r) [] = Inr (rev (map outcome_state (ir_Traces r)) @ [])"
    using assms(1, 4) keys by (intro check_outcomes_ok) (simp_all add: list_all_iff)
  moreover have "length (expected_digests ds) = length (ir_Traces r)"
    using arg_cong [OF keys, of length] by (simp add: expected_digests_distinct [OF assms(4)])
  moreover have count: "status_count st r = outcome_count st (ir_Traces r)" for st by (simp add: status_count_def outcome_count_def)
  moreover have "ir_Failed r = outcome_count ''failed'' (ir_Traces r)"
    using assms(2) status_total [OF assms(1)] unfolding counted_def count by linarith
  ultimately show ?thesis using assms(2) by (simp add: validateOutcomes_def Let_def counted_def)
qed

lemma acknowledge_state:
  assumes "distinct (map outcome_state (ir_Traces r))" "out \<in> set (ir_Traces r)" "acknowledged (o_Status out)"
  shows "map_of (cfg_State (acknowledge r cfg)) (outcome_state out) = Some \<lparr>cr_Digest = o_RevisionDigest out, cr_MachineID = cfg_MachineID cfg\<rparr>"
proof -
  define put where "put = (\<lambda>state out. if acknowledged (o_Status out)
     then alist_put (outcome_state out) \<lparr>cr_Digest = o_RevisionDigest out, cr_MachineID = cfg_MachineID cfg\<rparr> state else state)"
  have keep: "map_of (foldl put state outs) k = map_of state k" if "k \<notin> outcome_state ` set outs" for outs state k
    using that by (induction outs arbitrary: state) (auto simp: put_def)
  obtain us vs where split: "ir_Traces r = us @ out # vs" using split_list [OF assms(2)] by blast
  have "outcome_state out \<notin> outcome_state ` set vs" using assms(1) split by auto
  moreover have "put st out = alist_put (outcome_state out) \<lparr>cr_Digest = o_RevisionDigest out, cr_MachineID = cfg_MachineID cfg\<rparr> st" for st
    using assms(3) by (simp add: put_def)
  ultimately have "map_of (foldl put (cfg_State cfg) (ir_Traces r)) (outcome_state out) = Some \<lparr>cr_Digest = o_RevisionDigest out, cr_MachineID = cfg_MachineID cfg\<rparr>"
    using keep by (simp add: split)
  then show ?thesis by (simp add: acknowledge_def put_def [symmetric, abs_def])
qed

lemma validate_traces_distinct:
  "validate_traces limits files ds names ids = Inr names' \<Longrightarrow> distinct (map identity ds) \<and> set (map identity ds) \<inter> set ids = {}"
  by (induction ds arbitrary: names ids) (fastforce simp: bind_result_Inr_iff split: if_splits)+

lemma validated_distinct:
  assumes "Validate unzip bytes n limits = Inr v"
  shows "distinct (map identity (mf_Traces (v_Manifest v)))"
  using assms validate_traces_distinct by (fastforce simp: Validate_def bind_result_Inr_iff)

subsection \<open>The whole way\<close>

lemma stream_accepted:
  assumes "list_all step_phase steps" "p_Phase q = ''complete''" "p_Report q = Some r"
    "list_all (\<lambda>p. valid_progress p \<and> length (encode_line p) < max_line) (steps @ [q])"
  shows "snd (readCompleteReport path (concat (map (\<lambda>p. encode_line p @ newline) (steps @ [q])))) = Inr r"
proof -
  have l: "CHR 0x0A \<notin> set (encode_line p)" "line_event (encode_line p) = Inr p" if "p \<in> set (steps @ [q])" for p
    using that assms(4) printable_lines [OF line_printable [of p]] unmarshal_line [of p] by (auto simp: list_all_iff)
  have "raw_lines (concat (map (\<lambda>l. l @ newline) (map encode_line (steps @ [q])))) = map encode_line (steps @ [q])"
    by (rule raw_lines_concat) (use l in \<open>auto simp: list_all_iff\<close>)
  then have lines: "raw_lines (concat (map (\<lambda>p. encode_line p @ newline) (steps @ [q]))) = map encode_line steps @ [encode_line q]"
    by (simp add: comp_def)
  have "list_all step_line (map encode_line steps)" "report_line r (encode_line q)"
    using assms l by (auto simp: list_all_iff step_line_def report_line_def)
  then have "snd (read_progress path (map encode_line steps @ [encode_line q]) None) = Inr r" by (subst read_progress_accepts) blast
  then show ?thesis by (simp only: readCompleteReport_def lines)
qed

text \<open>C32. An upload goes all the way: when an archive passes the checks, the server imports it and the collector, reading what the
  server sends while it does, accepts the very report the import made; it ends without an error and remembers, for every trace that
  report calls imported, updated or unchanged, the digest it sent.  A trace that was stored as partly parsed, unsupported or failed is
  not remembered and is sent again.  Every line of the response must be shorter than the 4 MiB the collector's scanner reads; with
  a longer one, which a report of many traces is, the upload fails although the import succeeded.\<close>

theorem upload_acknowledged:
  assumes "Validate unzip bytes (int (length bytes)) DefaultLimits = Inr v" "reachable s"
    and "importZIP ''application/zip'' False unzip DefaultLimits clock bytes s = (s', response)"
    and "list_all (\<lambda>p. valid_progress p \<and> length (encode_line p) < max_line) (snd (import_archive unzip DefaultLimits clock bytes s))"
    and "cfg_MachineID cfg = m_ID (mf_SourceMachine (v_Manifest v))"
  shows "\<exists>r ps steps. Import clock Run (v_Manifest v) (zip_files (v_ZIP v)) s = (s', Inr r, ps) \<and>
    upload_file unzip (\<lambda>_ _. Inr response) reads (\<lambda>_. None) (path, bytes) cfg = (acknowledge r cfg, steps, Inr r) \<and>
    map outcome_key (ir_Traces r) = map descriptor_key (mf_Traces (v_Manifest v)) \<and>
    list_all (\<lambda>out. acknowledged (o_Status out) \<longrightarrow> map_of (cfg_State (acknowledge r cfg)) (outcome_state out) =
      Some \<lparr>cr_Digest = o_RevisionDigest out, cr_MachineID = cfg_MachineID cfg\<rparr>) (ir_Traces r)"
proof -
  let ?m = "v_Manifest v"
  have ok: "log_ok s" using log.always [OF assms(2)] .
  from Import_finishes [OF ok, of clock Run ?m "zip_files (v_ZIP v)"] obtain s1 r ps where
    i: "Import clock Run ?m (zip_files (v_ZIP v)) s = (s1, Inr r, ps)" by metis
  note stream = Import_stream [OF i]
  obtain steps q where ps: "ps = steps @ [q]" "list_all step_phase steps" "p_Phase q = ''complete''" "p_Report q = Some r" using stream(2) by blast
  have arch: "import_archive unzip DefaultLimits clock bytes s = (s1, validating # ps)" by (simp add: import_archive_def assms(1) i)
  have size: "int (length bytes) \<le> l_ArchiveBytes DefaultLimits" using assms(1) by (auto simp: Validate_def bind_result_Inr_iff)
  have s': "s' = s1" using assms(3) size by (simp add: importZIP_def arch ps(1))
  have resp: "response = \<lparr>rs_Code = 200, rs_Status = ''200 OK'', rs_Body = concat (map (\<lambda>p. encode_line p @ newline) ((validating # steps) @ [q]))\<rparr>"
    using assms(3) size by (simp add: importZIP_def arch ps(1))
  have "step_phase validating" by (simp add: step_phase_def validating_def)
  then have "snd (readCompleteReport path (rs_Body response)) = Inr r"
    unfolding resp Response.simps using assms(4) ps by (intro stream_accepted) (simp_all add: arch)
  then obtain rest where rest: "readCompleteReport path (rs_Body response) = (rest, Inr r)" by (metis prod.collapse)
  have "distinct (map identity (mf_Traces ?m))" using validated_distinct [OF assms(1)] .
  then have dist: "distinct (map descriptor_state (mf_Traces ?m))" by (simp add: identity_def [abs_def] StateKey_def)
  note out = Import_outcomes [OF i]
  have none: "validateOutcomes r (mf_Traces ?m) = None" using validateOutcomes_ok [OF stream(1)] out dist by blast
  have keys: "map outcome_state (ir_Traces r) = map descriptor_state (mf_Traces ?m)"
    using arg_cong [OF conjunct1 [OF out], of "map (\<lambda>(h, n, d). StateKey h n)"] by (simp add: comp_def)
  have code: "\<not> (rs_Code response < 200 \<or> 300 \<le> rs_Code response)" by (simp add: resp)
  have "\<exists>steps. uploadOne unzip (\<lambda>_ _. Inr response) reads (cfg_Token cfg) path bytes = (steps, Inr (r, ?m))"
    using code by (simp add: uploadOne_def Let_def assms(1) rest)
  then obtain us where "uploadOne unzip (\<lambda>_ _. Inr response) reads (cfg_Token cfg) path bytes = (us, Inr (r, ?m))" by blast
  then have "upload_file unzip (\<lambda>_ _. Inr response) reads (\<lambda>_. None) (path, bytes) cfg = (acknowledge r cfg, us, Inr r)"
    by (simp add: upload_file_def stream(3) none assms(5) Let_def)
  moreover have "list_all (\<lambda>out. acknowledged (o_Status out) \<longrightarrow> map_of (cfg_State (acknowledge r cfg)) (outcome_state out) =
      Some \<lparr>cr_Digest = o_RevisionDigest out, cr_MachineID = cfg_MachineID cfg\<rparr>) (ir_Traces r)"
    using acknowledge_state [of r _ cfg] dist keys by (simp add: list_all_iff)
  ultimately show ?thesis using out i s' by blast
qed

end
