(* ===== verification/UploadWitness.thy ===== *)
theory UploadWitness
  imports UploadFacts ArchiveWitness
begin

text \<open>
  The archive of \<open>ArchiveWitness\<close> imported into an empty store: the trace has no records the Pi normalizer can
  read, so that it is stored and reported as failed.  And its upload to a store that has the trace: it is unchanged, and the collector
  remembers it.
\<close>

definition demo_outcome :: TraceOutcome where
  "demo_outcome = \<lparr>o_TraceID = 1, o_Harness = ''pi'', o_NativeTraceID = ''t'', o_Title = [],
     o_RevisionDigest = d_RevisionDigest demo_descriptor, o_Status = ''failed'',
     o_Warnings = [\<lparr>w_Code = ''normalizer_error'', w_Message = ''file does not exist''\<rparr>], o_Error = ''file does not exist''\<rparr>"

definition demo_report :: ImportReport where
  "demo_report = zero_Report\<lparr>ir_ID := 1, ir_Machine := mf_SourceMachine demo_manifest, ir_Failed := 1, ir_Complete := True,
     ir_Traces := [demo_outcome]\<rparr>"

definition demo_failed :: Normalization where
  "demo_failed = zero_Normalization\<lparr>n_Version := 4, n_Status := ''failed'',
     n_Warnings := [\<lparr>w_Code = ''normalizer_error'', w_Message = ''file does not exist''\<rparr>]\<rparr>"

lemma demo_parts:
  "d_Path demo_descriptor = ''traces/000001''" "d_Harness demo_descriptor = ''pi''" "d_NativeTraceID demo_descriptor = ''t''"
  "d_Files demo_descriptor = [demo_file]" "d_Warnings demo_descriptor = []" "d_Repository demo_descriptor = zero_Repository"
  "d_NativeUpdatedAt demo_descriptor = []" "d_Title demo_descriptor = []"
  by (simp_all add: demo_descriptor_def zero_Descriptor_def)

lemma demo_path: "ValidPath ''traces/000001''" "ValidPath ''source/records.jsonl''" "ValidPath ''source/a''"
  by (auto simp: ValidPath_def ContainsAny_def intro!: ascii_ValidString)

definition demo_source :: files where
  "demo_source = (\<lambda>name. if ValidPath name then zip_files demo_zip (''traces/000001/'' @ name) else None)"

lemma demo_sub: "Sub (zip_files demo_zip) ''traces/000001'' = Inr demo_source"
  by (simp add: Sub_def demo_parts demo_path demo_source_def fun_eq_iff)

lemma demo_source_files: "demo_source ''source/records.jsonl'' = None" "demo_source ''source/a'' = Some ''{}''"
  by (simp_all add: demo_source_def demo_path zip_files_def demo_zip_def demo_entry_def)

lemma demo_stored:
  "storeObjects demo_source [demo_file] [] = ([(object_path demo_digest, ''{}'')], Inr [\<lparr>st_path = ''source/a'', st_digest = demo_digest, st_size = 2\<rparr>])"
proof -
  have "TrimPrefix demo_digest ''sha256:'' = demo_digest" "length demo_digest = 64" by (simp_all add: TrimPrefix_def demo_digest_def)
  then show ?thesis by (simp add: demo_file_def demo_source_files writeObject_def Let_def demo_digest_computed)
qed

lemma demo_normalized: "normalizeResult Run demo_descriptor demo_source = (demo_failed, Some ''file does not exist'')"
  by (simp add: normalizeResult_def Run_def normalizer_of_def demo_parts normalizePi_def readJSONL_def ReadFile_def Open_def newLimitedFS_def
      demo_source_files Version_def zero_Normalization_def demo_failed_def validateEvents_def)

lemma demo_imported:
  assumes "traces s = []" "revisions s = []" "revision_machines s = []" "revision_objects s = []" "source_objects s = []" "objects_dir s = []"
  shows "snd (importTrace [] Run demo_manifest demo_descriptor (zip_files demo_zip) s) = demo_outcome"
proof -
  have dec: "d_RevisionDigest demo_descriptor = ''sha256:d7219c86991763e93893d17699ad25c5840960a2d8d62fc09a7b017a6b2ffe54''"
    "d_WorkingDirectory demo_descriptor = []" "d_ParentNativeTraceID demo_descriptor = []" "d_Adapter demo_descriptor = []"
    by (simp_all add: demo_descriptor_def zero_Descriptor_def)
  show ?thesis
    using assms
    by (simp add: importTrace_def demo_sub demo_parts demo_stored Let_def find_revision_def trace_id_def new_revision_def demo_normalized
        commitRevision_def begin_revision_def upsertRepository_def insert_trace_def insert_or_ignore_def metadata_time_def canonicalTime_def
        found_def update_trace_def update_where_def next_rowid_def newest_metadata_def insert_revision_def revision_row_def insert_unique_def
        storedTitles_def insertEvents_def demo_failed_def zero_Normalization_def demo_outcome_def start_outcome_def zero_Outcome_def
        note_error_def warn_def del: storeObjects.simps)
qed

lemma demo_import: "\<exists>s. Import (\<lambda>_. []) Run demo_manifest (zip_files demo_zip) empty_store =
    (s, Inr demo_report, [normalizing 0 1 None, normalizing 1 1 (Some demo_outcome),
      \<lparr>p_Phase = ''complete'', p_Completed = 1, p_Total = 1, p_Outcome = None, p_Report = Some demo_report, p_Error = []\<rparr>])"
proof -
  let ?r = "zero_Report\<lparr>ir_CreatedAt := [], ir_Machine := mf_SourceMachine demo_manifest\<rparr>"
  obtain s1 r1 where b: "beginImport ?r empty_store = (s1, r1)" by force
  then have s1: "traces s1 = []" "revisions s1 = []" "revision_machines s1 = []" "revision_objects s1 = []" "source_objects s1 = []"
      "objects_dir s1 = []" "r1 = ?r\<lparr>ir_ID := 1\<rparr>"
    by (auto simp: beginImport_def Let_def empty_store_def)
  obtain s2 where t: "importTrace [] Run demo_manifest demo_descriptor (zip_files demo_zip) s1 = (s2, demo_outcome)"
    using demo_imported [OF s1(1-6)] by (metis prod.collapse)
  have m: "mf_Traces demo_manifest = [demo_descriptor]" by (simp add: demo_manifest_def)
  have "log_ok empty_store" by (simp add: log_ok_def empty_store_def)
  from Import_finishes [OF this, of "\<lambda>_. []" Run demo_manifest "zip_files demo_zip"] obtain s3 r3 ps where
    i: "Import (\<lambda>_. []) Run demo_manifest (zip_files demo_zip) empty_store = (s3, Inr r3, ps)" by metis
  moreover have "countOutcome (o_Status demo_outcome) (r1\<lparr>ir_Traces := ir_Traces r1 @ [demo_outcome]\<rparr>)\<lparr>ir_Complete := True\<rparr> = demo_report"
    by (simp add: s1(7) countOutcome_def demo_outcome_def demo_report_def zero_Report_def)
  ultimately show ?thesis by (auto simp: Import_def Let_def b m t split: sum.splits)
qed

theorem Import_statuses_witness: "list_all (\<lambda>out. known_status (o_Status out)) (ir_Traces demo_report)"
proof -
  obtain s ps where "Import (\<lambda>_. []) Run demo_manifest (zip_files demo_zip) empty_store = (s, Inr demo_report, ps)"
    using demo_import by blast
  then show ?thesis by (rule Import_statuses)
qed

subsection \<open>A store that has the trace\<close>

definition had_run :: normalize_fun where
  "had_run d source = (zero_Normalization, None)"

definition had_store :: Store where
  "had_store = fst (Import (\<lambda>_. []) had_run demo_manifest (zip_files demo_zip) empty_store)"

lemma had_reachable: "reachable had_store"
proof -
  obtain s r ps where "Import (\<lambda>_. []) had_run demo_manifest (zip_files demo_zip) empty_store = (s, r, ps)" by (metis prod.collapse)
  then show ?thesis using reachable_step [OF reachable_empty step_import] by (simp add: had_store_def)
qed

lemma had_normalized: "normalizeResult had_run demo_descriptor source = (zero_Normalization\<lparr>n_Status := ''normalized''\<rparr>, None)"
  by (simp add: normalizeResult_def had_run_def zero_Normalization_def validateEvents_def)

definition has_trace :: "Store \<Rightarrow> bool" where
  "has_trace s \<longleftrightarrow> map (\<lambda>t. (t_ID t, t_Harness t, t_NativeTraceID t)) (traces s) = [(1, ''pi'', ''t'')] \<and>
     map (\<lambda>v. (v_ID v, v_Trace v, v_Digest v, v_Status v)) (revisions s) = [(1, 1, d_RevisionDigest demo_descriptor, ''normalized'')] \<and>
     objects_dir s = [(object_path demo_digest, ''{}'')]"

lemma had_imported:
  assumes "traces s = []" "revisions s = []" "revision_machines s = []" "revision_objects s = []" "source_objects s = []" "objects_dir s = []"
  shows "has_trace (fst (importTrace [] had_run demo_manifest demo_descriptor (zip_files demo_zip) s))"
proof -
  have dec: "d_WorkingDirectory demo_descriptor = []" "d_ParentNativeTraceID demo_descriptor = []" "d_Adapter demo_descriptor = []"
    by (simp_all add: demo_descriptor_def zero_Descriptor_def)
  show ?thesis
    using assms
    by (simp add: has_trace_def importTrace_def demo_sub demo_parts demo_stored Let_def find_revision_def trace_id_def new_revision_def had_normalized
        commitRevision_def begin_revision_def upsertRepository_def insert_trace_def insert_or_ignore_def metadata_time_def canonicalTime_def
        found_def update_trace_def update_where_def next_rowid_def newest_metadata_def insert_revision_def revision_row_def insert_unique_def
        storedTitles_def insertEvents_def zero_Normalization_def recordRun_def fill_title_def dec del: storeObjects.simps)
qed

lemma had_trace: "has_trace had_store" "importSeq had_store = 1"
proof -
  let ?r = "zero_Report\<lparr>ir_CreatedAt := [], ir_Machine := mf_SourceMachine demo_manifest\<rparr>"
  obtain s1 r1 where b: "beginImport ?r empty_store = (s1, r1)" by force
  then have s1: "traces s1 = []" "revisions s1 = []" "revision_machines s1 = []" "revision_objects s1 = []" "source_objects s1 = []"
      "objects_dir s1 = []"
    by (auto simp: beginImport_def Let_def empty_store_def)
  have m: "mf_Traces demo_manifest = [demo_descriptor]" by (simp add: demo_manifest_def)
  obtain s2 out where t: "importTrace [] had_run demo_manifest demo_descriptor (zip_files demo_zip) s1 = (s2, out)" by force
  then have h: "has_trace s2" using had_imported [OF s1] by simp
  have "import_traces (\<lambda>_. []) had_run demo_manifest (zip_files demo_zip) 0 (mf_Traces demo_manifest)
      (s1, r1, [normalizing 0 (length (mf_Traces demo_manifest)) None]) =
    (s2, countOutcome (o_Status out) (r1\<lparr>ir_Traces := ir_Traces r1 @ [out]\<rparr>), [normalizing 0 1 None, normalizing 1 1 (Some out)])"
    by (simp add: m t)
  from Import_store [OF b this] obtain im sm where s: "had_store = s2\<lparr>imports_table := im, summaries := sm, runningImport := 0\<rparr>"
    unfolding had_store_def by blast
  show "has_trace had_store" unfolding s using h by (simp add: has_trace_def)
  have "log_ok empty_store" by (simp add: log_ok_def empty_store_def)
  from Import_adds [OF this, of "\<lambda>_. []" had_run demo_manifest "zip_files demo_zip"] show "importSeq had_store = 1"
    by (auto simp: had_store_def empty_store_def)
qed

subsection \<open>The upload\<close>

definition again_outcome :: TraceOutcome where
  "again_outcome = demo_outcome\<lparr>o_Status := ''unchanged'', o_Warnings := [], o_Error := []\<rparr>"

definition again_report :: ImportReport where
  "again_report = zero_Report\<lparr>ir_ID := 2, ir_Machine := mf_SourceMachine demo_manifest, ir_Unchanged := 1, ir_Complete := True,
     ir_Traces := [again_outcome]\<rparr>"

lemma again_stored:
  "storeObjects demo_source [demo_file] [(object_path demo_digest, ''{}'')] =
     ([(object_path demo_digest, ''{}'')], Inr [\<lparr>st_path = ''source/a'', st_digest = demo_digest, st_size = 2\<rparr>])"
proof -
  have "TrimPrefix demo_digest ''sha256:'' = demo_digest" "length demo_digest = 64" by (simp_all add: TrimPrefix_def demo_digest_def)
  then show ?thesis by (simp add: demo_file_def demo_source_files writeObject_def Let_def)
qed

lemma again_imported:
  assumes "has_trace s"
  shows "snd (importTrace [] Run demo_manifest demo_descriptor (zip_files demo_zip) s) = again_outcome"
proof -
  obtain t where t: "traces s = [t]" "t_ID t = 1" "t_Harness t = ''pi''" "t_NativeTraceID t = ''t''"
    using assms unfolding has_trace_def map_eq_Cons_conv by auto
  obtain v where v: "revisions s = [v]" "v_ID v = 1" "v_Trace v = 1" "v_Digest v = d_RevisionDigest demo_descriptor" "v_Status v = ''normalized''"
    using assms unfolding has_trace_def map_eq_Cons_conv by auto
  have dir: "objects_dir s = [(object_path demo_digest, ''{}'')]" using assms by (simp add: has_trace_def)
  have "d_WorkingDirectory demo_descriptor = []" by (simp add: demo_descriptor_def zero_Descriptor_def)
  then show ?thesis
    by (simp add: importTrace_def demo_sub demo_parts dir again_stored Let_def find_revision_def trace_id_def t v known_revision_def
        backfillMissingTraceMetadata_def normalizationSuccessful_def again_outcome_def demo_outcome_def start_outcome_def zero_Outcome_def
        del: storeObjects.simps)
qed

lemma again_import: "\<exists>s. Import (\<lambda>_. []) Run demo_manifest (zip_files demo_zip) had_store =
    (s, Inr again_report, [normalizing 0 1 None, normalizing 1 1 (Some again_outcome),
      \<lparr>p_Phase = ''complete'', p_Completed = 1, p_Total = 1, p_Outcome = None, p_Report = Some again_report, p_Error = []\<rparr>])"
proof -
  let ?r = "zero_Report\<lparr>ir_CreatedAt := [], ir_Machine := mf_SourceMachine demo_manifest\<rparr>"
  obtain s1 r1 where b: "beginImport ?r had_store = (s1, r1)" by force
  then have s1: "has_trace s1" "r1 = ?r\<lparr>ir_ID := 2\<rparr>"
    using had_trace by (auto simp: beginImport_def Let_def has_trace_def)
  obtain s2 where t: "importTrace [] Run demo_manifest demo_descriptor (zip_files demo_zip) s1 = (s2, again_outcome)"
    using again_imported [OF s1(1)] by (metis prod.collapse)
  have m: "mf_Traces demo_manifest = [demo_descriptor]" by (simp add: demo_manifest_def)
  have "log_ok had_store" using log.always [OF had_reachable] .
  from Import_finishes [OF this, of "\<lambda>_. []" Run demo_manifest "zip_files demo_zip"] obtain s3 r3 ps where
    i: "Import (\<lambda>_. []) Run demo_manifest (zip_files demo_zip) had_store = (s3, Inr r3, ps)" by metis
  moreover have "countOutcome (o_Status again_outcome) (r1\<lparr>ir_Traces := ir_Traces r1 @ [again_outcome]\<rparr>)\<lparr>ir_Complete := True\<rparr> = again_report"
    by (simp add: s1(2) countOutcome_def again_outcome_def again_report_def zero_Report_def)
  ultimately show ?thesis by (auto simp: Import_def Let_def b m t split: sum.splits)
qed

lemma again_text: "valid_outcome again_outcome" "valid_report again_report"
proof -
  show out: "valid_outcome again_outcome"
    by (auto simp: valid_outcome_def again_outcome_def demo_outcome_def int64_def demo_descriptor_def zero_Descriptor_def intro!: ascii_ValidString)
  show "valid_report again_report"
    using out by (auto simp: valid_report_def again_report_def zero_Report_def int64_def valid_machine_def demo_manifest_def list_all_iff intro!: ascii_ValidString)
qed

lemma again_lines:
  "list_all (\<lambda>p. valid_progress p \<and> length (encode_line p) < max_line) (snd (import_archive (\<lambda>_. Inr demo_zip) DefaultLimits (\<lambda>_. []) one_entry_zip had_store))"
proof -
  let ?finish = "\<lparr>p_Phase = ''complete'', p_Completed = 1, p_Total = 1, p_Outcome = None, p_Report = Some again_report, p_Error = []\<rparr>"
  have valid: "valid_progress validating" "valid_progress (normalizing 0 1 None)" "valid_progress (normalizing 1 1 (Some again_outcome))"
    "valid_progress ?finish"
    using again_text
    by (auto simp: valid_progress_def validating_def zero_Progress_def normalizing_def int64_def list_all_iff intro!: ascii_ValidString)
  have room: "room (progress_json validating) < 1000" "room (progress_json (normalizing 0 1 None)) < 1000"
    "room (progress_json (normalizing 1 1 (Some again_outcome))) < 5000" "room (progress_json ?finish) < 9000"
    by code_simp+
  have short: "length (encode_line p) < max_line" if "room (progress_json p) < 9000" for p
    using encode_room [of True "progress_json p"] that by (simp add: encode_line_def max_line_def)
  obtain s where "Import (\<lambda>_. []) Run demo_manifest (zip_files demo_zip) had_store =
    (s, Inr again_report, [normalizing 0 1 None, normalizing 1 1 (Some again_outcome), ?finish])"
    using again_import by blast
  then have "snd (import_archive (\<lambda>_. Inr demo_zip) DefaultLimits (\<lambda>_. []) one_entry_zip had_store) =
      [validating, normalizing 0 1 None, normalizing 1 1 (Some again_outcome), ?finish]"
    by (simp add: import_archive_def demo_validated)
  then show ?thesis using valid room by (simp add: short)
qed

definition demo_collector :: Collector where
  "demo_collector = \<lparr>cfg_MachineID = ''m'', cfg_ServerURL = ''http://h'', cfg_Token = ''t'', cfg_Sources = [], cfg_State = []\<rparr>"

text \<open>The server has the trace, reports it unchanged, and the collector remembers it.\<close>

theorem upload_acknowledged_witness:
  "\<exists>s response r steps.
     importZIP ''application/zip'' False (\<lambda>_. Inr demo_zip) DefaultLimits (\<lambda>_. []) one_entry_zip had_store = (s, response) \<and>
     upload_file (\<lambda>_. Inr demo_zip) (\<lambda>_ _. Inr response) [] (\<lambda>_. None) (''a.zip'', one_entry_zip) demo_collector =
       (acknowledge r demo_collector, steps, Inr r) \<and>
     map outcome_key (ir_Traces r) = [(''pi'', ''t'', d_RevisionDigest demo_descriptor)] \<and>
     map_of (cfg_State (acknowledge r demo_collector)) (StateKey ''pi'' ''t'') =
       Some \<lparr>cr_Digest = d_RevisionDigest demo_descriptor, cr_MachineID = ''m''\<rparr>"
proof -
  obtain s response where z: "importZIP ''application/zip'' False (\<lambda>_. Inr demo_zip) DefaultLimits (\<lambda>_. []) one_entry_zip had_store = (s, response)"
    by force
  have "cfg_MachineID demo_collector = m_ID (mf_SourceMachine (v_Manifest \<lparr>v_Manifest = demo_manifest, v_ZIP = demo_zip\<rparr>))"
    by (simp add: demo_collector_def demo_manifest_def)
  from upload_acknowledged [OF demo_validated had_reachable z again_lines this, of "[]" "''a.zip''"]
  obtain r ps steps where i: "Import (\<lambda>_. []) Run demo_manifest (zip_files demo_zip) had_store = (s, Inr r, ps)"
    and u: "upload_file (\<lambda>_. Inr demo_zip) (\<lambda>_ _. Inr response) [] (\<lambda>_. None) (''a.zip'', one_entry_zip) demo_collector =
      (acknowledge r demo_collector, steps, Inr r)"
    and keys: "map outcome_key (ir_Traces r) = [(''pi'', ''t'', d_RevisionDigest demo_descriptor)]"
    and known: "list_all (\<lambda>out. acknowledged (o_Status out) \<longrightarrow> map_of (cfg_State (acknowledge r demo_collector)) (outcome_state out) =
      Some \<lparr>cr_Digest = o_RevisionDigest out, cr_MachineID = cfg_MachineID demo_collector\<rparr>) (ir_Traces r)"
    by (auto simp: demo_manifest_def demo_parts)
  have "r = again_report" using i again_import by auto
  then have "ir_Traces r = [again_outcome]" by (simp add: again_report_def)
  then have remembered: "map_of (cfg_State (acknowledge r demo_collector)) (StateKey ''pi'' ''t'') =
      Some \<lparr>cr_Digest = d_RevisionDigest demo_descriptor, cr_MachineID = ''m''\<rparr>"
    using known by (simp add: again_outcome_def demo_outcome_def acknowledged_def demo_collector_def)
  show ?thesis by (intro exI conjI, rule z, rule u, rule keys, rule remembered)
qed

end
