(* ===== verification/Transcript.thy ===== *)
theory Transcript
  imports Complex_Main StoreRead "HOL-Library.Word"
begin

text \<open>
  Reading a transcript page by page, \<open>internal/store/transcript.go\<close>: the order of its events, the small cache of orders,
  and the cursors, which are offsets into an order.  The cache is part of the state a read changes; \<open>transcriptOrders\<close> is
  that state, beside the store.
\<close>

subsection \<open>Values of \<open>json_extract\<close>\<close>

text \<open>SQLite orders numbers before text.  Numbers are compared by value.\<close>

datatype SqlValue = SqlNum rat | SqlText string

instantiation SqlValue :: linorder
begin

fun less_eq_SqlValue :: "SqlValue \<Rightarrow> SqlValue \<Rightarrow> bool" where
  "less_eq_SqlValue (SqlNum a) (SqlNum b) = (a \<le> b)"
| "less_eq_SqlValue (SqlNum a) (SqlText t) = True"
| "less_eq_SqlValue (SqlText s) (SqlNum b) = False"
| "less_eq_SqlValue (SqlText s) (SqlText t) = (s \<le> t)"

definition less_SqlValue :: "SqlValue \<Rightarrow> SqlValue \<Rightarrow> bool" where
  "less_SqlValue a b \<longleftrightarrow> a \<le> b \<and> \<not> b \<le> a"

instance
proof
  fix a b c :: SqlValue
  show "(a < b) = (a \<le> b \<and> \<not> b \<le> a)" by (rule less_SqlValue_def)
  show "a \<le> a" by (cases a) simp_all
  show "a \<le> b \<Longrightarrow> b \<le> c \<Longrightarrow> a \<le> c" by (cases a; cases b; cases c) auto
  show "a \<le> b \<Longrightarrow> b \<le> a \<Longrightarrow> a = b" by (cases a; cases b) auto
  show "a \<le> b \<or> b \<le> a" by (cases a; cases b) auto
qed

end

text \<open>The number a JSON number is.  SQLite keeps a fraction, or what does not fit an \<open>int64\<close>, as a double, so that of such numbers it can
  take different ones for equal; the order of the transcript depends on this only where such numbers differ by less than a double
  can tell.\<close>

definition decimal :: "int \<Rightarrow> int \<Rightarrow> rat" where
  "decimal m e = (if 0 \<le> e then of_int (m * 10 ^ nat e) else of_int m / 10 ^ nat (- e))"

definition sql_value :: "json \<Rightarrow> SqlValue option" where
  "sql_value v = (case v of
      JNull \<Rightarrow> None
    | JBool b \<Rightarrow> Some (SqlNum (if b then 1 else 0))
    | JNum m e \<Rightarrow> Some (SqlNum (decimal m e))
    | JStr s \<Rightarrow> Some (SqlText s)
    | _ \<Rightarrow> Some (SqlText (Marshal v)))"

text \<open>\<open>json_extract(event_json, '$.metadata.key')\<close>\<close>

definition extract_metadata :: "string \<Rightarrow> string \<Rightarrow> SqlValue option" where
  "extract_metadata encoded key =
     (case parse_text encoded of
        Some (JObj m) \<Rightarrow> (case map_of m ''metadata'' of
            Some (JObj f) \<Rightarrow> Option.bind (map_of f key) sql_value
          | _ \<Rightarrow> None)
      | _ \<Rightarrow> None)"

subsection \<open>The order\<close>

text \<open>The preferred observation for the merged view, otherwise the one the revision recorded.\<close>

definition transcriptObservation :: "Store \<Rightarrow> int \<Rightarrow> EventRow \<Rightarrow> int option" where
  "transcriptObservation s revisionID e =
     (if revisionID = 0 then ev_Preferred e
      else map_option ob_ID (best ob_Digest (filter (\<lambda>q. ob_Event q = ev_ID e \<and>
        list_ex (\<lambda>x. or_Revision x = revisionID \<and> or_Observation x = ob_ID q) (observation_revisions s)) (observations s))))"

definition transcript_join :: "Store \<Rightarrow> int \<Rightarrow> (EventRow \<times> ObservationRow) list" where
  "transcript_join s revisionID =
     List.map_filter (\<lambda>e. Option.bind (transcriptObservation s revisionID e) (\<lambda>i.
       map_option (Pair e) (find (\<lambda>q. ob_ID q = i) (observations s)))) (events s)"

definition transcript_key :: "EventRow \<times> ObservationRow \<Rightarrow> SqlValue \<times> string \<times> SqlValue \<times> string \<times> int" where
  "transcript_key r = (case r of (e, q) \<Rightarrow>
     let order = extract_metadata (ob_JSON q) ''transcript_order''; block = extract_metadata (ob_JSON q) ''transcript_block''
     in (case order of None \<Rightarrow> SqlNum 0 | Some v \<Rightarrow> v, if order = None then ev_SortTime e else [],
         case block of None \<Rightarrow> SqlNum 0 | Some v \<Rightarrow> v, ev_SortKey e, ev_ID e))"

definition sorted_transcript :: "Store \<Rightarrow> int \<Rightarrow> int \<Rightarrow> int list" where
  "sorted_transcript s traceID revisionID =
     map (\<lambda>r. ev_ID (fst r)) (sort_key transcript_key (filter (\<lambda>r. ev_Trace (fst r) = traceID) (transcript_join s revisionID)))"

subsection \<open>The cache\<close>

definition transcriptOrderCapacity :: nat where "transcriptOrderCapacity = 8"

record transcriptOrderKey =
  tk_trace :: int
  tk_revision :: int
  tk_generation :: int

record transcriptOrders =
  to_keys :: "transcriptOrderKey list"
  to_items :: "(transcriptOrderKey \<times> int list) list"

definition empty_orders :: transcriptOrders where
  "empty_orders = \<lparr>to_keys = [], to_items = []\<rparr>"

definition get_order :: "transcriptOrders \<Rightarrow> transcriptOrderKey \<Rightarrow> int list option" where
  "get_order c key = map_of (to_items c) key"

definition put_order :: "transcriptOrderKey \<Rightarrow> int list \<Rightarrow> transcriptOrders \<Rightarrow> transcriptOrders" where
  "put_order key ids c =
     (if map_of (to_items c) key \<noteq> None then c
      else let c = (if length (to_keys c) = transcriptOrderCapacity
                    then \<lparr>to_keys = tl (to_keys c), to_items = filter (\<lambda>kv. fst kv \<noteq> hd (to_keys c)) (to_items c)\<rparr> else c)
           in \<lparr>to_keys = to_keys c @ [key], to_items = alist_put key ids (to_items c)\<rparr>)"

definition transcriptOrder :: "Store \<Rightarrow> transcriptOrderKey \<Rightarrow> transcriptOrders \<Rightarrow> transcriptOrders \<times> int list" where
  "transcriptOrder s key c =
     (case get_order c key of
        Some ids \<Rightarrow> (c, ids)
      | None \<Rightarrow> (let ids = sorted_transcript s (tk_trace key) (tk_revision key) in (put_order key ids c, ids)))"

subsection \<open>The rows of a page\<close>

definition newest_revision :: "Store \<Rightarrow> int \<Rightarrow> int \<Rightarrow> int" where
  "newest_revision s revisionID observationID =
     (case best (\<lambda>r. (v_NativeUpdatedAt r, v_ID r)) (filter (\<lambda>r. (revisionID = 0 \<or> v_ID r = revisionID) \<and>
         list_ex (\<lambda>x. or_Observation x = observationID \<and> or_Revision x = v_ID r) (observation_revisions s)) (revisions s)) of
        None \<Rightarrow> 0 | Some r \<Rightarrow> v_ID r)"

definition event_aliases :: "Store \<Rightarrow> EventRow \<Rightarrow> string list" where
  "event_aliases s e =
     (let rows = filter (\<lambda>a. al_Trace a = ev_Trace e \<and> al_EventKey a = ev_Key e) (aliases s)
      in map al_LegacyKey rows @ map (\<lambda>a. Itoa (al_LegacyID a)) rows)"

definition transcript_event :: "Store \<Rightarrow> int \<Rightarrow> int \<Rightarrow> EventRow \<times> ObservationRow \<Rightarrow> PageEvent result" where
  "transcript_event s traceID revisionID r =
     (case r of (e, q) \<Rightarrow> bind_result (unmarshal_event (ob_JSON q)) (\<lambda>event. Inr
        \<lparr>pe_Event = event\<lparr>e_ID := ev_ID e, e_TraceID := traceID\<rparr>, pe_ObservationCount = 0,
         pe_RevisionID = newest_revision s revisionID (ob_ID q), pe_Aliases = event_aliases s e\<rparr>))"

text \<open>The rows come in any order; each goes to the place of its id.\<close>

definition transcriptRows :: "Store \<Rightarrow> int \<Rightarrow> int \<Rightarrow> int list \<Rightarrow> PageEvent list result" where
  "transcriptRows s traceID revisionID ids =
     bind_result (map_result (transcript_event s traceID revisionID) (filter (\<lambda>r. ev_ID (fst r) \<in> set ids) (transcript_join s revisionID))) (\<lambda>es.
       if length es \<noteq> length ids
       then Inl (''transcript page found '' @ Itoa (int (length es)) @ '' of '' @ Itoa (int (length ids)) @ '' events'')
       else Inr (List.map_filter (\<lambda>i. find (\<lambda>e. e_ID (pe_Event e) = i) es) ids))"

subsection \<open>A page\<close>

record transcriptPosition =
  tp_Trace :: int
  tp_Revision :: int
  tp_Offset :: int
  tp_Generation :: int

definition position_json :: "transcriptPosition \<Rightarrow> json" where
  "position_json p = JObj (int_field ''Trace'' (tp_Trace p) @ int_field ''Revision'' (tp_Revision p) @ int_field ''Offset'' (tp_Offset p)
     @ int_field ''Generation'' (tp_Generation p))"

definition encode_position :: "transcriptPosition \<Rightarrow> string" where
  "encode_position p = EncodeToString (Marshal (position_json p))"

text \<open>Decoding into a struct that already has values: an absent field keeps its value.\<close>

definition dec_int_into :: "int \<Rightarrow> json \<Rightarrow> string \<Rightarrow> int option" where
  "dec_int_into old j k = (if get_field j k = JNull then Some old else dec_int j k)"

definition decode_position :: "int \<Rightarrow> int \<Rightarrow> json \<Rightarrow> transcriptPosition option" where
  "decode_position traceID revisionID j =
     (if \<not> is_struct j then None
      else case (dec_int_into traceID j ''Trace'', dec_int_into revisionID j ''Revision'', dec_int_into 0 j ''Offset'', dec_int_into 0 j ''Generation'') of
        (Some t, Some r, Some i, Some g) \<Rightarrow> Some \<lparr>tp_Trace = t, tp_Revision = r, tp_Offset = i, tp_Generation = g\<rparr>
      | _ \<Rightarrow> None)"

definition ErrTranscriptChanged :: string where
  "ErrTranscriptChanged = ''transcript changed; reload the page to continue''"

definition invalid_position :: string where
  "invalid_position = ErrInvalidQuery @ '': invalid transcript cursor''"

definition transcript_position :: "int \<Rightarrow> int \<Rightarrow> int \<Rightarrow> string \<Rightarrow> transcriptPosition result" where
  "transcript_position traceID revisionID generation encoded =
     (if encoded = [] then Inr \<lparr>tp_Trace = traceID, tp_Revision = revisionID, tp_Offset = 0, tp_Generation = generation\<rparr>
      else case Option.bind (Option.bind (DecodeString encoded) parse_text) (decode_position traceID revisionID) of
          None \<Rightarrow> Inl invalid_position
        | Some p \<Rightarrow>
            if tp_Trace p \<noteq> traceID \<or> tp_Revision p \<noteq> revisionID \<or> tp_Offset p < 0 then Inl invalid_position
            else if tp_Generation p \<noteq> generation then Inl ErrTranscriptChanged else Inr p)"

definition generation_of :: "Store \<Rightarrow> int \<Rightarrow> int \<Rightarrow> int" where
  "generation_of s traceID revisionID =
     foldr max (map nr_ID (filter (\<lambda>n. list_ex (\<lambda>r. v_ID r = nr_Revision n \<and> v_Trace r = traceID \<and> (revisionID = 0 \<or> v_ID r = revisionID))
       (revisions s)) (runs s))) 0"

text \<open>\<open>int64\<close> addition wraps around; a slice with its bounds the wrong way round is a panic.\<close>

definition add64 :: "int \<Rightarrow> int \<Rightarrow> int" where
  "add64 a b = sint (word_of_int (a + b) :: 64 word)"

definition slice_panic :: string where "slice_panic = ''runtime error: slice bounds out of range''"

definition slice_order :: "int list \<Rightarrow> int \<Rightarrow> int \<Rightarrow> int list result" where
  "slice_order order lo hi =
     (if lo < 0 \<or> hi < lo \<or> int (length order) < hi then Inl slice_panic else Inr (take (nat (hi - lo)) (drop (nat lo) order)))"

definition transcript_page :: "Store \<Rightarrow> int list \<Rightarrow> transcriptPosition \<Rightarrow> int \<Rightarrow> EventPage result" where
  "transcript_page s order p limit =
     (let n = int (length order); following = add64 (tp_Offset p) limit
      in bind_result (slice_order order (min (tp_Offset p) n) (min following n)) (\<lambda>ids.
         bind_result (if ids = [] then Inr [] else transcriptRows s (tp_Trace p) (tp_Revision p) ids) (\<lambda>es. Inr
           \<lparr>ep_Events = es, ep_NextCursor = (if following < n then encode_position (p\<lparr>tp_Offset := following\<rparr>) else [])\<rparr>)))"

definition TranscriptEvents :: "Store \<Rightarrow> int \<Rightarrow> int \<Rightarrow> string \<Rightarrow> int \<Rightarrow> transcriptOrders \<Rightarrow> transcriptOrders \<times> EventPage result" where
  "TranscriptEvents s traceID revisionID encoded limit c =
     (case bind_result (requireTrace s traceID) (\<lambda>_.
        bind_result (found (if revisionID = 0 then Some () else map_option (\<lambda>_. ()) (find (\<lambda>r. v_ID r = revisionID \<and> v_Trace r = traceID) (revisions s)))) (\<lambda>_.
          transcript_position traceID revisionID (generation_of s traceID revisionID) encoded)) of
        Inl e \<Rightarrow> (c, Inl e)
      | Inr p \<Rightarrow>
          (case transcriptOrder s \<lparr>tk_trace = traceID, tk_revision = revisionID, tk_generation = generation_of s traceID revisionID\<rparr> c of
             (c, order) \<Rightarrow> (c, transcript_page s order p (int (pageLimit limit)))))"

end
