(* ===== verification/TranscriptFacts.thy ===== *)
theory TranscriptFacts
  imports Transcript StoreListing
begin

text \<open>
  The cache of orders and the pages of a transcript: a cache that agrees with the store never changes what a page shows,
  and following the cursors shows the whole order.
\<close>

subsection \<open>The cache\<close>

definition cache_ok :: "transcriptOrders \<Rightarrow> bool" where
  "cache_ok c \<longleftrightarrow> distinct (to_keys c) \<and> length (to_keys c) \<le> transcriptOrderCapacity \<and> set (to_keys c) = fst ` set (to_items c) \<and>
     distinct (map fst (to_items c))"

lemma cache_size: "cache_ok c \<Longrightarrow> length (to_items c) \<le> transcriptOrderCapacity"
  using distinct_card [of "to_keys c"] distinct_card [of "map fst (to_items c)"] by (simp add: cache_ok_def)

text \<open>What is cached under a key of the present generation is the order of the store.\<close>

definition fresh_key :: "Store \<Rightarrow> transcriptOrderKey \<Rightarrow> bool" where
  "fresh_key s key \<longleftrightarrow> tk_generation key = generation_of s (tk_trace key) (tk_revision key)"

definition coherent :: "Store \<Rightarrow> transcriptOrders \<Rightarrow> bool" where
  "coherent s c \<longleftrightarrow> list_all (\<lambda>kv. fresh_key s (fst kv) \<longrightarrow> snd kv = sorted_transcript s (tk_trace (fst kv)) (tk_revision (fst kv))) (to_items c)"

lemma keys_filter: "fst ` set (filter (\<lambda>kv. fst kv \<noteq> k) m) = fst ` set m - {k}"
  by auto

lemma put_order_ok:
  assumes "cache_ok c"
  shows "cache_ok (put_order key ids c)"
proof (cases "map_of (to_items c) key")
  case None
  then have new: "key \<notin> fst ` set (to_items c)" by (simp add: map_of_eq_None_iff)
  define d where "d = (if length (to_keys c) = transcriptOrderCapacity
    then \<lparr>to_keys = tl (to_keys c), to_items = filter (\<lambda>kv. fst kv \<noteq> hd (to_keys c)) (to_items c)\<rparr> else c)"
  have put: "put_order key ids c = \<lparr>to_keys = to_keys d @ [key], to_items = alist_put key ids (to_items d)\<rparr>"
    using None by (simp add: put_order_def d_def Let_def)
  have d: "distinct (to_keys d)" "length (to_keys d) < transcriptOrderCapacity" "set (to_keys d) = fst ` set (to_items d)" "key \<notin> set (to_keys d)"
  proof -
    have "distinct (to_keys d) \<and> length (to_keys d) < transcriptOrderCapacity \<and> set (to_keys d) = fst ` set (to_items d) \<and> key \<notin> set (to_keys d)"
    proof (cases "length (to_keys c) = transcriptOrderCapacity")
      case True
      then obtain k ks where k: "to_keys c = k # ks" by (cases "to_keys c") (simp_all add: transcriptOrderCapacity_def)
      have "fst ` set (to_items d) = set (k # ks) - {k}"
        using assms True k by (simp add: d_def cache_ok_def keys_filter del: set_filter)
      then show ?thesis using assms True k new by (auto simp: d_def cache_ok_def)
    next
      case False
      then show ?thesis using assms new by (auto simp: d_def cache_ok_def)
    qed
    then show "distinct (to_keys d)" "length (to_keys d) < transcriptOrderCapacity" "set (to_keys d) = fst ` set (to_items d)" "key \<notin> set (to_keys d)"
      by blast+
  qed
  have "fst ` set (alist_put key ids (to_items d)) = insert key (set (to_keys d))"
    using set_keys_alist_put [of key ids "to_items d"] d(3) by simp
  moreover have "distinct (map fst (to_items d))" using assms by (simp add: cache_ok_def d_def distinct_map_filter)
  ultimately show ?thesis using d distinct_alist_put [of "to_items d" key ids] by (auto simp: put cache_ok_def)
qed (use assms in \<open>simp add: put_order_def\<close>)

lemma in_alist_put: "kv \<in> set (alist_put k v m) \<Longrightarrow> kv = (k, v) \<or> kv \<in> set m"
  by (induction k v m rule: alist_put.induct) (auto split: if_splits)

lemma put_order_coherent:
  assumes "coherent s c"
  shows "coherent s (put_order key (sorted_transcript s (tk_trace key) (tk_revision key)) c)"
  using assms
  by (auto simp: put_order_def coherent_def Let_def list_all_iff dest!: in_alist_put split: if_splits)

lemma transcriptOrder_cached:
  assumes "coherent s c" "fresh_key s key"
  shows "snd (transcriptOrder s key c) = sorted_transcript s (tk_trace key) (tk_revision key)" "coherent s (fst (transcriptOrder s key c))"
    "cache_ok c \<Longrightarrow> cache_ok (fst (transcriptOrder s key c))"
proof -
  show "snd (transcriptOrder s key c) = sorted_transcript s (tk_trace key) (tk_revision key)"
    using assms by (auto simp: transcriptOrder_def get_order_def Let_def coherent_def list_all_iff dest!: map_of_SomeD split: option.split)
  show "coherent s (fst (transcriptOrder s key c))"
    using assms(1) put_order_coherent [OF assms(1)] by (auto simp: transcriptOrder_def Let_def split: option.split)
  show "cache_ok c \<Longrightarrow> cache_ok (fst (transcriptOrder s key c))"
    using put_order_ok by (auto simp: transcriptOrder_def Let_def split: option.split)
qed

text \<open>C29. The cache of orders does not show: while it agrees with the store, every page is the one a read without a cache gives, and
  after the read it still agrees with the store and holds at most eight orders.\<close>

theorem TranscriptEvents_cached:
  assumes "cache_ok c" "coherent s c"
  shows "snd (TranscriptEvents s traceID revisionID encoded limit c) = snd (TranscriptEvents s traceID revisionID encoded limit empty_orders) \<and>
    coherent s (fst (TranscriptEvents s traceID revisionID encoded limit c)) \<and>
    cache_ok (fst (TranscriptEvents s traceID revisionID encoded limit c)) \<and>
    length (to_items (fst (TranscriptEvents s traceID revisionID encoded limit c))) \<le> transcriptOrderCapacity"
proof -
  let ?key = "\<lparr>tk_trace = traceID, tk_revision = revisionID, tk_generation = generation_of s traceID revisionID\<rparr>"
  have e: "coherent s empty_orders" by (simp add: coherent_def empty_orders_def)
  have k: "fresh_key s ?key" by (simp add: fresh_key_def)
  have "snd (TranscriptEvents s traceID revisionID encoded limit c) = snd (TranscriptEvents s traceID revisionID encoded limit empty_orders)"
    using transcriptOrder_cached(1) [OF assms(2) k] transcriptOrder_cached(1) [OF e k]
    by (auto simp: TranscriptEvents_def split: sum.split prod.split)
  moreover have "coherent s (fst (TranscriptEvents s traceID revisionID encoded limit c))" "cache_ok (fst (TranscriptEvents s traceID revisionID encoded limit c))"
    using transcriptOrder_cached(2,3) [OF assms(2) k] assms by (auto simp: TranscriptEvents_def split: sum.split prod.split)
  ultimately show ?thesis using cache_size by blast
qed

subsection \<open>Cursors\<close>

lemma get_field_present:
  assumes "distinct (map fst kvs)" "map_of kvs k = Some v"
  shows "get_field (canon (JObj kvs)) k = canon v"
proof -
  let ?kvs = "map (\<lambda>kv. (fst kv, canon (snd kv))) kvs"
  have "distinct (map fst ?kvs)" using assms(1) by (simp add: comp_def)
  then obtain m where m: "mk_obj ?kvs = JObj m" "map_of m = map_of ?kvs" by (rule mk_obj_lookup)
  have "map_of ?kvs k = map_option canon (map_of kvs k)" by (induction kvs) auto
  with m assms(2) show ?thesis by (simp add: get_field_def)
qed

definition valid_position :: "transcriptPosition \<Rightarrow> bool" where
  "valid_position p \<longleftrightarrow> int64 (tp_Trace p) \<and> int64 (tp_Revision p) \<and> int64 (tp_Offset p) \<and> int64 (tp_Generation p)"

lemma dec_int_into_jint: "int64 i \<Longrightarrow> get_field j k = jint i \<Longrightarrow> dec_int_into old j k = Some i"
  using dec_jint [of i j k] by (simp add: dec_int_into_def jint_def number_def split: prod.split)

lemma position_decoded:
  assumes "valid_position p"
  shows "encode_position p \<noteq> []" "Option.bind (Option.bind (DecodeString (encode_position p)) parse_text) (decode_position t r) = Some p"
proof -
  define kvs where "kvs = int_field ''Trace'' (tp_Trace p) @ int_field ''Revision'' (tp_Revision p) @ int_field ''Offset'' (tp_Offset p) @
    int_field ''Generation'' (tp_Generation p)"
  have j: "position_json p = JObj kvs" by (simp add: position_json_def kvs_def)
  have i: "int64 (tp_Trace p)" "int64 (tp_Revision p)" "int64 (tp_Offset p)" "int64 (tp_Generation p)" using assms by (simp_all add: valid_position_def)
  have d: "distinct (map fst kvs)" by (simp add: kvs_def int_field_def)
  have "get_field (canon (JObj kvs)) ''Trace'' = jint (tp_Trace p)" "get_field (canon (JObj kvs)) ''Revision'' = jint (tp_Revision p)"
    "get_field (canon (JObj kvs)) ''Offset'' = jint (tp_Offset p)" "get_field (canon (JObj kvs)) ''Generation'' = jint (tp_Generation p)"
  proof -
    have c: "canon (jint x) = jint x" if "int64 x" for x using that jint_wf [of x] by simp
    show "get_field (canon (JObj kvs)) ''Trace'' = jint (tp_Trace p)"
      using get_field_present [OF d, of "''Trace''" "jint (tp_Trace p)"] c [OF i(1)] by (simp add: kvs_def int_field_def del: canon.simps)
    show "get_field (canon (JObj kvs)) ''Revision'' = jint (tp_Revision p)"
      using get_field_present [OF d, of "''Revision''" "jint (tp_Revision p)"] c [OF i(2)] by (simp add: kvs_def int_field_def del: canon.simps)
    show "get_field (canon (JObj kvs)) ''Offset'' = jint (tp_Offset p)"
      using get_field_present [OF d, of "''Offset''" "jint (tp_Offset p)"] c [OF i(3)] by (simp add: kvs_def int_field_def del: canon.simps)
    show "get_field (canon (JObj kvs)) ''Generation'' = jint (tp_Generation p)"
      using get_field_present [OF d, of "''Generation''" "jint (tp_Generation p)"] c [OF i(4)] by (simp add: kvs_def int_field_def del: canon.simps)
  qed
  then have "decode_position t r (canon (JObj kvs)) = Some p"
    using i by (simp add: decode_position_def dec_int_into_jint del: canon.simps)
  moreover have "wf_json (JObj kvs) \<and> depth (JObj kvs) \<le> 1"
    unfolding One_nat_def using i
    by (intro wf_fields_obj) (simp add: wf_fields_def kvs_def int_field_def ascii_ValidString)
  then have "parse_text (Marshal (JObj kvs)) = Some (canon (JObj kvs))" by (intro parse_text_encode(1)) (simp_all add: max_depth_def)
  ultimately show "Option.bind (Option.bind (DecodeString (encode_position p)) parse_text) (decode_position t r) = Some p"
    by (simp add: encode_position_def j DecodeString_Encode del: canon.simps encode.simps)
  show "encode_position p \<noteq> []" by (simp add: encode_position_def j EncodeToString_Nil)
qed

lemma transcript_position_encode:
  assumes "valid_position p" "tp_Trace p = t" "tp_Revision p = r" "0 \<le> tp_Offset p" "tp_Generation p = g"
  shows "transcript_position t r g (encode_position p) = Inr p"
  using position_decoded [OF assms(1)] assms(2-) by (simp add: transcript_position_def)

subsection \<open>Rows\<close>

lemma join_ids: "map (\<lambda>r. ev_ID (fst r)) (transcript_join s revisionID) =
    map ev_ID (filter (\<lambda>e. Option.bind (transcriptObservation s revisionID e) (\<lambda>i. find (\<lambda>q. ob_ID q = i) (observations s)) \<noteq> None) (events s))"
proof -
  have b: "Option.bind x (\<lambda>i. map_option (Pair e) (find (\<lambda>q. ob_ID q = i) qs)) = map_option (Pair e) (Option.bind x (\<lambda>i. find (\<lambda>q. ob_ID q = i) qs))"
    for x qs and e :: EventRow by (cases x) auto
  show ?thesis unfolding transcript_join_def by (simp only: b map_filter_find_keys [of ev_ID])
qed

lemma join_observation: "r \<in> set (transcript_join s revisionID) \<Longrightarrow> snd r \<in> set (observations s)"
  by (auto simp: transcript_join_def List.map_filter_def split: bind_splits) (metis find_SomeD)

lemma join_distinct:
  assumes "distinct (map ev_ID (events s))"
  shows "distinct (map (\<lambda>r. ev_ID (fst r)) (transcript_join s revisionID))"
  unfolding join_ids using assms by (simp add: distinct_map_filter)

lemma sorted_ids:
  assumes "distinct (map ev_ID (events s))"
  shows "distinct (sorted_transcript s t r)" "set (sorted_transcript s t r) \<subseteq> (\<lambda>r. ev_ID (fst r)) ` set (transcript_join s r)"
    "length (sorted_transcript s t r) \<le> length (events s)"
proof -
  have "distinct (map (\<lambda>r. ev_ID (fst r)) (filter (\<lambda>x. ev_Trace (fst x) = t) (transcript_join s r)))"
    using join_distinct [OF assms, of r] by (simp add: distinct_map_filter)
  then show "distinct (sorted_transcript s t r)" unfolding sorted_transcript_def by (simp add: distinct_map)
  show "set (sorted_transcript s t r) \<subseteq> (\<lambda>r. ev_ID (fst r)) ` set (transcript_join s r)" by (auto simp: sorted_transcript_def)
  have "length (transcript_join s r) \<le> length (events s)" using arg_cong [OF join_ids [of s r], of length] by simp
  then show "length (sorted_transcript s t r) \<le> length (events s)"
    by (simp add: sorted_transcript_def) (meson length_filter_le order_trans)
qed

text \<open>The event shown for an id.\<close>

definition shown_event :: "Store \<Rightarrow> int \<Rightarrow> int \<Rightarrow> int \<Rightarrow> PageEvent" where
  "shown_event s t revisionID i = projr (transcript_event s t revisionID (the (find (\<lambda>r. ev_ID (fst r) = i) (transcript_join s revisionID))))"

lemma transcript_event_ok:
  assumes "decodable s" "r \<in> set (transcript_join s revisionID)" "distinct (map ev_ID (events s))"
  shows "transcript_event s t revisionID r = Inr (shown_event s t revisionID (ev_ID (fst r)))"
    "e_ID (pe_Event (shown_event s t revisionID (ev_ID (fst r)))) = ev_ID (fst r)"
proof -
  obtain e q where r: "r = (e, q)" by force
  have "\<not> isl (unmarshal_event (ob_JSON q))" using assms(1) join_observation [OF assms(2)] by (auto simp: r decodable_def list_all_iff)
  then obtain x where x: "unmarshal_event (ob_JSON q) = Inr x" by (cases "unmarshal_event (ob_JSON q)") auto
  have f: "find (\<lambda>y. ev_ID (fst y) = ev_ID (fst r)) (transcript_join s revisionID) = Some r"
    using find_unique [OF join_distinct [OF assms(3)], THEN iffD2] assms(2) by simp
  then show "transcript_event s t revisionID r = Inr (shown_event s t revisionID (ev_ID (fst r)))"
    "e_ID (pe_Event (shown_event s t revisionID (ev_ID (fst r)))) = ev_ID (fst r)"
    by (simp_all add: shown_event_def transcript_event_def r x)
qed

lemma map_result_Inr: "(\<And>x. x \<in> set xs \<Longrightarrow> f x = Inr (g x)) \<Longrightarrow> map_result f xs = Inr (map g xs)"
  by (induction xs) auto

lemma transcriptRows_ids:
  assumes "decodable s" "distinct (map ev_ID (events s))" "distinct ids" "set ids \<subseteq> (\<lambda>r. ev_ID (fst r)) ` set (transcript_join s r)"
  shows "transcriptRows s t r ids = Inr (map (shown_event s t r) ids)"
proof -
  let ?rows = "filter (\<lambda>x. ev_ID (fst x) \<in> set ids) (transcript_join s r)"
  let ?es = "map (\<lambda>x. shown_event s t r (ev_ID (fst x))) ?rows"
  have m: "map_result (transcript_event s t r) ?rows = Inr ?es"
    using transcript_event_ok(1) [OF assms(1) _ assms(2)] by (intro map_result_Inr) simp
  have dist: "distinct (map (\<lambda>x. ev_ID (fst x)) ?rows)" using join_distinct [OF assms(2), of r] by (simp add: distinct_map_filter)
  moreover have "set (map (\<lambda>x. ev_ID (fst x)) ?rows) = set ids" using assms(4) by auto
  ultimately have len: "length ?rows = length ids" using assms(3) by (metis distinct_card length_map)
  have "map (\<lambda>e. e_ID (pe_Event e)) ?es = map (\<lambda>x. ev_ID (fst x)) ?rows"
    using transcript_event_ok(2) [OF assms(1) _ assms(2)] by simp
  then have ides: "distinct (map (\<lambda>e. e_ID (pe_Event e)) ?es)" using dist by metis
  have "find (\<lambda>e. e_ID (pe_Event e) = i) ?es = Some (shown_event s t r i)" if "i \<in> set ids" for i
  proof -
    obtain x where x: "x \<in> set (transcript_join s r)" "ev_ID (fst x) = i" using assms(4) \<open>i \<in> set ids\<close> by blast
    then have "shown_event s t r i \<in> set ?es" using \<open>i \<in> set ids\<close> by auto
    moreover have "e_ID (pe_Event (shown_event s t r i)) = i" using transcript_event_ok(2) [OF assms(1) x(1) assms(2), of t] x(2) by simp
    ultimately show ?thesis by (intro find_unique [OF ides, THEN iffD2] conjI)
  qed
  then have "List.map_filter (\<lambda>i. find (\<lambda>e. e_ID (pe_Event e) = i) ?es) ids = map (shown_event s t r) ids"
    by (simp add: List.map_filter_def cong: map_cong filter_cong)
  then show ?thesis unfolding transcriptRows_def m by (simp add: len)
qed

subsection \<open>Following the cursors\<close>

text \<open>A position in an order, with the rows numbered.\<close>

definition transcript_rest :: "int list \<Rightarrow> transcriptPosition \<Rightarrow> (nat \<times> int) list" where
  "transcript_rest order p = drop (nat (tp_Offset p)) (zip [0..<length order] order)"

definition transcript_after :: "transcriptPosition \<Rightarrow> nat \<times> int \<Rightarrow> transcriptPosition" where
  "transcript_after p r = p\<lparr>tp_Offset := int (fst r) + 1\<rparr>"

interpretation transcript: paged "\<lambda>_. True" transcript_rest transcript_after
  by unfold_locales (simp add: transcript_rest_def transcript_after_def nat_add_distrib add.commute)

lemma add64_small: "0 \<le> a + b \<Longrightarrow> a + b < 2 ^ 63 \<Longrightarrow> add64 a b = a + b"
  by (simp add: add64_def signed_take_bit_int_eq_self signed_of_int del: of_int_add)

definition transcript_pages :: "Store \<Rightarrow> int \<Rightarrow> int \<Rightarrow> int \<Rightarrow> string \<Rightarrow> (PageEvent list \<times> string) result" where
  "transcript_pages s t r limit c = bind_result (snd (TranscriptEvents s t r c limit empty_orders)) (\<lambda>p. Inr (ep_Events p, ep_NextCursor p))"

definition transcript_fits :: "Store \<Rightarrow> int \<Rightarrow> int \<Rightarrow> transcriptPosition \<Rightarrow> bool" where
  "transcript_fits s t r p \<longleftrightarrow> int64 t \<and> int64 r \<and> tp_Trace p = t \<and> tp_Revision p = r \<and> tp_Generation p = generation_of s t r \<and>
     int64 (generation_of s t r) \<and> 0 \<le> tp_Offset p \<and> tp_Offset p \<le> int (length (events s))"

definition revision_there :: "Store \<Rightarrow> int \<Rightarrow> int \<Rightarrow> bool" where
  "revision_there s t r \<longleftrightarrow> r = 0 \<or> list_ex (\<lambda>x. v_ID x = r \<and> v_Trace x = t) (revisions s)"

lemma TranscriptEvents_page:
  assumes "requireTrace s t = Inr ()" "revision_there s t r" "transcript_position t r (generation_of s t r) c = Inr p"
  shows "snd (TranscriptEvents s t r c limit empty_orders) = transcript_page s (sorted_transcript s t r) p (int (pageLimit limit))"
proof -
  have "find (\<lambda>x. v_ID x = r \<and> v_Trace x = t) (revisions s) \<noteq> None" if "r \<noteq> 0"
    using assms(2) that by (auto simp: revision_there_def find_None_iff list_ex_iff)
  then have "(if r = 0 then Some () else map_option (\<lambda>_. ()) (find (\<lambda>x. v_ID x = r \<and> v_Trace x = t) (revisions s))) = Some ()"
    by auto
  then show ?thesis
    by (simp add: TranscriptEvents_def assms(1,3) found_def transcriptOrder_def get_order_def empty_orders_def Let_def)
qed

lemma rest_rows: "map snd (take k (transcript_rest order p)) = take k (drop (nat (tp_Offset p)) order)"
  by (simp add: transcript_rest_def take_map [symmetric] drop_map [symmetric])

lemma transcript_turn:
  fixes limit :: int
  assumes dec: "decodable s" and ids: "distinct (map ev_ID (events s))" and small: "int (length (events s)) < 2 ^ 62"
    and there: "requireTrace s t = Inr ()" "revision_there s t r"
    and p: "transcript_position t r (generation_of s t r) c = Inr p" "transcript_fits s t r p"
  defines "order \<equiv> sorted_transcript s t r" and "k \<equiv> pageLimit limit"
  shows "\<exists>xs c'. transcript_pages s t r limit c = Inr (xs, c') \<and>
    map_result (\<lambda>x. Inr (shown_event s t r (snd x))) (take k (transcript_rest order p)) = Inr xs \<and>
    (if length (transcript_rest order p) \<le> k then c' = []
     else c' \<noteq> [] \<and> transcript_position t r (generation_of s t r) c' = Inr (transcript_after p (transcript_rest order p ! (k - 1))) \<and>
       transcript_fits s t r (transcript_after p (transcript_rest order p ! (k - 1))))"
proof -
  note o = sorted_ids [OF ids, of t r, folded order_def]
  obtain m where m: "tp_Offset p = int m" "m \<le> length (events s)" using p(2) by (auto simp: transcript_fits_def dest: nonneg_int_cases)
  have k: "0 < k" "k \<le> 200" using pageLimit_bounds [of limit] by (simp_all add: k_def)
  have following: "add64 (int m) (int k) = int (m + k)" using small m(2) k by (subst add64_small) auto
  have slice: "slice_order order (min (int m) (int (length order))) (min (int (m + k)) (int (length order))) = Inr (take k (drop m order))"
    by (simp add: slice_order_def min_def nat_add_distrib)
  have ids': "distinct (take k (drop m order))" "set (take k (drop m order)) \<subseteq> (\<lambda>r. ev_ID (fst r)) ` set (transcript_join s r)"
    using o(1,2) set_take_subset [of k "drop m order"] set_drop_subset [of m order] by auto
  define c' where "c' = (if m + k < length order then encode_position (p\<lparr>tp_Offset := int (m + k)\<rparr>) else [])"
  have page: "transcript_page s order p (int k) =
      Inr \<lparr>ep_Events = map (shown_event s t r) (take k (drop m order)), ep_NextCursor = c'\<rparr>"
    using transcriptRows_ids [OF dec ids ids', of t] p(2) slice
    by (auto simp: transcript_page_def m(1) following Let_def c'_def transcript_fits_def)
  have "transcript_pages s t r limit c = Inr (map (shown_event s t r) (take k (drop m order)), c')"
    using page by (simp add: transcript_pages_def TranscriptEvents_page [OF there p(1)] k_def order_def)
  moreover have "map_result (\<lambda>x. Inr (shown_event s t r (snd x))) (take k (transcript_rest order p)) = Inr (map (shown_event s t r) (take k (drop m order)))"
    using arg_cong [OF rest_rows [of k order p], of "map (shown_event s t r)"]
    by (subst map_result_Inr [where g = "\<lambda>x. shown_event s t r (snd x)"]) (simp_all add: comp_def m(1))
  moreover have "if length (transcript_rest order p) \<le> k then c' = []
     else c' \<noteq> [] \<and> transcript_position t r (generation_of s t r) c' = Inr (transcript_after p (transcript_rest order p ! (k - 1))) \<and>
       transcript_fits s t r (transcript_after p (transcript_rest order p ! (k - 1)))"
  proof (cases "length order \<le> m + k")
    case False
    let ?q = "p\<lparr>tp_Offset := int (m + k)\<rparr>"
    have q: "transcript_after p (transcript_rest order p ! (k - 1)) = ?q"
      using False k(1) by (simp add: transcript_after_def transcript_rest_def m(1) of_nat_diff)
    have "transcript_fits s t r ?q" using p(2) False o(3) by (simp add: transcript_fits_def)
    moreover then have "valid_position ?q" using small by (auto simp: transcript_fits_def valid_position_def int64_def)
    ultimately show ?thesis
      using False transcript_position_encode [of ?q t r "generation_of s t r"] position_decoded(1) [of ?q]
      unfolding q by (simp add: c'_def transcript_rest_def m(1) transcript_fits_def)
  qed (simp add: c'_def transcript_rest_def m(1))
  ultimately show ?thesis by blast
qed

lemma generation_bounds:
  assumes "list_all (\<lambda>n. int64 (nr_ID n)) (runs s)"
  shows "int64 (generation_of s t r)"
proof -
  have "0 \<le> foldr max xs (0::int)" for xs by (induction xs) auto
  then have "0 \<le> generation_of s t r" unfolding generation_of_def .
  moreover have "generation_of s t r < 2 ^ 63" unfolding generation_of_def using assms
    by (intro foldr_max_less) (auto simp: list_all_iff int64_def)
  ultimately show ?thesis by (simp add: int64_def)
qed

text \<open>C28. Reading a transcript page by page, of the merged view or of one revision, shows every event of it once, in the order
  of the transcript, whatever the size of the pages, and ends.\<close>

theorem Transcript_listed:
  assumes "reachable s" "decodable s" "list_all (\<lambda>n. int64 (nr_ID n)) (runs s)" "int64 t" "int64 r" "int (length (events s)) < 2 ^ 62"
    "list_ex (\<lambda>x. t_ID x = t) (traces s)" "r = 0 \<or> list_ex (\<lambda>x. v_ID x = r \<and> v_Trace x = t) (revisions s)"
  shows "\<exists>es. read_all (transcript_pages s t r limit) (length (events s) + 1) [] = Inr es \<and>
    map (\<lambda>e. e_ID (pe_Event e)) es = sorted_transcript s t r"
proof -
  have ids: "distinct (map ev_ID (events s))" using chain.always [OF assms(1)] by (simp add: chain_but_def keys_ok_def)
  define p where "p = \<lparr>tp_Trace = t, tp_Revision = r, tp_Offset = 0, tp_Generation = generation_of s t r\<rparr>"
  let ?order = "sorted_transcript s t r"
  have p: "transcript_position t r (generation_of s t r) [] = Inr p" "transcript_fits s t r p"
    using generation_bounds [OF assms(3)] assms(4,5) by (simp_all add: transcript_position_def p_def transcript_fits_def)
  have there: "requireTrace s t = Inr ()" "revision_there s t r" using assms(7,8) by (simp_all add: requireTrace_def revision_there_def)
  have len: "length (transcript_rest ?order p) < length (events s) + 1"
    using sorted_ids(3) [OF ids, of t r] by (simp add: transcript_rest_def p_def)
  have "\<exists>es. read_all (transcript_pages s t r limit) (length (events s) + 1) [] = Inr es \<and>
      map_result (\<lambda>x. Inr (shown_event s t r (snd x))) (transcript_rest ?order p) = Inr es"
    by (intro transcript.reads_all [where decode = "transcript_position t r (generation_of s t r)" and fits = "transcript_fits s t r"
      and k = "pageLimit limit", OF _ _ transcript_turn [OF assms(2) ids assms(6) there] p len]) (simp_all add: pageLimit_bounds)
  then obtain es where es: "read_all (transcript_pages s t r limit) (length (events s) + 1) [] = Inr es"
      "map_result (\<lambda>x. Inr (shown_event s t r (snd x))) (transcript_rest ?order p) = Inr es" by blast
  have "es = map (\<lambda>x. shown_event s t r (snd x)) (transcript_rest ?order p)"
    using es(2) by (subst (asm) map_result_Inr [where g = "\<lambda>x. shown_event s t r (snd x)"]) simp_all
  moreover have "map snd (transcript_rest ?order p) = ?order" by (simp add: transcript_rest_def p_def)
  ultimately have "es = map (shown_event s t r) ?order" using map_map [of "shown_event s t r" snd "transcript_rest ?order p"] by (simp add: comp_def)
  moreover have "e_ID (pe_Event (shown_event s t r i)) = i" if "i \<in> set ?order" for i
    using sorted_ids(2) [OF ids, of t r] that transcript_event_ok(2) [OF assms(2) _ ids] by fastforce
  ultimately show ?thesis using es(1) by (simp add: comp_def map_idI)
qed


theorem Transcript_listed_witness:
  "\<exists>es. read_all (transcript_pages note_store 1 0 1) 2 [] = Inr es \<and> map (\<lambda>e. e_ID (pe_Event e)) es = [1]"
proof -
  have t: "list_ex (\<lambda>t. t_ID t = 1) (traces note_store)" using note_contents(9) by auto
  have n: "list_all (\<lambda>n. int64 (nr_ID n)) (runs note_store)" using note_contents(12) by (auto simp: int64_def)
  obtain q where q: "observations note_store = [q]" "ob_ID q = 1" using note_contents(11) by auto
  have "sorted_transcript note_store 1 0 = [1]"
    by (simp add: sorted_transcript_def transcript_join_def transcriptObservation_def note_contents(1) q List.map_filter_def)
  with Transcript_listed [OF note_reachable note_readable n _ _ _ t, of 0 1] show ?thesis
    by (simp add: note_contents(1) numeral_2_eq_2 int64_def)
qed

end
