(* ===== verification/TranscriptStale.thy ===== *)
theory TranscriptStale
  imports TranscriptFacts StoreAgain
begin

text \<open>
  Two limits of reading a transcript: a cursor whose offset is close to the greatest \<open>int64\<close>, and a cached order
  whose key comes back after its trace was deleted.
\<close>

subsection \<open>A cache in use\<close>

definition read_orders :: transcriptOrders where
  "read_orders = fst (TranscriptEvents note_store 1 0 [] 50 empty_orders)"

theorem TranscriptEvents_cached_witness:
  "snd (TranscriptEvents note_store 1 0 [] 50 read_orders) = snd (TranscriptEvents note_store 1 0 [] 50 empty_orders) \<and>
   length (to_items (fst (TranscriptEvents note_store 1 0 [] 50 read_orders))) \<le> 8"
proof -
  have "cache_ok empty_orders" "coherent note_store empty_orders" by (simp_all add: cache_ok_def coherent_def empty_orders_def)
  note first = TranscriptEvents_cached [OF this, of 1 0 "[]" 50, folded read_orders_def]
  show ?thesis using TranscriptEvents_cached [of read_orders note_store 1 0 "[]" 50] first by (simp add: transcriptOrderCapacity_def)
qed

subsection \<open>A great offset\<close>

definition great_position :: "int \<Rightarrow> transcriptPosition" where
  "great_position g = \<lparr>tp_Trace = 1, tp_Revision = 0, tp_Offset = 2 ^ 63 - 1, tp_Generation = g\<rparr>"

text \<open>C30. A cursor with the greatest \<open>int64\<close> as its offset passes every test of \<open>TranscriptEvents\<close>, but the end of
  the page it asks for wraps around to a negative number, and cutting the order panics instead of showing an empty page.\<close>

theorem great_offset_panics:
  assumes "requireTrace s 1 = Inr ()" "int64 (generation_of s 1 0)"
  shows "snd (TranscriptEvents s 1 0 (encode_position (great_position (generation_of s 1 0))) limit empty_orders) = Inl slice_panic"
proof -
  let ?p = "great_position (generation_of s 1 0)"
  have "valid_position ?p" using assms(2) by (simp add: valid_position_def great_position_def int64_def)
  then have p: "transcript_position 1 0 (generation_of s 1 0) (encode_position ?p) = Inr ?p"
    by (intro transcript_position_encode) (simp_all add: great_position_def)
  define k where "k = pageLimit limit"
  have k: "0 < k" "k \<le> 200" using pageLimit_bounds [of limit] by (simp_all add: k_def)
  have "add64 (2 ^ 63 - 1) (int k) = int k - 2 ^ 63 - 1"
  proof -
    have "(int k - 1 + 2 ^ 64) mod 2 ^ 64 = int k - 1" using k by (simp only: mod_add_self2) simp
    then have "take_bit 64 (2 ^ 63 - 1 + int k + 2 ^ 63) = int k - 1" by (simp add: take_bit_eq_mod algebra_simps)
    then show ?thesis by (simp add: add64_def signed_of_int signed_take_bit_eq_take_bit_shift del: of_int_add of_int_diff)
  qed
  then have "transcript_page s order ?p (int k) = Inl slice_panic" for order
    using k by (simp add: transcript_page_def great_position_def Let_def slice_order_def min_def)
  with TranscriptEvents_page [OF assms(1) _ p, of limit] show ?thesis by (simp add: revision_there_def k_def)
qed

theorem great_offset_panics_witness:
  "snd (TranscriptEvents note_store 1 0 (encode_position (great_position (generation_of note_store 1 0))) 50 empty_orders) = Inl slice_panic"
proof -
  have "requireTrace note_store 1 = Inr ()" using note_contents(9) by (auto simp: requireTrace_def)
  moreover have "int64 (generation_of note_store 1 0)" using note_contents(12) by (intro generation_bounds) (auto simp: int64_def)
  ultimately show ?thesis by (rule great_offset_panics)
qed

subsection \<open>An order that is stale\<close>

lemma note_deleted:
  "\<exists>s. DeleteTrace 1 note_store = Inr s \<and> traces s = [] \<and> revisions s = [] \<and> revision_machines s = [] \<and> revision_objects s = [] \<and>
     source_objects s = [] \<and> events s = [] \<and> observations s = [] \<and> observation_revisions s = [] \<and> chunks s = [] \<and>
     observation_sources s = [] \<and> objects_dir s = [] \<and> runs s = [] \<and> eventSeq s = 1 \<and> repositories s = [] \<and> aliases s = []"
proof -
  obtain ms ims sm where s: "note_store = (recordRun 1 1 ''normalized'' [] [] (note_attached (note_rows (empty_store\<lparr>objects_dir := [(object_path note_digest, ''{}'')]\<rparr>))))
     \<lparr>machines := ms, imports_table := ims, summaries := sm, importSeq := 1\<rparr>" using note_store_eq by blast
  have more_fields: "revision_machines note_store = [(1, ''m'')]" "repositories note_store = []" "observation_sources note_store = []"
    "aliases note_store = []" "eventSeq note_store = 1"
    by (simp_all add: s recordRun_def note_attached_def note_rows_def empty_store_def)
  obtain t where t: "traces note_store = [t]" "t_ID t = 1" using note_contents(9) by auto
  obtain v where v: "revisions note_store = [v]" "v_ID v = 1" "v_Trace v = 1" using note_contents(10) by auto
  obtain q where q: "observations note_store = [q]" "ob_ID q = 1" "ob_Event q = 1" using note_contents(11) by auto
  obtain n where n: "runs note_store = [n]" "nr_ID n = 1" "nr_Revision n = 1" using note_contents(12) by auto
  define d where "d = delete_traces (\<lambda>t. t_ID t = 1) note_store"
  define s1 where "s1 = note_store\<lparr>traces := [], aliases := []\<rparr>"
  define s2 where "s2 = delete_revisions (\<lambda>r. v_Trace r = 1) s1"
  define s3 where "s3 = delete_observations (\<lambda>q. ob_Event q = 1) (s2\<lparr>events := []\<rparr>)"
  note fields = more_fields t v q n note_contents(1-6)
  have s2: "traces s2 = []" "revisions s2 = []" "revision_machines s2 = []" "revision_objects s2 = []" "events s2 = events note_store"
    "observations s2 = observations note_store" "observation_revisions s2 = []" "chunks s2 = []" "observation_sources s2 = []" "runs s2 = []"
    "eventSeq s2 = 1" "repositories s2 = []" "aliases s2 = []" "source_objects s2 = source_objects note_store" "objects_dir s2 = objects_dir note_store"
    by (simp_all add: s2_def s1_def delete_revisions_def delete_observation_revisions_def Let_def delete_where_def fields)
  have s3: "traces s3 = []" "revisions s3 = []" "revision_machines s3 = []" "revision_objects s3 = []" "events s3 = []" "observations s3 = []"
    "observation_revisions s3 = []" "chunks s3 = []" "observation_sources s3 = []" "runs s3 = []" "eventSeq s3 = 1" "repositories s3 = []"
    "aliases s3 = []" "source_objects s3 = source_objects note_store" "objects_dir s3 = objects_dir note_store"
    by (simp_all add: s3_def delete_observations_def delete_observation_revisions_def Let_def delete_where_def s2 fields)
  have ids: "map t_ID (filter (\<lambda>t. t_ID t = 1) (traces note_store)) = [1]" "map ev_ID (filter (\<lambda>e. ev_Trace e = 1) (events s2)) = [1]"
    "delete_where (\<lambda>t. t_ID t = 1) (traces note_store) = []" "delete_where (\<lambda>e. ev_Trace e = 1) (events s2) = []"
    by (simp_all add: t s2(5) note_contents(1) delete_where_def)
  have "d = s3\<lparr>chunks := []\<rparr>"
    unfolding d_def delete_traces_def delete_events_def Let_def ids
    by (simp add: more_fields ids s1_def [symmetric] s2_def [symmetric] s3_def [symmetric] s3(8) delete_where_def [of _ "[]"] del: set_map set_filter list.set_map)
  then have d: "traces d = []" "revisions d = []" "revision_machines d = []" "revision_objects d = []" "events d = []" "observations d = []"
    "observation_revisions d = []" "chunks d = []" "observation_sources d = []" "runs d = []" "eventSeq d = 1" "repositories d = []" "aliases d = []"
    "source_objects d = source_objects note_store" "objects_dir d = objects_dir note_store"
    by (simp_all add: s3)
  have "objects_ok d" unfolding d_def by (rule objects_ok_same [OF objects.always [OF note_reachable] delete_objects(5)])
  note g = gc_spec [OF this]
  have "DeleteTrace 1 note_store = Inr (gc d)" using note_contents(9) by (auto simp: DeleteTrace_def d_def)
  then show ?thesis by (intro exI [of _ "gc d"]) (simp add: g d used_def)
qed

lemma read_orders_items: "get_order read_orders \<lparr>tk_trace = 1, tk_revision = 0, tk_generation = 1\<rparr> = Some [1]"
proof -
  obtain t where t: "traces note_store = [t]" "t_ID t = 1" using note_contents(9) by auto
  obtain v where v: "revisions note_store = [v]" "v_ID v = 1" "v_Trace v = 1" using note_contents(10) by auto
  obtain q where q: "observations note_store = [q]" "ob_ID q = 1" "ob_Event q = 1" using note_contents(11) by auto
  obtain n where n: "runs note_store = [n]" "nr_ID n = 1" "nr_Revision n = 1" using note_contents(12) by auto
  have g: "generation_of note_store 1 0 = 1" by (simp add: generation_of_def n v)
  have o: "sorted_transcript note_store 1 0 = [1]"
    by (simp add: sorted_transcript_def transcript_join_def transcriptObservation_def note_contents(1) q List.map_filter_def)
  show ?thesis
    by (simp add: read_orders_def TranscriptEvents_def requireTrace_def t found_def transcript_position_def g transcriptOrder_def get_order_def
      empty_orders_def o put_order_def transcriptOrderCapacity_def Let_def)
qed

text \<open>The order of a deleted trace can stay in the cache under a key that comes back.  The ids of traces and of normalizer runs are
  given again after a deletion when they were the greatest, those of events are not.  In this run the only trace of a store is read,
  deleted and imported again: its new order has the key of the old one, and the transcript cannot be read.  With a later normalizer
  run of another trace in between, the import gets another run id, the key does not come back and the transcript is read as it
  should.\<close>

lemma stale_order:
  "\<exists>s2 s3 r ps. DeleteTrace 1 note_store = Inr s2 \<and> Import (\<lambda>_. []) note_run note_manifest note_files s2 = (s3, Inr r, ps) \<and>
     map ev_ID (events s3) = [2] \<and>
     snd (TranscriptEvents s3 1 0 [] 50 read_orders) = Inl ''transcript page found 0 of 1 events''"
proof -
  obtain s where s: "DeleteTrace 1 note_store = Inr s" "traces s = []" "revisions s = []" "revision_machines s = []" "revision_objects s = []"
    "source_objects s = []" "events s = []" "observations s = []" "observation_revisions s = []" "chunks s = []"
    "observation_sources s = []" "objects_dir s = []" "runs s = []" "eventSeq s = 1" using note_deleted by blast
  let ?r = "zero_Report\<lparr>ir_CreatedAt := [], ir_Machine := mf_SourceMachine note_manifest\<rparr>"
  obtain s1 r1 where b: "beginImport ?r s = (s1, r1)" by force
  then obtain ms ims k where s1: "s1 = s\<lparr>machines := ms, imports_table := ims, importSeq := k, runningImport := k\<rparr>"
    by (auto simp: beginImport_def Let_def)
  define s2 where "s2 = recordRun 1 1 ''normalized'' [] [] (note_attached (note_rows (s1\<lparr>objects_dir := [(object_path note_digest, ''{}'')]\<rparr>)))"
  obtain out where t: "importTrace [] note_run note_manifest note_trace note_files s1 = (s2, out)"
    using note_imported [of s1] by (simp add: s1 s s2_def)
  obtain r2 p where ts: "import_traces (\<lambda>_. []) note_run note_manifest note_files 0 (mf_Traces note_manifest)
      (s1, r1, [normalizing 0 (length (mf_Traces note_manifest)) None]) = (s2, r2, p)"
    by (simp add: note_manifest_parts t)
  obtain s3 r ps where i: "Import (\<lambda>_. []) note_run note_manifest note_files s = (s3, Inr r, ps)"
    using Import_finishes [OF log.always [OF reachable_step [OF note_reachable step_delete [OF s(1)]]]] by blast
  have "\<exists>b e. fst (Import (\<lambda>_. []) note_run note_manifest note_files s) = s2\<lparr>imports_table := b, summaries := e, runningImport := 0\<rparr>"
    by (rule Import_store [OF b ts])
  then obtain im sm where s3: "s3 = s2\<lparr>imports_table := im, summaries := sm, runningImport := 0\<rparr>" using i by auto
  have f: "traces s3 = traces (note_rows empty_store)" "revisions s3 = revisions (note_rows empty_store)"
    "events s3 = [\<lparr>ev_ID = 2, ev_Trace = 1, ev_Key = ''k'', ev_SortTime = canonicalTime [], ev_SortKey = ''k'', ev_Preferred = Some 1\<rparr>]"
    "map nr_ID (runs s3) = [1]" "map nr_Revision (runs s3) = [1]"
    by (simp_all add: s3 s2_def s1 recordRun_def note_attached_def note_rows_def s next_rowid_def)
  obtain n where n: "runs s3 = [n]" "nr_ID n = 1" "nr_Revision n = 1" using f(4,5) by auto
  have g: "generation_of s3 1 0 = 1" by (simp add: generation_of_def n f(2) note_rows_def)
  have rows: "transcriptRows s3 1 0 [1] = Inl ''transcript page found 0 of 1 events''"
  proof -
    have "filter (\<lambda>r. ev_ID (fst r) \<in> set [1]) (transcript_join s3 0) = []"
      by (auto simp: filter_empty_conv transcript_join_def List.map_filter_def f(3) split: bind_splits)
    moreover have "Itoa 0 = ''0''" "Itoa 1 = ''1''" by code_simp+
    ultimately show ?thesis by (simp add: transcriptRows_def)
  qed
  have "slice_order [1] 0 1 = Inr [1]" by (simp add: slice_order_def)
  moreover have "add64 0 50 = 50" by (simp add: add64_small)
  ultimately have "snd (TranscriptEvents s3 1 0 [] 50 read_orders) = Inl ''transcript page found 0 of 1 events''"
    using read_orders_items rows
    by (simp add: TranscriptEvents_def requireTrace_def f(1) note_rows_def found_def transcript_position_def g transcriptOrder_def pageLimit_def transcript_page_def Let_def)
  moreover have "map ev_ID (events s3) = [2]" by (simp add: f(3))
  ultimately show ?thesis using s(1) i by (intro exI conjI)
qed

end
