(* ===== verification/Logs.thy ===== *)
theory Logs
  imports Cursor GoTime Upload
begin

text \<open>
  The log of the server, \<open>internal/server/logs.go\<close>: records are redacted, passed on, and the newest thousand are kept for
  \<open>GET /api/v1/logs\<close>, which shows them in pages.  An attribute's value is what \<open>slog.Value.Resolve\<close> gives; an error and any other
  value are kept as the text \<open>Error()\<close> and \<open>fmt.Sprint\<close> give, a duration and a number that is not finite as the text
  \<open>Value.String()\<close> gives.  Times are in UTC.
\<close>

subsection \<open>Values\<close>

datatype LogValue =
    VString string
  | VInt64 int
  | VUint64 int
  | VFloat64 json
  | VNotFinite string
  | VBool bool
  | VDuration string
  | VTime datetime
  | VNil
  | VError string
  | VAny string
  | VGroup "(string \<times> LogValue) list"

type_synonym Attr = "string \<times> LogValue"

subsection \<open>Redaction\<close>

text \<open>\<open>strings.Replacer\<close> with the same replacement for every old string: at each place the first of them that matches.\<close>

definition redacted :: string where "redacted = ''[redacted]''"

function replace_each :: "string list \<Rightarrow> string \<Rightarrow> string" where
  "replace_each olds [] = []"
| "replace_each olds (c # s) =
     (case find (\<lambda>old. prefix old (c # s)) olds of
        Some old \<Rightarrow> redacted @ replace_each olds (drop (length old - 1) s)
      | None \<Rightarrow> c # replace_each olds s)"
  by pat_completeness auto
termination by (relation "measure (\<lambda>(_, s). length s)") auto

text \<open>\<open>recordLogs\<close>: the secrets that are set, a longer one before a shorter one.\<close>

definition log_secrets :: "string \<Rightarrow> string \<Rightarrow> string list" where
  "log_secrets adminToken apiKey =
     filter (\<lambda>s. s \<noteq> []) (if length adminToken < length apiKey then [apiKey, adminToken] else [adminToken, apiKey])"

definition log_text :: "string list \<Rightarrow> string \<Rightarrow> string" where
  "log_text secrets value = (if secrets = [] then value else replace_each secrets value)"

fun cleanValue :: "string list \<Rightarrow> LogValue \<Rightarrow> LogValue" where
  "cleanValue secrets (VString s) = VString (log_text secrets s)"
| "cleanValue secrets (VGroup as) = VGroup (map (\<lambda>a. (fst a, cleanValue secrets (snd a))) as)"
| "cleanValue secrets (VError s) = VString (log_text secrets s)"
| "cleanValue secrets (VAny s) = VString (log_text secrets s)"
| "cleanValue secrets v = v"

definition cleanAttr :: "string list \<Rightarrow> Attr \<Rightarrow> Attr" where
  "cleanAttr secrets a = (fst a, cleanValue secrets (snd a))"

subsection \<open>The fields of a record\<close>

definition logValue :: "LogValue \<Rightarrow> json" where
  "logValue v = (case v of
      VString s \<Rightarrow> JStr s
    | VInt64 i \<Rightarrow> jint i
    | VUint64 i \<Rightarrow> jint i
    | VFloat64 j \<Rightarrow> j
    | VNotFinite s \<Rightarrow> JStr s
    | VBool b \<Rightarrow> JBool b
    | VDuration s \<Rightarrow> JStr s
    | VTime t \<Rightarrow> JStr (format_nano t)
    | VNil \<Rightarrow> JNull
    | VError s \<Rightarrow> JStr s
    | VAny s \<Rightarrow> JStr s
    | VGroup as \<Rightarrow> JNull)"

fun put_in_groups :: "string list \<Rightarrow> string \<Rightarrow> json \<Rightarrow> (string \<times> json) list \<Rightarrow> (string \<times> json) list" where
  "put_in_groups [] k v fs = obj_put k v fs"
| "put_in_groups (g # gs) k v fs =
     obj_put g (JObj (put_in_groups gs k v (case map_of fs g of Some (JObj child) \<Rightarrow> child | _ \<Rightarrow> []))) fs"

text \<open>A group holds attributes of its own; an empty attribute is skipped, an unnamed group puts its members beside it.\<close>

fun putLogAttr :: "string list \<Rightarrow> Attr \<Rightarrow> (string \<times> json) list \<Rightarrow> (string \<times> json) list" where
  "putLogAttr groups (k, VGroup as) fs = foldl (\<lambda>f a. putLogAttr (if k = [] then groups else groups @ [k]) a f) fs as"
| "putLogAttr groups (k, v) fs = (if k = [] \<and> v = VNil then fs else put_in_groups groups k (logValue v) fs)"

subsection \<open>The buffer\<close>

definition logCapacity :: nat where "logCapacity = 1000"

record logRecord =
  lr_Seq :: int
  lr_Time :: string
  lr_Level :: string
  lr_Message :: string
  lr_Attrs :: "(string \<times> json) list"
  lr_level :: int
  lr_at :: datetime

record logBuffer =
  lb_instance :: string
  lb_last :: int
  lb_records :: "logRecord list"

definition log_add :: "logRecord \<Rightarrow> logBuffer \<Rightarrow> logBuffer" where
  "log_add r b =
     (let n = lb_last b + 1; kept = (if length (lb_records b) = logCapacity then tl (lb_records b) else lb_records b)
      in b\<lparr>lb_last := n, lb_records := kept @ [r\<lparr>lr_Seq := n\<rparr>]\<rparr>)"

subsection \<open>The handler\<close>

record logHandler =
  lh_secrets :: "string list"
  lh_bound :: "(string list \<times> Attr) list"
  lh_groups :: "string list"

definition recordLogs :: "string \<Rightarrow> string \<Rightarrow> string \<Rightarrow> logHandler \<times> logBuffer" where
  "recordLogs adminToken apiKey random =
     (\<lparr>lh_secrets = log_secrets adminToken apiKey, lh_bound = [], lh_groups = []\<rparr>, \<lparr>lb_instance = random, lb_last = 0, lb_records = []\<rparr>)"

text \<open>The handler with attributes, and the attributes the wrapped handler gets.\<close>

definition WithAttrs :: "Attr list \<Rightarrow> logHandler \<Rightarrow> logHandler \<times> Attr list" where
  "WithAttrs attrs h =
     (let clean = map (cleanAttr (lh_secrets h)) attrs
      in (h\<lparr>lh_bound := lh_bound h @ map (\<lambda>a. (lh_groups h, a)) clean\<rparr>, clean))"

definition WithGroup :: "string \<Rightarrow> logHandler \<Rightarrow> logHandler" where
  "WithGroup name h = (if name = [] then h else h\<lparr>lh_groups := lh_groups h @ [name]\<rparr>)"

record slogRecord =
  sr_Time :: datetime
  sr_Level :: int
  sr_Message :: string
  sr_Attrs :: "Attr list"

text \<open>\<open>slog.Level.String\<close>\<close>

definition level_name :: "string \<Rightarrow> int \<Rightarrow> string" where
  "level_name base i = base @ (if i = 0 then [] else if 0 < i then ''+'' @ Itoa i else Itoa i)"

definition level_string :: "int \<Rightarrow> string" where
  "level_string l =
     (if l < 0 then level_name ''DEBUG'' (l + 4) else if l < 4 then level_name ''INFO'' l
      else if l < 8 then level_name ''WARN'' (l - 4) else level_name ''ERROR'' (l - 8))"

text \<open>Handling a record: the buffer, and the record the wrapped handler gets.\<close>

definition Handle :: "logHandler \<Rightarrow> slogRecord \<Rightarrow> logBuffer \<Rightarrow> logBuffer \<times> slogRecord" where
  "Handle h r b =
     (let message = log_text (lh_secrets h) (sr_Message r);
          attrs = map (cleanAttr (lh_secrets h)) (sr_Attrs r);
          fs = foldl (\<lambda>f x. putLogAttr (fst x) (snd x) f) [] (lh_bound h);
          fs = foldl (\<lambda>f a. putLogAttr (lh_groups h) a f) fs attrs
      in (log_add \<lparr>lr_Seq = 0, lr_Time = format_nano (sr_Time r), lr_Level = ToLower (level_string (sr_Level r)), lr_Message = message,
             lr_Attrs = fs, lr_level = sr_Level r, lr_at = sr_Time r\<rparr> b,
          r\<lparr>sr_Message := message, sr_Attrs := attrs\<rparr>))"

subsection \<open>Pages\<close>

record logCursor =
  lc_Instance :: string
  lc_Before :: int

record logPage =
  lp_Records :: "logRecord list"
  lp_NextCursor :: string

definition log_cursor_json :: "logCursor \<Rightarrow> json" where
  "log_cursor_json c = JObj (str_field ''instance'' (lc_Instance c) @ int_field ''before'' (lc_Before c))"

definition encode_log_cursor :: "logCursor \<Rightarrow> string" where
  "encode_log_cursor c = EncodeToString (Marshal (log_cursor_json c))"

definition decode_log_cursor :: "json \<Rightarrow> logCursor option" where
  "decode_log_cursor j =
     (if \<not> is_struct j then None
      else case (dec_str j ''instance'', dec_int j ''before'') of
        (Some i, Some n) \<Rightarrow> Some \<lparr>lc_Instance = i, lc_Before = n\<rparr>
      | _ \<Rightarrow> None)"

definition Before :: "datetime \<Rightarrow> datetime \<Rightarrow> bool" where
  "Before a b \<longleftrightarrow> (year a, month a, day a, hour a, minute a, second a, nanos a) < (year b, month b, day b, hour b, minute b, second b, nanos b)"

definition log_skipped :: "int \<Rightarrow> datetime \<Rightarrow> int \<Rightarrow> logRecord \<Rightarrow> bool" where
  "log_skipped minimum since before r \<longleftrightarrow> (0 < before \<and> before \<le> lr_Seq r) \<or> lr_level r < minimum \<or> Before (lr_at r) since"

text \<open>The loop, from the newest record down.\<close>

fun page_loop :: "string \<Rightarrow> int \<Rightarrow> datetime \<Rightarrow> int \<Rightarrow> nat \<Rightarrow> logRecord list \<Rightarrow> logRecord list \<Rightarrow> logPage" where
  "page_loop inst minimum since before limit acc [] = \<lparr>lp_Records = acc, lp_NextCursor = []\<rparr>"
| "page_loop inst minimum since before limit acc (r # rs) =
     (if log_skipped minimum since before r then page_loop inst minimum since before limit acc rs
      else if length acc = limit
      then \<lparr>lp_Records = acc, lp_NextCursor = encode_log_cursor \<lparr>lc_Instance = inst, lc_Before = lr_Seq (acc ! (limit - 1))\<rparr>\<rparr>
      else page_loop inst minimum since before limit (acc @ [r]) rs)"

definition log_page :: "int \<Rightarrow> datetime \<Rightarrow> int \<Rightarrow> nat \<Rightarrow> logBuffer \<Rightarrow> logPage" where
  "log_page minimum since before limit b = page_loop (lb_instance b) minimum since before limit [] (rev (lb_records b))"

subsection \<open>The request\<close>

definition bad_query :: "string \<Rightarrow> Response" where
  "bad_query message = writeError 400 ''400 Bad Request'' ''invalid_query'' message"

definition page_limit :: "(string \<Rightarrow> string) \<Rightarrow> Response + nat" where
  "page_limit q =
     (if q ''limit'' = [] then Inr 50
      else case ParseInt (q ''limit'') of
          Some n \<Rightarrow> if n < 1 \<or> 200 < n then Inl (writeError 400 ''400 Bad Request'' ''invalid_limit'' ''limit must be between 1 and 200'') else Inr (nat n)
        | None \<Rightarrow> Inl (writeError 400 ''400 Bad Request'' ''invalid_limit'' ''limit must be between 1 and 200''))"

definition log_level :: "string \<Rightarrow> int option" where
  "log_level s = (if s = [] \<or> s = ''info'' then Some 0 else if s = ''warn'' then Some 4 else if s = ''error'' then Some 8 else None)"

definition zero_time :: datetime where
  "zero_time = \<lparr>year = 1, month = 1, day = 1, hour = 0, minute = 0, second = 0, nanos = 0\<rparr>"

definition log_since :: "string \<Rightarrow> datetime option" where
  "log_since s = (if s = [] then Some zero_time else parse_rfc3339 s)"

definition log_position :: "string \<Rightarrow> string \<Rightarrow> int option" where
  "log_position inst s =
     (if s = [] then Some 0
      else Option.bind (Option.bind (Option.bind (DecodeString s) parse_text) decode_log_cursor) (\<lambda>c.
        if lc_Instance c \<noteq> inst \<or> lc_Before c \<le> 0 then None else Some (lc_Before c)))"

definition logs_page :: "(string \<Rightarrow> string) \<Rightarrow> logBuffer \<Rightarrow> Response + logPage" where
  "logs_page q b =
     (case page_limit q of
        Inl e \<Rightarrow> Inl e
      | Inr limit \<Rightarrow>
        (case log_level (q ''level'') of
           None \<Rightarrow> Inl (bad_query ''level must be info, warn, or error'')
         | Some minimum \<Rightarrow>
           (case log_since (q ''since'') of
              None \<Rightarrow> Inl (bad_query ''since must be an RFC 3339 timestamp'')
            | Some since \<Rightarrow>
              (case log_position (lb_instance b) (q ''cursor'') of
                 None \<Rightarrow> Inl (bad_query ''invalid or expired cursor; logs start over when the server restarts'')
               | Some before \<Rightarrow> Inr (log_page minimum since before limit b)))))"

definition log_record_json :: "logRecord \<Rightarrow> json" where
  "log_record_json r = JObj (int_field ''seq'' (lr_Seq r) @ str_field ''time'' (lr_Time r) @ str_field ''level'' (lr_Level r)
     @ str_field ''message'' (lr_Message r) @ (if lr_Attrs r = [] then [] else [(''attrs'', JObj (lr_Attrs r))]))"

definition log_page_json :: "logPage \<Rightarrow> json" where
  "log_page_json p = JObj ([(''records'', JArr (map log_record_json (lp_Records p)))] @ str_omit ''next_cursor'' (lp_NextCursor p))"

definition writeJSON :: "json \<Rightarrow> Response" where
  "writeJSON j = \<lparr>rs_Code = 200, rs_Status = ''200 OK'', rs_Body = Marshal j @ newline\<rparr>"

definition logs :: "(string \<Rightarrow> string) \<Rightarrow> logBuffer \<Rightarrow> Response" where
  "logs q b = (case logs_page q b of Inl e \<Rightarrow> e | Inr p \<Rightarrow> writeJSON (log_page_json p))"

end
