(* ===== verification/LogsFacts.thy ===== *)
theory LogsFacts
  imports Logs "HOL-Library.Sublist"
begin

text \<open>
  The log keeps no secret, holds the newest thousand records, and reading it page by page shows each of them once.
\<close>

subsection \<open>Redaction\<close>

text \<open>A text without any of the secrets, and secrets that the replacement cannot form.\<close>

definition secret_free :: "string list \<Rightarrow> string \<Rightarrow> bool" where
  "secret_free secrets t \<longleftrightarrow> list_all (\<lambda>s. \<not> sublist s t) secrets"

definition plain_secret :: "string \<Rightarrow> bool" where
  "plain_secret s \<longleftrightarrow> s \<noteq> [] \<and> CHR ''['' \<notin> set s \<and> CHR '']'' \<notin> set s \<and> \<not> sublist s ''redacted''"

lemma sublist_around:
  assumes "sublist s (as @ b # bs)" "b \<notin> set s"
  shows "sublist s as \<or> sublist s bs"
proof -
  obtain us vs where e: "as @ b # bs = us @ s @ vs" using assms(1) by (auto simp: sublist_def)
  then consider ws where "as = us @ ws" "ws @ b # bs = s @ vs" | ws where "as @ ws = us" "b # bs = ws @ s @ vs"
    by (auto simp: append_eq_append_conv2)
  then show ?thesis
  proof cases
    case 1
    then consider xs where "ws = s @ xs" | xs where "ws @ xs = s" "b # bs = xs @ vs" by (auto simp: append_eq_append_conv2)
    then show ?thesis
    proof cases
      case 2
      then show ?thesis using 1 assms(2) by (cases xs) auto
    qed (use 1 in auto)
  next
    case 2
    show ?thesis
    proof (cases ws)
      case Nil
      then show ?thesis using 2 assms(2) by (cases s) auto
    next
      case (Cons c ws')
      then show ?thesis using 2 by simp
    qed
  qed
qed

lemma prefix_replaced:
  assumes "CHR ''['' \<notin> set s"
  shows "prefix s (replace_each olds t) \<Longrightarrow> prefix s t"
  using assms
proof (induction olds t arbitrary: s rule: replace_each.induct)
  case (2 olds c t)
  show ?case
  proof (cases "find (\<lambda>old. prefix old (c # t)) olds")
    case None
    then show ?thesis using 2 by (cases s) auto
  next
    case (Some old)
    then show ?thesis using 2(3,4) by (cases s) (auto simp: redacted_def)
  qed
qed simp

lemma replaced_free:
  assumes "list_all plain_secret olds" "s \<in> set olds"
  shows "\<not> sublist s (replace_each olds t)"
  using assms
proof (induction olds t rule: replace_each.induct)
  case (2 olds c t)
  then have s: "plain_secret s" by (simp add: list_all_iff)
  show ?case
  proof (cases "find (\<lambda>old. prefix old (c # t)) olds")
    case None
    have "\<not> prefix s (replace_each olds (c # t))"
    proof
      assume "prefix s (replace_each olds (c # t))"
      then have "prefix s (c # t)" by (rule prefix_replaced [rotated]) (use s in \<open>simp add: plain_secret_def\<close>)
      with None 2(4) show False unfolding find_None_iff by blast
    qed
    moreover have "\<not> sublist s (replace_each olds t)" by (rule 2(1) [OF None 2(3,4)])
    ultimately show ?thesis using None by (simp add: sublist_Cons_right)
  next
    case (Some old)
    show ?thesis
    proof
      let ?rest = "replace_each olds (drop (length old - 1) t)"
      have s': "s \<noteq> []" "CHR ''['' \<notin> set s" "CHR '']'' \<notin> set s" "\<not> sublist s ''redacted''" using s by (auto simp: plain_secret_def)
      assume "sublist s (replace_each olds (c # t))"
      then have "sublist s ([] @ CHR ''['' # (''redacted'' @ CHR '']'' # ?rest))" using Some by (simp add: redacted_def)
      from sublist_around [OF this s'(2)] have "sublist s (''redacted'' @ CHR '']'' # ?rest)" using s'(1) by simp
      from sublist_around [OF this s'(3)] have "sublist s ?rest" using s'(4) by simp
      moreover have "\<not> sublist s ?rest" by (rule 2(2) [OF Some 2(3,4)])
      ultimately show False by simp
    qed
  qed
qed (auto simp: list_all_iff plain_secret_def)


text \<open>What \<open>Resolve\<close> and the formats of \<open>slog\<close> print themselves is not redacted; it is required to be free of secrets.\<close>

fun printed_free :: "string list \<Rightarrow> LogValue \<Rightarrow> bool" where
  "printed_free secrets (VFloat64 j) = (\<exists>m e. j = JNum m e)"
| "printed_free secrets (VNotFinite s) = secret_free secrets s"
| "printed_free secrets (VDuration s) = secret_free secrets s"
| "printed_free secrets (VTime t) = secret_free secrets (format_nano t)"
| "printed_free secrets (VGroup as) = list_all (\<lambda>a. printed_free secrets (snd a)) as"
| "printed_free secrets v = True"

fun value_free :: "string list \<Rightarrow> LogValue \<Rightarrow> bool" where
  "value_free secrets (VString s) = secret_free secrets s"
| "value_free secrets (VError s) = False"
| "value_free secrets (VAny s) = False"
| "value_free secrets (VGroup as) = list_all (\<lambda>a. value_free secrets (snd a)) as"
| "value_free secrets v = printed_free secrets v"

lemma log_text_free:
  assumes "list_all plain_secret secrets"
  shows "secret_free secrets (log_text secrets t)"
  using replaced_free [OF assms] by (auto simp: secret_free_def log_text_def list_all_iff)

lemma clean_free:
  assumes "list_all plain_secret secrets"
  shows "printed_free secrets v \<Longrightarrow> value_free secrets (cleanValue secrets v)"
proof (induction v)
  case (VGroup as)
  then have "value_free secrets (cleanValue secrets (snd a))" if "a \<in> set as" for a
    using that by (cases a) (auto simp: list_all_iff intro: snds.intros)
  then show ?case by (auto simp: list_all_iff)
qed (simp_all add: log_text_free [OF assms])

text \<open>The strings in the fields of a record.\<close>

fun json_free :: "string list \<Rightarrow> json \<Rightarrow> bool" where
  "json_free secrets (JStr s) = secret_free secrets s"
| "json_free secrets (JArr vs) = list_all (json_free secrets) vs"
| "json_free secrets (JObj m) = list_all (\<lambda>kv. json_free secrets (snd kv)) m"
| "json_free secrets v = True"

abbreviation fields_free :: "string list \<Rightarrow> (string \<times> json) list \<Rightarrow> bool" where
  "fields_free secrets m \<equiv> list_all (\<lambda>kv. json_free secrets (snd kv)) m"

lemma fields_free_put: "fields_free secrets m \<Longrightarrow> json_free secrets v \<Longrightarrow> fields_free secrets (obj_put k v m)"
  by (induction k v m rule: obj_put.induct) auto

lemma fields_free_of: "fields_free secrets m \<Longrightarrow> map_of m k = Some v \<Longrightarrow> json_free secrets v"
  by (auto simp: list_all_iff dest!: map_of_SomeD)

lemma put_in_groups_free: "fields_free secrets m \<Longrightarrow> json_free secrets v \<Longrightarrow> fields_free secrets (put_in_groups gs k v m)"
proof (induction gs k v m rule: put_in_groups.induct)
  case (2 g gs k v m)
  let ?child = "case map_of m g of Some (JObj child) \<Rightarrow> child | _ \<Rightarrow> []"
  have "fields_free secrets ?child" using fields_free_of [OF 2(2), of g] by (auto split: option.split json.split)
  then show ?case using 2 by (simp add: fields_free_put)
qed (simp add: fields_free_put)

lemma logValue_free: "value_free secrets v \<Longrightarrow> (\<forall>as. v \<noteq> VGroup as) \<Longrightarrow> json_free secrets (logValue v)"
  by (cases v) (auto simp: logValue_def jint_def number_def split: prod.split)

lemma foldl_keeps: "P z \<Longrightarrow> (\<And>y x. P y \<Longrightarrow> x \<in> set xs \<Longrightarrow> P (f y x)) \<Longrightarrow> P (foldl f z xs)"
  by (induction xs arbitrary: z) auto

lemma putLogAttr_free: "fields_free secrets m \<Longrightarrow> value_free secrets (snd a) \<Longrightarrow> fields_free secrets (putLogAttr gs a m)"
proof (induction gs a m rule: putLogAttr.induct)
  case (1 gs k as m)
  have v: "value_free secrets (snd a)" if "a \<in> set as" for a using 1(3) that by (simp add: list_all_iff)
  show ?case unfolding putLogAttr.simps
    by (rule foldl_keeps [where P = "fields_free secrets"], rule 1(2), rule 1(1)) (use v in auto)
qed (auto intro!: put_in_groups_free logValue_free)

subsection \<open>The handlers\<close>

datatype Derivation = DeriveAttrs "Attr list" | DeriveGroup string

text \<open>\<open>With\<close> and \<open>WithGroup\<close> of a logger, one after another; the attributes passed on to the wrapped handler are collected.\<close>

fun derive :: "Derivation list \<Rightarrow> logHandler \<Rightarrow> logHandler \<times> Attr list" where
  "derive [] h = (h, [])"
| "derive (DeriveAttrs as # ds) h = (case WithAttrs as h of (h, clean) \<Rightarrow> (case derive ds h of (h, others) \<Rightarrow> (h, clean @ others)))"
| "derive (DeriveGroup g # ds) h = derive ds (WithGroup g h)"

fun derivation_printed :: "string list \<Rightarrow> Derivation \<Rightarrow> bool" where
  "derivation_printed secrets (DeriveAttrs as) = list_all (\<lambda>a. printed_free secrets (snd a)) as"
| "derivation_printed secrets (DeriveGroup g) = True"

abbreviation attrs_free :: "string list \<Rightarrow> Attr list \<Rightarrow> bool" where
  "attrs_free secrets as \<equiv> list_all (\<lambda>a. value_free secrets (snd a)) as"

definition handler_free :: "logHandler \<Rightarrow> bool" where
  "handler_free h \<longleftrightarrow> attrs_free (lh_secrets h) (map snd (lh_bound h))"

lemma cleanAttr_free:
  assumes "list_all plain_secret secrets" "list_all (\<lambda>a. printed_free secrets (snd a)) as"
  shows "attrs_free secrets (map (cleanAttr secrets) as)"
  using assms by (auto simp: list_all_iff cleanAttr_def intro!: clean_free)

lemma derive_free:
  assumes "list_all plain_secret (lh_secrets h)"
  shows "handler_free h \<Longrightarrow> list_all (derivation_printed (lh_secrets h)) ds \<Longrightarrow>
    handler_free (fst (derive ds h)) \<and> lh_secrets (fst (derive ds h)) = lh_secrets h \<and> attrs_free (lh_secrets h) (snd (derive ds h))"
  using assms
proof (induction ds h rule: derive.induct)
  case (2 as ds h)
  let ?clean = "map (cleanAttr (lh_secrets h)) as"
  have c: "attrs_free (lh_secrets h) ?clean" using 2(3,4) by (intro cleanAttr_free) simp_all
  define h' where "h' = fst (WithAttrs as h)"
  have w: "WithAttrs as h = (h', ?clean)" "lh_secrets h' = lh_secrets h" by (simp_all add: h'_def WithAttrs_def Let_def)
  have "handler_free h'" using 2(2) c by (auto simp: h'_def handler_free_def WithAttrs_def Let_def comp_def list_all_iff)
  with 2(1) [OF w(1) [symmetric]] 2(3,4) w c show ?case by (auto split: prod.split)
next
  case (3 g ds h)
  have "handler_free (WithGroup g h)" "lh_secrets (WithGroup g h) = lh_secrets h" using 3(2) by (simp_all add: handler_free_def WithGroup_def)
  with 3 show ?case by simp
qed simp

lemma secrets_plain: "list_all plain_secret (filter (\<lambda>s. s \<noteq> []) [a, b]) \<Longrightarrow> list_all plain_secret (log_secrets a b)"
  by (auto simp: log_secrets_def)

text \<open>C34. No secret reaches the log.  A handler made by \<open>recordLogs\<close>, however attributes and groups are added to it, keeps and
  passes on only records whose message and texts hold neither the admin token nor the API key; keys, and the durations, times and
  numbers \<open>slog\<close> prints, are the program's own.\<close>

theorem logs_redacted:
  assumes "list_all plain_secret (filter (\<lambda>s. s \<noteq> []) [adminToken, apiKey])"
    "derive ds (fst (recordLogs adminToken apiKey random)) = (h, passed)"
    "list_all (derivation_printed (log_secrets adminToken apiKey)) ds" "list_all (\<lambda>a. printed_free (log_secrets adminToken apiKey) (snd a)) (sr_Attrs r)"
    "Handle h r b = (b', out)"
  shows "\<exists>kept. lb_records b' = kept @ [List.last (lb_records b')] \<and>
    secret_free (log_secrets adminToken apiKey) (lr_Message (List.last (lb_records b'))) \<and>
    fields_free (log_secrets adminToken apiKey) (lr_Attrs (List.last (lb_records b'))) \<and>
    secret_free (log_secrets adminToken apiKey) (sr_Message out) \<and> attrs_free (log_secrets adminToken apiKey) (passed @ sr_Attrs out)"
proof -
  let ?s = "log_secrets adminToken apiKey" and ?h = "fst (recordLogs adminToken apiKey random)"
  have s: "list_all plain_secret ?s" by (rule secrets_plain [OF assms(1)])
  have "handler_free ?h" "lh_secrets ?h = ?s" by (simp_all add: recordLogs_def handler_free_def)
  with derive_free [of ?h ds] s assms(2,3) have h: "handler_free h" "lh_secrets h = ?s" "attrs_free ?s passed" by auto
  let ?attrs = "map (cleanAttr ?s) (sr_Attrs r)"
  have a: "attrs_free ?s ?attrs" using s assms(4) by (rule cleanAttr_free)
  define f1 where "f1 = foldl (\<lambda>f x. putLogAttr (fst x) (snd x) f) [] (lh_bound h)"
  define f2 where "f2 = foldl (\<lambda>f a. putLogAttr (lh_groups h) a f) f1 ?attrs"
  have "fields_free ?s f1" unfolding f1_def
    by (rule foldl_keeps [where P = "fields_free ?s"], simp, rule putLogAttr_free) (use h in \<open>auto simp: handler_free_def list_all_iff\<close>)
  then have "fields_free ?s f2" unfolding f2_def
    by (rule foldl_keeps [where P = "fields_free ?s"], intro putLogAttr_free) (use a in \<open>auto simp: list_all_iff\<close>)
  then show ?thesis
    using assms(5) h(2,3) a log_text_free [OF s, of "sr_Message r"]
    by (auto simp: Handle_def Let_def log_add_def f1_def [symmetric] f2_def [symmetric])
qed

definition demo_record :: slogRecord where
  "demo_record = \<lparr>sr_Time = zero_time, sr_Level = 0, sr_Message = ''key sk-1 was refused'', sr_Attrs = [(''error'', VError ''bad sk-1''), (''n'', VInt64 3)]\<rparr>"

theorem logs_redacted_witness:
  "\<exists>b' out. Handle (fst (derive [DeriveGroup ''api''] (fst (recordLogs ''admin!'' ''sk-1'' ''x'')))) demo_record (snd (recordLogs ''admin!'' ''sk-1'' ''x'')) = (b', out) \<and>
     secret_free [''admin!'', ''sk-1''] (lr_Message (List.last (lb_records b'))) \<and> fields_free [''admin!'', ''sk-1''] (lr_Attrs (List.last (lb_records b')))"
proof -
  have p: "list_all plain_secret (filter (\<lambda>s. s \<noteq> []) [''admin!'', ''sk-1''])"
    by (simp add: plain_secret_def sublist_def Cons_eq_append_conv)
  obtain h passed where d: "derive [DeriveGroup ''api''] (fst (recordLogs ''admin!'' ''sk-1'' ''x'')) = (h, passed)" by force
  obtain b' out where h: "Handle h demo_record (snd (recordLogs ''admin!'' ''sk-1'' ''x'')) = (b', out)" by force
  have s: "log_secrets ''admin!'' ''sk-1'' = [''admin!'', ''sk-1'']" by (simp add: log_secrets_def)
  have "list_all (derivation_printed (log_secrets ''admin!'' ''sk-1'')) [DeriveGroup ''api'']"
    "list_all (\<lambda>a. printed_free (log_secrets ''admin!'' ''sk-1'') (snd a)) (sr_Attrs demo_record)" by (simp_all add: demo_record_def)
  from logs_redacted [OF p d this h] show ?thesis using d h by (auto simp: s)
qed

end
