(* ===== verification/LogPages.thy ===== *)
theory LogPages
  imports LogsFacts
begin

text \<open>
  The buffer is the newest thousand records in the order they were logged, and following the cursors shows each of those that
  match once, the newest first.
\<close>

subsection \<open>The buffer\<close>

definition log_buffer :: "string \<Rightarrow> logRecord list \<Rightarrow> logBuffer" where
  "log_buffer inst rs = foldl (\<lambda>b r. log_add r b) \<lparr>lb_instance = inst, lb_last = 0, lb_records = []\<rparr> rs"

definition numbered :: "logRecord list \<Rightarrow> logRecord list" where
  "numbered rs = map (\<lambda>i. (rs ! i)\<lparr>lr_Seq := int i + 1\<rparr>) [0..<length rs]"

definition newest :: "nat \<Rightarrow> 'a list \<Rightarrow> 'a list" where
  "newest n xs = drop (length xs - n) xs"

lemma numbered_snoc: "numbered (rs @ [r]) = numbered rs @ [r\<lparr>lr_Seq := int (length rs) + 1\<rparr>]"
  by (simp add: numbered_def nth_append)

lemma numbered_length [simp]: "length (numbered rs) = length rs"
  by (simp add: numbered_def)

lemma log_buffer_newest:
  "lb_instance (log_buffer inst rs) = inst \<and> lb_last (log_buffer inst rs) = int (length rs) \<and>
   lb_records (log_buffer inst rs) = newest logCapacity (numbered rs)"
proof (induction rs rule: rev_induct)
  case (snoc r rs)
  have "log_buffer inst (rs @ [r]) = log_add r (log_buffer inst rs)" by (simp add: log_buffer_def)
  moreover have "tl (newest 1000 (numbered rs)) = drop (length rs - 999) (numbered rs)" if "1000 \<le> length rs"
    using that by (simp add: newest_def tl_drop drop_Suc [symmetric] Suc_diff_le [symmetric])
  ultimately show ?case using snoc by (auto simp: log_add_def Let_def numbered_snoc logCapacity_def) (auto simp: newest_def)
qed (simp add: log_buffer_def numbered_def newest_def)

subsection \<open>A page\<close>

lemma page_loop_take:
  assumes "0 < limit"
  shows "length acc \<le> limit \<Longrightarrow> page_loop inst minimum since before limit acc rs =
    (let ms = acc @ filter (\<lambda>r. \<not> log_skipped minimum since before r) rs
     in \<lparr>lp_Records = take limit ms, lp_NextCursor = (if length ms \<le> limit then []
        else encode_log_cursor \<lparr>lc_Instance = inst, lc_Before = lr_Seq (ms ! (limit - 1))\<rparr>)\<rparr>)"
proof (induction rs arbitrary: acc)
  case (Cons r rs)
  then show ?case using assms by (auto simp: Let_def nth_append take_Cons')
qed (simp add: Let_def)

subsection \<open>Cursors\<close>

lemma log_cursor_decoded:
  assumes "ValidString inst" "0 < n" "n < 2 ^ 63"
  shows "encode_log_cursor \<lparr>lc_Instance = inst, lc_Before = n\<rparr> \<noteq> []" "log_position inst (encode_log_cursor \<lparr>lc_Instance = inst, lc_Before = n\<rparr>) = Some n"
proof -
  define c where "c = \<lparr>lc_Instance = inst, lc_Before = n\<rparr>"
  have i: "int64 n" using assms by (simp add: int64_def)
  have k: "plain_key ''instance''" "plain_key ''before''" by (simp_all add: plain_key_def upper_ascii_def less_eq_char_def)
  have "get_field (canon (log_cursor_json c)) ''instance'' = JStr inst" "get_field (canon (log_cursor_json c)) ''before'' = jint n"
    using i k by (simp_all add: c_def log_cursor_json_def field_defs get_field_canon del: canon.simps(2))
  then have "dec_str (canon (log_cursor_json c)) ''instance'' = Some inst" "dec_int (canon (log_cursor_json c)) ''before'' = Some n"
    using i by (auto simp: dec_str_def intro: dec_jint)
  moreover have "is_struct (canon (log_cursor_json c))" by (simp add: log_cursor_json_def del: canon.simps(2))
  ultimately have "decode_log_cursor (canon (log_cursor_json c)) = Some c" by (simp add: decode_log_cursor_def c_def)
  moreover have "wf_json (log_cursor_json c) \<and> depth (log_cursor_json c) \<le> 1"
    unfolding log_cursor_json_def One_nat_def using i assms by (intro wf_fields_obj) (simp add: wf_fields_def field_defs c_def ascii_ValidString)
  then have "parse_text (Marshal (log_cursor_json c)) = Some (canon (log_cursor_json c))"
    by (intro parse_text_encode(1)) (simp_all add: max_depth_def)
  moreover show "encode_log_cursor \<lparr>lc_Instance = inst, lc_Before = n\<rparr> \<noteq> []" by (simp add: encode_log_cursor_def log_cursor_json_def EncodeToString_Nil)
  ultimately show "log_position inst (encode_log_cursor \<lparr>lc_Instance = inst, lc_Before = n\<rparr>) = Some n"
    using assms by (simp add: log_position_def c_def encode_log_cursor_def DecodeString_Encode)
qed

subsection \<open>Following the cursors\<close>

lemma map_result_same: "map_result Inr xs = Inr xs"
  by (induction xs) simp_all

definition log_rest :: "logRecord list \<Rightarrow> int \<Rightarrow> logRecord list" where
  "log_rest rs before = filter (\<lambda>r. \<not> (0 < before \<and> before \<le> lr_Seq r)) rs"

definition log_order :: "logRecord list \<Rightarrow> bool" where
  "log_order rs \<longleftrightarrow> sorted_wrt (\<lambda>r r'. lr_Seq r' < lr_Seq r) rs \<and> list_all (\<lambda>r. 0 < lr_Seq r \<and> lr_Seq r < 2 ^ 63) rs"

interpretation log_list: paged log_order log_rest "\<lambda>_. lr_Seq"
proof
  fix rs p k assume ok: "log_order rs" and k: "k < length (log_rest rs p)"
  let ?r = "log_rest rs p ! k"
  have r: "?r \<in> set rs" "0 < lr_Seq ?r" "\<not> (0 < p \<and> p \<le> lr_Seq ?r)"
    using nth_mem [OF k] ok by (auto simp: log_rest_def log_order_def list_all_iff)
  have s: "sorted_wrt (\<lambda>r r'. lr_Seq r' < lr_Seq r) (log_rest rs p)" using ok by (simp add: log_order_def log_rest_def sorted_wrt_filter)
  then have m: "sorted_wrt (<) (map (\<lambda>r. - lr_Seq r) (log_rest rs p))" by (simp add: sorted_wrt_map)
  have "log_rest rs (lr_Seq ?r) = filter (\<lambda>x. - lr_Seq ?r < - lr_Seq x) (log_rest rs p)"
    using r by (auto simp: log_rest_def intro!: filter_cong)
  also have "\<dots> = drop (Suc k) (log_rest rs p)"
    using m by (intro keyset_drop k) (simp_all add: strict_sorted_iff)
  finally show "log_rest rs (lr_Seq ?r) = drop (Suc k) (log_rest rs p)" .
qed

definition log_pages :: "(string \<Rightarrow> string) \<Rightarrow> logBuffer \<Rightarrow> string \<Rightarrow> (logRecord list \<times> string) result" where
  "log_pages q b c = (case logs_page (q(''cursor'' := c)) b of Inl e \<Rightarrow> Inl (rs_Body e) | Inr p \<Rightarrow> Inr (lp_Records p, lp_NextCursor p))"

lemma page_limit_bounds: "page_limit q = Inr limit \<Longrightarrow> 0 < limit"
  by (auto simp: page_limit_def split: if_splits option.splits)

lemma logs_turn:
  assumes q: "page_limit q = Inr limit" "log_level (q ''level'') = Some minimum" "log_since (q ''since'') = Some since"
    and b: "ValidString (lb_instance b)" "log_order (filter (\<lambda>r. minimum \<le> lr_level r \<and> \<not> Before (lr_at r) since) (rev (lb_records b)))"
    and p: "log_position (lb_instance b) c = Some p"
  defines "rs \<equiv> filter (\<lambda>r. minimum \<le> lr_level r \<and> \<not> Before (lr_at r) since) (rev (lb_records b))"
  shows "\<exists>xs c'. log_pages q b c = Inr (xs, c') \<and> map_result Inr (take limit (log_rest rs p)) = Inr xs \<and>
    (if length (log_rest rs p) \<le> limit then c' = []
     else c' \<noteq> [] \<and> log_position (lb_instance b) c' = Some (lr_Seq (log_rest rs p ! (limit - 1))))"
proof -
  have limit: "0 < limit" by (rule page_limit_bounds [OF q(1)])
  have rest: "filter (\<lambda>r. \<not> log_skipped minimum since p r) (rev (lb_records b)) = log_rest rs p"
    by (auto simp: rs_def log_rest_def log_skipped_def intro!: filter_cong)
  have "page_limit (q(''cursor'' := c)) = page_limit q" by (simp add: page_limit_def)
  then have page: "log_pages q b c = Inr (take limit (log_rest rs p), if length (log_rest rs p) \<le> limit then []
      else encode_log_cursor \<lparr>lc_Instance = lb_instance b, lc_Before = lr_Seq (log_rest rs p ! (limit - 1))\<rparr>)"
    using q p by (simp add: log_pages_def logs_page_def log_page_def page_loop_take [OF limit] rest Let_def)
  have "log_rest rs p ! (limit - 1) \<in> set rs" if "limit < length (log_rest rs p)"
    using nth_mem [of "limit - 1" "log_rest rs p"] that by (auto simp: log_rest_def)
  then have "0 < lr_Seq (log_rest rs p ! (limit - 1)) \<and> lr_Seq (log_rest rs p ! (limit - 1)) < 2 ^ 63" if "limit < length (log_rest rs p)"
    using b(2) that by (simp add: log_order_def list_all_iff rs_def)
  with page log_cursor_decoded [OF b(1)] show ?thesis by (auto simp: map_result_same)
qed

text \<open>C35. The log shows what was logged: after any number of records the buffer has the newest thousand, numbered in the order they
  were logged, and a reader that follows the cursors from the start gets each of them that has the level and the time asked
  for, exactly once and the newest first, and comes to an end.\<close>

theorem logs_listed:
  assumes "page_limit q = Inr limit" "log_level (q ''level'') = Some minimum" "log_since (q ''since'') = Some since"
    "ValidString inst" "int (length rs) < 2 ^ 63 - 1"
  shows "read_all (log_pages q (log_buffer inst rs)) (logCapacity + 1) [] =
    Inr (filter (\<lambda>r. minimum \<le> lr_level r \<and> \<not> Before (lr_at r) since) (rev (newest logCapacity (numbered rs))))"
proof -
  let ?b = "log_buffer inst rs" and ?P = "\<lambda>r. minimum \<le> lr_level r \<and> \<not> Before (lr_at r) since"
  let ?rs = "filter ?P (rev (lb_records ?b))"
  note b = log_buffer_newest [of inst rs, THEN conjunct1] log_buffer_newest [of inst rs, THEN conjunct2, THEN conjunct2]
  have seq: "lr_Seq (numbered rs ! i) = int i + 1" if "i < length rs" for i using that by (simp add: numbered_def)
  have "sorted_wrt (\<lambda>r r'. lr_Seq r < lr_Seq r') (numbered rs)" by (simp add: sorted_wrt_iff_nth_less seq)
  then have "sorted_wrt (\<lambda>r r'. lr_Seq r' < lr_Seq r) ?rs" by (simp add: b newest_def sorted_wrt_filter sorted_wrt_rev sorted_wrt_drop)
  moreover have "0 < lr_Seq r \<and> lr_Seq r < 2 ^ 63" if "r \<in> set ?rs" for r
  proof -
    have "r \<in> set (numbered rs)" using that by (auto simp: b newest_def dest: in_set_dropD)
    then show ?thesis using seq assms(5) by (auto simp: in_set_conv_nth)
  qed
  ultimately have ok: "log_order ?rs" by (simp add: log_order_def list_all_iff)
  have len: "length ?rs \<le> logCapacity" using length_filter_le [of ?P "rev (lb_records ?b)"] by (simp add: b newest_def)
  have all: "log_rest ?rs 0 = ?rs" by (simp add: log_rest_def)
  define decode where "decode c = (case log_position inst c of None \<Rightarrow> Inl [] | Some p \<Rightarrow> (Inr p :: int result))" for c
  have start: "decode [] = Inr 0" by (simp add: decode_def log_position_def)
  have turn: "\<exists>xs c'. log_pages q ?b c = Inr (xs, c') \<and> map_result Inr (take limit (log_rest ?rs p)) = Inr xs \<and>
      (if length (log_rest ?rs p) \<le> limit then c' = []
       else c' \<noteq> [] \<and> decode c' = Inr (lr_Seq (log_rest ?rs p ! (limit - 1))) \<and> True)" if "decode c = Inr p" for c p
  proof -
    have "log_position (lb_instance ?b) c = Some p" using that by (auto simp: decode_def b(1) split: option.splits)
    from logs_turn [OF assms(1-3) _ ok this] assms(4) obtain xs c' where
      "log_pages q ?b c = Inr (xs, c')" "map_result Inr (take limit (log_rest ?rs p)) = Inr xs"
      "if length (log_rest ?rs p) \<le> limit then c' = [] else c' \<noteq> [] \<and> log_position inst c' = Some (lr_Seq (log_rest ?rs p ! (limit - 1)))"
      by (auto simp only: b(1))
    then show ?thesis by (intro exI [of _ xs] exI [of _ c']) (auto simp: decode_def split: if_splits)
  qed
  have "length (log_rest ?rs 0) < logCapacity + 1" unfolding all using len by simp
  from log_list.reads_all [OF ok page_limit_bounds [OF assms(1)] turn start TrueI this]
  have "\<exists>es. read_all (log_pages q ?b) (logCapacity + 1) [] = Inr es \<and> map_result Inr (log_rest ?rs 0) = Inr es" .
  then show ?thesis unfolding all unfolding map_result_same b(2) by (auto simp del: read_all.simps)
qed

definition demo_log :: "int \<Rightarrow> string \<Rightarrow> logRecord" where
  "demo_log l message = \<lparr>lr_Seq = 0, lr_Time = [], lr_Level = [], lr_Message = message, lr_Attrs = [], lr_level = l, lr_at = zero_time\<rparr>"

theorem logs_listed_witness:
  "read_all (log_pages (\<lambda>k. if k = ''limit'' then ''1'' else if k = ''level'' then ''warn'' else []) (log_buffer ''x'' [demo_log 8 ''a'', demo_log 0 ''b'', demo_log 4 ''c''])) 1001 [] =
     Inr [(demo_log 4 ''c'')\<lparr>lr_Seq := 3\<rparr>, (demo_log 8 ''a'')\<lparr>lr_Seq := 1\<rparr>]"
proof -
  let ?q = "\<lambda>k. if k = ''limit'' then ''1'' else if k = ''level'' then ''warn'' else []"
  have "ParseInt ''1'' = Some 1" by code_simp
  then have l: "page_limit ?q = Inr 1" by (simp add: page_limit_def)
  have "log_level (?q ''level'') = Some 4" "log_since (?q ''since'') = Some zero_time" by (simp_all add: log_level_def log_since_def)
  from logs_listed [OF l this, of "''x''" "[demo_log 8 ''a'', demo_log 0 ''b'', demo_log 4 ''c'']"] show ?thesis
    by (simp add: ascii_ValidString logCapacity_def newest_def numbered_def demo_log_def Before_def upt_conv_Cons less_prod_def less_eq_prod_def)
qed

end
