(* ===== verification/Auth.thy ===== *)
theory Auth
  imports Cursor Sha256 UploadFacts
begin

text \<open>
  Who may do what on the server, \<open>internal/server/auth.go\<close>: bearer tokens, signed session cookies and form tokens.  A handler
  that comes to call the next one gives \<open>Next\<close>.  Times are Unix seconds; \<open>random\<close> is what \<open>rand.Text\<close> gives, and \<open>parse_url\<close> the scheme
  and the host \<open>url.Parse\<close> finds.
\<close>

unbundle bit_operations_syntax

subsection \<open>Signatures\<close>

definition hmac_key :: "nat list \<Rightarrow> nat list" where
  "hmac_key key = (let k = (if 64 < length key then sha256_bytes key else key) in k @ replicate (64 - length k) 0)"

definition hmac_sha256 :: "string \<Rightarrow> string \<Rightarrow> nat list" where
  "hmac_sha256 key message =
     (let k = hmac_key (map of_char key)
      in sha256_bytes (map (\<lambda>b. b XOR 0x5C) k @ sha256_bytes (map (\<lambda>b. b XOR 0x36) k @ map of_char message)))"

record ServerConfig =
  sc_AdminToken :: string
  sc_SecureCookies :: bool

definition sign_value :: "ServerConfig \<Rightarrow> string \<Rightarrow> string" where
  "sign_value cfg v = EncodeToString (map char_of (hmac_sha256 (sc_AdminToken cfg) v))"

definition validToken :: "ServerConfig \<Rightarrow> string \<Rightarrow> bool" where
  "validToken cfg token \<longleftrightarrow> sha256_bytes (map of_char token) = sha256_bytes (map of_char (sc_AdminToken cfg))"

subsection \<open>Requests\<close>

text \<open>\<open>rq_Cookie\<close> is the value of the first cookie named \<open>traicr_session\<close>, \<open>rq_Header\<close> gives the empty string for an absent
  header, and \<open>rq_Form\<close> is the posted form, when it can be parsed and is small enough.\<close>

record Request =
  rq_Method :: string
  rq_Header :: "string \<Rightarrow> string"
  rq_Cookie :: "string option"
  rq_Host :: string
  rq_TLS :: bool
  rq_URI :: string
  rq_Query :: "string \<Rightarrow> string"
  rq_Form :: "(string \<Rightarrow> string) option"

record SessionCookie =
  ck_Value :: string
  ck_Secure :: bool
  ck_MaxAge :: int

datatype Reply = Next | RedirectTo string | Refused Response

definition is_read :: "Request \<Rightarrow> bool" where
  "is_read r \<longleftrightarrow> rq_Method r = ''GET'' \<or> rq_Method r = ''HEAD''"

subsection \<open>Sessions\<close>

definition session :: "ServerConfig \<Rightarrow> int \<Rightarrow> Request \<Rightarrow> string \<Rightarrow> string" where
  "session cfg now r purpose =
     (case rq_Cookie r of None \<Rightarrow> [] | Some v \<Rightarrow>
        (case Split (CHR ''.'') v of
           [who, e, x, mac] \<Rightarrow>
             (if who \<noteq> purpose then []
              else case ParseInt e of None \<Rightarrow> [] | Some expires \<Rightarrow>
                if expires \<le> now then []
                else if mac \<noteq> sign_value cfg (Join [who, e, x] ''.'') then [] else v)
         | _ \<Rightarrow> []))"

definition session_value :: "ServerConfig \<Rightarrow> int \<Rightarrow> string \<Rightarrow> string \<Rightarrow> string" where
  "session_value cfg now random purpose =
     (let v = purpose @ ''.'' @ Itoa (now + 86400) @ ''.'' @ random in v @ ''.'' @ sign_value cfg v)"

definition setSession :: "ServerConfig \<Rightarrow> int \<Rightarrow> string \<Rightarrow> string \<Rightarrow> SessionCookie" where
  "setSession cfg now random purpose =
     \<lparr>ck_Value = session_value cfg now random purpose, ck_Secure = sc_SecureCookies cfg, ck_MaxAge = 86400\<rparr>"

definition csrf :: "ServerConfig \<Rightarrow> Request \<Rightarrow> string" where
  "csrf cfg r = (case rq_Cookie r of None \<Rightarrow> [] | Some v \<Rightarrow> sign_value cfg (''csrf:'' @ v))"

subsection \<open>Guards\<close>

definition api :: "ServerConfig \<Rightarrow> int \<Rightarrow> Request \<Rightarrow> Reply" where
  "api cfg now r =
     (if (case CutPrefix (rq_Header r ''Authorization'') ''Bearer '' of None \<Rightarrow> False | Some token \<Rightarrow> validToken cfg token) then Next
      else if is_read r \<and> session cfg now r ''session'' \<noteq> [] then Next
      else Refused (writeError 401 ''401 Unauthorized'' ''unauthorized'' ''a valid bearer token is required''))"

definition form_origin :: "(string \<Rightarrow> (string \<times> string) option) \<Rightarrow> Request \<Rightarrow> string" where
  "form_origin parse_url r =
     (if rq_Header r ''Origin'' \<noteq> [] then rq_Header r ''Origin''
      else case parse_url (rq_Header r ''Referer'') of
          Some (scheme, host) \<Rightarrow> if host \<noteq> [] then scheme @ ''://'' @ host else []
        | None \<Rightarrow> [])"

definition validForm :: "ServerConfig \<Rightarrow> (string \<Rightarrow> (string \<times> string) option) \<Rightarrow> Request \<Rightarrow> Response option" where
  "validForm cfg parse_url r =
     (case rq_Form r of
        None \<Rightarrow> Some (writeError 400 ''400 Bad Request'' ''invalid_form'' ''invalid or oversized form'')
      | Some form \<Rightarrow>
          (let scheme = (if sc_SecureCookies cfg \<or> rq_TLS r then ''https'' else ''http'')
           in if form_origin parse_url r \<noteq> scheme @ ''://'' @ rq_Host r \<or> rq_Header r ''Sec-Fetch-Site'' = ''cross-site'' \<or>
                form ''csrf'' \<noteq> csrf cfg r \<or> form ''csrf'' = []
              then Some (writeError 403 ''403 Forbidden'' ''csrf'' ''form expired or came from another site; reload and try again'')
              else None))"

text \<open>\<open>url.QueryEscape\<close>\<close>

definition query_char :: "char \<Rightarrow> string" where
  "query_char c =
     (if c = CHR '' '' then ''+''
      else if is_digit c \<or> (CHR ''a'' \<le> c \<and> c \<le> CHR ''z'') \<or> (CHR ''A'' \<le> c \<and> c \<le> CHR ''Z'') \<or> c \<in> set ''-_.~'' then [c]
      else let n = of_char c :: nat; hex = (\<lambda>k. if k < 10 then char_of (48 + k) else char_of (55 + k))
           in [CHR ''%'', hex (n div 16), hex (n mod 16)])"

definition loginURL :: "Request \<Rightarrow> string" where
  "loginURL r = (if \<not> is_read r \<or> rq_URI r = ''/'' then ''/login'' else ''/login?next='' @ concat (map query_char (rq_URI r)))"

definition afterLogin :: "string \<Rightarrow> string" where
  "afterLogin next_page =
     (if \<not> prefix ''/'' next_page \<or> prefix ''//'' next_page \<or> prefix ''/login'' next_page \<or>
        ContainsAny next_page [CHR 0x5C, CHR 0x09, CHR 0x0D, CHR 0x0A] then ''/''
      else next_page)"

definition browser :: "ServerConfig \<Rightarrow> (string \<Rightarrow> (string \<times> string) option) \<Rightarrow> int \<Rightarrow> Request \<Rightarrow> Reply" where
  "browser cfg parse_url now r =
     (if session cfg now r ''session'' = [] then RedirectTo (loginURL r)
      else if is_read r then Next
      else case validForm cfg parse_url r of Some e \<Rightarrow> Refused e | None \<Rightarrow> Next)"

subsection \<open>Logging in and out\<close>

text \<open>The page of the form: the reply, where \<open>Next\<close> shows the page, the cookie that is set and the request the page sees.\<close>

definition with_cookie :: "SessionCookie \<Rightarrow> Request \<Rightarrow> Request" where
  "with_cookie c r = r\<lparr>rq_Cookie := Some (ck_Value c)\<rparr>"

definition loginPage :: "ServerConfig \<Rightarrow> int \<Rightarrow> string \<Rightarrow> Request \<Rightarrow> Reply \<times> SessionCookie option \<times> Request" where
  "loginPage cfg now random r =
     (if session cfg now r ''session'' \<noteq> [] then (RedirectTo (afterLogin (rq_Query r ''next'')), None, r)
      else if session cfg now r ''login'' = [] then (let c = setSession cfg now random ''login'' in (Next, Some c, with_cookie c r))
      else (Next, None, r))"

text \<open>The form token, with the cookie it belongs to when there was none.\<close>

definition csrfAPI :: "ServerConfig \<Rightarrow> int \<Rightarrow> string \<Rightarrow> Request \<Rightarrow> SessionCookie option \<times> string" where
  "csrfAPI cfg now random r =
     (if rq_Cookie r = None then (let c = setSession cfg now random ''login'' in (Some c, csrf cfg (with_cookie c r)))
      else (None, csrf cfg r))"

definition login_expired :: Response where
  "login_expired = writeError 403 ''403 Forbidden'' ''login_expired'' ''The login form expired. Reload the page and try again.''"

definition wrong_token :: Response where
  "wrong_token = writeError 401 ''401 Unauthorized'' ''unauthorized'' ''That token does not match. Use the TRAICR_ADMIN_TOKEN value from the server.''"

definition login :: "ServerConfig \<Rightarrow> (string \<Rightarrow> (string \<times> string) option) \<Rightarrow> int \<Rightarrow> string \<Rightarrow> Request \<Rightarrow> Reply \<times> SessionCookie option" where
  "login cfg parse_url now random r =
     (if session cfg now r ''login'' = [] then (Refused login_expired, None)
      else case validForm cfg parse_url r of
          Some e \<Rightarrow> (Refused e, None)
        | None \<Rightarrow>
            (let form = the (rq_Form r)
             in if \<not> validToken cfg (form ''token'') then (Refused wrong_token, None)
                else (RedirectTo (afterLogin (form ''next'')), Some (setSession cfg now random ''session''))))"

definition logout :: "ServerConfig \<Rightarrow> Reply \<times> SessionCookie option" where
  "logout cfg = (RedirectTo ''/login'', Some \<lparr>ck_Value = [], ck_Secure = sc_SecureCookies cfg, ck_MaxAge = - 1\<rparr>)"

subsection \<open>Cookies\<close>

lemma Split_whole: "sep \<notin> set w \<Longrightarrow> Split sep w = [w]"
  by (induction w) auto

lemma Itoa_no_dot: "CHR ''.'' \<notin> set (Itoa i)"
proof -
  have "CHR ''.'' \<notin> set (nat_digits n)" for n
  proof
    assume "CHR ''.'' \<in> set (nat_digits n)"
    then have "is_digit (CHR ''.'')" using nat_digits_digits [of n] by (auto simp: list_all_iff)
    then show False by (simp add: is_digit_def less_eq_char_def)
  qed
  then show ?thesis by (simp add: Itoa_def)
qed

lemma signature_no_dot: "CHR ''.'' \<notin> set (sign_value cfg v)"
  using EncodeToString_alphabet [of "map char_of (hmac_sha256 (sc_AdminToken cfg) v)"] by (auto simp: sign_value_def alphabet_def)

lemma sign_nonempty: "sign_value cfg v \<noteq> []"
  using length_sha256_bytes by (auto simp: sign_value_def EncodeToString_Nil hmac_sha256_def Let_def dest: arg_cong [of _ _ length])

text \<open>A cookie the server set is a session of its purpose for a day.\<close>

lemma session_of_value:
  assumes "rq_Cookie r = Some (session_value cfg t random purpose)" "CHR ''.'' \<notin> set random" "CHR ''.'' \<notin> set purpose" "int64 (t + 86400)"
  shows "session cfg now r who \<noteq> [] \<longleftrightarrow> who = purpose \<and> now < t + 86400"
proof -
  define v where "v = purpose @ ''.'' @ Itoa (t + 86400) @ ''.'' @ random"
  have "Split (CHR ''.'') (session_value cfg t random purpose) = [purpose, Itoa (t + 86400), random, sign_value cfg v]"
    using assms(2,3) by (simp add: session_value_def Let_def v_def [symmetric]) (simp add: v_def Split_line Split_whole Itoa_no_dot signature_no_dot)
  moreover have "ParseInt (Itoa (t + 86400)) = Some (t + 86400)" using assms(4) by (intro ParseInt_Itoa) (simp_all add: int64_def)
  moreover have "Join [purpose, Itoa (t + 86400), random] ''.'' = v" by (simp add: v_def)
  moreover have "session_value cfg t random purpose \<noteq> []" by (simp add: session_value_def Let_def)
  ultimately show ?thesis using assms(1) by (auto simp: session_def)
qed

text \<open>How a browser reads the target of a redirect: without tabs and line ends, and with a backslash for a slash.  It stays on
  the site when it is a path.\<close>

definition browser_reads :: "string \<Rightarrow> string" where
  "browser_reads s = map (\<lambda>c. if c = CHR 0x5C then CHR ''/'' else c) (filter (\<lambda>c. c \<notin> {CHR 0x09, CHR 0x0A, CHR 0x0D}) (dropWhile (\<lambda>c. c \<le> CHR 0x20) s))"

definition same_site :: "string \<Rightarrow> bool" where
  "same_site s \<longleftrightarrow> prefix ''/'' (browser_reads s) \<and> \<not> prefix ''//'' (browser_reads s)"

lemma afterLogin_local: "same_site (afterLogin s)"
proof -
  have home: "same_site ''/''" by (simp add: same_site_def browser_reads_def less_eq_char_def)
  show ?thesis
  proof (cases "afterLogin s = ''/''")
    case False
    then have s: "prefix ''/'' s" "\<not> prefix ''//'' s" "\<not> ContainsAny s [CHR 0x5C, CHR 0x09, CHR 0x0D, CHR 0x0A]" "afterLogin s = s"
      by (auto simp: afterLogin_def split: if_splits)
    have none: "CHR 0x5C \<notin> set s" "CHR 0x09 \<notin> set s" "CHR 0x0D \<notin> set s" "CHR 0x0A \<notin> set s"
      using s(3) by (simp_all add: ContainsAny_def) blast+
    have "filter (\<lambda>c. c \<notin> {CHR 0x09, CHR 0x0A, CHR 0x0D}) s = s" unfolding filter_id_conv using none by auto
    moreover have "map (\<lambda>c. if c = CHR 0x5C then CHR ''/'' else c) s = s" by (rule map_idI) (use none in auto)
    moreover have "dropWhile (\<lambda>c. c \<le> CHR 0x20) s = s"
    proof (cases s)
      case (Cons a t)
      then have "a = CHR ''/''" using s(1) by simp
      then show ?thesis using Cons by (simp add: less_eq_char_def)
    qed simp
    ultimately have "browser_reads s = s" by (simp add: browser_reads_def)
    then show ?thesis using s by (simp add: same_site_def)
  qed (simp add: home)
qed

subsection \<open>Who is let in\<close>

text \<open>Said of the values alone: a cookie value is minted for a purpose when it is purpose, expiry, text without dots and the HMAC
  of these under the admin token, and the expiry lies ahead.\<close>

definition signed_by :: "ServerConfig \<Rightarrow> string \<Rightarrow> string" where
  "signed_by cfg message = EncodeToString (map char_of (hmac_sha256 (sc_AdminToken cfg) message))"

definition minted :: "ServerConfig \<Rightarrow> int \<Rightarrow> string \<Rightarrow> string \<Rightarrow> bool" where
  "minted cfg now purpose v \<longleftrightarrow>
     (\<exists>e x t. v = purpose @ ''.'' @ e @ ''.'' @ x @ ''.'' @ signed_by cfg (purpose @ ''.'' @ e @ ''.'' @ x) \<and>
        CHR ''.'' \<notin> set e \<and> CHR ''.'' \<notin> set x \<and> ParseInt e = Some t \<and> now < t)"

text \<open>A form comes from the site when the browser names the site as its origin, or as the page it came from when it gives no origin,
  does not call the request cross-site, and the form carries the HMAC of its cookie.\<close>

definition own_site :: "ServerConfig \<Rightarrow> (string \<Rightarrow> (string \<times> string) option) \<Rightarrow> Request \<Rightarrow> bool" where
  "own_site cfg parse_url r \<longleftrightarrow>
     (let site = (if sc_SecureCookies cfg \<or> rq_TLS r then ''https://'' else ''http://'') @ rq_Host r
      in rq_Header r ''Origin'' = site \<or>
        rq_Header r ''Origin'' = [] \<and>
          (\<exists>scheme host. parse_url (rq_Header r ''Referer'') = Some (scheme, host) \<and> host \<noteq> [] \<and> scheme @ ''://'' @ host = site))"

definition own_form :: "ServerConfig \<Rightarrow> (string \<Rightarrow> (string \<times> string) option) \<Rightarrow> Request \<Rightarrow> string \<Rightarrow> (string \<Rightarrow> string) \<Rightarrow> bool" where
  "own_form cfg parse_url r v form \<longleftrightarrow>
     own_site cfg parse_url r \<and> rq_Header r ''Sec-Fetch-Site'' \<noteq> ''cross-site'' \<and> form ''csrf'' = signed_by cfg (''csrf:'' @ v)"

text \<open>Tokens are compared by their SHA-256; a collision with the admin token is what one relies on not meeting.\<close>

definition no_collision :: "ServerConfig \<Rightarrow> string \<Rightarrow> bool" where
  "no_collision cfg token \<longleftrightarrow>
     (sha256_bytes (map of_char token) = sha256_bytes (map of_char (sc_AdminToken cfg)) \<longrightarrow> token = sc_AdminToken cfg)"

lemma validToken_iff: "no_collision cfg token \<Longrightarrow> validToken cfg token \<longleftrightarrow> token = sc_AdminToken cfg"
  by (auto simp: validToken_def no_collision_def)

lemma sign_signed: "sign_value cfg = signed_by cfg"
  by (simp add: fun_eq_iff sign_value_def signed_by_def)

lemma Split_four: "Split (CHR ''.'') v = [a, b, c, d] \<longleftrightarrow>
    v = a @ ''.'' @ b @ ''.'' @ c @ ''.'' @ d \<and> CHR ''.'' \<notin> set a \<and> CHR ''.'' \<notin> set b \<and> CHR ''.'' \<notin> set c \<and> CHR ''.'' \<notin> set d"
proof
  assume s: "Split (CHR ''.'') v = [a, b, c, d]"
  with Join_Split [of "CHR ''.''" v] have "v = a @ ''.'' @ b @ ''.'' @ c @ ''.'' @ d" by simp
  moreover have "CHR ''.'' \<notin> set w" if "w \<in> {a, b, c, d}" for w using Split_no_sep [of w "CHR ''.''" v] s that by auto
  ultimately show "v = a @ ''.'' @ b @ ''.'' @ c @ ''.'' @ d \<and> CHR ''.'' \<notin> set a \<and> CHR ''.'' \<notin> set b \<and> CHR ''.'' \<notin> set c \<and> CHR ''.'' \<notin> set d"
    by blast
qed (simp add: Split_line Split_whole)

lemma session_minted:
  assumes "CHR ''.'' \<notin> set purpose"
  shows "session cfg now r purpose \<noteq> [] \<longleftrightarrow> (\<exists>v. rq_Cookie r = Some v \<and> minted cfg now purpose v)"
proof
  assume "session cfg now r purpose \<noteq> []"
  then obtain v e x t where "rq_Cookie r = Some v" "Split (CHR ''.'') v = [purpose, e, x, sign_value cfg (Join [purpose, e, x] ''.'')]"
      "ParseInt e = Some t" "now < t"
    by (auto simp: session_def split: option.splits list.splits if_splits)
  then show "\<exists>v. rq_Cookie r = Some v \<and> minted cfg now purpose v"
    by (auto simp: minted_def Split_four sign_signed)
next
  assume "\<exists>v. rq_Cookie r = Some v \<and> minted cfg now purpose v"
  then obtain v e x t where v: "rq_Cookie r = Some v"
      "v = purpose @ ''.'' @ e @ ''.'' @ x @ ''.'' @ sign_value cfg (purpose @ ''.'' @ e @ ''.'' @ x)"
      "CHR ''.'' \<notin> set e" "CHR ''.'' \<notin> set x" "ParseInt e = Some t" "now < t"
    by (auto simp: minted_def sign_signed)
  then have "Split (CHR ''.'') v = [purpose, e, x, sign_value cfg (purpose @ ''.'' @ e @ ''.'' @ x)]"
    using assms signature_no_dot by (simp add: Split_four)
  moreover have "v \<noteq> []" using v(2) by simp
  ultimately show "session cfg now r purpose \<noteq> []" using v(1,5,6) by (simp add: session_def)
qed

lemma minted_value:
  assumes "CHR ''.'' \<notin> set random" "CHR ''.'' \<notin> set purpose" "int64 (t + 86400)"
  shows "minted cfg now purpose (ck_Value (setSession cfg t random purpose)) \<longleftrightarrow> now < t + 86400"
proof -
  let ?r = "\<lparr>rq_Method = [], rq_Header = \<lambda>_. [], rq_Cookie = Some (session_value cfg t random purpose), rq_Host = [], rq_TLS = False,
    rq_URI = [], rq_Query = \<lambda>_. [], rq_Form = None\<rparr>"
  show ?thesis
    using session_of_value [of ?r cfg t random purpose now purpose] session_minted [OF assms(2), of cfg now ?r] assms by (simp add: setSession_def)
qed

lemma minted_purpose: "minted cfg now ''login'' v \<Longrightarrow> \<not> minted cfg later ''session'' v"
  by (auto simp: minted_def)

lemma validForm_own:
  assumes "rq_Cookie r = Some v"
  shows "validForm cfg parse_url r = None \<longleftrightarrow> (\<exists>form. rq_Form r = Some form \<and> own_form cfg parse_url r v form)"
proof (cases "rq_Form r")
  case (Some form)
  have "form_origin parse_url r = (if sc_SecureCookies cfg \<or> rq_TLS r then ''https'' else ''http'') @ ''://'' @ rq_Host r \<longleftrightarrow> own_site cfg parse_url r"
    by (auto simp: form_origin_def own_site_def Let_def split: option.splits)
  with Some assms sign_nonempty [of cfg "''csrf:'' @ v"] show ?thesis
    by (auto simp: validForm_def own_form_def csrf_def Let_def sign_signed)
qed (simp add: validForm_def)

text \<open>C36. The server lets in exactly who it should.  Posting the login form sets the session cookie exactly when the request's
  cookie is a login cookie minted for this server and not expired, the form comes from the site and carries the HMAC of that
  cookie, and its token is the admin token; whatever it answers, it redirects only within the site.  A page is opened, or a
  form acted on, exactly when the cookie is a minted session that has not expired and the request is a GET or HEAD or its form comes
  from the site; the API exactly for the bearer of the admin token, or for such a session when it only reads.  The cookie a login
  sets is a session for a day and not longer, and no login cookie is ever one.  The tokens presented must not collide with
  the admin token under SHA-256.\<close>

theorem login_flow:
  assumes "\<forall>form. rq_Form r = Some form \<longrightarrow> no_collision cfg (form ''token'')" "CHR ''.'' \<notin> set random" "int64 (now + 86400)"
  shows "snd (login cfg parse_url now random r) =
      (if \<exists>v form. rq_Cookie r = Some v \<and> minted cfg now ''login'' v \<and> rq_Form r = Some form \<and>
          own_form cfg parse_url r v form \<and> form ''token'' = sc_AdminToken cfg
       then Some (setSession cfg now random ''session'') else None)
    \<and> (\<forall>target. fst (login cfg parse_url now random r) = RedirectTo target \<longrightarrow> same_site target)
    \<and> (\<forall>q. browser cfg parse_url later q = Next \<longleftrightarrow>
        (\<exists>v. rq_Cookie q = Some v \<and> minted cfg later ''session'' v \<and>
          (rq_Method q \<in> {''GET'', ''HEAD''} \<or> (\<exists>form. rq_Form q = Some form \<and> own_form cfg parse_url q v form))))
    \<and> (\<forall>q. (\<forall>token. rq_Header q ''Authorization'' = ''Bearer '' @ token \<longrightarrow> no_collision cfg token) \<longrightarrow>
        (api cfg later q = Next \<longleftrightarrow> rq_Header q ''Authorization'' = ''Bearer '' @ sc_AdminToken cfg \<or>
          rq_Method q \<in> {''GET'', ''HEAD''} \<and> (\<exists>v. rq_Cookie q = Some v \<and> minted cfg later ''session'' v)))
    \<and> (minted cfg later ''session'' (ck_Value (setSession cfg now random ''session'')) \<longleftrightarrow> later < now + 86400)
    \<and> (\<forall>v. minted cfg now ''login'' v \<longrightarrow> \<not> minted cfg later ''session'' v)"
proof -
  have dots: "CHR ''.'' \<notin> set ''login''" "CHR ''.'' \<notin> set ''session''" by simp_all
  note who = session_minted [OF dots(1), of cfg now] session_minted [OF dots(2), of cfg later]
  have set: "snd (login cfg parse_url now random r) =
      (if \<exists>v form. rq_Cookie r = Some v \<and> minted cfg now ''login'' v \<and> rq_Form r = Some form \<and>
          own_form cfg parse_url r v form \<and> form ''token'' = sc_AdminToken cfg
       then Some (setSession cfg now random ''session'') else None)"
  proof (cases "session cfg now r ''login'' = []")
    case False
    then obtain v where v: "rq_Cookie r = Some v" "minted cfg now ''login'' v" using who(1) by blast
    show ?thesis
    proof (cases "validForm cfg parse_url r")
      case None
      then obtain form where "rq_Form r = Some form" "own_form cfg parse_url r v form" using validForm_own [OF v(1)] by blast
      with v None False validToken_iff assms(1) show ?thesis by (simp add: login_def)
    next
      case (Some e)
      then have "\<not> (\<exists>form. rq_Form r = Some form \<and> own_form cfg parse_url r v form)" using validForm_own [OF v(1)] by (metis option.distinct(1))
      with v Some False show ?thesis by (auto simp: login_def)
    qed
  qed (use who(1) in \<open>auto simp: login_def\<close>)
  have local: "same_site target" if "fst (login cfg parse_url now random r) = RedirectTo target" for target
    using that afterLogin_local by (auto simp: login_def Let_def split: if_splits option.splits)
  have pages: "browser cfg parse_url later q = Next \<longleftrightarrow> (\<exists>v. rq_Cookie q = Some v \<and> minted cfg later ''session'' v \<and>
      (rq_Method q \<in> {''GET'', ''HEAD''} \<or> (\<exists>form. rq_Form q = Some form \<and> own_form cfg parse_url q v form)))" for q
  proof (cases "session cfg later q ''session'' = []")
    case False
    then obtain v where v: "rq_Cookie q = Some v" "minted cfg later ''session'' v" using who(2) by blast
    with False show ?thesis using validForm_own [OF v(1), of cfg parse_url] by (auto simp: browser_def is_read_def split: option.splits)
  qed (use who(2) in \<open>auto simp: browser_def\<close>)
  have calls: "api cfg later q = Next \<longleftrightarrow> rq_Header q ''Authorization'' = ''Bearer '' @ sc_AdminToken cfg \<or>
      rq_Method q \<in> {''GET'', ''HEAD''} \<and> (\<exists>v. rq_Cookie q = Some v \<and> minted cfg later ''session'' v)"
    if "\<And>token. rq_Header q ''Authorization'' = ''Bearer '' @ token \<Longrightarrow> no_collision cfg token" for q
  proof -
    have "(case CutPrefix (rq_Header q ''Authorization'') ''Bearer '' of None \<Rightarrow> False | Some token \<Rightarrow> validToken cfg token)
        \<longleftrightarrow> rq_Header q ''Authorization'' = ''Bearer '' @ sc_AdminToken cfg"
      using validToken_iff [OF that] by (auto simp: CutPrefix_def prefix_def split: option.splits)
    then show ?thesis using who(2) [of q] by (auto simp: api_def is_read_def)
  qed
  show ?thesis
    using set local pages calls minted_value [OF assms(2) dots(2) assms(3), of cfg later] minted_purpose by blast
qed

definition demo_config :: ServerConfig where
  "demo_config = \<lparr>sc_AdminToken = ''secret'', sc_SecureCookies = False\<rparr>"

definition demo_cookie :: string where
  "demo_cookie = ck_Value (setSession demo_config 0 ''R'' ''login'')"

definition demo_form :: "string \<Rightarrow> string" where
  "demo_form k = (if k = ''csrf'' then sign_value demo_config (''csrf:'' @ demo_cookie) else if k = ''token'' then ''secret''
     else if k = ''next'' then ''//evil.example'' else [])"

definition demo_request :: "string \<Rightarrow> Request" where
  "demo_request fetch = \<lparr>rq_Method = ''POST'', rq_Header = (\<lambda>k. if k = ''Origin'' then ''http://h'' else if k = ''Sec-Fetch-Site'' then fetch else []),
     rq_Cookie = Some demo_cookie, rq_Host = ''h'', rq_TLS = False, rq_URI = ''/login'', rq_Query = (\<lambda>_. []), rq_Form = Some demo_form\<rparr>"

text \<open>The form is accepted from the site and not from elsewhere, though token and form token are right.\<close>

theorem login_flow_witness:
  "snd (login demo_config (\<lambda>_. None) 10 ''S'' (demo_request ''same-origin'')) = Some (setSession demo_config 10 ''S'' ''session'') \<and>
   snd (login demo_config (\<lambda>_. None) 10 ''S'' (demo_request ''cross-site'')) = None \<and>
   minted demo_config 86409 ''session'' (ck_Value (setSession demo_config 10 ''S'' ''session'')) \<and>
   \<not> minted demo_config 86410 ''session'' (ck_Value (setSession demo_config 10 ''S'' ''session''))"
proof -
  have i: "CHR ''.'' \<notin> set ''S''" "int64 (10 + 86400)" by (simp_all add: int64_def)
  have c: "minted demo_config 10 ''login'' demo_cookie"
    using minted_value [of "''R''" "''login''" 0 demo_config 10] by (simp add: demo_cookie_def int64_def)
  have own: "own_form demo_config (\<lambda>_. None) (demo_request fetch) demo_cookie demo_form \<longleftrightarrow> fetch \<noteq> ''cross-site''" for fetch
    by (simp add: own_form_def own_site_def demo_request_def demo_form_def demo_config_def sign_signed)
  have r: "rq_Cookie (demo_request fetch) = Some demo_cookie" "rq_Form (demo_request fetch) = Some demo_form" for fetch
    by (simp_all add: demo_request_def)
  have token: "demo_form ''token'' = sc_AdminToken demo_config" by (simp add: demo_form_def demo_config_def)
  then have s: "\<forall>form. rq_Form (demo_request fetch) = Some form \<longrightarrow> no_collision demo_config (form ''token'')" for fetch
    by (simp add: r no_collision_def)
  note right = login_flow [of "demo_request ''same-origin''" demo_config "''S''" 10 "\<lambda>_. None", OF s i]
  note wrong = login_flow [of "demo_request ''cross-site''" demo_config "''S''" 10 "\<lambda>_. None" 0, OF s i]
  have "snd (login demo_config (\<lambda>_. None) 10 ''S'' (demo_request ''same-origin'')) = Some (setSession demo_config 10 ''S'' ''session'')"
    using right [THEN conjunct1] c own [of "''same-origin''"] r token by auto
  moreover have "snd (login demo_config (\<lambda>_. None) 10 ''S'' (demo_request ''cross-site'')) = None"
    using wrong [THEN conjunct1] own [of "''cross-site''"] r by auto
  moreover have "minted demo_config later ''session'' (ck_Value (setSession demo_config 10 ''S'' ''session'')) \<longleftrightarrow> later < 86410" for later
    using right [of later] by (simp only: add_numeral_left) simp
  ultimately show ?thesis by simp
qed

end
