(* ===== verification/Collect.thy ===== *)
theory Collect
  imports Archive UploadFacts "HOL-Library.Product_Lexorder"
begin

text \<open>
  Collecting traces, \<open>internal/collector/collector.go\<close>: every selected adapter gathers its traces, a trace is described and kept
  unless the server has acknowledged its revision or it was collected before, and what is kept is written to archives.  An
  adapter is a parameter; so are the file system it was staged in (\<open>walk\<close>, \<open>open_at\<close>), the name of the host, the time, and reading
  and saving the source stamps of \<open>internal/config/stamps.go\<close>.
\<close>

subsection \<open>Adapters\<close>

record AdapterResult =
  ar_Inputs :: "Input list"
  ar_Warnings :: "Warning list"
  ar_Skipped :: nat

text \<open>Collecting gives the progress it reports and the result; it asks whether a source with a stamp may be left out.\<close>

record Adapter =
  ad_Name :: string
  ad_Collect :: "string list \<Rightarrow> (string \<Rightarrow> string \<Rightarrow> bool) \<Rightarrow> (nat \<times> nat) list \<times> AdapterResult result"

text \<open>\<open>SkipUnchanged.skip\<close>\<close>

definition skips :: "(string \<Rightarrow> string \<Rightarrow> bool) \<Rightarrow> string \<Rightarrow> string \<Rightarrow> bool" where
  "skips skip source stamp \<longleftrightarrow> source \<noteq> [] \<and> stamp \<noteq> [] \<and> skip source stamp"

subsection \<open>Options and state\<close>

record SourceStamp =
  ss_Stamp :: string
  ss_Digest :: string
  ss_Harness :: string
  ss_NativeID :: string

type_synonym Stamps = "(string \<times> SourceStamp) list"

record CollectOptions =
  co_Harnesses :: "string list"
  co_Sources :: "(string \<times> string list) list"
  co_OutputDir :: string
  co_All :: bool
  co_Version :: string
  co_ConfigDir :: string

record CollectStep =
  cs_Phase :: string
  cs_Harness :: string
  cs_Completed :: nat
  cs_Total :: nat

record Gathering =
  g_Stamps :: Stamps
  g_Inputs :: "Input list"
  g_Warnings :: "Warning list"
  g_Collected :: "string list"
  g_Progress :: "CollectStep list"

definition collect_step :: "string \<Rightarrow> string \<Rightarrow> nat \<Rightarrow> nat \<Rightarrow> Gathering \<Rightarrow> Gathering" where
  "collect_step phase harness done n g =
     g\<lparr>g_Progress := g_Progress g @ [\<lparr>cs_Phase = phase, cs_Harness = harness, cs_Completed = done, cs_Total = n\<rparr>]\<rparr>"

definition collect_warning :: "string \<Rightarrow> string \<Rightarrow> Gathering \<Rightarrow> Gathering" where
  "collect_warning code message g = g\<lparr>g_Warnings := g_Warnings g @ [\<lparr>w_Code = code, w_Message = message\<rparr>]\<rparr>"

text \<open>Whether Collection State has the digest; a missing entry is the zero value.\<close>

definition has_revision_state :: "Collector \<Rightarrow> string \<Rightarrow> string \<Rightarrow> bool" where
  "has_revision_state cfg key digest =
     (let r = (case map_of (cfg_State cfg) key of Some r \<Rightarrow> r | None \<Rightarrow> \<lparr>cr_Digest = [], cr_MachineID = []\<rparr>)
      in cr_MachineID r = cfg_MachineID cfg \<and> cr_Digest r = digest)"

definition stamp_skip :: "Collector \<Rightarrow> CollectOptions \<Rightarrow> Stamps \<Rightarrow> string \<Rightarrow> string \<Rightarrow> bool" where
  "stamp_skip cfg options stamps source stamp =
     (if co_All options \<or> co_ConfigDir options = [] then False
      else case map_of stamps source of
          None \<Rightarrow> False
        | Some r \<Rightarrow> if ss_Stamp r \<noteq> stamp \<or> ss_Digest r = [] then False
            else has_revision_state cfg (StateKey (ss_Harness r) (ss_NativeID r)) (ss_Digest r))"

subsection \<open>Gathering\<close>

definition record_stamp :: "CollectOptions \<Rightarrow> Input \<Rightarrow> Descriptor \<Rightarrow> Stamps \<Rightarrow> Stamps" where
  "record_stamp options input d stamps =
     (if i_Source input \<noteq> [] \<and> i_Stamp input \<noteq> [] \<and> co_ConfigDir options \<noteq> []
      then alist_put (i_Source input) \<lparr>ss_Stamp = i_Stamp input, ss_Digest = d_RevisionDigest d, ss_Harness = d_Harness d,
        ss_NativeID = d_NativeTraceID d\<rparr> stamps
      else stamps)"

definition gather_input :: "(string \<Rightarrow> DirEntry list result) \<Rightarrow> Collector \<Rightarrow> CollectOptions \<Rightarrow> string \<Rightarrow> Input \<Rightarrow> Gathering \<Rightarrow> Gathering" where
  "gather_input walk cfg options harness input g =
     (case Describe walk input of
        Inl e \<Rightarrow> collect_warning ''snapshot_failed'' (harness @ '' '' @ d_NativeTraceID (i_Descriptor input) @ '': '' @ e) g
      | Inr d \<Rightarrow>
          (let g = g\<lparr>g_Stamps := record_stamp options input d (g_Stamps g)\<rparr>; key = StateKey (d_Harness d) (d_NativeTraceID d)
           in if key \<in> set (g_Collected g)
              then collect_warning ''duplicate_trace'' (harness @ '' '' @ d_NativeTraceID d @ '' was collected twice; the repeat was dropped'') g
              else let g = g\<lparr>g_Collected := key # g_Collected g\<rparr>
                   in if \<not> co_All options \<and> has_revision_state cfg key (d_RevisionDigest d) then g
                      else g\<lparr>g_Inputs := g_Inputs g @ [input\<lparr>i_Descriptor := d\<rparr>]\<rparr>))"

fun gather_inputs :: "(string \<Rightarrow> DirEntry list result) \<Rightarrow> Collector \<Rightarrow> CollectOptions \<Rightarrow> string \<Rightarrow> nat \<Rightarrow> nat \<Rightarrow> Input list \<Rightarrow> Gathering \<Rightarrow> Gathering" where
  "gather_inputs walk cfg options harness i n [] g = g"
| "gather_inputs walk cfg options harness i n (input # inputs) g =
     gather_inputs walk cfg options harness (i + 1) n inputs
       (gather_input walk cfg options harness input (collect_step ''describing'' harness (i + 1) n g))"

definition configured :: "Collector \<Rightarrow> CollectOptions \<Rightarrow> string \<Rightarrow> string list" where
  "configured cfg options harness =
     (case map_of (co_Sources options) harness of Some roots \<Rightarrow> roots
      | None \<Rightarrow> (case map_of (cfg_Sources cfg) harness of Some roots \<Rightarrow> roots | None \<Rightarrow> []))"

definition gather_adapter :: "(string \<Rightarrow> DirEntry list result) \<Rightarrow> (Stamps \<Rightarrow> string option) \<Rightarrow> Collector \<Rightarrow> CollectOptions \<Rightarrow> Adapter \<Rightarrow>
    Gathering \<Rightarrow> Gathering result" where
  "gather_adapter walk save cfg options adapter g =
     (let harness = ad_Name adapter; g = collect_step ''collecting'' harness 0 0 g
      in case ad_Collect adapter (configured cfg options harness) (stamp_skip cfg options (g_Stamps g)) of
           (steps, Inl e) \<Rightarrow> Inl (''collect '' @ harness @ '': '' @ e)
         | (steps, Inr r) \<Rightarrow>
             (let g = foldl (\<lambda>g s. collect_step ''collecting'' harness (fst s) (snd s) g) g steps;
                  g = g\<lparr>g_Warnings := g_Warnings g @ ar_Warnings r\<rparr>;
                  before = length (g_Inputs g);
                  g = gather_inputs walk cfg options harness 0 (length (ar_Inputs r)) (ar_Inputs r) g;
                  g = (case if co_ConfigDir options = [] then None else save (g_Stamps g) of
                         None \<Rightarrow> g | Some e \<Rightarrow> collect_warning ''stamp_persist_failed'' e g)
              in Inr (collect_step ''collected'' harness (length (g_Inputs g) - before) (length (ar_Inputs r) + ar_Skipped r) g)))"

fun gather :: "(string \<Rightarrow> DirEntry list result) \<Rightarrow> (Stamps \<Rightarrow> string option) \<Rightarrow> Collector \<Rightarrow> CollectOptions \<Rightarrow> Adapter list \<Rightarrow> Gathering \<Rightarrow> Gathering result" where
  "gather walk save cfg options [] g = Inr g"
| "gather walk save cfg options (a # as) g =
     (if ad_Name a \<notin> set (co_Harnesses options) then gather walk save cfg options as g
      else bind_result (gather_adapter walk save cfg options a g) (gather walk save cfg options as))"

subsection \<open>Collecting\<close>

record Collection =
  cl_Archives :: "entry list list"
  cl_Warnings :: "Warning list"

definition input_key :: "Input \<Rightarrow> string \<times> string" where
  "input_key i = (d_Harness (i_Descriptor i), d_NativeTraceID (i_Descriptor i))"

definition collect_manifest :: "Collector \<Rightarrow> CollectOptions \<Rightarrow> string \<Rightarrow> string \<Rightarrow> string \<Rightarrow> string \<Rightarrow> Manifest" where
  "collect_manifest cfg options hostname os arch now =
     \<lparr>mf_FormatVersion = FormatVersion, mf_CollectorVersion = co_Version options, mf_CreatedAt = now,
      mf_SourceMachine = \<lparr>m_ID = cfg_MachineID cfg, m_Hostname = hostname, m_OS = os, m_Arch = arch\<rparr>, mf_Traces = []\<rparr>"

text \<open>\<open>load\<close> reads the stamps; \<open>walk'\<close> is the file system when the archives are written.\<close>

definition Collect :: "(string \<Rightarrow> DirEntry list result) \<Rightarrow> (string \<Rightarrow> DirEntry list result) \<Rightarrow> (string \<Rightarrow> string \<Rightarrow> string result) \<Rightarrow>
    Stamps result \<Rightarrow> (Stamps \<Rightarrow> string option) \<Rightarrow> string result \<Rightarrow> string \<Rightarrow> string \<Rightarrow> string \<Rightarrow> Adapter list \<Rightarrow> Collector \<Rightarrow> CollectOptions \<Rightarrow>
    (CollectStep list \<times> Collection) result" where
  "Collect walk walk' open_at load save hostname os arch now adapters cfg options =
     (if co_OutputDir options = [] then Inl ''collection output directory is required''
      else if co_Harnesses options = [] then Inl ''select at least one harness''
      else bind_result (if co_ConfigDir options = [] then Inr [] else load) (\<lambda>stamps.
        bind_result (gather walk save cfg options adapters \<lparr>g_Stamps = stamps, g_Inputs = [], g_Warnings = [], g_Collected = [], g_Progress = []\<rparr>) (\<lambda>g.
          case find (\<lambda>h. h \<notin> ad_Name ` set adapters) (co_Harnesses options) of
            Some h \<Rightarrow> Inl (''unknown harness '' @ quote False h)
          | None \<Rightarrow>
              if g_Inputs g = [] then Inr (g_Progress g, \<lparr>cl_Archives = [], cl_Warnings = g_Warnings g\<rparr>)
              else bind_result (case hostname of Inl e \<Rightarrow> Inl (''read hostname: '' @ e) | Inr h \<Rightarrow> Inr h) (\<lambda>host.
                let inputs = sort_key input_key (g_Inputs g); g = collect_step ''archiving'' [] 0 (length inputs) g
                in case Write walk' open_at now (collect_manifest cfg options host os arch now) inputs 0 of
                     (archives, Some e) \<Rightarrow> Inl e
                   | (archives, None) \<Rightarrow> Inr (g_Progress (collect_step ''archived'' [] (length inputs) (length archives) g),
                       \<lparr>cl_Archives = archives, cl_Warnings = g_Warnings g\<rparr>)))))"

end
