(* ===== verification/CollectFacts.thy ===== *)
theory CollectFacts
  imports Collect
begin

text \<open>
  What is collected: exactly the traces whose revision the server has not acknowledged; leaving out sources by their stamps
  does not show.  When two sources hold the same trace this is not so, and the two take turns.
\<close>

subsection \<open>Traces as they are\<close>

definition described :: "(string \<Rightarrow> DirEntry list result) \<Rightarrow> Input \<Rightarrow> Descriptor" where
  "described walk i = projr (Describe walk i)"

definition trace_key :: "(string \<Rightarrow> DirEntry list result) \<Rightarrow> Input \<Rightarrow> string" where
  "trace_key walk i = StateKey (d_Harness (described walk i)) (d_NativeTraceID (described walk i))"

definition wanted_input :: "(string \<Rightarrow> DirEntry list result) \<Rightarrow> Collector \<Rightarrow> CollectOptions \<Rightarrow> Input \<Rightarrow> bool" where
  "wanted_input walk cfg options i \<longleftrightarrow> co_All options \<or> \<not> has_revision_state cfg (trace_key walk i) (d_RevisionDigest (described walk i))"

definition with_description :: "(string \<Rightarrow> DirEntry list result) \<Rightarrow> Input \<Rightarrow> Input" where
  "with_description walk i = i\<lparr>i_Descriptor := described walk i\<rparr>"

text \<open>An adapter gathers its traces but those whose source it is told to leave out.  The contract speaks of every value of the configured
  roots; collecting calls an adapter with one, that of the configuration, and for another value an adapter of files may find other
  traces.\<close>

definition gathers :: "Adapter \<Rightarrow> Input list \<Rightarrow> bool" where
  "gathers a inputs \<longleftrightarrow> (\<forall>roots skip. \<exists>steps ws n. ad_Collect a roots skip =
     (steps, Inr \<lparr>ar_Inputs = filter (\<lambda>i. \<not> skips skip (i_Source i) (i_Stamp i)) inputs, ar_Warnings = ws, ar_Skipped = n\<rparr>))"

text \<open>A stamp stands for what its source holds.\<close>

definition stamp_true :: "(string \<Rightarrow> DirEntry list result) \<Rightarrow> Stamps \<Rightarrow> Input \<Rightarrow> bool" where
  "stamp_true walk stamps i \<longleftrightarrow> (case map_of stamps (i_Source i) of None \<Rightarrow> True
     | Some r \<Rightarrow> ss_Stamp r = i_Stamp i \<longrightarrow> ss_Digest r = d_RevisionDigest (described walk i) \<and>
         StateKey (ss_Harness r) (ss_NativeID r) = trace_key walk i)"

text \<open>The traces can be read, none is there twice, and each has its own source.\<close>

definition world_ok :: "(string \<Rightarrow> DirEntry list result) \<Rightarrow> Input list \<Rightarrow> bool" where
  "world_ok walk inputs \<longleftrightarrow> list_all (\<lambda>i. isl (Describe walk i) = False) inputs \<and> distinct (map (trace_key walk) inputs) \<and>
     distinct (map i_Source (filter (\<lambda>i. i_Source i \<noteq> []) inputs))"

subsection \<open>One adapter\<close>

lemma gather_input_new:
  assumes "isl (Describe walk i) = False" "trace_key walk i \<notin> set (g_Collected g)"
  shows "g_Inputs (gather_input walk cfg options harness i g) =
      g_Inputs g @ (if wanted_input walk cfg options i then [with_description walk i] else [])"
    "g_Collected (gather_input walk cfg options harness i g) = trace_key walk i # g_Collected g"
    "g_Stamps (gather_input walk cfg options harness i g) = record_stamp options i (described walk i) (g_Stamps g)"
proof -
  obtain d where d: "Describe walk i = Inr d" using assms(1) by (cases "Describe walk i") auto
  then have "described walk i = d" by (simp add: described_def)
  then show "g_Inputs (gather_input walk cfg options harness i g) =
      g_Inputs g @ (if wanted_input walk cfg options i then [with_description walk i] else [])"
    "g_Collected (gather_input walk cfg options harness i g) = trace_key walk i # g_Collected g"
    "g_Stamps (gather_input walk cfg options harness i g) = record_stamp options i (described walk i) (g_Stamps g)"
    using d assms(2) by (auto simp: gather_input_def Let_def trace_key_def wanted_input_def with_description_def)
qed

lemma collect_step_same [simp]:
  "g_Inputs (collect_step p h k n g) = g_Inputs g" "g_Collected (collect_step p h k n g) = g_Collected g"
  "g_Stamps (collect_step p h k n g) = g_Stamps g" "g_Inputs (collect_warning c m g) = g_Inputs g"
  "g_Collected (collect_warning c m g) = g_Collected g" "g_Stamps (collect_warning c m g) = g_Stamps g"
  by (simp_all add: collect_step_def collect_warning_def)

lemma gather_inputs_new:
  "list_all (\<lambda>i. isl (Describe walk i) = False) xs \<Longrightarrow> distinct (map (trace_key walk) xs) \<Longrightarrow>
   trace_key walk ` set xs \<inter> set (g_Collected g) = {} \<Longrightarrow>
   g_Inputs (gather_inputs walk cfg options harness k n xs g) = g_Inputs g @ map (with_description walk) (filter (wanted_input walk cfg options) xs) \<and>
   set (g_Collected (gather_inputs walk cfg options harness k n xs g)) = trace_key walk ` set xs \<union> set (g_Collected g) \<and>
   g_Stamps (gather_inputs walk cfg options harness k n xs g) = foldl (\<lambda>s i. record_stamp options i (described walk i) s) (g_Stamps g) xs"
proof (induction xs arbitrary: k g)
  case (Cons i xs)
  let ?g = "gather_input walk cfg options harness i (collect_step ''describing'' harness (k + 1) n g)"
  have g: "g_Inputs ?g = g_Inputs g @ (if wanted_input walk cfg options i then [with_description walk i] else [])"
    "g_Collected ?g = trace_key walk i # g_Collected g" "g_Stamps ?g = record_stamp options i (described walk i) (g_Stamps g)"
    using gather_input_new [of walk i "collect_step ''describing'' harness (k + 1) n g" cfg options harness] Cons.prems by auto
  have "trace_key walk ` set xs \<inter> set (g_Collected ?g) = {}" using Cons.prems g(2) by auto
  from Cons.IH [OF _ _ this, of "k + 1"] Cons.prems g show ?case by auto
qed simp

lemma record_stamp_true:
  assumes "stamp_true walk stamps j" "i_Source j = i_Source i \<Longrightarrow> i_Source i \<noteq> [] \<Longrightarrow> j = i"
  shows "stamp_true walk (record_stamp options i (described walk i) stamps) j"
  using assms by (auto simp: stamp_true_def record_stamp_def map_of_alist_put trace_key_def)

lemma same_source:
  assumes "world_ok walk all" "i \<in> set all" "j \<in> set all" "i_Source j = i_Source i" "i_Source i \<noteq> []"
  shows "j = i"
proof -
  have "inj_on i_Source (set (filter (\<lambda>i. i_Source i \<noteq> []) all))" using assms(1) by (simp add: world_ok_def distinct_map)
  then show ?thesis using assms(2-) by (auto dest: inj_onD)
qed

lemma record_stamps_true:
  assumes "world_ok walk all"
  shows "set xs \<subseteq> set all \<Longrightarrow> list_all (stamp_true walk stamps) all \<Longrightarrow>
    list_all (stamp_true walk (foldl (\<lambda>s i. record_stamp options i (described walk i) s) stamps xs)) all"
proof (induction xs arbitrary: stamps)
  case (Cons i xs)
  have "list_all (stamp_true walk (record_stamp options i (described walk i) stamps)) all"
    using Cons.prems same_source [OF assms, of i] by (auto simp: list_all_iff intro!: record_stamp_true)
  then show ?case using Cons by simp
qed simp

lemma skipped_unwanted:
  assumes "stamp_true walk stamps i" "skips (stamp_skip cfg options stamps) (i_Source i) (i_Stamp i)"
  shows "\<not> wanted_input walk cfg options i"
  using assms by (auto simp: skips_def stamp_skip_def stamp_true_def wanted_input_def split: if_splits option.splits)

lemma foldl_collect_step: "g_Inputs (foldl (\<lambda>g s. collect_step p h (fst s) (snd s) g) g steps) = g_Inputs g \<and>
    g_Collected (foldl (\<lambda>g s. collect_step p h (fst s) (snd s) g) g steps) = g_Collected g \<and>
    g_Stamps (foldl (\<lambda>g s. collect_step p h (fst s) (snd s) g) g steps) = g_Stamps g"
  by (induction steps arbitrary: g) simp_all

text \<open>The traces an adapter gathers go through \<open>gather_input\<close> one by one.\<close>

lemma gather_adapter_inputs:
  assumes "gathers a xs" "ys = filter (\<lambda>i. \<not> skips (stamp_skip cfg options (g_Stamps g)) (i_Source i) (i_Stamp i)) xs"
  shows "\<exists>g' g1 n. gather_adapter walk save cfg options a g = Inr g' \<and>
    g_Inputs g1 = g_Inputs g \<and> g_Collected g1 = g_Collected g \<and> g_Stamps g1 = g_Stamps g \<and>
    g_Inputs g' = g_Inputs (gather_inputs walk cfg options (ad_Name a) 0 n ys g1) \<and>
    g_Collected g' = g_Collected (gather_inputs walk cfg options (ad_Name a) 0 n ys g1) \<and>
    g_Stamps g' = g_Stamps (gather_inputs walk cfg options (ad_Name a) 0 n ys g1)"
proof -
  obtain steps ws n where c: "ad_Collect a (configured cfg options (ad_Name a)) (stamp_skip cfg options (g_Stamps g)) =
      (steps, Inr \<lparr>ar_Inputs = ys, ar_Warnings = ws, ar_Skipped = n\<rparr>)" using assms(1) unfolding gathers_def assms(2) by blast
  define g0 where "g0 = foldl (\<lambda>g s. collect_step ''collecting'' (ad_Name a) (fst s) (snd s) g) (collect_step ''collecting'' (ad_Name a) 0 0 g) steps"
  define g1 where "g1 = g0\<lparr>g_Warnings := g_Warnings g0 @ ws\<rparr>"
  have "g_Inputs g1 = g_Inputs g \<and> g_Collected g1 = g_Collected g \<and> g_Stamps g1 = g_Stamps g"
    by (simp add: g1_def g0_def foldl_collect_step)
  moreover define g2 where "g2 = gather_inputs walk cfg options (ad_Name a) 0 (length ys) ys g1"
  then have "\<exists>g'. gather_adapter walk save cfg options a g = Inr g' \<and> g_Inputs g' = g_Inputs g2 \<and> g_Collected g' = g_Collected g2 \<and> g_Stamps g' = g_Stamps g2"
    by (auto simp: gather_adapter_def Let_def c g0_def [symmetric] g1_def [symmetric] split: option.split)
  ultimately show ?thesis unfolding g2_def by blast
qed

lemma gather_adapter_exact:
  assumes "gathers a xs" "world_ok walk all" "set xs \<subseteq> set all" "distinct (map (trace_key walk) xs)"
    "trace_key walk ` set xs \<inter> set (g_Collected g) = {}" "list_all (stamp_true walk (g_Stamps g)) all"
  shows "\<exists>g'. gather_adapter walk save cfg options a g = Inr g' \<and>
    g_Inputs g' = g_Inputs g @ map (with_description walk) (filter (wanted_input walk cfg options) xs) \<and>
    set (g_Collected g') \<subseteq> trace_key walk ` set xs \<union> set (g_Collected g) \<and> list_all (stamp_true walk (g_Stamps g')) all"
proof -
  define ys where "ys = filter (\<lambda>i. \<not> skips (stamp_skip cfg options (g_Stamps g)) (i_Source i) (i_Stamp i)) xs"
  obtain g' g1 n where g': "gather_adapter walk save cfg options a g = Inr g'"
    and g1: "g_Inputs g1 = g_Inputs g" "g_Collected g1 = g_Collected g" "g_Stamps g1 = g_Stamps g"
    and same: "g_Inputs g' = g_Inputs (gather_inputs walk cfg options (ad_Name a) 0 n ys g1)"
      "g_Collected g' = g_Collected (gather_inputs walk cfg options (ad_Name a) 0 n ys g1)"
      "g_Stamps g' = g_Stamps (gather_inputs walk cfg options (ad_Name a) 0 n ys g1)"
    using gather_adapter_inputs [OF assms(1) ys_def, of walk save] by blast
  have w: "filter (wanted_input walk cfg options) ys = filter (wanted_input walk cfg options) xs"
    using skipped_unwanted [of walk "g_Stamps g"] assms(3,6) by (auto simp: ys_def list_all_iff filter_filter intro!: filter_cong)
  have ys: "set ys \<subseteq> set xs" by (auto simp: ys_def)
  have "list_all (\<lambda>i. isl (Describe walk i) = False) ys" "distinct (map (trace_key walk) ys)" "trace_key walk ` set ys \<inter> set (g_Collected g1) = {}"
    using assms(2-5) ys by (auto simp: world_ok_def list_all_iff distinct_map_filter g1 ys_def)
  note new = gather_inputs_new [OF this, of cfg options "ad_Name a" 0 n]
  have "list_all (stamp_true walk (g_Stamps g')) all"
    using new same(3) assms(3,6) ys by (auto simp: g1 intro!: record_stamps_true [OF assms(2)])
  then show ?thesis using g' new same(1,2) ys by (auto simp: w g1)
qed

definition selected_inputs :: "CollectOptions \<Rightarrow> Adapter list \<Rightarrow> Input list list \<Rightarrow> Input list" where
  "selected_inputs options adapters inputs =
     concat (map snd (filter (\<lambda>ax. ad_Name (fst ax) \<in> set (co_Harnesses options)) (zip adapters inputs)))"

lemma gather_list:
  assumes "world_ok walk all" "list_all2 gathers as xss" "later = selected_inputs options as xss" "set later \<subseteq> set all"
    "distinct (map (trace_key walk) later)" "trace_key walk ` set later \<inter> set (g_Collected g) = {}" "list_all (stamp_true walk (g_Stamps g)) all"
  shows "\<exists>g'. gather walk save cfg options as g = Inr g' \<and>
    g_Inputs g' = g_Inputs g @ map (with_description walk) (filter (wanted_input walk cfg options) later) \<and> list_all (stamp_true walk (g_Stamps g')) all"
  using assms(2-)
proof (induction as xss arbitrary: later g rule: list_all2_induct)
  case (Cons a as xs xss)
  show ?case
  proof (cases "ad_Name a \<in> set (co_Harnesses options)")
    case True
    define others where "others = selected_inputs options as xss"
    have later: "later = xs @ others" using Cons.prems(1) True by (simp add: others_def selected_inputs_def)
    have parts: "set xs \<subseteq> set all" "distinct (map (trace_key walk) xs)" "trace_key walk ` set xs \<inter> set (g_Collected g) = {}"
      "set others \<subseteq> set all" "distinct (map (trace_key walk) others)" "trace_key walk ` set others \<inter> set (g_Collected g) = {}"
      "trace_key walk ` set xs \<inter> trace_key walk ` set others = {}"
      using Cons.prems(2-4) by (simp_all add: later image_Un Int_Un_distrib2)
    obtain g' where g': "gather_adapter walk save cfg options a g = Inr g'"
      "g_Inputs g' = g_Inputs g @ map (with_description walk) (filter (wanted_input walk cfg options) xs)"
      "set (g_Collected g') \<subseteq> trace_key walk ` set xs \<union> set (g_Collected g)" "list_all (stamp_true walk (g_Stamps g')) all"
      using gather_adapter_exact [OF Cons.hyps(1) assms(1) parts(1,2,3) Cons.prems(5), of save cfg options] by blast
    have "trace_key walk ` set others \<inter> set (g_Collected g') = {}" using g'(3) parts(6,7) by blast
    from Cons.IH [OF others_def parts(4,5) this g'(4)] obtain g'' where
      "gather walk save cfg options as g' = Inr g''" "g_Inputs g'' = g_Inputs g' @ map (with_description walk) (filter (wanted_input walk cfg options) others)"
      "list_all (stamp_true walk (g_Stamps g'')) all" by blast
    then show ?thesis using True g' by (simp add: later)
  qed (use Cons in \<open>simp add: selected_inputs_def\<close>)
qed (simp add: selected_inputs_def)

text \<open>C37. What is collected is what the server does not have.  If the stamps stand for what their sources hold and no trace is there
  twice, gathering keeps, in order, exactly the traces whose revision is not acknowledged (all of them on request), however many
  sources are left out because of their stamps; and the stamps stay true.\<close>

theorem gather_exact:
  assumes "list_all2 gathers adapters inputs" "world_ok walk (selected_inputs options adapters inputs)"
    "list_all (stamp_true walk stamps) (selected_inputs options adapters inputs)"
  shows "\<exists>g. gather walk save cfg options adapters \<lparr>g_Stamps = stamps, g_Inputs = [], g_Warnings = [], g_Collected = [], g_Progress = []\<rparr> = Inr g \<and>
    g_Inputs g = map (with_description walk) (filter (wanted_input walk cfg options) (selected_inputs options adapters inputs)) \<and>
    list_all (stamp_true walk (g_Stamps g)) (selected_inputs options adapters inputs)"
  using gather_list [OF assms(2,1) refl, where g = "\<lparr>g_Stamps = stamps, g_Inputs = [], g_Warnings = [], g_Collected = [], g_Progress = []\<rparr>"] assms(2,3)
  by (simp add: world_ok_def)


subsection \<open>An example\<close>

definition demo_input :: "string \<Rightarrow> Input" where
  "demo_input name = \<lparr>i_Descriptor = zero_Descriptor\<lparr>d_Harness := ''pi'', d_NativeTraceID := name\<rparr>, i_Directory = name, i_Source = name, i_Stamp = ''1''\<rparr>"

definition demo_walk :: "string \<Rightarrow> DirEntry list result" where
  "demo_walk name = Inr [\<lparr>de_Name = ''source/a'', de_Dir = False, de_Regular = True, de_StatSize = int (length name), de_Content = name\<rparr>]"

definition demo_adapter :: "Input list \<Rightarrow> Adapter" where
  "demo_adapter inputs = \<lparr>ad_Name = ''pi'', ad_Collect = (\<lambda>roots skip. ([],
     Inr \<lparr>ar_Inputs = filter (\<lambda>i. \<not> skips skip (i_Source i) (i_Stamp i)) inputs, ar_Warnings = [], ar_Skipped = 0\<rparr>))\<rparr>"

definition demo_options :: CollectOptions where
  "demo_options = \<lparr>co_Harnesses = [''pi''], co_Sources = [], co_OutputDir = ''out'', co_All = False, co_Version = [], co_ConfigDir = ''cfg''\<rparr>"

lemma demo_described:
  "Describe demo_walk (demo_input name) = Inr ((i_Descriptor (demo_input name))\<lparr>
     d_Files := [\<lparr>f_Path = ''source/a'', f_Size = int (length name), f_SHA256 = sha256_hex name\<rparr>],
     d_RevisionDigest := RevisionDigest [\<lparr>f_Path = ''source/a'', f_Size = int (length name), f_SHA256 = sha256_hex name\<rparr>]\<rparr>)"
proof -
  have "safePath ''source/a'' 32" by (auto simp: safePath_def ValidPath_def ContainsAny_def intro!: ascii_ValidString)
  then show ?thesis by (simp add: Describe_def demo_walk_def demo_input_def describe_entry_def nat_add_distrib)
qed

lemma demo_gathers: "gathers (demo_adapter inputs) inputs"
  by (auto simp: gathers_def demo_adapter_def)

definition known_collector :: Collector where
  "known_collector = \<lparr>cfg_MachineID = ''m'', cfg_ServerURL = [], cfg_Token = [], cfg_Sources = [],
     cfg_State = [(trace_key demo_walk (demo_input ''x''), \<lparr>cr_Digest = d_RevisionDigest (described demo_walk (demo_input ''x'')), cr_MachineID = ''m''\<rparr>)]\<rparr>"

theorem gather_exact_witness:
  "\<exists>g. gather demo_walk (\<lambda>_. None) known_collector demo_options [demo_adapter [demo_input ''x'', demo_input ''y'']]
      \<lparr>g_Stamps = [], g_Inputs = [], g_Warnings = [], g_Collected = [], g_Progress = []\<rparr> = Inr g \<and>
    g_Inputs g = [with_description demo_walk (demo_input ''y'')]"
proof -
  let ?in = "[demo_input ''x'', demo_input ''y'']"
  have k: "trace_key demo_walk (demo_input n) = StateKey ''pi'' n" for n
    by (simp add: trace_key_def described_def demo_described) (simp add: demo_input_def)
  have sel: "selected_inputs demo_options [demo_adapter ?in] [?in] = ?in" by (simp add: selected_inputs_def demo_options_def demo_adapter_def)
  have ok: "world_ok demo_walk ?in" "list_all (stamp_true demo_walk []) ?in"
    by (simp_all add: world_ok_def demo_described k StateKey_def stamp_true_def) (simp add: demo_input_def)
  have f: "filter (wanted_input demo_walk known_collector demo_options) ?in = [demo_input ''y'']"
    by (simp add: wanted_input_def has_revision_state_def known_collector_def demo_options_def k StateKey_def)
  have l: "list_all2 gathers [demo_adapter ?in] [?in]" by (simp add: demo_gathers)
  show ?thesis
    using gather_exact [OF l, of demo_walk demo_options "[]", unfolded sel, OF ok, of "\<lambda>_. None" known_collector] unfolding f list.map by blast
qed

subsection \<open>Two sources of one trace\<close>

text \<open>What is collected is sent, and the server stores it.  Only what \<open>acknowledge\<close> makes of the report matters here: it takes a trace that is
  called updated, imported or unchanged alike, so that one status stands for the three.\<close>

definition stored_outcome :: "Input \<Rightarrow> TraceOutcome" where
  "stored_outcome i = zero_Outcome\<lparr>o_Harness := d_Harness (i_Descriptor i), o_NativeTraceID := d_NativeTraceID (i_Descriptor i),
     o_RevisionDigest := d_RevisionDigest (i_Descriptor i), o_Status := ''updated''\<rparr>"

definition send :: "Input list \<Rightarrow> Collector \<Rightarrow> Collector" where
  "send inputs cfg = acknowledge (zero_Report\<lparr>ir_Traces := map stored_outcome inputs\<rparr>) cfg"

text \<open>The sources of what is sent in each of several rounds of collecting and sending.\<close>

fun send_rounds :: "(string \<Rightarrow> DirEntry list result) \<Rightarrow> CollectOptions \<Rightarrow> Adapter list \<Rightarrow> nat \<Rightarrow> Collector \<Rightarrow> Stamps \<Rightarrow> string list list" where
  "send_rounds walk options adapters 0 cfg stamps = []"
| "send_rounds walk options adapters (Suc n) cfg stamps =
     (case gather walk (\<lambda>_. None) cfg options adapters \<lparr>g_Stamps = stamps, g_Inputs = [], g_Warnings = [], g_Collected = [], g_Progress = []\<rparr> of
        Inl e \<Rightarrow> []
      | Inr g \<Rightarrow> map i_Source (g_Inputs g) # send_rounds walk options adapters n (send (g_Inputs g) cfg) (g_Stamps g))"

text \<open>An adapter gathers the same trace from two sources whose contents differ.\<close>

definition two_sources :: "(string \<Rightarrow> DirEntry list result) \<Rightarrow> CollectOptions \<Rightarrow> Adapter \<Rightarrow> Input \<Rightarrow> Input \<Rightarrow> bool" where
  "two_sources walk options adapter a b \<longleftrightarrow>
     (gathers adapter [a, b] \<and> ad_Name adapter \<in> set (co_Harnesses options) \<and> \<not> co_All options \<and> co_ConfigDir options \<noteq> []) \<and>
     (i_Source a \<noteq> [] \<and> i_Source b \<noteq> [] \<and> i_Source a \<noteq> i_Source b \<and> i_Stamp a \<noteq> [] \<and> i_Stamp b \<noteq> []) \<and>
     (isl (Describe walk a) = False \<and> isl (Describe walk b) = False \<and> trace_key walk a = trace_key walk b \<and>
      d_RevisionDigest (described walk a) \<noteq> d_RevisionDigest (described walk b))"

definition stamped :: "(string \<Rightarrow> DirEntry list result) \<Rightarrow> Stamps \<Rightarrow> Input \<Rightarrow> bool" where
  "stamped walk stamps i \<longleftrightarrow> map_of stamps (i_Source i) = Some \<lparr>ss_Stamp = i_Stamp i, ss_Digest = d_RevisionDigest (described walk i),
     ss_Harness = d_Harness (described walk i), ss_NativeID = d_NativeTraceID (described walk i)\<rparr>"

definition has_trace :: "(string \<Rightarrow> DirEntry list result) \<Rightarrow> Collector \<Rightarrow> Input \<Rightarrow> bool" where
  "has_trace walk cfg i \<longleftrightarrow> map_of (cfg_State cfg) (trace_key walk i) =
     Some \<lparr>cr_Digest = d_RevisionDigest (described walk i), cr_MachineID = cfg_MachineID cfg\<rparr>"

lemma digest_there: "isl (Describe walk i) = False \<Longrightarrow> d_RevisionDigest (described walk i) \<noteq> []"
  by (auto simp: described_def Describe_def RevisionDigest_def bind_result_def split: sum.splits if_splits)

lemma has_revision:
  "has_trace walk cfg i \<Longrightarrow> trace_key walk j = trace_key walk i \<Longrightarrow>
   has_revision_state cfg (trace_key walk j) digest \<longleftrightarrow> digest = d_RevisionDigest (described walk i)"
  by (auto simp: has_trace_def has_revision_state_def)

lemma sent: "has_trace walk (send [with_description walk i] cfg) i"
  by (simp add: has_trace_def send_def acknowledge_def stored_outcome_def acknowledged_def with_description_def trace_key_def map_of_alist_put)

lemma stamp_skips:
  assumes "stamped walk stamps j" "has_trace walk cfg i" "trace_key walk j = trace_key walk i" "\<not> co_All options" "co_ConfigDir options \<noteq> []"
    "i_Source j \<noteq> []" "i_Stamp j \<noteq> []" "isl (Describe walk j) = False"
  shows "skips (stamp_skip cfg options stamps) (i_Source j) (i_Stamp j) \<longleftrightarrow> d_RevisionDigest (described walk j) = d_RevisionDigest (described walk i)"
  using has_revision [OF assms(2,3), of "d_RevisionDigest (described walk j)"] assms(1,4-7) digest_there [OF assms(8)]
  by (simp add: skips_def stamp_skip_def stamped_def trace_key_def)

text \<open>A round in which one of them is left out sends the other.\<close>

lemma send_round:
  assumes t: "two_sources walk options adapter a b" and "stamped walk stamps a" "stamped walk stamps b" "has_trace walk cfg i"
    and ij: "(i, j) = (a, b) \<or> (i, j) = (b, a)"
  shows "\<exists>g. gather walk save cfg options [adapter] \<lparr>g_Stamps = stamps, g_Inputs = [], g_Warnings = [], g_Collected = [], g_Progress = []\<rparr> = Inr g \<and>
    g_Inputs g = [with_description walk j] \<and> stamped walk (g_Stamps g) a \<and> stamped walk (g_Stamps g) b"
proof -
  let ?g = "\<lparr>g_Stamps = stamps, g_Inputs = [], g_Warnings = [], g_Collected = [], g_Progress = []\<rparr>"
  note t' = t [unfolded two_sources_def]
  have keys: "trace_key walk a = trace_key walk i" "trace_key walk b = trace_key walk i" using ij t' by auto
  have "skips (stamp_skip cfg options stamps) (i_Source a) (i_Stamp a) \<longleftrightarrow> i = a" "skips (stamp_skip cfg options stamps) (i_Source b) (i_Stamp b) \<longleftrightarrow> i = b"
    using stamp_skips [OF assms(2,4) keys(1), of options] stamp_skips [OF assms(3,4) keys(2), of options] ij t' by auto
  then have one: "[j] = filter (\<lambda>i. \<not> skips (stamp_skip cfg options (g_Stamps ?g)) (i_Source i) (i_Stamp i)) [a, b]"
    using ij t' by auto
  have "gathers adapter [a, b]" using t' by blast
  from gather_adapter_inputs [OF this one, of walk save] obtain g' g1 n where
    g': "gather_adapter walk save cfg options adapter ?g = Inr g'"
    and g0: "g_Inputs g1 = g_Inputs ?g" "g_Collected g1 = g_Collected ?g" "g_Stamps g1 = g_Stamps ?g"
    and same: "g_Inputs g' = g_Inputs (gather_inputs walk cfg options (ad_Name adapter) 0 n [j] g1)"
      "g_Stamps g' = g_Stamps (gather_inputs walk cfg options (ad_Name adapter) 0 n [j] g1)" by blast
  have g1: "g_Inputs g1 = []" "g_Collected g1 = []" "g_Stamps g1 = stamps" using g0 by simp_all
  have j: "trace_key walk j = trace_key walk i" "d_RevisionDigest (described walk j) \<noteq> d_RevisionDigest (described walk i)"
    "list_all (\<lambda>i. isl (Describe walk i) = False) [j]" "j = a \<or> j = b"
  proof -
    have r: "isl (Describe walk a) = False" "isl (Describe walk b) = False"
      "d_RevisionDigest (described walk a) \<noteq> d_RevisionDigest (described walk b)" using t' by blast+
    show b: "j = a \<or> j = b" using ij by blast
    then show "trace_key walk j = trace_key walk i" using keys by blast
    show "d_RevisionDigest (described walk j) \<noteq> d_RevisionDigest (described walk i)" using ij r(3) by (metis prod.inject)
    show "list_all (\<lambda>i. isl (Describe walk i) = False) [j]" using b r(1,2) by (elim disjE) (simp_all only: list.pred_inject simp_thms)
  qed
  have a: "co_All options = False" "i_Source a \<noteq> i_Source b" "ad_Name adapter \<in> set (co_Harnesses options)" using t' by blast+
  have "wanted_input walk cfg options j" using has_revision [OF assms(4) j(1)] j(2) by (simp add: wanted_input_def)
  moreover have "distinct (map (trace_key walk) [j])" "trace_key walk ` set [j] \<inter> set (g_Collected g1) = {}" by (simp_all add: g1)
  ultimately have "g_Inputs g' = [with_description walk j]" "g_Stamps g' = record_stamp options j (described walk j) stamps"
    using gather_inputs_new [OF j(3), of g1 cfg options "ad_Name adapter" 0 n] by (simp_all add: same g1)
  moreover have "stamped walk (record_stamp options j (described walk j) stamps) a" "stamped walk (record_stamp options j (described walk j) stamps) b"
    using assms(2,3) j(4) a(2) by (auto simp: stamped_def record_stamp_def map_of_alist_put)
  ultimately show ?thesis using g' a(3) by simp
qed

text \<open>C38. The two sources take turns: once both were seen, every round of collecting and sending sends the trace again, from the other
  source, although nothing has changed.\<close>

theorem sources_take_turns:
  assumes "two_sources walk options adapter a b" "stamped walk stamps a" "stamped walk stamps b" "has_trace walk cfg a"
  shows "send_rounds walk options [adapter] (2 * n) cfg stamps = concat (replicate n [[i_Source b], [i_Source a]])"
  using assms(2-)
proof (induction n arbitrary: cfg stamps)
  case (Suc n)
  from send_round [OF assms(1) Suc.prems, of b "\<lambda>_. None"] obtain g where
    g: "gather walk (\<lambda>_. None) cfg options [adapter] \<lparr>g_Stamps = stamps, g_Inputs = [], g_Warnings = [], g_Collected = [], g_Progress = []\<rparr> = Inr g"
      "g_Inputs g = [with_description walk b]" "stamped walk (g_Stamps g) a" "stamped walk (g_Stamps g) b" by auto
  from send_round [OF assms(1) g(3,4) sent [of walk b cfg], of a "\<lambda>_. None"] obtain g' where
    g': "gather walk (\<lambda>_. None) (send [with_description walk b] cfg) options [adapter]
        \<lparr>g_Stamps = g_Stamps g, g_Inputs = [], g_Warnings = [], g_Collected = [], g_Progress = []\<rparr> = Inr g'"
      "g_Inputs g' = [with_description walk a]" "stamped walk (g_Stamps g') a" "stamped walk (g_Stamps g') b" by auto
  have "i_Source (with_description walk i) = i_Source i" for i by (simp add: with_description_def)
  then show ?case using g g' Suc.IH [OF g'(3,4) sent] by (simp del: gather.simps)
qed simp

end
