(* ===== verification/CollectWitness.thy ===== *)
theory CollectWitness
  imports CollectFacts ArchiveWitness
begin

text \<open>
  One trace in two sources: the same record under two file names, so that the two revisions have different digests.
\<close>

definition pair_file :: "string \<Rightarrow> File" where
  "pair_file name = \<lparr>f_Path = ''source/'' @ name, f_Size = 2, f_SHA256 = demo_digest\<rparr>"

definition pair_input :: "string \<Rightarrow> Input" where
  "pair_input name = \<lparr>i_Descriptor = zero_Descriptor\<lparr>d_Harness := ''pi'', d_NativeTraceID := ''t''\<rparr>, i_Directory = name, i_Source = name, i_Stamp = ''1''\<rparr>"

definition pair_walk :: "string \<Rightarrow> DirEntry list result" where
  "pair_walk name = Inr [\<lparr>de_Name = ''source/'' @ name, de_Dir = False, de_Regular = True, de_StatSize = 2, de_Content = ''{}''\<rparr>]"

lemma pair_described:
  assumes "name = ''a'' \<or> name = ''b''"
  shows "Describe pair_walk (pair_input name) = Inr ((i_Descriptor (pair_input name))\<lparr>d_Files := [pair_file name],
    d_RevisionDigest := RevisionDigest [pair_file name]\<rparr>)"
proof -
  have "safePath (''source/'' @ name) 32"
    using assms by (auto simp: safePath_def ValidPath_def ContainsAny_def intro!: ascii_ValidString)
  moreover have "take (nat (2 + 1)) ''{}'' = ''{}''" by simp
  ultimately show ?thesis
    by (simp add: Describe_def pair_walk_def pair_input_def describe_entry_def pair_file_def demo_digest_computed Let_def)
qed

lemma pair_differs: "RevisionDigest [pair_file ''a''] \<noteq> RevisionDigest [pair_file ''b'']"
proof -
  have "pair_file ''a'' = demo_file" by (simp add: pair_file_def demo_file_def)
  moreover have "RevisionDigest [pair_file ''b''] \<noteq> ''sha256:d7219c86991763e93893d17699ad25c5840960a2d8d62fc09a7b017a6b2ffe54''"
    by code_simp
  ultimately show ?thesis by (simp add: demo_revision_computed)
qed

definition pair_stamps :: Stamps where
  "pair_stamps = map (\<lambda>name. (name, \<lparr>ss_Stamp = ''1'', ss_Digest = RevisionDigest [pair_file name], ss_Harness = ''pi'', ss_NativeID = ''t''\<rparr>)) [''a'', ''b'']"

definition pair_collector :: Collector where
  "pair_collector = \<lparr>cfg_MachineID = ''m'', cfg_ServerURL = [], cfg_Token = [], cfg_Sources = [],
     cfg_State = [(StateKey ''pi'' ''t'', \<lparr>cr_Digest = RevisionDigest [pair_file ''a''], cr_MachineID = ''m''\<rparr>)]\<rparr>"

theorem sources_take_turns_witness:
  "send_rounds pair_walk demo_options [demo_adapter [pair_input ''a'', pair_input ''b'']] 4 pair_collector pair_stamps =
     [[''b''], [''a''], [''b''], [''a'']]"
proof -
  have d: "described pair_walk (pair_input name) = (i_Descriptor (pair_input name))\<lparr>d_Files := [pair_file name],
      d_RevisionDigest := RevisionDigest [pair_file name]\<rparr>" if "name = ''a'' \<or> name = ''b''" for name
    by (simp add: described_def pair_described [OF that])
  have k: "trace_key pair_walk (pair_input ''a'') = StateKey ''pi'' ''t''" "trace_key pair_walk (pair_input ''b'') = StateKey ''pi'' ''t''"
    by (simp_all add: trace_key_def d) (simp_all add: pair_input_def)
  have i: "i_Source (pair_input name) = name" "i_Stamp (pair_input name) = ''1''" for name by (simp_all add: pair_input_def)
  have two: "two_sources pair_walk demo_options (demo_adapter [pair_input ''a'', pair_input ''b'']) (pair_input ''a'') (pair_input ''b'')"
    using pair_differs k by (simp add: two_sources_def demo_gathers pair_described d i)
      (simp add: demo_adapter_def demo_options_def)
  have st: "stamped pair_walk pair_stamps (pair_input ''a'')" "stamped pair_walk pair_stamps (pair_input ''b'')"
    by (simp_all add: stamped_def pair_stamps_def d i) (simp_all add: pair_input_def)
  have has: "has_trace pair_walk pair_collector (pair_input ''a'')"
    by (simp add: has_trace_def k d pair_collector_def)
  have four: "4 = 2 * (2 :: nat)" by simp
  show ?thesis unfolding four by (subst sources_take_turns [OF two st has]) (simp add: i numeral_2_eq_2)
qed

end
