(* ===== verification/Lineage.thy ===== *)
theory Lineage
  imports StoreSearch StoreInvariant
begin

text \<open>
  Which session a trace is listed under: the query \<open>lineage\<close> of \<open>internal/store/transcript_cards.go\<close>.  A recursive
  query works on a queue: it takes a row, adds the rows the step makes of it that were never queued, and stops when the
  queue is empty.  What it finds are the ancestors of every trace, and lineage keeps the top one.
\<close>

subsection \<open>The query\<close>

text \<open>The join on the parent's harness and native id.\<close>

definition collected_parents :: "Store \<Rightarrow> TraceRow \<Rightarrow> TraceRow list" where
  "collected_parents s t =
     (if t_ParentNativeTraceID t = [] then []
      else filter (\<lambda>p. t_Harness p = t_Harness t \<and> t_NativeTraceID p = t_ParentNativeTraceID t) (traces s))"

definition up_start :: "Store \<Rightarrow> (int \<times> int) list" where
  "up_start s = concat (map (\<lambda>c. map (\<lambda>p. (t_ID c, t_ID p)) (collected_parents s c)) (traces s))"

definition up_next :: "Store \<Rightarrow> int \<times> int \<Rightarrow> (int \<times> int) list" where
  "up_next s u = concat (map (\<lambda>a. map (\<lambda>p. (fst u, t_ID p)) (collected_parents s a)) (filter (\<lambda>a. t_ID a = snd u) (traces s)))"

lemma up_next_ids: "set (up_next s u) \<subseteq> {fst u} \<times> set (map t_ID (traces s))"
  by (auto simp: up_next_def collected_parents_def split: if_splits)

text \<open>The rows never queued before: \<open>UNION\<close>.\<close>

definition unseen :: "'a list \<Rightarrow> 'a list \<Rightarrow> 'a list" where
  "unseen seen rows = remdups (filter (\<lambda>v. v \<notin> set seen) rows)"

lemma set_unseen [simp]: "set (unseen seen rows) = set rows - set seen"
  by (auto simp: unseen_def)

function up_rows :: "Store \<Rightarrow> (int \<times> int) list \<Rightarrow> (int \<times> int) list \<Rightarrow> (int \<times> int) list" where
  "up_rows s seen [] = []"
| "up_rows s seen (u # queue) =
     (let new = unseen seen (up_next s u) in u # up_rows s (seen @ new) (queue @ new))"
  by pat_completeness auto

termination
proof (relation "measures [\<lambda>(s, seen, queue). card (fst ` set queue \<times> set (map t_ID (traces s)) - set seen), \<lambda>(s, seen, queue). length queue]")
  fix s seen u queue and new :: "(int \<times> int) list"
  assume new: "new = unseen seen (up_next s u)"
  let ?I = "set (map t_ID (traces s))"
  let ?A = "fst ` set (u # queue) \<times> ?I - set seen" and ?B = "fst ` set (queue @ new) \<times> ?I - set (seen @ new)"
  have sub: "set new \<subseteq> {fst u} \<times> ?I - set seen" using up_next_ids [of s u] by (auto simp: new)
  then have B: "?B \<subseteq> ?A" by auto
  have fin: "finite ?A" by simp
  have "card ?B < card ?A" if ne: "new \<noteq> []"
  proof -
    obtain v where "v \<in> set new" using last_in_set [OF ne] by blast
    then have "v \<in> ?A" "v \<notin> ?B" using sub by auto
    then show ?thesis using B fin by (intro psubset_card_mono) blast+
  qed
  moreover have "card ?B \<le> card ?A" using B fin by (rule card_mono [rotated])
  ultimately show "((s, seen @ new, queue @ new), s, seen, u # queue) \<in> measures
      [\<lambda>(s, seen, queue). card (fst ` set queue \<times> set (map t_ID (traces s)) - set seen), \<lambda>(s, seen, queue). length queue]"
    by (cases "new = []") auto
qed simp

definition up :: "Store \<Rightarrow> (int \<times> int) list" where
  "up s = up_rows s (remdups (up_start s)) (remdups (up_start s))"

text \<open>\<open>NOT EXISTS\<close>: no trace has the id the ancestor names as its parent.\<close>

definition is_top :: "Store \<Rightarrow> TraceRow \<Rightarrow> bool" where
  "is_top s a \<longleftrightarrow> \<not> list_ex (\<lambda>p. t_Harness p = t_Harness a \<and> t_NativeTraceID p = t_ParentNativeTraceID a) (traces s)"

definition lineage :: "Store \<Rightarrow> (int \<times> int) list" where
  "lineage s = concat (map (\<lambda>u. map (\<lambda>_. u) (filter (\<lambda>a. t_ID a = snd u \<and> is_top s a) (traces s))) (up s))"

text \<open>\<open>LEFT JOIN lineage l ON l.id=t.id\<close> with the column \<open>COALESCE(l.root,t.id)\<close>.\<close>

definition session_ids :: "Store \<Rightarrow> int \<Rightarrow> int list" where
  "session_ids s i = map (\<lambda>l. case l of None \<Rightarrow> i | Some u \<Rightarrow> snd u) (left_join (filter (\<lambda>u. fst u = i) (lineage s)))"

subsection \<open>What the recursion finds\<close>

definition parent_rel :: "Store \<Rightarrow> (int \<times> int) set" where
  "parent_rel s = {(t_ID c, t_ID p) | c p. c \<in> set (traces s) \<and> p \<in> set (collected_parents s c)}"

lemma set_up_start: "set (up_start s) = parent_rel s"
  by (auto simp: up_start_def parent_rel_def)

lemma in_up_next: "v \<in> set (up_next s u) \<longleftrightarrow> fst v = fst u \<and> (snd u, snd v) \<in> parent_rel s"
  by (cases v) (auto simp: up_next_def parent_rel_def; metis)

lemma up_rows_queue: "set queue \<subseteq> set (up_rows s seen queue)"
  by (induction s seen queue rule: up_rows.induct) (auto simp: Let_def)

lemma up_rows_closed: "u \<in> set (up_rows s seen queue) \<Longrightarrow> v \<in> set (up_next s u) \<Longrightarrow> v \<in> set (up_rows s seen queue) \<union> set seen"
proof (induction s seen queue rule: up_rows.induct)
  case (2 s seen w queue)
  let ?new = "unseen seen (up_next s w)"
  have queued: "set ?new \<subseteq> set (up_rows s (seen @ ?new) (queue @ ?new))" using up_rows_queue [of "queue @ ?new"] by auto
  show ?case
  proof (cases "u = w")
    case True
    with 2(3) queued show ?thesis by (auto simp: Let_def)
  next
    case False
    with 2(2) have "u \<in> set (up_rows s (seen @ ?new) (queue @ ?new))" by (simp add: Let_def)
    from 2(1) [OF refl this 2(3)] queued show ?thesis by (auto simp: Let_def)
  qed
qed simp

lemma up_rows_ancestors:
  "(\<And>u. u \<in> set queue \<Longrightarrow> u \<in> (parent_rel s)\<^sup>+) \<Longrightarrow> u \<in> set (up_rows s seen queue) \<Longrightarrow> u \<in> (parent_rel s)\<^sup>+"
proof (induction s seen queue arbitrary: u rule: up_rows.induct)
  case (2 s seen w queue)
  let ?new = "unseen seen (up_next s w)"
  have w: "w \<in> (parent_rel s)\<^sup>+" using 2(2) by simp
  have "v \<in> (parent_rel s)\<^sup>+" if "v \<in> set ?new" for v
  proof -
    have "fst v = fst w" "(snd w, snd v) \<in> parent_rel s" using that by (auto simp: in_up_next)
    then show ?thesis using w by (metis prod.collapse trancl.trancl_into_trancl)
  qed
  then have "v \<in> (parent_rel s)\<^sup>+" if "v \<in> set (queue @ ?new)" for v
    using that 2(2) [of v] by (metis Un_iff list.set_intros(2) set_append)
  note later = 2(1) [OF refl this]
  have "u = w \<or> u \<in> set (up_rows s (seen @ ?new) (queue @ ?new))" using 2(3) by (simp add: Let_def)
  then show ?case using later w by blast
qed simp

lemma set_up: "set (up s) = (parent_rel s)\<^sup>+"
proof
  show "set (up s) \<subseteq> (parent_rel s)\<^sup>+"
    using up_rows_ancestors [of "remdups (up_start s)" s] by (auto simp: up_def set_up_start)
  have start: "parent_rel s \<subseteq> set (up s)"
    using up_rows_queue [of "remdups (up_start s)" s] by (simp add: up_def set_up_start)
  have "(c, a) \<in> set (up s)" if "(c, a) \<in> (parent_rel s)\<^sup>+" for c a
    using that
  proof (induction rule: trancl_induct)
    case (step b a)
    then have "(c, a) \<in> set (up_next s (c, b))" by (simp add: in_up_next)
    then have "(c, a) \<in> set (up s) \<union> set (remdups (up_start s))"
      using step.IH up_rows_closed unfolding up_def by blast
    then show ?case using start by (auto simp: set_up_start)
  qed (use start in blast)
  then show "(parent_rel s)\<^sup>+ \<subseteq> set (up s)" by auto
qed

lemma in_lineage: "u \<in> set (lineage s) \<longleftrightarrow> u \<in> (parent_rel s)\<^sup>+ \<and> (\<exists>a \<in> set (traces s). t_ID a = snd u \<and> is_top s a)"
  by (auto simp: lineage_def set_up)

subsection \<open>Sessions\<close>

text \<open>Natural keys are unique, so a trace has at most one collected parent and at most one top ancestor.\<close>

lemma parent_rel_single: "keys_ok s \<Longrightarrow> single_valued (parent_rel s)"
proof (rule single_valuedI)
  fix i j k assume ok: "keys_ok s" and j: "(i, j) \<in> parent_rel s" and k: "(i, k) \<in> parent_rel s"
  have d: "distinct (map t_ID (traces s))" "distinct (map (\<lambda>t. (t_Harness t, t_NativeTraceID t)) (traces s))"
    using ok by (simp_all add: keys_ok_def)
  obtain c p where p: "c \<in> set (traces s)" "i = t_ID c" "p \<in> set (collected_parents s c)" "j = t_ID p" using j by (auto simp: parent_rel_def)
  obtain c' p' where p': "c' \<in> set (traces s)" "i = t_ID c'" "p' \<in> set (collected_parents s c')" "k = t_ID p'" using k by (auto simp: parent_rel_def)
  have "c' = c" using distinct_map_eq [OF d(1)] p p' by metis
  then have "p' = p" using distinct_map_eq [OF d(2), of p' p] p p' by (auto simp: collected_parents_def split: if_splits)
  with p p' show "j = k" by simp
qed

lemma top_has_no_parent: "keys_ok s \<Longrightarrow> a \<in> set (traces s) \<Longrightarrow> is_top s a \<Longrightarrow> (t_ID a, j) \<notin> parent_rel s"
proof
  assume ok: "keys_ok s" and a: "a \<in> set (traces s)" "is_top s a" and j: "(t_ID a, j) \<in> parent_rel s"
  obtain c p where c: "c \<in> set (traces s)" "t_ID a = t_ID c" "p \<in> set (collected_parents s c)" using j by (auto simp: parent_rel_def)
  have "c = a" using distinct_map_eq [of t_ID "traces s" c a] ok a c by (simp add: keys_ok_def)
  with a c show False by (auto simp: is_top_def list_ex_iff collected_parents_def split: if_splits)
qed

lemma lineage_unique:
  assumes "keys_ok s" "(i, r) \<in> set (lineage s)" "(i, r') \<in> set (lineage s)"
  shows "r = r'"
proof -
  have step: "(r, j) \<notin> parent_rel s" if "(i, r) \<in> set (lineage s)" for r j
    using that top_has_no_parent [OF assms(1)] by (auto simp: in_lineage)
  have "(i, r) \<in> (parent_rel s)\<^sup>*" "(i, r') \<in> (parent_rel s)\<^sup>*" using assms(2,3) by (auto simp: in_lineage)
  then have "(r, r') \<in> (parent_rel s)\<^sup>* \<or> (r', r) \<in> (parent_rel s)\<^sup>*"
    by (rule single_valued_confluent [OF parent_rel_single [OF assms(1)]])
  with step [OF assms(2)] step [OF assms(3)] show ?thesis by (metis converse_rtranclE)
qed

text \<open>The session of a trace: its top collected ancestor, or itself.\<close>

definition session_of :: "Store \<Rightarrow> int \<Rightarrow> int" where
  "session_of s i = (case find (\<lambda>u. fst u = i) (lineage s) of None \<Rightarrow> i | Some u \<Rightarrow> snd u)"

lemma session_cases:
  obtains "session_of s i = i" "\<And>r. (i, r) \<notin> set (lineage s)" | "(i, session_of s i) \<in> set (lineage s)"
proof (cases "find (\<lambda>u. fst u = i) (lineage s)")
  case None
  then have "session_of s i = i" by (simp only: session_of_def option.case)
  moreover have "\<forall>u \<in> set (lineage s). fst u \<noteq> i" using None unfolding find_None_iff by blast
  ultimately have "session_of s i = i" "\<forall>u \<in> set (lineage s). fst u \<noteq> i" by blast+
  with that(1) show thesis by (metis fst_conv)
next
  case (Some u)
  then have "u \<in> set (lineage s)" "fst u = i" by (auto dest: find_SomeD)
  with Some that(2) show thesis by (metis option.simps(5) prod.collapse session_of_def)
qed

lemma set_session_ids:
  assumes "keys_ok s"
  shows "set (session_ids s i) = {session_of s i}"
proof (cases rule: session_cases [of s i])
  case 1
  then have "filter (\<lambda>u. fst u = i) (lineage s) = []" by (auto simp: filter_empty_conv)
  with 1(1) show ?thesis by (simp add: session_ids_def left_join_def)
next
  case 2
  then have "filter (\<lambda>u. fst u = i) (lineage s) \<noteq> []" by (force simp: filter_empty_conv)
  then have "set (session_ids s i) = snd ` set (filter (\<lambda>u. fst u = i) (lineage s))"
    by (simp add: session_ids_def left_join_def)
  also have "\<dots> = {session_of s i}"
  proof
    show "snd ` set (filter (\<lambda>u. fst u = i) (lineage s)) \<subseteq> {session_of s i}" using 2 lineage_unique [OF assms] by auto
    have "(i, session_of s i) \<in> set (filter (\<lambda>u. fst u = i) (lineage s))" using 2 by simp
    then show "{session_of s i} \<subseteq> snd ` set (filter (\<lambda>u. fst u = i) (lineage s))" by (metis empty_subsetI image_eqI insert_subset snd_conv)
  qed
  finally show ?thesis .
qed

lemma session_trace:
  assumes "i \<in> t_ID ` set (traces s)"
  shows "session_of s i \<in> t_ID ` set (traces s)"
  by (rule session_cases [of s i]) (use assms in \<open>force simp: in_lineage\<close>)+

lemma session_same_harness:
  assumes ok: "keys_ok s" and t: "t \<in> set (traces s)" "r \<in> set (traces s)" "session_of s (t_ID t) = t_ID r"
  shows "t_Harness r = t_Harness t"
proof -
  have d: "distinct (map t_ID (traces s))" using ok by (simp add: keys_ok_def)
  have same: "\<forall>a \<in> set (traces s). \<forall>b \<in> set (traces s). t_ID a = i \<longrightarrow> t_ID b = j \<longrightarrow> t_Harness b = t_Harness a" if "(i, j) \<in> (parent_rel s)\<^sup>+" for i j
    using that
  proof (induction rule: trancl_induct)
    case (base j)
    then obtain c p where c: "c \<in> set (traces s)" "t_ID c = i" "p \<in> set (traces s)" "t_ID p = j" "t_Harness p = t_Harness c"
      by (auto simp: parent_rel_def collected_parents_def split: if_splits)
    then show ?case using distinct_map_eq [OF d] by metis
  next
    case (step j k)
    then obtain c p where c: "c \<in> set (traces s)" "t_ID c = j" "p \<in> set (traces s)" "t_ID p = k" "t_Harness p = t_Harness c"
      by (auto simp: parent_rel_def collected_parents_def split: if_splits)
    show ?case
    proof (intro ballI impI)
      fix a b assume a: "a \<in> set (traces s)" "b \<in> set (traces s)" "t_ID a = i" "t_ID b = k"
      have "b = p" using distinct_map_eq [OF d a(2) c(3)] a c by simp
      moreover have "t_Harness c = t_Harness a" using step.IH a c by blast
      ultimately show "t_Harness b = t_Harness a" using c by simp
    qed
  qed
  show ?thesis
  proof (cases rule: session_cases [of s "t_ID t"])
    case 1
    then have "r = t" using distinct_map_eq [OF d t(2,1)] t(3) by simp
    then show ?thesis by simp
  next
    case 2
    with same t show ?thesis unfolding in_lineage by auto
  qed
qed

text \<open>The top of the chain of parents is the session, and a trace of a chain that has none keeps its own.\<close>

definition top_ancestor :: "Store \<Rightarrow> TraceRow \<Rightarrow> TraceRow \<Rightarrow> bool" where
  "top_ancestor s t a \<longleftrightarrow> a \<in> set (traces s) \<and> (t_ID t, t_ID a) \<in> (parent_rel s)\<^sup>* \<and> is_top s a"

lemma session_is_top:
  assumes ok: "keys_ok s" and t: "t \<in> set (traces s)"
  shows "(\<forall>a. top_ancestor s t a \<longrightarrow> session_of s (t_ID t) = t_ID a) \<and>
    ((\<nexists>a. top_ancestor s t a) \<longrightarrow> session_of s (t_ID t) = t_ID t)"
proof (intro conjI allI impI)
  fix a assume a: "top_ancestor s t a"
  then have "t_ID t = t_ID a \<or> (t_ID t, t_ID a) \<in> set (lineage s)"
    by (auto simp: top_ancestor_def in_lineage rtrancl_eq_or_trancl)
  moreover have "(t_ID a, r) \<notin> set (lineage s)" for r
    using a top_has_no_parent [OF ok, of a] by (auto simp: top_ancestor_def in_lineage dest: tranclD)
  ultimately show "session_of s (t_ID t) = t_ID a"
    using session_cases [of s "t_ID t"] lineage_unique [OF ok] by metis
next
  assume none: "\<nexists>a. top_ancestor s t a"
  show "session_of s (t_ID t) = t_ID t"
  proof (cases rule: session_cases [of s "t_ID t"])
    case 2
    then have "\<exists>a. top_ancestor s t a" by (auto simp: in_lineage top_ancestor_def intro: trancl_into_rtrancl)
    with none show ?thesis by blast
  qed
qed

text \<open>A session is its own: the sessions are a partition of the traces.\<close>

lemma session_idem:
  assumes "keys_ok s"
  shows "session_of s (session_of s i) = session_of s i"
proof (cases rule: session_cases [of s i])
  case 2
  then obtain a where a: "a \<in> set (traces s)" "t_ID a = session_of s i" "is_top s a" by (auto simp: in_lineage)
  have "(t_ID a, r) \<notin> set (lineage s)" for r
    using top_has_no_parent [OF assms a(1,3)] by (auto simp: in_lineage dest: tranclD)
  then show ?thesis using a(2) session_cases [of s "t_ID a"] by metis
qed simp

end
