(* ===== verification/Cards.thy ===== *)
theory Cards
  imports Lineage
begin

text \<open>
  The list of sessions, \<open>TranscriptCards\<close> of \<open>internal/store/transcript_cards.go\<close>: the statement that gives the rows of a
  search in the order of the cards, the loop that makes a card of the first row that matches, and the cursor of the page.
\<close>

record TranscriptCard =
  tc_ID :: int
  tc_Title :: string
  tc_Harness :: string
  tc_NativeTraceID :: string
  tc_Repository :: string
  tc_UpdatedAt :: string
  tc_MatchSnippet :: string
  tc_Preview :: string
  tc_EventCount :: int
  tc_RevisionCount :: int
  tc_MatchedChildID :: int
  tc_MatchedChildTitle :: string
  tc_MatchedEventID :: int

record CardPage =
  cg_Cards :: "TranscriptCard list"
  cg_NextCursor :: string
  cg_Partial :: bool

record transcriptCursor =
  cp_ID :: int
  cp_Updated :: string
  cp_MaxID :: int

subsection \<open>Positions\<close>

definition card_position_json :: "transcriptCursor \<Rightarrow> json" where
  "card_position_json c = JObj (int_field ''id'' (cp_ID c) @ str_field ''updated'' (cp_Updated c) @ int_field ''max_id'' (cp_MaxID c))"

definition encode_card_position :: "transcriptCursor \<Rightarrow> string" where
  "encode_card_position c = EncodeToString (Marshal (card_position_json c))"

definition decode_card_position :: "json \<Rightarrow> transcriptCursor option" where
  "decode_card_position j =
     (if \<not> is_struct j then None
      else case (dec_int j ''id'', dec_str j ''updated'', dec_int j ''max_id'') of
        (Some i, Some u, Some m) \<Rightarrow> Some \<lparr>cp_ID = i, cp_Updated = u, cp_MaxID = m\<rparr>
      | _ \<Rightarrow> None)"

definition card_position :: "int \<Rightarrow> string \<Rightarrow> transcriptCursor result" where
  "card_position maximum encoded =
     (if encoded = [] then Inr \<lparr>cp_ID = 0, cp_Updated = [], cp_MaxID = maximum\<rparr>
      else case Option.bind (Option.bind (DecodeString encoded) parse_text) decode_card_position of
          None \<Rightarrow> Inl (invalid_query ''invalid transcript cursor'')
        | Some c \<Rightarrow> if cp_ID c \<le> 0 \<or> cp_MaxID c < cp_ID c \<or> cp_Updated c = []
            then Inl (invalid_query ''invalid transcript cursor'') else Inr c)"

subsection \<open>The statement\<close>

text \<open>A row: the session whose card it is for, the trace that matched, and its event, observation and revision.\<close>

datatype CardRow = CardRow (cr_session: TraceRow) (cr_trace: TraceRow) (cr_event: int) (cr_observation: int) (cr_revision: int)

definition needsObservation :: "SearchQuery \<Rightarrow> bool" where
  "needsObservation query \<longleftrightarrow> sq_Model query \<noteq> [] \<or> sq_Role query \<noteq> [] \<or> sq_Kind query \<noteq> [] \<or> sq_Tool query \<noteq> [] \<or>
     sq_After query \<noteq> [] \<or> sq_Before query \<noteq> []"

definition needsEvents :: "SearchQuery \<Rightarrow> bool" where
  "needsEvents query \<longleftrightarrow> sq_Query query \<noteq> [] \<or> needsObservation query"

text \<open>\<open>FROM\<close> and the filters on its columns, in the three cases: browsing, from an index, and from the observations.\<close>

definition event_trace :: "Store \<Rightarrow> int \<Rightarrow> TraceRow list" where
  "event_trace s i = (case Option.bind (find (\<lambda>e. ev_ID e = i) (events s)) (trace_of s) of None \<Rightarrow> [] | Some t \<Rightarrow> [t])"

definition card_sources :: "Engine \<Rightarrow> Store \<Rightarrow> preparedSearch \<Rightarrow> (TraceRow \<times> int \<times> int \<times> int) list" where
  "card_sources en s p =
     (if \<not> needsEvents (ps_query p) then map (\<lambda>t. (t, 0, 0, 0)) (traces s)
      else if ps_index p \<noteq> NoIndex then
        concat (map (\<lambda>c. map (\<lambda>t. (t, c_Event c, c_Observation c, c_Revision c)) (event_trace s (c_Event c)))
          (filter (\<lambda>c. needsObservation (ps_query p) \<longrightarrow>
             (case find (\<lambda>q. ob_ID q = c_Observation c) (observations s) of None \<Rightarrow> False | Some q \<Rightarrow> observation_filters (ps_query p) q))
           (candidates en s p)))
      else concat (map (\<lambda>q. concat (map (\<lambda>x. map (\<lambda>t. (t, ob_Event q, ob_ID q, or_Revision x)) (event_trace s (ob_Event q)))
          (filter (\<lambda>x. or_Observation x = ob_ID q) (observation_revisions s))))
        (filter (observation_filters (ps_query p)) (observations s))))"

text \<open>The join with lineage and with the trace of the card.\<close>

definition card_join :: "Store \<Rightarrow> TraceRow \<times> int \<times> int \<times> int \<Rightarrow> CardRow list" where
  "card_join s r = (case r of (t, e, q, v) \<Rightarrow>
     concat (map (\<lambda>i. map (\<lambda>c. CardRow c t e q v) (filter (\<lambda>c. t_ID c = i) (traces s))) (session_ids s (t_ID t))))"

definition card_machine :: "Store \<Rightarrow> SearchQuery \<Rightarrow> CardRow \<Rightarrow> bool" where
  "card_machine s query r \<longleftrightarrow>
     (if needsEvents query then machine_filter s query (cr_revision r)
      else wanted (sq_Machine query) (list_ex (\<lambda>v. v_Trace v = t_ID (cr_trace r) \<and> (v_ID v, sq_Machine query) \<in> set (revision_machines s)) (revisions s)))"

definition card_filters :: "Store \<Rightarrow> SearchQuery \<Rightarrow> CardRow \<Rightarrow> bool" where
  "card_filters s query r \<longleftrightarrow>
     (needsEvents query \<or> t_ID (cr_trace r) = t_ID (cr_session r)) \<and>
     wanted (sq_Harness query) (t_Harness (cr_trace r) = sq_Harness query) \<and>
     wanted (sq_Repository query) (repository_matches s (cr_session r) (sq_Repository query)) \<and> card_machine s query r"

definition from_card_position :: "transcriptCursor \<Rightarrow> CardRow \<Rightarrow> bool" where
  "from_card_position c r \<longleftrightarrow> t_ID (cr_session r) \<le> cp_MaxID c \<and> t_ID (cr_trace r) \<le> cp_MaxID c \<and>
     (cp_ID c = 0 \<or> t_UpdatedAt (cr_session r) < cp_Updated c \<or> t_UpdatedAt (cr_session r) = cp_Updated c \<and> t_ID (cr_session r) < cp_ID c)"

text \<open>The order of the rows, of which the statement takes the reverse.\<close>

definition row_order :: "SearchQuery \<Rightarrow> CardRow \<Rightarrow> string \<times> int \<times> bool \<times> int" where
  "row_order query r = (t_UpdatedAt (cr_session r), t_ID (cr_session r), t_ID (cr_trace r) = t_ID (cr_session r),
     if needsEvents query then - cr_event r else 0)"

definition card_rows :: "Engine \<Rightarrow> Store \<Rightarrow> preparedSearch \<Rightarrow> CardRow list" where
  "card_rows en s p = filter (card_filters s (ps_query p)) (concat (map (card_join s) (card_sources en s p)))"

definition card_statement :: "Engine \<Rightarrow> Store \<Rightarrow> preparedSearch \<Rightarrow> transcriptCursor \<Rightarrow> CardRow list" where
  "card_statement en s p c = rev (sort_key (row_order (ps_query p)) (filter (from_card_position c) (card_rows en s p)))"

subsection \<open>The loop\<close>

definition matched_text :: "Store \<Rightarrow> preparedSearch \<Rightarrow> CardRow \<Rightarrow> string result" where
  "matched_text s p r =
     (if sq_Query (ps_query p) = [] then Inr []
      else found (map_option or_Text (find (\<lambda>x. or_Observation x = cr_observation r \<and> or_Revision x = cr_revision r) (observation_revisions s))))"

text \<open>The card of a row whose text matches.  A panic of the snippet is no card.\<close>

definition row_card :: "Engine \<Rightarrow> preparedSearch \<Rightarrow> CardRow \<Rightarrow> string \<Rightarrow> TranscriptCard option" where
  "row_card en p r text =
     (let item = \<lparr>tc_ID = t_ID (cr_session r), tc_Title = [], tc_Harness = [], tc_NativeTraceID = [], tc_Repository = [],
            tc_UpdatedAt = t_UpdatedAt (cr_session r), tc_MatchSnippet = [], tc_Preview = [], tc_EventCount = 0, tc_RevisionCount = 0,
            tc_MatchedChildID = (if t_ID (cr_trace r) \<noteq> t_ID (cr_session r) then t_ID (cr_trace r) else 0),
            tc_MatchedChildTitle = [], tc_MatchedEventID = 0\<rparr>
      in if sq_Query (ps_query p) = [] then Some item
         else map_option (\<lambda>sn. item\<lparr>tc_MatchedEventID := cr_event r, tc_MatchSnippet := sn\<rparr>) (search_snippet en p text))"

definition row_position :: "CardRow \<Rightarrow> transcriptCursor" where
  "row_position r = \<lparr>cp_ID = t_ID (cr_session r), cp_Updated = t_UpdatedAt (cr_session r), cp_MaxID = 0\<rparr>"

text \<open>The state of the loop: how often the clock was read, the card being read and the last one read, the last card made
  and the cards.  \<open>expired n\<close> says whether the n-th look at the clock is after the deadline; the result has the last item
  that was read, and whether the budget ran out.\<close>

fun read_cards :: "Engine \<Rightarrow> Store \<Rightarrow> preparedSearch \<Rightarrow> nat \<Rightarrow> (nat \<Rightarrow> bool) \<Rightarrow> CardRow list \<Rightarrow>
    nat \<times> transcriptCursor \<times> transcriptCursor \<times> int \<times> TranscriptCard list \<Rightarrow> (TranscriptCard list \<times> transcriptCursor \<times> bool) result" where
  "read_cards en s p limit expired [] (n, reading, past, lastID, cards) = Inr (cards, past, False)"
| "read_cards en s p limit expired (r # rows) (n, reading, past, lastID, cards) =
     (let i = t_ID (cr_session r); next_card = (i \<noteq> cp_ID reading); between = (next_card \<and> cp_ID reading \<noteq> 0);
          past = (if between then reading else past)
      in if between \<and> expired n then Inr (cards, past, True)
         else let n = (if between then n + 1 else n); reading = (if next_card then row_position r else reading)
           in if i = lastID then read_cards en s p limit expired rows (n, reading, past, lastID, cards)
              else bind_result (matched_text s p r) (\<lambda>text.
                if sq_Query (ps_query p) \<noteq> [] \<and> \<not> searchMatches en p text
                then read_cards en s p limit expired rows (n, reading, past, lastID, cards)
                else case row_card en p r text of
                    None \<Rightarrow> Inl ''runtime error: index out of range''
                  | Some item \<Rightarrow>
                      if length cards + 1 > limit then Inr (cards @ [item], past, False)
                      else read_cards en s p limit expired rows (n, reading, past, i, cards @ [item])))"

subsection \<open>The cards of a page\<close>

text \<open>SQLite's characters: a byte with those after it that continue it, up to a NUL.\<close>

function sql_characters :: "string \<Rightarrow> string list" where
  "sql_characters [] = []"
| "sql_characters (c # cs) =
     (if c = CHR 0x00 then []
      else if of_char c < (0xC0 :: nat) then [c] # sql_characters cs
      else (c # takeWhile (\<lambda>d. \<not> RuneStart d) cs) # sql_characters (dropWhile (\<lambda>d. \<not> RuneStart d) cs))"
  by pat_completeness auto
termination by (relation "measure length") (auto simp: le_imp_less_Suc length_dropWhile_le)

definition sql_substr :: "nat \<Rightarrow> nat \<Rightarrow> string \<Rightarrow> string" where
  "sql_substr start n v = concat (take n (drop (start - 1) (sql_characters v)))"

definition card_preview :: "Store \<Rightarrow> int \<Rightarrow> string" where
  "card_preview s traceID =
     (case sort_key event_key (filter (\<lambda>r. ob_Role (snd r) = ''user'' \<and> ob_Kind (snd r) = ''message'') (event_rows s traceID)) of
        [] \<Rightarrow> [] | r # _ \<Rightarrow> sql_substr 1 320 (ob_Text (snd r)))"

text \<open>The columns \<open>remote\<close> and \<open>root\<close> are never \<open>NULL\<close>, so \<open>COALESCE(repo.remote,repo.root,'')\<close> is the remote of the
  repository, and empty only without one.\<close>

definition card_details :: "Store \<Rightarrow> TranscriptCard \<Rightarrow> TranscriptCard result" where
  "card_details s item =
     bind_result (found (find (\<lambda>t. t_ID t = tc_ID item) (traces s))) (\<lambda>t.
     bind_result (if tc_MatchedChildID item = 0 then Inr (tc_MatchedChildTitle item)
        else found (map_option displayTitle (find (\<lambda>t. t_ID t = tc_MatchedChildID item) (traces s)))) (\<lambda>childTitle. Inr
       (item\<lparr>tc_Title := displayTitle t, tc_Harness := t_Harness t, tc_NativeTraceID := t_NativeTraceID t,
          tc_Repository := r_Remote (trace_repository s t),
          tc_EventCount := int (length (filter (\<lambda>e. ev_Trace e = t_ID t) (events s))),
          tc_RevisionCount := int (length (filter (\<lambda>v. v_Trace v = t_ID t) (revisions s))),
          tc_Preview := card_preview s (t_ID t), tc_MatchedChildTitle := childTitle\<rparr>)))"

definition max_trace :: "Store \<Rightarrow> int" where
  "max_trace s = foldr max (map t_ID (traces s)) 0"

definition zero_position :: transcriptCursor where
  "zero_position = \<lparr>cp_ID = 0, cp_Updated = [], cp_MaxID = 0\<rparr>"

definition card_page :: "Store \<Rightarrow> nat \<Rightarrow> int \<Rightarrow> TranscriptCard list \<times> transcriptCursor \<times> bool \<Rightarrow> CardPage result" where
  "card_page s limit maxID st =
     (case st of (cards, past, partial) \<Rightarrow>
        let more_cards = length cards > limit; shown_cards = take limit cards;
            past = (if more_cards then \<lparr>cp_ID = tc_ID (last shown_cards), cp_Updated = tc_UpdatedAt (last shown_cards), cp_MaxID = 0\<rparr> else past)
        in bind_result (map_result (card_details s) shown_cards) (\<lambda>shown_cards. Inr
          \<lparr>cg_Cards = shown_cards,
           cg_NextCursor = (if more_cards \<or> partial then encode_card_position (past\<lparr>cp_MaxID := maxID\<rparr>) else []),
           cg_Partial = partial\<rparr>))"

definition TranscriptCards :: "Engine \<Rightarrow> Store \<Rightarrow> (nat \<Rightarrow> bool) \<Rightarrow> SearchQuery \<Rightarrow> CardPage result" where
  "TranscriptCards en s expired query =
     bind_result (prepareSearch en s (query\<lparr>sq_Cursor := []\<rparr>)) (\<lambda>p.
     bind_result (card_position (max_trace s) (sq_Cursor query)) (\<lambda>c.
     bind_result (read_cards en s p (pageLimit (sq_Limit (ps_query p))) expired (card_statement en s p c) (0, zero_position, zero_position, 0, []))
       (card_page s (pageLimit (sq_Limit (ps_query p))) (cp_MaxID c))))"

end
