(* ===== verification/CardsFacts.thy ===== *)
theory CardsFacts
  imports Cards StoreFound
begin

text \<open>
  The pages of the session list: each is the next part of the sessions with a match, whether or not the budget runs out.
\<close>

subsection \<open>Cursors\<close>

definition valid_position :: "transcriptCursor \<Rightarrow> bool" where
  "valid_position c \<longleftrightarrow> 0 < cp_ID c \<and> cp_ID c \<le> cp_MaxID c \<and> cp_MaxID c < 2 ^ 63 \<and> cp_Updated c \<noteq> [] \<and> ValidString (cp_Updated c)"

lemma plain_key_position [simp]: "plain_key ''id''" "plain_key ''updated''"
  by (simp_all add: plain_key_def upper_ascii_def less_eq_char_def)

lemma card_position_canon:
  assumes "valid_position c"
  shows "decode_card_position (canon (card_position_json c)) = Some c" "wf_json (card_position_json c) \<and> depth (card_position_json c) \<le> 1"
proof -
  define j where "j = canon (card_position_json c)"
  have i: "int64 (cp_ID c)" "int64 (cp_MaxID c)" using assms by (auto simp: valid_position_def int64_def)
  have "get_field j ''id'' = jint (cp_ID c)" "get_field j ''max_id'' = jint (cp_MaxID c)"
    using i by (simp_all add: j_def card_position_json_def field_defs get_field_canon del: canon.simps(2))
  then have "dec_int j ''id'' = Some (cp_ID c)" "dec_int j ''max_id'' = Some (cp_MaxID c)" using i by (auto intro: dec_jint)
  moreover have "dec_str j ''updated'' = Some (cp_Updated c)"
    by (simp_all add: j_def card_position_json_def field_defs get_field_canon dec_str_def del: canon.simps(2))
  moreover have "is_struct j" by (simp add: j_def card_position_json_def del: canon.simps(2))
  ultimately show "decode_card_position (canon (card_position_json c)) = Some c" unfolding j_def [symmetric] by (simp add: decode_card_position_def)
  show "wf_json (card_position_json c) \<and> depth (card_position_json c) \<le> 1"
    unfolding card_position_json_def One_nat_def using i assms
    by (intro wf_fields_obj) (simp add: wf_fields_simps valid_position_def)
qed

lemma card_position_encode:
  "valid_position c \<Longrightarrow> encode_card_position c \<noteq> [] \<and> card_position maximum (encode_card_position c) = Inr c"
  using card_position_canon [of c] parse_text_encode(1) [of "card_position_json c" True]
  by (auto simp: encode_card_position_def card_position_def EncodeToString_Nil DecodeString_Encode valid_position_def max_depth_def
      card_position_json_def simp del: wf_json.simps depth.simps canon.simps)

subsection \<open>The first rows of the sessions\<close>

abbreviation row_session :: "CardRow \<Rightarrow> int" where "row_session r \<equiv> t_ID (cr_session r)"

definition session_key :: "CardRow \<Rightarrow> string \<times> int" where "session_key r = (t_UpdatedAt (cr_session r), row_session r)"

fun first_rows :: "int \<Rightarrow> CardRow list \<Rightarrow> CardRow list" where
  "first_rows x [] = []"
| "first_rows x (r # rs) = (if row_session r = x then first_rows x rs else r # first_rows (row_session r) rs)"

text \<open>Rows in the order of the statement: later cards have smaller keys, and an id names one session.\<close>

definition in_order :: "CardRow list \<Rightarrow> bool" where
  "in_order rows \<longleftrightarrow> sorted_wrt (\<lambda>a b. session_key b \<le> session_key a) rows \<and>
     (\<forall>a \<in> set rows. \<forall>b \<in> set rows. row_session a = row_session b \<longrightarrow> cr_session a = cr_session b)"

lemma in_order_Cons: "in_order (r # rows) \<Longrightarrow> in_order rows"
  by (auto simp: in_order_def)

lemma in_order_filter: "in_order rows \<Longrightarrow> in_order (filter P rows)"
  by (auto simp: in_order_def sorted_wrt_filter)

lemma in_order_append: "in_order (as @ bs) \<Longrightarrow> in_order as \<and> in_order bs"
  by (auto simp: in_order_def sorted_wrt_append)

text \<open>A session that has ended does not come again.\<close>

definition ended :: "int \<Rightarrow> CardRow list \<Rightarrow> bool" where
  "ended x rows \<longleftrightarrow> sorted_wrt (\<lambda>a b. row_session b = x \<longrightarrow> row_session a = x) rows"

lemma ended_head: "in_order (r # rows) \<Longrightarrow> ended (row_session r) rows"
proof -
  assume o: "in_order (r # rows)"
  have "row_session a = row_session r" if "a \<in> set rows" "b \<in> set rows" "session_key b \<le> session_key a" "row_session b = row_session r" for a b
  proof -
    have "session_key a \<le> session_key r" "cr_session b = cr_session r" using o that by (simp_all add: in_order_def)
    with that(3) show ?thesis by (auto simp: session_key_def)
  qed
  then have same: "row_session b = row_session r \<longrightarrow> row_session a = row_session r"
    if "a \<in> set rows" "b \<in> set rows" "session_key b \<le> session_key a" for a b using that by blast
  have "sorted_wrt (\<lambda>a b. session_key b \<le> session_key a) rows" using in_order_Cons [OF o] by (simp only: in_order_def)
  then show ?thesis unfolding ended_def by (rule sorted_wrt_mono_rel [rotated]) (rule same)
qed

lemma ended_Cons: "ended x (r # rows) \<Longrightarrow> ended x rows \<and> (row_session r \<noteq> x \<longrightarrow> (\<forall>b \<in> set rows. row_session b \<noteq> x))"
  by (auto simp: ended_def)

lemma ended_absent: "(\<And>r. r \<in> set rows \<Longrightarrow> row_session r \<noteq> x) \<Longrightarrow> ended x rows"
  by (induction rows) (auto simp: ended_def)

lemma first_rows_set: "set (first_rows x rows) \<subseteq> set rows"
  by (induction x rows rule: first_rows.induct) auto

lemma first_rows_ids: "in_order rows \<Longrightarrow> ended x rows \<Longrightarrow> row_session ` set (first_rows x rows) = row_session ` set rows - {x}"
proof (induction x rows rule: first_rows.induct)
  case (2 x r rs)
  note e = ended_Cons [OF 2(4)] and o = in_order_Cons [OF 2(3)]
  show ?case
  proof (cases "row_session r = x")
    case True
    then show ?thesis using 2(1) [OF True o] e by auto
  next
    case False
    then show ?thesis using 2(2) [OF False o ended_head [OF 2(3)]] e by auto
  qed
qed simp

lemma first_rows_sorted: "in_order rows \<Longrightarrow> ended x rows \<Longrightarrow> sorted_wrt (\<lambda>a b. session_key b < session_key a) (first_rows x rows)"
proof (induction x rows rule: first_rows.induct)
  case (2 x r rs)
  note e = ended_Cons [OF 2(4)] and o = in_order_Cons [OF 2(3)]
  show ?case
  proof (cases "row_session r = x")
    case True
    then show ?thesis using 2(1) [OF True o] e by auto
  next
    case False
    have "session_key b < session_key r" if "b \<in> set (first_rows (row_session r) rs)" for b
    proof -
      have "b \<in> set rs" using that first_rows_set by blast
      then have "session_key b \<le> session_key r" using 2(3) by (simp add: in_order_def)
      moreover have "row_session b \<noteq> row_session r" using that first_rows_ids [OF o ended_head [OF 2(3)]] by blast
      ultimately show ?thesis by (auto simp: session_key_def)
    qed
    then show ?thesis using False 2(2) [OF False o ended_head [OF 2(3)]] by auto
  qed
qed simp

lemma first_rows_distinct: "in_order rows \<Longrightarrow> ended x rows \<Longrightarrow> distinct (map row_session (first_rows x rows))"
proof (induction x rows rule: first_rows.induct)
  case (2 x r rs)
  note e = ended_Cons [OF 2(4)] and o = in_order_Cons [OF 2(3)]
  show ?case
  proof (cases "row_session r = x")
    case True
    then show ?thesis using 2(1) [OF True o] e by auto
  next
    case False
    have "row_session r \<notin> row_session ` set (first_rows (row_session r) rs)" using first_rows_ids [OF o ended_head [OF 2(3)]] by blast
    then show ?thesis using False 2(2) [OF False o ended_head [OF 2(3)]] by auto
  qed
qed simp

text \<open>A first row is the first of its session in any order that the rows are in.\<close>

lemma first_rows_best:
  "in_order rows \<Longrightarrow> ended x rows \<Longrightarrow> sorted_wrt (\<lambda>a b. f b \<le> (f a :: 'k :: linorder)) rows \<Longrightarrow> r \<in> set (first_rows x rows) \<Longrightarrow>
    q \<in> set rows \<Longrightarrow> row_session q = row_session r \<Longrightarrow> f q \<le> f r"
proof (induction x rows rule: first_rows.induct)
  case (2 x a rs)
  note e = ended_Cons [OF 2(4)] and o = in_order_Cons [OF 2(3)]
  have s: "sorted_wrt (\<lambda>a b. f b \<le> f a) rs" using 2(5) by simp
  show ?case
  proof (cases "row_session a = x")
    case True
    then have r: "r \<in> set (first_rows x rs)" using 2(6) by simp
    then have "row_session r \<noteq> x" using first_rows_ids [OF o] e by blast
    then have "q \<in> set rs" using 2(7,8) True by auto
    then show ?thesis using 2(1) [OF True o _ s r] e 2(8) by blast
  next
    case False
    consider "r = a" | "r \<in> set (first_rows (row_session a) rs)" using False 2(6) by auto
    then show ?thesis
    proof cases
      case 1
      then show ?thesis using 2(5,7) by auto
    next
      case 2: 2
      then have "row_session r \<noteq> row_session a" using first_rows_ids [OF o ended_head [OF \<open>in_order (a # rs)\<close>]] by blast
      then have "q \<in> set rs" using \<open>q \<in> set (a # rs)\<close> \<open>row_session q = row_session r\<close> by auto
      then show ?thesis
        using "2.IH"(2) [OF False o ended_head [OF \<open>in_order (a # rs)\<close>] s 2] \<open>row_session q = row_session r\<close> by blast
    qed
  qed
qed simp

lemma first_rows_absent: "(\<And>r. r \<in> set rows \<Longrightarrow> row_session r \<noteq> x \<and> row_session r \<noteq> y) \<Longrightarrow> first_rows x rows = first_rows y rows"
  by (cases rows) auto

lemma first_rows_append:
  "(\<And>b. b \<in> set bs \<Longrightarrow> row_session b \<noteq> 0 \<and> row_session b \<noteq> x \<and> row_session b \<notin> row_session ` set as) \<Longrightarrow>
    first_rows x (as @ bs) = first_rows x as @ first_rows 0 bs"
proof (induction x as rule: first_rows.induct)
  case (1 x)
  then show ?case using first_rows_absent [of bs x 0] by simp
qed auto

lemma first_rows_filter:
  "in_order rows \<Longrightarrow> ended x rows \<Longrightarrow> (\<And>a b. a \<in> set rows \<Longrightarrow> b \<in> set rows \<Longrightarrow> row_session a = row_session b \<Longrightarrow> P a = P b) \<Longrightarrow>
    first_rows x (filter P rows) = filter P (first_rows x rows)"
proof (induction x rows rule: first_rows.induct)
  case (2 x r rs)
  note e = ended_Cons [OF 2(4)] and o = in_order_Cons [OF 2(3)]
  have P: "P a = P b" if "a \<in> set rs" "b \<in> set rs" "row_session a = row_session b" for a b using that 2(5) by simp
  show ?case
  proof (cases "row_session r = x")
    case True
    have ih: "first_rows x (filter P rs) = filter P (first_rows x rs)" using 2(1) [OF True o _ P] e by blast
    then show ?thesis using True by simp
  next
    case False
    have ih: "first_rows (row_session r) (filter P rs) = filter P (first_rows (row_session r) rs)"
      using 2(2) [OF False o ended_head [OF 2(3)] P] by blast
    have "first_rows x (filter P rs) = first_rows (row_session r) (filter P rs)" if "\<not> P r"
    proof (rule first_rows_absent)
      fix b assume "b \<in> set (filter P rs)"
      then show "row_session b \<noteq> x \<and> row_session b \<noteq> row_session r" using 2(5) [of b r] that False e by auto
    qed
    then show ?thesis using False ih by auto
  qed
qed simp

subsection \<open>The loop\<close>

definition card_matches :: "Engine \<Rightarrow> Store \<Rightarrow> preparedSearch \<Rightarrow> CardRow \<Rightarrow> bool" where
  "card_matches en s p r = (case matched_text s p r of Inl _ \<Rightarrow> False | Inr v \<Rightarrow> searchMatches en p v)"

definition makes_card :: "Engine \<Rightarrow> Store \<Rightarrow> preparedSearch \<Rightarrow> CardRow \<Rightarrow> TranscriptCard \<Rightarrow> bool" where
  "makes_card en s p r c \<longleftrightarrow> (case matched_text s p r of Inl _ \<Rightarrow> False | Inr v \<Rightarrow> row_card en p r v = Some c)"

definition readable :: "Engine \<Rightarrow> Store \<Rightarrow> preparedSearch \<Rightarrow> CardRow \<Rightarrow> bool" where
  "readable en s p r \<longleftrightarrow> (\<exists>v. matched_text s p r = Inr v \<and> (searchMatches en p v \<longrightarrow> row_card en p r v \<noteq> None))"

definition read_position :: "transcriptCursor \<Rightarrow> CardRow list \<Rightarrow> transcriptCursor" where
  "read_position reading rows = (if rows = [] then reading else row_position (last rows))"

text \<open>The cards are those of the first rows that match, one more than the page holds at most; when the budget runs out, those
  of the sessions read by then, and the next row is of another session.\<close>

lemma read_cards_part:
  assumes "list_all (readable en s p) rows" "list_all (\<lambda>r. row_session r \<noteq> 0) rows" "length cards \<le> limit"
    "list_all (\<lambda>r. row_session r = cp_ID reading \<longrightarrow> row_position r = reading) rows" "in_order rows"
  shows "\<exists>new past' partial. read_cards en s p limit expired rows (n, reading, past, lastID, cards) = Inr (cards @ new, past', partial) \<and>
    (if partial
     then \<exists>as bs. rows = as @ bs \<and> bs \<noteq> [] \<and> past' = read_position reading as \<and> row_session (hd bs) \<noteq> cp_ID past' \<and> cp_ID past' \<noteq> 0 \<and>
       list_all2 (makes_card en s p) (first_rows lastID (filter (card_matches en s p) as)) new \<and> length (cards @ new) \<le> limit
     else list_all2 (makes_card en s p) (take (limit + 1 - length cards) (first_rows lastID (filter (card_matches en s p) rows))) new)"
  using assms
proof (induction rows arbitrary: n reading past lastID cards)
  case (Cons r rows)
  let ?i = "row_session r" and ?read = "read_cards en s p limit expired" and ?M = "card_matches en s p" and ?C = "makes_card en s p"
  define between where "between \<longleftrightarrow> ?i \<noteq> cp_ID reading \<and> cp_ID reading \<noteq> 0"
  define past1 where "past1 = (if between then reading else past)"
  define n1 where "n1 = (if between then n + 1 else n)"
  define reading1 where "reading1 = (if ?i \<noteq> cp_ID reading then row_position r else reading)"
  have reading1: "reading1 = row_position r" using Cons.prems(4) by (auto simp: reading1_def)
  obtain v where v: "matched_text s p r = Inr v" "searchMatches en p v \<longrightarrow> row_card en p r v \<noteq> None"
    using Cons.prems(1) by (auto simp: readable_def)
  have M: "?M r = searchMatches en p v" by (simp add: card_matches_def v)
  have empty_query: "searchMatches en p v" if "sq_Query (ps_query p) = []" using that by (simp add: searchMatches_def)
  have step: "?read (r # rows) (n, reading, past, lastID, cards) =
      (if between \<and> expired n then Inr (cards, past1, True)
       else if ?i = lastID \<or> \<not> ?M r then ?read rows (n1, reading1, past1, lastID, cards)
       else case row_card en p r v of None \<Rightarrow> Inl ''runtime error: index out of range''
         | Some c \<Rightarrow> if length cards + 1 > limit then Inr (cards @ [c], past1, False)
             else ?read rows (n1, reading1, past1, ?i, cards @ [c]))"
  proof -
    have unmatched: "(sq_Query (ps_query p) \<noteq> [] \<and> \<not> searchMatches en p v) = (\<not> ?M r)" using empty_query M by blast
    show ?thesis
      unfolding read_cards.simps Let_def between_def [symmetric] past1_def [symmetric] n1_def [symmetric] reading1_def [symmetric]
        v(1) bind_result_simps unmatched
      by simp
  qed
  have "list_all (readable en s p) rows" "list_all (\<lambda>r. row_session r \<noteq> 0) rows" using Cons.prems(1,2) by simp_all
  moreover have "list_all (\<lambda>q. row_session q = cp_ID reading1 \<longrightarrow> row_position q = reading1) rows"
    unfolding list_all_iff
  proof (intro ballI impI)
    fix q assume "q \<in> set rows" "row_session q = cp_ID reading1"
    then have "cr_session q = cr_session r"
      using Cons.prems(5) unfolding in_order_def reading1 row_position_def by (metis list.set_intros transcriptCursor.select_convs(1))
    then show "row_position q = reading1" by (simp add: reading1 row_position_def)
  qed
  ultimately have IH: "length cards' \<le> limit \<Longrightarrow> \<exists>new past' partial. ?read rows (n1, reading1, past1, last', cards') = Inr (cards' @ new, past', partial) \<and>
      (if partial
       then \<exists>as bs. rows = as @ bs \<and> bs \<noteq> [] \<and> past' = read_position reading1 as \<and> row_session (hd bs) \<noteq> cp_ID past' \<and> cp_ID past' \<noteq> 0 \<and>
         list_all2 ?C (first_rows last' (filter ?M as)) new \<and> length (cards' @ new) \<le> limit
       else list_all2 ?C (take (limit + 1 - length cards') (first_rows last' (filter ?M rows))) new)" for last' cards'
    using Cons.IH in_order_Cons [OF Cons.prems(5)] by blast
  have last_read: "read_position reading (r # as) = read_position reading1 as" for as by (simp add: read_position_def reading1)
  show ?case
  proof (cases "between \<and> expired n")
    case True
    then have "?read (r # rows) (n, reading, past, lastID, cards) = Inr (cards @ [], past1, True)" unfolding step by simp
    moreover have "past1 = read_position reading []" "row_session r \<noteq> cp_ID past1" "cp_ID past1 \<noteq> 0"
      using True by (simp_all add: past1_def between_def read_position_def)
    ultimately show ?thesis
      using Cons.prems(3) by (intro exI [of _ "[]"] exI [of _ past1] exI [of _ True] conjI) (auto intro: exI [of _ "[]"])
  next
    case go: False
    show ?thesis
    proof (cases "?i = lastID \<or> \<not> ?M r")
      case skip: True
      from IH [OF Cons.prems(3), of lastID] obtain new past' partial where
        r: "?read rows (n1, reading1, past1, lastID, cards) = Inr (cards @ new, past', partial)"
        and d: "if partial
         then \<exists>as bs. rows = as @ bs \<and> bs \<noteq> [] \<and> past' = read_position reading1 as \<and> row_session (hd bs) \<noteq> cp_ID past' \<and> cp_ID past' \<noteq> 0 \<and>
           list_all2 ?C (first_rows lastID (filter ?M as)) new \<and> length (cards @ new) \<le> limit
         else list_all2 ?C (take (limit + 1 - length cards) (first_rows lastID (filter ?M rows))) new" by blast
      have go1: "?read (r # rows) (n, reading, past, lastID, cards) = Inr (cards @ new, past', partial)"
        unfolding step using go skip r by (simp only: if_False if_True)
      have same: "first_rows lastID (filter ?M (r # as)) = first_rows lastID (filter ?M as)" for as using skip by auto
      show ?thesis
      proof (cases partial)
        case True
        with d obtain as bs where ab: "rows = as @ bs" "bs \<noteq> []" "past' = read_position reading1 as" "row_session (hd bs) \<noteq> cp_ID past'" "cp_ID past' \<noteq> 0"
            "list_all2 ?C (first_rows lastID (filter ?M as)) new" "length (cards @ new) \<le> limit" by auto
        then have "r # rows = (r # as) @ bs \<and> past' = read_position reading (r # as) \<and> list_all2 ?C (first_rows lastID (filter ?M (r # as))) new"
          unfolding same last_read by simp
        with ab(2,4,5,7) have "\<exists>as bs. r # rows = as @ bs \<and> bs \<noteq> [] \<and> past' = read_position reading as \<and> row_session (hd bs) \<noteq> cp_ID past' \<and>
            cp_ID past' \<noteq> 0 \<and> list_all2 ?C (first_rows lastID (filter ?M as)) new \<and> length (cards @ new) \<le> limit"
          by (intro exI [of _ "r # as"] exI [of _ bs]) blast
        with True go1 show ?thesis by (intro exI [of _ new] exI [of _ past'] exI [of _ partial]) (simp del: read_cards.simps)
      next
        case False
        then have "list_all2 ?C (take (limit + 1 - length cards) (first_rows lastID (filter ?M (r # rows)))) new"
          using d unfolding same by simp
        with False go1 show ?thesis by (intro exI [of _ new] exI [of _ past'] exI [of _ partial]) (simp del: read_cards.simps)
      qed
    next
      case use: False
      then obtain c where c: "row_card en p r v = Some c" using v(2) M by auto
      then have C: "?C r c" by (simp add: makes_card_def v)
      have ids: "first_rows lastID (filter ?M (r # as)) = r # first_rows ?i (filter ?M as)" for as using use by auto
      show ?thesis
      proof (cases "length cards + 1 > limit")
        case True
        then have "limit + 1 - length cards = 1" using Cons.prems(3) by simp
        then have "list_all2 ?C (take (limit + 1 - length cards) (first_rows lastID (filter ?M (r # rows)))) [c]" unfolding ids using C by simp
        moreover have "?read (r # rows) (n, reading, past, lastID, cards) = Inr (cards @ [c], past1, False)"
          unfolding step using go use c True by simp
        ultimately show ?thesis by (intro exI [of _ "[c]"] exI [of _ past1] exI [of _ False]) (simp del: read_cards.simps)
      next
        case False
        then have "length (cards @ [c]) \<le> limit" by simp
        from IH [OF this, of ?i] obtain new past' partial where
          r: "?read rows (n1, reading1, past1, ?i, cards @ [c]) = Inr ((cards @ [c]) @ new, past', partial)"
          and d: "if partial
           then \<exists>as bs. rows = as @ bs \<and> bs \<noteq> [] \<and> past' = read_position reading1 as \<and> row_session (hd bs) \<noteq> cp_ID past' \<and> cp_ID past' \<noteq> 0 \<and>
             list_all2 ?C (first_rows ?i (filter ?M as)) new \<and> length ((cards @ [c]) @ new) \<le> limit
           else list_all2 ?C (take (limit + 1 - length (cards @ [c])) (first_rows ?i (filter ?M rows))) new" by blast
        have go': "?read (r # rows) (n, reading, past, lastID, cards) = Inr (cards @ c # new, past', partial)"
          unfolding step using go use c False r by (simp only: if_False option.case append_assoc append_Cons append_Nil)
        show ?thesis
        proof (cases partial)
          case True
          with d obtain as bs where ab: "rows = as @ bs" "bs \<noteq> []" "past' = read_position reading1 as" "row_session (hd bs) \<noteq> cp_ID past'" "cp_ID past' \<noteq> 0"
              "list_all2 ?C (first_rows ?i (filter ?M as)) new" "length ((cards @ [c]) @ new) \<le> limit" by auto
          then have "r # rows = (r # as) @ bs \<and> past' = read_position reading (r # as) \<and> list_all2 ?C (first_rows lastID (filter ?M (r # as))) (c # new) \<and>
              length (cards @ c # new) \<le> limit"
            unfolding ids last_read using C by simp
          with ab(2,4,5) have "\<exists>as bs. r # rows = as @ bs \<and> bs \<noteq> [] \<and> past' = read_position reading as \<and> row_session (hd bs) \<noteq> cp_ID past' \<and>
              cp_ID past' \<noteq> 0 \<and> list_all2 ?C (first_rows lastID (filter ?M as)) (c # new) \<and> length (cards @ c # new) \<le> limit"
            by (intro exI [of _ "r # as"] exI [of _ bs]) blast
          with True go' show ?thesis by (intro exI [of _ "c # new"] exI [of _ past'] exI [of _ partial]) (simp del: read_cards.simps)
        next
          case p: False
          have "limit + 1 - length cards = Suc (limit + 1 - length (cards @ [c]))" using False by simp
          then have "list_all2 ?C (take (limit + 1 - length cards) (first_rows lastID (filter ?M (r # rows)))) (c # new)"
            using d p C unfolding ids by simp
          with p go' show ?thesis by (intro exI [of _ "c # new"] exI [of _ past'] exI [of _ partial]) (simp del: read_cards.simps)
        qed
      qed
    qed
  qed
qed (auto intro: exI [of _ False])

subsection \<open>The rows\<close>

lemma event_trace_iff: "joins_ok s \<Longrightarrow> t \<in> set (event_trace s i) \<longleftrightarrow> (\<exists>e \<in> set (events s). ev_ID e = i \<and> trace_of s e = Some t)"
proof
  assume ok: "joins_ok s" and "\<exists>e \<in> set (events s). ev_ID e = i \<and> trace_of s e = Some t"
  then obtain e where e: "e \<in> set (events s)" "ev_ID e = i" "trace_of s e = Some t" by blast
  then have "find (\<lambda>e. ev_ID e = i) (events s) = Some e" using joins_okD(1) [OF ok] by (simp add: find_unique)
  with e(3) show "t \<in> set (event_trace s i)" by (simp add: event_trace_def)
next
  assume "t \<in> set (event_trace s i)"
  then obtain e where "find (\<lambda>e. ev_ID e = i) (events s) = Some e" "trace_of s e = Some t"
    by (cases "find (\<lambda>e. ev_ID e = i) (events s)") (auto simp: event_trace_def split: option.splits)
  then show "\<exists>e \<in> set (events s). ev_ID e = i \<and> trace_of s e = Some t" by (auto dest: find_SomeD)
qed

lemma trace_of_in: "trace_of s e = Some t \<Longrightarrow> t \<in> set (traces s)"
  by (auto simp: trace_of_def dest: find_SomeD)

lemma no_observation_filter: "\<not> needsObservation query \<Longrightarrow> observation_filters query q"
  by (simp add: needsObservation_def observation_filters_def wanted_def)

text \<open>The observations a search by events looks at.\<close>

definition card_hit :: "Engine \<Rightarrow> Store \<Rightarrow> preparedSearch \<Rightarrow> Hit \<Rightarrow> bool" where
  "card_hit en s p h \<longleftrightarrow> h \<in> set (joined s) \<and> observation_filters (ps_query p) (h_observation h) \<and>
     (ps_index p = NoIndex \<or> has_candidate en s p h)"

definition hit_source :: "Hit \<Rightarrow> TraceRow \<times> int \<times> int \<times> int" where
  "hit_source h = (h_trace h, hit_event h, ob_ID (h_observation h), v_ID (h_revision h))"

lemma chunk_source:
  assumes ok: "joins_ok s" and c: "c \<in> set (candidates en s p)" and h: "h \<in> set (chunk_hits s c)"
  shows "hit_source h = (h_trace h, c_Event c, c_Observation c, c_Revision c)" "set (event_trace s (c_Event c)) = {h_trace h}"
    "(case find (\<lambda>q. ob_ID q = c_Observation c) (observations s) of None \<Rightarrow> False | Some q \<Rightarrow> observation_filters qy q) \<longleftrightarrow>
      observation_filters qy (h_observation h)"
proof -
  note chunk = in_chunk_hits [OF ok candidates_chunks [OF c]]
  have j: "h \<in> set (joined s)" "c_Observation c = ob_ID (h_observation h)" "c_Revision c = v_ID (h_revision h)" "hit_event h = c_Event c"
    using chunk(1,2) h by blast+
  then show "hit_source h = (h_trace h, c_Event c, c_Observation c, c_Revision c)" by (simp add: hit_source_def)
  have e: "h_event h \<in> set (events s)" "ev_ID (h_event h) = c_Event c" "trace_of s (h_event h) = Some (h_trace h)"
    using j by (auto simp: in_joined in_event_hits hit_event_def)
  have "t \<in> set (event_trace s (c_Event c)) \<longleftrightarrow> t = h_trace h" for t
    using e distinct_map_eq [OF joins_okD(1) [OF ok], of _ "h_event h"] unfolding event_trace_iff [OF ok] by (metis option.inject)
  then show "set (event_trace s (c_Event c)) = {h_trace h}" by blast
  have "h_observation h \<in> set (observations s)" using j by (simp add: in_joined in_event_hits)
  then have "find (\<lambda>q. ob_ID q = c_Observation c) (observations s) = Some (h_observation h)"
    using j(2) joins_okD(2) [OF ok] by (simp add: find_unique)
  then show "(case find (\<lambda>q. ob_ID q = c_Observation c) (observations s) of None \<Rightarrow> False | Some q \<Rightarrow> observation_filters qy q) \<longleftrightarrow>
      observation_filters qy (h_observation h)" by simp
qed

lemma card_sources_events:
  assumes ok: "joins_ok s" and n: "needsEvents (ps_query p)"
  shows "set (card_sources en s p) = hit_source ` {h. card_hit en s p h}"
proof (cases "ps_index p = NoIndex")
  case True
  have src: "set (card_sources en s p) = {(t, ob_Event q, ob_ID q, or_Revision x) | t q x. q \<in> set (observations s) \<and> observation_filters (ps_query p) q \<and>
      x \<in> set (observation_revisions s) \<and> or_Observation x = ob_ID q \<and> t \<in> set (event_trace s (ob_Event q))}"
    using n True by (fastforce simp: card_sources_def)
  have link: "\<exists>r \<in> set (revisions s). revision_of s (or_Revision x) = Some r \<and> v_ID r = or_Revision x" if "x \<in> set (observation_revisions s)" for x
  proof -
    have "(or_Observation x, or_Revision x) \<in> set (link_keys s)" using that by (auto simp: link_keys_def)
    moreover have "links_ok s" using ok by (simp add: joins_ok_def)
    ultimately obtain r where r: "r \<in> set (revisions s)" "v_ID r = or_Revision x" using links_okD(5) by blast
    then have "revision_of s (or_Revision x) = Some r" unfolding revision_of_def using joins_okD(3) [OF ok] by (simp add: find_unique)
    with r show ?thesis by blast
  qed
  show ?thesis
  proof
    show "set (card_sources en s p) \<subseteq> hit_source ` {h. card_hit en s p h}"
    proof
      fix a assume "a \<in> set (card_sources en s p)"
      then obtain t q x where a: "a = (t, ob_Event q, ob_ID q, or_Revision x)" "q \<in> set (observations s)" "observation_filters (ps_query p) q"
        "x \<in> set (observation_revisions s)" "or_Observation x = ob_ID q" "t \<in> set (event_trace s (ob_Event q))" unfolding src by blast
      obtain e where e: "e \<in> set (events s)" "ev_ID e = ob_Event q" "trace_of s e = Some t" using a(6) event_trace_iff [OF ok] by blast
      obtain r where r: "revision_of s (or_Revision x) = Some r" "v_ID r = or_Revision x" using link [OF a(4)] by blast
      have "card_hit en s p (Hit e t q x r)" using a e r True by (simp add: card_hit_def in_joined in_event_hits)
      moreover have "a = hit_source (Hit e t q x r)" using a e r by (simp add: hit_source_def hit_event_def)
      ultimately show "a \<in> hit_source ` {h. card_hit en s p h}" by blast
    qed
    show "hit_source ` {h. card_hit en s p h} \<subseteq> set (card_sources en s p)"
    proof
      fix a assume "a \<in> hit_source ` {h. card_hit en s p h}"
      then obtain h where h: "card_hit en s p h" "a = hit_source h" by blast
      have "v_ID (h_revision h) = or_Revision (h_link h)"
        using h(1) by (auto simp: card_hit_def in_joined in_event_hits revision_of_def dest: find_SomeD)
      then have "a = (h_trace h, ob_Event (h_observation h), ob_ID (h_observation h), or_Revision (h_link h))"
        using h by (simp add: hit_source_def hit_event_def card_hit_def in_joined in_event_hits)
      moreover have "h_trace h \<in> set (event_trace s (ob_Event (h_observation h)))"
        using h(1) event_trace_iff [OF ok] by (auto simp: card_hit_def in_joined in_event_hits)
      moreover have "h_observation h \<in> set (observations s)" "observation_filters (ps_query p) (h_observation h)"
        "h_link h \<in> set (observation_revisions s)" "or_Observation (h_link h) = ob_ID (h_observation h)"
        using h(1) by (simp_all add: card_hit_def in_joined in_event_hits)
      ultimately show "a \<in> set (card_sources en s p)" unfolding src by blast
    qed
  qed
next
  case False
  have src: "set (card_sources en s p) = {(t, c_Event c, c_Observation c, c_Revision c) | t c. c \<in> set (candidates en s p) \<and>
      (needsObservation (ps_query p) \<longrightarrow> (case find (\<lambda>q. ob_ID q = c_Observation c) (observations s) of None \<Rightarrow> False
         | Some q \<Rightarrow> observation_filters (ps_query p) q)) \<and> t \<in> set (event_trace s (c_Event c))}"
    using n False by (fastforce simp: card_sources_def)
  show ?thesis
  proof
    show "set (card_sources en s p) \<subseteq> hit_source ` {h. card_hit en s p h}"
    proof
      fix a assume "a \<in> set (card_sources en s p)"
      then obtain t c where a: "a = (t, c_Event c, c_Observation c, c_Revision c)" "c \<in> set (candidates en s p)"
        "needsObservation (ps_query p) \<longrightarrow> (case find (\<lambda>q. ob_ID q = c_Observation c) (observations s) of None \<Rightarrow> False
         | Some q \<Rightarrow> observation_filters (ps_query p) q)" "t \<in> set (event_trace s (c_Event c))" unfolding src by blast
      obtain h where h: "h \<in> set (chunk_hits s c)" using in_chunk_hits(3) [OF ok candidates_chunks [OF a(2)]] by blast
      note cs = chunk_source [OF ok a(2) h]
      have "observation_filters (ps_query p) (h_observation h)" using a(3) cs(3) no_observation_filter by blast
      then have "card_hit en s p h" using candidate_hits [OF ok] a(2) h by (auto simp: card_hit_def)
      moreover have "a = hit_source h" using a(1,4) cs(1,2) by simp
      ultimately show "a \<in> hit_source ` {h. card_hit en s p h}" by blast
    qed
    show "hit_source ` {h. card_hit en s p h} \<subseteq> set (card_sources en s p)"
    proof
      fix a assume "a \<in> hit_source ` {h. card_hit en s p h}"
      then obtain h where h: "card_hit en s p h" "a = hit_source h" by blast
      then have "has_candidate en s p h" "h \<in> set (joined s)" using False by (simp_all add: card_hit_def)
      then obtain c where c: "c \<in> set (candidates en s p)" "h \<in> set (chunk_hits s c)" using candidate_hits [OF ok] by blast
      note cs = chunk_source [OF ok c]
      show "a \<in> set (card_sources en s p)" unfolding src h(2) cs(1) using c cs(2,3) h(1) by (auto simp: card_hit_def)
    qed
  qed
qed

lemma card_rows_parts:
  assumes "joins_ok s" "r \<in> set (card_rows en s p)"
  shows "cr_session r \<in> set (traces s)" "cr_trace r \<in> set (traces s)" "row_session r = session_of s (t_ID (cr_trace r))"
    "(cr_trace r, cr_event r, cr_observation r, cr_revision r) \<in> set (card_sources en s p)" "card_filters s (ps_query p) r"
proof -
  have k: "keys_ok s" using assms(1) by (simp add: joins_ok_def)
  obtain src where src: "src \<in> set (card_sources en s p)" "r \<in> set (card_join s src)" and f: "card_filters s (ps_query p) r"
    using assms(2) by (auto simp: card_rows_def)
  obtain t e q v where t: "src = (t, e, q, v)" by (metis prod_cases4)
  then have r: "cr_session r \<in> set (traces s)" "cr_trace r = t" "row_session r \<in> set (session_ids s (t_ID t))" "cr_event r = e"
      "cr_observation r = q" "cr_revision r = v"
    using src(2) by (auto simp: card_join_def)
  then show "cr_session r \<in> set (traces s)" "row_session r = session_of s (t_ID (cr_trace r))"
    "(cr_trace r, cr_event r, cr_observation r, cr_revision r) \<in> set (card_sources en s p)" "card_filters s (ps_query p) r"
    using src(1) t f set_session_ids [OF k] by simp_all
  have "t \<in> set (traces s)"
  proof (cases "needsEvents (ps_query p)")
    case True
    then obtain h where "card_hit en s p h" "t = h_trace h" using src(1) t card_sources_events [OF assms(1)] by (auto simp: hit_source_def)
    then show ?thesis by (auto simp: card_hit_def in_joined in_event_hits intro: trace_of_in)
  qed (use src(1) t in \<open>auto simp: card_sources_def\<close>)
  then show "cr_trace r \<in> set (traces s)" using r(2) by simp
qed

lemma in_card_rows:
  assumes "joins_ok s" "(t_ID c) = session_of s (t_ID t)" "c \<in> set (traces s)" "(t, e, q, v) \<in> set (card_sources en s p)"
    "card_filters s (ps_query p) (CardRow c t e q v)"
  shows "CardRow c t e q v \<in> set (card_rows en s p)"
proof -
  have "keys_ok s" using assms(1) by (simp add: joins_ok_def)
  then have "CardRow c t e q v \<in> set (card_join s (t, e, q, v))" using assms set_session_ids by (auto simp: card_join_def)
  then show ?thesis using assms(4,5) by (auto simp: card_rows_def)
qed

end
