(* ===== verification/CardsPages.thy ===== *)
theory CardsPages
  imports CardsFacts SearchPages
begin

text \<open>
  The session list read to its end: every session with a match, once, the newest first.
\<close>

subsection \<open>Reading pages of any length\<close>

lemma map_result_iff: "map_result f xs = Inr ys \<longleftrightarrow> list_all2 (\<lambda>x y. f x = Inr y) xs ys"
  by (induction xs arbitrary: ys) (auto simp: bind_result_Inr_iff list_all2_Cons1)

lemma list_all2_last: "list_all2 P xs ys \<Longrightarrow> xs \<noteq> [] \<Longrightarrow> P (last xs) (last ys)"
  by (induction rule: list_all2_induct) auto

text \<open>A reader whose pages show the next part of what is left gets all of it, if every page leaves less.\<close>

lemma reads_parts:
  fixes left :: "'p \<Rightarrow> nat"
  assumes turn: "\<And>c p. decode c = Inr p \<Longrightarrow> fits p \<Longrightarrow> \<exists>xs c' part. turn c = Inr (xs, c') \<and> list_all2 view part xs \<and>
      (if c' = [] then part = todo p else \<exists>p'. decode c' = Inr p' \<and> fits p' \<and> todo p = part @ todo p' \<and> left p' < left p)"
  shows "decode c = Inr p \<Longrightarrow> fits p \<Longrightarrow> left p < n \<Longrightarrow> \<exists>xs. read_all turn n c = Inr xs \<and> list_all2 view (todo p) xs"
proof (induction n arbitrary: c p)
  case (Suc n)
  from turn [OF Suc.prems(1,2)] obtain xs c' part where
    t: "turn c = Inr (xs, c')" "list_all2 view part xs"
    and n: "if c' = [] then part = todo p else \<exists>p'. decode c' = Inr p' \<and> fits p' \<and> todo p = part @ todo p' \<and> left p' < left p" by blast
  show ?case
  proof (cases "c' = []")
    case False
    with n obtain p' where p': "decode c' = Inr p'" "fits p'" "todo p = part @ todo p'" "left p' < left p" by auto
    with Suc.IH [OF p'(1,2)] Suc.prems(3) obtain ys where "read_all turn n c' = Inr ys" "list_all2 view (todo p') ys" by auto
    with t p'(3) False show ?thesis by (simp add: list_all2_appendI)
  qed (use t n in simp)
qed simp

subsection \<open>The statement\<close>

text \<open>What the listing takes for granted about the rows: ids are positive, a trace has a time, and the texts are UTF-8.\<close>

definition listable :: "Store \<Rightarrow> bool" where
  "listable s \<longleftrightarrow> list_all (\<lambda>t. 0 < t_ID t \<and> t_ID t < 2 ^ 63 \<and> t_UpdatedAt t \<noteq> [] \<and> ValidString (t_UpdatedAt t)) (traces s) \<and>
     list_all (\<lambda>x. ValidString (or_Text x)) (observation_revisions s)"

lemma statement_rows: "set (card_statement en s p c) = {r \<in> set (card_rows en s p). from_card_position c r}"
  by (auto simp: card_statement_def)

lemma cards_sorted: "sorted_wrt (\<lambda>a b. row_order (ps_query p) b \<le> row_order (ps_query p) a) (card_statement en s p c)"
proof -
  have "sorted (map (row_order (ps_query p)) (sort_key (row_order (ps_query p)) (filter (from_card_position c) (card_rows en s p))))" by simp
  then show ?thesis by (simp add: card_statement_def sorted_wrt_rev sorted_wrt_map)
qed

lemma row_order_session: "row_order query b \<le> row_order query a \<Longrightarrow> session_key b \<le> session_key a"
  by (auto simp: row_order_def session_key_def less_eq_prod_def)

lemma same_session:
  assumes "joins_ok s" "a \<in> set (card_rows en s p)" "b \<in> set (card_rows en s p)" "row_session a = row_session b"
  shows "cr_session a = cr_session b"
  using distinct_map_eq [OF joins_okD(4) [OF assms(1)] card_rows_parts(1) [OF assms(1,2)] card_rows_parts(1) [OF assms(1,3)] assms(4)] .

lemma statement_in_order:
  assumes "joins_ok s"
  shows "in_order (card_statement en s p c)"
  unfolding in_order_def
proof
  show "sorted_wrt (\<lambda>a b. session_key b \<le> session_key a) (card_statement en s p c)"
    using cards_sorted by (rule sorted_wrt_mono_rel [rotated]) (rule row_order_session)
  show "\<forall>a \<in> set (card_statement en s p c). \<forall>b \<in> set (card_statement en s p c). row_session a = row_session b \<longrightarrow> cr_session a = cr_session b"
    using same_session [OF assms] unfolding statement_rows by blast
qed

lemma statement_next:
  assumes a: "a \<in> set (card_statement en s p c)" "row_session a \<noteq> 0"
  shows "card_statement en s p ((row_position a)\<lparr>cp_MaxID := cp_MaxID c\<rparr>) =
    filter (\<lambda>r. session_key r < session_key a) (card_statement en s p c)"
proof -
  have "from_card_position c a" using a(1) by (simp add: statement_rows)
  then have "from_card_position ((row_position a)\<lparr>cp_MaxID := cp_MaxID c\<rparr>) r \<longleftrightarrow> session_key r < session_key a \<and> from_card_position c r" for r
    using a(2) by (auto simp: from_card_position_def row_position_def session_key_def less_prod_def)
  then have "from_card_position ((row_position a)\<lparr>cp_MaxID := cp_MaxID c\<rparr>) = (\<lambda>r. session_key r < session_key a \<and> from_card_position c r)" by (rule ext)
  then show ?thesis by (simp add: card_statement_def rev_filter [symmetric] filter_sort conj_commute)
qed

lemma listable_row:
  assumes "joins_ok s" "listable s" "r \<in> set (card_rows en s p)"
  shows "0 < row_session r" "row_session r \<le> max_trace s" "t_UpdatedAt (cr_session r) \<noteq> []" "ValidString (t_UpdatedAt (cr_session r))" "max_trace s < 2 ^ 63"
    "0 < t_ID (cr_trace r)" "t_ID (cr_trace r) \<le> max_trace s"
proof -
  note t = card_rows_parts(1,2) [OF assms(1,3)]
  have all: "0 < t_ID t \<and> t_ID t < 2 ^ 63 \<and> t_UpdatedAt t \<noteq> [] \<and> ValidString (t_UpdatedAt t)" if "t \<in> set (traces s)" for t
    using assms(2) that by (auto simp: listable_def list_all_iff)
  show "0 < row_session r" "t_UpdatedAt (cr_session r) \<noteq> []" "ValidString (t_UpdatedAt (cr_session r))" "0 < t_ID (cr_trace r)"
    using all [OF t(1)] all [OF t(2)] by blast+
  have le: "t_ID t \<le> max_trace s" if "t \<in> set (traces s)" for t
    using next_rowid_fresh [of "t_ID t" "map t_ID (traces s)"] that by (auto simp: max_trace_def next_rowid_def)
  show "row_session r \<le> max_trace s" "t_ID (cr_trace r) \<le> max_trace s" using le t by blast+
  show "max_trace s < 2 ^ 63" unfolding max_trace_def using all by (intro foldr_max_less) (simp_all add: list_all_iff)
qed

text \<open>Without a cursor the whole list is there, with the position of a row what comes after its session.\<close>

definition whole_list :: "Store \<Rightarrow> transcriptCursor" where
  "whole_list s = \<lparr>cp_ID = 0, cp_Updated = [], cp_MaxID = max_trace s\<rparr>"

lemma whole_statement: "joins_ok s \<Longrightarrow> listable s \<Longrightarrow> set (card_statement en s p (whole_list s)) = set (card_rows en s p)"
  using listable_row(2,7) by (auto simp: statement_rows whole_list_def from_card_position_def)

subsection \<open>The cards\<close>

lemma matched_link:
  assumes ok: "joins_ok s" and h: "card_hit en s p h" and q: "sq_Query (ps_query p) \<noteq> []"
  shows "matched_text s p (CardRow c (h_trace h) (hit_event h) (ob_ID (h_observation h)) (v_ID (h_revision h))) = Inr (or_Text (h_link h))"
proof -
  have l: "h_link h \<in> set (observation_revisions s)" "or_Observation (h_link h) = ob_ID (h_observation h)"
    "revision_of s (or_Revision (h_link h)) = Some (h_revision h)"
    using h by (simp_all add: card_hit_def in_joined in_event_hits)
  have v: "v_ID (h_revision h) = or_Revision (h_link h)" using l(3) by (auto simp: revision_of_def dest: find_SomeD)
  have "distinct (link_keys s)" using ok by (simp add: joins_ok_def keys_ok_def)
  then have d: "distinct (map (\<lambda>x. (or_Observation x, or_Revision x)) (observation_revisions s))" by (simp add: link_keys_def)
  have "find (\<lambda>x. (or_Observation x, or_Revision x) = (ob_ID (h_observation h), v_ID (h_revision h))) (observation_revisions s) = Some (h_link h)"
    unfolding find_unique [OF d] using l v by simp
  then show ?thesis using q by (simp add: matched_text_def)
qed

lemma row_hit:
  assumes "joins_ok s" "r \<in> set (card_rows en s p)" "needsEvents (ps_query p)"
  obtains h where "card_hit en s p h" "r = CardRow (cr_session r) (h_trace h) (hit_event h) (ob_ID (h_observation h)) (v_ID (h_revision h))"
  using card_rows_parts(4) [OF assms(1,2)] card_sources_events [OF assms(1,3)] that
  by (cases r) (auto simp: hit_source_def)

lemma row_readable:
  assumes ok: "joins_ok s" and l: "listable s" and p: "prepareSearch en s query = Inr p" and r: "r \<in> set (card_rows en s p)"
  shows "readable en s p r"
proof (cases "sq_Query (ps_query p) = []")
  case True
  then show ?thesis by (simp add: readable_def matched_text_def row_card_def)
next
  case False
  then have "needsEvents (ps_query p)" by (simp add: needsEvents_def)
  then obtain h where h: "card_hit en s p h" "r = CardRow (cr_session r) (h_trace h) (hit_event h) (ob_ID (h_observation h)) (v_ID (h_revision h))"
    using row_hit [OF ok r] by blast
  have m: "matched_text s p r = Inr (or_Text (h_link h))" using matched_link [OF ok h(1) False] h(2) by metis
  have v: "ValidString (or_Text (h_link h))" using l h(1) by (auto simp: listable_def list_all_iff card_hit_def in_joined in_event_hits)
  have "search_snippet en p (or_Text (h_link h)) \<noteq> None" if "searchMatches en p (or_Text (h_link h))"
  proof -
    have range: "SnippetRange (or_Text (h_link h)) i j \<noteq> None" for i j using SnippetRange_cut [OF v, of i j] by (metis option.distinct(1))
    show ?thesis
    proof (cases "ps_expression p")
      case None
      then show ?thesis using range by (auto simp: search_snippet_def Snippet_def split: option.splits)
    next
      case (Some e)
      then have "en_Find en e (or_Text (h_link h)) \<noteq> None"
        using that prepared_expression [OF p Some] False by (auto simp: searchMatches_def)
      then show ?thesis using range Some by (auto simp: search_snippet_def)
    qed
  qed
  then show ?thesis using m by (auto simp: readable_def row_card_def Let_def)
qed

text \<open>A finished card, and the row it is made of.\<close>

definition shows_row :: "Engine \<Rightarrow> Store \<Rightarrow> preparedSearch \<Rightarrow> CardRow \<Rightarrow> TranscriptCard \<Rightarrow> bool" where
  "shows_row en s p r c \<longleftrightarrow> (\<exists>item. makes_card en s p r item \<and> card_details s item = Inr c)"

lemma makes_card_ids:
  "makes_card en s p r c \<Longrightarrow> tc_ID c = row_session r \<and> tc_UpdatedAt c = t_UpdatedAt (cr_session r) \<and> (tc_MatchedChildID c \<noteq> 0 \<longrightarrow> tc_MatchedChildID c = t_ID (cr_trace r))"
  by (auto simp: makes_card_def row_card_def Let_def split: sum.splits if_splits)

lemma find_trace: "t \<in> set (traces s) \<Longrightarrow> \<exists>t'. find (\<lambda>q. t_ID q = t_ID t) (traces s) = Some t'"
  by (cases "find (\<lambda>q. t_ID q = t_ID t) (traces s)") (auto simp: find_None_iff)

lemma details_there:
  assumes "joins_ok s" "r \<in> set (card_rows en s p)" "makes_card en s p r item"
  shows "\<exists>c. card_details s item = Inr c"
proof -
  note t = card_rows_parts(1,2) [OF assms(1,2)] and i = makes_card_ids [OF assms(3)]
  obtain t1 where t1: "find (\<lambda>q. t_ID q = tc_ID item) (traces s) = Some t1" using find_trace [OF t(1)] i by auto
  obtain t2 where t2: "find (\<lambda>q. t_ID q = t_ID (cr_trace r)) (traces s) = Some t2" using find_trace [OF t(2)] by auto
  show ?thesis
  proof (cases "tc_MatchedChildID item = 0")
    case True
    then show ?thesis by (simp add: card_details_def found_def t1)
  next
    case False
    then have "tc_MatchedChildID item = t_ID (cr_trace r)" using i by blast
    with False t2 show ?thesis by (simp add: card_details_def found_def t1)
  qed
qed

lemma details_ids: "card_details s item = Inr c \<Longrightarrow> tc_ID c = tc_ID item \<and> tc_UpdatedAt c = tc_UpdatedAt item"
  by (auto simp: card_details_def bind_result_Inr_iff)

lemma shows_row_key: "shows_row en s p r c \<Longrightarrow> (tc_UpdatedAt c, tc_ID c) = session_key r"
proof -
  assume "shows_row en s p r c"
  then obtain item where i: "makes_card en s p r item" "card_details s item = Inr c" by (auto simp: shows_row_def)
  show ?thesis using makes_card_ids [OF i(1)] details_ids [OF i(2)] by (simp add: session_key_def)
qed

lemma details_all:
  assumes "joins_ok s" "set part \<subseteq> set (card_rows en s p)" "list_all2 (makes_card en s p) part items"
  shows "\<exists>cards. map_result (card_details s) items = Inr cards \<and> list_all2 (shows_row en s p) part cards"
proof -
  have "\<exists>c. card_details s item = Inr c" if item: "item \<in> set items" for item
  proof -
    obtain i where i: "i < length items" "item = items ! i" using item by (auto simp: in_set_conv_nth)
    then have "makes_card en s p (part ! i) item" using list_all2_nthD2 [OF assms(3) i(1)] by simp
    moreover have "part ! i \<in> set (card_rows en s p)" using i(1) list_all2_lengthD [OF assms(3)] assms(2) by (metis nth_mem subsetD)
    ultimately show ?thesis using details_there [OF assms(1)] by blast
  qed
  then obtain cards where c: "map_result (card_details s) items = Inr cards" using map_result_all by blast
  then have "list_all2 (\<lambda>x y. card_details s x = Inr y) items cards" by (simp add: map_result_iff)
  have "shows_row en s p a c" if "makes_card en s p a b" "card_details s b = Inr c" for a b c using that unfolding shows_row_def by blast
  from list_all2_trans [OF this assms(3) \<open>list_all2 _ items cards\<close>] have "list_all2 (shows_row en s p) part cards" .
  with c show ?thesis by blast
qed

subsection \<open>A page\<close>

definition left_rows :: "Engine \<Rightarrow> Store \<Rightarrow> preparedSearch \<Rightarrow> transcriptCursor \<Rightarrow> CardRow list" where
  "left_rows en s p c = first_rows 0 (filter (card_matches en s p) (card_statement en s p c))"

definition left_sessions :: "Engine \<Rightarrow> Store \<Rightarrow> preparedSearch \<Rightarrow> transcriptCursor \<Rightarrow> nat" where
  "left_sessions en s p c = card (row_session ` set (card_statement en s p c))"

text \<open>What the position after a row leaves: nothing of its session or of one before.\<close>

lemma after_row:
  assumes ok: "joins_ok s" and l: "listable s" and a: "a \<in> set (card_statement en s p c)" and m: "cp_MaxID c = max_trace s"
  defines "c' \<equiv> (row_position a)\<lparr>cp_MaxID := cp_MaxID c\<rparr>"
  shows "valid_position c'" "cp_MaxID c' = max_trace s" "left_sessions en s p c' < left_sessions en s p c"
    "card_statement en s p c' = filter (\<lambda>r. session_key r < session_key a) (card_statement en s p c)"
proof -
  have r: "a \<in> set (card_rows en s p)" using a by (simp add: statement_rows)
  note a0 = listable_row [OF ok l r]
  show "valid_position c'" using a0(1-5) m by (simp add: valid_position_def c'_def row_position_def)
  show "cp_MaxID c' = max_trace s" using m by (simp add: c'_def)
  show st: "card_statement en s p c' = filter (\<lambda>r. session_key r < session_key a) (card_statement en s p c)"
    unfolding c'_def using statement_next [OF a] a0(1) by simp
  have "row_session a \<notin> row_session ` set (card_statement en s p c')"
  proof
    assume "row_session a \<in> row_session ` set (card_statement en s p c')"
    then obtain b where b: "b \<in> set (card_statement en s p c)" "session_key b < session_key a" "row_session b = row_session a" by (auto simp: st)
    then have "cr_session b = cr_session a" using same_session [OF ok _ r, of b] by (simp add: statement_rows)
    with b(2) show False by (simp add: session_key_def)
  qed
  moreover have "row_session a \<in> row_session ` set (card_statement en s p c)" using a by blast
  moreover have "row_session ` set (card_statement en s p c') \<subseteq> row_session ` set (card_statement en s p c)" by (auto simp: st)
  ultimately show "left_sessions en s p c' < left_sessions en s p c" unfolding left_sessions_def by (intro psubset_card_mono) auto
qed

lemma sorted_split:
  assumes "sorted_wrt (\<lambda>a b. session_key b < session_key a) (xs @ a # ys)"
  shows "filter (\<lambda>r. session_key r < session_key a) (xs @ a # ys) = ys"
proof -
  have "\<forall>x \<in> set xs. \<not> session_key x < session_key a" "\<forall>y \<in> set ys. session_key y < session_key a"
    using assms by (auto simp: sorted_wrt_append)
  then show ?thesis by simp
qed

lemma left_rows_in: "set (left_rows en s p c) \<subseteq> set (card_statement en s p c)"
  using first_rows_set by (fastforce simp: left_rows_def)

lemma statement_matching:
  assumes "joins_ok s" "listable s"
  shows "in_order (filter (card_matches en s p) (card_statement en s p c))" "ended 0 (filter (card_matches en s p) (card_statement en s p c))"
proof -
  show "in_order (filter (card_matches en s p) (card_statement en s p c))" by (rule in_order_filter [OF statement_in_order [OF assms(1)]])
  show "ended 0 (filter (card_matches en s p) (card_statement en s p c))"
  proof (rule ended_absent)
    fix r assume "r \<in> set (filter (card_matches en s p) (card_statement en s p c))"
    then have "r \<in> set (card_rows en s p)" by (simp add: statement_rows)
    from listable_row(1) [OF assms this] show "row_session r \<noteq> 0" by simp
  qed
qed

text \<open>The page that is cut at the limit.\<close>

lemma cut_cards:
  assumes ok: "joins_ok s" "listable s" and m: "cp_MaxID c = max_trace s" and k: "0 < k" "k < length (left_rows en s p c)"
  defines "a \<equiv> last (take k (left_rows en s p c))"
  shows "a \<in> set (card_statement en s p c)" "left_rows en s p c = take k (left_rows en s p c) @ left_rows en s p ((row_position a)\<lparr>cp_MaxID := cp_MaxID c\<rparr>)"
proof -
  let ?F = "left_rows en s p c"
  have a: "a \<in> set (take k ?F)" unfolding a_def using k by (intro last_in_set) auto
  then show st: "a \<in> set (card_statement en s p c)" using left_rows_in in_set_takeD by fast
  have "take k ?F \<noteq> []" using k by auto
  from append_butlast_last_id [OF this] obtain xs where xs: "xs @ [a] = take k ?F" unfolding a_def by blast
  have "?F = (xs @ [a]) @ drop k ?F" unfolding xs by simp
  then have F: "?F = xs @ a # drop k ?F" by simp
  have s: "sorted_wrt (\<lambda>a b. session_key b < session_key a) ?F"
    unfolding left_rows_def using first_rows_sorted statement_matching [OF ok] by blast
  have drop: "filter (\<lambda>r. session_key r < session_key a) ?F = drop k ?F" using sorted_split [of xs a "drop k ?F"] s F by simp
  let ?M = "filter (card_matches en s p) (card_statement en s p c)"
  have "left_rows en s p ((row_position a)\<lparr>cp_MaxID := cp_MaxID c\<rparr>) = first_rows 0 (filter (\<lambda>r. session_key r < session_key a) ?M)"
    unfolding left_rows_def after_row(4) [OF ok st m] by (simp add: conj_commute)
  also have "\<dots> = filter (\<lambda>r. session_key r < session_key a) (first_rows 0 ?M)"
  proof (rule first_rows_filter)
    show "(session_key x < session_key a) = (session_key y < session_key a)" if "x \<in> set ?M" "y \<in> set ?M" "row_session x = row_session y" for x y
    proof -
      have "x \<in> set (card_rows en s p)" "y \<in> set (card_rows en s p)" using that by (simp_all add: statement_rows)
      then have "cr_session x = cr_session y" using same_session [OF ok(1)] that(3) by blast
      then show ?thesis by (simp add: session_key_def)
    qed
  qed (use statement_matching [OF ok] in blast)+
  also have "\<dots> = drop k ?F" using drop by (simp add: left_rows_def)
  finally show "?F = take k ?F @ left_rows en s p ((row_position a)\<lparr>cp_MaxID := cp_MaxID c\<rparr>)" by simp
qed

text \<open>The page that ends because the budget ran out.\<close>

lemma partial_cards:
  assumes ok: "joins_ok s" "listable s" and m: "cp_MaxID c = max_trace s"
    and split: "card_statement en s p c = as @ bs" "as \<noteq> []" "bs \<noteq> []" "row_session (hd bs) \<noteq> row_session (last as)"
  shows "last as \<in> set (card_statement en s p c)"
    "left_rows en s p c = first_rows 0 (filter (card_matches en s p) as) @ left_rows en s p ((row_position (last as))\<lparr>cp_MaxID := cp_MaxID c\<rparr>)"
proof -
  let ?a = "last as"
  show st: "?a \<in> set (card_statement en s p c)" using split by simp
  have o: "in_order (as @ bs)" using statement_in_order [OF ok(1)] split(1) by metis
  have s: "sorted_wrt (\<lambda>a b. session_key b \<le> session_key a) (as @ bs)" using o by (simp add: in_order_def)
  obtain xs where xs: "as = xs @ [?a]" using split(2) by (metis append_butlast_last_id)
  obtain b ys where b: "bs = b # ys" using split(3) by (cases bs) auto
  have s3: "sorted_wrt (\<lambda>a b. session_key b \<le> session_key a) (xs @ [?a] @ b # ys)"
  proof -
    have "as @ bs = xs @ [?a] @ b # ys" unfolding b by (subst xs) simp
    with s show ?thesis by metis
  qed
  have up_to: "\<forall>x \<in> set as. session_key ?a \<le> session_key x" using s3 by (subst xs) (auto simp: sorted_wrt_append)
  have "session_key b \<le> session_key ?a" "\<forall>y \<in> set bs. session_key y \<le> session_key b" using s3 b by (auto simp: sorted_wrt_append)
  moreover have "session_key b \<noteq> session_key ?a" using split(4) b by (auto simp: session_key_def)
  ultimately have below: "\<forall>y \<in> set bs. session_key y < session_key ?a" by fastforce
  have "filter (\<lambda>r. session_key r < session_key ?a) (as @ bs) = bs"
    using up_to below by (auto simp: filter_empty_conv filter_id_conv not_less)
  then have next_rows: "card_statement en s p ((row_position ?a)\<lparr>cp_MaxID := cp_MaxID c\<rparr>) = bs"
    using after_row(4) [OF ok st m] split(1) by simp
  have rows: "x \<in> set (card_rows en s p)" if "x \<in> set as \<union> set bs" for x
  proof -
    have "x \<in> set (card_statement en s p c)" using that split(1) by simp
    then show ?thesis by (simp add: statement_rows)
  qed
  have "row_session y \<noteq> 0 \<and> row_session y \<notin> row_session ` set as" if y: "y \<in> set bs" for y
  proof
    show "row_session y \<noteq> 0" using listable_row(1) [OF ok rows, of y] y by auto
    show "row_session y \<notin> row_session ` set as"
    proof
      assume "row_session y \<in> row_session ` set as"
      then obtain x where x: "x \<in> set as" "row_session y = row_session x" by auto
      then have "cr_session y = cr_session x" using same_session [OF ok(1)] rows y by blast
      then have "session_key y = session_key x" by (simp add: session_key_def)
      with up_to below x y show False by (metis leD)
    qed
  qed
  then have "first_rows 0 (filter (card_matches en s p) as @ filter (card_matches en s p) bs) =
      first_rows 0 (filter (card_matches en s p) as) @ first_rows 0 (filter (card_matches en s p) bs)"
    by (intro first_rows_append) auto
  then show "left_rows en s p c = first_rows 0 (filter (card_matches en s p) as) @ left_rows en s p ((row_position ?a)\<lparr>cp_MaxID := cp_MaxID c\<rparr>)"
    by (simp add: left_rows_def next_rows split(1))
qed

lemma page_cards:
  assumes ok: "joins_ok s" "listable s" and p: "prepareSearch en s (query\<lparr>sq_Cursor := []\<rparr>) = Inr p"
    and c: "card_position (max_trace s) enc = Inr c" and m: "cp_MaxID c = max_trace s"
  shows "\<exists>page part. TranscriptCards en s expired (query\<lparr>sq_Cursor := enc\<rparr>) = Inr page \<and>
    list_all2 (shows_row en s p) part (cg_Cards page) \<and> length (cg_Cards page) \<le> pageLimit (sq_Limit query) \<and>
    (if cg_NextCursor page = [] then part = left_rows en s p c
     else \<exists>c'. card_position (max_trace s) (cg_NextCursor page) = Inr c' \<and> cp_MaxID c' = max_trace s \<and>
       left_rows en s p c = part @ left_rows en s p c' \<and> left_sessions en s p c' < left_sessions en s p c)"
proof -
  define k where "k = pageLimit (sq_Limit query)"
  define rows where "rows = card_statement en s p c"
  define F where "F = left_rows en s p c"
  have k: "0 < k" "pageLimit (sq_Limit (ps_query p)) = k" using pageLimit_bounds prepared_parts(2) [OF p] by (simp_all add: k_def)
  have in_rows: "r \<in> set (card_rows en s p)" if "r \<in> set rows" for r using that by (simp add: rows_def statement_rows)
  have 1: "list_all (readable en s p) rows" unfolding list_all_iff using row_readable [OF ok p] in_rows by blast
  have 2: "list_all (\<lambda>r. row_session r \<noteq> 0) rows" unfolding list_all_iff using listable_row(1) [OF ok] in_rows by (metis less_irrefl)
  have 3: "list_all (\<lambda>r. row_session r = cp_ID zero_position \<longrightarrow> row_position r = zero_position) rows"
    using 2 by (simp add: list_all_iff zero_position_def)
  have 4: "in_order rows" unfolding rows_def by (rule statement_in_order [OF ok(1)])
  have F: "first_rows 0 (filter (card_matches en s p) rows) = F" by (simp add: F_def left_rows_def rows_def)
  have "length ([] :: TranscriptCard list) \<le> k" by simp
  from read_cards_part [OF 1 2 this 3 4, of expired 0 zero_position 0, unfolded append_Nil list.size(3) diff_zero F] obtain new past partial where
    run: "read_cards en s p k expired rows (0, zero_position, zero_position, 0, []) = Inr (new, past, partial)"
    and out: "if partial
     then \<exists>as bs. rows = as @ bs \<and> bs \<noteq> [] \<and> past = read_position zero_position as \<and> row_session (hd bs) \<noteq> cp_ID past \<and> cp_ID past \<noteq> 0 \<and>
       list_all2 (makes_card en s p) (first_rows 0 (filter (card_matches en s p) as)) new \<and> length new \<le> k
     else list_all2 (makes_card en s p) (take (k + 1) F) new" by blast
  have go: "TranscriptCards en s expired (query\<lparr>sq_Cursor := enc\<rparr>) = card_page s k (cp_MaxID c) (new, past, partial)"
    using p c run by (simp add: TranscriptCards_def k(2) rows_def)
  have sub: "set (first_rows 0 (filter Q as)) \<subseteq> set (card_rows en s p)" if "set as \<subseteq> set rows" for as Q
    using first_rows_set [of 0 "filter Q as"] that in_rows by auto
  have F_in: "set F \<subseteq> set (card_rows en s p)" using left_rows_in in_rows unfolding F_def rows_def by fast
  show ?thesis
  proof (cases partial)
    case True
    with out obtain as bs where ab: "rows = as @ bs" "bs \<noteq> []" "past = read_position zero_position as" "row_session (hd bs) \<noteq> cp_ID past" "cp_ID past \<noteq> 0"
      "list_all2 (makes_card en s p) (first_rows 0 (filter (card_matches en s p) as)) new" "length new \<le> k" by auto
    have as: "as \<noteq> []" using ab(3,5) by (auto simp: read_position_def zero_position_def)
    then have past: "past = row_position (last as)" using ab(3) by (simp add: read_position_def)
    then have "row_session (hd bs) \<noteq> row_session (last as)" using ab(4) by (simp add: row_position_def)
    note part = partial_cards [OF ok m ab(1) [unfolded rows_def] as ab(2) this]
    note after = after_row [OF ok part(1) m]
    let ?c = "(row_position (last as))\<lparr>cp_MaxID := cp_MaxID c\<rparr>"
    obtain cards where cards: "map_result (card_details s) new = Inr cards" "list_all2 (shows_row en s p) (first_rows 0 (filter (card_matches en s p) as)) cards"
      using details_all [OF ok(1) sub ab(6)] ab(1) by auto
    have "length cards = length new" using list_all2_lengthD [OF ab(6)] list_all2_lengthD [OF cards(2)] by simp
    moreover have "card_page s k (cp_MaxID c) (new, past, partial) = Inr \<lparr>cg_Cards = cards, cg_NextCursor = encode_card_position ?c, cg_Partial = True\<rparr>"
      using ab(7) True cards(1) by (simp add: card_page_def past)
    ultimately show ?thesis
      unfolding go k_def [symmetric] using cards(2) ab(7) part(2) after(2,3) card_position_encode [OF after(1)]
      by (intro exI [of _ "\<lparr>cg_Cards = cards, cg_NextCursor = encode_card_position ?c, cg_Partial = True\<rparr>"] exI) auto
  next
    case False
    then have new: "list_all2 (makes_card en s p) (take (k + 1) F) new" using out by simp
    have len: "length new = min (k + 1) (length F)" using list_all2_lengthD [OF new] by (simp add: min.commute)
    have "list_all2 (makes_card en s p) (take k (take (k + 1) F)) (take k new)" using new by (rule list_all2_takeI)
    then have shown: "list_all2 (makes_card en s p) (take k F) (take k new)" by (simp add: min_def)
    have "set (take k F) \<subseteq> set (card_rows en s p)" using F_in set_take_subset [of k F] by blast
    from details_all [OF ok(1) this shown] obtain cards where
      cards: "map_result (card_details s) (take k new) = Inr cards" "list_all2 (shows_row en s p) (take k F) cards" by blast
    have lc: "length cards \<le> k" using list_all2_lengthD [OF cards(2)] by simp
    show ?thesis
    proof (cases "length new > k")
      case True
      then have long: "k < length F" using len by simp
      define a where "a = last (take k F)"
      note cut = cut_cards [OF ok m k(1) long [unfolded F_def], folded F_def a_def]
      note after = after_row [OF ok cut(1) m]
      let ?c = "(row_position a)\<lparr>cp_MaxID := cp_MaxID c\<rparr>"
      have "take k F \<noteq> []" "take k new \<noteq> []" using k(1) long True by auto
      then have "makes_card en s p a (last (take k new))"
        unfolding a_def using list_all2_last [OF shown] by blast
      then have pos: "\<lparr>cp_ID = tc_ID (last (take k new)), cp_Updated = tc_UpdatedAt (last (take k new)), cp_MaxID = cp_MaxID c\<rparr> = ?c"
        using makes_card_ids by (simp add: row_position_def)
      have "card_page s k (cp_MaxID c) (new, past, partial) = Inr \<lparr>cg_Cards = cards, cg_NextCursor = encode_card_position ?c, cg_Partial = False\<rparr>"
        using True False cards(1) by (simp add: card_page_def Let_def pos)
      then show ?thesis
        unfolding go k_def [symmetric] F_def [symmetric] using cards(2) lc cut(2) after(2,3) card_position_encode [OF after(1)]
        by (intro exI [of _ "\<lparr>cg_Cards = cards, cg_NextCursor = encode_card_position ?c, cg_Partial = False\<rparr>"] exI [of _ "take k F"]) auto
    next
      case all: False
      then have "take k F = F" using len by simp
      moreover have "card_page s k (cp_MaxID c) (new, past, partial) = Inr \<lparr>cg_Cards = cards, cg_NextCursor = [], cg_Partial = False\<rparr>"
        using all False cards(1) by (simp add: card_page_def Let_def)
      ultimately show ?thesis
        unfolding go k_def [symmetric] F_def [symmetric] using cards(2) lc
        by (intro exI [of _ "\<lparr>cg_Cards = cards, cg_NextCursor = [], cg_Partial = False\<rparr>"] exI [of _ F]) simp
    qed
  qed
qed

subsection \<open>What is listed\<close>

text \<open>A session is listed for an observation of one of its traces that a revision holds and that the search is for, or, when
  the search is not for events, for itself.\<close>

definition hit_wanted :: "Engine \<Rightarrow> Store \<Rightarrow> preparedSearch \<Rightarrow> TraceRow \<Rightarrow> Hit \<Rightarrow> bool" where
  "hit_wanted en s p r h \<longleftrightarrow> card_hit en s p h \<and> session_of s (t_ID (h_trace h)) = t_ID r \<and>
     wanted (sq_Harness (ps_query p)) (t_Harness (h_trace h) = sq_Harness (ps_query p)) \<and>
     wanted (sq_Repository (ps_query p)) (repository_matches s r (sq_Repository (ps_query p))) \<and>
     machine_filter s (ps_query p) (v_ID (h_revision h)) \<and> searchMatches en p (or_Text (h_link h))"

definition listed :: "Engine \<Rightarrow> Store \<Rightarrow> preparedSearch \<Rightarrow> TraceRow \<Rightarrow> bool" where
  "listed en s p r \<longleftrightarrow>
     (if needsEvents (ps_query p) then list_ex (hit_wanted en s p r) (joined s)
      else session_of s (t_ID r) = t_ID r \<and> card_filters s (ps_query p) (CardRow r r 0 0 0))"

lemma browsing_matches: "\<not> needsEvents (ps_query p) \<Longrightarrow> card_matches en s p r"
  by (simp add: needsEvents_def card_matches_def matched_text_def searchMatches_def)

lemma hit_matches:
  assumes "joins_ok s" "card_hit en s p h"
  shows "card_matches en s p (CardRow c (h_trace h) (hit_event h) (ob_ID (h_observation h)) (v_ID (h_revision h))) \<longleftrightarrow> searchMatches en p (or_Text (h_link h))"
proof (cases "sq_Query (ps_query p) = []")
  case True
  then show ?thesis by (simp add: card_matches_def matched_text_def searchMatches_def)
next
  case False
  from matched_link [OF assms False] show ?thesis by (simp add: card_matches_def)
qed

lemma listed_rows:
  assumes ok: "joins_ok s"
  shows "row_session ` {r \<in> set (card_rows en s p). card_matches en s p r} = t_ID ` {r \<in> set (traces s). listed en s p r}"
proof (cases "needsEvents (ps_query p)")
  case True
  have row: "hit_wanted en s p c h \<longleftrightarrow> card_hit en s p h \<and> t_ID c = session_of s (t_ID (h_trace h)) \<and>
      card_filters s (ps_query p) (CardRow c (h_trace h) (hit_event h) (ob_ID (h_observation h)) (v_ID (h_revision h))) \<and> searchMatches en p (or_Text (h_link h))" for c h
    using True by (auto simp: hit_wanted_def card_filters_def card_machine_def)
  show ?thesis
  proof
    show "row_session ` {r \<in> set (card_rows en s p). card_matches en s p r} \<subseteq> t_ID ` {r \<in> set (traces s). listed en s p r}"
    proof
      fix i assume "i \<in> row_session ` {r \<in> set (card_rows en s p). card_matches en s p r}"
      then obtain r where r: "r \<in> set (card_rows en s p)" "card_matches en s p r" "i = row_session r" by blast
      obtain h where h: "card_hit en s p h" "r = CardRow (cr_session r) (h_trace h) (hit_event h) (ob_ID (h_observation h)) (v_ID (h_revision h))"
        using row_hit [OF ok r(1) True] by blast
      note parts = card_rows_parts [OF ok r(1)]
      have "cr_trace r = h_trace h" by (subst h(2)) simp
      then have "hit_wanted en s p (cr_session r) h"
        unfolding row using h(1) parts(3,5) r(2) hit_matches [OF ok h(1), of "cr_session r"] unfolding h(2) [symmetric] by simp
      moreover have "h \<in> set (joined s)" using h(1) by (simp add: card_hit_def)
      ultimately have "listed en s p (cr_session r)" using True by (auto simp: listed_def list_ex_iff)
      then show "i \<in> t_ID ` {r \<in> set (traces s). listed en s p r}" using parts(1) r(3) by blast
    qed
    show "t_ID ` {r \<in> set (traces s). listed en s p r} \<subseteq> row_session ` {r \<in> set (card_rows en s p). card_matches en s p r}"
    proof
      fix i assume "i \<in> t_ID ` {r \<in> set (traces s). listed en s p r}"
      then obtain c h where c: "c \<in> set (traces s)" "i = t_ID c" "hit_wanted en s p c h" using True by (auto simp: listed_def list_ex_iff)
      let ?r = "CardRow c (h_trace h) (hit_event h) (ob_ID (h_observation h)) (v_ID (h_revision h))"
      have h: "card_hit en s p h" using c(3) by (simp add: hit_wanted_def)
      then have "hit_source h \<in> set (card_sources en s p)" using card_sources_events [OF ok True] by blast
      then have "?r \<in> set (card_rows en s p)" using c by (intro in_card_rows [OF ok]) (simp_all add: row hit_source_def)
      moreover have "card_matches en s p ?r" using c(3) hit_matches [OF ok h] by (simp add: row)
      moreover have "i = row_session ?r" using c(2) by simp
      ultimately show "i \<in> row_session ` {r \<in> set (card_rows en s p). card_matches en s p r}" by blast
    qed
  qed
next
  case False
  have src: "src \<in> set (card_sources en s p) \<longleftrightarrow> (\<exists>t \<in> set (traces s). src = (t, 0, 0, 0))" for src using False by (auto simp: card_sources_def)
  show ?thesis
  proof
    show "row_session ` {r \<in> set (card_rows en s p). card_matches en s p r} \<subseteq> t_ID ` {r \<in> set (traces s). listed en s p r}"
    proof
      fix i assume "i \<in> row_session ` {r \<in> set (card_rows en s p). card_matches en s p r}"
      then obtain r where r: "r \<in> set (card_rows en s p)" "i = row_session r" by blast
      note parts = card_rows_parts [OF ok r(1)]
      have "t_ID (cr_trace r) = row_session r" using parts(5) False by (simp add: card_filters_def)
      then have "cr_trace r = cr_session r" using distinct_map_eq [OF joins_okD(4) [OF ok] parts(2,1)] by simp
      then have "r = CardRow (cr_session r) (cr_session r) 0 0 0" using parts(4) src by (cases r) auto
      then have "listed en s p (cr_session r)" using parts(3,5) False \<open>cr_trace r = cr_session r\<close> by (simp add: listed_def)
      then show "i \<in> t_ID ` {r \<in> set (traces s). listed en s p r}" using parts(1) r(2) by blast
    qed
    show "t_ID ` {r \<in> set (traces s). listed en s p r} \<subseteq> row_session ` {r \<in> set (card_rows en s p). card_matches en s p r}"
    proof
      fix i assume "i \<in> t_ID ` {r \<in> set (traces s). listed en s p r}"
      then obtain c where c: "c \<in> set (traces s)" "i = t_ID c" "listed en s p c" by blast
      then have "CardRow c c 0 0 0 \<in> set (card_rows en s p)" using False src by (intro in_card_rows [OF ok]) (auto simp: listed_def)
      moreover have "card_matches en s p (CardRow c c 0 0 0)" by (rule browsing_matches [OF False])
      moreover have "i = row_session (CardRow c c 0 0 0)" using c(2) by simp
      ultimately show "i \<in> row_session ` {r \<in> set (card_rows en s p). card_matches en s p r}" by blast
    qed
  qed
qed

text \<open>A client that follows the cursors; the budget may run out differently on every page.\<close>

definition card_turn :: "Engine \<Rightarrow> Store \<Rightarrow> (string \<Rightarrow> nat \<Rightarrow> bool) \<Rightarrow> SearchQuery \<Rightarrow> string \<Rightarrow> (TranscriptCard list \<times> string) result" where
  "card_turn en s expired query c =
     bind_result (TranscriptCards en s (expired c) (query\<lparr>sq_Cursor := c\<rparr>)) (\<lambda>page. Inr (cg_Cards page, cg_NextCursor page))"

text \<open>The row a card is made of: it matches, and comes before every other row of the session that does.\<close>

definition best_row :: "Engine \<Rightarrow> Store \<Rightarrow> preparedSearch \<Rightarrow> TranscriptCard \<Rightarrow> bool" where
  "best_row en s p c \<longleftrightarrow> list_ex (\<lambda>r. shows_row en s p r c \<and> card_matches en s p r \<and>
     list_all (\<lambda>q. row_session q = row_session r \<and> card_matches en s p q \<longrightarrow> row_order (ps_query p) q \<le> row_order (ps_query p) r) (card_rows en s p))
     (card_rows en s p)"

lemma cards_read:
  assumes ok: "joins_ok s" "listable s" and p: "prepareSearch en s (query\<lparr>sq_Cursor := []\<rparr>) = Inr p" and n: "length (traces s) < n"
  shows "\<exists>cards. read_all (card_turn en s expired query) n [] = Inr cards \<and>
    sorted_wrt (\<lambda>c d. (tc_UpdatedAt d, tc_ID d) < (tc_UpdatedAt c, tc_ID c)) cards \<and> distinct (map tc_ID cards) \<and>
    tc_ID ` set cards = t_ID ` {r \<in> set (traces s). listed en s p r} \<and> list_all (best_row en s p) cards"
proof -
  let ?w = "whole_list s" and ?fits = "\<lambda>c. cp_MaxID c = max_trace s"
  have start: "card_position (max_trace s) [] = Inr ?w" "?fits ?w" by (simp_all add: card_position_def whole_list_def)
  have "row_session ` set (card_statement en s p ?w) \<subseteq> t_ID ` set (traces s)"
    using card_rows_parts(1) [OF ok(1)] by (auto simp: statement_rows)
  then have "left_sessions en s p ?w \<le> card (t_ID ` set (traces s))" unfolding left_sessions_def by (rule card_mono [rotated]) simp
  also have "\<dots> \<le> length (traces s)" using card_image_le [of "set (traces s)" t_ID] card_length [of "traces s"] by simp
  finally have fuel: "left_sessions en s p ?w < n" using n by simp
  have turn: "\<exists>xs c' part. card_turn en s expired query c = Inr (xs, c') \<and> list_all2 (shows_row en s p) part xs \<and>
      (if c' = [] then part = left_rows en s p q
       else \<exists>q'. card_position (max_trace s) c' = Inr q' \<and> ?fits q' \<and> left_rows en s p q = part @ left_rows en s p q' \<and> left_sessions en s p q' < left_sessions en s p q)"
    if "card_position (max_trace s) c = Inr q" "?fits q" for c q
  proof -
    from page_cards [OF ok p that, of "expired c"] obtain page part where
      "TranscriptCards en s (expired c) (query\<lparr>sq_Cursor := c\<rparr>) = Inr page" "list_all2 (shows_row en s p) part (cg_Cards page)"
      "if cg_NextCursor page = [] then part = left_rows en s p q
       else \<exists>c'. card_position (max_trace s) (cg_NextCursor page) = Inr c' \<and> cp_MaxID c' = max_trace s \<and>
         left_rows en s p q = part @ left_rows en s p c' \<and> left_sessions en s p c' < left_sessions en s p q" by blast
    then show ?thesis by (intro exI [of _ "cg_Cards page"] exI [of _ "cg_NextCursor page"] exI [of _ part]) (simp add: card_turn_def)
  qed
  from reads_parts [of "card_position (max_trace s)" ?fits "card_turn en s expired query" "shows_row en s p" "left_rows en s p" "left_sessions en s p",
      OF turn start fuel] obtain cards where
    cards: "read_all (card_turn en s expired query) n [] = Inr cards" "list_all2 (shows_row en s p) (left_rows en s p ?w) cards" by blast
  let ?M = "filter (card_matches en s p) (card_statement en s p ?w)"
  note M = statement_matching [OF ok, of en p ?w]
  have set_M: "set ?M = {r \<in> set (card_rows en s p). card_matches en s p r}" using whole_statement [OF ok] by auto
  have keys: "map (\<lambda>c. (tc_UpdatedAt c, tc_ID c)) cards = map session_key (left_rows en s p ?w)"
    using cards(2) by (induction rule: list_all2_induct) (auto simp: shows_row_key)
  have "sorted_wrt (\<lambda>a b. session_key b < session_key a) (left_rows en s p ?w)" unfolding left_rows_def by (rule first_rows_sorted [OF M])
  then have "sorted_wrt (\<lambda>x y. y < x) (map (\<lambda>c. (tc_UpdatedAt c, tc_ID c)) cards)" unfolding keys by (simp add: sorted_wrt_map)
  then have sorted: "sorted_wrt (\<lambda>c d. (tc_UpdatedAt d, tc_ID d) < (tc_UpdatedAt c, tc_ID c)) cards" by (simp add: sorted_wrt_map)
  have same_ids: "map tc_ID cards = map row_session (left_rows en s p ?w)"
    using arg_cong [OF keys, of "map snd"] by (simp add: session_key_def comp_def)
  have distinct: "distinct (map tc_ID cards)" unfolding same_ids left_rows_def by (rule first_rows_distinct [OF M])
  from same_ids have "tc_ID ` set cards = row_session ` set (left_rows en s p ?w)" by (metis list.set_map)
  also have "\<dots> = row_session ` set ?M - {0}" unfolding left_rows_def by (rule first_rows_ids [OF M])
  also have "\<dots> = row_session ` set ?M" using listable_row(1) [OF ok] unfolding set_M by fastforce
  also have "\<dots> = t_ID ` {r \<in> set (traces s). listed en s p r}" unfolding set_M by (rule listed_rows [OF ok(1)])
  finally have ids: "tc_ID ` set cards = t_ID ` {r \<in> set (traces s). listed en s p r}" .
  have "best_row en s p c" if c: "c \<in> set cards" for c
  proof -
    obtain i where i: "i < length cards" "c = cards ! i" using c by (auto simp: in_set_conv_nth)
    define r where "r = left_rows en s p ?w ! i"
    have r: "shows_row en s p r c" "r \<in> set (first_rows 0 ?M)"
      using list_all2_nthD2 [OF cards(2) i(1)] i list_all2_lengthD [OF cards(2)] unfolding r_def left_rows_def by simp_all
    then have in_M: "r \<in> set ?M" using first_rows_set by blast
    have "sorted_wrt (\<lambda>a b. row_order (ps_query p) b \<le> row_order (ps_query p) a) ?M" by (rule sorted_wrt_filter [OF cards_sorted])
    from first_rows_best [OF M this r(2)] have "list_all (\<lambda>q. row_session q = row_session r \<and> card_matches en s p q \<longrightarrow>
        row_order (ps_query p) q \<le> row_order (ps_query p) r) (card_rows en s p)" unfolding list_all_iff set_M by blast
    with r(1) in_M show ?thesis unfolding best_row_def list_ex_iff set_M by blast
  qed
  then have "list_all (best_row en s p) cards" by (simp add: list_all_iff)
  with cards(1) sorted distinct ids show ?thesis by blast
qed

text \<open>C39. The session list is complete, in order and without repeats.  A client that follows the cursors, whatever the budget
  leaves of each page, gets one card for each session the search is for and no other, latest first; more pages than traces
  are never needed.  A card is made of a row that matches, in front of every other one of its session: a match in the trace
  itself first, then the earliest event.  The session of a trace is the top of its chain of collected parents, or the trace
  itself when the chain has no top because it is a loop.  Keys and foreign keys are in order, as in every reachable store; ids
  are positive 64-bit numbers, update times not empty, and texts valid UTF-8.\<close>

theorem Cards_listed:
  assumes "joins_ok s" "listable s" "prepareSearch en s (query\<lparr>sq_Cursor := []\<rparr>) = Inr p" "length (traces s) < n"
  shows "(\<exists>cards. read_all (card_turn en s expired query) n [] = Inr cards \<and>
      sorted_wrt (\<lambda>c d. (tc_UpdatedAt d, tc_ID d) < (tc_UpdatedAt c, tc_ID c)) cards \<and> distinct (map tc_ID cards) \<and>
      tc_ID ` set cards = t_ID ` {r \<in> set (traces s). listed en s p r} \<and> list_all (best_row en s p) cards) \<and>
    list_all (\<lambda>t. (\<forall>a. top_ancestor s t a \<longrightarrow> session_of s (t_ID t) = t_ID a) \<and>
      ((\<nexists>a. top_ancestor s t a) \<longrightarrow> session_of s (t_ID t) = t_ID t)) (traces s)"
  using cards_read [OF assms] session_is_top [of s] assms(1) by (simp add: list_all_iff joins_ok_def)

text \<open>A store with a session, a trace it started, in which a model spoke, and a session of another harness.\<close>

definition session_trace_row :: "int \<Rightarrow> string \<Rightarrow> string \<Rightarrow> string \<Rightarrow> TraceRow" where
  "session_trace_row i harness native parent = \<lparr>t_ID = i, t_Harness = harness, t_NativeTraceID = native, t_Title = [], t_WorkingDirectory = [],
     t_Repository = None, t_ParentNativeTraceID = parent, t_CreatedAt = [], t_UpdatedAt = ''2026-01-02T10:00:00Z'', t_TitleOverride = [],
     t_GeneratedTitle = [], t_GeneratedRevision = 0\<rparr>"

definition session_observation :: "int \<Rightarrow> string \<Rightarrow> string \<Rightarrow> ObservationRow" where
  "session_observation i model time = \<lparr>ob_ID = i, ob_Event = i, ob_Digest = [], ob_ParentKey = [], ob_Branch = [], ob_Kind = ''message'',
     ob_Role = ''user'', ob_Model = model, ob_Provider = [], ob_Tool = [], ob_CallID = [], ob_Time = time, ob_Text = ''hello'', ob_JSON = ''{}''\<rparr>"

definition session_store :: Store where
  "session_store = empty_store\<lparr>
     traces := [session_trace_row 1 ''pi'' ''p'' [], session_trace_row 2 ''pi'' ''c'' ''p'', session_trace_row 3 ''amp'' ''o'' []],
     revisions := map (\<lambda>(i, t). \<lparr>v_ID = i, v_Trace = t, v_Digest = ''d'', v_NativeUpdatedAt = [], v_CollectedAt = [], v_Adapter = [],
       v_Status = ''normalized'', v_Version = 1\<rparr>) [(1, 2), (2, 3)],
     events := map (\<lambda>(i, t). \<lparr>ev_ID = i, ev_Trace = t, ev_Key = ''k'', ev_SortTime = [], ev_SortKey = [], ev_Preferred = Some i\<rparr>) [(1, 2), (2, 3)],
     observations := [session_observation 1 ''m'' ''2026-01-02T10:20:00Z'', session_observation 2 [] ''2026-01-02T11:50:00Z''],
     observation_revisions := map (\<lambda>i. \<lparr>or_Observation = i, or_Revision = i, or_Text = ''hello''\<rparr>) [1, 2], eventSeq := 2\<rparr>"

lemma session_joins: "joins_ok session_store"
  by (simp add: joins_ok_def keys_ok_def links_ok_def link_keys_def session_store_def empty_store_def session_trace_row_def session_observation_def)

lemma session_listable: "listable session_store"
  by (simp add: listable_def session_store_def empty_store_def session_trace_row_def) (auto intro!: ascii_ValidString)

lemma session_sessions: "map (session_of session_store) [1, 2, 3] = [1, 1, 3]"
  by code_simp

lemma session_hits:
  "map (\<lambda>h. (session_of session_store (t_ID (h_trace h)), ob_Model (h_observation h), ob_Time (h_observation h))) (joined session_store) =
    [(1, ''m'', ''2026-01-02T10:20:00Z''), (3, [], ''2026-01-02T11:50:00Z'')]"
  by code_simp

theorem Cards_listed_witness:
  "\<exists>cards. read_all (card_turn no_engine session_store (\<lambda>_ _. False) (any_query\<lparr>sq_Model := ''m''\<rparr>)) 4 [] = Inr cards \<and> map tc_ID cards = [1]"
proof -
  let ?q = "any_query\<lparr>sq_Model := ''m''\<rparr>"
  obtain p where p: "prepareSearch no_engine session_store (?q\<lparr>sq_Cursor := []\<rparr>) = Inr p" "ps_query p = ?q" "ps_index p = NoIndex"
    by (simp add: prepareSearch_def any_query_def search_mode_def searchDate_def compile_query_def decodeCursor_def use_index_def
      search_index_def no_engine_def Let_def)
  have size: "length (traces session_store) < 4" by (simp add: session_store_def)
  let ?hits = "map (\<lambda>h. (session_of session_store (t_ID (h_trace h)), ob_Model (h_observation h), ob_Time (h_observation h))) (joined session_store)"
  have ev: "needsEvents ?q" by (simp add: needsEvents_def needsObservation_def any_query_def)
  have hit: "hit_wanted no_engine session_store p r h \<longleftrightarrow>
      h \<in> set (joined session_store) \<and> ob_Model (h_observation h) = ''m'' \<and> session_of session_store (t_ID (h_trace h)) = t_ID r" for r h
    by (simp add: hit_wanted_def card_hit_def p observation_filters_def wanted_def machine_filter_def searchMatches_def any_query_def)
  have "listed no_engine session_store p r \<longleftrightarrow> list_ex (\<lambda>(i, m, _). m = ''m'' \<and> i = t_ID r) ?hits" for r
    unfolding listed_def p(2) if_P [OF ev] hit list_ex_iff by (simp del: list.map)
  then have listed: "listed no_engine session_store p r \<longleftrightarrow> t_ID r = 1" for r unfolding session_hits by auto
  have "t_ID ` {r \<in> set (traces session_store). listed no_engine session_store p r} = {1}"
  proof -
    have "map t_ID (traces session_store) = [1, 2, 3]" by (simp add: session_store_def session_trace_row_def)
    then have "t_ID ` set (traces session_store) = {1, 2, 3}" by (metis list.set_map list.simps(15) list.set(1))
    moreover have "t_ID ` {r \<in> set (traces session_store). t_ID r = 1} = {i \<in> t_ID ` set (traces session_store). i = 1}" by blast
    ultimately show ?thesis unfolding listed by auto
  qed
  with conjunct1 [OF Cards_listed [OF session_joins session_listable p(1) size, of "\<lambda>_ _. False"]] obtain cards where
    read: "read_all (card_turn no_engine session_store (\<lambda>_ _. False) ?q) 4 [] = Inr cards" and
    ids: "distinct (map tc_ID cards)" "tc_ID ` set cards = {1}"
    by (elim exE conjE) (simp only:)
  from ids have "map tc_ID cards = [1]" by (cases cards) (auto simp: subset_singleton_iff)
  with read show ?thesis by (intro exI [of _ cards] conjI)
qed

end
