(* ===== verification/Activity.thy ===== *)
theory Activity
  imports CardsPages
begin

text \<open>
  The counts of the home page, \<open>internal/store/activity.go\<close>: sessions in a range of times by harness, model and day.  A Go map
  of sets is an association list of lists without repetition; the local date of an instant is a parameter.
\<close>

record ActivityCount =
  ac_Name :: string
  ac_Sessions :: int

record ActivityDay =
  ay_Date :: string
  ay_Sessions :: int

record Activity =
  av_Sessions :: int
  av_Harnesses :: "ActivityCount list"
  av_Models :: "ActivityCount list"
  av_WithoutModel :: int
  av_Days :: "ActivityDay list"

subsection \<open>Slots\<close>

text \<open>\<open>CAST(v AS INTEGER)\<close>: after spaces and a sign, the digits there are.  Division of SQLite rounds towards zero.\<close>

definition cast_integer :: "string \<Rightarrow> int" where
  "cast_integer v0 =
     (let v = dropWhile (\<lambda>c. c \<in> {CHR '' '', CHR 0x09, CHR 0x0A, CHR 0x0B, CHR 0x0C, CHR 0x0D}) v0
      in case v of
           c # r \<Rightarrow> (if c = CHR ''-'' then - int (digits_value (takeWhile is_digit r))
                     else if c = CHR ''+'' then int (digits_value (takeWhile is_digit r))
                     else int (digits_value (takeWhile is_digit v)))
         | [] \<Rightarrow> 0)"

definition quarter :: "int \<Rightarrow> int" where
  "quarter n = sgn n * (\<bar>n\<bar> div 15 * 15)"

text \<open>Two characters are a number over -10, so the quarter is never negative.\<close>

definition time_slot :: "string \<Rightarrow> string" where
  "time_slot t = sql_substr 1 14 t @ two (nat (quarter (cast_integer (sql_substr 15 2 t))))"

text \<open>\<open>time.Parse("2006-01-02T15:04", slot)\<close>\<close>

definition parse_slot :: "string \<Rightarrow> datetime option" where
  "parse_slot v =
     Option.bind (parse_date v) (\<lambda>((y, mo, d), r).
     Option.bind (expect (CHR ''T'') r) (\<lambda>r.
     Option.bind (getnum False r) (\<lambda>(h, r).
     Option.bind (expect (CHR '':'') r) (\<lambda>r.
     Option.bind (getnum True r) (\<lambda>(mi, r).
       if h < 24 \<and> mi < 60 \<and> r = []
       then Some \<lparr>year = y, month = mo, day = d, hour = h, minute = mi, second = 0, nanos = 0\<rparr> else None)))))"

subsection \<open>Groups of sessions\<close>

type_synonym groups = "(string \<times> int list) list"

definition addSession :: "string \<Rightarrow> int \<Rightarrow> groups \<Rightarrow> groups" where
  "addSession name session g =
     alist_put name (List.insert session (case map_of g name of None \<Rightarrow> [] | Some xs \<Rightarrow> xs)) g"

definition countSessions :: "groups \<Rightarrow> ActivityCount list" where
  "countSessions g = sort_key (\<lambda>c. (- ac_Sessions c, ac_Name c))
     (map (\<lambda>(name, xs). \<lparr>ac_Name = name, ac_Sessions = int (length xs)\<rparr>) g)"

definition countDays :: "groups \<Rightarrow> ActivityDay list" where
  "countDays g = sort_key ay_Date (map (\<lambda>(date, xs). \<lparr>ay_Date = date, ay_Sessions = int (length xs)\<rparr>) g)"

subsection \<open>Counting\<close>

text \<open>The rows of the first query, and the maps made of them.\<close>

definition trace_sessions :: "Store \<Rightarrow> (int \<times> int \<times> string) list" where
  "trace_sessions s = concat (map (\<lambda>t. map (\<lambda>i. (t_ID t, i, t_Harness t)) (session_ids s (t_ID t))) (traces s))"

definition session_map :: "Store \<Rightarrow> (int \<times> int) list" where
  "session_map s = fold (\<lambda>(t, i, _). alist_put t i) (trace_sessions s) []"

definition harness_map :: "Store \<Rightarrow> (int \<times> string) list" where
  "harness_map s = fold (\<lambda>(t, i, h). alist_put i h) (filter (\<lambda>(t, i, h). t = i) (trace_sessions s)) []"

text \<open>A key that is not in a map stands for the zero value.\<close>

definition or_zero :: "'v \<Rightarrow> ('k \<times> 'v) list \<Rightarrow> 'k \<Rightarrow> 'v" where
  "or_zero z m k = (case map_of m k of None \<Rightarrow> z | Some v \<Rightarrow> v)"

text \<open>The rows of the second query.\<close>

definition activity_rows :: "Store \<Rightarrow> string \<Rightarrow> string \<Rightarrow> (int \<times> string \<times> string) list" where
  "activity_rows s after before =
     remdups (List.map_filter (\<lambda>q. map_option (\<lambda>e. (ev_Trace e, ob_Model q, time_slot (ob_Time q))) (find (\<lambda>e. ev_ID e = ob_Event q) (events s)))
       (filter (\<lambda>q. wanted after (after \<le> ob_Time q) \<and> wanted before (ob_Time q \<le> before)) (observations s)))"

text \<open>What one row adds to the active sessions, those with a model, the models and the days.\<close>

definition count_row :: "(datetime \<Rightarrow> string) \<Rightarrow> (int \<times> int) list \<Rightarrow> int \<times> string \<times> string \<Rightarrow>
    int list \<times> int list \<times> groups \<times> groups \<Rightarrow> int list \<times> int list \<times> groups \<times> groups" where
  "count_row local_date sessionOf row st = (case (row, st) of ((trace, model, slot), (active, withModel, models, days)) \<Rightarrow>
     let session = or_zero 0 sessionOf trace
     in (List.insert session active,
         if model \<noteq> [] then List.insert session withModel else withModel,
         if model \<noteq> [] then addSession model session models else models,
         case parse_slot slot of None \<Rightarrow> days | Some start \<Rightarrow> addSession (local_date start) session days))"

definition getActivity :: "Store \<Rightarrow> (datetime \<Rightarrow> string) \<Rightarrow> string \<Rightarrow> string \<Rightarrow> Activity result" where
  "getActivity s local_date after0 before0 =
     (case searchDate after0 False of
        None \<Rightarrow> Inl (invalid_query ''after must be YYYY-MM-DD or an RFC 3339 timestamp'')
      | Some after \<Rightarrow> (case searchDate before0 True of
          None \<Rightarrow> Inl (invalid_query ''before must be YYYY-MM-DD or an RFC 3339 timestamp'')
        | Some before \<Rightarrow>
            let (active, withModel, models, days) = fold (count_row local_date (session_map s)) (activity_rows s after before) ([], [], [], []);
                active = (if after = [] \<and> before = [] then fold (\<lambda>(i, _). List.insert i) (harness_map s) active else active);
                harnesses = fold (\<lambda>i. addSession (or_zero [] (harness_map s) i) i) active []
            in Inr \<lparr>av_Sessions = int (length active), av_Harnesses = countSessions harnesses, av_Models = countSessions models,
                av_WithoutModel = int (length active) - int (length withModel), av_Days = countDays days\<rparr>))"

subsection \<open>What the groups hold\<close>

definition group :: "groups \<Rightarrow> string \<Rightarrow> int set" where
  "group g name = (case map_of g name of None \<Rightarrow> {} | Some xs \<Rightarrow> set xs)"

definition groups_ok :: "groups \<Rightarrow> bool" where
  "groups_ok g \<longleftrightarrow> distinct (map fst g) \<and> list_all (\<lambda>(_, xs). distinct xs \<and> xs \<noteq> []) g"

lemma groups_ok_member: "groups_ok g \<Longrightarrow> (name, xs) \<in> set g \<Longrightarrow> map_of g name = Some xs \<and> distinct xs \<and> xs \<noteq> []"
  by (auto simp: groups_ok_def list_all_iff)

lemma groups_okI:
  "distinct (map fst g) \<Longrightarrow> (\<And>name xs. map_of g name = Some xs \<Longrightarrow> distinct xs \<and> xs \<noteq> []) \<Longrightarrow> groups_ok g"
  by (auto simp: groups_ok_def list_all_iff)

lemma addSession_ok: "groups_ok g \<Longrightarrow> groups_ok (addSession name i g)"
proof (rule groups_okI)
  assume ok: "groups_ok g"
  then show "distinct (map fst (addSession name i g))" by (simp add: addSession_def groups_ok_def distinct_alist_put)
  show "distinct xs \<and> xs \<noteq> []" if "map_of (addSession name i g) m = Some xs" for m xs
    using that ok groups_ok_member [OF ok map_of_SomeD]
    by (auto simp: addSession_def List.insert_def split: if_splits option.splits)
qed

lemma group_addSession: "group (addSession name i g) m = group g m \<union> (if m = name then {i} else {})"
  by (auto simp: group_def addSession_def split: option.split)

lemma fold_groups:
  "groups_ok g \<Longrightarrow> groups_ok (fold (\<lambda>x. addSession (f x) (k x)) xs g) \<and>
    group (fold (\<lambda>x. addSession (f x) (k x)) xs g) m = group g m \<union> k ` {x \<in> set xs. f x = m}"
  by (induction xs arbitrary: g) (auto simp: addSession_ok group_addSession)

text \<open>A count names a group that is not empty, with its size.\<close>

lemma in_countSessions:
  assumes "groups_ok g"
  shows "c \<in> set (countSessions g) \<longleftrightarrow> group g (ac_Name c) \<noteq> {} \<and> ac_Sessions c = int (card (group g (ac_Name c)))"
proof -
  have eq: "c = \<lparr>ac_Name = m, ac_Sessions = k\<rparr> \<longleftrightarrow> ac_Name c = m \<and> ac_Sessions c = k" for m k by (cases c) auto
  have "c \<in> set (countSessions g) \<longleftrightarrow> (\<exists>u \<in> set g. c = \<lparr>ac_Name = fst u, ac_Sessions = int (length (snd u))\<rparr>)"
    by (simp add: countSessions_def image_iff split_beta)
  also have "\<dots> \<longleftrightarrow> (\<exists>xs. (ac_Name c, xs) \<in> set g \<and> ac_Sessions c = int (length xs))" unfolding eq by force
  also have "\<dots> \<longleftrightarrow> group g (ac_Name c) \<noteq> {} \<and> ac_Sessions c = int (card (group g (ac_Name c)))"
  proof (cases "map_of g (ac_Name c)")
    case None
    then have "(ac_Name c, xs) \<notin> set g" for xs using groups_ok_member [OF assms, of "ac_Name c" xs] by auto
    with None show ?thesis by (simp add: group_def)
  next
    case (Some ys)
    have "(ac_Name c, xs) \<in> set g \<longleftrightarrow> xs = ys" for xs
      using groups_ok_member [OF assms, of "ac_Name c" xs] map_of_SomeD [OF Some] Some by auto
    moreover have "distinct ys" "ys \<noteq> []" using groups_ok_member [OF assms map_of_SomeD [OF Some]] by blast+
    ultimately show ?thesis using Some by (simp add: group_def distinct_card)
  qed
  finally show ?thesis .
qed

lemma sum_countSessions:
  assumes "groups_ok g"
  shows "sum_list (map ac_Sessions (countSessions g)) = (\<Sum>name \<in> {name. group g name \<noteq> {}}. int (card (group g name)))"
proof -
  have m: "mset (map ac_Sessions (countSessions g)) = mset (map (\<lambda>(name, xs). int (length xs)) g)"
    by (simp only: countSessions_def mset_map mset_sort) (auto simp: image_mset.compositionality comp_def intro!: image_mset_cong)
  have "sum_list (map ac_Sessions (countSessions g)) = sum_list (map (\<lambda>(name, xs). int (length xs)) g)"
    using m by (metis sum_mset_sum_list)
  also have "\<dots> = sum_list (map (\<lambda>name. int (card (group g name))) (map fst g))"
    using groups_ok_member [OF assms] by (intro arg_cong [of _ _ sum_list]) (auto simp: group_def distinct_card)
  also have "\<dots> = (\<Sum>name \<in> set (map fst g). int (card (group g name)))"
    using assms by (intro sum_list_distinct_conv_sum_set) (simp add: groups_ok_def)
  also have "set (map fst g) = {name. group g name \<noteq> {}}"
    using groups_ok_member [OF assms] by (force simp: group_def split: option.splits dest: map_of_SomeD)
  finally show ?thesis .
qed

end
