(* ===== verification/ActivityFacts.thy ===== *)
theory ActivityFacts
  imports Activity
begin

text \<open>
  The counts of the home page agree with the session list a row of them filters to.
\<close>

subsection \<open>The maps\<close>










subsection \<open>The rows\<close>




subsection \<open>The fold over the rows\<close>



subsection \<open>The list of a range\<close>









subsection \<open>The counts\<close>







subsection \<open>The counts and the list\<close>








lemma names_of_groups: "groups_ok g \<Longrightarrow> n \<in> ac_Name ` set (countSessions g) \<longleftrightarrow> group g n \<noteq> {}"
proof -
  assume g: "groups_ok g"
  have "\<lparr>ac_Name = n, ac_Sessions = int (card (group g n))\<rparr> \<in> set (countSessions g)" if "group g n \<noteq> {}"
    using in_countSessions [OF g, of "\<lparr>ac_Name = n, ac_Sessions = int (card (group g n))\<rparr>"] that by simp
  then have "n \<in> ac_Name ` set (countSessions g)" if "group g n \<noteq> {}" using that by (metis ActivityCount.select_convs(1) imageI)
  then show ?thesis using in_countSessions [OF g] by auto
qed











end
