(* ===== verification/Spec2Isabelle.thy ===== *)
theory Spec2Isabelle
  imports ArchiveWitness ZipExact NormalizeFacts PiFacts StoreRenormalize SearchPages UploadWitness TranscriptStale LogPages Auth CollectWitness
    ActivityFacts
begin

text \<open>
  A verification development for Traicr, a private archive of AI coding traces.

  \<^bold>\<open>The program.\<close>  A collector runs on every source machine, gathers the sessions ("traces") of several coding harnesses, writes the new ones
  to Trace ZIPs and uploads them.  A server checks a ZIP, stores its source files by digest, turns the native records of each trace
  into common events with the normalizer of its harness, keeps the events of all revisions of a trace in SQLite, and lets them be
  read, searched, renamed, deleted and normalized again.  The development follows a trace through the program:

  \<^item> \<^bold>\<open>Collecting\<close> (\<open>internal/collector/collector.go\<close>): \<open>Collect\<close>, \<open>CollectFacts\<close>, \<open>CollectWitness\<close>.  Gathering keeps
    exactly the traces whose revision the server has not acknowledged, and leaving sources out by their stamps does not
    show; two sources of one trace make the collector send it for ever.
  \<^item> \<^bold>\<open>Archives\<close> (\<open>internal/archive\<close>): \<open>Archive\<close> (describing, revision digests, splitting and writing), \<open>ZipDirectory\<close>, \<open>ZipExact\<close>
    and \<open>Validate\<close>, with a concrete archive in \<open>ArchiveWitness\<close>.  Splitting loses nothing; the directory check passes exactly the
    files whose directory is what they say it is; a validated archive is what its manifest lists.
  \<^item> \<^bold>\<open>Uploading\<close> (\<open>internal/collector/upload.go\<close>, \<open>importZIP\<close> in \<open>internal/server/routes.go\<close>): \<open>Upload\<close>, \<open>ReportJson\<close>, \<open>UploadFacts\<close>, \<open>UploadWitness\<close>.
    The response is accepted exactly when it is complete, and an upload of a valid archive, whose response has
    no line of 4 MiB, ends with the report of the import accepted.
  \<^item> \<^bold>\<open>Normalizing\<close> (\<open>internal/normalize\<close>, \<open>internal/amp\<close>): \<open>NormalizeBase\<close> for the helpers, one theory per harness (\<open>NormalizePi\<close>,
    \<open>NormalizeCodex\<close>, \<open>NormalizeGrok\<close>, \<open>NormalizeOpenCode\<close>, \<open>NormalizeCursor\<close>, \<open>NormalizeCursorAgent\<close>, \<open>NormalizeClaude\<close>, \<open>NormalizeAmp\<close>), the
    dispatch in \<open>Normalize\<close>, and facts in \<open>NormalizeFacts\<close> and \<open>PiFacts\<close>: the byte budget, clean search text, the order of Pi's entries
    and the contract every normalizer keeps (the locale \<open>normalizer\<close>, interpreted on each in \<open>Normalize\<close>).
  \<^item> \<^bold>\<open>Storing\<close> (\<open>internal/store/store.go\<close>, \<open>titles.go\<close>, \<open>maintenance.go\<close>, \<open>migrations\<close>): \<open>Database\<close> has the tables as lists of records in the state
    \<open>Store\<close>; \<open>StoreWrite\<close>, \<open>StoreRevision\<close>, \<open>StoreImport\<close>, \<open>StoreTitles\<close> and \<open>StoreMaintenance\<close> are the operations, each a function from the state to the
    state or an error.  \<open>StoreReach\<close> has the relation \<open>store_step\<close> and the states reachable by it; \<open>StoreInvariant\<close>, \<open>StoreKeep\<close>,
    \<open>StoreReindex\<close>, \<open>StoreObjects\<close>, \<open>StoreLog\<close>, \<open>StoreTables\<close> and \<open>StoreAgain\<close> the invariants every operation keeps (the locale \<open>kept\<close>, interpreted on each); \<open>StoreProperties\<close>
    and \<open>StoreRenormalize\<close> what follows; \<open>StoreDemo\<close> a small store for the examples.  A step of \<open>Renormalize\<close> is taken with a candidate
    that names a revision of its trace: the code does not check again, under the lock, the candidates it read without it, and a
    candidate made stale by a deletion and an import that gets its row ids can break what the invariants say.
  \<^item> \<^bold>\<open>Reading\<close> (\<open>internal/store/read.go\<close>, \<open>transcript.go\<close>): \<open>Cursor\<close>, \<open>EventJson\<close>, \<open>StoreRead\<close>, \<open>StoreListing\<close>, \<open>Transcript\<close>, \<open>TranscriptFacts\<close>,
    \<open>TranscriptStale\<close>.  A listing read page by page shows every row once (the locale \<open>paged\<close>, interpreted on events, imports,
    transcripts and the log).
  \<^item> \<^bold>\<open>Searching\<close> (\<open>internal/search\<close>, \<open>internal/store/search.go\<close>): \<open>SearchText\<close> (chunks and snippets), \<open>SearchQuery\<close>, \<open>FoldText\<close>, \<open>SearchIndex\<close> and \<open>SearchSound\<close>
    (the trigram query of a regular expression loses no match), \<open>StoreSearch\<close>, \<open>SearchLoop\<close> (the locale \<open>batched\<close>), \<open>StoreFound\<close>, \<open>SearchPages\<close>.
  \<^item> \<^bold>\<open>The session list and the home page\<close> (\<open>internal/store/transcript_cards.go\<close>, \<open>activity.go\<close>): \<open>Lineage\<close> (the recursive query that finds the
    top of a chain of parents), \<open>Cards\<close>, \<open>CardsFacts\<close>, \<open>CardsPages\<close> (every session with a match is listed once) and \<open>Activity\<close>,
    \<open>ActivityFacts\<close> (the counts are the numbers of cards in the lists they lead to).  Rows for which SQL leaves the order open, those
    of one event, are taken in one order.
  \<^item> \<^bold>\<open>Serving\<close> (\<open>internal/server/auth.go\<close>, \<open>logs.go\<close>): \<open>Auth\<close> (tokens, sessions, form tokens and the login: who is let in is stated by the HMAC and the expiry of what is presented) and \<open>Logs\<close>, \<open>LogsFacts\<close>, \<open>LogPages\<close> (redaction,
    the buffer of the newest thousand records and its pages).

  \<^bold>\<open>The base.\<close>  \<open>Prelude\<close> has the result type, the collections of rewrite rules and generic lemmas.  \<open>GoStrings\<close>, \<open>Utf8\<close>, \<open>GoTime\<close>, \<open>Sha256\<close> and
  \<open>GoJson\<close> are what the program uses of Go's standard library: strings are lists of bytes, a Go \<open>error\<close> is the left of a sum, a
  panic that matters is an option or an error, integers have their 64 bits where they can overflow.  \<open>Domain\<close> has the structs of
  \<open>internal/domain\<close>; \<open>JsonRoundtrip\<close>, \<open>StructRoundtrip\<close> and \<open>JsonLength\<close> show that what is encoded is read back and how long it gets.

  \<^bold>\<open>Bounds and fuel.\<close>  Loops of the code are structural recursion or have a measure: the batches of garbage collection shrink the
  table, those of \<open>Renormalize\<close> and of a search move a bound, the loop over an archive's batches takes a trace each time.  The
  JSON parser has twice the length of its input as fuel, a bound on its recursive calls, and the decoder's own limit of 10000 levels.  \<open>read_all\<close>, which
  follows cursors, has the number of pages as fuel; the theorems on listings say that one more than the number of rows is enough.
  Following parents in \<open>NormalizeClaude\<close> takes at most as many steps as there are parent links.

  \<^bold>\<open>Parameters.\<close>  The ZIP container (\<open>unzip\<close>), the file system when files are staged (\<open>walk\<close>, \<open>open_at\<close>), the HTTP connection (\<open>post\<close>), the clock,
  random texts, the local date of a time, \<open>url.Parse\<close>, and for searching the engine: FTS5's tokenizer, \<open>regexp\<close> and \<open>codesearch/index\<close>.  What is relied on is a
  hypothesis of the theorems that need it.

  \<^bold>\<open>Not modelled.\<close>  Failing disks and databases and cancelled contexts, which end an operation with an error and roll its transaction
  back; goroutines and locks, since the store has one writer (the steps of \<open>Renormalize\<close> between which the lock is free are steps of their
  own); SQL itself: a query is the function of the rows it computes, and old databases are not migrated.  The adapters that
  read each harness's files and databases or run its command line are parameters of \<open>Collect\<close>: almost all of them is file
  system, processes and SQLite.  The server's status, the title worker with its
  model client, the pages and the routing table of the server, the command lines and the web application are left out: they fetch and show what
  the parts above compute.
\<close>

end
